(* ===== verification/Prelude.thy ===== *)
theory Prelude
  imports Main "HOL-Library.Word" "HOL-Library.Monad_Syntax"
begin

text \<open>
  What every component of the development shares: names for the machine integers of the C
  code, the flat memory, the alignment macros of \<^verbatim>\<open>kfuncs.h\<close>, and the
  generic facts on words and lists the component proofs use.

  Conventions. A pointer is a 64-bit word and the null pointer is the word 0. A result of
  type \<open>'a option\<close> is \<open>None\<close> where the C code has no normal result: it reads or
  writes memory that is not there, divides by zero, or does not return. A C \<open>aos_bool\<close>
  is a \<open>bool\<close> and a \<open>size_t\<close> is a 64-bit word.
\<close>

unbundle bit_operations_syntax

type_synonym u8 = "8 word"
type_synonym u16 = "16 word"
type_synonym u32 = "32 word"
type_synonym u64 = "64 word"

text \<open>Memory: a byte for each mapped address.\<close>

type_synonym mem = "u64 \<rightharpoonup> u8"

abbreviation NULL :: u64 where "NULL \<equiv> 0"

abbreviation UINT64_MAX :: u64 where "UINT64_MAX \<equiv> 0xFFFFFFFFFFFFFFFF"

text \<open>
  The components above the console record their calls of \<open>serial_print\<close> and \<open>serial_printf\<close> as
  messages, the format and the arguments; what such a call does is the subject of \<open>Serial\<close>.
\<close>

datatype msg_arg = Num u64 | Str string

type_synonym message = "string \<times> msg_arg list"

text \<open>Facts that turn word arithmetic without wrap-around into arithmetic on \<open>nat\<close>.\<close>

named_theorems unat_arith_rules

subsection \<open>The alignment macros\<close>

text \<open>\<open>ALIGN_UP\<close> and \<open>ALIGN_DOWN\<close> of \<^verbatim>\<open>Kernel/inc/core/kfuncs.h\<close>, on 64-bit values.\<close>

definition ALIGN_UP :: "u64 \<Rightarrow> u64 \<Rightarrow> u64" where
  "ALIGN_UP x align = (x + (align - 1)) AND NOT (align - 1)"

definition ALIGN_DOWN :: "u64 \<Rightarrow> u64 \<Rightarrow> u64" where
  "ALIGN_DOWN x align = x AND NOT (align - 1)"

subsection \<open>Words\<close>

lemma u64_lt: "unat (x :: u64) < 18446744073709551616"
  using unsigned_less [of x, where ?'a = nat] by simp

lemma u64_le_max: "unat (x :: u64) \<le> 18446744073709551615"
  using u64_lt [of x] by simp

lemma unat_plus_u64 [unat_arith_rules]:
  fixes x y :: u64
  assumes "unat x + unat y < 18446744073709551616"
  shows "unat (x + y) = unat x + unat y"
  using assms by (simp add: unat_word_ariths)

lemma unat_minus_u64 [unat_arith_rules]:
  fixes x y :: u64
  assumes "y \<le> x"
  shows "unat (x - y) = unat x - unat y"
  using assms by (rule unat_sub)

lemma unat_of_nat_u64 [unat_arith_rules]:
  assumes "n < 18446744073709551616"
  shows "unat (of_nat n :: u64) = n"
  using assms by (simp add: unat_of_nat)

lemma unat_mult_u64 [unat_arith_rules]:
  fixes x y :: u64
  assumes "unat x * unat y < 18446744073709551616"
  shows "unat (x * y) = unat x * unat y"
  using assms by (simp add: unat_word_ariths)

lemma u32_lt: "unat (x :: u32) < 4294967296"
  using unsigned_less [of x, where ?'a = nat] by simp

lemma unat_ucast_u32 [unat_arith_rules]: "unat (ucast (x :: u32) :: u64) = unat x"
  using u32_lt [of x] by (simp add: unsigned_ucast_eq take_bit_nat_eq_self)

lemma u64_eqI: "unat (x :: u64) = unat y \<Longrightarrow> x = y"
  by (rule word_unat_eq_iff [THEN iffD2])

lemma unat_mask_u64:
  assumes "n < 64" shows "unat (mask n :: u64) = 2 ^ n - 1"
proof -
  have "unat (mask n :: u64) = take_bit 64 (mask n)"
    by transfer (simp add: nat_mask_eq take_bit_of_mask)
  also have "\<dots> = mask n" using assms by (simp add: min_def)
  finally show ?thesis by (simp add: mask_eq_exp_minus_1 [where ?'a = nat])
qed

lemma take_bit_drop_push:
  fixes x :: "'a::len word"
  shows "x AND NOT (mask n) = push_bit n (drop_bit n x)"
  by (rule bit_word_eqI) (auto simp: bit_simps)

lemma unat_mask_clear:
  fixes x :: "'a::len word"
  shows "unat (x AND NOT (mask n)) = unat x div 2 ^ n * 2 ^ n"
proof -
  have le: "unat x div 2 ^ n * 2 ^ n \<le> unat x" by simp
  also have "unat x < 2 ^ LENGTH('a)" by (rule unsigned_less)
  finally have lt: "unat x div 2 ^ n * 2 ^ n < 2 ^ LENGTH('a)" .
  have "unat (x AND NOT (mask n)) = take_bit LENGTH('a) (push_bit n (unat (drop_bit n x)))"
    by (simp add: take_bit_drop_push unsigned_push_bit_eq)
  also have "\<dots> = unat x div 2 ^ n * 2 ^ n"
    using lt by (simp add: drop_bit_eq_div push_bit_eq_mult take_bit_eq_mod unat_drop_bit_eq [of n x, unfolded drop_bit_eq_div])
  finally show ?thesis .
qed

lemma unat_ALIGN_DOWN:
  assumes "align = 2 ^ n" "n < 64"
  shows "unat (ALIGN_DOWN x align) = unat x div 2 ^ n * 2 ^ n"
proof -
  have "align - 1 = mask n" using assms by (simp add: mask_eq_decr_exp)
  then show ?thesis by (simp add: ALIGN_DOWN_def unat_mask_clear)
qed

lemma unat_ALIGN_UP:
  assumes "align = 2 ^ n" "n < 64" "unat x + (2 ^ n - 1) < 2 ^ 64"
  shows "unat (ALIGN_UP x align) = (unat x + (2 ^ n - 1)) div 2 ^ n * 2 ^ n"
proof -
  have m: "align - 1 = mask n" using assms by (simp add: mask_eq_decr_exp)
  have "unat (mask n :: u64) = 2 ^ n - 1"
    using assms(2) by (simp add: unat_mask_u64)
  then have "unat (x + mask n) = unat x + (2 ^ n - 1)"
    using assms(3) by (simp add: unat_word_ariths)
  then show ?thesis by (simp add: ALIGN_UP_def m unat_mask_clear)
qed

subsection \<open>Lists\<close>

lemma foldl_append_one: "foldl f a (xs @ [x]) = f (foldl f a xs) x"
  by simp

lemma nth_list_update_if: "i < length xs \<Longrightarrow> xs[i := y] ! j = (if i = j then y else xs ! j)"
  by (simp add: nth_list_update)

subsection \<open>Loops that poll\<close>

text \<open>
  A loop that gives no result only by going round forever gives one as soon as some round sees
  what it waits for.
\<close>

lemma polling_returns:
  assumes round: "\<And>t. L t = None \<Longrightarrow> \<not> E t \<and> L (step t) = None"
    and seen: "E ((step ^^ k) t)"
  shows "\<exists>r. L t = Some r"
proof (rule ccontr)
  assume "\<not> ?thesis"
  then have "L t = None" by simp
  then have "L ((step ^^ n) t) = None" for n by (induction n) (auto dest: round)
  then show False using round seen by blast
qed

end
