(* ===== verification/KMem.thy ===== *)
theory KMem
  imports Prelude
begin

text \<open>
  The memory and string primitives of \<^verbatim>\<open>Kernel/src/kfuncs.c\<close>. The routines are written
  with the x86 string instructions, so each instruction used (\<open>rep stosq\<close>, \<open>rep stosb\<close>,
  \<open>rep movsb\<close> with either direction flag, \<open>repe cmpsb\<close>, \<open>repne scasb\<close>) is a function that
  counts \<open>rcx\<close> down and moves \<open>rdi\<close> and \<open>rsi\<close>, and a routine is composed of them as in its
  \<open>asm\<close> blocks. An access to an unmapped address gives \<open>None\<close>. The loops of \<open>strcmp\<close> and
  \<open>strcpy\<close> have no bound, so they are partial functions.

  The abstract side is \<open>filled\<close> and \<open>copied\<close>, what memory looks like after a fill or a copy,
  and \<open>cstr_at\<close>, a terminated string in memory.
\<close>

subsection \<open>The string instructions\<close>

text \<open>\<open>stosb\<close>, \<open>stosq\<close>: the bytes of a quadword go to memory low byte first.\<close>

definition write_byte :: "u64 \<Rightarrow> u8 \<Rightarrow> mem \<Rightarrow> mem option" where
  "write_byte p b m = (case m p of None \<Rightarrow> None | Some _ \<Rightarrow> Some (m(p \<mapsto> b)))"

fun rep_stosb :: "nat \<Rightarrow> u64 \<Rightarrow> u8 \<Rightarrow> mem \<Rightarrow> (u64 \<times> mem) option" where
  "rep_stosb 0 rdi al m = Some (rdi, m)"
| "rep_stosb (Suc rcx) rdi al m =
     do { m' \<leftarrow> write_byte rdi al m; rep_stosb rcx (rdi + 1) al m' }"

definition qword_bytes :: "u64 \<Rightarrow> u8 list" where
  "qword_bytes w = map (\<lambda>i. ucast (drop_bit (8 * i) w)) [0..<8]"

fun write_bytes :: "u64 \<Rightarrow> u8 list \<Rightarrow> mem \<Rightarrow> mem option" where
  "write_bytes p [] m = Some m"
| "write_bytes p (b # bs) m = do { m' \<leftarrow> write_byte p b m; write_bytes (p + 1) bs m' }"

fun rep_stosq :: "nat \<Rightarrow> u64 \<Rightarrow> u64 \<Rightarrow> mem \<Rightarrow> (u64 \<times> mem) option" where
  "rep_stosq 0 rdi rax m = Some (rdi, m)"
| "rep_stosq (Suc rcx) rdi rax m =
     do { m' \<leftarrow> write_bytes rdi (qword_bytes rax) m; rep_stosq rcx (rdi + 8) rax m' }"

text \<open>\<open>movsb\<close> with the direction flag clear (\<open>cld\<close>) and set (\<open>std\<close>).\<close>

fun rep_movsb :: "nat \<Rightarrow> u64 \<Rightarrow> u64 \<Rightarrow> mem \<Rightarrow> (u64 \<times> mem) option" where
  "rep_movsb 0 rdi rsi m = Some (rdi, m)"
| "rep_movsb (Suc rcx) rdi rsi m =
     do { b \<leftarrow> m rsi; m' \<leftarrow> write_byte rdi b m; rep_movsb rcx (rdi + 1) (rsi + 1) m' }"

fun rep_movsb_std :: "nat \<Rightarrow> u64 \<Rightarrow> u64 \<Rightarrow> mem \<Rightarrow> (u64 \<times> mem) option" where
  "rep_movsb_std 0 rdi rsi m = Some (rdi, m)"
| "rep_movsb_std (Suc rcx) rdi rsi m =
     do { b \<leftarrow> m rsi; m' \<leftarrow> write_byte rdi b m; rep_movsb_std rcx (rdi - 1) (rsi - 1) m' }"

text \<open>\<open>repe cmpsb\<close> gives the zero flag and the advanced \<open>rsi\<close> and \<open>rdi\<close>.\<close>

fun repe_cmpsb :: "nat \<Rightarrow> u64 \<Rightarrow> u64 \<Rightarrow> mem \<Rightarrow> (bool \<times> u64 \<times> u64) option" where
  "repe_cmpsb 0 rsi rdi m = Some (True, rsi, rdi)"
| "repe_cmpsb (Suc rcx) rsi rdi m =
     do { a \<leftarrow> m rsi; b \<leftarrow> m rdi;
          if a = b then repe_cmpsb rcx (rsi + 1) (rdi + 1) m
          else Some (False, rsi + 1, rdi + 1) }"

text \<open>\<open>repne scasb\<close> gives the \<open>rcx\<close> it stops with.\<close>

function repne_scasb :: "u64 \<Rightarrow> u64 \<Rightarrow> u8 \<Rightarrow> mem \<Rightarrow> u64 option" where
  "repne_scasb rcx rdi al m =
     (if rcx = 0 then Some 0
      else do { b \<leftarrow> m rdi;
                if b = al then Some (rcx - 1) else repne_scasb (rcx - 1) (rdi + 1) al m })"
  by pat_completeness auto
termination
  by (relation "measure (\<lambda>(rcx, rdi, al, m). unat rcx)") (auto simp: measure_unat)

declare repne_scasb.simps [simp del]

subsection \<open>memset, memcpy, memcmp, memmove\<close>

definition memset :: "u64 \<Rightarrow> 32 word \<Rightarrow> u64 \<Rightarrow> mem \<Rightarrow> (u64 \<times> mem) option" where
  "memset s c n m =
     (if s = NULL then Some (NULL, m)
      else if n = 0 then Some (s, m)
      else do {
        (ptr, remaining, m1) \<leftarrow>
          (if 8 \<le> n then do {
             let pattern = 0x0101010101010101 * (ucast (ucast c :: u8) :: u64);
             (ptr, m1) \<leftarrow> rep_stosq (unat (n div 8)) s pattern m;
             Some (ptr, n - (n div 8) * 8, m1) }
           else Some (s, n, m));
        (_, m2) \<leftarrow>
          (if 0 < remaining \<and> ptr \<noteq> NULL then rep_stosb (unat remaining) ptr (ucast c) m1
           else Some (ptr, m1));
        Some (s, m2) })"

text \<open>
  The \<open>asm\<close> operand \<open>"+D"(dest)\<close> is read and written: after the block the C variable \<open>dest\<close>
  holds the advanced \<open>rdi\<close>, and that is what is returned.
\<close>

definition memcpy :: "u64 \<Rightarrow> u64 \<Rightarrow> u64 \<Rightarrow> mem \<Rightarrow> (u64 \<times> mem) option" where
  "memcpy dest src n m =
     (if dest = NULL \<or> src = NULL then Some (NULL, m)
      else if n = 0 \<or> dest = src then Some (dest, m)
      else do { (dest', m') \<leftarrow> rep_movsb (unat n) dest src m; Some (dest', m') })"

definition memcmp :: "u64 \<Rightarrow> u64 \<Rightarrow> u64 \<Rightarrow> mem \<Rightarrow> int option" where
  "memcmp s1 s2 n m =
     (if s1 = NULL \<or> s2 = NULL then Some (- 1)
      else if n = 0 then Some 0
      else if s1 = s2 then Some 0
      else do {
        (zf, rsi, rdi) \<leftarrow> repe_cmpsb (unat n) s1 s2 m;
        if zf then Some 0
        else do { a \<leftarrow> m (rsi - 1); d \<leftarrow> m (rdi - 1); Some (uint a - uint d) } })"

definition memmove :: "u64 \<Rightarrow> u64 \<Rightarrow> u64 \<Rightarrow> mem \<Rightarrow> (u64 \<times> mem) option" where
  "memmove dest src n m =
     (if dest = NULL \<or> src = NULL then Some (NULL, m)
      else if n = 0 \<or> dest = src then Some (dest, m)
      else if dest < src then memcpy dest src n m
      else do {
        (_, m') \<leftarrow> rep_movsb_std (unat n) (dest + (n - 1)) (src + (n - 1)) m;
        Some (dest, m') })"

subsection \<open>strcmp, strncmp, strlen, strcpy, strncpy\<close>

partial_function (option) strcmp_loop :: "u64 \<Rightarrow> u64 \<Rightarrow> mem \<Rightarrow> int option" where
  "strcmp_loop s1 s2 m =
     do { a \<leftarrow> m s1; b \<leftarrow> m s2;
          if a \<noteq> 0 \<and> a = b then strcmp_loop (s1 + 1) (s2 + 1) m
          else Some (uint a - uint b) }"

definition strcmp :: "u64 \<Rightarrow> u64 \<Rightarrow> mem \<Rightarrow> int option" where
  "strcmp s1 s2 m =
     (if s1 = NULL \<or> s2 = NULL then Some (- 1)
      else if s1 = s2 then Some 0
      else strcmp_loop s1 s2 m)"

fun strncmp_loop :: "nat \<Rightarrow> u64 \<Rightarrow> u64 \<Rightarrow> mem \<Rightarrow> int option" where
  "strncmp_loop 0 s1 s2 m = Some 0"
| "strncmp_loop (Suc n) s1 s2 m =
     do { a \<leftarrow> m s1; b \<leftarrow> m s2;
          if a \<noteq> 0 \<and> a = b then strncmp_loop n (s1 + 1) (s2 + 1) m
          else Some (uint a - uint b) }"

definition strncmp :: "u64 \<Rightarrow> u64 \<Rightarrow> u64 \<Rightarrow> mem \<Rightarrow> int option" where
  "strncmp s1 s2 n m =
     (if s1 = NULL \<or> s2 = NULL then Some (- 1)
      else if n = 0 then Some 0
      else if s1 = s2 then Some 0
      else strncmp_loop (unat n) s1 s2 m)"

definition strlen :: "u64 \<Rightarrow> mem \<Rightarrow> u64 option" where
  "strlen s m =
     (if s = NULL then Some 0
      else do { rcx \<leftarrow> repne_scasb (- 1) s 0 m; Some (NOT rcx - 1) })"

partial_function (option) strcpy_loop :: "u64 \<Rightarrow> u64 \<Rightarrow> mem \<Rightarrow> mem option" where
  "strcpy_loop dest src m =
     do { b \<leftarrow> m src; m' \<leftarrow> write_byte dest b m;
          if b \<noteq> 0 then strcpy_loop (dest + 1) (src + 1) m' else Some m' }"

definition strcpy :: "u64 \<Rightarrow> u64 \<Rightarrow> mem \<Rightarrow> (u64 \<times> mem) option" where
  "strcpy dest src m =
     (if dest = NULL \<or> src = NULL then Some (NULL, m)
      else if dest = src then Some (dest, m)
      else do { m' \<leftarrow> strcpy_loop dest src m; Some (dest, m') })"

text \<open>The first loop of \<open>strncpy\<close> gives the \<open>n\<close> and \<open>dest\<close> it stops with.\<close>

fun strncpy_copy :: "nat \<Rightarrow> u64 \<Rightarrow> u64 \<Rightarrow> mem \<Rightarrow> (nat \<times> u64 \<times> mem) option" where
  "strncpy_copy 0 dest src m = Some (0, dest, m)"
| "strncpy_copy (Suc n) dest src m =
     do { b \<leftarrow> m src;
          if b \<noteq> 0
          then do { m' \<leftarrow> write_byte dest b m; strncpy_copy n (dest + 1) (src + 1) m' }
          else Some (Suc n, dest, m) }"

fun strncpy_pad :: "nat \<Rightarrow> u64 \<Rightarrow> mem \<Rightarrow> mem option" where
  "strncpy_pad 0 dest m = Some m"
| "strncpy_pad (Suc n) dest m =
     do { m' \<leftarrow> write_byte dest 0 m; strncpy_pad n (dest + 1) m' }"

definition strncpy :: "u64 \<Rightarrow> u64 \<Rightarrow> u64 \<Rightarrow> mem \<Rightarrow> (u64 \<times> mem) option" where
  "strncpy dest src n m =
     (if dest = NULL \<or> src = NULL then Some (NULL, m)
      else if n = 0 then Some (dest, m)
      else if dest = src then Some (dest, m)
      else do {
        (n', dest', m1) \<leftarrow> strncpy_copy (unat n) dest src m;
        m2 \<leftarrow> strncpy_pad n' dest' m1;
        Some (dest, m2) })"

text \<open>\<open>kcompute_checksum\<close> adds up \<open>len\<close> bytes in 64 bits.\<close>

fun checksum_loop :: "nat \<Rightarrow> u64 \<Rightarrow> u64 \<Rightarrow> mem \<Rightarrow> u64 option" where
  "checksum_loop 0 data acc m = Some acc"
| "checksum_loop (Suc k) data acc m =
     do { b \<leftarrow> m data; checksum_loop k (data + 1) (acc + ucast b) m }"

definition kcompute_checksum :: "u64 \<Rightarrow> u32 \<Rightarrow> mem \<Rightarrow> u64 option" where
  "kcompute_checksum data len m = checksum_loop (unat len) data 0 m"

subsection \<open>Filling and copying\<close>

text \<open>Distances between addresses: the step from a range at \<open>p\<close> to the rest at \<open>p + 1\<close>.\<close>

lemma unat_dist_Suc:
  fixes k :: u64
  assumes "n < 18446744073709551616"
  shows "unat k < Suc n \<longleftrightarrow> k = 0 \<or> unat (k - 1) < n"
proof (cases "k = 0")
  case False
  then have "unat (k - 1) = unat k - 1" and "0 < unat k"
    by (auto simp: unat_minus_one unat_gt_0)
  then show ?thesis using False by auto
qed simp

lemma unat_pred_zero: "unat (0 - 1 :: u64) = 18446744073709551615"
  by (simp add: unsigned_minus_1_eq_mask mask_eq_exp_minus_1)

lemma minus_Suc_u64: "a - (p + 1) = a - p - (1 :: u64)"
  by (rule diff_diff_eq [symmetric])

text \<open>The specification side: a range that is there, a range filled with a byte, a range copied.\<close>

definition mapped :: "mem \<Rightarrow> u64 \<Rightarrow> nat \<Rightarrow> bool" where
  "mapped m p n \<longleftrightarrow> (\<forall>a. unat (a - p) < n \<longrightarrow> m a \<noteq> None)"

definition filled :: "mem \<Rightarrow> u64 \<Rightarrow> nat \<Rightarrow> u8 \<Rightarrow> mem" where
  "filled m p n b = (\<lambda>a. if unat (a - p) < n then Some b else m a)"

definition copied :: "mem \<Rightarrow> u64 \<Rightarrow> u64 \<Rightarrow> nat \<Rightarrow> mem" where
  "copied m d s n = (\<lambda>a. if unat (a - d) < n then m (s + (a - d)) else m a)"

lemma mapped_0 [simp]: "mapped m p 0"
  by (simp add: mapped_def)

lemma mapped_Suc:
  assumes "n < 18446744073709551616"
  shows "mapped m p (Suc n) \<longleftrightarrow> m p \<noteq> None \<and> mapped m (p + 1) n"
proof -
  show ?thesis
    unfolding mapped_def unat_dist_Suc [OF assms] minus_Suc_u64 by auto
qed

lemma mapped_upd [simp]: "mapped m p n \<Longrightarrow> mapped (m(a \<mapsto> b)) p n"
  by (simp add: mapped_def)

lemma unat_of_nat_le: "unat (of_nat k :: u64) \<le> k"
  by (simp add: unat_of_nat take_bit_eq_mod)

lemma mapped_nth:
  assumes "mapped m p n" "i < n"
  shows "\<exists>b. m (p + of_nat i) = Some b"
proof -
  have "unat (p + of_nat i - p) \<le> i" using unat_of_nat_le by simp
  then show ?thesis using assms unfolding mapped_def by (meson not_None_eq le_less_trans)
qed

lemma mapped_drop:
  assumes "mapped m p (n + k)"
  shows "mapped m (p + of_nat k) n"
  unfolding mapped_def
proof (intro allI impI)
  fix a :: u64
  assume *: "unat (a - (p + of_nat k)) < n"
  have "a - p = (a - (p + of_nat k)) + of_nat k" by simp
  then have "unat (a - p) \<le> unat (a - (p + of_nat k)) + unat (of_nat k :: u64)"
    by (metis unat_word_ariths(1) mod_less_eq_dividend)
  then show "m a \<noteq> None" using * unat_of_nat_le [of k] assms unfolding mapped_def by fastforce
qed

lemma mapped_filled: "mapped m p n \<Longrightarrow> mapped (filled m q k b) p n"
  by (simp add: mapped_def filled_def)

lemma write_byte_mapped: "m p \<noteq> None \<Longrightarrow> write_byte p b m = Some (m(p \<mapsto> b))"
  by (auto simp: write_byte_def)

lemma filled_step:
  assumes "n < 18446744073709551616"
  shows "filled (m(p \<mapsto> b)) (p + 1) n b = filled m p (Suc n) b"
proof
  fix a
  show "filled (m(p \<mapsto> b)) (p + 1) n b a = filled m p (Suc n) b a"
    unfolding filled_def minus_Suc_u64
    using unat_dist_Suc [OF assms, of "a - p"] by auto
qed

lemma rep_stosb_filled:
  "n \<le> 18446744073709551616 \<Longrightarrow> mapped m p n \<Longrightarrow>
   rep_stosb n p b m = Some (p + of_nat n, filled m p n b)"
proof (induction n arbitrary: p m)
  case 0
  show ?case by (simp add: filled_def)
next
  case (Suc n)
  then have n: "n < 18446744073709551616" by simp
  from Suc.prems(2) have "m p \<noteq> None" "mapped m (p + 1) n" by (simp_all add: mapped_Suc [OF n])
  then show ?case
    using Suc.IH [of "m(p \<mapsto> b)" "p + 1"] n
    by (simp add: write_byte_mapped filled_step fun_upd_def [symmetric] add.assoc)
qed

lemma copied_step:
  assumes n: "n < 18446744073709551616" and far: "Suc n \<le> unat (d - s)" and b: "m s = Some b"
  shows "copied (m(d \<mapsto> b)) (d + 1) (s + 1) n = copied m d s (Suc n)"
proof
  fix a
  note a1 = minus_Suc_u64
  have a2: "s + 1 + (a - d - 1) = s + (a - d)" by simp
  have ne: "s + (a - d) \<noteq> d" if "unat (a - d) < Suc n"
  proof
    assume "s + (a - d) = d"
    then have "a - d = d - s" by (simp add: algebra_simps)
    then show False using that far by simp
  qed
  have lt: "unat (a - d) < Suc n \<longleftrightarrow> a = d \<or> unat (a - d - 1) < n"
    using unat_dist_Suc [OF n, of "a - d"] by simp
  show "copied (m(d \<mapsto> b)) (d + 1) (s + 1) n a = copied m d s (Suc n) a"
  proof (cases "a = d")
    case True
    then show ?thesis using b n unfolding copied_def a1 a2 by (simp add: unat_pred_zero)
  next
    case False
    then show ?thesis using lt ne unfolding copied_def a1 a2 by auto
  qed
qed

lemma rep_movsb_copied:
  "n \<le> unat (d - s) \<Longrightarrow> mapped m d n \<Longrightarrow> mapped m s n \<Longrightarrow>
   rep_movsb n d s m = Some (d + of_nat n, copied m d s n)"
proof (induction n arbitrary: d s m)
  case 0
  show ?case by (simp add: copied_def)
next
  case (Suc n)
  have n: "n < 18446744073709551616" using Suc.prems(1) u64_lt [of "d - s"] by simp
  from Suc.prems(3) obtain b where b: "m s = Some b" by (auto simp: mapped_Suc [OF n])
  from Suc.prems have "m d \<noteq> None" "mapped m (d + 1) n" "mapped m (s + 1) n"
    by (simp_all add: mapped_Suc [OF n])
  then have "rep_movsb n (d + 1) (s + 1) (m(d \<mapsto> b)) =
      Some (d + 1 + of_nat n, copied (m(d \<mapsto> b)) (d + 1) (s + 1) n)"
    using Suc.prems(1) by (intro Suc.IH) (simp_all del: fun_upd_apply)
  then show ?case
    using \<open>m d \<noteq> None\<close> b
    by (simp add: write_byte_mapped copied_step [OF n Suc.prems(1), where m = m and b = b] add.assoc)
qed

text \<open>Backward copies are described from their last byte, with distances measured downwards.\<close>

definition mapped_down :: "mem \<Rightarrow> u64 \<Rightarrow> nat \<Rightarrow> bool" where
  "mapped_down m p n \<longleftrightarrow> (\<forall>a. unat (p - a) < n \<longrightarrow> m a \<noteq> None)"

definition copied_down :: "mem \<Rightarrow> u64 \<Rightarrow> u64 \<Rightarrow> nat \<Rightarrow> mem" where
  "copied_down m d s n = (\<lambda>a. if unat (d - a) < n then m (s - (d - a)) else m a)"

lemma minus_pred_u64: "p - 1 - a = p - a - (1 :: u64)"
  by simp

lemma mapped_down_Suc:
  assumes "n < 18446744073709551616"
  shows "mapped_down m p (Suc n) \<longleftrightarrow> m p \<noteq> None \<and> mapped_down m (p - 1) n"
  unfolding mapped_down_def unat_dist_Suc [OF assms] minus_pred_u64 by auto

lemma mapped_down_upd [simp]: "mapped_down m p n \<Longrightarrow> mapped_down (m(a \<mapsto> b)) p n"
  by (simp add: mapped_down_def)

lemma copied_down_step:
  assumes n: "n < 18446744073709551616" and far: "Suc n \<le> unat (s - d)" and b: "m s = Some b"
  shows "copied_down (m(d \<mapsto> b)) (d - 1) (s - 1) n = copied_down m d s (Suc n)"
proof
  fix a
  have a2: "s - 1 - (d - 1 - a) = s - (d - a)" by simp
  have ne: "s - (d - a) \<noteq> d" if "unat (d - a) < Suc n"
  proof
    assume "s - (d - a) = d"
    then have "d - a = s - d" by (metis add_diff_cancel diff_add_cancel diff_diff_eq2 add.commute)
    then have "unat (d - a) = unat (s - d)" by (rule arg_cong)
    then show False using that far by linarith
  qed
  have lt: "unat (d - a) < Suc n \<longleftrightarrow> a = d \<or> unat (d - 1 - a) < n"
    using unat_dist_Suc [OF n, of "d - a"] unfolding minus_pred_u64 by auto
  show "copied_down (m(d \<mapsto> b)) (d - 1) (s - 1) n a = copied_down m d s (Suc n) a"
  proof (cases "a = d")
    case True
    then show ?thesis using b n unfolding copied_down_def a2 by (simp add: unat_pred_zero)
  next
    case False
    note ad = False
    show ?thesis
    proof (cases "unat (d - a) < Suc n")
      case True
      then have "unat (d - 1 - a) < n" using lt ad by simp
      with True show ?thesis unfolding copied_down_def a2
        by (simp only: if_True fun_upd_other [OF ne [OF True]])
    next
      case False
      then have "\<not> unat (d - 1 - a) < n" using lt by blast
      with False show ?thesis unfolding copied_down_def a2
        by (simp only: if_False fun_upd_other [OF ad])
    qed
  qed
qed

lemma rep_movsb_std_copied:
  "n \<le> unat (s - d) \<Longrightarrow> mapped_down m d n \<Longrightarrow> mapped_down m s n \<Longrightarrow>
   rep_movsb_std n d s m = Some (d - of_nat n, copied_down m d s n)"
proof (induction n arbitrary: d s m)
  case 0
  show ?case by (simp add: copied_down_def)
next
  case (Suc n)
  have n: "n < 18446744073709551616" using Suc.prems(1) u64_lt [of "s - d"] by simp
  from Suc.prems(3) obtain b where b: "m s = Some b" by (auto simp: mapped_down_Suc [OF n])
  from Suc.prems have "m d \<noteq> None" "mapped_down m (d - 1) n" "mapped_down m (s - 1) n"
    by (simp_all add: mapped_down_Suc [OF n])
  then have "rep_movsb_std n (d - 1) (s - 1) (m(d \<mapsto> b)) =
      Some (d - 1 - of_nat n, copied_down (m(d \<mapsto> b)) (d - 1) (s - 1) n)"
    using Suc.prems(1) by (intro Suc.IH) (simp_all del: fun_upd_apply)
  then show ?case
    using \<open>m d \<noteq> None\<close> b
    by (simp add: write_byte_mapped copied_down_step [OF n Suc.prems(1), where m = m and b = b] algebra_simps)
qed

lemma dist_reverse:
  fixes a :: u64
  assumes "0 < n"
  shows "unat (p + (n - 1) - a) < unat n \<longleftrightarrow> unat (a - p) < unat n"
proof -
  have *: "unat (n - 1 - k) < unat n" if "unat k < unat n" for k :: u64
  proof -
    have "n \<noteq> 0" using assms by auto
    then have "k \<le> n - 1" using that by (auto simp: word_le_nat_alt unat_minus_one)
    then have "unat (n - 1 - k) = unat (n - 1) - unat k" by (rule unat_sub)
    then show ?thesis using assms by (simp add: unat_minus_one unat_gt_0 [symmetric] word_gt_0)
  qed
  have e: "p + (n - 1) - a = n - 1 - (a - p)" "a - p = n - 1 - (p + (n - 1) - a)" by simp_all
  show ?thesis using * [of "a - p"] * [of "p + (n - 1) - a"] e by metis
qed

lemma mapped_down_top:
  "0 < n \<Longrightarrow> mapped_down m (p + (n - 1)) (unat n) = mapped m p (unat n)"
  by (simp add: mapped_def mapped_down_def dist_reverse)

lemma copied_down_top:
  assumes n: "0 < n"
  shows "copied_down m (d + (n - 1)) (s + (n - 1)) (unat n) = copied m d s (unat n)"
proof
  fix a
  have "s + (n - 1) - (d + (n - 1) - a) = s + (a - d)" by simp
  then show "copied_down m (d + (n - 1)) (s + (n - 1)) (unat n) a = copied m d s (unat n) a"
    unfolding copied_def copied_down_def dist_reverse [OF n] by simp
qed

lemma div_mod_middle_byte:
  fixes b :: nat
  assumes "lo * b < p" "b < 256"
  shows "(hi * (256 * p) + p + lo) * b div p mod 256 = b"
proof -
  have "(hi * (256 * p) + p + lo) * b = lo * b + (256 * (hi * b) + b) * p"
    by (simp add: algebra_simps)
  then have "(hi * (256 * p) + p + lo) * b div p = 256 * (hi * b) + b"
    using assms(1) by simp
  then show ?thesis using assms(2) by simp
qed

lemma memset_pattern_byte:
  fixes b :: u8
  shows "qword_bytes (0x0101010101010101 * ucast b) = replicate 8 b"
proof -
  have b: "unat b < 256" using unsigned_less [of b, where ?'a = nat] by simp
  have u: "unat (0x0101010101010101 * ucast b :: u64) = 0x0101010101010101 * unat b"
    using b by (simp add: unat_word_ariths unsigned_ucast_eq take_bit_eq_mod)
  have "(ucast (drop_bit (8 * i) (0x0101010101010101 * ucast b :: u64)) :: u8) = b"
    if "i < 8" for i
  proof -
    have c0: "0x0101010101010101 * unat b div 2 ^ (8 * 0) mod 256 = unat b"
      using b div_mod_middle_byte [of 0 "unat b" "2 ^ (8 * 0)" "0x01010101010101"] by simp
    have c1: "0x0101010101010101 * unat b div 2 ^ (8 * 1) mod 256 = unat b"
      using b div_mod_middle_byte [of 1 "unat b" "2 ^ (8 * 1)" "0x010101010101"] by simp
    have c2: "0x0101010101010101 * unat b div 2 ^ (8 * 2) mod 256 = unat b"
      using b div_mod_middle_byte [of "0x0101" "unat b" "2 ^ (8 * 2)" "0x0101010101"] by simp
    have c3: "0x0101010101010101 * unat b div 2 ^ (8 * 3) mod 256 = unat b"
      using b div_mod_middle_byte [of "0x010101" "unat b" "2 ^ (8 * 3)" "0x01010101"] by simp
    have c4: "0x0101010101010101 * unat b div 2 ^ (8 * 4) mod 256 = unat b"
      using b div_mod_middle_byte [of "0x01010101" "unat b" "2 ^ (8 * 4)" "0x010101"] by simp
    have c5: "0x0101010101010101 * unat b div 2 ^ (8 * 5) mod 256 = unat b"
      using b div_mod_middle_byte [of "0x0101010101" "unat b" "2 ^ (8 * 5)" "0x0101"] by simp
    have c6: "0x0101010101010101 * unat b div 2 ^ (8 * 6) mod 256 = unat b"
      using b div_mod_middle_byte [of "0x010101010101" "unat b" "2 ^ (8 * 6)" "1"] by simp
    have c7: "0x0101010101010101 * unat b div 2 ^ (8 * 7) mod 256 = unat b"
      using b div_mod_middle_byte [of "0x01010101010101" "unat b" "2 ^ (8 * 7)" "0"] by simp
    have "i = 0 \<or> i = 1 \<or> i = 2 \<or> i = 3 \<or> i = 4 \<or> i = 5 \<or> i = 6 \<or> i = 7"
      using that by linarith
    then have "(0x0101010101010101 * unat b) div 2 ^ (8 * i) mod 256 = unat b"
      using c0 c1 c2 c3 c4 c5 c6 c7 by (elim disjE) (simp_all only:)
    then have "unat (ucast (drop_bit (8 * i) (0x0101010101010101 * ucast b :: u64)) :: u8) = unat b"
      using unat_drop_bit_eq [of "8 * i" "0x0101010101010101 * ucast b :: u64"]
      by (simp add: unsigned_ucast_eq take_bit_eq_mod u drop_bit_eq_div [where ?'a = nat])
    then show ?thesis by (rule word_unat_eq_iff [THEN iffD2])
  qed
  then have "qword_bytes (0x0101010101010101 * ucast b) = map (\<lambda>i. b) [0..<8]"
    unfolding qword_bytes_def by (intro map_cong) auto
  then show ?thesis by (simp add: map_replicate_const)
qed

lemma rep_stosb_ptr: "rep_stosb n p b m = Some (p', m') \<Longrightarrow> p' = p + of_nat n"
proof (induction n arbitrary: p m)
  case (Suc n)
  then obtain m1 where "rep_stosb n (p + 1) b m1 = Some (p', m')"
    by (auto split: bind_splits)
  from Suc.IH [OF this] show ?case by simp
qed simp

lemma rep_stosb_add:
  "rep_stosb (k + n) p b m =
   do { (p', m') \<leftarrow> rep_stosb k p b m; rep_stosb n p' b m' }"
proof (induction k arbitrary: p m)
  case (Suc k)
  then show ?case by (cases "write_byte p b m") simp_all
qed simp

lemma write_bytes_replicate:
  "write_bytes p (replicate k b) m = map_option snd (rep_stosb k p b m)"
proof (induction k arbitrary: p m)
  case (Suc k)
  then show ?case by (cases "write_byte p b m") simp_all
qed simp

lemma rep_stosq_eq_stosb:
  assumes w: "qword_bytes w = replicate 8 b"
  shows "rep_stosq n p w m = rep_stosb (8 * n) p b m"
proof (induction n arbitrary: p m)
  case (Suc n)
  have "rep_stosb (8 * Suc n) p b m = do { (p', m') \<leftarrow> rep_stosb 8 p b m; rep_stosb (8 * n) p' b m' }"
    using rep_stosb_add [of 8 "8 * n" p b m] by simp
  moreover have "rep_stosq (Suc n) p w m =
      do { m' \<leftarrow> map_option snd (rep_stosb 8 p b m); rep_stosb (8 * n) (p + 8) b m' }"
    by (cases "rep_stosb 8 p b m") (simp_all add: w write_bytes_replicate Suc.IH)
  ultimately show ?case
    using rep_stosb_ptr [of 8 p b m] by (cases "rep_stosb 8 p b m") auto
qed simp

lemma mapped_mono: "mapped m p n \<Longrightarrow> k \<le> n \<Longrightarrow> mapped m p k"
  by (auto simp: mapped_def)

lemma unat_div8_mult: "unat (n - n div 8 * 8 :: u64) = unat n mod 8"
  by (simp add: minus_div_mult_eq_mod unat_mod_distrib)

text \<open>\<open>memset\<close> on a mapped range that does not wrap around the address space fills exactly that range with the low byte of \<open>c\<close> and returns \<open>s\<close>, although it writes most of it as quadwords of a replicated pattern.\<close>

lemma memset_fills:
  assumes s: "s \<noteq> NULL" and wrap: "unat s + unat n \<le> 18446744073709551616"
    and mp: "mapped m s (unat n)"
  shows "memset s c n m = Some (s, filled m s (unat n) (ucast c))"
proof -
  let ?b = "ucast c :: u8" and ?q = "unat n div 8" and ?r = "unat n mod 8"
  let ?w = "0x0101010101010101 * ucast ?b :: u64"
  have all: "rep_stosb (unat n) s ?b m = Some (s + n, filled m s (unat n) ?b)"
    using rep_stosb_filled [OF _ mp, of ?b] u64_lt [of n] by simp
  have "mapped m s (8 * ?q)" using mp by (rule mapped_mono) simp
  then have q: "rep_stosb (8 * ?q) s ?b m = Some (s + of_nat (8 * ?q), filled m s (8 * ?q) ?b)"
    using u64_lt [of n] by (intro rep_stosb_filled) simp_all
  have r: "rep_stosb ?r (s + of_nat (8 * ?q)) ?b (filled m s (8 * ?q) ?b) =
      Some (s + n, filled m s (unat n) ?b)"
    using all rep_stosb_add [of "8 * ?q" ?r s ?b m] q by simp
  have ptr: "s + of_nat (8 * ?q) \<noteq> NULL" if "0 < ?r"
  proof -
    have "8 * ?q < unat n" using that by (metis add.commute div_mult_mod_eq less_add_same_cancel1 mult.commute)
    moreover have "0 < unat s" using s by (simp add: unat_gt_0)
    moreover have "unat (of_nat (8 * ?q) :: u64) = 8 * ?q"
      using u64_lt [of n] by (intro unat_of_nat_u64) linarith
    ultimately have "0 < unat (s + of_nat (8 * ?q))"
      using wrap by (subst unat_plus_u64) linarith+
    then show ?thesis unfolding unat_gt_0 .
  qed
  have rs: "rep_stosq (unat (n div 8)) s ?w m = Some (s + of_nat (8 * ?q), filled m s (8 * ?q) ?b)"
    using q by (simp add: rep_stosq_eq_stosb [OF memset_pattern_byte] unat_div_distrib)
  have rem: "0 < n - n div 8 * 8 \<longleftrightarrow> 0 < ?r" "unat (n - n div 8 * 8) = ?r"
    using unat_div8_mult [of n] by (simp_all only: word_less_nat_alt unat_0)
  consider "n = 0" | "n \<noteq> 0" "\<not> 8 \<le> n" | "8 \<le> n" "?r = 0" | "8 \<le> n" "0 < ?r" by auto
  then show ?thesis
  proof cases
    case 1
    then show ?thesis by (simp add: memset_def s filled_def)
  next
    case 2
    then show ?thesis using all s by (simp add: memset_def word_gt_0)
  next
    case 3
    then show ?thesis using rs r rem s by (auto simp: memset_def Let_def)
  next
    case 4
    then show ?thesis using rs r rem s ptr by (auto simp: memset_def Let_def)
  qed
qed

subsection \<open>Copying and comparing\<close>

lemma copied_0 [simp]: "copied m d s 0 = m"
  by (simp add: copied_def)

lemma copied_self: "copied m d d n = m"
  by (auto simp: copied_def fun_eq_iff)

lemma dist_below:
  fixes d s :: u64
  assumes "d < s" "unat s + n \<le> 18446744073709551616"
  shows "n \<le> unat (d - s)"
proof -
  have "unat (d - s) = unat d + (18446744073709551616 - unat s)"
    using assms by (simp add: unat_sub_if_size word_less_nat_alt word_le_nat_alt word_size)
  then show ?thesis using assms(2) by linarith
qed

lemma memcpy_copies:
  assumes nn: "dest \<noteq> NULL" "src \<noteq> NULL" and far: "unat n \<le> unat (dest - src) \<or> dest = src"
    and mp: "mapped m dest (unat n)" "mapped m src (unat n)"
  shows "memcpy dest src n m =
    Some (if dest = src then dest else dest + n, copied m dest src (unat n))"
proof (cases "dest = src \<or> n = 0")
  case True
  then show ?thesis using nn by (auto simp: memcpy_def copied_self)
next
  case False
  then show ?thesis
    using nn far rep_movsb_copied [OF _ mp] by (auto simp: memcpy_def)
qed

lemma memmove_copied:
  assumes nn: "dest \<noteq> NULL" "src \<noteq> NULL"
    and wrap: "unat dest + unat n \<le> 18446744073709551616" "unat src + unat n \<le> 18446744073709551616"
    and mp: "mapped m dest (unat n)" "mapped m src (unat n)"
  shows "memmove dest src n m =
    Some (if dest < src then dest + n else dest, copied m dest src (unat n))"
proof -
  consider "n = 0" | "dest = src" | "n \<noteq> 0" "dest < src" | "n \<noteq> 0" "src < dest"
    by (meson linorder_neqE)
  then show ?thesis
  proof cases
    case 1
    then show ?thesis using nn by (simp add: memmove_def)
  next
    case 2
    then show ?thesis using nn by (simp add: memmove_def copied_self)
  next
    case 3
    then have "memcpy dest src n m = Some (dest + n, copied m dest src (unat n))"
      using memcpy_copies [OF nn _ mp] dist_below [OF 3(2) wrap(2)] by auto
    then show ?thesis using 3 nn by (auto simp: memmove_def)
  next
    case 4
    have n: "0 < n" using 4(1) by (simp add: word_gt_0)
    have "unat n \<le> unat (src - dest)" by (rule dist_below [OF 4(2) wrap(1)])
    moreover have "src + (n - 1) - (dest + (n - 1)) = src - dest" by simp
    ultimately have "rep_movsb_std (unat n) (dest + (n - 1)) (src + (n - 1)) m =
        Some (dest + (n - 1) - of_nat (unat n), copied m dest src (unat n))"
      using mp rep_movsb_std_copied [of "unat n" "src + (n - 1)" "dest + (n - 1)" m]
      by (simp only: mapped_down_top [OF n] copied_down_top [OF n])
    then show ?thesis using 4 nn by (auto simp: memmove_def)
  qed
qed

text \<open>C3: \<open>memmove\<close> on mapped ranges that do not wrap around leaves at the destination what the source held before, for every overlap. The returned pointer is \<open>dest\<close> only in the backward case; the forward case returns the advanced pointer of \<open>memcpy\<close>.\<close>

theorem memmove_copies:
  assumes nn: "dest \<noteq> NULL" "src \<noteq> NULL"
    and wrap: "unat dest + unat n \<le> 18446744073709551616" "unat src + unat n \<le> 18446744073709551616"
    and mp: "mapped m dest (unat n)" "mapped m src (unat n)"
  shows "memmove dest src n m =
    Some (if dest < src then dest + n else dest, copied m dest src (unat n))"
  using assms by (rule memmove_copied)

text \<open>\<open>read_bytes\<close> is the content of a range.\<close>

fun read_bytes :: "mem \<Rightarrow> u64 \<Rightarrow> nat \<Rightarrow> u8 list option" where
  "read_bytes m p 0 = Some []"
| "read_bytes m p (Suc n) = do { b \<leftarrow> m p; bs \<leftarrow> read_bytes m (p + 1) n; Some (b # bs) }"

lemma read_bytes_iff:
  "read_bytes m p n = Some bs \<longleftrightarrow> length bs = n \<and> (\<forall>i<n. m (p + of_nat i) = Some (bs ! i))"
proof (induction n arbitrary: p bs)
  case (Suc n)
  have "(\<forall>i<Suc n. m (p + of_nat i) = Some ((b # cs) ! i)) \<longleftrightarrow>
    m p = Some b \<and> (\<forall>i<n. m (p + 1 + of_nat i) = Some (cs ! i))" for b cs
    by (auto simp: All_less_Suc2 add.assoc)
  then show ?case using Suc.IH [of "p + 1"] by (cases bs) (auto simp: bind_eq_Some_conv)
qed auto

lemma read_bytes_frame:
  "(\<And>i. i < n \<Longrightarrow> m' (p + of_nat i) = m (p + of_nat i)) \<Longrightarrow> read_bytes m' p n = read_bytes m p n"
proof (induction n arbitrary: p)
  case (Suc n)
  have "m' p = m p" using Suc.prems [of 0] by simp
  moreover have "m' (p + 1 + of_nat i) = m (p + 1 + of_nat i)" if "i < n" for i
    using Suc.prems [of "Suc i"] that by (simp add: add.assoc)
  ultimately show ?case using Suc.IH [of "p + 1"] by simp
qed simp

lemma read_bytes_mapped: "read_bytes m p n = Some bs \<Longrightarrow> n \<le> 2 ^ 64 \<Longrightarrow> mapped m p n"
  unfolding mapped_def read_bytes_iff
proof (intro allI impI)
  fix a assume r: "length bs = n \<and> (\<forall>i<n. m (p + of_nat i) = Some (bs ! i))" "n \<le> 2 ^ 64" "unat (a - p) < n"
  then have "m (p + of_nat (unat (a - p))) = Some (bs ! unat (a - p))" by blast
  then show "m a \<noteq> None" by simp
qed

lemma read_bytes_drop:
  "read_bytes m p n = Some bs \<Longrightarrow> k + j \<le> n \<Longrightarrow> read_bytes m (p + of_nat k) j = Some (take j (drop k bs))"
  by (auto simp: read_bytes_iff add.assoc simp flip: of_nat_add)

lemma uint_cmp:
  fixes a b :: u8
  shows "uint a = uint b \<longleftrightarrow> a = b" "uint a < uint b \<longleftrightarrow> a < b"
    "uint a = 0 \<longleftrightarrow> a = 0" "0 < uint a \<longleftrightarrow> a \<noteq> 0"
proof -
  show "uint a = uint b \<longleftrightarrow> a = b" by (simp only: word_uint_eq_iff)
  show "uint a < uint b \<longleftrightarrow> a < b" by (simp only: word_less_def)
  show z: "uint a = 0 \<longleftrightarrow> a = 0" by (simp add: word_uint_eq_iff)
  then show "0 < uint a \<longleftrightarrow> a \<noteq> 0" using uint_ge_0 [of a] by linarith
qed

lemma repe_cmpsb_lex:
  "read_bytes m p n = Some xs \<Longrightarrow> read_bytes m q n = Some ys \<Longrightarrow>
   \<exists>zf rsi rdi. repe_cmpsb n p q m = Some (zf, rsi, rdi) \<and> (zf \<longleftrightarrow> xs = ys) \<and>
     (\<not> zf \<longrightarrow> (\<exists>a b. m (rsi - 1) = Some a \<and> m (rdi - 1) = Some b \<and> a \<noteq> b \<and>
                     (a < b \<longleftrightarrow> ord_class.lexordp xs ys)))"
proof (induction n arbitrary: p q xs ys)
  case (Suc n)
  from Suc.prems obtain a xs' b ys' where
    x: "m p = Some a" "read_bytes m (p + 1) n = Some xs'" "xs = a # xs'" and
    y: "m q = Some b" "read_bytes m (q + 1) n = Some ys'" "ys = b # ys'"
    by (auto split: bind_splits)
  show ?case
  proof (cases "a = b")
    case True
    have "repe_cmpsb (Suc n) p q m = repe_cmpsb n (p + 1) (q + 1) m" using x y True by simp
    moreover have "xs = ys \<longleftrightarrow> xs' = ys'" "ord_class.lexordp xs ys \<longleftrightarrow> ord_class.lexordp xs' ys'"
      using x y True by simp_all
    ultimately show ?thesis using Suc.IH [OF x(2) y(2)] by (simp only:)
  next
    case False
    then have "repe_cmpsb (Suc n) p q m = Some (False, p + 1, q + 1)" using x y by simp
    moreover have "xs \<noteq> ys" "a < b \<longleftrightarrow> ord_class.lexordp xs ys" using x y False by auto
    ultimately show ?thesis using x(1) y(1) False by (intro exI [of _ False]) simp
  qed
next
  case 0
  then show ?case by (intro exI [of _ True]) auto
qed

text \<open>\<open>memcmp\<close> on readable ranges returns, with sign zero exactly for equal ranges and negative exactly when the first is lexicographically smaller as unsigned bytes.\<close>

lemma memcmp_lex:
  assumes nn: "s1 \<noteq> NULL" "s2 \<noteq> NULL"
    and rd: "read_bytes m s1 (unat n) = Some xs" "read_bytes m s2 (unat n) = Some ys"
  shows "\<exists>r. memcmp s1 s2 n m = Some r \<and> (r = 0 \<longleftrightarrow> xs = ys) \<and>
    (r < 0 \<longleftrightarrow> ord_class.lexordp xs ys)"
proof (cases "n = 0 \<or> s1 = s2")
  case True
  then have "xs = ys" using rd by auto
  moreover have "memcmp s1 s2 n m = Some 0" using True nn by (auto simp: memcmp_def)
  ultimately show ?thesis using lexordp_irreflexive [of ys] by auto
next
  case False
  from repe_cmpsb_lex [OF rd] obtain zf rsi rdi where
    r: "repe_cmpsb (unat n) s1 s2 m = Some (zf, rsi, rdi)" "zf \<longleftrightarrow> xs = ys"
    "\<not> zf \<longrightarrow> (\<exists>a b. m (rsi - 1) = Some a \<and> m (rdi - 1) = Some b \<and> a \<noteq> b \<and>
      (a < b \<longleftrightarrow> ord_class.lexordp xs ys))" by blast
  have "memcmp s1 s2 n m = (if zf then Some 0
      else do { a \<leftarrow> m (rsi - 1); d \<leftarrow> m (rdi - 1); Some (uint a - uint d) })"
    using False nn r(1) by (simp add: memcmp_def)
  then show ?thesis
    using r(2,3) lexordp_irreflexive [of ys] by (cases zf) (auto simp: uint_cmp)
qed

subsection \<open>Terminated strings\<close>

fun cstr_at :: "mem \<Rightarrow> u64 \<Rightarrow> u8 list \<Rightarrow> bool" where
  "cstr_at m p [] \<longleftrightarrow> m p = Some 0"
| "cstr_at m p (x # xs) \<longleftrightarrow> x \<noteq> 0 \<and> m p = Some x \<and> cstr_at m (p + 1) xs"

lemma cstr_at_unique: "cstr_at m p xs \<Longrightarrow> cstr_at m p ys \<Longrightarrow> xs = ys"
proof (induction xs arbitrary: p ys)
  case Nil
  then show ?case by (cases ys) auto
next
  case (Cons x xs)
  then show ?case by (cases ys) auto
qed

lemma strcmp_loop_lex:
  "cstr_at m p xs \<Longrightarrow> cstr_at m q ys \<Longrightarrow>
   \<exists>r. strcmp_loop p q m = Some r \<and> (r = 0 \<longleftrightarrow> xs = ys) \<and> (r < 0 \<longleftrightarrow> ord_class.lexordp xs ys)"
proof (induction xs arbitrary: p q ys)
  case Nil
  then show ?case
    by (cases ys) (auto simp: strcmp_loop.simps [of p q] uint_cmp word_gt_0)
next
  case (Cons x xs)
  show ?case
  proof (cases ys)
    case Nil
    then show ?thesis
      using Cons.prems by (auto simp: strcmp_loop.simps [of p q] uint_cmp word_gt_0)
  next
    case (Cons y ys')
    then show ?thesis
      using Cons.prems Cons.IH [of "p + 1" "q + 1" ys']
      by (auto simp: strcmp_loop.simps [of p q] uint_cmp)
  qed
qed

text \<open>\<open>strcmp\<close> on two terminated strings returns, and its sign is the lexicographic order of the strings as unsigned bytes.\<close>

lemma strcmp_lex:
  assumes "s1 \<noteq> NULL" "s2 \<noteq> NULL" "cstr_at m s1 xs" "cstr_at m s2 ys"
  shows "\<exists>r. strcmp s1 s2 m = Some r \<and> (r = 0 \<longleftrightarrow> xs = ys) \<and>
    (r < 0 \<longleftrightarrow> ord_class.lexordp xs ys)"
  using assms strcmp_loop_lex [OF assms(3,4)] cstr_at_unique [OF assms(3), of ys]
    lexordp_irreflexive [of ys]
  by (auto simp: strcmp_def)

lemma repne_scasb_cstr:
  "cstr_at m p xs \<Longrightarrow> length xs < unat rcx \<Longrightarrow>
   repne_scasb rcx p 0 m = Some (rcx - of_nat (length xs) - 1)"
proof (induction xs arbitrary: p rcx)
  case Nil
  then have "rcx \<noteq> 0" by auto
  then show ?case using Nil by (simp add: repne_scasb.simps [of rcx p])
next
  case (Cons x xs)
  then have "rcx \<noteq> 0" by auto
  moreover from this have "length xs < unat (rcx - 1)"
    using Cons.prems(2) by (simp add: unat_minus_one)
  ultimately show ?case
    using Cons.prems(1) Cons.IH [of "p + 1" "rcx - 1"] by (simp add: repne_scasb.simps [of rcx p])
qed

text \<open>\<open>strlen\<close> on a terminated string returns its length.\<close>

lemma strlen_cstr:
  assumes "s \<noteq> NULL" "cstr_at m s xs" "length xs < 18446744073709551615"
  shows "strlen s m = Some (of_nat (length xs))"
proof -
  have "unat (- 1 :: u64) = 18446744073709551615" using unat_pred_zero by simp
  then show ?thesis
    using assms repne_scasb_cstr [OF assms(2), of "- 1"] by (simp add: strlen_def not_eq_complement)
qed

lemma copied_Suc_upd:
  "m s = Some b \<Longrightarrow> Suc n \<le> unat (d - s) \<Longrightarrow> 
   copied (m(d \<mapsto> b)) (d + 1) (s + 1) n = copied m d s (Suc n)"
  using u64_lt [of "d - s"] by (intro copied_step) simp_all

lemma cstr_at_upd_far:
  "cstr_at m (s + 1) xs \<Longrightarrow> Suc (length xs) < unat (d - s) \<Longrightarrow> cstr_at (m(d \<mapsto> b)) (s + 1) xs"
proof (induction xs arbitrary: s)
  case Nil
  then have "s + 1 \<noteq> d" by (auto)
  then show ?case using Nil by simp
next
  case (Cons x xs)
  have ne: "s + 1 \<noteq> d" using Cons.prems by auto
  have "d - s \<noteq> 0" using Cons.prems(2) by auto
  then have "unat (d - (s + 1)) = unat (d - s) - 1" by (simp add: minus_Suc_u64 unat_minus_one)
  then show ?case using Cons.IH [of "s + 1"] Cons.prems ne by (simp del: fun_upd_apply add: fun_upd_other)
qed

lemma strcpy_loop_copied:
  "cstr_at m src xs \<Longrightarrow> length xs < unat (dest - src) \<Longrightarrow> mapped m dest (Suc (length xs)) \<Longrightarrow>
   strcpy_loop dest src m = Some (copied m dest src (Suc (length xs)))"
proof (induction xs arbitrary: dest src m)
  case Nil
  then have "strcpy_loop dest src m = Some (m(dest \<mapsto> 0))"
    by (simp add: strcpy_loop.simps [of dest src] write_byte_mapped mapped_Suc)
  moreover have "copied (m(dest \<mapsto> 0)) (dest + 1) (src + 1) 0 = copied m dest src (Suc 0)"
    using Nil by (intro copied_Suc_upd) simp_all
  ultimately show ?case by simp
next
  case (Cons x xs)
  have n: "Suc (length xs) < 18446744073709551616" using Cons.prems(2) u64_lt [of "dest - src"] by simp
  from Cons.prems have x: "x \<noteq> 0" "m src = Some x" "cstr_at m (src + 1) xs" by simp_all
  have mp: "m dest \<noteq> None" "mapped m (dest + 1) (Suc (length xs))"
    using Cons.prems(3) mapped_Suc [OF n, of m dest] by (simp_all)
  have "strcpy_loop (dest + 1) (src + 1) (m(dest \<mapsto> x)) =
      Some (copied (m(dest \<mapsto> x)) (dest + 1) (src + 1) (Suc (length xs)))"
  proof (rule Cons.IH)
    show "cstr_at (m(dest \<mapsto> x)) (src + 1) xs"
      using x(3) Cons.prems(2) by (intro cstr_at_upd_far) simp_all
  qed (use Cons.prems mp in \<open>simp_all del: fun_upd_apply\<close>)
  also have "\<dots> = Some (copied m dest src (Suc (Suc (length xs))))"
    using x Cons.prems(2) by (simp only: copied_Suc_upd length_Cons Suc_leI)
  finally show ?case
    using x mp by (simp add: strcpy_loop.simps [of dest src] write_byte_mapped)
qed

lemma cstr_at_copied:
  assumes "cstr_at m src xs" "length xs < 18446744073709551615"
  shows "cstr_at (copied m dest src (Suc (length xs))) dest xs"
proof -
  have *: "cstr_at m (src + of_nat i) (drop i xs) \<Longrightarrow> i \<le> length xs \<Longrightarrow>
      cstr_at (copied m dest src (Suc (length xs))) (dest + of_nat i) (drop i xs)" for i
  proof (induction "length xs - i" arbitrary: i)
    case 0
    then show ?case using assms(2) by (simp add: copied_def unat_of_nat_u64)
  next
    case (Suc k)
    then have i: "i < length xs" by simp
    then have d: "drop i xs = xs ! i # drop (Suc i) xs" by (rule Cons_nth_drop_Suc [symmetric])
    then have "xs ! i \<noteq> 0 \<and> m (src + of_nat i) = Some (xs ! i)"
      "cstr_at m (src + of_nat (Suc i)) (drop (Suc i) xs)" using Suc.prems by (simp_all add: ac_simps)
    then show ?case
      using Suc.hyps(1) [of "Suc i"] Suc.hyps(2) i d assms(2) 
      by (simp add: copied_def unat_of_nat_u64 ac_simps)
  qed
  show ?thesis using * [of 0] assms(1) by simp
qed

text \<open>\<open>strcpy\<close> of a terminated string into a mapped buffer that the string does not run into returns, copies the bytes and the terminator and nothing else, and leaves the same string at the destination.\<close>

lemma strcpy_copies:
  assumes "dest \<noteq> NULL" "src \<noteq> NULL" "cstr_at m src xs" "dest \<noteq> src \<Longrightarrow> length xs < unat (dest - src)"
    "mapped m dest (Suc (length xs))" "length xs < 18446744073709551615"
  shows "\<exists>m'. strcpy dest src m = Some (dest, m') \<and> m' = copied m dest src (Suc (length xs)) \<and>
    cstr_at m' dest xs"
proof (cases "dest = src")
  case True
  then show ?thesis using assms by (simp add: strcpy_def copied_self)
next
  case False
  then show ?thesis
    using assms strcpy_loop_copied [OF assms(3) _ assms(5)] cstr_at_copied [OF assms(3,6)]
    by (simp add: strcpy_def)
qed

subsection \<open>Instances on a small memory\<close>

lemma mapped_numeral:
  "pred_numeral k < 18446744073709551616 \<Longrightarrow>
   mapped m p (numeral k) \<longleftrightarrow> m p \<noteq> None \<and> mapped m (p + 1) (pred_numeral k)"
  unfolding numeral_eq_Suc [of k] by (rule mapped_Suc)

lemma read_bytes_numeral [simp]:
  "read_bytes m p (numeral k) =
   do { b \<leftarrow> m p; bs \<leftarrow> read_bytes m (p + 1) (pred_numeral k); Some (b # bs) }"
  by (simp add: numeral_eq_Suc [of k])

definition sample_mem :: mem where
  "sample_mem = [0x1000 \<mapsto> 97, 0x1001 \<mapsto> 98, 0x1002 \<mapsto> 99, 0x1003 \<mapsto> 0, 0x1004 \<mapsto> 97, 0x1005 \<mapsto> 100, 0x1006 \<mapsto> 0]"

theorem memmove_copies_witness:
  "map_option (\<lambda>(r, m'). (r, map m' [0x1000, 0x1001, 0x1002, 0x1003, 0x1004])) (memmove 0x1001 0x1000 3 sample_mem) =
     Some (0x1001, [Some 97, Some 97, Some 98, Some 99, Some 97])"
proof -
  have "mapped sample_mem 0x1001 (unat (3 :: u64))" "mapped sample_mem 0x1000 (unat (3 :: u64))"
    by (simp_all add: mapped_numeral mapped_Suc sample_mem_def)
  from memmove_copies [OF _ _ _ _ this]
  show ?thesis by (simp add: copied_def sample_mem_def unat_pred_zero [simplified])
qed


end
