(* ===== verification/KConv.thy ===== *)
theory KConv
  imports Prelude
begin

text \<open>
  Character classes, number parsing and number printing of \<^verbatim>\<open>Kernel/src/kfuncs.c\<close>.

  A \<open>char *\<close> is the list of the bytes from the pointer to the end of its object, so reading
  past the end is the \<open>[]\<close> case and gives \<open>None\<close>; a null pointer is \<open>None\<close> as argument. An
  output buffer is the list of its bytes, written by index; a write past its end gives
  \<open>None\<close>. Comparing a signed \<open>char\<close> with the bounds of an ASCII range gives the same answer
  as comparing the byte, because both bounds are below 128.
\<close>

subsection \<open>Character classes\<close>

definition kc_is_alpha :: "u8 \<Rightarrow> bool" where
  "kc_is_alpha c = (let c' = c OR 0x20 in 97 \<le> c' \<and> c' \<le> 122)"

definition kc_is_digit :: "u8 \<Rightarrow> bool" where
  "kc_is_digit c \<longleftrightarrow> 48 \<le> c \<and> c \<le> 57"

definition kc_is_alphanum :: "u8 \<Rightarrow> bool" where
  "kc_is_alphanum c \<longleftrightarrow> kc_is_alpha c \<or> kc_is_digit c"

definition kc_is_printable :: "u8 \<Rightarrow> bool" where
  "kc_is_printable c \<longleftrightarrow> 32 \<le> c \<and> c \<le> 126"

text \<open>The loop that \<open>kis_alpha\<close>, \<open>kis_digit\<close>, \<open>kis_alphanum\<close> and \<open>kis_printable\<close> share.\<close>

fun kis_all :: "(u8 \<Rightarrow> bool) \<Rightarrow> u8 list \<Rightarrow> bool option" where
  "kis_all P [] = None"
| "kis_all P (c # s) = (if c = 0 then Some True else if \<not> P c then Some False else kis_all P s)"

definition kis_alpha :: "u8 list \<Rightarrow> bool option" where "kis_alpha = kis_all kc_is_alpha"
definition kis_digit :: "u8 list \<Rightarrow> bool option" where "kis_digit = kis_all kc_is_digit"
definition kis_alphanum :: "u8 list \<Rightarrow> bool option" where "kis_alphanum = kis_all kc_is_alphanum"
definition kis_printable :: "u8 list \<Rightarrow> bool option" where "kis_printable = kis_all kc_is_printable"

fun kis_float_loop :: "u8 list \<Rightarrow> bool \<Rightarrow> bool \<Rightarrow> bool option" where
  "kis_float_loop [] has_digit has_dot = None"
| "kis_float_loop (c # s) has_digit has_dot =
     (if c = 0 then Some has_digit
      else if kc_is_digit c then kis_float_loop s True has_dot
      else if c = 46 \<and> \<not> has_dot then kis_float_loop s has_digit True
      else Some False)"

fun kis_float :: "u8 list option \<Rightarrow> bool option" where
  "kis_float None = Some False"
| "kis_float (Some []) = None"
| "kis_float (Some (c # s)) =
     (if c = 0 then Some False
      else if c = 43 \<or> c = 45 then kis_float_loop s False False
      else kis_float_loop (c # s) False False)"

definition kchar_to_digit :: "u8 \<Rightarrow> int" where
  "kchar_to_digit c =
     (if 48 \<le> c \<and> c \<le> 57 then uint c - 48
      else if 97 \<le> c \<and> c \<le> 122 then uint c - 97 + 10
      else if 65 \<le> c \<and> c \<le> 90 then uint c - 65 + 10
      else - 1)"

subsection \<open>Parsing numbers\<close>

text \<open>\<open>str_to_uint\<close>: hexadecimal after a \<open>0x\<close> prefix, else decimal, modulo \<open>2 ^ 32\<close>.\<close>

fun str_to_uint_hex :: "u8 list \<Rightarrow> u32 \<Rightarrow> u32 option" where
  "str_to_uint_hex [] result = None"
| "str_to_uint_hex (c # str) result =
     (if c = 0 then Some result
      else let r = push_bit 4 result in
        if 48 \<le> c \<and> c \<le> 57 then str_to_uint_hex str (r + ucast (c - 48))
        else if 97 \<le> c \<and> c \<le> 102 then str_to_uint_hex str (r + ucast (c - 97 + 10))
        else if 65 \<le> c \<and> c \<le> 70 then str_to_uint_hex str (r + ucast (c - 65 + 10))
        else Some r)"

fun str_to_uint_dec :: "u8 list \<Rightarrow> u32 \<Rightarrow> u32 option" where
  "str_to_uint_dec [] result = None"
| "str_to_uint_dec (c # str) result =
     (if 48 \<le> c \<and> c \<le> 57 then str_to_uint_dec str (result * 10 + ucast (c - 48))
      else Some result)"

fun str_to_uint :: "u8 list option \<Rightarrow> u32 option" where
  "str_to_uint None = Some 0"
| "str_to_uint (Some []) = None"
| "str_to_uint (Some [c]) = (if c = 48 then None else str_to_uint_dec [c] 0)"
| "str_to_uint (Some (c # d # str)) =
     (if c = 48 \<and> (d = 120 \<or> d = 88) then str_to_uint_hex str 0
      else str_to_uint_dec (c # d # str) 0)"

text \<open>
  The loop of \<open>kstr_to_u64\<close> and of \<open>kstr_to_i64\<close>: \<open>Inl\<close> is the return on overflow, \<open>Inr\<close> the
  value after the loop. \<open>base\<close> is between 2 and 36 here.
\<close>

fun kstr_loop :: "u8 list \<Rightarrow> int \<Rightarrow> u64 \<Rightarrow> (unit + u64) option" where
  "kstr_loop [] base result = None"
| "kstr_loop (c # str) base result =
     (if c = 0 then Some (Inr result)
      else let digit = kchar_to_digit c in
        if digit < 0 \<or> base \<le> digit then Some (Inr result)
        else if (UINT64_MAX - of_int digit) div of_int base < result then Some (Inl ())
        else kstr_loop str base (result * of_int base + of_int digit))"

definition kstr_to_u64 :: "u8 list option \<Rightarrow> int \<Rightarrow> u64 option" where
  "kstr_to_u64 str base =
     (case str of None \<Rightarrow> Some 0
      | Some s \<Rightarrow>
          if base < 2 \<or> 36 < base then Some 0
          else case s of [] \<Rightarrow> None
            | c # s' \<Rightarrow> do {
                r \<leftarrow> kstr_loop (if c = 43 then s' else s) base 0;
                Some (case r of Inl _ \<Rightarrow> UINT64_MAX | Inr v \<Rightarrow> v) })"

text \<open>An \<open>int64_t\<close> is a 64-bit word that is read with \<open>sint\<close>.\<close>

abbreviation INT64_MAX :: u64 where "INT64_MAX \<equiv> 0x7FFFFFFFFFFFFFFF"
abbreviation INT64_MIN :: u64 where "INT64_MIN \<equiv> 0x8000000000000000"

definition kstr_to_i64 :: "u8 list option \<Rightarrow> int \<Rightarrow> u64 option" where
  "kstr_to_i64 str base =
     (case str of None \<Rightarrow> Some 0
      | Some s \<Rightarrow>
          if base < 2 \<or> 36 < base then Some 0
          else case s of [] \<Rightarrow> None
            | c # s' \<Rightarrow> do {
                let neg = (c = 45);
                r \<leftarrow> kstr_loop (if c = 45 \<or> c = 43 then s' else s) base 0;
                Some (case r of
                    Inl _ \<Rightarrow> (if neg then INT64_MIN else INT64_MAX)
                  | Inr result \<Rightarrow>
                      if neg then (if INT64_MAX + 1 < result then INT64_MIN else - result)
                      else if INT64_MAX < result then INT64_MAX
                      else result) })"

subsection \<open>Printing numbers\<close>

definition put :: "u8 list \<Rightarrow> nat \<Rightarrow> u8 \<Rightarrow> u8 list option" where
  "put buf p c = (if p < length buf then Some (buf[p := c]) else None)"

definition digit_char :: "u64 \<Rightarrow> bool \<Rightarrow> u8" where
  "digit_char digit caps =
     ucast (if digit < 10 then 48 + digit else (if caps then 65 else 97) + digit - 10)"

text \<open>
  The \<open>do \<dots> while (val)\<close> loop that both printers share: the bytes go to \<open>p\<close>, and \<open>csize\<close>
  counts them. \<open>Inl\<close> is the return of \<open>NULL\<close> when \<open>csize\<close> reaches \<open>max_size\<close> (\<open>Inl\<close> holds
  the buffer as it is left). \<open>base\<close> is the \<open>int\<close> converted to 64 bits, and a zero base
  divides by zero.
\<close>

function digits_loop ::
  "u64 \<Rightarrow> u8 list \<Rightarrow> nat \<Rightarrow> u64 \<Rightarrow> u64 \<Rightarrow> u64 \<Rightarrow> bool \<Rightarrow> (u8 list + u8 list \<times> nat \<times> u64) option"
  where
  "digits_loop val buf p csize max_size base caps =
     (if base = 0 then None
      else do {
        buf' \<leftarrow> put buf p (digit_char (val mod base) caps);
        if csize + 1 = max_size then Some (Inl buf')
        else if val div base = 0 then Some (Inr (buf', p + 1, csize + 1))
        else digits_loop (val div base) buf' (p + 1) (csize + 1) max_size base caps })"
  by pat_completeness auto
termination
proof (relation "measure (\<lambda>(val, buf, p, csize, max_size, base, caps). length buf - p)")
  fix val :: u64 and buf :: "u8 list" and p :: nat and csize max_size base :: u64 and caps :: bool
    and buf' :: "u8 list"
  assume "put buf p (digit_char (val mod base) caps) = Some buf'"
  then have "p < length buf" "length buf' = length buf" by (auto simp: put_def split: if_splits)
  then show "((val div base, buf', p + 1, csize + 1, max_size, base, caps),
      (val, buf, p, csize, max_size, base, caps))
    \<in> measure (\<lambda>(val, buf, p, csize, max_size, base, caps). length buf - p)" by simp
qed simp

declare digits_loop.simps [simp del]

text \<open>The loop that reverses the bytes from \<open>start\<close> to \<open>end\<close> in place.\<close>

function reverse_loop :: "u8 list \<Rightarrow> nat \<Rightarrow> nat \<Rightarrow> u8 list" where
  "reverse_loop buf start end =
     (if start < end
      then reverse_loop (buf[start := buf ! end, end := buf ! start]) (start + 1) (end - 1)
      else buf)"
  by pat_completeness auto
termination
  by (relation "measure (\<lambda>(buf, start, end). end - start)") auto

declare reverse_loop.simps [simp del]

text \<open>The result says whether the returned pointer is \<open>buf\<close> (else \<open>NULL\<close>), with the buffer.\<close>

definition print_end :: "u8 list \<Rightarrow> nat \<Rightarrow> u64 \<Rightarrow> u64 \<Rightarrow> (bool \<times> u8 list) option" where
  "print_end buf p csize max_size =
     do { buf' \<leftarrow> put buf p 0;
          if csize + 1 = max_size then Some (False, buf')
          else Some (True, reverse_loop buf' 0 (p - 1)) }"

definition ku64_to_str ::
  "u64 \<Rightarrow> u8 list option \<Rightarrow> u64 \<Rightarrow> int \<Rightarrow> bool \<Rightarrow> (bool \<times> u8 list) option" where
  "ku64_to_str v buf max_size base caps =
     (case buf of None \<Rightarrow> Some (False, [])
      | Some b \<Rightarrow>
          if max_size = 0 then Some (False, b)
          else do {
            r \<leftarrow> digits_loop v b 0 0 max_size (of_int base) caps;
            case r of Inl b1 \<Rightarrow> Some (False, b1)
            | Inr (b1, p, csize) \<Rightarrow> print_end b1 p csize max_size })"

definition ki64_to_str ::
  "u64 \<Rightarrow> u8 list option \<Rightarrow> u64 \<Rightarrow> int \<Rightarrow> bool \<Rightarrow> (bool \<times> u8 list) option" where
  "ki64_to_str v buf max_size base caps =
     (case buf of None \<Rightarrow> Some (False, [])
      | Some b \<Rightarrow>
          if max_size = 0 then Some (False, b)
          else do {
            let neg = (base = 10 \<and> sint v < 0);
            let val = (if neg then (- (v + 1)) + 1 else v);
            r \<leftarrow> digits_loop val b 0 0 max_size (of_int base) caps;
            case r of Inl b1 \<Rightarrow> Some (False, b1)
            | Inr (b1, p, csize) \<Rightarrow>
                if neg then do {
                  b2 \<leftarrow> put b1 p 45;
                  if csize + 1 = max_size then Some (False, b2)
                  else print_end b2 (p + 1) (csize + 1) max_size }
                else print_end b1 p csize max_size })"

subsection \<open>The value of a numeral\<close>

text \<open>
  The specification side: which characters are digits of a base, the value of a digit
  string, and the digits of a number, least significant first.
\<close>

definition valid_digit :: "int \<Rightarrow> u8 \<Rightarrow> bool" where
  "valid_digit base c \<longleftrightarrow> 0 \<le> kchar_to_digit c \<and> kchar_to_digit c < base"

definition numeral_value :: "nat \<Rightarrow> nat \<Rightarrow> u8 list \<Rightarrow> nat" where
  "numeral_value base v s = foldl (\<lambda>v c. v * base + nat (kchar_to_digit c)) v s"

lemma numeral_value_simps [simp]:
  "numeral_value base v [] = v"
  "numeral_value base v (c # s) = numeral_value base (v * base + nat (kchar_to_digit c)) s"
  by (simp_all add: numeral_value_def)

lemma numeral_value_ge: "0 < base \<Longrightarrow> v \<le> numeral_value base v s"
proof (induction s arbitrary: v)
  case (Cons c s)
  have "v \<le> v * base + nat (kchar_to_digit c)" using Cons.prems by (simp add: trans_le_add1)
  also have "\<dots> \<le> numeral_value base (v * base + nat (kchar_to_digit c)) s" by (rule Cons.IH [OF Cons.prems])
  finally show ?case by simp
qed simp

lemma not_valid_digit_0: "\<not> valid_digit base 0"
  by (simp add: valid_digit_def kchar_to_digit_def)

lemma kstr_overflow_test:
  fixes result :: u64
  assumes d: "0 \<le> digit" "digit < base" and b: "base \<le> 36"
  shows "(UINT64_MAX - of_int digit) div of_int base < result \<longleftrightarrow>
    18446744073709551615 < unat result * nat base + nat digit"
proof -
  have ud: "unat (of_int digit :: u64) = nat digit" "unat (of_int base :: u64) = nat base"
    using d b by (simp_all add: unsigned_of_int take_bit_int_eq_self)
  have "of_int digit \<le> UINT64_MAX" using ud d b by (simp add: word_le_nat_alt)
  then have "unat (UINT64_MAX - of_int digit) = 18446744073709551615 - nat digit"
    using ud by (simp add: unat_sub)
  then have "(UINT64_MAX - of_int digit) div of_int base < result \<longleftrightarrow>
      (18446744073709551615 - nat digit) div nat base < unat result"
    by (simp add: word_less_nat_alt unat_div_distrib ud)
  also have "\<dots> \<longleftrightarrow> 18446744073709551615 - nat digit < unat result * nat base"
    using d by (intro div_less_iff_less_mult) simp
  also have "\<dots> \<longleftrightarrow> 18446744073709551615 < unat result * nat base + nat digit"
    using d b by linarith
  finally show ?thesis .
qed

lemma kstr_loop_value:
  assumes b: "2 \<le> base" "base \<le> 36"
  shows "\<exists>c \<in> set s. \<not> valid_digit base c \<Longrightarrow>
   kstr_loop s base result =
   Some (let v = numeral_value (nat base) (unat result) (takeWhile (valid_digit base) s) in
     if 18446744073709551615 < v then Inl () else Inr (of_nat v))"
proof (induction s arbitrary: result)
  case (Cons c s)
  let ?d = "kchar_to_digit c"
  show ?case
  proof (cases "valid_digit base c")
    case False
    then show ?thesis
      using u64_lt [of result] by (auto simp: valid_digit_def not_less not_le)
  next
    case True
    then have d: "0 \<le> ?d" "?d < base" by (simp_all add: valid_digit_def)
    have c0: "c \<noteq> 0" using True not_valid_digit_0 [of base] by auto
    let ?v = "unat result * nat base + nat ?d"
    show ?thesis
    proof (cases "18446744073709551615 < ?v")
      case True
      have "?v \<le> numeral_value (nat base) ?v (takeWhile (valid_digit base) s)"
        using b by (intro numeral_value_ge) simp
      then show ?thesis
        using True c0 d \<open>valid_digit base c\<close> by (simp add: kstr_overflow_test [OF d b(2)] Let_def)
    next
      case False
      have ud: "unat (of_int ?d :: u64) = nat ?d" "unat (of_int base :: u64) = nat base"
        using d b by (simp_all add: unsigned_of_int take_bit_int_eq_self)
      have r: "unat (result * of_int base + of_int ?d) = ?v"
        using False by (simp add: unat_word_ariths ud)
      have "\<exists>c \<in> set s. \<not> valid_digit base c" using Cons.prems \<open>valid_digit base c\<close> by auto
      from Cons.IH [OF this, of "result * of_int base + of_int ?d"] show ?thesis
        using False c0 d \<open>valid_digit base c\<close>
        by (simp add: kstr_overflow_test [OF d b(2)] r Let_def)
    qed
  qed
qed simp

declare kstr_loop.simps [simp del]

text \<open>A terminated digit string: the longest prefix of digits is \<open>ds\<close>.\<close>

definition digit_string :: "int \<Rightarrow> u8 list \<Rightarrow> u8 list \<Rightarrow> bool" where
  "digit_string base s ds \<longleftrightarrow>
     (\<exists>c \<in> set s. \<not> valid_digit base c) \<and> ds = takeWhile (valid_digit base) s"

lemma digit_string_loop:
  assumes "2 \<le> base" "base \<le> 36" "digit_string base s ds"
  shows "kstr_loop s base 0 = Some (let v = numeral_value (nat base) 0 ds in
    if 18446744073709551615 < v then Inl () else Inr (of_nat v))"
  using kstr_loop_value [OF assms(1,2), of s 0] assms(3) by (simp add: digit_string_def)

lemma digit_string_not_Nil: "digit_string base s ds \<Longrightarrow> s \<noteq> []"
  by (auto simp: digit_string_def)

lemma kstr_to_u64_digits:
  assumes b: "2 \<le> base" "base \<le> 36"
    and s: "digit_string base s ds" "lead \<or> hd s \<noteq> 43"
  shows "kstr_to_u64 (Some (if lead then 43 # s else s)) base =
    Some (of_nat (min (numeral_value (nat base) 0 ds) 18446744073709551615))"
proof -
  from digit_string_not_Nil [OF s(1)] obtain c s' where cs: "s = c # s'" by (cases s) auto
  then show ?thesis
    using b s(2) digit_string_loop [OF b s(1)] by (auto simp: kstr_to_u64_def Let_def min_def)
qed

text \<open>\<open>kstr_to_u64\<close> of a terminated string, with an optional plus sign, returns the value of its longest prefix of digits of the base, and \<open>UINT64_MAX\<close> when that value does not fit: the overflow test is exact in every base.\<close>

lemma kstr_to_u64_saturates:
  assumes "2 \<le> base" "base \<le> 36" "digit_string base s ds"
    and "sign = [43] \<or> sign = [] \<and> hd s \<noteq> 43"
  shows "kstr_to_u64 (Some (sign @ s)) base =
    Some (of_nat (min (numeral_value (nat base) 0 ds) 18446744073709551615))"
  using assms(4) kstr_to_u64_digits [OF assms(1-3), of True] kstr_to_u64_digits [OF assms(1-3), of False]
  by auto

lemma sint_of_nat_u64: "n < 9223372036854775808 \<Longrightarrow> sint (of_nat n :: u64) = int n"
proof -
  assume n: "n < 9223372036854775808"
  have "sint (of_int (int n) :: u64) = signed_take_bit 63 (int n)"
    by (simp only: signed_of_int) simp
  also have "\<dots> = int n" using n by (intro signed_take_bit_int_eq_self) simp_all
  finally show ?thesis by simp
qed

lemma sint_minus_of_nat_u64: "n \<le> 9223372036854775808 \<Longrightarrow> sint (- of_nat n :: u64) = - int n"
proof -
  assume n: "n \<le> 9223372036854775808"
  have "(- of_nat n :: u64) = of_int (- int n)" by simp
  then have "sint (- of_nat n :: u64) = signed_take_bit 63 (- int n)"
    by (simp only: signed_of_int) simp
  also have "\<dots> = - int n" using n by (intro signed_take_bit_int_eq_self) simp_all
  finally show ?thesis .
qed

text \<open>\<open>kstr_to_i64\<close> of a terminated string, with an optional sign, returns the signed value of its longest prefix of digits clamped to the range of \<open>int64_t\<close>.\<close>

lemma kstr_to_i64_saturates:
  assumes b: "2 \<le> base" "base \<le> 36"
    and s: "digit_string base s ds" "sign = [] \<or> sign = [43] \<or> sign = [45]"
      "sign = [] \<Longrightarrow> hd s \<noteq> 43 \<and> hd s \<noteq> 45"
  shows "map_option sint (kstr_to_i64 (Some (sign @ s)) base) =
    Some (max (- 9223372036854775808) (min 9223372036854775807
      (let v = int (numeral_value (nat base) 0 ds) in if sign = [45] then - v else v)))"
proof -
  from digit_string_not_Nil [OF s(1)] obtain c s' where cs: "s = c # s'" by (cases s) auto
  let ?v = "numeral_value (nat base) 0 ds"
  have v: "unat (of_nat ?v :: u64) = ?v" if "?v \<le> 18446744073709551615"
    using that by (simp add: unat_of_nat_u64)
  have l: "INT64_MAX < of_nat ?v \<longleftrightarrow> 9223372036854775807 < ?v"
    "INT64_MAX + 1 < (of_nat ?v :: u64) \<longleftrightarrow> 9223372036854775808 < ?v" if "?v \<le> 18446744073709551615"
    using v [OF that] by (simp_all add: word_less_nat_alt)
  note loop = digit_string_loop [OF b s(1)]
  consider "sign = [45]" | "sign \<noteq> [45]" by blast
  then show ?thesis
  proof cases
    case 1
    have "kstr_to_i64 (Some (sign @ s)) base =
        Some (if 9223372036854775808 < ?v then INT64_MIN else - of_nat ?v)"
      using b 1 l(2) cs loop by (auto simp: kstr_to_i64_def Let_def)
    then show ?thesis using 1 by (simp add: sint_minus_of_nat_u64 Let_def)
  next
    case 2
    have "kstr_to_i64 (Some (sign @ s)) base =
        Some (if 9223372036854775807 < ?v then INT64_MAX else of_nat ?v)"
      using b 2 s(2,3) l(1) cs loop
      by (cases "18446744073709551615 < ?v") (auto simp: kstr_to_i64_def Let_def)
    then show ?thesis using 2 by (simp add: sint_of_nat_u64 Let_def)
  qed
qed

subsection \<open>Printing\<close>

function num_digits :: "nat \<Rightarrow> nat \<Rightarrow> nat list" where
  "num_digits b n =
     (if b < 2 then [n] else n mod b # (if n div b = 0 then [] else num_digits b (n div b)))"
  by pat_completeness auto
termination
  by (relation "measure snd") (auto intro!: Nat.gr0I div_less_dividend)

declare num_digits.simps [simp del]

text \<open>Writing \<open>xs\<close> into \<open>buf\<close> from index \<open>p\<close>.\<close>

definition splice :: "u8 list \<Rightarrow> nat \<Rightarrow> u8 list \<Rightarrow> u8 list" where
  "splice buf p xs = take p buf @ xs @ drop (p + length xs) buf"

lemma splice_Nil [simp]: "splice buf p [] = buf"
  by (simp add: splice_def)

lemma splice_Cons: "p < length buf \<Longrightarrow> splice (buf[p := c]) (Suc p) xs = splice buf p (c # xs)"
  by (simp add: splice_def take_Suc_conv_app_nth take_update_swap list_update_append)

lemma length_splice: "p + length xs \<le> length buf \<Longrightarrow> length (splice buf p xs) = length buf"
  by (simp add: splice_def)

lemma drop_splice: "length xs \<le> k \<Longrightarrow> drop k (splice buf 0 xs) = drop k buf"
  by (simp add: splice_def)

lemma take_splice: "k = length xs \<Longrightarrow> take k (splice buf 0 xs) = xs"
  by (simp add: splice_def)

lemma put_Some: "p < length buf \<Longrightarrow> put buf p c = Some (buf[p := c])"
  by (simp add: put_def)

abbreviation digit_chars :: "nat \<Rightarrow> nat \<Rightarrow> bool \<Rightarrow> u8 list" where
  "digit_chars b n caps \<equiv> map (\<lambda>d. digit_char (of_nat d) caps) (num_digits b n)"

lemma digits_loop_splice:
  assumes b: "2 \<le> unat base"
  shows "unat csize < unat max_size \<Longrightarrow> p + (unat max_size - unat csize) \<le> length buf \<Longrightarrow>
    digits_loop val buf p csize max_size base caps =
    (let ds = digit_chars (unat base) (unat val) caps; room = unat max_size - unat csize;
         buf' = splice buf p (take room ds)
     in Some (if length ds < room then Inr (buf', p + length ds, csize + of_nat (length ds))
              else Inl buf'))"
proof (induction "unat val" arbitrary: val buf p csize rule: less_induct)
  case less
  have b0: "base \<noteq> 0" using b by auto
  have p: "p < length buf" using less.prems by linarith
  let ?c = "digit_char (val mod base) caps" and ?b = "unat base"
  have c: "?c = digit_char (of_nat (unat val mod ?b)) caps"
    by (simp add: unat_mod_distrib [symmetric])
  have u1: "unat (csize + 1) = unat csize + 1"
    using less.prems(1) u64_lt [of max_size] by (simp add: unat_plus_u64)
  have full: "csize + 1 = max_size \<longleftrightarrow> unat max_size - unat csize = 1"
    using u1 less.prems(1) unfolding word_unat_eq_iff [of "csize + 1"] by linarith
  have nd: "num_digits ?b (unat val) = unat val mod ?b #
      (if unat val div ?b = 0 then [] else num_digits ?b (unat val div ?b))"
    using b by (simp add: num_digits.simps [of ?b])
  have d0: "val div base = 0 \<longleftrightarrow> unat val div ?b = 0"
    unfolding word_unat_eq_iff [of "val div base"] by (simp add: unat_div_distrib)
  show ?case
  proof (cases "csize + 1 = max_size")
    case True
    then show ?thesis
      using full p b0 c splice_Cons [OF p, of ?c "[]"]
      by (simp add: digits_loop.simps [of val] put_Some nd Let_def)
  next
    case ne: False
    then have room: "1 < unat max_size - unat csize" using full less.prems(1) by linarith
    show ?thesis
    proof (cases "val div base = 0")
      case True
      from room obtain r where "unat max_size - unat csize = Suc (Suc r)"
        by (metis Suc_lessE One_nat_def less_imp_Suc_add add_Suc)
      then show ?thesis
        using True ne p b0 c splice_Cons [OF p, of ?c "[]"] d0
        by (simp add: digits_loop.simps [of val] put_Some nd Let_def)
    next
      case False
      then have "unat val \<noteq> 0" using d0 by (intro notI) simp
      then have lt: "unat (val div base) < unat val"
        using b by (simp add: unat_div_distrib)
      let ?r = "unat max_size - unat csize" and ?ds = "digit_chars ?b (unat val div ?b) caps"
      have rr: "unat max_size - unat (csize + 1) = ?r - 1" using u1 by simp
      have "digits_loop (val div base) (buf[p := ?c]) (p + 1) (csize + 1) max_size base caps =
        (let buf' = splice (buf[p := ?c]) (p + 1) (take (?r - 1) ?ds)
         in Some (if length ?ds < ?r - 1
                  then Inr (buf', p + 1 + length ?ds, csize + 1 + of_nat (length ?ds))
                  else Inl buf'))"
        using less.hyps [OF lt, of "csize + 1" "p + 1" "buf[p := ?c]"] less.prems room u1 
        by (simp add: unat_div_distrib rr Let_def)
      moreover have "take ?r (?c # ?ds) = ?c # take (?r - 1) ?ds"
        using room by (simp add: take_Cons')
      ultimately show ?thesis
        using ne False room p b0 c d0
        by (simp add: digits_loop.simps [of val] put_Some nd Let_def less_diff_conv add.assoc splice_Cons)
    qed
  qed
qed

lemma reverse_loop_rev:
  "start = length a \<Longrightarrow> m \<noteq> [] \<and> end = length a + length m - 1 \<or> m = [] \<and> end \<le> start \<Longrightarrow>
   reverse_loop (a @ m @ c) start end = a @ rev m @ c"
proof (induction "length m" arbitrary: a m c start "end" rule: less_induct)
  case less
  show ?case
  proof (cases "length m < 2")
    case True
    then have "\<not> start < end" "rev m = m" using less.prems by (cases m; auto)+
    then show ?thesis by (simp add: reverse_loop.simps [of _ start])
  next
    case False
    then obtain x m' y where m: "m = x # m' @ [y]"
      by (metis One_nat_def append_butlast_last_id length_Cons less_2_cases_iff list.exhaust list.size(3))
    then have e: "end = Suc (length a + length m')" using less.prems by simp
    let ?buf = "a @ m @ c"
    have "?buf[start := ?buf ! end, end := ?buf ! start] = (a @ [y]) @ m' @ (x # c)"
      using less.prems(1) e m by (simp add: list_update_append nth_append)
    then have "reverse_loop ?buf start end = reverse_loop ((a @ [y]) @ m' @ (x # c)) (start + 1) (end - 1)"
      using e less.prems(1) by (subst reverse_loop.simps) simp
    also have "\<dots> = (a @ [y]) @ rev m' @ (x # c)"
      using e less.prems(1) m by (intro less.hyps) auto
    finally show ?thesis using m by simp
  qed
qed

lemma num_digits_not_Nil [simp]: "num_digits b n \<noteq> []"
  by (simp add: num_digits.simps [of b])

lemma print_end_rev:
  assumes "ds \<noteq> []" "length ds < length buf"
  shows "print_end (splice buf 0 ds) (length ds) csize max_size =
    Some (if csize + 1 = max_size then (False, splice buf 0 (ds @ [0]))
          else (True, splice buf 0 (rev ds @ [0])))"
proof -
  have "splice buf 0 (ds @ [0]) = [] @ ds @ (0 # drop (Suc (length ds)) buf)"
    by (simp add: splice_def)
  moreover have "put (splice buf 0 ds) (length ds) 0 = Some (splice buf 0 (ds @ [0]))"
    using assms(2) by (simp add: put_def splice_def list_update_append Cons_nth_drop_Suc [symmetric])
  ultimately show ?thesis
    using assms(1) reverse_loop_rev [of 0 "[]" ds "length ds - 1"] by (simp add: print_end_def splice_def)
qed

lemma ku64_to_str_splice:
  assumes b: "2 \<le> base" "base \<le> 36" and room: "max_size \<noteq> 0" "unat max_size \<le> length buf"
  shows "ku64_to_str v (Some buf) max_size base caps =
    (let ds = digit_chars (nat base) (unat v) caps in Some (
      if Suc (length ds) < unat max_size then (True, splice buf 0 (rev ds @ [0]))
      else (False, splice buf 0 (take (unat max_size) (ds @ [0])))))"
proof -
  let ?ds = "digit_chars (nat base) (unat v) caps"
  have ub: "unat (of_int base :: u64) = nat base"
    using b by (simp add: unsigned_of_int take_bit_int_eq_self)
  have m: "0 < unat max_size" using room(1) by (simp add: unat_gt_0)
  have loop: "digits_loop v buf 0 0 max_size (of_int base) caps =
    Some (if length ?ds < unat max_size then Inr (splice buf 0 ?ds, length ?ds, of_nat (length ?ds))
          else Inl (splice buf 0 (take (unat max_size) ?ds)))"
    using b room m digits_loop_splice [of "of_int base" 0 max_size 0 buf v caps]
    by (simp add: ub Let_def)
  show ?thesis
  proof (cases "length ?ds < unat max_size")
    case False
    then show ?thesis using loop room m by (simp add: ku64_to_str_def Let_def)
  next
    case True
    then have e: "of_nat (length ?ds) + 1 = max_size \<longleftrightarrow> Suc (length ?ds) = unat max_size"
    proof -
      have "unat (of_nat (length ?ds) + 1 :: u64) = Suc (length ?ds)"
        using True u64_lt [of max_size] by (simp add: unat_of_nat_u64 unat_plus_u64)
      then show ?thesis by (simp only: word_unat_eq_iff)
    qed
    from True loop have "ku64_to_str v (Some buf) max_size base caps =
        print_end (splice buf 0 ?ds) (length ?ds) (of_nat (length ?ds)) max_size"
      using room by (simp add: ku64_to_str_def)
    also have "\<dots> = Some (if Suc (length ?ds) = unat max_size then (False, splice buf 0 (?ds @ [0]))
          else (True, splice buf 0 (rev ?ds @ [0])))"
      using e print_end_rev [of ?ds buf "of_nat (length ?ds)" max_size] True room(2) by simp
    finally show ?thesis using True by (auto simp: Let_def)
  qed
qed

text \<open>C2: \<open>ku64_to_str\<close> never writes past \<open>max_size\<close> bytes, and succeeds exactly when the digits and the terminator leave one byte of \<open>max_size\<close> unused (a buffer of exactly the needed size is refused); then the buffer holds the digits, most significant first, and the terminator.\<close>

theorem ku64_to_str_prints:
  assumes b: "2 \<le> base" "base \<le> 36" and room: "max_size \<noteq> 0" "unat max_size \<le> length buf"
  shows "\<exists>buf'. ku64_to_str v (Some buf) max_size base caps =
      Some (Suc (length (num_digits (nat base) (unat v))) < unat max_size, buf') \<and>
    length buf' = length buf \<and> drop (unat max_size) buf' = drop (unat max_size) buf \<and>
    (Suc (length (num_digits (nat base) (unat v))) < unat max_size \<longrightarrow>
      take (Suc (length (num_digits (nat base) (unat v)))) buf' =
      rev (digit_chars (nat base) (unat v) caps) @ [0])"
  using room(2)
  by (auto simp: ku64_to_str_splice [OF b room] Let_def length_splice drop_splice take_splice)

lemma digit_char_value:
  assumes "d < b" "b \<le> 36"
  shows "kchar_to_digit (digit_char (of_nat d) caps) = int d"
proof -
  have d: "d < 36" using assms by simp
  have "\<forall>d \<in> set [0..<36]. \<forall>caps. kchar_to_digit (digit_char (of_nat d) caps) = int d"
    by (simp add: upt_rec all_bool_eq kchar_to_digit_def digit_char_def del: upt_Suc)
  then show ?thesis using d by (simp del: upt_Suc)
qed

lemma num_digits_value:
  assumes b: "2 \<le> b" "b \<le> 36"
  shows "numeral_value b 0 (rev (digit_chars b n caps)) = n"
proof (induction n rule: less_induct)
  case (less n)
  have c: "nat (kchar_to_digit (digit_char (of_nat (n mod b)) caps)) = n mod b"
    using b digit_char_value [of "n mod b" b caps] by simp
  show ?case
  proof (cases "n div b = 0")
    case True
    then have "n < b" using b by (auto simp: div_eq_0_iff)
    then show ?thesis using True b c by (simp add: num_digits.simps [of b n])
  next
    case False
    then have "n div b < n" using b by (cases "n = 0") auto
    from less.IH [OF this] have "numeral_value b 0 (rev (digit_chars b (n div b) caps)) = n div b" .
    then show ?thesis
      using b False c by (simp add: num_digits.simps [of b n] numeral_value_def)
  qed
qed

lemma num_digits_lt:
  assumes b: "2 \<le> b"
  shows "d \<in> set (num_digits b n) \<Longrightarrow> d < b"
proof (induction n rule: less_induct)
  case (less n)
  have lt: "n div b < n" if "n div b \<noteq> 0" using b that by (cases "n = 0") auto
  from less.prems have "d = n mod b \<or> n div b \<noteq> 0 \<and> d \<in> set (num_digits b (n div b))"
    using b num_digits.simps [of b n] by (simp split: if_splits)
  then show ?case using b less.IH [OF lt] by auto
qed

lemma digit_chars_valid:
  assumes "2 \<le> base" "base \<le> 36"
  shows "\<forall>c \<in> set (digit_chars (nat base) n caps). valid_digit base c"
proof -
  have "valid_digit base (digit_char (of_nat d) caps)" if "d \<in> set (num_digits (nat base) n)" for d
  proof -
    have "d < nat base" using assms by (intro num_digits_lt [OF _ that]) simp
    then show ?thesis using assms digit_char_value [of d "nat base" caps] by (simp add: valid_digit_def)
  qed
  then show ?thesis by auto
qed

lemma digit_string_printed:
  fixes n :: nat
  assumes b: "2 \<le> base" "base \<le> 36"
  shows "digit_string base (rev (digit_chars (nat base) n caps) @ 0 # rest)
    (rev (digit_chars (nat base) n caps))"
  using digit_chars_valid [OF b, of caps n] not_valid_digit_0 [of base]
  by (auto simp: digit_string_def takeWhile_append)

text \<open>C1: What \<open>ku64_to_str\<close> printed, \<open>kstr_to_u64\<close> reads back, in every base and either letter case.\<close>

theorem ku64_to_str_roundtrip:
  assumes b: "2 \<le> base" "base \<le> 36" and room: "unat max_size \<le> length buf"
    and ok: "ku64_to_str v (Some buf) max_size base caps = Some (True, buf')"
  shows "kstr_to_u64 (Some buf') base = Some v"
proof -
  let ?ds = "rev (digit_chars (nat base) (unat v) caps)"
  have m: "max_size \<noteq> 0" using ok by (auto simp: ku64_to_str_def)
  have "buf' = splice buf 0 (?ds @ [0])" "Suc (length (num_digits (nat base) (unat v))) < unat max_size"
    using ok unfolding ku64_to_str_splice [OF b m room] by (auto simp: Let_def split: if_splits)
  then have t: "take (Suc (length (num_digits (nat base) (unat v)))) buf' = ?ds @ [0]"
    by (simp add: take_splice)
  define rest where "rest = drop (Suc (length (num_digits (nat base) (unat v)))) buf'"
  have buf': "buf' = ?ds @ 0 # rest"
    using append_take_drop_id [of "Suc (length (num_digits (nat base) (unat v)))" buf'] t
    by (simp add: rest_def)
  have "digit_string base buf' ?ds" unfolding buf' by (rule digit_string_printed [OF b])
  moreover have "hd buf' \<noteq> 43"
  proof -
    have "hd buf' \<in> set ?ds" unfolding buf' by (simp add: hd_append hd_rev last_in_set del: set_rev set_map) (metis last_in_set num_digits_not_Nil map_is_Nil_conv set_rev)
    then have "valid_digit base (hd buf')" using digit_chars_valid [OF b, of caps "unat v"] by auto
    then show ?thesis by (auto simp: valid_digit_def kchar_to_digit_def)
  qed
  ultimately have "kstr_to_u64 (Some buf') base =
      Some (of_nat (min (numeral_value (nat base) 0 ?ds) 18446744073709551615))"
    using kstr_to_u64_digits [OF b, of buf' ?ds False] by simp
  also have "numeral_value (nat base) 0 ?ds = unat v"
    using b by (intro num_digits_value) simp_all
  finally show ?thesis using u64_le_max [of v] by (simp add: min_def)
qed

theorem ku64_to_str_prints_witness:
  "\<exists>buf'. ku64_to_str 255 (Some (replicate 8 1)) 4 16 True = Some (True, buf') \<and> take 3 buf' = [70, 70, 0]"
  using ku64_to_str_prints [of 16 4 "replicate 8 1" 255 True]
  by (auto simp: num_digits.simps digit_char_def numeral_3_eq_3)

lemma digits_loop_eval:
  "digits_loop val buf p csize max_size base caps =
     (if base = 0 \<or> length buf \<le> p then None
      else let buf' = buf[p := digit_char (val mod base) caps] in
        if csize + 1 = max_size then Some (Inl buf')
        else if val div base = 0 then Some (Inr (buf', p + 1, csize + 1))
        else digits_loop (val div base) buf' (p + 1) (csize + 1) max_size base caps)"
  by (simp add: digits_loop.simps [of val] put_def)

theorem ku64_to_str_roundtrip_witness:
  "kstr_to_u64 (Some [70, 70, 0, 1]) 16 = Some 255"
proof -
  have "ku64_to_str 255 (Some [1, 1, 1, 1]) 4 16 True = Some (True, [70, 70, 0, 1])"
    by (simp add: ku64_to_str_def digits_loop_eval print_end_def put_def reverse_loop.simps
      digit_char_def)
  from ku64_to_str_roundtrip [OF _ _ _ this] show ?thesis by simp
qed

end
