(* ===== verification/KTime.thy ===== *)
theory KTime
  imports Prelude
begin

text \<open>
  The clock of \<^verbatim>\<open>Kernel/src/kfuncs.c\<close>: the conversion of the real-time clock's date to a
  timestamp, the calibration, the busy-wait delays and the derived times.

  The hardware is an argument: \<open>cmos r\<close> is what port \<open>0x71\<close> gives after register \<open>r\<close> was
  selected, and \<open>tsc k\<close> is the value of the \<open>k\<close>-th read of the time-stamp counter. The
  specification side is \<open>days_before_year\<close> and \<open>days_before_month\<close>, the calendar counted day
  by day.
\<close>

subsection \<open>Dates\<close>

definition month_days :: "u8 list" where
  "month_days = [31, 28, 31, 30, 31, 30, 31, 31, 30, 31, 30, 31]"

definition is_leap_year :: "u32 \<Rightarrow> bool" where
  "is_leap_year year \<longleftrightarrow> year mod 4 = 0 \<and> (year mod 100 \<noteq> 0 \<or> year mod 400 = 0)"

text \<open>The loop over the months: reading \<open>month_days\<close> past its end gives \<open>None\<close>.\<close>

function months_loop :: "u32 \<Rightarrow> u32 \<Rightarrow> u32 \<Rightarrow> u64 \<Rightarrow> u64 option" where
  "months_loop m month year days =
     (if m < month then
        if unat (m - 1) < length month_days then
          (let days1 = days + ucast (month_days ! unat (m - 1));
               days2 = (if m = 2 \<and> is_leap_year year then days1 + 1 else days1)
           in months_loop (m + 1) month year days2)
        else None
      else Some days)"
  by pat_completeness auto
termination
proof (relation "measure (\<lambda>(m, month, year, days). unat month - unat m)")
  fix m month year :: u32 and days x xa :: u64
  assume "m < month"
  then have "unat (m + 1) = unat m + 1" "unat m < unat month"
    using unsigned_less [of month, where ?'a = nat]
    by (simp_all add: unat_word_ariths word_less_nat_alt)
  then show "((m + 1, month, year, xa), m, month, year, days)
      \<in> measure (\<lambda>(m, month, year, days). unat month - unat m)" by simp
qed simp

declare months_loop.simps [simp del]

definition rtc_to_timestamp :: "u32 \<Rightarrow> u32 \<Rightarrow> u32 \<Rightarrow> u32 \<Rightarrow> u32 \<Rightarrow> u32 \<Rightarrow> u64 option" where
  "rtc_to_timestamp year month day hour minute second =
     (let leaps = ucast (((year - 1) div 4 - 1969 div 4) - ((year - 1) div 100 - 1969 div 100)
                         + ((year - 1) div 400 - 1969 div 400)) :: u64;
          days = ucast ((year - 1970) * 365) + leaps
      in do {
        days1 \<leftarrow> months_loop 1 month year days;
        let days2 = days1 + ucast (day - 1);
        Some (days2 * 86400 + ucast hour * 3600 + ucast minute * 60 + ucast second) })"

subsection \<open>Calibration\<close>

definition BCD_TO_BIN :: "u8 \<Rightarrow> int" where
  "BCD_TO_BIN bcd = uint (bcd AND 0x0F) + uint (drop_bit 4 bcd) * 10"

record timer_state =
  rdtscp_supported :: bool
  tsc_ticks_per_ms :: u64
  bootup_timestamp :: u64

text \<open>A register of the real-time clock, as \<open>ktimer_calibrate\<close> reads it into a \<open>uint8_t\<close>.\<close>

definition rtc_read :: "(u8 \<Rightarrow> u8) \<Rightarrow> u8 \<Rightarrow> u8" where
  "rtc_read cmos r =
     (if cmos 0x0B AND 0x04 \<noteq> 0 then cmos r else of_int (BCD_TO_BIN (cmos r)))"

text \<open>
  \<open>edx\<close> is what \<open>cpuid\<close> leaf \<open>0x80000001\<close> gives, \<open>start\<close> and \<open>end\<close> are the counter before
  and after the 10 ms delay. The second result is the \<open>timer_freq\<close> that is stored in the
  boot information when there is one. The wait for the clock's update only passes time.
\<close>

definition ktimer_calibrate ::
  "u32 \<Rightarrow> u64 \<Rightarrow> u64 \<Rightarrow> (u8 \<Rightarrow> u8) \<Rightarrow> timer_state \<Rightarrow> (timer_state \<times> u64) option" where
  "ktimer_calibrate edx start end cmos s =
     (let cycles_per_10ms = end - start;
          ticks = cycles_per_10ms div 10;
          sec = rtc_read cmos 0x00; mins = rtc_read cmos 0x02; hr = rtc_read cmos 0x04;
          day = rtc_read cmos 0x07; month = rtc_read cmos 0x08; year = rtc_read cmos 0x09;
          century = (let c = rtc_read cmos 0x32 in if c = 0 then 20 else c);
          full_year = ucast century * 100 + ucast year :: u32
      in do {
        ts \<leftarrow> rtc_to_timestamp full_year (ucast month) (ucast day) (ucast hr) (ucast mins) (ucast sec);
        Some (s\<lparr> rdtscp_supported := (edx AND push_bit 27 1 \<noteq> 0),
                 tsc_ticks_per_ms := ticks, bootup_timestamp := ts \<rparr>, ticks * 1000) })"

subsection \<open>Delays and times\<close>

text \<open>The busy wait, from the \<open>k\<close>-th read on; its result is the number of reads done.\<close>

partial_function (option) delay_loop :: "(nat \<Rightarrow> u64) \<Rightarrow> nat \<Rightarrow> u64 \<Rightarrow> u64 \<Rightarrow> nat option" where
  "delay_loop tsc k start ticks_needed =
     (if tsc k - start < ticks_needed then delay_loop tsc (k + 1) start ticks_needed
      else Some (k + 1))"

definition delay_ticks :: "u64 \<Rightarrow> (nat \<Rightarrow> u64) \<Rightarrow> nat option" where
  "delay_ticks ticks tsc = delay_loop tsc 1 (tsc 0) (if ticks = 0 then 1 else ticks)"

definition kdelay :: "u64 \<Rightarrow> (nat \<Rightarrow> u64) \<Rightarrow> timer_state \<Rightarrow> nat option" where
  "kdelay ms tsc s =
     (if tsc_ticks_per_ms s = 0 then Some 0 else delay_ticks (ms * tsc_ticks_per_ms s) tsc)"

definition kdelay_ns :: "u64 \<Rightarrow> (nat \<Rightarrow> u64) \<Rightarrow> timer_state \<Rightarrow> nat option" where
  "kdelay_ns ns tsc s =
     (if tsc_ticks_per_ms s = 0 then Some 0
      else delay_ticks (ns * (tsc_ticks_per_ms s div 1000000)) tsc)"

definition kdelay_us :: "u64 \<Rightarrow> (nat \<Rightarrow> u64) \<Rightarrow> timer_state \<Rightarrow> nat option" where
  "kdelay_us us tsc s =
     (if tsc_ticks_per_ms s = 0 then Some 0
      else delay_ticks (us * (tsc_ticks_per_ms s div 1000)) tsc)"

definition kget_ms_passed :: "u64 \<Rightarrow> timer_state \<Rightarrow> u64" where
  "kget_ms_passed now s = (if tsc_ticks_per_ms s = 0 then 0 else now div tsc_ticks_per_ms s)"

definition kget_timestamp_seconds :: "u64 \<Rightarrow> timer_state \<Rightarrow> u64" where
  "kget_timestamp_seconds now s = bootup_timestamp s + kget_ms_passed now s div 1000"

definition kget_timestamp_ms :: "u64 \<Rightarrow> timer_state \<Rightarrow> u64" where
  "kget_timestamp_ms now s = bootup_timestamp s * 1000 + kget_ms_passed now s"

subsection \<open>The calendar\<close>

definition leap :: "nat \<Rightarrow> bool" where
  "leap y \<longleftrightarrow> 4 dvd y \<and> (\<not> 100 dvd y \<or> 400 dvd y)"

definition days_before_year :: "nat \<Rightarrow> nat" where
  "days_before_year y = (\<Sum>y' = 1970..<y. if leap y' then 366 else 365)"

definition days_in_month :: "nat \<Rightarrow> nat \<Rightarrow> nat" where
  "days_in_month y m =
     (if m = 2 then if leap y then 29 else 28 else if m \<in> {4, 6, 9, 11} then 30 else 31)"

definition days_before_month :: "nat \<Rightarrow> nat \<Rightarrow> nat" where
  "days_before_month y m = (\<Sum>m' = 1..<m. days_in_month y m')"

definition leaps_before :: "nat \<Rightarrow> nat" where
  "leaps_before y = y div 4 - y div 100 + y div 400"

lemma div_pred_dvd: "0 < (k :: nat) \<Longrightarrow> Suc y div k = y div k + (if k dvd Suc y then 1 else 0)"
  by (simp add: div_Suc dvd_eq_mod_eq_0)

lemma leaps_before_Suc: "leaps_before (Suc y) = leaps_before y + (if leap (Suc y) then 1 else 0)"
proof -
  have 1: "4 dvd Suc y" if "100 dvd Suc y" using that by (rule dvd_trans [rotated]) simp
  have 2: "100 dvd Suc y" if "400 dvd Suc y" using that by (rule dvd_trans [rotated]) simp
  have le: "y div 100 \<le> y div 4" by (rule div_le_mono2) simp_all
  have d: "Suc y div 4 = y div 4 + (if 4 dvd Suc y then 1 else 0)"
    "Suc y div 100 = y div 100 + (if 100 dvd Suc y then 1 else 0)"
    "Suc y div 400 = y div 400 + (if 400 dvd Suc y then 1 else 0)"
    by (rule div_pred_dvd; simp)+
  show ?thesis
    unfolding leaps_before_def leap_def d
    using 1 2 le by (cases "4 dvd Suc y"; cases "100 dvd Suc y"; cases "400 dvd Suc y")
      (simp_all add: Suc_diff_le trans_le_add1)
qed

lemma days_before_year_eq:
  "days_before_year (1970 + n) + leaps_before 1969 = 365 * n + leaps_before (1969 + n)"
proof (induction n)
  case (Suc n)
  have "days_before_year (1970 + Suc n) =
      days_before_year (1970 + n) + (if leap (Suc (1969 + n)) then 366 else 365)"
    using sum.atLeastLessThan_Suc [of 1970 "1970 + n" "\<lambda>y'. if leap y' then 366 else 365 :: nat"]
    by (simp add: days_before_year_def)
  then show ?case using Suc leaps_before_Suc [of "1969 + n"] by simp
qed (simp add: days_before_year_def)

lemma unat_eqI32: "unat (x :: u32) = unat y \<Longrightarrow> x = y"
  by (rule word_unat_eq_iff [THEN iffD2])

lemma is_leap_year_leap: "is_leap_year year = leap (unat year)"
  by (simp add: is_leap_year_def leap_def dvd_eq_mod_eq_0 word_unat_eq_iff unat_mod_distrib)

lemma leaps_word:
  assumes "1970 \<le> unat year" "unat year \<le> 65535"
  shows "unat (ucast ((((year - 1) div 4 - 1969 div 4) - ((year - 1) div 100 - 1969 div 100)
      + ((year - 1) div 400 - 1969 div 400)) :: u32) :: u64)
    = leaps_before (unat year - 1) - leaps_before 1969"
proof -
  let ?y = "unat year - 1"
  have u1: "unat (year - 1) = ?y" using assms by (intro unat_minus_one) auto
  define a b c where "a = ?y div 4" and "b = ?y div 100" and "c = ?y div 400"
  have *: "(year - 1) div 4 = of_nat a" "(year - 1) div 100 = of_nat b" "(year - 1) div 400 = of_nat c"
    unfolding a_def b_def c_def using assms
    by (intro unat_eqI32; simp add: unat_div_distrib u1 unat_of_nat)+
  have ge: "492 \<le> a" "19 \<le> b" "4 \<le> c" "b - 19 \<le> a - 492" "a \<le> 20000" "c \<le> 200" "b \<le> a"
    using assms unfolding a_def b_def c_def by linarith+
  have w: "(((of_nat a - 1969 div 4) - (of_nat b - 1969 div 100) + (of_nat c - 1969 div 400)) :: u32)
      = of_nat ((a - 492) - (b - 19) + (c - 4))"
    using ge by (simp add: of_nat_diff)
  have lt: "(a - 492) - (b - 19) + (c - 4) < 4294967296" using ge by linarith
  have "unat (ucast (of_nat ((a - 492) - (b - 19) + (c - 4)) :: u32) :: u64)
      = (a - 492) - (b - 19) + (c - 4)"
    using lt by (simp only: unsigned_ucast_eq unat_of_nat) (simp add: take_bit_nat_eq_self)
  also have "\<dots> = leaps_before ?y - leaps_before 1969"
    using ge unfolding leaps_before_def a_def [symmetric] b_def [symmetric] c_def [symmetric] by simp
  finally show ?thesis unfolding * w .
qed


lemma month_days_leap:
  fixes m :: u32
  assumes "1 \<le> unat m" "unat m \<le> 12"
  shows "unat (m - 1) < length month_days"
    "(ucast (month_days ! unat (m - 1)) :: u64) + (if m = 2 \<and> is_leap_year year then 1 else 0) =
      of_nat (days_in_month (unat year) (unat m))"
proof -
  have u: "unat (m - 1) = unat m - 1" using assms by (intro unat_minus_one) auto
  then show "unat (m - 1) < length month_days" using assms by (simp add: month_days_def)
  have m: "m = of_nat k \<longleftrightarrow> unat m = k" if "k < 4294967296" for k
    using that by (auto simp: unat_of_nat word_unat_eq_iff)
  have "unat m \<in> {1, 2, 3, 4, 5, 6, 7, 8, 9, 10, 11, 12}" using assms by simp presburger
  then show "(ucast (month_days ! unat (m - 1)) :: u64) + (if m = 2 \<and> is_leap_year year then 1 else 0) =
      of_nat (days_in_month (unat year) (unat m))"
    unfolding u using m [of 2]
    by (auto simp: month_days_def days_in_month_def is_leap_year_leap)
qed

lemma months_loop_days:
  "1 \<le> unat m \<Longrightarrow> m \<le> month \<Longrightarrow> unat month \<le> 12 \<Longrightarrow>
   months_loop m month year days =
   Some (days + of_nat (\<Sum>m' = unat m..<unat month. days_in_month (unat year) m'))"
proof (induction "unat month - unat m" arbitrary: m days)
  case 0
  then have "m = month" by (simp add: word_le_nat_alt unat_eqI32)
  then show ?case by (simp add: months_loop.simps)
next
  case (Suc k)
  then have lt: "m < month" by (simp add: word_less_nat_alt)
  then have u: "unat (m + 1) = unat m + 1" "unat m < unat month"
    using u32_lt [of month] by (simp_all add: unat_word_ariths word_less_nat_alt)
  have m12: "unat m \<le> 12" using Suc.prems u by linarith
  note md = month_days_leap [OF Suc.prems(1) m12]
  have sum: "(\<Sum>m' = unat m..<unat month. days_in_month (unat year) m') =
      days_in_month (unat year) (unat m) + (\<Sum>m' = unat (m + 1)..<unat month. days_in_month (unat year) m')"
    using u by (simp add: sum.atLeast_Suc_lessThan)
  have "months_loop m month year days = months_loop (m + 1) month year
      (days + (ucast (month_days ! unat (m - 1)) + (if m = 2 \<and> is_leap_year year then 1 else 0)))"
    using lt md(1) by (subst months_loop.simps) (simp add: Let_def add.assoc)
  also have "\<dots> = Some (days + of_nat (days_in_month (unat year) (unat m)) +
      of_nat (\<Sum>m' = unat (m + 1)..<unat month. days_in_month (unat year) m'))"
    unfolding md(2) using Suc u lt by (intro Suc.hyps) (auto simp: word_le_nat_alt)
  finally show ?case unfolding sum by (simp add: add.assoc)
qed

lemma rtc_to_timestamp_days:
  assumes y: "1970 \<le> unat year" "unat year \<le> 65535" and m: "1 \<le> unat month" "unat month \<le> 12"
    and d: "1 \<le> unat day"
  shows "rtc_to_timestamp year month day hour minute second = Some (of_nat (
    (days_before_year (unat year) + days_before_month (unat year) (unat month) + (unat day - 1)) * 86400
    + unat hour * 3600 + unat minute * 60 + unat second))"
proof -
  let ?leaps = "ucast (((year - 1) div 4 - 1969 div 4) - ((year - 1) div 100 - 1969 div 100)
      + ((year - 1) div 400 - 1969 div 400) :: u32) :: u64"
  have w: "w = of_nat (unat w)" for w :: u64 by simp
  have uc: "(ucast x :: u64) = of_nat (unat x)" for x :: u32
    by simp
  have u: "unat ((year - 1970) * 365) = (unat year - 1970) * 365"
  proof -
    have "unat (year - 1970) = unat year - 1970" using y unat_sub [of 1970 year] by (simp add: word_le_nat_alt)
    then show ?thesis using y by (simp only: unat_word_ariths(2)) simp
  qed
  obtain n where n: "unat year = 1970 + n" using y(1) le_Suc_ex by blast
  have ge: "leaps_before 1969 \<le> leaps_before (1969 + n)"
  proof (induction n)
    case (Suc n)
    then show ?case using leaps_before_Suc [of "1969 + n"] by simp
  qed simp
  have lp: "?leaps = of_nat (leaps_before (1969 + n) - leaps_before 1969)"
    by (subst w) (simp only: leaps_word [OF y] n, simp)
  have "(ucast ((year - 1970) * 365) :: u64) + ?leaps = of_nat (days_before_year (unat year))"
    using days_before_year_eq [of n] ge unfolding lp uc [of "(year - 1970) * 365"] u n
    by (simp only: of_nat_add [symmetric]) (rule arg_cong [where f = of_nat], simp)
  moreover have "unat (day - 1) = unat day - 1" using d by (intro unat_minus_one) auto
  moreover have "months_loop 1 month year days =
      Some (days + of_nat (days_before_month (unat year) (unat month)))" for days
    using months_loop_days [of 1 month year days] m
    by (simp add: days_before_month_def word_le_nat_alt)
  ultimately show ?thesis
    unfolding rtc_to_timestamp_def Let_def uc by simp
qed


lemma days_before_year_mono: "y \<le> y' \<Longrightarrow> days_before_year y \<le> days_before_year y'"
  unfolding days_before_year_def by (intro sum_mono2) auto

definition to_BCD :: "nat \<Rightarrow> u8" where
  "to_BCD n = of_nat (n div 10 * 16 + n mod 10)"

lemma BCD_TO_BIN_to_BCD:
  assumes "n < 100"
  shows "BCD_TO_BIN (to_BCD n) = int n"
proof -
  have u: "unat (to_BCD n) = n div 10 * 16 + n mod 10"
    using assms unfolding to_BCD_def unat_of_nat by (simp add: mod_less)
  have m: "(0x0F :: u8) = mask 4" by (simp add: mask_eq_exp_minus_1)
  have "unat ((to_BCD n) AND 0x0F) = (n div 10 * 16 + n mod 10) mod 16"
    unfolding m take_bit_eq_mask [symmetric] unsigned_take_bit_eq u by (simp add: take_bit_eq_mod)
  then have 1: "uint ((to_BCD n) AND 0x0F) = int (n mod 10)"
    unfolding uint_nat by simp
  have "unat (drop_bit 4 (to_BCD n)) = (n div 10 * 16 + n mod 10) div 16"
    unfolding unat_drop_bit_eq u by (simp add: drop_bit_eq_div)
  then have 2: "uint (drop_bit 4 (to_BCD n)) = int (n div 10)"
    unfolding uint_nat by simp
  have "int (n mod 10 + n div 10 * 10) = int n" by (rule arg_cong [where f = int]) simp
  then show ?thesis unfolding BCD_TO_BIN_def 1 2 by (simp only: of_nat_add of_nat_mult of_nat_numeral)
qed

lemma rtc_read_BCD:
  assumes "cmos 0x0B AND 0x04 = 0" "cmos r = to_BCD n" "n < 100"
  shows "rtc_read cmos r = of_nat n"
  using assms by (simp add: rtc_read_def BCD_TO_BIN_to_BCD)

text \<open>With the real-time clock in BCD mode and a valid date from 1970 on, \<open>ktimer_calibrate\<close> sets the boot timestamp to the number of seconds that the calendar counts day by day since 1970 (a zero century register means 20), and takes the tick rate from the 10 ms delay.\<close>

lemma ktimer_calibrate_timestamp:
  assumes bcd: "cmos 0x0B AND 0x04 = 0"
    and regs: "cmos 0x00 = to_BCD sec" "cmos 0x02 = to_BCD mins" "cmos 0x04 = to_BCD hr"
      "cmos 0x07 = to_BCD day" "cmos 0x08 = to_BCD month" "cmos 0x09 = to_BCD yy" "cmos 0x32 = to_BCD cc"
    and date: "sec < 60" "mins < 60" "hr < 24" "1 \<le> day" "day \<le> 31" "1 \<le> month" "month \<le> 12"
      "yy < 100" "cc < 100" "year = (if cc = 0 then 2000 + yy else 100 * cc + yy)" "1970 \<le> year"
  shows "\<exists>s'. ktimer_calibrate edx start end cmos s = Some (s', (end - start) div 10 * 1000) \<and>
    tsc_ticks_per_ms s' = (end - start) div 10 \<and>
    bootup_timestamp s' = of_nat ((days_before_year year + days_before_month year month + (day - 1)) * 86400
      + hr * 3600 + mins * 60 + sec)"
proof -
  have r: "rtc_read cmos 0x00 = of_nat sec" "rtc_read cmos 0x02 = of_nat mins" "rtc_read cmos 0x04 = of_nat hr"
    "rtc_read cmos 0x07 = of_nat day" "rtc_read cmos 0x08 = of_nat month" "rtc_read cmos 0x09 = of_nat yy"
    "rtc_read cmos 0x32 = of_nat cc"
    using date by (intro rtc_read_BCD [where cmos = cmos] bcd regs; simp)+
  have u: "unat (of_nat n :: u8) = n" "unat (ucast (of_nat n :: u8) :: u32) = n" if "n < 100" for n
    using that by (simp_all add: unsigned_ucast_eq unat_of_nat take_bit_nat_eq_self)
  let ?c = "if (of_nat cc :: u8) = 0 then 20 else of_nat cc :: u8"
  have c: "unat (ucast ?c :: u32) = (if cc = 0 then 20 else cc)"
  proof -
    have "(of_nat cc :: u8) = 0 \<longleftrightarrow> cc = 0" using u(1) [of cc] date by (auto simp: word_unat_eq_iff)
    then show ?thesis using u(2) [of cc] date by simp
  qed
  have fy: "unat (ucast ?c * 100 + ucast (of_nat yy :: u8) :: u32) = year"
    using date u(2) [of yy] by (simp only: unat_word_ariths c) simp
  have d: "day < 100" "month < 100" "hr < 100" "mins < 100" "sec < 100" "yy < 100" "cc < 100"
    using date by simp_all
  have "year \<le> 65535" using date by (simp split: if_splits)
  then show ?thesis
    unfolding ktimer_calibrate_def Let_def r
    by (subst rtc_to_timestamp_days) (use date in \<open>simp_all add: fy u d del: of_nat_add of_nat_mult\<close>)
qed

lemma delay_loop_first:
  "k \<le> n \<Longrightarrow> ticks \<le> tsc n - start \<Longrightarrow> \<forall>j. k \<le> j \<and> j < n \<longrightarrow> tsc j - start < ticks \<Longrightarrow>
   delay_loop tsc k start ticks = Some (n + 1)"
proof (induction "n - k" arbitrary: k)
  case 0
  then have "k = n" by simp
  then show ?case using 0 by (subst delay_loop.simps) (auto simp: not_less [symmetric])
next
  case (Suc d)
  then have "k < n" "d = n - Suc k" by simp_all
  then show ?case using Suc.hyps(1) [of "Suc k"] Suc.prems by (subst delay_loop.simps) simp
qed

text \<open>\<open>kdelay\<close> returns, after exactly the first read of the counter that is the requested number of ticks past the start.\<close>

lemma kdelay_waits:
  assumes "tsc_ticks_per_ms s \<noteq> 0" "0 < n"
    and needed: "ticks = (if ms * tsc_ticks_per_ms s = 0 then 1 else ms * tsc_ticks_per_ms s)"
    and reach: "ticks \<le> tsc n - tsc 0" "\<forall>j. 0 < j \<and> j < n \<longrightarrow> tsc j - tsc 0 < ticks"
  shows "kdelay ms tsc s = Some (n + 1)"
  using assms delay_loop_first [of 1 n ticks tsc "tsc 0"]
  by (simp add: kdelay_def delay_ticks_def Suc_le_eq)

end
