(* ===== verification/KBoot.thy ===== *)
theory KBoot
  imports Prelude
begin

text \<open>
  The boot information of \<^verbatim>\<open>Headers/uniboot.h\<close> and its checks in \<^verbatim>\<open>Kernel/src/kfuncs.c\<close>
  (\<open>kinit_bootinfo\<close>, \<open>kparse_system_info\<close>, \<open>kparse_system_map\<close>). The loader hands the
  kernel a linked list of nodes; the nodes and the feature masks they point to live in stores.
\<close>

subsection \<open>Data\<close>

datatype uniboot_smmap_type =
  UNIBOOT_SMMAP_TYPE_UNUSABLE | UNIBOOT_SMMAP_TYPE_RESERVED | UNIBOOT_SMMAP_TYPE_ACPI_NVS
| UNIBOOT_SMMAP_TYPE_ACPI_RECLAIM | UNIBOOT_SMMAP_TYPE_UNIBOOT_STRUCTS | UNIBOOT_SMMAP_TYPE_FREE

record uniboot_smmap_entry =
  e_type :: uniboot_smmap_type
  phys_start :: u64
  e_size :: u64

text \<open>\<open>entries\<close> is \<open>None\<close> for the null pointer, otherwise the array behind it.\<close>

record uniboot_smmap =
  m_count :: u64
  m_entries :: "uniboot_smmap_entry list option"

record uniboot_boot_info =
  features_root :: u64
  kernel_space :: u64
  kernel_space_end :: u64

text \<open>What follows the header in memory, read only after a cast that the submagic decides.\<close>

datatype node_body = Boot_Info uniboot_boot_info | Smmap uniboot_smmap | Other

record uniboot_hdr =
  magic :: "u8 list"
  submagic :: "u8 list"
  u_version :: u64
  u_revision :: u64
  architecture :: u32
  u_next :: u64
  body :: node_body

record uniboot_bitmask =
  bm_bits :: u64
  bm_next :: u64

definition UNIBOOT_MAGIC :: "u8 list" where
  "UNIBOOT_MAGIC = [0x55, 0x4E, 0x49, 0x42, 0x4F, 0x4F, 0x54, 0]"
definition UNIBOOT_SUBMAGIC_BOOT_INFO :: "u8 list" where
  "UNIBOOT_SUBMAGIC_BOOT_INFO = [0x42, 0x49, 0x4E, 0x46, 0x4F, 0, 0, 0]"
definition UNIBOOT_SUBMAGIC_SYSTEM_MEM_MAP :: "u8 list" where
  "UNIBOOT_SUBMAGIC_SYSTEM_MEM_MAP = [0x53, 0x4D, 0x4D, 0x41, 0x50, 0, 0, 0]"

abbreviation UNIBOOT_CVERSION :: u64 where "UNIBOOT_CVERSION \<equiv> 0x010000"
abbreviation UNIBOOT_CREVISION :: u64 where "UNIBOOT_CREVISION \<equiv> 1"
abbreviation UNIBOOT_ARCHITECTURE_x64 :: u32 where "UNIBOOT_ARCHITECTURE_x64 \<equiv> 3"

text \<open>
  The control registers the code changes, the feature word of \<open>cpuid\<close> leaf 1, and the two
  static variables, as the bodies of the accepted nodes.
\<close>

record boot_state =
  cr0 :: u64
  cr4 :: u64
  xcr0 :: u64
  cpuid1_ecx :: u32
  system_info :: "uniboot_boot_info option"
  system_map :: "uniboot_smmap option"

subsection \<open>The features\<close>

record features =
  f_parsed :: bool
  f_sse :: bool
  f_avx :: bool
  f_b64 :: bool
  f_paging :: bool
  f_kernel_space :: bool
  f_fb :: bool

definition no_features :: features where
  "no_features = \<lparr> f_parsed = False, f_sse = False, f_avx = False, f_b64 = False, f_paging = False,
     f_kernel_space = False, f_fb = False \<rparr>"

definition add_features :: "u64 \<Rightarrow> features \<Rightarrow> features" where
  "add_features b f = \<lparr> f_parsed = True,
     f_sse = (b AND 0x1 \<noteq> 0 \<or> f_sse f), f_avx = (b AND 0x2 \<noteq> 0 \<or> f_avx f),
     f_b64 = (b AND 0x800 \<noteq> 0 \<or> f_b64 f), f_paging = (b AND 0x400 \<noteq> 0 \<or> f_paging f),
     f_kernel_space = (b AND 0x1000 \<noteq> 0 \<or> f_kernel_space f), f_fb = (b AND 0x4000 \<noteq> 0 \<or> f_fb f) \<rparr>"

partial_function (option) feature_loop ::
  "(u64 \<rightharpoonup> uniboot_bitmask) \<Rightarrow> u64 \<Rightarrow> features \<Rightarrow> features option" where
  "feature_loop masks p f =
     (if p = NULL then Some f
      else do { m \<leftarrow> masks p; feature_loop masks (bm_next m) (add_features (bm_bits m) f) })"

subsection \<open>The checks\<close>

definition enable_sse :: "boot_state \<Rightarrow> boot_state" where
  "enable_sse s = s\<lparr> cr0 := (cr0 s AND NOT (push_bit 2 1)) OR push_bit 1 1,
     cr4 := (cr4 s OR push_bit 9 1) OR push_bit 10 1 \<rparr>"

text \<open>
  \<open>has_avx\<close>, \<open>has_xsave\<close> and \<open>has_osxsave\<close> are of the 8-bit type \<open>aos_bool\<close>, so
  storing \<open>ecx & (1 << 28)\<close> in one keeps the low byte only.
\<close>

definition to_aos_bool :: "u32 \<Rightarrow> u8" where
  "to_aos_bool x = ucast x"

definition enable_avx :: "boot_state \<Rightarrow> boot_state" where
  "enable_avx s =
     (let has_avx = to_aos_bool (cpuid1_ecx s AND push_bit 28 1);
          has_xsave = to_aos_bool (cpuid1_ecx s AND push_bit 26 1);
          has_osxsave = to_aos_bool (cpuid1_ecx s AND push_bit 27 1)
      in if has_avx \<noteq> 0 \<and> has_xsave \<noteq> 0 \<and> has_osxsave \<noteq> 0
         then s\<lparr> cr4 := cr4 s OR push_bit 18 1, xcr0 := xcr0 s OR 0x7 \<rparr> else s)"

definition kparse_system_info ::
  "(u64 \<rightharpoonup> uniboot_bitmask) \<Rightarrow> uniboot_boot_info \<Rightarrow> boot_state \<Rightarrow> (bool \<times> boot_state) option" where
  "kparse_system_info masks info s0 =
     (let s = s0\<lparr> system_info := None \<rparr> in
      do { f \<leftarrow> feature_loop masks (features_root info) no_features;
           if \<not> f_kernel_space f \<or> \<not> f_paging f \<or> \<not> f_b64 f \<or> \<not> f_fb f \<or> \<not> f_parsed f
           then Some (False, s)
           else let s1 = (if \<not> f_sse f then enable_sse s else s);
                    s2 = (if \<not> f_avx f then enable_avx s1 else s1)
                in Some (True, s2\<lparr> system_info := Some info \<rparr>) })"

definition kparse_system_map :: "uniboot_smmap \<Rightarrow> boot_state \<Rightarrow> bool \<times> boot_state" where
  "kparse_system_map info s0 =
     (let s = s0\<lparr> system_map := None \<rparr> in
      if m_entries info = None \<or> m_count info < 1 then (False, s)
      else (True, s\<lparr> system_map := Some info \<rparr>))"

definition hdr_bad :: "uniboot_hdr \<Rightarrow> bool" where
  "hdr_bad h \<longleftrightarrow> magic h \<noteq> UNIBOOT_MAGIC \<or> architecture h \<noteq> UNIBOOT_ARCHITECTURE_x64 \<or>
     UNIBOOT_CVERSION < u_version h \<or> UNIBOOT_CREVISION < u_revision h"

text \<open>One node of the loop: \<open>False\<close> is a return of \<open>AOS_FALSE\<close>.\<close>

definition parse_node :: "(u64 \<rightharpoonup> uniboot_bitmask) \<Rightarrow> uniboot_hdr \<Rightarrow> boot_state \<Rightarrow> (bool \<times> boot_state) option" where
  "parse_node masks h s =
     (if hdr_bad h then Some (False, s)
      else if submagic h = UNIBOOT_SUBMAGIC_BOOT_INFO then
        if system_info s \<noteq> None then Some (False, s)
        else (case body h of Boot_Info i \<Rightarrow> kparse_system_info masks i s | _ \<Rightarrow> None)
      else if submagic h = UNIBOOT_SUBMAGIC_SYSTEM_MEM_MAP then
        if system_map s \<noteq> None then Some (False, s)
        else (case body h of Smmap m \<Rightarrow> Some (kparse_system_map m s) | _ \<Rightarrow> None)
      else Some (True, s))"

partial_function (option) hdr_loop ::
  "(u64 \<rightharpoonup> uniboot_hdr) \<Rightarrow> (u64 \<rightharpoonup> uniboot_bitmask) \<Rightarrow> u64 \<Rightarrow> boot_state \<Rightarrow> (bool \<times> boot_state) option" where
  "hdr_loop hdrs masks p s =
     (if p = NULL then Some (system_info s \<noteq> None \<and> system_map s \<noteq> None, s)
      else do { h \<leftarrow> hdrs p;
                (ok, s1) \<leftarrow> parse_node masks h s;
                if ok then hdr_loop hdrs masks (u_next h) s1 else Some (False, s1) })"

text \<open>The argument is \<open>boot_info->hdr.root\<close>, or \<open>None\<close> when \<open>boot_info\<close> is null.\<close>

definition kinit_bootinfo ::
  "(u64 \<rightharpoonup> uniboot_hdr) \<Rightarrow> (u64 \<rightharpoonup> uniboot_bitmask) \<Rightarrow> u64 option \<Rightarrow> boot_state \<Rightarrow> (bool \<times> boot_state) option" where
  "kinit_bootinfo hdrs masks boot_info s0 =
     (let s = s0\<lparr> system_info := None, system_map := None \<rparr> in
      case boot_info of None \<Rightarrow> Some (False, s)
      | Some root \<Rightarrow> if root = NULL then Some (False, s) else hdr_loop hdrs masks root s)"

subsection \<open>The registers\<close>

text \<open>The feature bits 26 to 28 do not fit into the 8-bit variables they are stored in.\<close>

lemma to_aos_bool_high: "8 \<le> n \<Longrightarrow> to_aos_bool (x AND push_bit n 1) = 0"
  by (rule bit_word_eqI) (auto simp: to_aos_bool_def bit_simps simp del: push_bit_of_1)

lemma enable_avx_id: "enable_avx s = s"
  using to_aos_bool_high [of 28 "cpuid1_ecx s"] by (simp add: enable_avx_def)

lemma kparse_system_info_xcr0:
  "kparse_system_info masks info s = Some (ok, s') \<Longrightarrow> xcr0 s' = xcr0 s"
  by (auto simp: kparse_system_info_def enable_avx_id enable_sse_def Let_def bind_eq_Some_conv split: if_splits)

lemma parse_node_xcr0: "parse_node masks h s = Some (ok, s') \<Longrightarrow> xcr0 s' = xcr0 s"
  using kparse_system_info_xcr0
  by (auto simp: parse_node_def kparse_system_map_def Let_def split: if_splits node_body.splits)

lemma hdr_loop_xcr0:
  assumes "hdr_loop hdrs masks p s = Some r"
  shows "xcr0 (snd r) = xcr0 s"
proof (rule hdr_loop.raw_induct [where P = "\<lambda>_ _ _ s r. xcr0 (snd r) = xcr0 s", OF _ assms])
  fix loop hdrs masks p s r
  assume 1: "\<And>hdrs masks p s r. loop hdrs masks p s = Some r \<Longrightarrow> xcr0 (snd r) = xcr0 (s :: boot_state)"
    "(if p = NULL then Some (system_info s \<noteq> None \<and> system_map s \<noteq> None, s)
      else do { h \<leftarrow> hdrs p; (ok, s1) \<leftarrow> parse_node masks h s;
                if ok then loop hdrs masks (u_next h) s1 else Some (False, s1) }) = Some r"
  show "xcr0 (snd r) = xcr0 s"
  proof (cases "p = NULL")
    case True
    then show ?thesis using 1(2) by auto
  next
    case False
    then obtain h ok s1 where n: "hdrs p = Some h" "parse_node masks h s = Some (ok, s1)"
      "(if ok then loop hdrs masks (u_next h) s1 else Some (False, s1)) = Some r"
      using 1(2) by (auto simp: bind_eq_Some_conv)
    show ?thesis
    proof (cases ok)
      case True
      then have "xcr0 (snd r) = xcr0 s1" using n(3) by (intro 1(1)) simp
      then show ?thesis using parse_node_xcr0 [OF n(2)] by simp
    next
      case False
      then show ?thesis using n(3) parse_node_xcr0 [OF n(2)] by auto
    qed
  qed
qed

text \<open>C14: kinit_bootinfo never writes the extended control register, whatever the processor's feature word says: the tests for AVX store bits 26 to 28 in 8-bit variables and so never hold.\<close>

theorem kinit_bootinfo_never_enables_avx:
  assumes "kinit_bootinfo hdrs masks boot_info s = Some (ok, s')"
  shows "xcr0 s' = xcr0 s"
  using assms hdr_loop_xcr0 by (fastforce simp: kinit_bootinfo_def Let_def split: option.splits if_splits)

subsection \<open>What is accepted\<close>

text \<open>The nodes from \<open>p\<close> on, ended by the null pointer.\<close>

fun hdr_chain :: "(u64 \<rightharpoonup> uniboot_hdr) \<Rightarrow> u64 \<Rightarrow> uniboot_hdr list \<Rightarrow> bool" where
  "hdr_chain hdrs p [] \<longleftrightarrow> p = NULL"
| "hdr_chain hdrs p (h # hs) \<longleftrightarrow> p \<noteq> NULL \<and> hdrs p = Some h \<and> hdr_chain hdrs (u_next h) hs"

fun mask_chain :: "(u64 \<rightharpoonup> uniboot_bitmask) \<Rightarrow> u64 \<Rightarrow> uniboot_bitmask list \<Rightarrow> bool" where
  "mask_chain masks p [] \<longleftrightarrow> p = NULL"
| "mask_chain masks p (m # ms) \<longleftrightarrow> p \<noteq> NULL \<and> masks p = Some m \<and> mask_chain masks (bm_next m) ms"

definition is_binfo :: "uniboot_hdr \<Rightarrow> bool" where
  "is_binfo h \<longleftrightarrow> submagic h = UNIBOOT_SUBMAGIC_BOOT_INFO"

definition is_smmap :: "uniboot_hdr \<Rightarrow> bool" where
  "is_smmap h \<longleftrightarrow> submagic h = UNIBOOT_SUBMAGIC_SYSTEM_MEM_MAP"

text \<open>A node whose body is what its submagic says, with a terminated list of feature masks.\<close>

definition node_wf :: "(u64 \<rightharpoonup> uniboot_bitmask) \<Rightarrow> uniboot_hdr \<Rightarrow> bool" where
  "node_wf masks h \<longleftrightarrow>
     (is_binfo h \<longrightarrow> (\<exists>i ms. body h = Boot_Info i \<and> mask_chain masks (features_root i) ms)) \<and>
     (is_smmap h \<longrightarrow> (\<exists>m. body h = Smmap m))"

text \<open>A UniBoot node for x64 of a version and revision this kernel knows.\<close>

definition supported :: "uniboot_hdr \<Rightarrow> bool" where
  "supported h \<longleftrightarrow> magic h = UNIBOOT_MAGIC \<and> architecture h = UNIBOOT_ARCHITECTURE_x64 \<and>
     u_version h \<le> UNIBOOT_CVERSION \<and> u_revision h \<le> UNIBOOT_CREVISION"

lemma not_hdr_bad: "\<not> hdr_bad h \<longleftrightarrow> supported h"
  by (auto simp: hdr_bad_def supported_def not_less)

definition has_bit :: "uniboot_bitmask list \<Rightarrow> u64 \<Rightarrow> bool" where
  "has_bit ms b \<longleftrightarrow> (\<exists>m \<in> set ms. bm_bits m AND b \<noteq> 0)"

text \<open>Paging, 64 bit, kernel space and framebuffer are announced.\<close>

definition features_ok :: "uniboot_bitmask list \<Rightarrow> bool" where
  "features_ok ms \<longleftrightarrow> has_bit ms 0x400 \<and> has_bit ms 0x800 \<and> has_bit ms 0x1000 \<and> has_bit ms 0x4000"

definition binfo_ok :: "(u64 \<rightharpoonup> uniboot_bitmask) \<Rightarrow> uniboot_hdr \<Rightarrow> bool" where
  "binfo_ok masks h \<longleftrightarrow> (\<exists>i ms. body h = Boot_Info i \<and> mask_chain masks (features_root i) ms \<and> features_ok ms)"

definition smmap_ok :: "uniboot_hdr \<Rightarrow> bool" where
  "smmap_ok h \<longleftrightarrow> (\<exists>m. body h = Smmap m \<and> m_entries m \<noteq> None \<and> 1 \<le> m_count m)"

lemma submagics_differ: "is_binfo h \<Longrightarrow> \<not> is_smmap h"
  by (simp add: is_binfo_def is_smmap_def UNIBOOT_SUBMAGIC_BOOT_INFO_def UNIBOOT_SUBMAGIC_SYSTEM_MEM_MAP_def)

lemma mask_chain_unique: "mask_chain masks p ms \<Longrightarrow> mask_chain masks p ms' \<Longrightarrow> ms = ms'"
proof (induction ms arbitrary: p ms')
  case Nil then show ?case by (cases ms') auto
next
  case (Cons m ms) then show ?case by (cases ms') auto
qed

lemma feature_loop_chain:
  assumes "mask_chain masks p ms"
  shows "\<exists>g. feature_loop masks p f = Some g \<and> (f_parsed g \<longleftrightarrow> f_parsed f \<or> ms \<noteq> []) \<and>
    (f_paging g \<longleftrightarrow> f_paging f \<or> has_bit ms 0x400) \<and> (f_b64 g \<longleftrightarrow> f_b64 f \<or> has_bit ms 0x800) \<and>
    (f_kernel_space g \<longleftrightarrow> f_kernel_space f \<or> has_bit ms 0x1000) \<and> (f_fb g \<longleftrightarrow> f_fb f \<or> has_bit ms 0x4000)"
  using assms
proof (induction ms arbitrary: p f)
  case Nil
  then show ?case by (subst feature_loop.simps) (simp add: has_bit_def)
next
  case (Cons m ms)
  then have p: "p \<noteq> NULL" "masks p = Some m" "mask_chain masks (bm_next m) ms" by auto
  from Cons.IH [OF p(3), of "add_features (bm_bits m) f"] p(1,2) show ?case
    by (subst feature_loop.simps) (auto simp: has_bit_def add_features_def)
qed

text \<open>One node, from a state with what was accepted before it.\<close>

lemma parse_node_wf:
  assumes "node_wf masks h"
  shows "\<exists>ok s'. parse_node masks h s = Some (ok, s') \<and>
    (ok \<longleftrightarrow> \<not> hdr_bad h \<and> (is_binfo h \<longrightarrow> system_info s = None \<and> binfo_ok masks h) \<and>
       (is_smmap h \<longrightarrow> system_map s = None \<and> smmap_ok h)) \<and>
    (ok \<longrightarrow> (system_info s' = None \<longleftrightarrow> \<not> is_binfo h \<and> system_info s = None) \<and>
       (system_map s' = None \<longleftrightarrow> \<not> is_smmap h \<and> system_map s = None))"
proof (cases "hdr_bad h \<or> is_binfo h \<and> system_info s \<noteq> None")
  case True
  then show ?thesis by (auto simp: parse_node_def is_binfo_def)
next
  case False
  show ?thesis
  proof (cases "is_binfo h")
    case True
    with assms obtain i ms where i: "body h = Boot_Info i" "mask_chain masks (features_root i) ms"
      by (auto simp: node_wf_def)
    obtain g where g: "feature_loop masks (features_root i) no_features = Some g"
      "f_parsed g \<longleftrightarrow> ms \<noteq> []" "f_paging g \<longleftrightarrow> has_bit ms 0x400" "f_b64 g \<longleftrightarrow> has_bit ms 0x800"
      "f_kernel_space g \<longleftrightarrow> has_bit ms 0x1000" "f_fb g \<longleftrightarrow> has_bit ms 0x4000"
      using feature_loop_chain [OF i(2), of no_features] by (auto simp: no_features_def)
    have ne: "features_ok ms \<Longrightarrow> ms \<noteq> []" by (auto simp: features_ok_def has_bit_def)
    have "binfo_ok masks h \<longleftrightarrow> features_ok ms"
      using i mask_chain_unique by (auto simp: binfo_ok_def)
    then show ?thesis
      using True False i g ne submagics_differ [OF True]
      by (auto simp: parse_node_def is_binfo_def kparse_system_info_def Let_def features_ok_def
          enable_avx_id enable_sse_def)
  next
    case nb: False
    show ?thesis
    proof (cases "is_smmap h")
      case True
      with assms obtain m where m: "body h = Smmap m" by (auto simp: node_wf_def)
      then have ok: "smmap_ok h \<longleftrightarrow> \<not> (m_entries m = None \<or> m_count m < 1)"
        by (auto simp: smmap_ok_def simp flip: not_less)
      show ?thesis
      proof (cases "system_map s = None")
        case free: True
        show ?thesis
          using free True nb False m unfolding ok
          by (simp add: parse_node_def is_binfo_def is_smmap_def kparse_system_map_def Let_def)
      next
        case other: False
        then show ?thesis
          using True nb False by (simp add: parse_node_def is_binfo_def is_smmap_def)
      qed
    next
      case other: False
      then show ?thesis using nb False by (auto simp: parse_node_def is_binfo_def is_smmap_def)
    qed
  qed
qed

lemma hdr_loop_chain:
  assumes "hdr_chain hdrs p hs" "\<forall>h \<in> set hs. node_wf masks h"
  shows "\<exists>ok s'. hdr_loop hdrs masks p s = Some (ok, s') \<and>
    (ok \<longleftrightarrow> (\<forall>h \<in> set hs. \<not> hdr_bad h \<and> (is_binfo h \<longrightarrow> binfo_ok masks h) \<and> (is_smmap h \<longrightarrow> smmap_ok h)) \<and>
       length (filter is_binfo hs) + (if system_info s = None then 0 else 1) = 1 \<and>
       length (filter is_smmap hs) + (if system_map s = None then 0 else 1) = 1)"
  using assms
proof (induction hs arbitrary: p s)
  case Nil
  then show ?case by (subst hdr_loop.simps) simp
next
  case (Cons h hs)
  then have p: "p \<noteq> NULL" "hdrs p = Some h" "hdr_chain hdrs (u_next h) hs" "node_wf masks h"
    "\<forall>h \<in> set hs. node_wf masks h" by auto
  obtain ok1 s1 where n: "parse_node masks h s = Some (ok1, s1)"
    "ok1 \<longleftrightarrow> \<not> hdr_bad h \<and> (is_binfo h \<longrightarrow> system_info s = None \<and> binfo_ok masks h) \<and>
       (is_smmap h \<longrightarrow> system_map s = None \<and> smmap_ok h)"
    "ok1 \<longrightarrow> (system_info s1 = None \<longleftrightarrow> \<not> is_binfo h \<and> system_info s = None) \<and>
       (system_map s1 = None \<longleftrightarrow> \<not> is_smmap h \<and> system_map s = None)"
    using parse_node_wf [OF p(4), of s] by metis
  show ?case
  proof (cases ok1)
    case False
    then have "hdr_loop hdrs masks p s = Some (False, s1)"
      using p(1,2) n(1) by (subst hdr_loop.simps) simp
    then show ?thesis using False n(2) by auto
  next
    case True
    obtain ok s' where r: "hdr_loop hdrs masks (u_next h) s1 = Some (ok, s')"
      "ok \<longleftrightarrow> (\<forall>h \<in> set hs. \<not> hdr_bad h \<and> (is_binfo h \<longrightarrow> binfo_ok masks h) \<and> (is_smmap h \<longrightarrow> smmap_ok h)) \<and>
         length (filter is_binfo hs) + (if system_info s1 = None then 0 else 1) = 1 \<and>
         length (filter is_smmap hs) + (if system_map s1 = None then 0 else 1) = 1"
      using Cons.IH [OF p(3,5), of s1] by blast
    have "hdr_loop hdrs masks p s = Some (ok, s')"
      using p(1,2) n(1) True r(1) by (subst hdr_loop.simps) simp
    moreover consider "is_binfo h" "\<not> is_smmap h" | "is_smmap h" "\<not> is_binfo h" | "\<not> is_binfo h" "\<not> is_smmap h"
      using submagics_differ by blast
    then have "ok \<longleftrightarrow> (\<forall>h \<in> set (h # hs). \<not> hdr_bad h \<and> (is_binfo h \<longrightarrow> binfo_ok masks h) \<and> (is_smmap h \<longrightarrow> smmap_ok h)) \<and>
         length (filter is_binfo (h # hs)) + (if system_info s = None then 0 else 1) = 1 \<and>
         length (filter is_smmap (h # hs)) + (if system_map s = None then 0 else 1) = 1"
      using True n(2,3) r(2) by cases auto
    ultimately show ?thesis by blast
  qed
qed

text \<open>C13: On a terminated list of nodes kinit_bootinfo returns, and it accepts exactly the lists whose nodes are all UniBoot nodes for x64 of a supported version, with one boot-info node that announces paging, 64 bit, kernel space and framebuffer, and one memory-map node with entries.\<close>

theorem kinit_bootinfo_accepts:
  assumes "hdr_chain hdrs root hs" "hs \<noteq> []" "\<forall>h \<in> set hs. node_wf masks h"
  shows "\<exists>ok s'. kinit_bootinfo hdrs masks (Some root) s = Some (ok, s') \<and>
    (ok \<longleftrightarrow> (\<forall>h \<in> set hs. supported h \<and> (is_binfo h \<longrightarrow> binfo_ok masks h) \<and> (is_smmap h \<longrightarrow> smmap_ok h)) \<and>
       length (filter is_binfo hs) = 1 \<and> length (filter is_smmap hs) = 1)"
proof -
  have "root \<noteq> NULL" using assms(1,2) by (cases hs) auto
  then show ?thesis
    using hdr_loop_chain [OF assms(1,3), of "s\<lparr> system_info := None, system_map := None \<rparr>"]
    by (simp add: kinit_bootinfo_def not_hdr_bad)
qed

subsection \<open>Instances\<close>

definition sample_hdr :: "u8 list \<Rightarrow> u64 \<Rightarrow> node_body \<Rightarrow> uniboot_hdr" where
  "sample_hdr sub nxt b = \<lparr> magic = UNIBOOT_MAGIC, submagic = sub, u_version = UNIBOOT_CVERSION, u_revision = 1,
     architecture = UNIBOOT_ARCHITECTURE_x64, u_next = nxt, body = b \<rparr>"

definition sample_info :: uniboot_boot_info where
  "sample_info = \<lparr> features_root = 0x900, kernel_space = 0x100000, kernel_space_end = 0x180000 \<rparr>"

definition sample_nodes :: "uniboot_hdr list" where
  "sample_nodes = [sample_hdr UNIBOOT_SUBMAGIC_BOOT_INFO 0x2000 (Boot_Info sample_info),
     sample_hdr UNIBOOT_SUBMAGIC_SYSTEM_MEM_MAP 0 (Smmap \<lparr> m_count = 1, m_entries = Some [] \<rparr>)]"

definition sample_hdrs :: "u64 \<rightharpoonup> uniboot_hdr" where
  "sample_hdrs = [0x1000 \<mapsto> sample_nodes ! 0, 0x2000 \<mapsto> sample_nodes ! 1]"

definition sample_masks :: "u64 \<rightharpoonup> uniboot_bitmask" where
  "sample_masks = [0x900 \<mapsto> \<lparr> bm_bits = 0x5C00, bm_next = 0 \<rparr>]"

definition sample_boot_state :: boot_state where
  "sample_boot_state = \<lparr> cr0 = 0, cr4 = 0, xcr0 = 1, cpuid1_ecx = 0xFFFFFFFF, system_info = None, system_map = None \<rparr>"

lemma sample_chain: "hdr_chain sample_hdrs 0x1000 sample_nodes"
  by (simp add: sample_hdrs_def sample_nodes_def sample_hdr_def)

lemma sample_mask_chain: "mask_chain sample_masks 0x900 [\<lparr> bm_bits = 0x5C00, bm_next = 0 \<rparr>]"
  by (simp add: sample_masks_def)

lemma sample_kinds:
  "is_binfo (sample_hdr UNIBOOT_SUBMAGIC_BOOT_INFO p b)" "is_smmap (sample_hdr UNIBOOT_SUBMAGIC_SYSTEM_MEM_MAP p b)"
  "\<not> is_smmap (sample_hdr UNIBOOT_SUBMAGIC_BOOT_INFO p b)" "\<not> is_binfo (sample_hdr UNIBOOT_SUBMAGIC_SYSTEM_MEM_MAP p b)"
  "\<not> hdr_bad (sample_hdr sub p b)" "body (sample_hdr sub p b) = b"
  by (simp_all add: is_binfo_def is_smmap_def sample_hdr_def hdr_bad_def
    UNIBOOT_SUBMAGIC_BOOT_INFO_def UNIBOOT_SUBMAGIC_SYSTEM_MEM_MAP_def)

lemma sample_node_wf: "\<forall>h \<in> set sample_nodes. node_wf sample_masks h"
  by (auto simp: sample_nodes_def node_wf_def sample_kinds sample_info_def simp del: mask_chain.simps
    intro!: exI [where P = "mask_chain sample_masks 0x900", OF sample_mask_chain])

theorem kinit_bootinfo_accepts_witness:
  "\<exists>s'. kinit_bootinfo sample_hdrs sample_masks (Some 0x1000) sample_boot_state = Some (True, s')"
proof -
  have b: "binfo_ok sample_masks (sample_nodes ! 0)"
    using sample_mask_chain by (auto simp: binfo_ok_def sample_nodes_def sample_kinds sample_info_def
      features_ok_def has_bit_def intro!: exI [of _ "[\<lparr> bm_bits = 0x5C00, bm_next = 0 \<rparr>]"])
  have m: "smmap_ok (sample_nodes ! 1)" by (simp add: smmap_ok_def sample_nodes_def sample_kinds)
  have "sample_nodes \<noteq> []" by (simp add: sample_nodes_def)
  from kinit_bootinfo_accepts [OF sample_chain this sample_node_wf, of sample_boot_state] b m
  show ?thesis by (auto simp: sample_nodes_def sample_kinds simp flip: not_hdr_bad)
qed

theorem kinit_bootinfo_never_enables_avx_witness:
  "\<exists>s'. kinit_bootinfo sample_hdrs sample_masks None sample_boot_state = Some (False, s') \<and> xcr0 s' = 1"
proof -
  have k: "kinit_bootinfo sample_hdrs sample_masks None sample_boot_state =
      Some (False, sample_boot_state\<lparr> system_info := None, system_map := None \<rparr>)"
    by (simp add: kinit_bootinfo_def)
  from kinit_bootinfo_never_enables_avx [OF k] show ?thesis
    unfolding k by (simp add: sample_boot_state_def)
qed

end
