(* ===== verification/AvmfTypes.thy ===== *)
theory AvmfTypes
  imports Prelude
begin

text \<open>
  The data of the memory manager, \<^verbatim>\<open>Kernel/inc/mm/avmf.h\<close> and the static variables of
  \<^verbatim>\<open>Kernel/mm/avmf.c\<close>. Headers and free ranges are linked through pointers, so each kind
  lives in a store, a map from addresses to records; a pointer to a region of
  \<open>regions\<close> is its index. The state record is extensible: the pager adds its own fields to
  it, because the two call each other.
\<close>

abbreviation AVMF_SIGNATURE :: u32 where "AVMF_SIGNATURE \<equiv> 0xA1322F"
abbreviation AVMF_VERSION :: u16 where "AVMF_VERSION \<equiv> 1"
abbreviation PAGE_SIZE :: u64 where "PAGE_SIZE \<equiv> 4096"
abbreviation BITMAP_SIZE :: u64 where "BITMAP_SIZE \<equiv> 131072"
abbreviation AVMF_STATIC_SIZE :: nat where "AVMF_STATIC_SIZE \<equiv> 1024"
abbreviation AVMF_STATIC_RANGE_SIZE :: u64 where "AVMF_STATIC_RANGE_SIZE \<equiv> 2048"

text \<open>Bits of a page-table entry (\<^verbatim>\<open>Kernel/inc/mm/pager.h\<close>).\<close>

abbreviation PAGE_PRESENT :: u64 where "PAGE_PRESENT \<equiv> 0x1"
abbreviation PAGE_RW :: u64 where "PAGE_RW \<equiv> 0x2"
abbreviation PAGE_USER :: u64 where "PAGE_USER \<equiv> 0x4"
abbreviation PAGE_PCD :: u64 where "PAGE_PCD \<equiv> 0x10"
abbreviation PAGE_DIRTY :: u64 where "PAGE_DIRTY \<equiv> 0x40"
abbreviation PAGE_HUGE :: u64 where "PAGE_HUGE \<equiv> 0x80"
abbreviation PAGE_GLOBAL :: u64 where "PAGE_GLOBAL \<equiv> 0x100"
abbreviation PAGE_XD :: u64 where "PAGE_XD \<equiv> 0x8000000000000000"

datatype avmf_header_type =
  AVMF_HDR_TYPE_CORRUPT | AVMF_HDR_TYPE_CACHE | AVMF_HDR_TYPE_ALLOC

record avmf_header =
  h_signature :: u32
  h_version :: u16
  h_type :: avmf_header_type
  virt_addr :: u64
  phys_addr :: u64
  h_size :: u64
  used :: bool
  h_flags :: u32
  h_attributes :: u32
  h_next :: u64
  h_parent :: u64

record avmf_range =
  r_base :: u64
  r_size :: u64
  r_next :: u64

record avmf_region =
  signature :: u32
  version :: u16
  base :: u64
  limit :: u64
  allocated_bytes :: u64
  free_list :: u64
  free_count :: u64
  free_list_end :: u64
  alloc_list :: u64
  alloc_count :: u64
  alloc_list_end :: u64
  cache_list :: u64
  cache_count :: u64
  cache_list_end :: u64

type_synonym header_store = "u64 \<rightharpoonup> avmf_header"
type_synonym range_store = "u64 \<rightharpoonup> avmf_range"

text \<open>\<open>sizeof\<close> of the two structures, with the alignment of x86-64.\<close>

abbreviation sizeof_avmf_header :: u64 where "sizeof_avmf_header \<equiv> 72"
abbreviation sizeof_avmf_range :: u64 where "sizeof_avmf_range \<equiv> 24"

text \<open>
  The static variables. \<open>static_ranges\<close> is the address of the array of that name; its
  elements are in \<open>ranges\<close>. \<open>bitmap\<close> gives the words of \<open>avmf_bitmap\<close>.
\<close>

record avmf =
  headers :: header_store
  ranges :: range_store
  regions :: "avmf_region list"
  region_count :: u64
  physical_regions :: "avmf_region list"
  physical_region_count :: u64
  static_ranges :: u64
  static_ranges_count :: u64
  ihdr_cpage :: u64
  ihdr_cpage_remaining :: u64
  irange_cpage :: u64
  irange_cpage_remaining :: u64
  bitmap :: "u64 \<Rightarrow> u64"

text \<open>The check at the head of most functions, that a region was initialised and is not empty.\<close>

definition region_ok :: "avmf_region \<Rightarrow> bool" where
  "region_ok r \<longleftrightarrow>
     signature r = AVMF_SIGNATURE \<and> version r = AVMF_VERSION \<and> \<not> (limit r < 1 \<or> limit r \<le> base r)"

definition header_bad :: "avmf_header \<Rightarrow> bool" where
  "header_bad h \<longleftrightarrow> h_signature h \<noteq> AVMF_SIGNATURE \<or> h_version h \<noteq> AVMF_VERSION"

text \<open>\<open>align4k\<close> gives 0 when the rounded value would not fit.\<close>

definition align4k :: "u64 \<Rightarrow> u64" where
  "align4k value = (if UINT64_MAX - (PAGE_SIZE - 1) < value then 0 else ALIGN_UP value PAGE_SIZE)"

lemma unat_align4k:
  assumes "unat x + 4095 < 2 ^ 64"
  shows "unat (align4k x) = (unat x + 4095) div 4096 * 4096"
proof -
  have "\<not> UINT64_MAX - (PAGE_SIZE - 1) < x" using assms by (simp add: word_less_nat_alt)
  then show ?thesis using assms unat_ALIGN_UP [of PAGE_SIZE 12 x] by (simp add: align4k_def)
qed

lemma align4k_dvd: "4096 dvd unat (align4k x)"
proof (cases "unat x + 4095 < 2 ^ 64")
  case True
  then show ?thesis by (simp add: unat_align4k)
next
  case False
  then have "UINT64_MAX - (PAGE_SIZE - 1) < x" by (simp add: word_less_nat_alt)
  then show ?thesis by (simp add: align4k_def)
qed

lemma align4k_ge: "align4k x \<noteq> 0 \<Longrightarrow> unat x \<le> unat (align4k x)"
proof -
  assume "align4k x \<noteq> 0"
  then have "\<not> UINT64_MAX - (PAGE_SIZE - 1) < x" by (auto simp: align4k_def)
  then have "unat x + 4095 < 2 ^ 64" by (simp add: word_less_nat_alt)
  then have "unat (align4k x) = (unat x + 4095) div 4096 * 4096" by (rule unat_align4k)
  then show ?thesis by linarith
qed

end
