(* ===== verification/AvmfPhys.thy ===== *)
theory AvmfPhys
  imports AvmfTypes
begin

text \<open>
  Physical pages of \<^verbatim>\<open>Kernel/mm/avmf.c\<close>: the bitmap and the four functions that take pages
  from the physical regions and give them back. The bitmap keeps eight pages in each 64-bit
  word. A page outside \<open>avmf_bitmap\<close>, and a region outside its array, is an access out of
  bounds and gives \<open>None\<close>.

  The abstract side is \<open>page_used\<close>, the set of allocated pages.
\<close>

subsection \<open>The bitmap\<close>

definition bitmap_set :: "u64 \<Rightarrow> 'a avmf_scheme \<Rightarrow> 'a avmf_scheme option" where
  "bitmap_set page_idx s =
     (let w = page_idx div 8 in
      if w < BITMAP_SIZE
      then Some (s\<lparr> bitmap := (bitmap s)(w := bitmap s w OR push_bit (unat (page_idx mod 8)) 1) \<rparr>)
      else None)"

definition bitmap_clear :: "u64 \<Rightarrow> 'a avmf_scheme \<Rightarrow> 'a avmf_scheme option" where
  "bitmap_clear page_idx s =
     (let w = page_idx div 8 in
      if w < BITMAP_SIZE
      then Some (s\<lparr> bitmap := (bitmap s)(w := bitmap s w AND NOT (push_bit (unat (page_idx mod 8)) 1)) \<rparr>)
      else None)"

text \<open>The result is an \<open>aos_bool\<close>, so the masked word is cut to eight bits.\<close>

definition bitmap_test :: "u64 \<Rightarrow> 'a avmf_scheme \<Rightarrow> bool option" where
  "bitmap_test page_idx s =
     (let w = page_idx div 8 in
      if w < BITMAP_SIZE
      then Some ((ucast (bitmap s w AND push_bit (unat (page_idx mod 8)) 1) :: u8) \<noteq> 0)
      else None)"

subsection \<open>Single pages\<close>

text \<open>The first free page from \<open>p\<close> on, below \<open>end_page\<close>.\<close>

function find_free_page :: "u64 \<Rightarrow> u64 \<Rightarrow> 'a avmf_scheme \<Rightarrow> u64 option option" where
  "find_free_page p end_page s =
     (if p < end_page then
        do { t \<leftarrow> bitmap_test p s;
             if \<not> t then Some (Some p) else find_free_page (p + 1) end_page s }
      else Some None)"
  by pat_completeness auto
termination
  by (relation "measure (\<lambda>(p, end_page, s). unat end_page - unat p)")
    (auto simp: word_less_nat_alt unat_plus_u64 less_le_trans [OF _ u64_le_max])

declare find_free_page.simps [simp del]

definition first_page_of :: "avmf_region \<Rightarrow> u64" where
  "first_page_of r = base r div PAGE_SIZE"

definition end_page_of :: "avmf_region \<Rightarrow> u64" where
  "end_page_of r = limit r div PAGE_SIZE"

definition add_allocated :: "nat \<Rightarrow> u64 \<Rightarrow> 'a avmf_scheme \<Rightarrow> 'a avmf_scheme" where
  "add_allocated i n s =
     s\<lparr> physical_regions := (physical_regions s)
          [i := (physical_regions s ! i)\<lparr> allocated_bytes := allocated_bytes (physical_regions s ! i) + n \<rparr>] \<rparr>"

definition sub_allocated :: "nat \<Rightarrow> u64 \<Rightarrow> 'a avmf_scheme \<Rightarrow> 'a avmf_scheme" where
  "sub_allocated i n s =
     (let a = allocated_bytes (physical_regions s ! i) in
      s\<lparr> physical_regions := (physical_regions s)
          [i := (physical_regions s ! i)\<lparr> allocated_bytes := (if n \<le> a then a - n else 0) \<rparr>] \<rparr>)"

text \<open>The loops over the physical regions run over the indices below \<open>physical_region_count\<close>.\<close>

definition region_indices :: "'a avmf_scheme \<Rightarrow> nat list" where
  "region_indices s = [0..<unat (physical_region_count s)]"

fun alloc_phys_page_loop :: "nat list \<Rightarrow> 'a avmf_scheme \<Rightarrow> (u64 \<times> 'a avmf_scheme) option" where
  "alloc_phys_page_loop [] s = Some (0, s)"
| "alloc_phys_page_loop (i # is) s =
     (if length (physical_regions s) \<le> i then None
      else let r = physical_regions s ! i in
        if \<not> region_ok r then alloc_phys_page_loop is s
        else do {
          found \<leftarrow> find_free_page (first_page_of r) (end_page_of r) s;
          case found of
            Some p \<Rightarrow> do { s1 \<leftarrow> bitmap_set p s; Some (p * PAGE_SIZE, add_allocated i PAGE_SIZE s1) }
          | None \<Rightarrow> alloc_phys_page_loop is s })"

definition avmf_alloc_phys_page :: "'a avmf_scheme \<Rightarrow> (u64 \<times> 'a avmf_scheme) option" where
  "avmf_alloc_phys_page s = alloc_phys_page_loop (region_indices s) s"

fun free_phys_page_loop :: "nat list \<Rightarrow> u64 \<Rightarrow> 'a avmf_scheme \<Rightarrow> 'a avmf_scheme option" where
  "free_phys_page_loop [] page s = Some s"
| "free_phys_page_loop (i # is) page s =
     (if length (physical_regions s) \<le> i then None
      else let r = physical_regions s ! i in
        if \<not> region_ok r then free_phys_page_loop is page s
        else if page < first_page_of r \<or> end_page_of r \<le> page then free_phys_page_loop is page s
        else do {
          t \<leftarrow> bitmap_test page s;
          if \<not> t then Some s
          else do { s1 \<leftarrow> bitmap_clear page s; Some (sub_allocated i PAGE_SIZE s1) } })"

definition avmf_free_phys_page :: "u64 \<Rightarrow> 'a avmf_scheme \<Rightarrow> 'a avmf_scheme option" where
  "avmf_free_phys_page phys s =
     free_phys_page_loop (region_indices s) (ALIGN_DOWN phys PAGE_SIZE div PAGE_SIZE) s"

subsection \<open>Contiguous pages\<close>

text \<open>The scan of one region for \<open>pages_needed\<close> free pages in a row; the result is the first.\<close>

function find_run :: "u64 \<Rightarrow> u64 \<Rightarrow> u64 \<Rightarrow> u64 \<Rightarrow> u64 \<Rightarrow> 'a avmf_scheme \<Rightarrow> u64 option option" where
  "find_run p end_page consecutive first_page pages_needed s =
     (if p < end_page then
        do { t \<leftarrow> bitmap_test p s;
             if \<not> t then
               (let first' = (if consecutive = 0 then p else first_page);
                    consecutive' = consecutive + 1
                in if consecutive' = pages_needed then Some (Some first')
                   else find_run (p + 1) end_page consecutive' first' pages_needed s)
             else find_run (p + 1) end_page 0 first_page pages_needed s }
      else Some None)"
  by pat_completeness auto
termination
  by (relation "measure (\<lambda>(p, end_page, c, f, n, s). unat end_page - unat p)")
    (auto simp: word_less_nat_alt unat_plus_u64 less_le_trans [OF _ u64_le_max])

declare find_run.simps [simp del]

function set_pages :: "u64 \<Rightarrow> u64 \<Rightarrow> 'a avmf_scheme \<Rightarrow> 'a avmf_scheme option" where
  "set_pages j stop s =
     (if j < stop then do { s1 \<leftarrow> bitmap_set j s; set_pages (j + 1) stop s1 } else Some s)"
  by pat_completeness auto
termination
  by (relation "measure (\<lambda>(j, stop, s). unat stop - unat j)")
    (auto simp: word_less_nat_alt unat_plus_u64 less_le_trans [OF _ u64_le_max])

declare set_pages.simps [simp del]

function clear_pages :: "u64 \<Rightarrow> u64 \<Rightarrow> 'a avmf_scheme \<Rightarrow> 'a avmf_scheme option" where
  "clear_pages j stop s =
     (if j < stop then do { s1 \<leftarrow> bitmap_clear j s; clear_pages (j + 1) stop s1 } else Some s)"
  by pat_completeness auto
termination
  by (relation "measure (\<lambda>(j, stop, s). unat stop - unat j)")
    (auto simp: word_less_nat_alt unat_plus_u64 less_le_trans [OF _ u64_le_max])

declare clear_pages.simps [simp del]

function all_used :: "u64 \<Rightarrow> u64 \<Rightarrow> 'a avmf_scheme \<Rightarrow> bool option" where
  "all_used p stop s =
     (if p < stop then do { t \<leftarrow> bitmap_test p s; if \<not> t then Some False else all_used (p + 1) stop s }
      else Some True)"
  by pat_completeness auto
termination
  by (relation "measure (\<lambda>(p, stop, s). unat stop - unat p)")
    (auto simp: word_less_nat_alt unat_plus_u64 less_le_trans [OF _ u64_le_max])

declare all_used.simps [simp del]

fun alloc_run_loop :: "nat list \<Rightarrow> u64 \<Rightarrow> 'a avmf_scheme \<Rightarrow> (u64 \<times> 'a avmf_scheme) option" where
  "alloc_run_loop [] pages_needed s = Some (0, s)"
| "alloc_run_loop (i # is) pages_needed s =
     (if length (physical_regions s) \<le> i then None
      else let r = physical_regions s ! i in
        if \<not> region_ok r then alloc_run_loop is pages_needed s
        else do {
          found \<leftarrow> find_run (first_page_of r) (end_page_of r) 0 0 pages_needed s;
          case found of
            Some first_page \<Rightarrow> do {
              s1 \<leftarrow> set_pages first_page (first_page + pages_needed) s;
              Some (first_page * PAGE_SIZE, add_allocated i (pages_needed * PAGE_SIZE) s1) }
          | None \<Rightarrow> alloc_run_loop is pages_needed s })"

definition avmf_alloc_phys_contiguous :: "u64 \<Rightarrow> 'a avmf_scheme \<Rightarrow> (u64 \<times> 'a avmf_scheme) option" where
  "avmf_alloc_phys_contiguous bytes s =
     (if bytes = 0 then Some (0, s)
      else let sz = align4k bytes in
        if sz = 0 then Some (0, s)
        else alloc_run_loop (region_indices s) (sz div PAGE_SIZE) s)"

fun free_run_loop :: "nat list \<Rightarrow> u64 \<Rightarrow> u64 \<Rightarrow> 'a avmf_scheme \<Rightarrow> 'a avmf_scheme option" where
  "free_run_loop [] first_page pages_needed s = Some s"
| "free_run_loop (i # is) first_page pages_needed s =
     (if length (physical_regions s) \<le> i then None
      else let r = physical_regions s ! i in
        if \<not> region_ok r then free_run_loop is first_page pages_needed s
        else if first_page < first_page_of r \<or> end_page_of r \<le> first_page
        then free_run_loop is first_page pages_needed s
        else if end_page_of r - first_page < pages_needed then free_run_loop is first_page pages_needed s
        else do {
          found \<leftarrow> all_used first_page (first_page + pages_needed) s;
          if \<not> found then free_run_loop is first_page pages_needed s
          else do {
            s1 \<leftarrow> clear_pages first_page (first_page + pages_needed) s;
            Some (sub_allocated i (pages_needed * PAGE_SIZE) s1) } })"

definition avmf_free_phys_contiguous :: "u64 \<Rightarrow> u64 \<Rightarrow> 'a avmf_scheme \<Rightarrow> 'a avmf_scheme option" where
  "avmf_free_phys_contiguous phys bytes s =
     (if bytes = 0 then Some s
      else let sz = align4k bytes in
        if sz = 0 then Some s
        else free_run_loop (region_indices s) (ALIGN_DOWN phys PAGE_SIZE div PAGE_SIZE)
               (sz div PAGE_SIZE) s)"

subsection \<open>The set of used pages\<close>

definition page_used :: "'a avmf_scheme \<Rightarrow> u64 \<Rightarrow> bool" where
  "page_used s p = bit (bitmap s (p div 8)) (unat (p mod 8))"

definition in_bitmap :: "u64 \<Rightarrow> bool" where
  "in_bitmap p \<longleftrightarrow> p div 8 < BITMAP_SIZE"

lemma in_bitmap_iff: "in_bitmap p \<longleftrightarrow> unat p < 1048576"
  by (simp add: in_bitmap_def word_less_nat_alt unat_div_distrib) linarith

lemma page_eq_iff: "p = q \<longleftrightarrow> p div 8 = q div 8 \<and> unat (p mod 8) = unat (q mod 8)" for p q :: u64
  by (metis div_mult_mod_eq word_unat_eq_iff)

lemma unat_mod8: "unat (p mod 8 :: u64) < 8"
  by (simp add: unat_mod_distrib)

lemma ucast_mask_bit:
  fixes w :: u64
  assumes k: "k < 8"
  shows "(ucast (w AND push_bit k 1) :: u8) \<noteq> 0 \<longleftrightarrow> bit w k"
proof -
  have "bit (ucast (w AND push_bit k 1) :: u8) n \<longleftrightarrow> n = k \<and> bit w k" for n :: nat
    using k by (auto simp: bit_simps)
  then show ?thesis using k by (auto simp: bit_eq_iff simp del: push_bit_of_1)
qed

lemma bitmap_test_used: "in_bitmap p \<Longrightarrow> bitmap_test p s = Some (page_used s p)"
  by (simp add: bitmap_test_def in_bitmap_def page_used_def ucast_mask_bit unat_mod8 del: push_bit_of_1)

lemma bit_or_one:
  fixes w :: u64
  assumes "k < 8" shows "bit (w OR push_bit k 1) n \<longleftrightarrow> n = k \<or> bit w n"
  using assms by (auto simp: bit_simps)

lemma bit_and_not_one:
  fixes w :: u64
  assumes "k < 8" shows "bit (w AND NOT (push_bit k 1)) n \<longleftrightarrow> n \<noteq> k \<and> bit w n"
  using assms bit_imp_le_length [of w n] by (auto simp: bit_simps)

lemma bitmap_set_used:
  assumes "in_bitmap p"
  shows "\<exists>bm. bitmap_set p s = Some (s\<lparr> bitmap := bm \<rparr>) \<and>
    (\<forall>q. page_used (s\<lparr> bitmap := bm \<rparr>) q \<longleftrightarrow> q = p \<or> page_used s q)"
proof -
  let ?bm = "(bitmap s)(p div 8 := bitmap s (p div 8) OR push_bit (unat (p mod 8)) 1)"
  have "bitmap_set p s = Some (s\<lparr> bitmap := ?bm \<rparr>)"
    using assms by (simp add: bitmap_set_def in_bitmap_def Let_def)
  moreover have "page_used (s\<lparr> bitmap := ?bm \<rparr>) q \<longleftrightarrow> q = p \<or> page_used s q" for q
    using unat_mod8 [of p]
    by (auto simp: page_used_def page_eq_iff [of q p] bit_or_one simp del: push_bit_of_1)
  ultimately show ?thesis by blast
qed

lemma bitmap_clear_used:
  assumes "in_bitmap p"
  shows "\<exists>bm. bitmap_clear p s = Some (s\<lparr> bitmap := bm \<rparr>) \<and>
    (\<forall>q. page_used (s\<lparr> bitmap := bm \<rparr>) q \<longleftrightarrow> q \<noteq> p \<and> page_used s q)"
proof -
  let ?bm = "(bitmap s)(p div 8 := bitmap s (p div 8) AND NOT (push_bit (unat (p mod 8)) 1))"
  have "bitmap_clear p s = Some (s\<lparr> bitmap := ?bm \<rparr>)"
    using assms by (simp add: bitmap_clear_def in_bitmap_def Let_def)
  moreover have "page_used (s\<lparr> bitmap := ?bm \<rparr>) q \<longleftrightarrow> q \<noteq> p \<and> page_used s q" for q
    using unat_mod8 [of p]
    by (auto simp: page_used_def page_eq_iff [of q p] bit_and_not_one simp del: push_bit_of_1)
  ultimately show ?thesis by blast
qed

text \<open>Loops over pages run upwards from \<open>p\<close> to \<open>stop\<close>; one step of such a range.\<close>

lemma page_step: "p < stop \<Longrightarrow> unat (p + 1) = unat p + 1" for p stop :: u64
  using u64_le_max [of stop] by (simp add: word_less_nat_alt unat_plus_u64)

lemma page_range_step:
  fixes p stop q :: u64
  assumes "p < stop"
  shows "p \<le> q \<and> q < stop \<longleftrightarrow> q = p \<or> p + 1 \<le> q \<and> q < stop"
  using assms page_step [OF assms]
  by (auto simp: word_le_nat_alt word_less_nat_alt intro: u64_eqI)

lemma set_pages_used:
  "(\<forall>q. j \<le> q \<and> q < stop \<longrightarrow> in_bitmap q) \<Longrightarrow>
   \<exists>bm. set_pages j stop s = Some (s\<lparr> bitmap := bm \<rparr>) \<and>
    (\<forall>q. page_used (s\<lparr> bitmap := bm \<rparr>) q \<longleftrightarrow> j \<le> q \<and> q < stop \<or> page_used s q)"
proof (induction j stop s rule: set_pages.induct)
  case (1 j stop s)
  show ?case
  proof (cases "j < stop")
    case False
    then show ?thesis
      by (subst set_pages.simps) (auto intro!: exI [of _ "bitmap s"] simp: word_le_nat_alt word_less_nat_alt)
  next
    case True
    from 1(2) True have "in_bitmap j" by auto
    from bitmap_set_used [OF this, of s] obtain bm where bm:
      "bitmap_set j s = Some (s\<lparr> bitmap := bm \<rparr>)"
      "\<forall>q. page_used (s\<lparr> bitmap := bm \<rparr>) q \<longleftrightarrow> q = j \<or> page_used s q" by blast
    have "\<forall>q. j + 1 \<le> q \<and> q < stop \<longrightarrow> in_bitmap q"
      using 1(2) page_range_step [OF True] by blast
    from 1(1) [OF True bm(1) this] obtain bm2 where
      "set_pages (j + 1) stop (s\<lparr> bitmap := bm \<rparr>) = Some (s\<lparr> bitmap := bm2 \<rparr>)"
      "\<forall>q. page_used (s\<lparr> bitmap := bm2 \<rparr>) q \<longleftrightarrow> j + 1 \<le> q \<and> q < stop \<or> page_used (s\<lparr> bitmap := bm \<rparr>) q"
      by auto
    then show ?thesis
      using True bm page_range_step [OF True] by (subst set_pages.simps) auto
  qed
qed

lemma clear_pages_used:
  "(\<forall>q. j \<le> q \<and> q < stop \<longrightarrow> in_bitmap q) \<Longrightarrow>
   \<exists>bm. clear_pages j stop s = Some (s\<lparr> bitmap := bm \<rparr>) \<and>
    (\<forall>q. page_used (s\<lparr> bitmap := bm \<rparr>) q \<longleftrightarrow> \<not> (j \<le> q \<and> q < stop) \<and> page_used s q)"
proof (induction j stop s rule: clear_pages.induct)
  case (1 j stop s)
  show ?case
  proof (cases "j < stop")
    case False
    then show ?thesis
      by (subst clear_pages.simps) (auto intro!: exI [of _ "bitmap s"] simp: word_le_nat_alt word_less_nat_alt)
  next
    case True
    from 1(2) True have "in_bitmap j" by auto
    from bitmap_clear_used [OF this, of s] obtain bm where bm:
      "bitmap_clear j s = Some (s\<lparr> bitmap := bm \<rparr>)"
      "\<forall>q. page_used (s\<lparr> bitmap := bm \<rparr>) q \<longleftrightarrow> q \<noteq> j \<and> page_used s q" by blast
    have "\<forall>q. j + 1 \<le> q \<and> q < stop \<longrightarrow> in_bitmap q"
      using 1(2) page_range_step [OF True] by blast
    from 1(1) [OF True bm(1) this] obtain bm2 where
      "clear_pages (j + 1) stop (s\<lparr> bitmap := bm \<rparr>) = Some (s\<lparr> bitmap := bm2 \<rparr>)"
      "\<forall>q. page_used (s\<lparr> bitmap := bm2 \<rparr>) q \<longleftrightarrow> \<not> (j + 1 \<le> q \<and> q < stop) \<and> page_used (s\<lparr> bitmap := bm \<rparr>) q"
      by auto
    then show ?thesis
      using True bm page_range_step [OF True] by (subst clear_pages.simps) auto
  qed
qed

lemma all_used_iff:
  "(\<forall>q. p \<le> q \<and> q < stop \<longrightarrow> in_bitmap q) \<Longrightarrow>
   all_used p stop s = Some (\<forall>q. p \<le> q \<and> q < stop \<longrightarrow> page_used s q)"
proof (induction p stop s rule: all_used.induct)
  case (1 p stop s)
  show ?case
  proof (cases "p < stop")
    case False
    then show ?thesis by (subst all_used.simps) (auto simp: word_le_nat_alt word_less_nat_alt)
  next
    case True
    then have t: "bitmap_test p s = Some (page_used s p)" using 1(2) by (intro bitmap_test_used) auto
    have "\<forall>q. p + 1 \<le> q \<and> q < stop \<longrightarrow> in_bitmap q"
      using 1(2) page_range_step [OF True] by blast
    then show ?thesis
      using 1(1) [OF True t] True t page_range_step [OF True] by (subst all_used.simps) auto
  qed
qed

subsection \<open>Runs of free pages\<close>

text \<open>\<open>free_run s lo hi n f\<close>: the \<open>n\<close> pages from \<open>f\<close> on lie between \<open>lo\<close> and \<open>hi\<close> and are free.\<close>

definition free_run :: "'a avmf_scheme \<Rightarrow> nat \<Rightarrow> nat \<Rightarrow> nat \<Rightarrow> u64 \<Rightarrow> bool" where
  "free_run s lo hi n f \<longleftrightarrow> lo \<le> unat f \<and> unat f + n \<le> hi \<and>
     (\<forall>q. unat f \<le> unat q \<and> unat q < unat f + n \<longrightarrow> \<not> page_used s q)"

definition first_run :: "'a avmf_scheme \<Rightarrow> nat \<Rightarrow> nat \<Rightarrow> nat \<Rightarrow> u64 option \<Rightarrow> bool" where
  "first_run s lo hi n res \<longleftrightarrow>
     (case res of None \<Rightarrow> \<forall>g. \<not> free_run s lo hi n g
      | Some f \<Rightarrow> free_run s lo hi n f \<and> (\<forall>g. free_run s lo hi n g \<longrightarrow> unat f \<le> unat g))"

lemma find_run_first:
  assumes bm: "\<forall>q. unat q < unat stop \<longrightarrow> in_bitmap q"
  shows "\<lbrakk>p \<le> stop; lo + unat c \<le> unat p; unat c < unat n;
     \<forall>q. unat p - unat c \<le> unat q \<and> unat q < unat p \<longrightarrow> \<not> page_used s q;
     c \<noteq> 0 \<longrightarrow> unat first_page = unat p - unat c;
     \<forall>g. free_run s lo (unat stop) (unat n) g \<longrightarrow> unat p - unat c \<le> unat g\<rbrakk> \<Longrightarrow>
   \<exists>res. find_run p stop c first_page n s = Some res \<and> first_run s lo (unat stop) (unat n) res"
proof (induction "unat stop - unat p" arbitrary: p c first_page)
  case 0
  then have p: "unat p = unat stop" by (simp add: word_le_nat_alt)
  have "\<not> free_run s lo (unat stop) (unat n) g" for g
  proof
    assume g: "free_run s lo (unat stop) (unat n) g"
    then have "unat p - unat c \<le> unat g" "unat g + unat n \<le> unat stop"
      using 0 by (auto simp: free_run_def)
    then show False using p 0 by linarith
  qed
  then show ?case using p by (subst find_run.simps) (simp add: first_run_def word_less_nat_alt)
next
  case (Suc d)
  then have lt: "p < stop" by (simp add: word_less_nat_alt)
  note p1 = page_step [OF lt]
  have t: "bitmap_test p s = Some (page_used s p)"
    using bm lt by (intro bitmap_test_used) (simp add: word_less_nat_alt)
  have d: "d = unat stop - unat (p + 1)" using Suc.hyps(2) p1 by simp
  have le: "p + 1 \<le> stop" using lt p1 by (simp add: word_le_nat_alt word_less_nat_alt)
  have split: "unat q < unat (p + 1) \<longleftrightarrow> unat q < unat p \<or> q = p" for q
    using p1 by (auto simp: less_Suc_eq intro: u64_eqI)
  show ?case
  proof (cases "page_used s p")
    case True
    have "unat (p + 1) \<le> unat g" if g: "free_run s lo (unat stop) (unat n) g" for g
    proof (rule ccontr)
      assume "\<not> unat (p + 1) \<le> unat g"
      then have "unat g \<le> unat p" using p1 by simp
      moreover have "unat p < unat g + unat n" using Suc.prems(2,3,6) g by fastforce
      ultimately show False using g True by (auto simp: free_run_def)
    qed
    then have "\<exists>res. find_run (p + 1) stop 0 first_page n s = Some res \<and> first_run s lo (unat stop) (unat n) res"
      using Suc.prems p1 le by (intro Suc.hyps(1) [OF d]) auto
    then show ?thesis using True lt t by (subst find_run.simps) simp
  next
    case free: False
    let ?f = "if c = 0 then p else first_page"
    have f: "unat ?f = unat p - unat c" using Suc.prems(5) by auto
    have c1: "unat (c + 1) = unat c + 1" using Suc.prems(3) u64_le_max [of n] by (simp add: unat_plus_u64)
    have window: "\<forall>q. unat p - unat c \<le> unat q \<and> unat q < unat (p + 1) \<longrightarrow> \<not> page_used s q"
      using Suc.prems(4) free split by blast
    show ?thesis
    proof (cases "c + 1 = n")
      case True
      have n: "unat n = unat c + 1" using True c1 by auto
      have "unat ?f + unat n = unat p + 1" using f n Suc.prems(2) by linarith
      then have "free_run s lo (unat stop) (unat n) ?f"
        using window f p1 lt Suc.prems(2) unfolding free_run_def by (simp add: word_less_nat_alt)
      then have "first_run s lo (unat stop) (unat n) (Some ?f)"
        using Suc.prems(6) f by (simp add: first_run_def)
      then show ?thesis using True lt t free by (subst find_run.simps) (simp add: Let_def)
    next
      case False
      have ne: "unat c + 1 \<noteq> unat n" using False c1 by (metis word_unat_eq_iff)
      have c0: "c + 1 \<noteq> 0" using c1 by auto
      have "\<exists>res. find_run (p + 1) stop (c + 1) ?f n s = Some res \<and> first_run s lo (unat stop) (unat n) res"
      proof (rule Suc.hyps(1) [OF d le])
        show "\<forall>q. unat (p + 1) - unat (c + 1) \<le> unat q \<and> unat q < unat (p + 1) \<longrightarrow> \<not> page_used s q"
          using window p1 c1 by simp
        show "c + 1 \<noteq> 0 \<longrightarrow> unat ?f = unat (p + 1) - unat (c + 1)" using f p1 c1 by simp
        show "\<forall>g. free_run s lo (unat stop) (unat n) g \<longrightarrow> unat (p + 1) - unat (c + 1) \<le> unat g"
          using Suc.prems(6) p1 c1 by simp
      qed (use Suc.prems p1 c1 ne in linarith)+
      then show ?thesis using False lt t free by (subst find_run.simps) (simp add: Let_def)
    qed
  qed
qed

lemma find_free_page_first:
  assumes bm: "\<forall>q. unat q < unat stop \<longrightarrow> in_bitmap q"
  shows "\<lbrakk>p \<le> stop; lo \<le> unat p; \<forall>q. lo \<le> unat q \<and> unat q < unat p \<longrightarrow> page_used s q\<rbrakk> \<Longrightarrow>
   \<exists>res. find_free_page p stop s = Some res \<and> first_run s lo (unat stop) 1 res"
proof (induction "unat stop - unat p" arbitrary: p)
  case 0
  then have p: "unat p = unat stop" by (simp add: word_le_nat_alt)
  then have "\<not> free_run s lo (unat stop) 1 g" for g using 0 by (auto simp: free_run_def)
  then show ?case using p by (subst find_free_page.simps) (simp add: first_run_def word_less_nat_alt)
next
  case (Suc d)
  then have lt: "p < stop" by (simp add: word_less_nat_alt)
  note p1 = page_step [OF lt]
  have t: "bitmap_test p s = Some (page_used s p)"
    using bm lt by (intro bitmap_test_used) (simp add: word_less_nat_alt)
  show ?case
  proof (cases "page_used s p")
    case True
    have d: "d = unat stop - unat (p + 1)" using Suc.hyps(2) p1 by simp
    have le: "p + 1 \<le> stop" using lt p1 by (simp add: word_le_nat_alt word_less_nat_alt)
    have "\<forall>q. lo \<le> unat q \<and> unat q < unat (p + 1) \<longrightarrow> page_used s q"
      using Suc.prems(3) True p1 by (metis Suc_eq_plus1 less_Suc_eq u64_eqI)
    from Suc.hyps(1) [OF d le _ this] obtain res where
      "find_free_page (p + 1) stop s = Some res" "first_run s lo (unat stop) 1 res"
      using Suc.prems(2) p1 by auto
    then show ?thesis using True lt t by (subst find_free_page.simps) simp
  next
    case False
    have q: "unat q = unat p" if "unat p \<le> unat q" "unat q < unat p + 1" for q :: u64
      using that by simp
    have "free_run s lo (unat stop) 1 p"
      using False Suc.prems(2) lt by (auto simp: free_run_def word_less_nat_alt dest: u64_eqI [OF q])
    moreover have "unat p \<le> unat g" if "free_run s lo (unat stop) 1 g" for g
      using that Suc.prems(3) by (auto simp: free_run_def not_less [symmetric])
    ultimately have "first_run s lo (unat stop) 1 (Some p)" by (simp add: first_run_def)
    then show ?thesis using lt t False by (subst find_free_page.simps) simp
  qed
qed

subsection \<open>Allocation and release\<close>

text \<open>The physical regions are inside their array and inside the bitmap.\<close>

definition phys_ok :: "'a avmf_scheme \<Rightarrow> bool" where
  "phys_ok s \<longleftrightarrow> unat (physical_region_count s) \<le> length (physical_regions s) \<and>
     (\<forall>i < unat (physical_region_count s). region_ok (physical_regions s ! i) \<longrightarrow>
        unat (end_page_of (physical_regions s ! i)) \<le> 1048576)"

text \<open>\<open>n\<close> free pages in a row from \<open>f\<close> on in the physical region \<open>i\<close>.\<close>

definition region_run :: "'a avmf_scheme \<Rightarrow> nat \<Rightarrow> nat \<Rightarrow> u64 \<Rightarrow> bool" where
  "region_run s i n f \<longleftrightarrow> region_ok (physical_regions s ! i) \<and>
     free_run s (unat (first_page_of (physical_regions s ! i))) (unat (end_page_of (physical_regions s ! i))) n f"

definition can_take :: "'a avmf_scheme \<Rightarrow> nat \<Rightarrow> nat \<Rightarrow> bool" where
  "can_take s i n \<longleftrightarrow> (\<exists>f. region_run s i n f)"

text \<open>The lowest such run of the region \<open>i\<close>, when none of the regions \<open>js\<close> before it has any.\<close>

definition first_region_run :: "'a avmf_scheme \<Rightarrow> nat set \<Rightarrow> nat \<Rightarrow> nat \<Rightarrow> u64 \<Rightarrow> bool" where
  "first_region_run s js i n f \<longleftrightarrow> region_run s i n f \<and>
     (\<forall>g. region_run s i n g \<longrightarrow> unat f \<le> unat g) \<and>
     (\<forall>j \<in> js. \<forall>g. \<not> region_run s j n g)"

lemma first_region_run_run: "first_region_run s js i n f \<Longrightarrow> region_run s i n f"
  by (simp add: first_region_run_def)

lemma first_region_run_insert:
  "\<not> can_take s j n \<Longrightarrow> first_region_run s (insert j js) i n f \<longleftrightarrow> first_region_run s js i n f"
  by (auto simp: first_region_run_def can_take_def)

lemma first_le_end: "region_ok r \<Longrightarrow> first_page_of r \<le> end_page_of r"
  by (auto simp: region_ok_def first_page_of_def end_page_of_def word_le_nat_alt unat_div_distrib div_le_mono)

lemma end_in_bitmap:
  "unat e \<le> 1048576 \<Longrightarrow> \<forall>q. unat q < unat e \<longrightarrow> in_bitmap q"
  by (simp add: in_bitmap_iff)

text \<open>
  What allocating \<open>n\<close> pages in the region with index \<open>i\<close> at page \<open>f\<close> does to the state:
  the pages become used, the region's counter grows, nothing else changes.
\<close>

definition took_pages :: "'a avmf_scheme \<Rightarrow> nat \<Rightarrow> nat \<Rightarrow> u64 \<Rightarrow> 'a avmf_scheme \<Rightarrow> bool" where
  "took_pages s i n f s' \<longleftrightarrow>
     (\<exists>bm. s' = add_allocated i (of_nat n * PAGE_SIZE) (s\<lparr> bitmap := bm \<rparr>)) \<and>
     (\<forall>q. page_used s' q \<longleftrightarrow> unat f \<le> unat q \<and> unat q < unat f + n \<or> page_used s q)"

lemma page_used_add_allocated [simp]: "page_used (add_allocated i n s) = page_used s"
  by (simp add: page_used_def add_allocated_def fun_eq_iff)

lemma page_used_sub_allocated [simp]: "page_used (sub_allocated i n s) = page_used s"
  by (simp add: page_used_def sub_allocated_def fun_eq_iff Let_def)

lemma run_words:
  fixes f n :: u64
  assumes "unat f + unat n \<le> 1048576"
  shows "f \<le> q \<and> q < f + n \<longleftrightarrow> unat f \<le> unat q \<and> unat q < unat f + unat n"
    "unat (f * PAGE_SIZE) = unat f * 4096"
  using assms by (simp_all add: word_le_nat_alt word_less_nat_alt unat_plus_u64 unat_word_ariths)

lemma set_run_used:
  assumes "unat f + unat n \<le> 1048576"
  shows "\<exists>bm. set_pages f (f + n) s = Some (s\<lparr> bitmap := bm \<rparr>) \<and>
    (\<forall>q. page_used (s\<lparr> bitmap := bm \<rparr>) q \<longleftrightarrow>
       unat f \<le> unat q \<and> unat q < unat f + unat n \<or> page_used s q)"
  using set_pages_used [of f "f + n" s] assms by (simp add: run_words in_bitmap_iff)

lemma clear_run_used:
  assumes "unat f + unat n \<le> 1048576"
  shows "\<exists>bm. clear_pages f (f + n) s = Some (s\<lparr> bitmap := bm \<rparr>) \<and>
    (\<forall>q. page_used (s\<lparr> bitmap := bm \<rparr>) q \<longleftrightarrow>
       \<not> (unat f \<le> unat q \<and> unat q < unat f + unat n) \<and> page_used s q)"
  using clear_pages_used [of f "f + n" s] assms by (simp add: run_words in_bitmap_iff)

lemma alloc_run_loop_spec:
  assumes n: "n \<noteq> 0"
  shows "(\<forall>i \<in> set is. i < length (physical_regions s) \<and>
      (region_ok (physical_regions s ! i) \<longrightarrow> unat (end_page_of (physical_regions s ! i)) \<le> 1048576)) \<Longrightarrow>
    if \<exists>i \<in> set is. can_take s i (unat n)
    then \<exists>js i ks f s'. is = js @ i # ks \<and> first_region_run s (set js) i (unat n) f \<and>
      alloc_run_loop is n s = Some (f * PAGE_SIZE, s') \<and> took_pages s i (unat n) f s'
    else alloc_run_loop is n s = Some (0, s)"
proof (induction "is")
  case (Cons i "is")
  let ?r = "physical_regions s ! i"
  have i: "\<not> length (physical_regions s) \<le> i" using Cons.prems by auto
  have IH: "if \<exists>i \<in> set is. can_take s i (unat n)
    then \<exists>js i ks f s'. is = js @ i # ks \<and> first_region_run s (set js) i (unat n) f \<and>
      alloc_run_loop is n s = Some (f * PAGE_SIZE, s') \<and> took_pages s i (unat n) f s'
    else alloc_run_loop is n s = Some (0, s)" using Cons.prems by (intro Cons.IH) simp
  have later: ?case if no: "\<not> can_take s i (unat n)" and eq: "alloc_run_loop (i # is) n s = alloc_run_loop is n s"
  proof (cases "\<exists>i \<in> set is. can_take s i (unat n)")
    case True
    with IH obtain js k ks f s' where "is = js @ k # ks" "first_region_run s (set js) k (unat n) f"
      "alloc_run_loop is n s = Some (f * PAGE_SIZE, s')" "took_pages s k (unat n) f s'" by auto
    then have "i # is = (i # js) @ k # ks \<and> first_region_run s (set (i # js)) k (unat n) f \<and>
      alloc_run_loop (i # is) n s = Some (f * PAGE_SIZE, s') \<and> took_pages s k (unat n) f s'"
      using no eq by (simp add: first_region_run_insert)
    moreover have "\<exists>i \<in> set (i # is). can_take s i (unat n)" using True by simp
    ultimately show ?thesis by (subst if_P) blast+
  next
    case False
    then show ?thesis using IH no eq by simp
  qed
  show ?case
  proof (cases "region_ok ?r")
    case False
    then have "\<not> can_take s i (unat n)" by (simp add: can_take_def region_run_def)
    then show ?thesis by (rule later) (use i False in \<open>simp add: Let_def\<close>)
  next
    case True
    then have e: "unat (end_page_of ?r) \<le> 1048576" using Cons.prems by simp
    have n0: "0 < unat n" using n by (simp add: unat_gt_0)
    have "\<exists>res. find_run (first_page_of ?r) (end_page_of ?r) 0 0 n s = Some res \<and>
        first_run s (unat (first_page_of ?r)) (unat (end_page_of ?r)) (unat n) res"
      by (rule find_run_first [OF end_in_bitmap [OF e]])
        (use first_le_end [OF True] n0 in \<open>auto simp: free_run_def\<close>)
    then obtain res where res:
      "find_run (first_page_of ?r) (end_page_of ?r) 0 0 n s = Some res"
      "first_run s (unat (first_page_of ?r)) (unat (end_page_of ?r)) (unat n) res" by blast
    show ?thesis
    proof (cases res)
      case None
      then have "\<not> can_take s i (unat n)" using res(2) by (simp add: first_run_def region_run_def can_take_def)
      then show ?thesis by (rule later) (use i True res(1) None in \<open>simp add: Let_def\<close>)
    next
      case (Some f)
      then have first: "first_region_run s (set []) i (unat n) f"
        using res(2) True by (simp add: first_run_def region_run_def first_region_run_def)
      note run = first_region_run_run [OF first]
      then have le: "unat f + unat n \<le> 1048576" using e by (auto simp: region_run_def free_run_def)
      from set_run_used [OF le, of s] obtain bm where bm:
        "set_pages f (f + n) s = Some (s\<lparr> bitmap := bm \<rparr>)"
        "\<forall>q. page_used (s\<lparr> bitmap := bm \<rparr>) q \<longleftrightarrow> unat f \<le> unat q \<and> unat q < unat f + unat n \<or> page_used s q"
        by blast
      let ?s' = "add_allocated i (n * PAGE_SIZE) (s\<lparr> bitmap := bm \<rparr>)"
      have "took_pages s i (unat n) f ?s'" using bm(2) by (auto simp: took_pages_def)
      moreover have "alloc_run_loop (i # is) n s = Some (f * PAGE_SIZE, ?s')"
        using i True res(1) Some bm(1) by (simp add: Let_def)
      moreover have "\<exists>i \<in> set (i # is). can_take s i (unat n)" using run by (auto simp: can_take_def)
      moreover have "i # is = [] @ i # is" by simp
      ultimately show ?thesis using first by (subst if_P) blast+
    qed
  qed
qed simp

lemma alloc_phys_page_loop_spec:
  "(\<forall>i \<in> set is. i < length (physical_regions s) \<and>
      (region_ok (physical_regions s ! i) \<longrightarrow> unat (end_page_of (physical_regions s ! i)) \<le> 1048576)) \<Longrightarrow>
    if \<exists>i \<in> set is. can_take s i 1
    then \<exists>i \<in> set is. \<exists>f s'. region_run s i 1 f \<and>
      alloc_phys_page_loop is s = Some (f * PAGE_SIZE, s') \<and> took_pages s i 1 f s'
    else alloc_phys_page_loop is s = Some (0, s)"
proof (induction "is")
  case (Cons i "is")
  let ?r = "physical_regions s ! i"
  have i: "\<not> length (physical_regions s) \<le> i" using Cons.prems by auto
  have IH: "if \<exists>i \<in> set is. can_take s i 1
    then \<exists>i \<in> set is. \<exists>f s'. region_run s i 1 f \<and>
      alloc_phys_page_loop is s = Some (f * PAGE_SIZE, s') \<and> took_pages s i 1 f s'
    else alloc_phys_page_loop is s = Some (0, s)" using Cons.prems by (intro Cons.IH) simp
  show ?case
  proof (cases "region_ok ?r")
    case False
    then have "\<not> can_take s i 1" by (simp add: can_take_def region_run_def)
    then show ?thesis using IH i False by (auto simp: Let_def simp del: One_nat_def split: if_splits)
  next
    case True
    then have e: "unat (end_page_of ?r) \<le> 1048576" using Cons.prems by simp
    have "\<exists>res. find_free_page (first_page_of ?r) (end_page_of ?r) s = Some res \<and>
        first_run s (unat (first_page_of ?r)) (unat (end_page_of ?r)) 1 res"
      by (rule find_free_page_first [OF end_in_bitmap [OF e]])
        (use first_le_end [OF True] in auto)
    then obtain res where res:
      "find_free_page (first_page_of ?r) (end_page_of ?r) s = Some res"
      "first_run s (unat (first_page_of ?r)) (unat (end_page_of ?r)) 1 res" by blast
    show ?thesis
    proof (cases res)
      case None
      then have "\<not> can_take s i 1" using res(2) by (simp add: first_run_def region_run_def can_take_def)
      then show ?thesis using IH i True res(1) None by (auto simp: Let_def simp del: One_nat_def split: if_splits)
    next
      case (Some f)
      then have run: "region_run s i 1 f" using res(2) True by (simp add: first_run_def region_run_def)
      then have "in_bitmap f" using e by (auto simp: region_run_def free_run_def in_bitmap_iff)
      from bitmap_set_used [OF this, of s] obtain bm where bm:
        "bitmap_set f s = Some (s\<lparr> bitmap := bm \<rparr>)"
        "\<forall>q. page_used (s\<lparr> bitmap := bm \<rparr>) q \<longleftrightarrow> q = f \<or> page_used s q" by blast
      let ?s' = "add_allocated i PAGE_SIZE (s\<lparr> bitmap := bm \<rparr>)"
      have "q = f \<longleftrightarrow> unat f \<le> unat q \<and> unat q < unat f + 1" for q by (auto intro: u64_eqI)
      then have "took_pages s i 1 f ?s'" using bm(2) by (auto simp: took_pages_def)
      moreover have "alloc_phys_page_loop (i # is) s = Some (f * PAGE_SIZE, ?s')"
        using i True res(1) Some bm(1) by (simp add: Let_def)
      moreover have "can_take s i 1" using run by (auto simp: can_take_def)
      ultimately show ?thesis using run by auto
    qed
  qed
qed simp

lemma phys_ok_indices:
  "phys_ok s \<Longrightarrow> \<forall>i \<in> set (region_indices s). i < length (physical_regions s) \<and>
      (region_ok (physical_regions s ! i) \<longrightarrow> unat (end_page_of (physical_regions s ! i)) \<le> 1048576)"
  by (auto simp: phys_ok_def region_indices_def)

text \<open>The pages a request of \<open>bytes\<close> bytes needs.\<close>

definition pages_of :: "u64 \<Rightarrow> nat" where
  "pages_of bytes = unat (align4k bytes) div 4096"

lemma pages_of_0: "align4k bytes \<noteq> 0 \<Longrightarrow> 0 < pages_of bytes"
proof -
  assume "align4k bytes \<noteq> 0"
  then have "0 < unat (align4k bytes)" by (simp add: unat_gt_0)
  then show ?thesis using align4k_dvd [of bytes] by (auto simp: pages_of_def elim!: dvdE)
qed

lemma align4k_0 [simp]: "align4k 0 = 0"
  by (simp add: align4k_def ALIGN_UP_def)

lemma unat_pages: "unat (align4k bytes div PAGE_SIZE) = pages_of bytes"
  by (simp add: pages_of_def unat_div_distrib)

lemma upt_split:
  assumes "[0..<n] = js @ k # ks"
  shows "set js = {..<k}" "k < n"
proof -
  have len: "length js < n" using arg_cong [OF assms, of length] by simp
  have "k = [0..<n] ! length js" using assms by simp
  then have k: "k = length js" using len by simp
  have "js = take (length js) [0..<n]" using assms by simp
  then have "js = [0..<length js]" using len by (simp add: take_upt)
  then show "set js = {..<k}" unfolding k by (metis atLeast_upt)
  show "k < n" using k len by simp
qed

lemma alloc_phys_contiguous_cases:
  assumes "phys_ok s" "align4k bytes \<noteq> 0"
  shows "if \<exists>i < unat (physical_region_count s). can_take s i (pages_of bytes)
    then \<exists>i < unat (physical_region_count s). \<exists>f s'. first_region_run s {..<i} i (pages_of bytes) f \<and>
      avmf_alloc_phys_contiguous bytes s = Some (f * PAGE_SIZE, s') \<and> took_pages s i (pages_of bytes) f s'
    else avmf_alloc_phys_contiguous bytes s = Some (0, s)"
proof -
  have n: "align4k bytes div PAGE_SIZE \<noteq> 0"
    using pages_of_0 [OF assms(2)] unat_pages [of bytes] by auto
  have "bytes \<noteq> 0" using assms(2) by auto
  then have e: "avmf_alloc_phys_contiguous bytes s = alloc_run_loop (region_indices s) (align4k bytes div PAGE_SIZE) s"
    using assms(2) by (simp add: avmf_alloc_phys_contiguous_def Let_def)
  have i: "i \<in> set (region_indices s) \<longleftrightarrow> i < unat (physical_region_count s)" for i
    by (simp add: region_indices_def)
  note loop = alloc_run_loop_spec [OF n phys_ok_indices [OF assms(1)], unfolded unat_pages, folded e]
  show ?thesis
  proof (cases "\<exists>i < unat (physical_region_count s). can_take s i (pages_of bytes)")
    case True
    then have "\<exists>i \<in> set (region_indices s). can_take s i (pages_of bytes)" using i by blast
    with loop obtain js k ks f s' where k: "region_indices s = js @ k # ks"
      "first_region_run s (set js) k (pages_of bytes) f"
      "avmf_alloc_phys_contiguous bytes s = Some (f * PAGE_SIZE, s')" "took_pages s k (pages_of bytes) f s'"
      by (auto split: if_splits)
    from k(1) have "[0..<unat (physical_region_count s)] = js @ k # ks" by (simp add: region_indices_def)
    note js = upt_split [OF this]
    then show ?thesis using True k(2-4) js by (subst if_P) auto
  next
    case False
    then have "\<not> (\<exists>i \<in> set (region_indices s). can_take s i (pages_of bytes))" using i by blast
    then show ?thesis using loop False by (simp only: if_False)
  qed
qed

lemma free_run_loop_used:
  assumes n: "0 < unat n" "unat f + unat n \<le> 1048576"
    and used: "\<forall>q. unat f \<le> unat q \<and> unat q < unat f + unat n \<longrightarrow> page_used s q"
  shows "(\<forall>i \<in> set is. i < length (physical_regions s)) \<Longrightarrow>
    \<exists>i \<in> set is. region_ok (physical_regions s ! i) \<and> first_page_of (physical_regions s ! i) \<le> f \<and>
      unat f + unat n \<le> unat (end_page_of (physical_regions s ! i)) \<Longrightarrow>
    \<exists>s'. free_run_loop is f n s = Some s' \<and>
      (\<forall>q. page_used s' q \<longleftrightarrow> \<not> (unat f \<le> unat q \<and> unat q < unat f + unat n) \<and> page_used s q)"
proof (induction "is")
  case (Cons i "is")
  let ?r = "physical_regions s ! i"
  let ?skip = "\<not> region_ok ?r \<or> f < first_page_of ?r \<or> end_page_of ?r \<le> f \<or> end_page_of ?r - f < n"
  have i: "\<not> length (physical_regions s) \<le> i" using Cons.prems by auto
  have fits: "\<not> ?skip \<longleftrightarrow> region_ok ?r \<and> first_page_of ?r \<le> f \<and> unat f + unat n \<le> unat (end_page_of ?r)"
    using n(1) by (auto simp: word_le_nat_alt word_less_nat_alt not_le not_less unat_minus_u64)
  show ?case
  proof (cases ?skip)
    case True
    then have "free_run_loop (i # is) f n s = free_run_loop is f n s"
      using i by (auto simp: Let_def)
    then show ?thesis using Cons.IH Cons.prems True fits by auto
  next
    case False
    have "all_used f (f + n) s = Some True"
      using all_used_iff [of f "f + n" s] used n(2) by (simp add: run_words in_bitmap_iff)
    moreover from clear_run_used [OF n(2), of s] obtain bm where bm:
      "clear_pages f (f + n) s = Some (s\<lparr> bitmap := bm \<rparr>)"
      "\<forall>q. page_used (s\<lparr> bitmap := bm \<rparr>) q \<longleftrightarrow>
         \<not> (unat f \<le> unat q \<and> unat q < unat f + unat n) \<and> page_used s q" by blast
    ultimately have "free_run_loop (i # is) f n s = Some (sub_allocated i (n * PAGE_SIZE) (s\<lparr> bitmap := bm \<rparr>))"
      using i False by (simp add: Let_def)
    then show ?thesis using bm(2) by simp
  qed
qed simp

lemma free_phys_contiguous_used:
  assumes ok: "unat (physical_region_count s) \<le> length (physical_regions s)"
    and sz: "align4k bytes \<noteq> 0" and i: "i < unat (physical_region_count s)"
      "region_ok (physical_regions s ! i)" "first_page_of (physical_regions s ! i) \<le> f"
      "unat f + pages_of bytes \<le> unat (end_page_of (physical_regions s ! i))"
    and le: "unat f + pages_of bytes \<le> 1048576"
    and used: "\<forall>q. unat f \<le> unat q \<and> unat q < unat f + pages_of bytes \<longrightarrow> page_used s q"
  shows "\<exists>s'. avmf_free_phys_contiguous (f * PAGE_SIZE) bytes s = Some s' \<and>
      (\<forall>q. page_used s' q \<longleftrightarrow> \<not> (unat f \<le> unat q \<and> unat q < unat f + pages_of bytes) \<and> page_used s q)"
proof -
  let ?n = "align4k bytes div PAGE_SIZE"
  have n: "unat ?n = pages_of bytes" by (rule unat_pages)
  have f: "unat (f * PAGE_SIZE) = unat f * 4096" using le by (simp add: unat_word_ariths)
  have "unat (ALIGN_DOWN (f * PAGE_SIZE) PAGE_SIZE div PAGE_SIZE) = unat f"
    using unat_ALIGN_DOWN [of PAGE_SIZE 12 "f * PAGE_SIZE"] f by (simp add: unat_div_distrib)
  then have "ALIGN_DOWN (f * PAGE_SIZE) PAGE_SIZE div PAGE_SIZE = f" by (rule u64_eqI)
  moreover have "bytes \<noteq> 0" using sz by auto
  ultimately have "avmf_free_phys_contiguous (f * PAGE_SIZE) bytes s = free_run_loop (region_indices s) f ?n s"
    using sz by (simp add: avmf_free_phys_contiguous_def Let_def)
  moreover have "\<exists>s'. free_run_loop (region_indices s) f ?n s = Some s' \<and>
      (\<forall>q. page_used s' q \<longleftrightarrow> \<not> (unat f \<le> unat q \<and> unat q < unat f + unat ?n) \<and> page_used s q)"
    using ok i le used pages_of_0 [OF sz]
    by (intro free_run_loop_used) (auto simp: n region_indices_def)
  ultimately show ?thesis unfolding n by simp
qed

lemma nth_update_keeps:
  assumes "g (h (xs ! i)) = g (xs ! i)"
  shows "g (xs[i := h (xs ! i)] ! j) = g (xs ! j)"
  using assms by (cases "i < length xs") (auto simp: nth_list_update list_update_beyond)

lemma took_pages_frame:
  "took_pages s i n f s' \<Longrightarrow> physical_region_count s' = physical_region_count s \<and>
    length (physical_regions s') = length (physical_regions s) \<and>
    (\<forall>j. region_ok (physical_regions s' ! j) = region_ok (physical_regions s ! j) \<and>
         first_page_of (physical_regions s' ! j) = first_page_of (physical_regions s ! j) \<and>
         end_page_of (physical_regions s' ! j) = end_page_of (physical_regions s ! j))"
  unfolding took_pages_def add_allocated_def
  by (clarsimp, intro allI conjI nth_update_keeps)
    (simp_all add: region_ok_def first_page_of_def end_page_of_def)

text \<open>C8: With the physical regions inside the bitmap, \<open>avmf_alloc_phys_contiguous\<close> of a size that rounds up to a number of pages looks for that number of free pages in a row inside one physical region. When there is such a run, it takes the lowest one of the first region that has any: it returns its address (which is 0 for a run that starts at page 0), marks exactly those pages and adds their bytes to the region's counter. When no region has such a run it returns 0 and changes nothing.\<close>

theorem avmf_alloc_phys_contiguous_spec:
  assumes "phys_ok s" "align4k bytes \<noteq> 0"
  shows "(\<exists>i < unat (physical_region_count s). \<exists>f s'. region_run s i (pages_of bytes) f \<and>
        (\<forall>g. region_run s i (pages_of bytes) g \<longrightarrow> unat f \<le> unat g) \<and>
        (\<forall>j < i. \<forall>g. \<not> region_run s j (pages_of bytes) g) \<and>
        avmf_alloc_phys_contiguous bytes s = Some (f * PAGE_SIZE, s') \<and>
        took_pages s i (pages_of bytes) f s') \<or>
      (\<forall>i < unat (physical_region_count s). \<forall>f. \<not> region_run s i (pages_of bytes) f) \<and>
        avmf_alloc_phys_contiguous bytes s = Some (0, s)"
proof (cases "\<exists>i < unat (physical_region_count s). can_take s i (pages_of bytes)")
  case True
  with alloc_phys_contiguous_cases [OF assms] obtain i f s' where
    "i < unat (physical_region_count s)" "first_region_run s {..<i} i (pages_of bytes) f"
    "avmf_alloc_phys_contiguous bytes s = Some (f * PAGE_SIZE, s')" "took_pages s i (pages_of bytes) f s'"
    by (auto split: if_splits)
  then show ?thesis unfolding first_region_run_def by blast
next
  case False
  then show ?thesis using alloc_phys_contiguous_cases [OF assms] by (simp add: can_take_def)
qed

text \<open>C9: Giving back what \<open>avmf_alloc_phys_contiguous\<close> returned, with the same size, makes the set of used pages what it was before the allocation.\<close>

theorem avmf_phys_alloc_free:
  assumes ok: "phys_ok s" and alloc: "avmf_alloc_phys_contiguous bytes s = Some (phys, s')" and nz: "phys \<noteq> 0"
  shows "\<exists>s''. avmf_free_phys_contiguous phys bytes s' = Some s'' \<and> page_used s'' = page_used s"
proof -
  have sz: "align4k bytes \<noteq> 0"
    using alloc nz by (auto simp: avmf_alloc_phys_contiguous_def Let_def split: if_splits)
  obtain i f where i: "i < unat (physical_region_count s)" "region_run s i (pages_of bytes) f"
    "phys = f * PAGE_SIZE" "took_pages s i (pages_of bytes) f s'"
    using alloc_phys_contiguous_cases [OF ok sz] alloc nz by (auto split: if_splits dest: first_region_run_run)
  note fr = took_pages_frame [OF i(4)]
  have run: "region_ok (physical_regions s ! i)" "unat (first_page_of (physical_regions s ! i)) \<le> unat f"
    "unat f + pages_of bytes \<le> unat (end_page_of (physical_regions s ! i))"
    "\<forall>q. unat f \<le> unat q \<and> unat q < unat f + pages_of bytes \<longrightarrow> \<not> page_used s q"
    using i(2) by (auto simp: region_run_def free_run_def)
  have le: "unat f + pages_of bytes \<le> 1048576" using run ok i(1) by (fastforce simp: phys_ok_def)
  have "\<exists>s''. avmf_free_phys_contiguous (f * PAGE_SIZE) bytes s' = Some s'' \<and>
      (\<forall>q. page_used s'' q \<longleftrightarrow> \<not> (unat f \<le> unat q \<and> unat q < unat f + pages_of bytes) \<and> page_used s' q)"
  proof (rule free_phys_contiguous_used [OF _ sz])
    show "\<forall>q. unat f \<le> unat q \<and> unat q < unat f + pages_of bytes \<longrightarrow> page_used s' q"
      using i(4) by (auto simp: took_pages_def)
  qed (use fr i(1) run le ok in \<open>simp_all add: phys_ok_def word_le_nat_alt\<close>)
  then obtain s'' where s'': "avmf_free_phys_contiguous phys bytes s' = Some s''"
    "\<forall>q. page_used s'' q \<longleftrightarrow> \<not> (unat f \<le> unat q \<and> unat q < unat f + pages_of bytes) \<and> page_used s' q"
    using i(3) by auto
  have "page_used s'' q = page_used s q" for q
    using s''(2) i(4) run(4) by (auto simp: took_pages_def)
  then show ?thesis using s''(1) by (auto simp: fun_eq_iff)
qed

subsection \<open>Instances on a small machine\<close>

definition empty_region :: avmf_region where
  "empty_region = \<lparr> signature = 0, version = 0, base = 0, limit = 0, allocated_bytes = 0,
     free_list = 0, free_count = 0, free_list_end = 0, alloc_list = 0, alloc_count = 0,
     alloc_list_end = 0, cache_list = 0, cache_count = 0, cache_list_end = 0 \<rparr>"

definition sample_phys :: avmf where
  "sample_phys = \<lparr> headers = Map.empty, ranges = Map.empty, regions = [], region_count = 0,
     physical_regions = [empty_region\<lparr> signature := AVMF_SIGNATURE, version := AVMF_VERSION,
       base := 0x10000, limit := 0x14000 \<rparr>], physical_region_count = 1,
     static_ranges = 0x200000, static_ranges_count = 0, ihdr_cpage = 0, ihdr_cpage_remaining = 0,
     irange_cpage = 0, irange_cpage_remaining = 0, bitmap = (\<lambda>_. 0) \<rparr>"

lemma sample_phys_ok: "phys_ok sample_phys"
  by (simp add: phys_ok_def sample_phys_def end_page_of_def)

lemma sample_phys_run: "region_run sample_phys 0 2 16"
  by (simp add: region_run_def sample_phys_def region_ok_def free_run_def first_page_of_def
    end_page_of_def page_used_def)

lemma sample_pages: "align4k 0x1800 = 0x2000" "pages_of 0x1800 = 2"
  by (simp_all add: pages_of_def align4k_def ALIGN_UP_def)

theorem avmf_alloc_phys_contiguous_spec_witness:
  "\<exists>phys s'. avmf_alloc_phys_contiguous 0x1800 sample_phys = Some (phys, s') \<and>
    (\<exists>f. phys = f * PAGE_SIZE \<and> page_used s' f)"
proof -
  have c: "unat (physical_region_count sample_phys) = 1" by (simp add: sample_phys_def)
  have "0 < unat (physical_region_count sample_phys)" unfolding c by simp
  moreover have "region_run sample_phys 0 (pages_of 0x1800) 16"
    unfolding sample_pages by (rule sample_phys_run)
  ultimately have not_none:
    "\<not> (\<forall>i < unat (physical_region_count sample_phys). \<forall>f. \<not> region_run sample_phys i (pages_of 0x1800) f)"
    by blast
  have "align4k 0x1800 \<noteq> 0" by (simp add: sample_pages)
  from avmf_alloc_phys_contiguous_spec [OF sample_phys_ok this] not_none obtain f s' where
    "avmf_alloc_phys_contiguous 0x1800 sample_phys = Some (f * PAGE_SIZE, s')"
    "took_pages sample_phys 0 2 f s' \<or> (\<exists>i. took_pages sample_phys i 2 f s')"
    unfolding sample_pages by blast
  then show ?thesis unfolding took_pages_def by auto
qed

theorem avmf_phys_alloc_free_witness:
  "\<exists>phys s' s''. avmf_alloc_phys_contiguous 0x1800 sample_phys = Some (phys, s') \<and>
    avmf_free_phys_contiguous phys 0x1800 s' = Some s'' \<and> page_used s'' = page_used sample_phys"
proof -
  have c: "unat (physical_region_count sample_phys) = 1" by (simp add: sample_phys_def)
  have sz: "align4k 0x1800 \<noteq> 0" by (simp add: sample_pages)
  have "can_take sample_phys 0 2" using sample_phys_run by (auto simp: can_take_def)
  with alloc_phys_contiguous_cases [OF sample_phys_ok sz] obtain i f s' where
    a: "avmf_alloc_phys_contiguous 0x1800 sample_phys = Some (f * PAGE_SIZE, s')"
      "i < 1" "region_run sample_phys i 2 f"
    unfolding sample_pages c by (auto split: if_splits dest: first_region_run_run)
  have "16 \<le> unat f" "unat f \<le> 18" using a(2,3)
    by (simp_all add: region_run_def free_run_def sample_phys_def first_page_of_def end_page_of_def)
  then have "unat (f * PAGE_SIZE) \<noteq> 0" by (simp add: unat_word_ariths)
  then have "f * PAGE_SIZE \<noteq> 0" by auto
  from avmf_phys_alloc_free [OF sample_phys_ok a(1) this] a(1) show ?thesis by auto
qed

end
