(* ===== verification/AvmfRange.thy ===== *)
theory AvmfRange
  imports AvmfTypes
begin

text \<open>
  The list of free address ranges of a region, \<open>avmf_free_list_append\<close> of
  \<^verbatim>\<open>Kernel/mm/avmf.c\<close>: a singly linked list sorted by address into which a range is
  merged with its neighbours.

  The abstract side: \<open>range_path\<close> is the list of addresses the links go through,
  \<open>free_list_ok\<close> the invariant (sorted, disjoint, no two ranges touch, count and end pointer
  agree) and \<open>free_bytes\<close> the set of the free addresses.
\<close>

subsection \<open>Appending a range\<close>

text \<open>
  The scan for the place of a range from \<open>lo\<close> to \<open>hi\<close>. \<open>Inl\<close> is the return of
  \<open>AOS_FALSE\<close>; \<open>Inr\<close> gives \<open>prev\<close> and \<open>cur\<close> after the loop, which runs at most
  \<open>free_count\<close> times.
\<close>

fun free_list_scan ::
  "nat \<Rightarrow> u64 \<Rightarrow> u64 \<Rightarrow> u64 \<Rightarrow> u64 \<Rightarrow> range_store \<Rightarrow> (unit + u64 \<times> u64) option" where
  "free_list_scan 0 prev cur lo hi R = Some (Inr (prev, cur))"
| "free_list_scan (Suc k) prev cur lo hi R =
     (if cur = NULL then Some (Inl ())
      else do {
        c \<leftarrow> R cur;
        if UINT64_MAX - r_size c < r_base c then Some (Inl ())
        else let cur_end = r_base c + r_size c in
          if lo < cur_end \<and> r_base c < hi then Some (Inl ())
          else if lo < r_base c then Some (Inr (prev, cur))
          else free_list_scan k cur (r_next c) lo hi R })"

text \<open>\<open>if (prev) prev->next = range; else r->free_list = range;\<close>\<close>

definition link_front ::
  "u64 \<Rightarrow> u64 \<Rightarrow> avmf_region \<Rightarrow> range_store \<Rightarrow> (avmf_region \<times> range_store) option" where
  "link_front prev rng r R =
     (if prev \<noteq> NULL then do { p \<leftarrow> R prev; Some (r, R(prev \<mapsto> p\<lparr> r_next := rng \<rparr>)) }
      else Some (r\<lparr> free_list := rng \<rparr>, R))"

text \<open>The part after the scan: merge with \<open>prev\<close>, with \<open>cur\<close>, with both, or insert.\<close>

definition free_list_insert ::
  "u64 \<Rightarrow> u64 \<Rightarrow> u64 \<Rightarrow> avmf_region \<Rightarrow> range_store \<Rightarrow> (avmf_region \<times> range_store) option" where
  "free_list_insert prev cur rng r R =
     do {
       rd \<leftarrow> R rng;
       let range_end = r_base rd + r_size rd;
       merge_prev \<leftarrow> (if prev \<noteq> NULL
         then do { p \<leftarrow> R prev; Some (r_base p + r_size p = r_base rd) } else Some False);
       merge_next \<leftarrow> (if cur \<noteq> NULL
         then do { c \<leftarrow> R cur; Some (range_end = r_base c) } else Some False);
       if merge_prev then do {
         p \<leftarrow> R prev;
         let p1 = p\<lparr> r_size := r_size p + r_size rd \<rparr>;
         if merge_next then do {
           c \<leftarrow> R cur;
           let p2 = p1\<lparr> r_size := r_size p1 + r_size c, r_next := r_next c \<rparr>;
           Some (r\<lparr> free_list_end := (if free_list_end r = cur then prev else free_list_end r),
                    free_count := free_count r - 1 \<rparr>, R(prev \<mapsto> p2)) }
         else Some (r, R(prev \<mapsto> p1)) }
       else if merge_next then do {
         c \<leftarrow> R cur;
         let R1 = R(rng \<mapsto> rd\<lparr> r_size := r_size rd + r_size c, r_next := r_next c \<rparr>);
         (r1, R2) \<leftarrow> link_front prev rng r R1;
         Some (r1\<lparr> free_list_end := (if free_list_end r1 = cur then rng else free_list_end r1),
                   free_count := free_count r1 - 1 \<rparr>, R2) }
       else do {
         let R1 = R(rng \<mapsto> rd\<lparr> r_next := cur \<rparr>);
         (r1, R2) \<leftarrow> link_front prev rng r R1;
         Some (r1\<lparr> free_list_end := (if cur = NULL then rng else free_list_end r1),
                   free_count := free_count r1 + 1 \<rparr>, R2) } }"

definition avmf_free_list_append ::
  "avmf_region \<Rightarrow> u64 \<Rightarrow> range_store \<Rightarrow> (bool \<times> avmf_region \<times> range_store) option" where
  "avmf_free_list_append r rng R =
     (if rng = NULL then Some (False, r, R)
      else do {
        rd \<leftarrow> R rng;
        if r_size rd = 0 \<or> \<not> region_ok r \<or> UINT64_MAX - r_size rd < r_base rd then Some (False, r, R)
        else let range_end = r_base rd + r_size rd in
          if free_list r = NULL \<or> free_count r = 0 then
            Some (True, r\<lparr> free_list := rng, free_list_end := rng, free_count := 1 \<rparr>,
                  R(rng \<mapsto> rd\<lparr> r_next := NULL \<rparr>))
          else do {
            pos \<leftarrow> free_list_scan (unat (free_count r)) NULL (free_list r) (r_base rd) range_end R;
            case pos of Inl _ \<Rightarrow> Some (False, r, R)
            | Inr (prev, cur) \<Rightarrow> do {
                (r', R') \<leftarrow> free_list_insert prev cur rng r R;
                Some (True, r', R') } } })"

subsection \<open>The list as a value\<close>

text \<open>\<open>range_seg R p xs q\<close>: from \<open>p\<close> the links go through the nodes \<open>xs\<close> and end at \<open>q\<close>.\<close>

record range_node =
  n_addr :: u64
  n_lo :: nat
  n_hi :: nat

definition node_at :: "range_store \<Rightarrow> range_node \<Rightarrow> u64 \<Rightarrow> bool" where
  "node_at R x q \<longleftrightarrow> n_addr x \<noteq> NULL \<and> n_lo x < n_hi x \<and> n_hi x \<le> 18446744073709551615 \<and>
     R (n_addr x) = Some \<lparr> r_base = of_nat (n_lo x), r_size = of_nat (n_hi x - n_lo x), r_next = q \<rparr>"

fun range_seg :: "range_store \<Rightarrow> u64 \<Rightarrow> range_node list \<Rightarrow> u64 \<Rightarrow> bool" where
  "range_seg R p [] q \<longleftrightarrow> p = q"
| "range_seg R p (x # xs) q \<longleftrightarrow> p = n_addr x \<and> (\<exists>n. node_at R x n \<and> range_seg R n xs q)"

definition free_bytes :: "range_node list \<Rightarrow> nat set" where
  "free_bytes xs = (\<Union>x \<in> set xs. {n_lo x..<n_hi x})"

definition free_list_shape :: "avmf_region \<Rightarrow> range_store \<Rightarrow> range_node list \<Rightarrow> bool" where
  "free_list_shape r R xs \<longleftrightarrow>
     range_seg R (free_list r) xs NULL \<and> distinct (map n_addr xs) \<and>
     sorted_wrt (\<lambda>x y. n_hi x < n_lo y) xs \<and> (xs \<noteq> [] \<longrightarrow> free_list_end r = n_addr (last xs))"

definition free_list_ok :: "avmf_region \<Rightarrow> range_store \<Rightarrow> range_node list \<Rightarrow> bool" where
  "free_list_ok r R xs \<longleftrightarrow> free_list_shape r R xs \<and> unat (free_count r) = length xs"

lemma range_seg_append:
  "range_seg R p (xs @ ys) q \<longleftrightarrow> (\<exists>m. range_seg R p xs m \<and> range_seg R m ys q)"
  by (induction xs arbitrary: p) auto

lemma range_seg_upd: "a \<notin> n_addr ` set xs \<Longrightarrow> range_seg (R(a \<mapsto> d)) p xs q = range_seg R p xs q"
  by (induction xs arbitrary: p) (auto simp: node_at_def)

lemma range_seg_NULL: "range_seg R NULL xs q \<Longrightarrow> xs = []"
  by (cases xs) (auto simp: node_at_def)

lemma node_atD:
  assumes "node_at R x q"
  obtains d where "R (n_addr x) = Some d" "unat (r_base d) = n_lo x" "unat (r_size d) = n_hi x - n_lo x"
    "r_next d = q" "n_addr x \<noteq> NULL" "n_lo x < n_hi x" "n_hi x \<le> 18446744073709551615"
    "r_base d + r_size d = of_nat (n_hi x)" "unat (r_base d + r_size d) = n_hi x"
    "\<not> UINT64_MAX - r_size d < r_base d"
proof -
  have lt: "n_lo x < n_hi x" "n_hi x \<le> 18446744073709551615" using assms by (auto simp: node_at_def)
  have b: "unat (of_nat (n_lo x) :: u64) = n_lo x" "unat (of_nat (n_hi x - n_lo x) :: u64) = n_hi x - n_lo x"
    using lt by (intro unat_of_nat_u64; simp)+
  then have u: "unat (of_nat (n_lo x) + of_nat (n_hi x - n_lo x) :: u64) = n_hi x"
    using lt by (subst unat_plus_u64) (simp_all del: of_nat_diff)
  show thesis
  proof (rule that)
    show "R (n_addr x) = Some \<lparr> r_base = of_nat (n_lo x), r_size = of_nat (n_hi x - n_lo x), r_next = q \<rparr>"
      using assms by (simp add: node_at_def)
    have "\<not> UINT64_MAX - of_nat (n_hi x - n_lo x) < (of_nat (n_lo x) :: u64)"
      using lt b by (simp add: word_less_nat_alt unat_sub word_le_nat_alt del: of_nat_diff)
    then show "\<not> UINT64_MAX - r_size \<lparr> r_base = of_nat (n_lo x), r_size = of_nat (n_hi x - n_lo x), r_next = q \<rparr> <
        r_base \<lparr> r_base = of_nat (n_lo x), r_size = of_nat (n_hi x - n_lo x), r_next = q \<rparr>" by simp
  qed (use assms lt b u in \<open>auto simp: node_at_def\<close>)
qed

lemma node_at_size: "node_at R x q \<Longrightarrow> n_lo x < n_hi x \<and> n_addr x \<noteq> NULL \<and> R (n_addr x) \<noteq> None"
  by (auto simp: node_at_def)

lemma range_seg_nodes: "range_seg R p xs q \<Longrightarrow> x \<in> set xs \<Longrightarrow> \<exists>n. node_at R x n"
  by (induction xs arbitrary: p) auto

definition overlaps :: "nat \<Rightarrow> nat \<Rightarrow> range_node \<Rightarrow> bool" where
  "overlaps a b x \<longleftrightarrow> a < n_hi x \<and> n_lo x < b"

lemma free_list_scan_split:
  assumes ab: "unat a < unat b"
  shows "range_seg R p xs NULL \<Longrightarrow> sorted_wrt (\<lambda>x y. n_hi x < n_lo y) xs \<Longrightarrow>
    (\<exists>x \<in> set xs. overlaps (unat a) (unat b) x) \<and> free_list_scan (length xs) prev p a b R = Some (Inl ()) \<or>
    (\<exists>ys zs. xs = ys @ zs \<and> (\<forall>y \<in> set ys. n_hi y \<le> unat a) \<and> (\<forall>z \<in> set zs. unat b \<le> n_lo z) \<and>
      free_list_scan (length xs) prev p a b R =
      Some (Inr (if ys = [] then prev else n_addr (last ys), if zs = [] then NULL else n_addr (hd zs))))"
proof (induction xs arbitrary: p prev)
  case (Cons x xs)
  then obtain n where n: "p = n_addr x" "node_at R x n" "range_seg R n xs NULL" by auto
  from node_atD [OF n(2)] obtain d where d: "R (n_addr x) = Some d" "unat (r_base d) = n_lo x"
    "r_next d = n" "n_addr x \<noteq> NULL" "n_lo x < n_hi x" "unat (r_base d + r_size d) = n_hi x"
    "\<not> UINT64_MAX - r_size d < r_base d" .
  have step: "free_list_scan (length (x # xs)) prev p a b R =
      (if overlaps (unat a) (unat b) x then Some (Inl ())
       else if unat a < n_lo x then Some (Inr (prev, p)) else free_list_scan (length xs) (n_addr x) n a b R)"
    using n d by (simp add: overlaps_def word_less_nat_alt [of a] word_less_nat_alt [of _ b] Let_def)
  consider "overlaps (unat a) (unat b) x" | "\<not> overlaps (unat a) (unat b) x" "unat a < n_lo x"
    | "\<not> overlaps (unat a) (unat b) x" "n_lo x \<le> unat a" by linarith
  then show ?case
  proof cases
    case 1
    then show ?thesis using step by auto
  next
    case 2
    then have "unat b \<le> n_lo x" using d(5) by (auto simp: overlaps_def)
    moreover have "\<forall>z \<in> set xs. n_lo x \<le> n_lo z" using Cons.prems(2) d(5) by fastforce
    ultimately have "\<forall>z \<in> set (x # xs). unat b \<le> n_lo z" by fastforce
    then show ?thesis using 2 step n(1)
      by (intro disjI2 exI [of _ "[]"] exI [of _ "x # xs"]) simp
  next
    case 3
    then have n_hi: "n_hi x \<le> unat a" using ab by (auto simp: overlaps_def)
    have s: "sorted_wrt (\<lambda>x y. n_hi x < n_lo y) xs" using Cons.prems(2) by simp
    have st: "free_list_scan (length (x # xs)) prev p a b R = free_list_scan (length xs) (n_addr x) n a b R"
      using 3 step by simp
    from Cons.IH [OF n(3) s, of "n_addr x"] show ?thesis
    proof (elim disjE conjE exE)
      assume "\<exists>x \<in> set xs. overlaps (unat a) (unat b) x" "free_list_scan (length xs) (n_addr x) n a b R = Some (Inl ())"
      then show ?thesis using st by auto
    next
      fix ys zs
      assume "xs = ys @ zs" "\<forall>y \<in> set ys. n_hi y \<le> unat a" "\<forall>z \<in> set zs. unat b \<le> n_lo z"
        "free_list_scan (length xs) (n_addr x) n a b R =
          Some (Inr (if ys = [] then n_addr x else n_addr (last ys), if zs = [] then NULL else n_addr (hd zs)))"
      then show ?thesis using st n_hi
        by (intro disjI2 exI [of _ "x # ys"] exI [of _ zs]) auto
    qed
  qed
qed simp

subsection \<open>Merging and inserting\<close>

lemma node_atI:
  assumes "n_addr x \<noteq> NULL" "n_lo x < n_hi x" "n_hi x \<le> 18446744073709551615" "R (n_addr x) = Some d"
    "unat (r_base d) = n_lo x" "unat (r_size d) = n_hi x - n_lo x" "r_next d = q"
  shows "node_at R x q"
proof -
  have "d = \<lparr> r_base = of_nat (unat (r_base d)), r_size = of_nat (unat (r_size d)), r_next = r_next d \<rparr>"
    by simp
  then have "d = \<lparr> r_base = of_nat (n_lo x), r_size = of_nat (n_hi x - n_lo x), r_next = q \<rparr>"
    unfolding assms(5-7) .
  then show ?thesis using assms by (simp add: node_at_def)
qed

lemma distinct_u64_length:
  assumes "distinct as" "(0 :: u64) \<notin> set as"
  shows "length as \<le> 18446744073709551615"
proof -
  have "card (insert 0 (set as)) \<le> card (UNIV :: u64 set)" by (intro card_mono) simp_all
  also have "\<dots> = 18446744073709551616" by (simp add: card_word)
  finally show ?thesis using assms by (simp add: distinct_card)
qed

text \<open>The effect of an update on the list \<open>us @ u # vs\<close> at the node \<open>u\<close>.\<close>

lemma range_seg_middle:
  "range_seg R p (us @ u # vs) q \<longleftrightarrow>
   (\<exists>n. range_seg R p us (n_addr u) \<and> node_at R u n \<and> range_seg R n vs q)"
  by (auto simp: range_seg_append)

lemma range_seg_change:
  assumes "range_seg R p (us @ u # vs) q" "n_addr u \<notin> n_addr ` set us" "n_addr u' = n_addr u"
    "node_at (R(n_addr u \<mapsto> d)) u' n'" "range_seg (R(n_addr u \<mapsto> d)) n' vs' q'"
  shows "range_seg (R(n_addr u \<mapsto> d)) p (us @ u' # vs') q'"
  using assms by (auto simp: range_seg_middle range_seg_upd)

definition region_frame :: "avmf_region \<Rightarrow> avmf_region \<Rightarrow> bool" where
  "region_frame r r' \<longleftrightarrow>
     (\<exists>f c e. r' = r\<lparr> free_list := f, free_count := c, free_list_end := e \<rparr>)"

lemma region_frame_refl [simp]: "region_frame r r"
  unfolding region_frame_def by (intro exI [of _ "free_list r"] exI [of _ "free_count r"] exI [of _ "free_list_end r"]) simp

lemma insert_merge_prev:
  assumes ok: "free_list_ok r R (us @ u # zs)" and rd: "R rng = Some rd" "0 < unat (r_size rd)"
    and touch: "n_hi u = unat (r_base rd)" and right: "\<forall>z \<in> set zs. unat (r_base rd) + unat (r_size rd) < n_lo z"
    and fits: "unat (r_base rd) + unat (r_size rd) \<le> 18446744073709551615"
    and cur: "cur = (if zs = [] then NULL else n_addr (hd zs))"
  shows "\<exists>r' R'. free_list_insert (n_addr u) cur rng r R = Some (r', R') \<and>
    free_list_ok r' R' (us @ u\<lparr> n_hi := unat (r_base rd) + unat (r_size rd) \<rparr> # zs) \<and> region_frame r r' \<and>
    (\<forall>a. a \<noteq> n_addr u \<longrightarrow> R' a = R a)"
proof -
  obtain m where seg: "range_seg R (free_list r) us (n_addr u)" "node_at R u m" "range_seg R m zs NULL"
    using ok by (auto simp: free_list_ok_def free_list_shape_def range_seg_middle)
  have dist: "distinct (map n_addr (us @ u # zs))" "sorted_wrt (\<lambda>x y. n_hi x < n_lo y) (us @ u # zs)"
    "unat (free_count r) = length (us @ u # zs)" "free_list_end r = n_addr (last (us @ u # zs))"
    using ok by (simp_all add: free_list_ok_def free_list_shape_def)
  obtain d where d: "R (n_addr u) = Some d" "unat (r_base d) = n_lo u" "unat (r_size d) = n_hi u - n_lo u"
    "r_next d = m" "n_addr u \<noteq> NULL" "n_lo u < n_hi u" "unat (r_base d + r_size d) = n_hi u"
    using node_atD [OF seg(2)] by metis
  have mp: "r_base d + r_size d = r_base rd" using d(7) touch by (intro u64_eqI) simp
  have re: "unat (r_base rd + r_size rd) = unat (r_base rd) + unat (r_size rd)"
    using fits by (simp add: unat_plus_u64)
  have mn: "cur \<noteq> NULL \<Longrightarrow> \<exists>c. R cur = Some c \<and> r_base rd + r_size rd \<noteq> r_base c"
  proof -
    assume "cur \<noteq> NULL"
    then obtain z zs' where z: "zs = z # zs'" using cur by (cases zs) auto
    then obtain k where "node_at R z k" using seg(3) by auto
    then obtain c where "R (n_addr z) = Some c" "unat (r_base c) = n_lo z" by (metis node_atD)
    then show ?thesis using z cur right re by auto
  qed
  let ?d = "d\<lparr> r_size := r_size d + r_size rd \<rparr>"
  let ?u = "u\<lparr> n_hi := unat (r_base rd) + unat (r_size rd) \<rparr>"
  have ins: "free_list_insert (n_addr u) cur rng r R = Some (r, R(n_addr u \<mapsto> ?d))"
    using d mp mn rd by (cases "cur = NULL") (auto simp: free_list_insert_def)
  have sz: "unat (r_size d + r_size rd) = n_hi ?u - n_lo u"
    using d touch fits by (simp add: unat_plus_u64)
  have nd: "node_at (R(n_addr u \<mapsto> ?d)) ?u m"
    by (rule node_atI [where d = ?d]) (use d sz fits touch in auto)
  have "range_seg (R(n_addr u \<mapsto> ?d)) m zs NULL"
    using seg(3) dist(1) by (subst range_seg_upd) auto
  then have "range_seg (R(n_addr u \<mapsto> ?d)) (free_list r) (us @ ?u # zs) NULL"
    using seg(1) nd dist(1) by (auto simp: range_seg_middle range_seg_upd)
  then have "free_list_ok r (R(n_addr u \<mapsto> ?d)) (us @ ?u # zs)"
    using dist right by (auto simp: free_list_ok_def free_list_shape_def sorted_wrt_append)
  then show ?thesis using ins by auto
qed


lemma free_list_tail:
  assumes "free_list_ok r R (us @ u # v # vs)"
  shows "(if free_list_end r = n_addr v then n_addr u else free_list_end r) = n_addr (last (u # vs))"
    "unat (free_count r - 1) = length (us @ u # vs)"
proof -
  have dist: "distinct (map n_addr (us @ u # v # vs))" "unat (free_count r) = length (us @ u # v # vs)"
    "free_list_end r = n_addr (last (us @ u # v # vs))"
    using assms by (simp_all add: free_list_ok_def free_list_shape_def)
  show "(if free_list_end r = n_addr v then n_addr u else free_list_end r) = n_addr (last (u # vs))"
  proof (cases vs rule: rev_cases)
    case Nil
    then show ?thesis using dist(3) by simp
  next
    case (snoc ws w)
    then show ?thesis using dist(1,3) by auto
  qed
  have "free_count r \<noteq> 0" using dist(2) by auto
  then show "unat (free_count r - 1) = length (us @ u # vs)"
    using dist(2) by (simp add: unat_minus_one)
qed

lemma insert_merge_both:
  assumes ok: "free_list_ok r R (us @ u # v # vs)" and rd: "R rng = Some rd" "0 < unat (r_size rd)"
    and touch: "n_hi u = unat (r_base rd)" "unat (r_base rd) + unat (r_size rd) = n_lo v"
  shows "\<exists>r' R'. free_list_insert (n_addr u) (n_addr v) rng r R = Some (r', R') \<and>
    free_list_ok r' R' (us @ u\<lparr> n_hi := n_hi v \<rparr> # vs) \<and> region_frame r r' \<and>
    (\<forall>a. a \<noteq> n_addr u \<longrightarrow> R' a = R a)"
proof -
  obtain m where seg: "range_seg R (free_list r) us (n_addr u)" "node_at R u (n_addr v)"
    "node_at R v m" "range_seg R m vs NULL"
    using ok by (auto simp: free_list_ok_def free_list_shape_def range_seg_middle)
  have dist: "distinct (map n_addr (us @ u # v # vs))" "sorted_wrt (\<lambda>x y. n_hi x < n_lo y) (us @ u # v # vs)"
    using ok by (simp_all add: free_list_ok_def free_list_shape_def)
  obtain d where d: "R (n_addr u) = Some d" "unat (r_base d) = n_lo u" "unat (r_size d) = n_hi u - n_lo u"
    "r_next d = n_addr v" "n_addr u \<noteq> NULL" "n_lo u < n_hi u" "unat (r_base d + r_size d) = n_hi u"
    using node_atD [OF seg(2)] by metis
  obtain c where c: "R (n_addr v) = Some c" "unat (r_base c) = n_lo v" "unat (r_size c) = n_hi v - n_lo v"
    "r_next c = m" "n_addr v \<noteq> NULL" "n_lo v < n_hi v" "n_hi v \<le> 18446744073709551615"
    using node_atD [OF seg(3)] by metis
  have mp: "r_base d + r_size d = r_base rd" using d(7) touch by (intro u64_eqI) simp
  have "unat (r_base rd + r_size rd) = unat (r_base rd) + unat (r_size rd)"
    using touch c by (simp add: unat_plus_u64)
  then have mn: "r_base rd + r_size rd = r_base c" using touch c by (intro u64_eqI) simp
  let ?d = "d\<lparr> r_size := r_size d + r_size rd + r_size c, r_next := r_next c \<rparr>"
  let ?u = "u\<lparr> n_hi := n_hi v \<rparr>"
  let ?r = "r\<lparr> free_list_end := (if free_list_end r = n_addr v then n_addr u else free_list_end r),
               free_count := free_count r - 1 \<rparr>"
  have ins: "free_list_insert (n_addr u) (n_addr v) rng r R = Some (?r, R(n_addr u \<mapsto> ?d))"
    using d c mp mn rd by (simp add: free_list_insert_def)
  have s1: "unat (r_size d + r_size rd) = unat (r_size d) + unat (r_size rd)"
    using d c touch by (subst unat_plus_u64) simp_all
  have sz: "unat (r_size d + r_size rd + r_size c) = n_hi v - n_lo u"
    using d c touch s1 by (subst unat_plus_u64) simp_all
  have nd: "node_at (R(n_addr u \<mapsto> ?d)) ?u m"
    by (rule node_atI [where d = ?d]) (use d c sz touch in auto)
  have "range_seg (R(n_addr u \<mapsto> ?d)) m vs NULL"
    using seg(4) dist(1) by (subst range_seg_upd) auto
  then have "range_seg (R(n_addr u \<mapsto> ?d)) (free_list r) (us @ ?u # vs) NULL"
    using seg(1) nd dist(1) by (auto simp: range_seg_middle range_seg_upd)
  moreover have "sorted_wrt (\<lambda>x y. n_hi x < n_lo y) (us @ ?u # vs)"
    using dist(2) by (auto simp: sorted_wrt_append)
  moreover have "free_list_end ?r = n_addr (last (us @ ?u # vs))" "unat (free_count ?r) = length (us @ ?u # vs)"
    using free_list_tail [OF ok] by auto
  ultimately have "free_list_ok ?r (R(n_addr u \<mapsto> ?d)) (us @ ?u # vs)"
    using dist(1) by (auto simp: free_list_ok_def free_list_shape_def)
  moreover have "region_frame r ?r"
    unfolding region_frame_def
    by (intro exI [of _ "free_list r"] exI [of _ "free_count r - 1"]
        exI [of _ "if free_list_end r = n_addr v then n_addr u else free_list_end r"]) simp
  ultimately show ?thesis using ins by auto
qed

lemma link_front_seg:
  assumes us: "range_seg R (free_list r) us cur" "distinct (map n_addr us)"
    and x: "node_at R x q" "n_addr x \<notin> n_addr ` set us"
    and vs: "range_seg R q vs NULL" "n_addr ` set us \<inter> n_addr ` set vs = {}"
  shows "\<exists>r' R'. link_front (if us = [] then NULL else n_addr (last us)) (n_addr x) r R = Some (r', R') \<and>
    range_seg R' (free_list r') (us @ x # vs) NULL \<and>
    r' = r\<lparr> free_list := free_list r' \<rparr> \<and> (\<forall>a. a \<notin> n_addr ` set us \<longrightarrow> R' a = R a)"
proof (cases us rule: rev_cases)
  case Nil
  then show ?thesis using x vs by (auto simp: link_front_def)
next
  case (snoc ws w)
  then have w: "range_seg R (free_list r) ws (n_addr w)" "node_at R w cur"
    using us(1) by (auto simp: range_seg_middle [of R _ ws w "[]"])
  obtain d where d: "R (n_addr w) = Some d" "n_addr w \<noteq> NULL" using w(2) by (metis node_atD)
  let ?d = "d\<lparr> r_next := n_addr x \<rparr>"
  have "node_at (R(n_addr w \<mapsto> ?d)) w (n_addr x)"
    using w(2) d(1) by (auto simp: node_at_def)
  moreover have "node_at (R(n_addr w \<mapsto> ?d)) x q" "range_seg (R(n_addr w \<mapsto> ?d)) q vs NULL"
    "range_seg (R(n_addr w \<mapsto> ?d)) (free_list r) ws (n_addr w)"
    using x vs w us(2) snoc by (auto simp: node_at_def range_seg_upd)
  ultimately have "range_seg (R(n_addr w \<mapsto> ?d)) (free_list r) (us @ x # vs) NULL"
    using snoc by (auto simp: range_seg_append)
  then show ?thesis using snoc d by (auto simp: link_front_def)
qed


lemma not_merge_prev:
  assumes us: "range_seg R p us cur" "\<forall>y \<in> set us. n_hi y < unat (b :: u64)"
  shows "(if us = [] then NULL else n_addr (last us)) \<noteq> NULL \<Longrightarrow>
    \<exists>d. R (n_addr (last us)) = Some d \<and> r_base d + r_size d \<noteq> b \<and> us \<noteq> []"
proof -
  assume "(if us = [] then NULL else n_addr (last us)) \<noteq> NULL"
  then have ne: "us \<noteq> []" by auto
  then obtain n where "node_at R (last us) n" using range_seg_nodes [OF us(1), of "last us"] by auto
  then obtain d where "R (n_addr (last us)) = Some d" "unat (r_base d + r_size d) = n_hi (last us)"
    by (metis node_atD)
  then show ?thesis using us(2) ne by auto
qed

definition touches_prev :: "range_store \<Rightarrow> u64 \<Rightarrow> u64 \<Rightarrow> bool option" where
  "touches_prev R prev b =
     (if prev \<noteq> NULL then do { p \<leftarrow> R prev; Some (r_base p + r_size p = b) } else Some False)"

lemma free_list_insert_next:
  "R rng = Some rd \<Longrightarrow> touches_prev R prev (r_base rd) = Some False \<Longrightarrow>
   cur \<noteq> NULL \<Longrightarrow> R cur = Some c \<Longrightarrow> r_base rd + r_size rd = r_base c \<Longrightarrow>
   link_front prev rng r (R(rng \<mapsto> rd\<lparr> r_size := r_size rd + r_size c, r_next := r_next c \<rparr>)) = Some (r1, R2) \<Longrightarrow>
   free_list_insert prev cur rng r R =
     Some (r1\<lparr> free_list_end := (if free_list_end r1 = cur then rng else free_list_end r1),
               free_count := free_count r1 - 1 \<rparr>, R2)"
  unfolding touches_prev_def free_list_insert_def by (simp add: Let_def split del: if_split)

lemma free_list_insert_plain:
  "R rng = Some rd \<Longrightarrow> touches_prev R prev (r_base rd) = Some False \<Longrightarrow>
   (if cur \<noteq> NULL then do { c \<leftarrow> R cur; Some (r_base rd + r_size rd = r_base c) } else Some False) = Some False \<Longrightarrow>
   link_front prev rng r (R(rng \<mapsto> rd\<lparr> r_next := cur \<rparr>)) = Some (r1, R2) \<Longrightarrow>
   free_list_insert prev cur rng r R =
     Some (r1\<lparr> free_list_end := (if cur = NULL then rng else free_list_end r1),
               free_count := free_count r1 + 1 \<rparr>, R2)"
  unfolding touches_prev_def free_list_insert_def by (simp add: Let_def split del: if_split)

lemma insert_merge_next:
  assumes ok: "free_list_ok r R (us @ v # vs)"
    and rd: "R rng = Some rd" "0 < unat (r_size rd)" "rng \<noteq> NULL" "rng \<notin> n_addr ` set (us @ v # vs)"
    and left: "\<forall>y \<in> set us. n_hi y < unat (r_base rd)" and touch: "unat (r_base rd) + unat (r_size rd) = n_lo v"
  shows "\<exists>r' R'. free_list_insert (if us = [] then NULL else n_addr (last us)) (n_addr v) rng r R = Some (r', R') \<and>
    free_list_shape r' R' (us @ \<lparr> n_addr = rng, n_lo = unat (r_base rd), n_hi = n_hi v \<rparr> # vs) \<and>
    unat (free_count r') = length (us @ vs) \<and> region_frame r r' \<and>
    (\<forall>a. a \<notin> insert rng (n_addr ` set us) \<longrightarrow> R' a = R a)"
proof -
  let ?prev = "if us = [] then NULL else n_addr (last us)"
  let ?x = "\<lparr> n_addr = rng, n_lo = unat (r_base rd), n_hi = n_hi v \<rparr>"
  obtain m where seg: "range_seg R (free_list r) us (n_addr v)" "node_at R v m" "range_seg R m vs NULL"
    using ok by (auto simp: free_list_ok_def free_list_shape_def range_seg_middle)
  have dist: "distinct (map n_addr (us @ v # vs))" "sorted_wrt (\<lambda>x y. n_hi x < n_lo y) (us @ v # vs)"
    "unat (free_count r) = length (us @ v # vs)" "free_list_end r = n_addr (last (us @ v # vs))"
    using ok by (simp_all add: free_list_ok_def free_list_shape_def)
  obtain c where c: "R (n_addr v) = Some c" "unat (r_base c) = n_lo v" "unat (r_size c) = n_hi v - n_lo v"
    "r_next c = m" "n_addr v \<noteq> NULL" "n_lo v < n_hi v" "n_hi v \<le> 18446744073709551615"
    using node_atD [OF seg(2)] by metis
  have "unat (r_base rd + r_size rd) = unat (r_base rd) + unat (r_size rd)"
    using touch c by (simp add: unat_plus_u64)
  then have mn: "r_base rd + r_size rd = r_base c" using touch c by (intro u64_eqI) simp
  note nmp = not_merge_prev [OF seg(1) left]
  let ?d = "rd\<lparr> r_size := r_size rd + r_size c, r_next := r_next c \<rparr>"
  let ?R = "R(rng \<mapsto> ?d)"
  have sz: "unat (r_size rd + r_size c) = n_hi v - unat (r_base rd)"
    using c touch by (subst unat_plus_u64) simp_all
  have nd: "node_at ?R ?x m"
    by (rule node_atI [where d = ?d]) (use rd c sz touch in auto)
  have segs: "range_seg ?R (free_list r) us (n_addr v)" "range_seg ?R m vs NULL"
    using seg rd(4) by (simp_all add: range_seg_upd image_Un)
  have dus: "distinct (map n_addr us)" "n_addr ` set us \<inter> n_addr ` set vs = {}" "rng \<notin> n_addr ` set us"
    "n_addr v \<notin> n_addr ` set us" "n_addr v \<notin> n_addr ` set vs"
    using dist(1) rd(4) by auto
  obtain r1 R2 where lf: "link_front ?prev rng r ?R = Some (r1, R2)"
    "range_seg R2 (free_list r1) (us @ ?x # vs) NULL" "r1 = r\<lparr> free_list := free_list r1 \<rparr>"
    "\<forall>a. a \<notin> n_addr ` set us \<longrightarrow> R2 a = ?R a"
    using link_front_seg [OF segs(1) dus(1) nd _ segs(2) dus(2)] dus(3) by auto
  have mp: "touches_prev R ?prev (r_base rd) = Some False"
  proof (cases "?prev \<noteq> NULL")
    case True
    from nmp [OF True] obtain d where "R (n_addr (last us)) = Some d" "r_base d + r_size d \<noteq> r_base rd" "us \<noteq> []"
      by blast
    then show ?thesis by (simp add: touches_prev_def)
  qed (simp add: touches_prev_def)
  let ?r = "r1\<lparr> free_list_end := (if free_list_end r1 = n_addr v then rng else free_list_end r1),
               free_count := free_count r1 - 1 \<rparr>"
  have ins: "free_list_insert ?prev (n_addr v) rng r R = Some (?r, R2)"
    by (rule free_list_insert_next [OF rd(1) mp c(5,1) mn lf(1)])
  have r1: "free_count r1 = free_count r" "free_list_end r1 = free_list_end r"
    by (subst lf(3), simp)+
  have "free_list_end ?r = n_addr (last (us @ ?x # vs))"
    using dist(1,4) r1 by (cases vs rule: rev_cases) auto
  moreover have "sorted_wrt (\<lambda>x y. n_hi x < n_lo y) (us @ ?x # vs)"
    using dist(2) left by (auto simp: sorted_wrt_append)
  ultimately have "free_list_shape ?r R2 (us @ ?x # vs)"
    using dist(1) lf(2) rd(4) by (auto simp: free_list_shape_def)
  moreover have "unat (free_count ?r) = length (us @ vs)"
  proof -
    have "free_count r \<noteq> 0" using dist(3) by auto
    then show ?thesis using dist(3) r1 by (simp add: unat_minus_one)
  qed
  moreover have "region_frame r ?r"
    unfolding region_frame_def
    by (intro exI [of _ "free_list r1"] exI [of _ "free_count r - 1"]
        exI [of _ "if free_list_end r = n_addr v then rng else free_list_end r"], subst lf(3)) (simp add: r1)
  ultimately show ?thesis using ins lf(4) by auto
qed

lemma insert_plain:
  assumes ok: "free_list_ok r R (us @ zs)"
    and rd: "R rng = Some rd" "0 < unat (r_size rd)" "rng \<noteq> NULL" "rng \<notin> n_addr ` set (us @ zs)"
    and left: "\<forall>y \<in> set us. n_hi y < unat (r_base rd)"
    and right: "\<forall>z \<in> set zs. unat (r_base rd) + unat (r_size rd) < n_lo z"
    and fits: "unat (r_base rd) + unat (r_size rd) \<le> 18446744073709551615"
    and cur: "cur = (if zs = [] then NULL else n_addr (hd zs))"
  shows "\<exists>r' R'. free_list_insert (if us = [] then NULL else n_addr (last us)) cur rng r R = Some (r', R') \<and>
    free_list_ok r' R' (us @ \<lparr> n_addr = rng, n_lo = unat (r_base rd), n_hi = unat (r_base rd) + unat (r_size rd) \<rparr> # zs) \<and>
    region_frame r r' \<and> (\<forall>a. a \<notin> insert rng (n_addr ` set us) \<longrightarrow> R' a = R a)"
proof -
  let ?prev = "if us = [] then NULL else n_addr (last us)"
  let ?x = "\<lparr> n_addr = rng, n_lo = unat (r_base rd), n_hi = unat (r_base rd) + unat (r_size rd) \<rparr>"
  have dist: "distinct (map n_addr (us @ zs))" "sorted_wrt (\<lambda>x y. n_hi x < n_lo y) (us @ zs)"
    "unat (free_count r) = length (us @ zs)" "us @ zs \<noteq> [] \<longrightarrow> free_list_end r = n_addr (last (us @ zs))"
    using ok by (simp_all add: free_list_ok_def free_list_shape_def)
  obtain m where seg: "range_seg R (free_list r) us m" "range_seg R m zs NULL"
    using ok by (auto simp: free_list_ok_def free_list_shape_def range_seg_append)
  have m: "m = cur" using seg(2) cur by (cases zs) auto
  have nonnull: "NULL \<notin> n_addr ` set (us @ zs)"
    using range_seg_nodes [OF seg(1)] range_seg_nodes [OF seg(2)] node_at_size by fastforce
  have re: "unat (r_base rd + r_size rd) = unat (r_base rd) + unat (r_size rd)"
    using fits by (simp add: unat_plus_u64)
  note nmp = not_merge_prev [OF seg(1) left]
  have mn: "(if cur \<noteq> NULL then do { c \<leftarrow> R cur; Some (r_base rd + r_size rd = r_base c) } else Some False) = Some False"
  proof (cases zs)
    case (Cons z zs')
    then obtain k where "node_at R z k" using seg(2) by auto
    then obtain c where "R (n_addr z) = Some c" "unat (r_base c) = n_lo z" by (metis node_atD)
    then show ?thesis using Cons cur right re by auto
  qed (simp add: cur)
  have mp: "touches_prev R ?prev (r_base rd) = Some False"
  proof (cases "?prev \<noteq> NULL")
    case True
    from nmp [OF True] obtain d where "R (n_addr (last us)) = Some d" "r_base d + r_size d \<noteq> r_base rd" "us \<noteq> []"
      by blast
    then show ?thesis by (simp add: touches_prev_def)
  qed (simp add: touches_prev_def)
  let ?d = "rd\<lparr> r_next := cur \<rparr>"
  let ?R = "R(rng \<mapsto> ?d)"
  have nd: "node_at ?R ?x cur"
    by (rule node_atI [where d = ?d]) (use rd fits in auto)
  have segs: "range_seg ?R (free_list r) us m" "range_seg ?R cur zs NULL"
    using seg m rd(4) by (simp_all add: range_seg_upd image_Un)
  have dus: "distinct (map n_addr us)" "n_addr ` set us \<inter> n_addr ` set zs = {}" "rng \<notin> n_addr ` set us"
    using dist(1) rd(4) by auto
  obtain r1 R2 where lf: "link_front ?prev rng r ?R = Some (r1, R2)"
    "range_seg R2 (free_list r1) (us @ ?x # zs) NULL" "r1 = r\<lparr> free_list := free_list r1 \<rparr>"
    "\<forall>a. a \<notin> n_addr ` set us \<longrightarrow> R2 a = ?R a"
    using link_front_seg [OF segs(1) dus(1) nd _ segs(2) dus(2)] dus(3) by auto
  let ?r = "r1\<lparr> free_list_end := (if cur = NULL then rng else free_list_end r1),
               free_count := free_count r1 + 1 \<rparr>"
  have ins: "free_list_insert ?prev cur rng r R = Some (?r, R2)"
    by (rule free_list_insert_plain [OF rd(1) mp mn lf(1)])
  have r1: "free_count r1 = free_count r" "free_list_end r1 = free_list_end r"
    by (subst lf(3), simp)+
  have cz: "cur = NULL \<longleftrightarrow> zs = []" using cur nonnull by (cases zs) auto
  have "free_list_end ?r = n_addr (last (us @ ?x # zs))"
    using dist(4) r1 cz by (cases zs rule: rev_cases) auto
  moreover have "unat (free_count ?r) = length (us @ ?x # zs)"
  proof -
    have "length (rng # map n_addr (us @ zs)) \<le> 18446744073709551615"
      using dist(1) rd(3,4) nonnull by (intro distinct_u64_length) auto
    then show ?thesis using dist(3) r1 by (simp add: unat_plus_u64)
  qed
  moreover have "sorted_wrt (\<lambda>x y. n_hi x < n_lo y) (us @ ?x # zs)"
    using dist(2) left right by (auto simp: sorted_wrt_append)
  ultimately have "free_list_ok ?r R2 (us @ ?x # zs)"
    using dist(1) lf(2) rd(4) by (auto simp: free_list_ok_def free_list_shape_def)
  moreover have "region_frame r ?r"
    unfolding region_frame_def
    by (intro exI [of _ "free_list r1"] exI [of _ "free_count r + 1"]
        exI [of _ "if cur = NULL then rng else free_list_end r"], subst lf(3)) (simp add: r1)
  ultimately show ?thesis using ins lf(4) by auto
qed

subsection \<open>The append operation\<close>

lemma free_bytes_simps [simp]:
  "free_bytes [] = {}"
  "free_bytes (x # xs) = {n_lo x..<n_hi x} \<union> free_bytes xs"
  "free_bytes (xs @ ys) = free_bytes xs \<union> free_bytes ys"
  by (auto simp: free_bytes_def)

text \<open>
  What \<open>avmf_free_list_append\<close> does with a range from \<open>a\<close> to \<open>b\<close>. The count is right
  except when the range is merged with its successor only: no node goes away then, but
  \<open>free_count\<close> is decremented.
\<close>

definition appended ::
  "avmf_region \<Rightarrow> range_store \<Rightarrow> range_node list \<Rightarrow> u64 \<Rightarrow> nat \<Rightarrow> nat \<Rightarrow>
   avmf_region \<Rightarrow> range_store \<Rightarrow> range_node list \<Rightarrow> bool" where
  "appended r R xs rng a b r' R' xs' \<longleftrightarrow>
     free_list_shape r' R' xs' \<and> free_bytes xs' = free_bytes xs \<union> {a..<b} \<and>
     n_addr ` set xs' \<subseteq> insert rng (n_addr ` set xs) \<and> region_frame r r' \<and>
     (\<forall>p. p \<notin> insert rng (n_addr ` set xs) \<longrightarrow> R' p = R p) \<and>
     unat (free_count r') + (if (\<exists>v \<in> set xs. n_lo v = b) \<and> (\<forall>u \<in> set xs. n_hi u \<noteq> a) then 1 else 0) = length xs'"

lemma sorted_below:
  assumes "sorted_wrt (\<lambda>x y. n_hi x < n_lo y) ys" "\<forall>x \<in> set ys. n_lo x < n_hi x" "\<forall>y \<in> set ys. n_hi y \<le> a"
    "ys = [] \<or> n_hi (last ys) \<noteq> a"
  shows "\<forall>y \<in> set ys. n_hi y < a"
proof (cases ys rule: rev_cases)
  case (snoc us u)
  then have u: "n_hi u < a" "n_lo u < n_hi u" using assms by auto
  have "n_hi y < n_lo u" if "y \<in> set us" for y using assms(1) snoc that by (simp add: sorted_wrt_append)
  then show ?thesis using snoc u by fastforce
qed simp

lemma sorted_above:
  assumes "sorted_wrt (\<lambda>x y. n_hi x < n_lo y) zs" "\<forall>x \<in> set zs. n_lo x < n_hi x" "\<forall>z \<in> set zs. b \<le> n_lo z"
    "zs = [] \<or> n_lo (hd zs) \<noteq> b"
  shows "\<forall>z \<in> set zs. b < n_lo z"
proof (cases zs)
  case (Cons v vs)
  then have v: "b < n_lo v" "n_lo v < n_hi v" using assms by auto
  have "n_hi v < n_lo z" if "z \<in> set vs" for z using assms(1) Cons that by simp
  then show ?thesis using Cons v by fastforce
qed simp

lemma free_list_nodes:
  "free_list_ok r R xs \<Longrightarrow> \<forall>x \<in> set xs. n_lo x < n_hi x \<and> n_addr x \<noteq> NULL"
  using range_seg_nodes [of R "free_list r" xs NULL] node_at_size
  by (auto simp: free_list_ok_def free_list_shape_def)

lemma free_list_insert_appended:
  assumes ok: "free_list_ok r R (ys @ zs)"
    and rd: "R rng = Some rd" "0 < unat (r_size rd)" "rng \<noteq> NULL" "rng \<notin> n_addr ` set (ys @ zs)"
    and a: "unat (r_base rd) = a" and b: "unat (r_base rd) + unat (r_size rd) = b" "b \<le> 18446744073709551615"
    and left: "\<forall>y \<in> set ys. n_hi y \<le> a" and right: "\<forall>z \<in> set zs. b \<le> n_lo z"
  shows "\<exists>r' R' xs'. free_list_insert (if ys = [] then NULL else n_addr (last ys))
      (if zs = [] then NULL else n_addr (hd zs)) rng r R = Some (r', R') \<and>
    appended r R (ys @ zs) rng a b r' R' xs'"
proof -
  have sorted: "sorted_wrt (\<lambda>x y. n_hi x < n_lo y) (ys @ zs)"
    using ok by (simp add: free_list_ok_def free_list_shape_def)
  have ne: "\<forall>x \<in> set (ys @ zs). n_lo x < n_hi x" using free_list_nodes [OF ok] by blast
  have lt: "a < b" using a b rd(2) by simp
  have left2: "\<forall>y \<in> set ys. n_hi y < a" if "ys = [] \<or> n_hi (last ys) \<noteq> a"
    using sorted ne left that by (intro sorted_below) (auto simp: sorted_wrt_append)
  have right2: "\<forall>z \<in> set zs. b < n_lo z" if "zs = [] \<or> n_lo (hd zs) \<noteq> b"
    using sorted ne right that by (intro sorted_above) (auto simp: sorted_wrt_append)
  have hi_right: "n_hi z \<noteq> a" if "z \<in> set zs" for z
  proof -
    have "b \<le> n_lo z" "n_lo z < n_hi z" using right ne that by auto
    then show ?thesis using lt by linarith
  qed
  have lo_left: "n_lo y \<noteq> b" if "y \<in> set ys" for y
  proof -
    have "n_hi y \<le> a" "n_lo y < n_hi y" using left ne that by auto
    then show ?thesis using lt by linarith
  qed
  consider us u v vs where "ys = us @ [u]" "n_hi u = a" "zs = v # vs" "n_lo v = b"
    | us u where "ys = us @ [u]" "n_hi u = a" "zs = [] \<or> n_lo (hd zs) \<noteq> b"
    | v vs where "ys = [] \<or> n_hi (last ys) \<noteq> a" "zs = v # vs" "n_lo v = b"
    | "ys = [] \<or> n_hi (last ys) \<noteq> a" "zs = [] \<or> n_lo (hd zs) \<noteq> b"
    by (cases ys rule: rev_cases; cases zs) auto
  then show ?thesis
  proof cases
    case 1
    have "free_list_ok r R (us @ u # v # vs)" using ok 1 by simp
    from insert_merge_both [OF this rd(1,2)] 1 a b obtain r' R' where
      ins: "free_list_insert (n_addr u) (n_addr v) rng r R = Some (r', R')"
        "free_list_ok r' R' (us @ u\<lparr> n_hi := n_hi v \<rparr> # vs)" "region_frame r r'"
        "\<forall>a. a \<noteq> n_addr u \<longrightarrow> R' a = R a" by auto
    have "{n_lo u..<n_hi v} = {n_lo u..<n_hi u} \<union> {a..<b} \<union> {n_lo v..<n_hi v}" using 1 ne lt by auto
    then have "appended r R (ys @ zs) rng a b r' R' (us @ u\<lparr> n_hi := n_hi v \<rparr> # vs)"
      using ins 1 by (auto simp: appended_def free_list_ok_def)
    then show ?thesis using ins(1) 1 by auto
  next
    case 2
    have ok': "free_list_ok r R (us @ u # zs)" using ok 2 by simp
    have "\<forall>z \<in> set zs. unat (r_base rd) + unat (r_size rd) < n_lo z" using right2 [OF 2(3)] b by simp
    from insert_merge_prev [OF ok' rd(1,2) _ this _ refl] 2 a b obtain r' R' where
      ins: "free_list_insert (n_addr u) (if zs = [] then NULL else n_addr (hd zs)) rng r R = Some (r', R')"
        "free_list_ok r' R' (us @ u\<lparr> n_hi := b \<rparr> # zs)" "region_frame r r'"
        "\<forall>a. a \<noteq> n_addr u \<longrightarrow> R' a = R a" by auto
    have "{n_lo u..<b} = {n_lo u..<n_hi u} \<union> {a..<b}" using 2 ne lt by auto
    then have "appended r R (ys @ zs) rng a b r' R' (us @ u\<lparr> n_hi := b \<rparr> # zs)"
      using ins 2 by (auto simp: appended_def free_list_ok_def)
    then show ?thesis using ins(1) 2 by auto
  next
    case 3
    let ?x = "\<lparr> n_addr = rng, n_lo = a, n_hi = n_hi v \<rparr>"
    have ok': "free_list_ok r R (ys @ v # vs)" "rng \<notin> n_addr ` set (ys @ v # vs)" using ok rd(4) 3 by simp_all
    from insert_merge_next [OF ok'(1) rd(1-3) ok'(2)] left2 [OF 3(1)] 3 a b obtain r' R' where
      ins: "free_list_insert (if ys = [] then NULL else n_addr (last ys)) (n_addr v) rng r R = Some (r', R')"
        "free_list_shape r' R' (ys @ ?x # vs)" "unat (free_count r') = length (ys @ vs)" "region_frame r r'"
        "\<forall>a. a \<notin> insert rng (n_addr ` set ys) \<longrightarrow> R' a = R a" by auto
    have "{a..<n_hi v} = {a..<b} \<union> {n_lo v..<n_hi v}" using 3 ne lt by auto
    moreover have "(\<exists>v \<in> set (ys @ zs). n_lo v = b) \<and> (\<forall>u \<in> set (ys @ zs). n_hi u \<noteq> a)"
      using 3 hi_right left2 [OF 3(1)] by auto
    ultimately have "appended r R (ys @ zs) rng a b r' R' (ys @ ?x # vs)"
      using ins 3(2) by (auto simp: appended_def)
    then show ?thesis using ins(1) 3 by auto
  next
    case 4
    let ?x = "\<lparr> n_addr = rng, n_lo = a, n_hi = b \<rparr>"
    have "\<forall>y \<in> set ys. n_hi y < unat (r_base rd)" "\<forall>z \<in> set zs. unat (r_base rd) + unat (r_size rd) < n_lo z"
      using left2 [OF 4(1)] right2 [OF 4(2)] a b by auto
    from insert_plain [OF ok rd this _ refl] a b obtain r' R' where
      ins: "free_list_insert (if ys = [] then NULL else n_addr (last ys))
          (if zs = [] then NULL else n_addr (hd zs)) rng r R = Some (r', R')"
        "free_list_ok r' R' (ys @ ?x # zs)" "region_frame r r'"
        "\<forall>a. a \<notin> insert rng (n_addr ` set ys) \<longrightarrow> R' a = R a" by auto
    have "\<forall>x \<in> set (ys @ zs). n_lo x \<noteq> b" using lo_left right2 [OF 4(2)] by auto
    then have "appended r R (ys @ zs) rng a b r' R' (ys @ ?x # zs)"
      using ins by (auto simp: appended_def free_list_ok_def)
    then show ?thesis using ins(1) by auto
  qed
qed


lemma region_frame_upd [simp]:
  "region_frame r (r\<lparr> free_list := f, free_list_end := e, free_count := c \<rparr>)"
  unfolding region_frame_def by (intro exI [of _ f] exI [of _ c] exI [of _ e]) simp

lemma append_cases:
  assumes ok: "free_list_ok r R xs" "region_ok r"
    and rd: "R rng = Some rd" "r_size rd \<noteq> 0" "rng \<noteq> NULL" "rng \<notin> n_addr ` set xs"
    and a: "unat (r_base rd) = a" and b: "unat (r_base rd) + unat (r_size rd) = b" "b \<le> 18446744073709551615"
  shows "if \<exists>x \<in> set xs. overlaps a b x then avmf_free_list_append r rng R = Some (False, r, R)
    else \<exists>r' R' xs'. avmf_free_list_append r rng R = Some (True, r', R') \<and>
      appended r R xs rng a b r' R' xs'"
proof -
  have sz: "0 < unat (r_size rd)" using rd(2) by (simp add: unat_gt_0)
  have fits: "\<not> UINT64_MAX - r_size rd < r_base rd"
    using b by (simp add: word_less_nat_alt unat_sub word_le_nat_alt)
  have re: "unat (r_base rd + r_size rd) = b" using b by (simp add: unat_plus_u64)
  have ab: "unat (r_base rd) < unat (r_base rd + r_size rd)" using re b sz by simp
  have sh: "range_seg R (free_list r) xs NULL" "sorted_wrt (\<lambda>x y. n_hi x < n_lo y) xs"
    "unat (free_count r) = length xs"
    using ok by (simp_all add: free_list_ok_def free_list_shape_def)
  show ?thesis
  proof (cases "xs = []")
    case True
    let ?r = "r\<lparr> free_list := rng, free_list_end := rng, free_count := 1 \<rparr>"
    let ?R = "R(rng \<mapsto> rd\<lparr> r_next := NULL \<rparr>)"
    have "free_list r = NULL" using True sh by simp
    then have app: "avmf_free_list_append r rng R = Some (True, ?r, ?R)"
      using rd ok(2) fits by (simp add: avmf_free_list_append_def Let_def)
    have "node_at ?R \<lparr> n_addr = rng, n_lo = a, n_hi = b \<rparr> NULL"
      by (rule node_atI [where d = "rd\<lparr> r_next := NULL \<rparr>"]) (use rd sz a b in auto)
    then have "appended r R [] rng a b ?r ?R [\<lparr> n_addr = rng, n_lo = a, n_hi = b \<rparr>]"
      by (auto simp: appended_def free_list_shape_def)
    then show ?thesis using app True by auto
  next
    case False
    have fc: "free_list r \<noteq> NULL" "free_count r \<noteq> 0"
      using False sh range_seg_NULL [of R xs NULL] by auto
    have app: "avmf_free_list_append r rng R =
      do { pos \<leftarrow> free_list_scan (length xs) NULL (free_list r) (r_base rd) (r_base rd + r_size rd) R;
           case pos of Inl _ \<Rightarrow> Some (False, r, R)
           | Inr (prev, cur) \<Rightarrow> do {
               (r', R') \<leftarrow> free_list_insert prev cur rng r R; Some (True, r', R') } }"
      using rd ok(2) fits fc sh(3) by (simp add: avmf_free_list_append_def Let_def)
    from free_list_scan_split [OF ab sh(1,2), of NULL] show ?thesis
    proof (elim disjE conjE exE)
      assume "\<exists>x \<in> set xs. overlaps (unat (r_base rd)) (unat (r_base rd + r_size rd)) x"
        "free_list_scan (length xs) NULL (free_list r) (r_base rd) (r_base rd + r_size rd) R = Some (Inl ())"
      then show ?thesis unfolding app a re by simp
    next
      fix ys zs
      assume split: "xs = ys @ zs" "\<forall>y \<in> set ys. n_hi y \<le> unat (r_base rd)"
        "\<forall>z \<in> set zs. unat (r_base rd + r_size rd) \<le> n_lo z"
        and scan: "free_list_scan (length xs) NULL (free_list r) (r_base rd) (r_base rd + r_size rd) R =
          Some (Inr (if ys = [] then NULL else n_addr (last ys), if zs = [] then NULL else n_addr (hd zs)))"
      have "\<not> overlaps a b x" if "x \<in> set xs" for x
      proof -
        have "n_hi x \<le> a \<or> b \<le> n_lo x" using that split a re by auto
        then show ?thesis by (auto simp: overlaps_def)
      qed
      moreover obtain r' R' xs' where "free_list_insert (if ys = [] then NULL else n_addr (last ys))
          (if zs = [] then NULL else n_addr (hd zs)) rng r R = Some (r', R')"
        "appended r R xs rng a b r' R' xs'"
        using free_list_insert_appended [of r R ys zs rng rd a b] ok(1) split rd sz a b re by auto
      ultimately show ?thesis unfolding app scan by auto
    qed
  qed
qed

text \<open>C10: On a well-formed free list, \<open>avmf_free_list_append\<close> refuses a range that overlaps a free one and changes nothing; any other range it takes, so that the free addresses become exactly the old ones and the range's, with the list sorted, disjoint and fully coalesced and no other node touched. The count stays right too unless the range is merged with its successor alone.\<close>

theorem avmf_free_list_append_spec:
  assumes "free_list_ok r R xs" "region_ok r" "R rng = Some rd" "r_size rd \<noteq> 0" "rng \<noteq> NULL"
    "rng \<notin> n_addr ` set xs" "a = unat (r_base rd)" "b = unat (r_base rd) + unat (r_size rd)"
    "b \<le> 18446744073709551615"
  shows "if {a..<b} \<inter> free_bytes xs \<noteq> {} then avmf_free_list_append r rng R = Some (False, r, R)
    else \<exists>r' R' xs'. avmf_free_list_append r rng R = Some (True, r', R') \<and>
      free_list_shape r' R' xs' \<and> free_bytes xs' = free_bytes xs \<union> {a..<b} \<and>
      region_frame r r' \<and> (\<forall>p. p \<notin> insert rng (n_addr ` set xs) \<longrightarrow> R' p = R p) \<and>
      ((\<exists>u \<in> set xs. n_hi u = a) \<or> (\<forall>v \<in> set xs. n_lo v \<noteq> b) \<longrightarrow> free_list_ok r' R' xs')"
proof -
  have "0 < unat (r_size rd)" using assms(4) by (simp add: unat_gt_0)
  then have ab: "a < b" using assms by simp
  have "(\<exists>x \<in> set xs. overlaps a b x) \<longleftrightarrow> {a..<b} \<inter> free_bytes xs \<noteq> {}"
  proof -
    have "overlaps a b x \<longleftrightarrow> {a..<b} \<inter> {n_lo x..<n_hi x} \<noteq> {}" if "x \<in> set xs" for x
    proof -
      have "n_lo x < n_hi x" using free_list_nodes [OF assms(1)] that by blast
      then show ?thesis using ab by (auto simp: overlaps_def)
    qed
    moreover have "{a..<b} \<inter> free_bytes xs = (\<Union>x \<in> set xs. {a..<b} \<inter> {n_lo x..<n_hi x})"
      by (auto simp: free_bytes_def)
    ultimately show ?thesis by simp
  qed
  then show ?thesis
    using append_cases [OF assms(1-6) _ _ assms(9)] assms(7,8)
    by (auto simp: appended_def free_list_ok_def split: if_splits)
qed

text \<open>Merging a range with its successor alone decrements \<open>free_count\<close> although no node goes away: after such a merge into a list of one node the count is 0, and the next append takes the list for empty and drops everything that was free.\<close>

lemma avmf_free_list_append_loses:
  assumes ok: "free_list_ok r R [v]" "region_ok r"
    and p: "R p = Some pd" "r_size pd \<noteq> 0" "p \<noteq> NULL" "p \<noteq> n_addr v"
      "unat (r_base pd) + unat (r_size pd) = n_lo v"
    and q: "R q = Some qd" "r_size qd \<noteq> 0" "q \<noteq> NULL" "q \<notin> {n_addr v, p}"
      "unat (r_base qd) + unat (r_size qd) \<le> 18446744073709551615"
  shows "\<exists>r' R' r'' R''. avmf_free_list_append r p R = Some (True, r', R') \<and> free_count r' = 0 \<and>
    avmf_free_list_append r' q R' = Some (True, r'', R'') \<and>
    free_list_ok r'' R'' [\<lparr> n_addr = q, n_lo = unat (r_base qd), n_hi = unat (r_base qd) + unat (r_size qd) \<rparr>]"
proof -
  have v: "n_lo v < n_hi v" "n_hi v \<le> 18446744073709551615"
    using ok(1) by (auto simp: free_list_ok_def free_list_shape_def node_at_def)
  have "0 < unat (r_size pd)" using p(2) by (simp add: unat_gt_0)
  then have no: "\<not> overlaps (unat (r_base pd)) (n_lo v) v" "n_hi v \<noteq> unat (r_base pd)"
    using v p(5) by (simp_all add: overlaps_def)
  from append_cases [OF ok p(1-3) _ refl p(5)] p(4) no v obtain r' R' xs' where a:
    "avmf_free_list_append r p R = Some (True, r', R')"
    "appended r R [v] p (unat (r_base pd)) (n_lo v) r' R' xs'" by auto
  have R': "R' q = Some qd" using a(2) q(1,4) by (auto simp: appended_def)
  have xs': "n_addr ` set xs' \<subseteq> {p, n_addr v}" "unat (free_count r') + 1 = length xs'" "free_list_shape r' R' xs'"
    "region_frame r r'" "free_bytes xs' = {unat (r_base pd)..<n_hi v}"
    using a(2) no p(5) v by (auto simp: appended_def)
  have "length xs' = 1"
  proof (rule ccontr)
    assume "length xs' \<noteq> 1"
    then obtain x y zs where xy: "xs' = x # y # zs"
      using xs'(2) by (cases xs'; cases "tl xs'") auto
    have lt: "n_lo x < n_hi x" "n_hi x < n_lo y" "n_lo y < n_hi y"
      using xs'(3) xy by (auto simp: free_list_shape_def node_at_def)
    have "n_lo x \<in> free_bytes xs'" "n_lo y \<in> free_bytes xs'" using xy lt by auto
    then have "n_hi x \<in> free_bytes xs'" using lt unfolding xs'(5) by auto
    then obtain z where z: "z \<in> set xs'" "n_lo z \<le> n_hi x" "n_hi x < n_hi z" by (auto simp: free_bytes_def)
    have "n_hi x < n_lo z" if "z \<in> set (y # zs)" using xs'(3) xy that by (auto simp: free_list_shape_def)
    then show False using z xy by auto
  qed
  then have z: "free_count r' = 0" using xs'(2) by (simp add: unat_eq_0)
  have okr': "region_ok r'" using ok(2) xs'(4) by (auto simp: region_frame_def region_ok_def)
  let ?r = "r'\<lparr> free_list := q, free_list_end := q, free_count := 1 \<rparr>"
  let ?R = "R'(q \<mapsto> qd\<lparr> r_next := NULL \<rparr>)"
  have "\<not> UINT64_MAX - r_size qd < r_base qd"
    using q(5) by (simp add: word_less_nat_alt unat_sub word_le_nat_alt)
  then have app: "avmf_free_list_append r' q R' = Some (True, ?r, ?R)"
    using q z okr' R' by (simp add: avmf_free_list_append_def Let_def)
  have "node_at ?R \<lparr> n_addr = q, n_lo = unat (r_base qd), n_hi = unat (r_base qd) + unat (r_size qd) \<rparr> NULL"
    by (rule node_atI [where d = "qd\<lparr> r_next := NULL \<rparr>"]) (use q in \<open>auto simp: unat_gt_0\<close>)
  then have "free_list_ok ?r ?R [\<lparr> n_addr = q, n_lo = unat (r_base qd), n_hi = unat (r_base qd) + unat (r_size qd) \<rparr>]"
    by (simp add: free_list_ok_def free_list_shape_def)
  then show ?thesis using a(1) z app by blast
qed

subsection \<open>Instances\<close>

definition sample_ranges :: range_store where
  "sample_ranges = [0x300000 \<mapsto> \<lparr> r_base = 0x5000, r_size = 0x3000, r_next = 0 \<rparr>,
     0x300018 \<mapsto> \<lparr> r_base = 0x3000, r_size = 0x2000, r_next = 0 \<rparr>,
     0x300030 \<mapsto> \<lparr> r_base = 0xA000, r_size = 0x1000, r_next = 0 \<rparr>]"

definition sample_region :: avmf_region where
  "sample_region = \<lparr> signature = AVMF_SIGNATURE, version = AVMF_VERSION, base = 0x1000,
     limit = 0x20000000, allocated_bytes = 0, free_list = 0x300000, free_count = 1,
     free_list_end = 0x300000, alloc_list = 0, alloc_count = 0, alloc_list_end = 0,
     cache_list = 0, cache_count = 0, cache_list_end = 0 \<rparr>"

lemma sample_free_list:
  "free_list_ok sample_region sample_ranges [\<lparr> n_addr = 0x300000, n_lo = 0x5000, n_hi = 0x8000 \<rparr>]"
  "region_ok sample_region"
  by (simp_all add: free_list_ok_def free_list_shape_def node_at_def sample_region_def
    sample_ranges_def region_ok_def)

theorem avmf_free_list_append_spec_witness:
  "\<exists>r' R' xs'. avmf_free_list_append sample_region 0x300030 sample_ranges = Some (True, r', R') \<and>
    free_list_ok r' R' xs' \<and> free_bytes xs' = {0x5000..<0x8000} \<union> {0xA000..<0xB000}"
  using avmf_free_list_append_spec [OF sample_free_list, where rng = "0x300030" and a = "0xA000" and b = "0xB000"
      and rd = "\<lparr> r_base = 0xA000, r_size = 0x1000, r_next = 0 \<rparr>"]
  by (auto simp: sample_ranges_def)

end
