(* ===== verification/AvmfHeader.thy ===== *)
theory AvmfHeader
  imports AvmfTypes
begin

text \<open>
  The lists of allocation and cache headers of a region, \<open>avmf_unlink_header\<close> and
  \<open>avmf_link_header\<close> of \<^verbatim>\<open>Kernel/mm/avmf.c\<close>. Both pick the list by the header's type;
  the pointers \<open>list\<close>, \<open>count\<close> and \<open>end\<close> of the code are the accessors below.
\<close>

subsection \<open>The two lists of a region\<close>

fun hdr_list :: "avmf_header_type \<Rightarrow> avmf_region \<Rightarrow> u64" where
  "hdr_list AVMF_HDR_TYPE_ALLOC r = alloc_list r"
| "hdr_list AVMF_HDR_TYPE_CACHE r = cache_list r"
| "hdr_list AVMF_HDR_TYPE_CORRUPT r = NULL"

fun hdr_count :: "avmf_header_type \<Rightarrow> avmf_region \<Rightarrow> u64" where
  "hdr_count AVMF_HDR_TYPE_ALLOC r = alloc_count r"
| "hdr_count AVMF_HDR_TYPE_CACHE r = cache_count r"
| "hdr_count AVMF_HDR_TYPE_CORRUPT r = 0"

fun hdr_end :: "avmf_header_type \<Rightarrow> avmf_region \<Rightarrow> u64" where
  "hdr_end AVMF_HDR_TYPE_ALLOC r = alloc_list_end r"
| "hdr_end AVMF_HDR_TYPE_CACHE r = cache_list_end r"
| "hdr_end AVMF_HDR_TYPE_CORRUPT r = NULL"

fun set_hdr_list :: "avmf_header_type \<Rightarrow> u64 \<Rightarrow> avmf_region \<Rightarrow> avmf_region" where
  "set_hdr_list AVMF_HDR_TYPE_ALLOC v r = r\<lparr> alloc_list := v \<rparr>"
| "set_hdr_list AVMF_HDR_TYPE_CACHE v r = r\<lparr> cache_list := v \<rparr>"
| "set_hdr_list AVMF_HDR_TYPE_CORRUPT v r = r"

fun set_hdr_count :: "avmf_header_type \<Rightarrow> u64 \<Rightarrow> avmf_region \<Rightarrow> avmf_region" where
  "set_hdr_count AVMF_HDR_TYPE_ALLOC v r = r\<lparr> alloc_count := v \<rparr>"
| "set_hdr_count AVMF_HDR_TYPE_CACHE v r = r\<lparr> cache_count := v \<rparr>"
| "set_hdr_count AVMF_HDR_TYPE_CORRUPT v r = r"

fun set_hdr_end :: "avmf_header_type \<Rightarrow> u64 \<Rightarrow> avmf_region \<Rightarrow> avmf_region" where
  "set_hdr_end AVMF_HDR_TYPE_ALLOC v r = r\<lparr> alloc_list_end := v \<rparr>"
| "set_hdr_end AVMF_HDR_TYPE_CACHE v r = r\<lparr> cache_list_end := v \<rparr>"
| "set_hdr_end AVMF_HDR_TYPE_CORRUPT v r = r"

subsection \<open>Unlinking\<close>

text \<open>The two neighbours: the flags are \<open>poisoned\<close>, and \<open>n\<close> as it is left.\<close>

definition unlink_next ::
  "u64 \<Rightarrow> u64 \<Rightarrow> header_store \<Rightarrow> (u64 \<times> bool \<times> header_store) option" where
  "unlink_next n p H =
     (if n = NULL then Some (NULL, False, H)
      else do {
        nd \<leftarrow> H n;
        if header_bad nd then Some (NULL, True, H(n \<mapsto> nd\<lparr> h_type := AVMF_HDR_TYPE_CORRUPT \<rparr>))
        else Some (n, False, H(n \<mapsto> nd\<lparr> h_parent := p \<rparr>)) })"

definition unlink_parent ::
  "u64 \<Rightarrow> u64 \<Rightarrow> bool \<Rightarrow> header_store \<Rightarrow> (bool \<times> header_store) option" where
  "unlink_parent n p poisoned H =
     (if p = NULL then Some (poisoned, H)
      else do {
        pd \<leftarrow> H p;
        if \<not> header_bad pd then
          Some (poisoned, H(p \<mapsto> pd\<lparr> h_next := (if poisoned then NULL else n) \<rparr>))
        else if \<not> poisoned \<and> n \<noteq> NULL then do {
          nd \<leftarrow> H n;
          let H1 = H(n \<mapsto> nd\<lparr> h_parent := NULL \<rparr>);
          pd1 \<leftarrow> H1 p;
          Some (True, H1(p \<mapsto> pd1\<lparr> h_type := AVMF_HDR_TYPE_CORRUPT \<rparr>)) }
        else Some (True, H) })"

definition avmf_unlink_header ::
  "avmf_region \<Rightarrow> u64 \<Rightarrow> header_store \<Rightarrow> (avmf_region \<times> header_store) option" where
  "avmf_unlink_header r h H =
     (if h = NULL \<or> \<not> region_ok r then Some (r, H)
      else do {
        hd \<leftarrow> H h;
        let typ = h_type hd;
        if typ = AVMF_HDR_TYPE_CORRUPT then Some (r, H)
        else if hdr_count typ r = 0 then Some (r, H(h \<mapsto> hd\<lparr> h_type := AVMF_HDR_TYPE_CORRUPT \<rparr>))
        else do {
          (n, poisoned, H1) \<leftarrow> unlink_next (h_next hd) (h_parent hd) H;
          (poisoned', H2) \<leftarrow> unlink_parent n (h_parent hd) poisoned H1;
          hd2 \<leftarrow> H2 h;
          if poisoned' then Some (r, H2(h \<mapsto> hd2\<lparr> h_type := AVMF_HDR_TYPE_CORRUPT \<rparr>))
          else
            let r1 = (if hdr_end typ r = h then set_hdr_end typ (h_parent hd2) r
                      else if hdr_list typ r = h then set_hdr_list typ (h_next hd2) r
                      else r);
                r2 = set_hdr_count typ (hdr_count typ r1 - 1) r1
            in Some (r2, H2(h \<mapsto> hd2\<lparr> h_next := NULL, h_parent := NULL \<rparr>)) } })"

subsection \<open>Linking\<close>

text \<open>\<open>reset_list\<close>: the list is the new header alone.\<close>

definition reset_list :: "avmf_header_type \<Rightarrow> u64 \<Rightarrow> avmf_region \<Rightarrow> avmf_region" where
  "reset_list typ h r = set_hdr_count typ 1 (set_hdr_end typ h (set_hdr_list typ h r))"

text \<open>
  \<open>try_continue_next_after_corrupt\<close> with its nested \<open>reset_list_from_this_point\<close>: \<open>None\<close>
  in the first component goes on with the next header, \<open>Some\<close> is the end of the search.
\<close>

definition link_after_corrupt ::
  "avmf_header_type \<Rightarrow> u64 \<Rightarrow> u64 \<Rightarrow> u64 \<Rightarrow> u64 \<Rightarrow> avmf_region \<Rightarrow> header_store \<Rightarrow>
   (bool \<times> avmf_region \<times> header_store) option" where
  "link_after_corrupt typ h i p n r H =
     do {
       go_on \<leftarrow> (if n = NULL then Some False else do { nd \<leftarrow> H n; Some (h_type nd = typ) });
       if go_on then Some (True, r, H)
       else if i = 0 \<or> p = NULL then Some (False, reset_list typ h r, H)
       else do {
         pd \<leftarrow> H p;
         let H1 = H(p \<mapsto> pd\<lparr> h_next := h \<rparr>);
         hd \<leftarrow> H1 h;
         Some (False, set_hdr_count typ i r, H1(h \<mapsto> hd\<lparr> h_parent := p \<rparr>)) } }"

text \<open>\<open>no_proper_end\<close>: the search for the end of the list, at most \<open>r_count\<close> steps.\<close>

fun link_search ::
  "nat \<Rightarrow> u64 \<Rightarrow> avmf_header_type \<Rightarrow> u64 \<Rightarrow> u64 \<Rightarrow> u64 \<Rightarrow> avmf_region \<Rightarrow> header_store \<Rightarrow>
   (avmf_region \<times> header_store) option" where
  "link_search 0 i typ h p c r H = Some (r, H)"
| "link_search (Suc k) i typ h p c r H =
     do {
       cd \<leftarrow> H c;
       let n = h_next cd;
       if header_bad cd then do {
         (r1, H1) \<leftarrow> avmf_unlink_header r c H;
         (go_on, r2, H2) \<leftarrow> link_after_corrupt typ h i p n r1 H1;
         if go_on then link_search k (i + 1) typ h p n r2 H2 else Some (r2, H2) }
       else if h_type cd = AVMF_HDR_TYPE_CORRUPT then do {
         (go_on, r2, H2) \<leftarrow> link_after_corrupt typ h i p n r H;
         if go_on then link_search k (i + 1) typ h p n r2 H2 else Some (r2, H2) }
       else if n = NULL then do {
         let H1 = H(c \<mapsto> cd\<lparr> h_next := h \<rparr>);
         hd \<leftarrow> H1 h;
         Some (set_hdr_count typ (hdr_count typ r + 1) r, H1(h \<mapsto> hd\<lparr> h_parent := c \<rparr>)) }
       else link_search k (i + 1) typ h c n r H }"

definition avmf_link_header ::
  "avmf_region \<Rightarrow> u64 \<Rightarrow> header_store \<Rightarrow> (bool \<times> avmf_region \<times> header_store) option" where
  "avmf_link_header r h H =
     (if h = NULL \<or> \<not> region_ok r then Some (False, r, H)
      else do {
        hd0 \<leftarrow> H h;
        let hd = hd0\<lparr> h_next := NULL, h_parent := NULL \<rparr>;
        let H0 = H(h \<mapsto> hd);
        let typ = h_type hd;
        if typ = AVMF_HDR_TYPE_CORRUPT then Some (False, r, H0)
        else if hdr_count typ r < 1 \<or> hdr_list typ r = NULL then Some (True, reset_list typ h r, H0)
        else do {
          proper \<leftarrow> (if hdr_end typ r = NULL then Some False
            else do { c \<leftarrow> H0 (hdr_end typ r);
                      Some (\<not> header_bad c \<and> h_type c \<noteq> AVMF_HDR_TYPE_CORRUPT) });
          if \<not> proper then do {
            (r1, H1) \<leftarrow> link_search (unat (hdr_count typ r)) 0 typ h NULL (hdr_list typ r)
                          (set_hdr_end typ h r) H0;
            Some (True, r1, H1) }
          else do {
            let c = hdr_end typ r;
            cd \<leftarrow> H0 c;
            let H1 = H0(c \<mapsto> cd\<lparr> h_next := h \<rparr>);
            hd1 \<leftarrow> H1 h;
            Some (True, set_hdr_count typ (hdr_count typ r + 1) r, H1(h \<mapsto> hd1\<lparr> h_parent := c \<rparr>)) } } })"

subsection \<open>The list behind the pointers\<close>

text \<open>\<open>hdr_seg H p hs q\<close>: from \<open>p\<close> the \<open>next\<close> pointers go through \<open>hs\<close> and end at \<open>q\<close>.\<close>

fun hdr_seg :: "header_store \<Rightarrow> u64 \<Rightarrow> u64 list \<Rightarrow> u64 \<Rightarrow> bool" where
  "hdr_seg H p [] q \<longleftrightarrow> p = q"
| "hdr_seg H p (h # hs) q \<longleftrightarrow> p = h \<and> h \<noteq> NULL \<and> (\<exists>d. H h = Some d \<and> hdr_seg H (h_next d) hs q)"

lemma hdr_seg_append: "hdr_seg H p (hs @ ks) q \<longleftrightarrow> (\<exists>m. hdr_seg H p hs m \<and> hdr_seg H m ks q)"
  by (induction hs arbitrary: p) auto

lemma hdr_seg_upd: "a \<notin> set hs \<Longrightarrow> hdr_seg (H(a \<mapsto> d)) p hs q = hdr_seg H p hs q"
  by (induction hs arbitrary: p) auto

lemma hdr_seg_upd_same_next:
  "H a = Some d0 \<Longrightarrow> h_next d = h_next d0 \<Longrightarrow> hdr_seg (H(a \<mapsto> d)) p hs q = hdr_seg H p hs q"
  by (induction hs arbitrary: p) auto

lemma hdr_set [simp]:
  "typ \<noteq> AVMF_HDR_TYPE_CORRUPT \<Longrightarrow> hdr_list typ (set_hdr_list typ v r) = v"
  "typ \<noteq> AVMF_HDR_TYPE_CORRUPT \<Longrightarrow> hdr_count typ (set_hdr_count typ n r) = n"
  "typ \<noteq> AVMF_HDR_TYPE_CORRUPT \<Longrightarrow> hdr_end typ (set_hdr_end typ v r) = v"
  "hdr_list typ (set_hdr_count typ n r) = hdr_list typ r"
  "hdr_list typ (set_hdr_end typ v r) = hdr_list typ r"
  "hdr_end typ (set_hdr_count typ n r) = hdr_end typ r"
  "hdr_end typ (set_hdr_list typ v r) = hdr_end typ r"
  "hdr_count typ (set_hdr_end typ v r) = hdr_count typ r"
  "hdr_count typ (set_hdr_list typ v r) = hdr_count typ r"
  by (cases "typ"; simp)+

lemma region_ok_set [simp]:
  "region_ok (set_hdr_list typ v r) = region_ok r" "region_ok (set_hdr_count typ n r) = region_ok r"
  "region_ok (set_hdr_end typ v r) = region_ok r"
  by (cases "typ"; simp add: region_ok_def)+

text \<open>
  The list of kind \<open>typ\<close> in the region \<open>r\<close>: its nodes are \<open>hs\<close>, they are headers that pass
  the checks, and the end pointer stands on one of them.
\<close>

definition hdr_list_ok :: "avmf_header_type \<Rightarrow> avmf_region \<Rightarrow> header_store \<Rightarrow> u64 list \<Rightarrow> bool" where
  "hdr_list_ok typ r H hs \<longleftrightarrow>
     hdr_seg H (hdr_list typ r) hs NULL \<and> distinct hs \<and>
     (\<forall>h \<in> set hs. \<exists>d. H h = Some d \<and> \<not> header_bad d \<and> h_type d = typ)"

text \<open>Linking into an empty list makes the list of the header alone.\<close>

lemma link_header_empty:
  assumes r: "region_ok r" "hdr_count typ r = 0 \<or> hdr_list typ r = NULL"
    and h: "H h = Some hr" "h \<noteq> NULL" "h_type hr = typ" "typ \<noteq> AVMF_HDR_TYPE_CORRUPT" "\<not> header_bad hr"
  shows "\<exists>r' H'. avmf_link_header r h H = Some (True, r', H') \<and> hdr_list_ok typ r' H' [h] \<and>
    hdr_count typ r' = 1 \<and> hdr_end typ r' = h \<and> region_ok r' \<and> (\<forall>p. p \<noteq> h \<longrightarrow> H' p = H p)"
proof -
  let ?hr = "hr\<lparr> h_next := NULL, h_parent := NULL \<rparr>"
  have "avmf_link_header r h H = Some (True, reset_list typ h r, H(h \<mapsto> ?hr))"
    using r h by (auto simp: avmf_link_header_def Let_def word_less_nat_alt unat_eq_0)
  moreover have "hdr_list_ok typ (reset_list typ h r) (H(h \<mapsto> ?hr)) [h]"
    using h by (simp add: hdr_list_ok_def reset_list_def header_bad_def)
  ultimately show ?thesis using h(4) r(1) by (simp add: reset_list_def)
qed

text \<open>
  Linking into a list whose end pointer stands on the node \<open>e\<close>: the new header comes right
  after \<open>e\<close>, what followed \<open>e\<close> leaves the list, the count grows and the end pointer stays.
\<close>

lemma link_header_after_end:
  assumes r: "region_ok r" "hdr_list_ok typ r H (us @ e # vs)" "hdr_end typ r = e" "hdr_count typ r \<noteq> 0"
    and h: "H h = Some hr" "h \<noteq> NULL" "h_type hr = typ" "typ \<noteq> AVMF_HDR_TYPE_CORRUPT" "\<not> header_bad hr"
      "h \<notin> set (us @ e # vs)"
  shows "\<exists>r' H'. avmf_link_header r h H = Some (True, r', H') \<and> hdr_list_ok typ r' H' (us @ [e, h]) \<and>
    hdr_count typ r' = hdr_count typ r + 1 \<and> hdr_end typ r' = e \<and> region_ok r' \<and>
    (\<forall>p. p \<notin> {h, e} \<longrightarrow> H' p = H p)"
proof -
  let ?hr = "hr\<lparr> h_next := NULL, h_parent := NULL \<rparr>"
  let ?H0 = "H(h \<mapsto> ?hr)"
  obtain ed where e: "H e = Some ed" "\<not> header_bad ed" "h_type ed = typ" "e \<noteq> NULL"
    "hdr_seg H (hdr_list typ r) us e"
    using r(2) by (auto simp: hdr_list_ok_def hdr_seg_append)
  have he: "h \<noteq> e" using h(6) by auto
  have hl: "hdr_list typ r \<noteq> NULL" using e(4,5) by (cases us) auto
  let ?H1 = "?H0(e \<mapsto> ed\<lparr> h_next := h \<rparr>)"
  let ?H2 = "?H1(h \<mapsto> ?hr\<lparr> h_parent := e \<rparr>)"
  have "avmf_link_header r h H = Some (True, set_hdr_count typ (hdr_count typ r + 1) r, ?H2)"
    using r h e he hl by (auto simp: avmf_link_header_def Let_def word_less_nat_alt unat_eq_0 hdr_list_ok_def)
  moreover have "hdr_list_ok typ (set_hdr_count typ (hdr_count typ r + 1) r) ?H2 (us @ [e, h])"
  proof -
    have nin: "e \<notin> set us" "h \<notin> set us" using r(2) h(6) by (auto simp: hdr_list_ok_def)
    have "hdr_seg ?H2 (hdr_list typ r) us e"
      using e(5) nin by (simp add: hdr_seg_upd)
    moreover have "\<forall>a \<in> set (us @ [e, h]). \<exists>d. ?H2 a = Some d \<and> \<not> header_bad d \<and> h_type d = typ"
      using r(2) e h he nin by (auto simp: hdr_list_ok_def header_bad_def)
    moreover have "distinct (us @ [e, h])" using r(2) h(6) by (auto simp: hdr_list_ok_def)
    ultimately show ?thesis using e h he by (simp add: hdr_list_ok_def hdr_seg_append)
  qed
  ultimately show ?thesis using h(4) r(1,3) he by simp
qed

text \<open>\<open>avmf_link_header\<close> does not move the end pointer when it appends, so of three headers linked into an empty list the second is lost: the list holds the first and the third, and the count says 3.\<close>

lemma avmf_link_header_third_drops_second:
  assumes r: "region_ok r" "hdr_count typ r = 0" and t: "typ \<noteq> AVMF_HDR_TYPE_CORRUPT"
    and h: "\<forall>h \<in> {a, b, c}. h \<noteq> NULL \<and> (\<exists>d. H h = Some d \<and> \<not> header_bad d \<and> h_type d = typ)"
    and ne: "a \<noteq> b" "a \<noteq> c" "b \<noteq> c"
  shows "\<exists>r1 H1 r2 H2 r3 H3. avmf_link_header r a H = Some (True, r1, H1) \<and>
    avmf_link_header r1 b H1 = Some (True, r2, H2) \<and> hdr_list_ok typ r2 H2 [a, b] \<and> hdr_count typ r2 = 2 \<and>
    avmf_link_header r2 c H2 = Some (True, r3, H3) \<and> hdr_list_ok typ r3 H3 [a, c] \<and> hdr_count typ r3 = 3"
proof -
  obtain da db dc where d: "H a = Some da" "\<not> header_bad da" "h_type da = typ"
    "H b = Some db" "\<not> header_bad db" "h_type db = typ"
    "H c = Some dc" "\<not> header_bad dc" "h_type dc = typ" and n: "a \<noteq> NULL" "b \<noteq> NULL" "c \<noteq> NULL"
    using h by auto
  from link_header_empty [where H = H and h = a and hr = da, OF r(1) _ d(1) n(1) d(3) t d(2)] r(2) obtain r1 H1 where
    1: "avmf_link_header r a H = Some (True, r1, H1)" "hdr_list_ok typ r1 H1 ([] @ a # [])"
      "hdr_count typ r1 = 1" "hdr_end typ r1 = a" "region_ok r1" "\<forall>p. p \<noteq> a \<longrightarrow> H1 p = H p" by auto
  have b1: "H1 b = Some db" "H1 c = Some dc" using 1(6) d ne by auto
  have nb: "b \<notin> set ([] @ a # [])" using ne by simp
  have c1: "hdr_count typ r1 \<noteq> 0" using 1(3) by simp
  from link_header_after_end [where H = H1 and h = b and hr = db, OF 1(5,2,4) c1 b1(1) n(2) d(6) t d(5) nb] obtain r2 H2 where
    2: "avmf_link_header r1 b H1 = Some (True, r2, H2)" "hdr_list_ok typ r2 H2 ([] @ a # [b])"
      "hdr_count typ r2 = 2" "hdr_end typ r2 = a" "region_ok r2" "\<forall>p. p \<notin> {b, a} \<longrightarrow> H2 p = H1 p"
    using 1(3) by auto
  have c2: "H2 c = Some dc" using 2(6) b1(2) ne by auto
  have nc: "c \<notin> set ([] @ a # [b])" using ne by auto
  have k2: "hdr_count typ r2 \<noteq> 0" using 2(3) by simp
  from link_header_after_end [where H = H2 and h = c and hr = dc, OF 2(5,2,4) k2 c2 n(3) d(9) t d(8) nc] obtain r3 H3 where
    3: "avmf_link_header r2 c H2 = Some (True, r3, H3)" "hdr_list_ok typ r3 H3 ([] @ [a, c])"
      "hdr_count typ r3 = 3"
    using 2(3) by auto
  show ?thesis using 1(1) 2(1-3) 3 by auto
qed

end
