(* ===== verification/Avmf.thy ===== *)
theory Avmf
  imports AvmfPhys AvmfRange AvmfHeader
begin

text \<open>
  The allocator of \<^verbatim>\<open>Kernel/mm/avmf.c\<close>: the pages that headers and ranges come from, the
  virtual regions, \<open>avmf_region_alloc\<close> and \<open>avmf_region_free\<close>, and the operations other
  components call. The pager is below this component and above it: \<open>pager_map\<close> and
  \<open>pager_unmap\<close> are arguments here and are supplied by the theory of the pager.

  The \<open>for\<close> loops over header lists run on the state they change, so they are partial
  functions. Locks are taken and released within one operation and have no other effect.
\<close>

abbreviation AOS_USER_SPACE_BASE :: u64 where "AOS_USER_SPACE_BASE \<equiv> 0x1000"
abbreviation AOS_USER_SPACE_BASE_END :: u64 where "AOS_USER_SPACE_BASE_END \<equiv> 0x20000000"
abbreviation AOS_DIRECT_MAP_BASE :: u64 where "AOS_DIRECT_MAP_BASE \<equiv> 0xFFFF800000000000"
abbreviation AOS_KERNEL_SPACE_BASE :: u64 where "AOS_KERNEL_SPACE_BASE \<equiv> 0xFFFFA00000000000"
abbreviation AOS_DRIVER_SPACE_BASE :: u64 where "AOS_DRIVER_SPACE_BASE \<equiv> 0xFFFFC00000000000"
abbreviation AOS_SENSITIVE_SPACE_BASE :: u64 where "AOS_SENSITIVE_SPACE_BASE \<equiv> 0xFFFFE00000000000"
abbreviation AOS_SENSITIVE_SPACE_BASE_END :: u64 where "AOS_SENSITIVE_SPACE_BASE_END \<equiv> 0xFFFFF00000000000"

text \<open>\<open>pager_map virt phys flags\<close> gives a pointer, \<open>NULL\<close> on failure.\<close>

type_synonym 'a pager_map_fn =
  "u64 \<Rightarrow> u64 \<Rightarrow> u64 \<Rightarrow> 'a avmf_scheme \<Rightarrow> (u64 \<times> 'a avmf_scheme) option"
type_synonym 'a pager_unmap_fn = "u64 \<Rightarrow> 'a avmf_scheme \<Rightarrow> 'a avmf_scheme option"

text \<open>\<open>pager_map_range\<close> of \<^verbatim>\<open>Kernel/mm/pager.c\<close>, which only calls \<open>pager_map\<close>.\<close>

partial_function (option) pager_map_range_loop ::
  "'a pager_map_fn \<Rightarrow> u64 \<Rightarrow> u64 \<Rightarrow> u64 \<Rightarrow> u64 \<Rightarrow> u64 \<Rightarrow> 'a avmf_scheme \<Rightarrow> 'a avmf_scheme option" where
  "pager_map_range_loop pmap offset virt phys len flags s =
     (if offset < len then
        (if 0x200000 \<le> len - offset \<and> (virt + offset) mod 0x200000 = 0 \<and> (phys + offset) mod 0x200000 = 0
         then do { (_, s1) \<leftarrow> pmap (virt + offset) (phys + offset) (flags OR PAGE_HUGE) s;
                   pager_map_range_loop pmap (offset + 0x200000) virt phys len flags s1 }
         else do { (_, s1) \<leftarrow> pmap (virt + offset) (phys + offset) flags s;
                   pager_map_range_loop pmap (offset + PAGE_SIZE) virt phys len flags s1 })
      else Some s)"

definition pager_map_range ::
  "'a pager_map_fn \<Rightarrow> u64 \<Rightarrow> u64 \<Rightarrow> u64 \<Rightarrow> u64 \<Rightarrow> 'a avmf_scheme \<Rightarrow> 'a avmf_scheme option" where
  "pager_map_range pmap virt phys len flags s = pager_map_range_loop pmap 0 virt phys len flags s"

subsection \<open>Pages of headers and of ranges\<close>

definition zero_header :: avmf_header where
  "zero_header = \<lparr> h_signature = 0, h_version = 0, h_type = AVMF_HDR_TYPE_CORRUPT, virt_addr = 0,
     phys_addr = 0, h_size = 0, used = False, h_flags = 0, h_attributes = 0, h_next = 0, h_parent = 0 \<rparr>"

definition zero_range :: avmf_range where
  "zero_range = \<lparr> r_base = 0, r_size = 0, r_next = 0 \<rparr>"

text \<open>The slots of a page that \<open>memset\<close> makes zero objects, 56 headers or 170 ranges.\<close>

definition header_slots :: "u64 \<Rightarrow> u64 list" where
  "header_slots page = map (\<lambda>i. page + sizeof_avmf_header * of_nat i) [0..<56]"

definition range_slots :: "u64 \<Rightarrow> u64 list" where
  "range_slots page = map (\<lambda>i. page + sizeof_avmf_range * of_nat i) [0..<170]"

fun try_alloc_page :: "nat \<Rightarrow> 'a avmf_scheme \<Rightarrow> (u64 \<times> 'a avmf_scheme) option" where
  "try_alloc_page 0 s = Some (0, s)"
| "try_alloc_page (Suc n) s =
     do { (p, s1) \<leftarrow> avmf_alloc_phys_page s; if p \<noteq> 0 then Some (p, s1) else try_alloc_page n s1 }"

text \<open>A page for headers or ranges, through the direct map; \<open>NULL\<close> when there is none.\<close>

definition alloc_object_page :: "'a pager_map_fn \<Rightarrow> 'a avmf_scheme \<Rightarrow> (u64 \<times> 'a avmf_scheme) option" where
  "alloc_object_page pmap s =
     do {
       (page_ptr, s1) \<leftarrow> try_alloc_page 3 s;
       if page_ptr = 0 then Some (NULL, s1)
       else do {
         (tbl, s2) \<leftarrow> pmap (AOS_DIRECT_MAP_BASE + page_ptr) page_ptr
                         (PAGE_RW OR PAGE_PCD OR PAGE_PRESENT) s1;
         if tbl = NULL then do { s3 \<leftarrow> avmf_free_phys_page page_ptr s2; Some (NULL, s3) }
         else Some (AOS_DIRECT_MAP_BASE + page_ptr, s2) } }"

definition avmf_alloc_ihdr :: "'a pager_map_fn \<Rightarrow> 'a avmf_scheme \<Rightarrow> (u64 \<times> 'a avmf_scheme) option" where
  "avmf_alloc_ihdr pmap s =
     (if sizeof_avmf_header \<le> ihdr_cpage_remaining s \<and> ihdr_cpage s \<noteq> NULL then
        Some (ihdr_cpage s + (PAGE_SIZE - ihdr_cpage_remaining s),
              s\<lparr> ihdr_cpage_remaining := ihdr_cpage_remaining s - sizeof_avmf_header \<rparr>)
      else do {
        (page, s1) \<leftarrow> alloc_object_page pmap s;
        if page = NULL then Some (NULL, s1)
        else Some (page, s1\<lparr> ihdr_cpage := page,
               headers := headers s1 ++ map_of (map (\<lambda>a. (a, zero_header)) (header_slots page)),
               ihdr_cpage_remaining := PAGE_SIZE - sizeof_avmf_header \<rparr>) })"

definition avmf_free_ihdr :: "u64 \<Rightarrow> 'a avmf_scheme \<Rightarrow> 'a avmf_scheme" where
  "avmf_free_ihdr h s =
     (if h \<noteq> NULL \<and> h = ihdr_cpage s \<and> ihdr_cpage_remaining s = PAGE_SIZE - sizeof_avmf_header
      then s\<lparr> ihdr_cpage_remaining := PAGE_SIZE \<rparr> else s)"

definition avmf_alloc_irange :: "'a pager_map_fn \<Rightarrow> 'a avmf_scheme \<Rightarrow> (u64 \<times> 'a avmf_scheme) option" where
  "avmf_alloc_irange pmap s =
     (if sizeof_avmf_range \<le> irange_cpage_remaining s \<and> irange_cpage s \<noteq> NULL then
        Some (irange_cpage s + (PAGE_SIZE - irange_cpage_remaining s),
              s\<lparr> irange_cpage_remaining := irange_cpage_remaining s - sizeof_avmf_range \<rparr>)
      else do {
        (page, s1) \<leftarrow> alloc_object_page pmap s;
        if page = NULL then Some (NULL, s1)
        else Some (page, s1\<lparr> irange_cpage := page,
               ranges := ranges s1 ++ map_of (map (\<lambda>a. (a, zero_range)) (range_slots page)),
               irange_cpage_remaining := PAGE_SIZE - sizeof_avmf_range \<rparr>) })"

definition avmf_free_irange :: "u64 \<Rightarrow> 'a avmf_scheme \<Rightarrow> 'a avmf_scheme" where
  "avmf_free_irange h s =
     (if h \<noteq> NULL \<and> h = irange_cpage s \<and> irange_cpage_remaining s = PAGE_SIZE - sizeof_avmf_range
      then s\<lparr> irange_cpage_remaining := PAGE_SIZE \<rparr> else s)"

subsection \<open>Regions\<close>

definition AVMF_FLAG_RW :: u32 where "AVMF_FLAG_RW = 3"
definition AVMF_FLAG_USERMODE :: u32 where "AVMF_FLAG_USERMODE = 8"

definition avmf_convert_flags_to_pager_flags :: "u32 \<Rightarrow> u64" where
  "avmf_convert_flags_to_pager_flags flags =
     (let out0 = PAGE_XD;
          out1 = (if flags AND 0x2 \<noteq> 0 \<or> flags AND 0x1 \<noteq> 0 then out0 OR PAGE_RW else out0);
          out2 = (if flags AND 0x4 \<noteq> 0 then out1 AND NOT PAGE_XD else out1);
          out3 = (if flags AND 0x10 \<noteq> 0 then out2 OR PAGE_PCD else out2);
          out4 = (if flags AND 0x8 \<noteq> 0 then out3 OR PAGE_USER else out3);
          out5 = (if flags AND 0x20 \<noteq> 0 then out4 OR PAGE_GLOBAL else out4)
      in if flags AND 0x40 \<noteq> 0 then out5 OR PAGE_DIRTY else out5)"

text \<open>A pointer to a region is the index of the region; \<open>best_score\<close> is never assigned.\<close>

definition region_score :: "avmf_region \<Rightarrow> u64 \<Rightarrow> u64 \<Rightarrow> u64 \<Rightarrow> u64" where
  "region_score r min_virt max_virt min_size =
     (if max_virt < limit r then 1000
      else if limit r = max_virt then 100
      else if min_size + min_virt < limit r then 10
      else 0)"

fun find_region_loop ::
  "nat list \<Rightarrow> u64 \<Rightarrow> u64 \<Rightarrow> u64 \<Rightarrow> nat option \<Rightarrow> u64 \<Rightarrow> 'a avmf_scheme \<Rightarrow> nat option option" where
  "find_region_loop [] min_virt max_virt min_size best best_score s = Some best"
| "find_region_loop (i # is) min_virt max_virt min_size best best_score s =
     (if length (regions s) \<le> i then None
      else let r = regions s ! i in
        if \<not> region_ok r \<or> min_virt < base r
        then find_region_loop is min_virt max_virt min_size best best_score s
        else find_region_loop is min_virt max_virt min_size
               (if best_score < region_score r min_virt max_virt min_size then Some i else best) best_score s)"

definition avmf_find_region :: "u64 \<Rightarrow> u64 \<Rightarrow> u64 \<Rightarrow> 'a avmf_scheme \<Rightarrow> nat option option" where
  "avmf_find_region min_virt max_virt min_size s =
     find_region_loop [0..<unat (region_count s)] min_virt max_virt min_size None 0 s"

text \<open>Operations on the region with index \<open>i\<close> of the state.\<close>

definition upd_region :: "nat \<Rightarrow> (avmf_region \<Rightarrow> avmf_region) \<Rightarrow> 'a avmf_scheme \<Rightarrow> 'a avmf_scheme" where
  "upd_region i f s = s\<lparr> regions := (regions s)[i := f (regions s ! i)] \<rparr>"

definition upd_header :: "u64 \<Rightarrow> (avmf_header \<Rightarrow> avmf_header) \<Rightarrow> 'a avmf_scheme \<Rightarrow> 'a avmf_scheme option" where
  "upd_header h f s = do { hd \<leftarrow> headers s h; Some (s\<lparr> headers := (headers s)(h \<mapsto> f hd) \<rparr>) }"

definition upd_range :: "u64 \<Rightarrow> (avmf_range \<Rightarrow> avmf_range) \<Rightarrow> 'a avmf_scheme \<Rightarrow> 'a avmf_scheme option" where
  "upd_range p f s = do { rd \<leftarrow> ranges s p; Some (s\<lparr> ranges := (ranges s)(p \<mapsto> f rd) \<rparr>) }"

definition unlink_in :: "nat \<Rightarrow> u64 \<Rightarrow> 'a avmf_scheme \<Rightarrow> 'a avmf_scheme option" where
  "unlink_in i h s =
     do { (r, H) \<leftarrow> avmf_unlink_header (regions s ! i) h (headers s);
          Some (upd_region i (\<lambda>_. r) (s\<lparr> headers := H \<rparr>)) }"

definition link_in :: "nat \<Rightarrow> u64 \<Rightarrow> 'a avmf_scheme \<Rightarrow> (bool \<times> 'a avmf_scheme) option" where
  "link_in i h s =
     do { (ok, r, H) \<leftarrow> avmf_link_header (regions s ! i) h (headers s);
          Some (ok, upd_region i (\<lambda>_. r) (s\<lparr> headers := H \<rparr>)) }"

definition append_in :: "nat \<Rightarrow> u64 \<Rightarrow> 'a avmf_scheme \<Rightarrow> (bool \<times> 'a avmf_scheme) option" where
  "append_in i p s =
     do { (ok, r, R) \<leftarrow> avmf_free_list_append (regions s ! i) p (ranges s);
          Some (ok, upd_region i (\<lambda>_. r) (s\<lparr> ranges := R \<rparr>)) }"

definition avmf_region_init :: "u64 \<Rightarrow> u64 \<Rightarrow> 'a avmf_scheme \<Rightarrow> (avmf_region \<times> 'a avmf_scheme) option" where
  "avmf_region_init b l s =
     (if static_ranges_count s < AVMF_STATIC_RANGE_SIZE then
        let p = static_ranges s + sizeof_avmf_range * static_ranges_count s in
        Some (\<lparr> signature = AVMF_SIGNATURE, version = AVMF_VERSION, base = b, limit = l,
                 allocated_bytes = 0, free_list = p, free_count = 1, free_list_end = p,
                 alloc_list = NULL, alloc_count = 0, alloc_list_end = NULL,
                 cache_list = NULL, cache_count = 0, cache_list_end = NULL \<rparr>,
              s\<lparr> static_ranges_count := static_ranges_count s + 1,
                 ranges := (ranges s)(p \<mapsto> \<lparr> r_base = b, r_size = l - b, r_next = NULL \<rparr>) \<rparr>)
      else None)"

subsection \<open>Allocation in a region: the cache\<close>

definition new_alloc_header :: "u64 \<Rightarrow> u64 \<Rightarrow> u64 \<Rightarrow> avmf_header" where
  "new_alloc_header virt phys n = zero_header\<lparr> h_signature := AVMF_SIGNATURE,
     h_version := AVMF_VERSION, h_type := AVMF_HDR_TYPE_ALLOC, virt_addr := virt,
     phys_addr := phys, h_size := n, used := True \<rparr>"

text \<open>The ends of one round of the loop: return a header, go on with a header, or leave.\<close>

datatype cache_step = Found u64 | Continue u64 | Leave

definition after_corrupt :: "u64 \<Rightarrow> 'a avmf_scheme \<Rightarrow> (cache_step \<times> 'a avmf_scheme) option" where
  "after_corrupt n s =
     (if n = NULL then Some (Leave, s)
      else do { nd \<leftarrow> headers s n;
                Some (if h_type nd \<noteq> AVMF_HDR_TYPE_CACHE then Leave else Continue n, s) })"

text \<open>The rest of a cache header that became too small goes to the free list.\<close>

definition shrink_cache :: "'a pager_map_fn \<Rightarrow> nat \<Rightarrow> u64 \<Rightarrow> u64 \<Rightarrow> 'a avmf_scheme \<Rightarrow> 'a avmf_scheme option" where
  "shrink_cache pmap i c n s =
     do {
       s1 \<leftarrow> upd_header c (\<lambda>cd. cd\<lparr> h_size := h_size cd - n, virt_addr := virt_addr cd + n,
                                    phys_addr := phys_addr cd + n \<rparr>) s;
       cd \<leftarrow> headers s1 c;
       if h_size cd < 0x200 then do {
         (rng, s2) \<leftarrow> avmf_alloc_irange pmap s1;
         if rng = NULL then Some s2
         else do {
           s3 \<leftarrow> upd_range rng (\<lambda>rd. rd\<lparr> r_base := virt_addr cd, r_size := h_size cd \<rparr>) s2;
           (ok, s4) \<leftarrow> append_in i rng s3;
           if \<not> ok then Some (avmf_free_irange rng s4)
           else unlink_in i c (upd_region i (\<lambda>r. r\<lparr> allocated_bytes := allocated_bytes r - h_size cd \<rparr>) s4) } }
       else Some s1 }"

definition cache_round ::
  "'a pager_map_fn \<Rightarrow> nat \<Rightarrow> u64 \<Rightarrow> u64 \<Rightarrow> u64 \<Rightarrow> u64 \<Rightarrow> u64 \<Rightarrow> 'a avmf_scheme \<Rightarrow>
   (cache_step \<times> 'a avmf_scheme) option" where
  "cache_round pmap i n align min_virt max_virt c s =
     do {
       cd \<leftarrow> headers s c;
       let nxt = h_next cd;
       if h_type cd = AVMF_HDR_TYPE_CORRUPT then after_corrupt nxt s
       else if h_type cd \<noteq> AVMF_HDR_TYPE_CACHE then do { s1 \<leftarrow> unlink_in i c s; after_corrupt nxt s1 }
       else if header_bad cd then do { s1 \<leftarrow> unlink_in i c s; after_corrupt nxt s1 }
       else if 0 < min_virt \<and> virt_addr cd < min_virt then Some (Continue nxt, s)
       else if 0 < max_virt \<and> (max_virt < virt_addr cd \<or> max_virt - virt_addr cd < n)
       then Some (Continue nxt, s)
       else if align = 0 then Some (Continue nxt, s)
       else if h_size cd = n \<and> virt_addr cd mod align = 0 then do {
         s1 \<leftarrow> unlink_in i c s;
         s2 \<leftarrow> upd_header c (\<lambda>cd. cd\<lparr> h_type := AVMF_HDR_TYPE_ALLOC \<rparr>) s1;
         (ok, s3) \<leftarrow> link_in i c s2;
         if \<not> ok then Some (Continue nxt, s3)
         else do { s4 \<leftarrow> upd_header c (\<lambda>cd. cd\<lparr> used := True \<rparr>) s3; Some (Found c, s4) } }
       else if n < h_size cd \<and> virt_addr cd mod align = 0 then do {
         (hdr, s1) \<leftarrow> avmf_alloc_ihdr pmap s;
         if hdr = NULL then Some (Continue nxt, s1)
         else do {
           cd1 \<leftarrow> headers s1 c;
           s2 \<leftarrow> upd_header hdr (\<lambda>_. new_alloc_header (virt_addr cd1) (phys_addr cd1) n) s1;
           (ok, s3) \<leftarrow> link_in i hdr s2;
           if \<not> ok then Some (Continue nxt, avmf_free_ihdr hdr s3)
           else do { s4 \<leftarrow> shrink_cache pmap i c n s3; Some (Found hdr, s4) } } }
       else Some (Continue c, s) }"

partial_function (option) cache_loop ::
  "'a pager_map_fn \<Rightarrow> nat \<Rightarrow> u64 \<Rightarrow> u64 \<Rightarrow> u64 \<Rightarrow> u64 \<Rightarrow> u64 \<Rightarrow> u64 \<Rightarrow> 'a avmf_scheme \<Rightarrow>
   (u64 \<times> 'a avmf_scheme) option" where
  "cache_loop pmap i n align min_virt max_virt k c s =
     (if k < cache_count (regions s ! i) \<and> c \<noteq> NULL then do {
        (st, s1) \<leftarrow> cache_round pmap i n align min_virt max_virt c s;
        case st of
          Found h \<Rightarrow> Some (h, s1)
        | Continue c1 \<Rightarrow> cache_loop pmap i n align min_virt max_virt (k + 1) c1 s1
        | Leave \<Rightarrow> Some (NULL, s1) }
      else Some (NULL, s))"

subsection \<open>Allocation in a region: the free list\<close>

text \<open>
  Where the allocation would start in a free range: the range's base raised to \<open>min_virt\<close>
  and to the alignment. \<open>None\<close> in the inner option is a \<open>goto next_free\<close>.
\<close>

definition range_start :: "avmf_range \<Rightarrow> u64 \<Rightarrow> u64 \<Rightarrow> u64" where
  "range_start c align min_virt =
     (let b = (if r_base c < min_virt then min_virt else r_base c)
      in if b mod align \<noteq> 0 then b + (align - b mod align) else b)"

definition place_in_range :: "avmf_range \<Rightarrow> u64 \<Rightarrow> u64 \<Rightarrow> u64 \<Rightarrow> u64 \<Rightarrow> u64 option" where
  "place_in_range c n align min_virt max_virt =
     (if r_size c = 0 \<or> UINT64_MAX - r_size c < r_base c \<or> align = 0 then None
      else
        let range_end = r_base c + r_size c;
            b1 = range_start c align min_virt
        in if b1 < r_base c \<or> range_end < b1 \<or> range_end - b1 < n then None
           else if max_virt \<noteq> 0 \<and> (max_virt < b1 \<or> max_virt - b1 < n) then None
           else Some b1)"

text \<open>
  Taking \<open>n\<close> bytes at \<open>b\<close> out of the first range \<open>cur\<close> of region \<open>i\<close>: \<open>False\<close> when no
  range object can be had for the suffix.
\<close>

definition carve_range ::
  "'a pager_map_fn \<Rightarrow> nat \<Rightarrow> u64 \<Rightarrow> u64 \<Rightarrow> u64 \<Rightarrow> u64 \<Rightarrow> 'a avmf_scheme \<Rightarrow> (bool \<times> 'a avmf_scheme) option" where
  "carve_range pmap i cur range_end b n s =
     do {
       c \<leftarrow> ranges s cur;
       let prefix = b - r_base c;
       let suffix = range_end - (b + n);
       if prefix = 0 \<and> suffix = 0 then
         Some (True, avmf_free_irange cur (upd_region i (\<lambda>r. r\<lparr> free_list := r_next c,
           free_list_end := (if free_list_end r = cur then NULL else free_list_end r),
           free_count := (if 0 < free_count r then free_count r - 1 else free_count r) \<rparr>) s))
       else if prefix = 0 then do {
         s1 \<leftarrow> upd_range cur (\<lambda>c. c\<lparr> r_base := b + n, r_size := suffix \<rparr>) s; Some (True, s1) }
       else if suffix = 0 then do {
         s1 \<leftarrow> upd_range cur (\<lambda>c. c\<lparr> r_size := prefix \<rparr>) s; Some (True, s1) }
       else do {
         (sr, s1) \<leftarrow> avmf_alloc_irange pmap s;
         if sr = NULL then Some (False, s1)
         else do {
           c1 \<leftarrow> ranges s1 cur;
           s2 \<leftarrow> upd_range sr (\<lambda>_. \<lparr> r_base = b + n, r_size = suffix, r_next = r_next c1 \<rparr>) s1;
           s3 \<leftarrow> upd_range cur (\<lambda>c. c\<lparr> r_size := prefix, r_next := sr \<rparr>) s2;
           Some (True, upd_region i (\<lambda>r. r\<lparr>
             free_list_end := (if free_list_end r = cur then sr else free_list_end r),
             free_count := free_count r + 1 \<rparr>) s3) } } }"

text \<open>
  The loop over the free list. The label \<open>next_free\<close>, which would step to the next range,
  stands behind the loop's closing brace, so the loop body runs for the first range only.
\<close>

definition alloc_from_free_list ::
  "'a pager_map_fn \<Rightarrow> nat \<Rightarrow> u64 \<Rightarrow> u64 \<Rightarrow> u64 \<Rightarrow> u64 \<Rightarrow> 'a avmf_scheme \<Rightarrow> (u64 \<times> 'a avmf_scheme) option" where
  "alloc_from_free_list pmap i n align min_virt max_virt s =
     (let r = regions s ! i; cur = free_list r in
      if \<not> (0 < free_count r \<and> cur \<noteq> NULL) then Some (NULL, s)
      else do {
        c \<leftarrow> ranges s cur;
        case place_in_range c n align min_virt max_virt of
          None \<Rightarrow> Some (NULL, s)
        | Some b \<Rightarrow> do {
            (hdr, s1) \<leftarrow> avmf_alloc_ihdr pmap s;
            if hdr = NULL then Some (NULL, s1)
            else do {
              s2 \<leftarrow> upd_header hdr (\<lambda>_. new_alloc_header b 0 n) s1;
              (carved, s3) \<leftarrow> carve_range pmap i cur (r_base c + r_size c) b n s2;
              if \<not> carved then Some (NULL, avmf_free_ihdr hdr s3)
              else do {
                (ok, s4) \<leftarrow> link_in i hdr s3;
                if ok then Some (hdr, upd_region i (\<lambda>r. r\<lparr> allocated_bytes := allocated_bytes r + n \<rparr>) s4)
                else do {
                  (rollback, s5) \<leftarrow> avmf_alloc_irange pmap s4;
                  if rollback = NULL then Some (NULL, avmf_free_ihdr hdr s5)
                  else do {
                    s6 \<leftarrow> upd_range rollback (\<lambda>rd. rd\<lparr> r_base := b, r_size := n \<rparr>) s5;
                    (ok2, s7) \<leftarrow> append_in i rollback s6;
                    Some (NULL, avmf_free_ihdr hdr (if ok2 then s7 else avmf_free_irange rollback s7)) } } } } } })"

definition avmf_region_alloc ::
  "'a pager_map_fn \<Rightarrow> nat option \<Rightarrow> u64 \<Rightarrow> u64 \<Rightarrow> u64 \<Rightarrow> u64 \<Rightarrow> 'a avmf_scheme \<Rightarrow> (u64 \<times> 'a avmf_scheme) option" where
  "avmf_region_alloc pmap ro n align min_virt max_virt s =
     (case ro of None \<Rightarrow> Some (NULL, s)
      | Some i \<Rightarrow>
          if \<not> region_ok (regions s ! i) then Some (NULL, s)
          else do {
            (h, s1) \<leftarrow> (if 0 < cache_count (regions s ! i)
               then cache_loop pmap i n align min_virt max_virt 0 (cache_list (regions s ! i)) s
               else Some (NULL, s));
            if h \<noteq> NULL then Some (h, s1)
            else alloc_from_free_list pmap i n align min_virt max_virt s1 })"

subsection \<open>Release in a region\<close>

definition add_to_free_list :: "'a pager_map_fn \<Rightarrow> nat \<Rightarrow> u64 \<Rightarrow> 'a avmf_scheme \<Rightarrow> 'a avmf_scheme option" where
  "add_to_free_list pmap i c s =
     do {
       (rng, s1) \<leftarrow> avmf_alloc_irange pmap s;
       if rng = NULL then Some s1
       else do {
         cd \<leftarrow> headers s1 c;
         s2 \<leftarrow> upd_range rng (\<lambda>_. \<lparr> r_base = virt_addr cd, r_size = h_size cd, r_next = NULL \<rparr>) s1;
         (ok, s3) \<leftarrow> append_in i rng s2;
         if \<not> ok then Some (avmf_free_irange rng s3)
         else do {
           s4 \<leftarrow> unlink_in i c s3;
           s5 \<leftarrow> upd_header c (\<lambda>cd. cd\<lparr> used := False \<rparr>) s4;
           Some (upd_region i (\<lambda>r. r\<lparr> allocated_bytes := allocated_bytes r - h_size cd \<rparr>) s5) } } }"

text \<open>One round of the search for the allocation: \<open>Found\<close> is that it was handled.\<close>

definition after_corrupt_alloc :: "u64 \<Rightarrow> 'a avmf_scheme \<Rightarrow> (cache_step \<times> 'a avmf_scheme) option" where
  "after_corrupt_alloc n s =
     (if n = NULL then Some (Leave, s)
      else do { nd \<leftarrow> headers s n;
                Some (if h_type nd \<noteq> AVMF_HDR_TYPE_ALLOC then Leave else Continue n, s) })"

definition free_round ::
  "'a pager_map_fn \<Rightarrow> nat \<Rightarrow> u64 \<Rightarrow> u64 \<Rightarrow> u64 \<Rightarrow> 'a avmf_scheme \<Rightarrow> (cache_step \<times> 'a avmf_scheme) option" where
  "free_round pmap i b n c s =
     do {
       cd \<leftarrow> headers s c;
       let nxt = h_next cd;
       if h_type cd = AVMF_HDR_TYPE_CORRUPT then after_corrupt_alloc nxt s
       else if header_bad cd \<or> h_type cd \<noteq> AVMF_HDR_TYPE_ALLOC then do {
         s1 \<leftarrow> unlink_in i c s; after_corrupt_alloc nxt s1 }
       else if virt_addr cd \<noteq> b \<or> h_size cd \<noteq> n then Some (Continue nxt, s)
       else if 0x200 < h_size cd then do {
         s1 \<leftarrow> unlink_in i c s;
         s2 \<leftarrow> upd_header c (\<lambda>cd. cd\<lparr> h_type := AVMF_HDR_TYPE_CACHE \<rparr>) s1;
         (ok, s3) \<leftarrow> link_in i c s2;
         if \<not> ok then do { s4 \<leftarrow> add_to_free_list pmap i c s3; Some (Found c, s4) }
         else do {
           s4 \<leftarrow> upd_header c (\<lambda>cd. cd\<lparr> h_type := AVMF_HDR_TYPE_CACHE, used := False \<rparr>) s3;
           Some (Found c, s4) } }
       else do { s1 \<leftarrow> add_to_free_list pmap i c s; Some (Found c, s1) } }"

partial_function (option) region_free_loop ::
  "'a pager_map_fn \<Rightarrow> nat \<Rightarrow> u64 \<Rightarrow> u64 \<Rightarrow> u64 \<Rightarrow> u64 \<Rightarrow> 'a avmf_scheme \<Rightarrow> 'a avmf_scheme option" where
  "region_free_loop pmap i b n k c s =
     (if k < alloc_count (regions s ! i) \<and> c \<noteq> NULL then do {
        (st, s1) \<leftarrow> free_round pmap i b n c s;
        case st of
          Found h \<Rightarrow> Some s1
        | Continue c1 \<Rightarrow> region_free_loop pmap i b n (k + 1) c1 s1
        | Leave \<Rightarrow> Some s1 }
      else Some s)"

definition avmf_region_free ::
  "'a pager_map_fn \<Rightarrow> nat option \<Rightarrow> u64 \<Rightarrow> u64 \<Rightarrow> 'a avmf_scheme \<Rightarrow> 'a avmf_scheme option" where
  "avmf_region_free pmap ro b len s =
     (case ro of None \<Rightarrow> Some s
      | Some i \<Rightarrow>
          let r = regions s ! i; n = align4k len in
          if \<not> region_ok r \<or> n = 0 \<or> UINT64_MAX - n < b \<or> alloc_count r = 0 \<or> alloc_list r = NULL then Some s
          else region_free_loop pmap i b n 0 (alloc_list r) s)"

subsection \<open>The operations of the component\<close>

datatype MemoryAllocType =
  MALLOC_TYPE_UNKNOWN | MALLOC_TYPE_USER | MALLOC_TYPE_KERNEL | MALLOC_TYPE_DRIVER | MALLOC_TYPE_SENSITIVE

fun alloc_bounds :: "MemoryAllocType \<Rightarrow> (u64 \<times> u64) option" where
  "alloc_bounds MALLOC_TYPE_USER = Some (AOS_USER_SPACE_BASE, AOS_DIRECT_MAP_BASE)"
| "alloc_bounds MALLOC_TYPE_KERNEL = Some (AOS_KERNEL_SPACE_BASE, AOS_DRIVER_SPACE_BASE)"
| "alloc_bounds MALLOC_TYPE_DRIVER = Some (AOS_DRIVER_SPACE_BASE, AOS_SENSITIVE_SPACE_BASE)"
| "alloc_bounds MALLOC_TYPE_SENSITIVE = Some (AOS_SENSITIVE_SPACE_BASE, UINT64_MAX)"
| "alloc_bounds MALLOC_TYPE_UNKNOWN = None"

text \<open>The result is the header and the region (\<open>out_region\<close>).\<close>

definition avmf_alloc_hdr_internal ::
  "'a pager_map_fn \<Rightarrow> u64 \<Rightarrow> MemoryAllocType \<Rightarrow> 'a avmf_scheme \<Rightarrow> (u64 \<times> nat option \<times> 'a avmf_scheme) option" where
  "avmf_alloc_hdr_internal pmap n typ s =
     (if n < 1 then Some (NULL, None, s)
      else case alloc_bounds typ of None \<Rightarrow> Some (NULL, None, s)
        | Some (min_virt, max_virt) \<Rightarrow> do {
            r \<leftarrow> avmf_find_region min_virt max_virt n s;
            if r = None then Some (NULL, r, s)
            else do {
              (hdr, s1) \<leftarrow> avmf_region_alloc pmap r n PAGE_SIZE min_virt max_virt s;
              Some (hdr, r, s1) } })"

definition avmf_alloc_virt ::
  "'a pager_map_fn \<Rightarrow> u64 \<Rightarrow> MemoryAllocType \<Rightarrow> 'a avmf_scheme \<Rightarrow> (u64 \<times> 'a avmf_scheme) option" where
  "avmf_alloc_virt pmap len typ s =
     do { (h, _, s1) \<leftarrow> avmf_alloc_hdr_internal pmap (align4k len) typ s;
          if h = NULL then Some (0, s1)
          else do { hd \<leftarrow> headers s1 h; Some (virt_addr hd, s1) } }"

text \<open>The results are the address and the value stored through \<open>phys_out\<close>.\<close>

definition avmf_alloc ::
  "'a pager_map_fn \<Rightarrow> u64 \<Rightarrow> MemoryAllocType \<Rightarrow> u32 \<Rightarrow> 'a avmf_scheme \<Rightarrow>
   (u64 \<times> u64 \<times> 'a avmf_scheme) option" where
  "avmf_alloc pmap len typ flags s =
     (let true_size = align4k len in
      if true_size = 0 then Some (0, 0, s)
      else do {
        (h, r, s1) \<leftarrow> avmf_alloc_hdr_internal pmap true_size typ s;
        if h = NULL \<or> r = None then Some (0, 0, s1)
        else do {
          let f = avmf_convert_flags_to_pager_flags flags;
          hd \<leftarrow> headers s1 h;
          if 0 < phys_addr hd then do {
            s2 \<leftarrow> (if h_type hd \<noteq> AVMF_HDR_TYPE_CACHE
              then pager_map_range pmap (virt_addr hd) (phys_addr hd) (h_size hd) f s1 else Some s1);
            hd2 \<leftarrow> headers s2 h;
            Some (virt_addr hd2, phys_addr hd2, s2) }
          else do {
            (phys, s2) \<leftarrow> avmf_alloc_phys_contiguous (h_size hd) s1;
            if phys = 0 then do {
              s3 \<leftarrow> avmf_region_free pmap r (virt_addr hd) (h_size hd) s2; Some (0, 0, s3) }
            else do {
              s3 \<leftarrow> upd_header h (\<lambda>hd. hd\<lparr> phys_addr := phys \<rparr>) s2;
              s4 \<leftarrow> pager_map_range pmap (virt_addr hd) phys (h_size hd) f s3;
              hd4 \<leftarrow> headers s4 h;
              Some (virt_addr hd4, phys, s4) } } } })"

text \<open>The header of the allocation that holds \<open>virt\<close>; \<open>NULL\<close> when the list ends.\<close>

partial_function (option) find_alloc :: "u64 \<Rightarrow> u64 \<Rightarrow> header_store \<Rightarrow> u64 option" where
  "find_alloc virt h H =
     (if h = NULL then Some NULL
      else do {
        hd \<leftarrow> H h;
        if h_type hd = AVMF_HDR_TYPE_ALLOC \<and> \<not> header_bad hd \<and>
           virt_addr hd \<le> virt \<and> virt < virt_addr hd + h_size hd
        then Some h
        else find_alloc virt (h_next hd) H })"

fun release_pages ::
  "'a pager_unmap_fn \<Rightarrow> nat \<Rightarrow> u64 \<Rightarrow> u64 \<Rightarrow> u64 \<Rightarrow> 'a avmf_scheme \<Rightarrow> 'a avmf_scheme option" where
  "release_pages punmap 0 i page_idx virt s = Some s"
| "release_pages punmap (Suc k) i page_idx virt s =
     do { s1 \<leftarrow> bitmap_clear (page_idx + i) s;
          s2 \<leftarrow> punmap (virt + PAGE_SIZE * i) s1;
          release_pages punmap k (i + 1) page_idx virt s2 }"

definition avmf_free ::
  "'a pager_map_fn \<Rightarrow> 'a pager_unmap_fn \<Rightarrow> u64 \<Rightarrow> 'a avmf_scheme \<Rightarrow> 'a avmf_scheme option" where
  "avmf_free pmap punmap virt s =
     (if virt = 0 then Some s
      else do {
        ro \<leftarrow> avmf_find_region virt UINT64_MAX (virt + 1) s;
        case ro of None \<Rightarrow> Some s
        | Some i \<Rightarrow> do {
            h \<leftarrow> find_alloc virt (alloc_list (regions s ! i)) (headers s);
            if h = NULL then Some s
            else do {
              hd \<leftarrow> headers s h;
              s1 \<leftarrow> release_pages punmap (unat (h_size hd div PAGE_SIZE)) 0
                      (phys_addr hd div PAGE_SIZE) (virt_addr hd) s;
              hd1 \<leftarrow> headers s1 h;
              avmf_region_free pmap ro (virt_addr hd1) (h_size hd1) s1 } } })"

text \<open>Initialisation: the physical regions from the two arrays, then the four virtual regions.\<close>

fun init_phys_regions :: "nat \<Rightarrow> (u64 \<times> u64) list \<Rightarrow> 'a avmf_scheme \<Rightarrow> 'a avmf_scheme option" where
  "init_phys_regions i [] s = Some s"
| "init_phys_regions i ((b, l) # es) s =
     do { (r, s1) \<leftarrow> avmf_region_init b l s;
          if i < length (physical_regions s1) then
            init_phys_regions (i + 1) es (s1\<lparr> physical_regions := (physical_regions s1)[i := r],
              physical_region_count := physical_region_count s1 + 1 \<rparr>)
          else None }"

fun init_virt_regions :: "nat \<Rightarrow> (u64 \<times> u64) list \<Rightarrow> 'a avmf_scheme \<Rightarrow> 'a avmf_scheme option" where
  "init_virt_regions i [] s = Some s"
| "init_virt_regions i ((b, l) # es) s =
     do { (r, s1) \<leftarrow> avmf_region_init b l s;
          if i < length (regions s1) then init_virt_regions (i + 1) es (s1\<lparr> regions := (regions s1)[i := r] \<rparr>)
          else None }"

definition avmf_init :: "(u64 \<times> u64) list \<Rightarrow> u8 \<Rightarrow> 'a avmf_scheme \<Rightarrow> 'a avmf_scheme option" where
  "avmf_init phys entries s =
     (let ent = (if unat entries \<le> AVMF_STATIC_SIZE then unat entries else AVMF_STATIC_SIZE) in
      if length phys < ent then None
      else do {
        s1 \<leftarrow> init_phys_regions 0 (take ent phys) s;
        s2 \<leftarrow> init_virt_regions 0 [(AOS_USER_SPACE_BASE, AOS_USER_SPACE_BASE_END),
                (AOS_KERNEL_SPACE_BASE, AOS_DRIVER_SPACE_BASE),
                (AOS_DRIVER_SPACE_BASE, AOS_SENSITIVE_SPACE_BASE),
                (AOS_SENSITIVE_SPACE_BASE, AOS_SENSITIVE_SPACE_BASE_END)] s1;
        Some (s2\<lparr> region_count := 4 \<rparr>) })"

end
