(* ===== verification/AvmfSpec.thy ===== *)
theory AvmfSpec imports Avmf
begin

text \<open>
  What the allocator of Kernel/mm/avmf.c does as a whole, proved over the definitions of
  Avmf: which region avmf_find_region picks, what avmf_free does for user addresses, how a
  free range is carved and its allocation recorded, the layout avmf_init leaves, and the
  allocation of bookkeeping headers through a pager that serves the direct map (the locale
  direct_map_pager, interpreted on the real pager in the theory Pager).
\<close>

subsection \<open>The layout of the regions\<close>

definition virtual_bounds :: "(u64 \<times> u64) list" where
  "virtual_bounds = [(AOS_USER_SPACE_BASE, AOS_USER_SPACE_BASE_END), (AOS_KERNEL_SPACE_BASE, AOS_DRIVER_SPACE_BASE),
     (AOS_DRIVER_SPACE_BASE, AOS_SENSITIVE_SPACE_BASE), (AOS_SENSITIVE_SPACE_BASE, AOS_SENSITIVE_SPACE_BASE_END)]"

definition virtual_layout :: "'a avmf_scheme \<Rightarrow> bool" where
  "virtual_layout s \<longleftrightarrow> region_count s = 4 \<and> 4 \<le> length (regions s) \<and>
     (\<forall>i < 4. region_ok (regions s ! i) \<and> (base (regions s ! i), limit (regions s ! i)) = virtual_bounds ! i)"

fun type_region :: "MemoryAllocType \<Rightarrow> nat" where
  "type_region MALLOC_TYPE_USER = 0"
| "type_region MALLOC_TYPE_KERNEL = 1"
| "type_region MALLOC_TYPE_DRIVER = 2"
| "type_region MALLOC_TYPE_SENSITIVE = 3"
| "type_region MALLOC_TYPE_UNKNOWN = 0"

lemma virtual_layoutD:
  assumes "virtual_layout s"
  shows "region_ok (regions s ! 0)" "base (regions s ! 0) = 0x1000" "limit (regions s ! 0) = 0x20000000"
    "region_ok (regions s ! Suc 0)" "base (regions s ! Suc 0) = 0xFFFFA00000000000" "limit (regions s ! Suc 0) = 0xFFFFC00000000000"
    "region_ok (regions s ! 2)" "base (regions s ! 2) = 0xFFFFC00000000000" "limit (regions s ! 2) = 0xFFFFE00000000000"
    "region_ok (regions s ! 3)" "base (regions s ! 3) = 0xFFFFE00000000000" "limit (regions s ! 3) = 0xFFFFF00000000000"
    "region_count s = 4" "4 \<le> length (regions s)" "regions s \<noteq> []"
  using assms unfolding virtual_layout_def virtual_bounds_def
  by (auto dest: spec [of _ 0] spec [of _ "Suc 0"] spec [of _ 2] spec [of _ 3])

lemma find_region_four:
  assumes "virtual_layout s"
  shows "avmf_find_region a b c s = Some (
    let pick = (\<lambda>i best. if \<not> a < base (regions s ! i) \<and> 0 < region_score (regions s ! i) a b c then Some i else best)
    in pick 3 (pick 2 (pick (Suc 0) (pick 0 None))))"
proof -
  have "[0..<unat (region_count s)] = [0, 1, 2, 3]"
    using virtual_layoutD(13) [OF assms] by (simp add: upt_rec)
  then show ?thesis
    using virtual_layoutD [OF assms] unfolding avmf_find_region_def by (simp add: Let_def)
qed

text \<open>In the layout that \<open>avmf_init\<close> makes, \<open>avmf_find_region\<close> gives every kind of allocation its own region, as long as the size fits below the region's end: the regions of the other kinds get no score or come earlier.\<close>

lemma avmf_find_region_selects:
  assumes l: "virtual_layout s" and b: "alloc_bounds typ = Some (lo, hi)"
    and room: "unat n < unat (limit (regions s ! type_region typ)) - unat lo"
  shows "avmf_find_region lo hi n s = Some (Some (type_region typ))"
proof -
  note l = find_region_four [OF l] virtual_layoutD [OF l]
  have u: "unat (n + lo) = unat n + unat lo" 
    using room u64_lt [of "limit (regions s ! type_region typ)"] by (simp add: unat_plus_u64)
  show ?thesis
    using b room u by (cases "typ") (auto simp: l region_score_def word_less_nat_alt Let_def)
qed

text \<open>In that layout \<open>avmf_free\<close> does nothing for an address in the upper half of the user space: it asks for a region of \<open>virt + 1\<close> bytes from \<open>virt\<close> on, and the user region does not reach that far. Such an allocation is never released.\<close>

lemma avmf_free_upper_user_ignored:
  assumes "virtual_layout s" "0x10000000 \<le> virt" "virt < AOS_USER_SPACE_BASE_END"
  shows "avmf_free pmap punmap virt s = Some s"
proof -
  note l = find_region_four [OF assms(1)] virtual_layoutD [OF assms(1)]
  have v: "268435456 \<le> unat virt" "unat virt < 536870912"
    using assms(2,3) by (simp_all add: word_le_nat_alt word_less_nat_alt)
  have "unat (virt + 1) = unat virt + 1" using v by (simp add: unat_plus_u64)
  then have "unat (virt + 1 + virt) = 2 * unat virt + 1" using v by (subst unat_plus_u64) simp_all
  moreover have "virt + 1 + virt = 2 * virt + 1" by simp
  ultimately have "unat (2 * virt + 1) = 2 * unat virt + 1" by simp
  then have "avmf_find_region virt UINT64_MAX (virt + 1) s = Some None"
    using v by (simp add: l region_score_def word_less_nat_alt Let_def)
  moreover have "virt \<noteq> 0" using v by auto
  ultimately show ?thesis by (simp add: avmf_free_def)
qed


subsection \<open>Allocation from the free list\<close>

lemma round_up_nat: "x + (4096 - x mod 4096) = (x div 4096 + 1) * 4096" for x :: nat
proof -
  define q r where "q = x div 4096" and "r = x mod 4096"
  then have "x = q * 4096 + r" "r < 4096" by simp_all
  then show ?thesis unfolding q_def [symmetric] r_def [symmetric] by simp
qed

lemma place_in_range_bounds:
  assumes p: "place_in_range c n PAGE_SIZE min_virt max_virt = Some b" and pos: "r_base c \<noteq> 0"
  shows "unat (r_base c) \<le> unat b" "unat b + unat n \<le> unat (r_base c) + unat (r_size c)"
    "4096 dvd unat b" "min_virt \<le> b" "max_virt \<noteq> 0 \<longrightarrow> unat b + unat n \<le> unat max_virt"
    "unat (r_base c) + unat (r_size c) \<le> 18446744073709551615"
proof -
  let ?b0 = "if r_base c < min_virt then min_virt else r_base c"
  let ?b1 = "if ?b0 mod PAGE_SIZE \<noteq> 0 then ?b0 + (PAGE_SIZE - ?b0 mod PAGE_SIZE) else ?b0"
  have f0: "\<not> UINT64_MAX - r_size c < r_base c" "b = range_start c PAGE_SIZE min_virt" "\<not> b < r_base c"
    "\<not> r_base c + r_size c < b" "\<not> r_base c + r_size c - b < n"
    "\<not> (max_virt \<noteq> 0 \<and> (max_virt < b \<or> max_virt - b < n))"
    using p unfolding place_in_range_def by (auto simp: Let_def split: if_split_asm)
  have "b = ?b1" unfolding f0(2) range_start_def Let_def ..
  note f = f0(1) this f0(3-6)
  show fit: "unat (r_base c) + unat (r_size c) \<le> 18446744073709551615"
    using f(1) u64_le_max [of "r_size c"] by (simp add: word_less_nat_alt unat_sub word_le_nat_alt not_less)
  then have re: "unat (r_base c + r_size c) = unat (r_base c) + unat (r_size c)" by (simp add: unat_plus_u64)
  show lo: "unat (r_base c) \<le> unat b" using f(3) by (simp add: word_le_nat_alt not_less)
  have "b \<le> r_base c + r_size c" using f(4) by (simp add: not_less)
  then show "unat b + unat n \<le> unat (r_base c) + unat (r_size c)"
    using f(5) re by (simp add: word_le_nat_alt not_less unat_sub)
  show "max_virt \<noteq> 0 \<longrightarrow> unat b + unat n \<le> unat max_virt"
  proof
    assume "max_virt \<noteq> 0"
    then have "b \<le> max_virt" "n \<le> max_virt - b" using f(6) by (simp_all add: not_less)
    then show "unat b + unat n \<le> unat max_virt" by (simp add: word_le_nat_alt unat_sub)
  qed
  let ?m = "unat ?b0 mod 4096"
  have m: "unat (?b0 mod PAGE_SIZE) = ?m" "?m < 4096" by (simp_all add: unat_mod_distrib)
  have b0: "unat ?b0 \<ge> unat min_virt" by (simp add: word_less_nat_alt)
  show "4096 dvd unat b" "min_virt \<le> b"
  proof -
    show "4096 dvd unat b"
    proof (cases "?b0 mod PAGE_SIZE = 0")
      case True
      then have "?m = 0" using m(1) by simp
      then show ?thesis using f(2) True by auto
    next
      case False
      have adj: "unat (PAGE_SIZE - ?b0 mod PAGE_SIZE) = 4096 - ?m"
        using m by (simp add: unat_sub word_le_nat_alt)
      have "unat b = (unat ?b0 + (4096 - ?m)) mod 2 ^ 64"
        using f(2) False adj by (simp add: unat_word_ariths)
      moreover have "4096 dvd unat ?b0 + (4096 - ?m)"
      proof -
        have "unat ?b0 + (4096 - ?m) = (unat ?b0 div 4096 + 1) * 4096" by (rule round_up_nat)
        then show ?thesis by simp
      qed
      ultimately show ?thesis by (simp add: dvd_mod)
    qed
    show "min_virt \<le> b"
    proof (cases "?b0 mod PAGE_SIZE = 0")
      case True
      then show ?thesis using f(2) b0 by (simp add: word_le_nat_alt)
    next
      case False
      have adj: "unat (PAGE_SIZE - ?b0 mod PAGE_SIZE) = 4096 - ?m"
        using m by (simp add: unat_sub word_le_nat_alt)
      show ?thesis
      proof (cases "unat ?b0 + (4096 - ?m) < 18446744073709551616")
        case True
        then have "unat b = unat ?b0 + (4096 - ?m)" using f(2) False adj by (simp add: unat_plus_u64)
        then show ?thesis using b0 by (simp add: word_le_nat_alt)
      next
        case ov: False
        have e: "unat ?b0 + (4096 - ?m) = (unat ?b0 div 4096 + 1) * 4096"
          by (rule round_up_nat)
        have "unat ?b0 div 4096 \<le> 4503599627370495" using u64_le_max [of ?b0] by (simp add: div_le_mono2 less_mult_imp_div_less)
        then have "unat ?b0 + (4096 - ?m) = 18446744073709551616" using e ov by simp
        then have "unat b = 0" using f(2) False adj by (simp add: unat_word_ariths)
        then show ?thesis using lo pos by (simp add: unat_gt_0 [symmetric])
      qed
    qed
  qed
qed


text \<open>A page with room for one more object, which is at \<open>p\<close>.\<close>

definition irange_ready :: "'a avmf_scheme \<Rightarrow> u64 \<Rightarrow> bool" where
  "irange_ready s p \<longleftrightarrow> sizeof_avmf_range \<le> irange_cpage_remaining s \<and> irange_cpage s \<noteq> NULL \<and>
     p = irange_cpage s + (PAGE_SIZE - irange_cpage_remaining s) \<and> p \<noteq> NULL \<and> ranges s p \<noteq> None"

definition ihdr_ready :: "'a avmf_scheme \<Rightarrow> u64 \<Rightarrow> bool" where
  "ihdr_ready s p \<longleftrightarrow> sizeof_avmf_header \<le> ihdr_cpage_remaining s \<and> ihdr_cpage s \<noteq> NULL \<and>
     p = ihdr_cpage s + (PAGE_SIZE - ihdr_cpage_remaining s) \<and> p \<noteq> NULL \<and> headers s p \<noteq> None"

lemma alloc_irange_ready:
  "irange_ready s p \<Longrightarrow> avmf_alloc_irange pmap s =
     Some (p, s\<lparr> irange_cpage_remaining := irange_cpage_remaining s - sizeof_avmf_range \<rparr>)"
  by (simp add: irange_ready_def avmf_alloc_irange_def)

lemma alloc_ihdr_ready:
  "ihdr_ready s p \<Longrightarrow> avmf_alloc_ihdr pmap s =
     Some (p, s\<lparr> ihdr_cpage_remaining := ihdr_cpage_remaining s - sizeof_avmf_header \<rparr>)"
  by (simp add: ihdr_ready_def avmf_alloc_ihdr_def)

lemma free_irange_fields [simp]:
  "regions (avmf_free_irange p s) = regions s" "ranges (avmf_free_irange p s) = ranges s"
  "headers (avmf_free_irange p s) = headers s"
  by (simp_all add: avmf_free_irange_def)

lemma upd_region_fields [simp]:
  "ranges (upd_region i f s) = ranges s" "headers (upd_region i f s) = headers s"
  "length (regions (upd_region i f s)) = length (regions s)"
  "i < length (regions s) \<Longrightarrow> regions (upd_region i f s) ! i = f (regions s ! i)"
  by (simp_all add: upd_region_def)

definition carved :: "'a avmf_scheme \<Rightarrow> nat \<Rightarrow> range_node list \<Rightarrow> nat \<Rightarrow> nat \<Rightarrow> 'a avmf_scheme \<Rightarrow> bool" where
  "carved s i xs b e s' \<longleftrightarrow>
     (\<exists>xs'. free_list_ok (regions s' ! i) (ranges s') xs' \<and> free_bytes xs' = free_bytes xs - {b..<e}) \<and>
     region_frame (regions s ! i) (regions s' ! i) \<and> headers s' = headers s \<and>
     length (regions s') = length (regions s)"

lemma free_bytes_above:
  assumes "sorted_wrt (\<lambda>x y. n_hi x < n_lo y) (x # xs)"
  shows "free_bytes xs \<inter> {..n_hi x} = {}"
proof -
  have "n_hi x < n_lo y" if "y \<in> set xs" for y using assms that by simp
  then show ?thesis by (force simp: free_bytes_def)
qed

text \<open>What \<open>carve_range\<close> starts from: \<open>c\<close> is the record of the first range \<open>x\<close>, followed by \<open>q\<close>.\<close>

definition carve_setup ::
  "'a avmf_scheme \<Rightarrow> nat \<Rightarrow> range_node \<Rightarrow> range_node list \<Rightarrow> u64 \<Rightarrow> u64 \<Rightarrow> u64 \<Rightarrow> avmf_range \<Rightarrow> bool" where
  "carve_setup s i x xs range_end b n c \<longleftrightarrow>
     i < length (regions s) \<and> free_list_ok (regions s ! i) (ranges s) (x # xs) \<and>
     free_list (regions s ! i) = n_addr x \<and> range_seg (ranges s) (r_next c) xs NULL \<and>
     ranges s (n_addr x) = Some c \<and> unat (r_base c) = n_lo x \<and> n_addr x \<noteq> NULL \<and>
     n_hi x \<le> 18446744073709551615 \<and>
     n_lo x \<le> unat b \<and> unat b + unat n \<le> n_hi x \<and> 0 < unat n \<and> unat (b + n) = unat b + unat n \<and>
     unat (b - r_base c) = unat b - n_lo x \<and> (b - r_base c = 0 \<longleftrightarrow> unat b = n_lo x) \<and>
     unat (range_end - (b + n)) = n_hi x - (unat b + unat n) \<and>
     (range_end - (b + n) = 0 \<longleftrightarrow> unat b + unat n = n_hi x) \<and>
     free_bytes xs - {unat b..<unat b + unat n} = free_bytes xs \<and>
     (\<forall>y \<in> set xs. n_hi x < n_lo y)"

lemma carve_setupI:
  assumes i: "i < length (regions s)" and ok: "free_list_ok (regions s ! i) (ranges s) (x # xs)"
    and bn: "n_lo x \<le> unat b" "unat b + unat n \<le> n_hi x" "n \<noteq> 0" and re: "unat range_end = n_hi x"
  obtains c where "carve_setup s i x xs range_end b n c"
proof -
  obtain q where seg: "free_list (regions s ! i) = n_addr x" "node_at (ranges s) x q"
    "range_seg (ranges s) q xs NULL" and sorted: "sorted_wrt (\<lambda>x y. n_hi x < n_lo y) (x # xs)"
    using ok by (auto simp: free_list_ok_def free_list_shape_def)
  obtain c where c: "ranges s (n_addr x) = Some c" "unat (r_base c) = n_lo x" "r_next c = q"
    "n_addr x \<noteq> NULL" "n_hi x \<le> 18446744073709551615"
    using node_atD [OF seg(2)] by metis
  have bn': "unat (b + n) = unat b + unat n" using bn c by (simp add: unat_plus_u64)
  have pre: "unat (b - r_base c) = unat b - n_lo x" "b - r_base c = 0 \<longleftrightarrow> unat b = n_lo x"
    using bn(1) c(2) by (simp_all add: unat_sub word_le_nat_alt word_unat_eq_iff)
  have suf: "unat (range_end - (b + n)) = n_hi x - (unat b + unat n)"
    using bn re bn' by (subst unat_sub) (simp_all add: word_le_nat_alt)
  have suf0: "range_end - (b + n) = 0 \<longleftrightarrow> unat b + unat n = n_hi x"
    unfolding right_minus_eq word_unat_eq_iff [of range_end] re bn' by auto
  have above: "\<forall>y \<in> set xs. n_hi x < n_lo y" using sorted by simp
  have "m \<notin> {unat b..<unat b + unat n}" if "m \<in> free_bytes xs" for m
    using free_bytes_above [OF sorted] that bn(2) by fastforce
  then have keep: "free_bytes xs - {unat b..<unat b + unat n} = free_bytes xs" by blast
  have "0 < unat n" using bn(3) by (simp add: unat_gt_0)
  then show thesis
    using that i ok seg c bn(1,2) bn' pre suf suf0 above keep unfolding carve_setup_def by blast
qed

lemma carvedI:
  assumes "free_list_ok (regions s' ! i) (ranges s') xs'" "free_bytes xs' = free_bytes xs - {b..<e}"
    "region_frame (regions s ! i) (regions s' ! i)" "headers s' = headers s"
    "length (regions s') = length (regions s)"
  shows "carved s i xs b e s'"
  using assms unfolding carved_def by blast

lemma carve_all:
  assumes set: "carve_setup s i x xs range_end b n c" and all: "unat b = n_lo x" "unat b + unat n = n_hi x"
  shows "\<exists>s'. carve_range pmap i (n_addr x) range_end b n s = Some (True, s') \<and>
    carved s i (x # xs) (unat b) (unat b + unat n) s'"
proof -
  note S = set [unfolded carve_setup_def]
  let ?r = "regions s ! i" and ?cur = "n_addr x"
  let ?f = "\<lambda>r. r\<lparr> free_list := r_next c,
         free_list_end := (if free_list_end r = ?cur then NULL else free_list_end r),
         free_count := (if 0 < free_count r then free_count r - 1 else free_count r) \<rparr>"
  let ?s = "avmf_free_irange ?cur (upd_region i ?f s)"
  have dist: "distinct (map n_addr (x # xs))" "sorted_wrt (\<lambda>x y. n_hi x < n_lo y) (x # xs)"
    "unat (free_count ?r) = length (x # xs)" "free_list_end ?r = n_addr (last (x # xs))"
    using S by (auto simp: free_list_ok_def free_list_shape_def)
  have ne: "free_count ?r \<noteq> 0" using dist(3) by auto
  then have "unat (free_count ?r - 1) = length xs" using dist(3) by (simp add: unat_minus_one)
  moreover have "xs \<noteq> [] \<Longrightarrow> free_list_end ?r = n_addr (last xs) \<and> n_addr (last xs) \<noteq> ?cur"
    using dist(1,4) by (cases xs rule: rev_cases) auto
  ultimately have "free_list_ok (?f ?r) (ranges s) xs"
    using S dist(1,2) ne by (auto simp: free_list_ok_def free_list_shape_def word_gt_0)
  moreover have "free_bytes xs = free_bytes (x # xs) - {unat b..<unat b + unat n}"
    using all S by (simp add: Un_Diff)
  ultimately have "carved s i (x # xs) (unat b) (unat b + unat n) ?s"
    using S by (intro carvedI [of ?s i xs]) simp_all
  moreover have "carve_range pmap i ?cur range_end b n s = Some (True, ?s)"
    using all S by (auto simp: carve_range_def Let_def)
  ultimately show ?thesis by blast
qed

lemma carve_one:
  fixes x' :: range_node
  assumes set: "carve_setup s i x xs range_end b n c"
    and x': "n_addr x' = n_addr x" "n_lo x' < n_hi x'" "n_lo x \<le> n_lo x'" "n_hi x' \<le> n_hi x"
      "unat (r_base d) = n_lo x'" "unat (r_size d) = n_hi x' - n_lo x'" "r_next d = r_next c"
    and bytes: "{n_lo x'..<n_hi x'} = {n_lo x..<n_hi x} - {unat b..<unat b + unat n}"
  shows "carved s i (x # xs) (unat b) (unat b + unat n) (s\<lparr> ranges := (ranges s)(n_addr x \<mapsto> d) \<rparr>)"
proof -
  note S = set [unfolded carve_setup_def]
  have dist: "distinct (map n_addr (x # xs))" "sorted_wrt (\<lambda>x y. n_hi x < n_lo y) (x # xs)"
    "unat (free_count (regions s ! i)) = length (x # xs)"
    "free_list_end (regions s ! i) = n_addr (last (x # xs))"
    using S by (auto simp: free_list_ok_def free_list_shape_def)
  have "node_at ((ranges s)(n_addr x \<mapsto> d)) x' (r_next c)"
    by (rule node_atI [where d = d]) (use S x' in auto)
  moreover have "\<forall>y \<in> set xs. n_hi x' < n_lo y" using S x'(4) by (auto intro: le_less_trans)
  ultimately have "free_list_ok (regions s ! i) ((ranges s)(n_addr x \<mapsto> d)) (x' # xs)"
    using S dist x'(1) by (auto simp: free_list_ok_def free_list_shape_def range_seg_upd)
  moreover have "free_bytes (x' # xs) = free_bytes (x # xs) - {unat b..<unat b + unat n}"
    using bytes S by (simp add: Un_Diff)
  ultimately show ?thesis by (intro carvedI [of _ i "x' # xs"]) simp_all
qed

lemma carve_front:
  assumes set: "carve_setup s i x xs range_end b n c" and at: "unat b = n_lo x" "unat b + unat n < n_hi x"
  shows "\<exists>s'. carve_range pmap i (n_addr x) range_end b n s = Some (True, s') \<and>
    carved s i (x # xs) (unat b) (unat b + unat n) s'"
proof -
  note S = set [unfolded carve_setup_def]
  let ?d = "c\<lparr> r_base := b + n, r_size := range_end - (b + n) \<rparr>"
  have "carved s i (x # xs) (unat b) (unat b + unat n) (s\<lparr> ranges := (ranges s)(n_addr x \<mapsto> ?d) \<rparr>)"
    by (rule carve_one [OF set, where x' = "x\<lparr> n_lo := unat b + unat n \<rparr>"]) (use S at in auto)
  moreover have "carve_range pmap i (n_addr x) range_end b n s =
      Some (True, s\<lparr> ranges := (ranges s)(n_addr x \<mapsto> ?d) \<rparr>)"
    using at S by (auto simp: carve_range_def upd_range_def Let_def)
  ultimately show ?thesis by blast
qed

lemma carve_back:
  assumes set: "carve_setup s i x xs range_end b n c" and at: "n_lo x < unat b" "unat b + unat n = n_hi x"
  shows "\<exists>s'. carve_range pmap i (n_addr x) range_end b n s = Some (True, s') \<and>
    carved s i (x # xs) (unat b) (unat b + unat n) s'"
proof -
  note S = set [unfolded carve_setup_def]
  let ?d = "c\<lparr> r_size := b - r_base c \<rparr>"
  have "carved s i (x # xs) (unat b) (unat b + unat n) (s\<lparr> ranges := (ranges s)(n_addr x \<mapsto> ?d) \<rparr>)"
    by (rule carve_one [OF set, where x' = "x\<lparr> n_hi := unat b \<rparr>"]) (use S at in auto)
  moreover have "carve_range pmap i (n_addr x) range_end b n s =
      Some (True, s\<lparr> ranges := (ranges s)(n_addr x \<mapsto> ?d) \<rparr>)"
    using at S by (auto simp: carve_range_def upd_range_def Let_def)
  ultimately show ?thesis by blast
qed

lemma carve_middle:
  assumes set: "carve_setup s i x xs range_end b n c" and at: "n_lo x < unat b" "unat b + unat n < n_hi x"
    and sr: "irange_ready s sr" "sr \<notin> n_addr ` set (x # xs)"
  shows "\<exists>s'. carve_range pmap i (n_addr x) range_end b n s = Some (True, s') \<and>
    carved s i (x # xs) (unat b) (unat b + unat n) s'"
proof -
  note S = set [unfolded carve_setup_def]
  let ?r = "regions s ! i" and ?cur = "n_addr x"
  let ?d1 = "\<lparr> r_base = b + n, r_size = range_end - (b + n), r_next = r_next c \<rparr>"
  let ?d = "c\<lparr> r_size := b - r_base c, r_next := sr \<rparr>"
  let ?R = "(ranges s)(sr \<mapsto> ?d1, ?cur \<mapsto> ?d)"
  let ?x = "x\<lparr> n_hi := unat b \<rparr>" and ?y = "\<lparr> n_addr = sr, n_lo = unat b + unat n, n_hi = n_hi x \<rparr>"
  let ?f = "\<lambda>r. r\<lparr> free_list_end := (if free_list_end r = ?cur then sr else free_list_end r),
           free_count := free_count r + 1 \<rparr>"
  let ?s = "upd_region i ?f (s\<lparr> irange_cpage_remaining := irange_cpage_remaining s - sizeof_avmf_range,
      ranges := ?R \<rparr>)"
  have dist: "distinct (map n_addr (x # xs))" "sorted_wrt (\<lambda>x y. n_hi x < n_lo y) xs"
    "unat (free_count ?r) = length (x # xs)" "free_list_end ?r = n_addr (last (x # xs))"
    using S by (auto simp: free_list_ok_def free_list_shape_def)
  have srn: "sr \<noteq> NULL" "sr \<noteq> ?cur" "sr \<notin> n_addr ` set xs" "ranges s sr \<noteq> None"
    using sr by (auto simp: irange_ready_def)
  have nodes: "node_at ?R ?x sr" "node_at ?R ?y (r_next c)"
    by (rule node_atI [where d = ?d]; use S at in auto)
      (rule node_atI [where d = ?d1]; use S at srn in auto)
  have "range_seg ?R (r_next c) xs NULL"
    using S dist(1) srn by (simp add: range_seg_upd)
  then have "range_seg ?R ?cur (?x # ?y # xs) NULL" using nodes by auto
  moreover have "\<forall>z \<in> set xs. unat b < n_lo z" using S at by (auto intro: less_trans)
  then have "sorted_wrt (\<lambda>x y. n_hi x < n_lo y) (?x # ?y # xs)"
    using dist(2) S by simp
  moreover have "unat (free_count ?r + 1) = length (?x # ?y # xs)"
  proof -
    have "\<forall>y \<in> set (x # xs). n_addr y \<noteq> NULL" using S free_list_nodes by blast
    then have "length (sr # map n_addr (x # xs)) \<le> 18446744073709551615"
      using dist(1) srn by (intro distinct_u64_length) auto
    then show ?thesis using dist(3) by (simp add: unat_plus_u64)
  qed
  moreover have "(if free_list_end ?r = ?cur then sr else free_list_end ?r) = n_addr (last (?x # ?y # xs))"
    using dist(1,4) by (cases xs rule: rev_cases) auto
  ultimately have "free_list_ok (?f ?r) ?R (?x # ?y # xs)"
    using S dist(1) srn by (auto simp: free_list_ok_def free_list_shape_def)
  moreover have "free_bytes (?x # ?y # xs) = free_bytes (x # xs) - {unat b..<unat b + unat n}"
  proof -
    have "{n_lo x..<unat b} \<union> {unat b + unat n..<n_hi x} = {n_lo x..<n_hi x} - {unat b..<unat b + unat n}"
      using at by auto
    then show ?thesis using S by (simp add: Un_Diff Un_assoc [symmetric])
  qed
  moreover have "region_frame ?r (?f ?r)"
    unfolding region_frame_def
    by (intro exI [of _ "free_list ?r"] exI [of _ "free_count ?r + 1"]
        exI [of _ "if free_list_end ?r = ?cur then sr else free_list_end ?r"]) simp
  moreover have at_s: "regions ?s ! i = ?f ?r" "ranges ?s = ?R" "headers ?s = headers s"
    "length (regions ?s) = length (regions s)"
    using S by simp_all
  ultimately have "carved s i (x # xs) (unat b) (unat b + unat n) ?s"
    by (intro carvedI [of ?s i "?x # ?y # xs"]) (simp_all only: at_s)
  moreover have "carve_range pmap i ?cur range_end b n s = Some (True, ?s)"
    using at S srn alloc_irange_ready [OF sr(1), of pmap]
    by (auto simp: carve_range_def upd_range_def Let_def)
  ultimately show ?thesis by blast
qed

lemma carve_range_carved:
  assumes i: "i < length (regions s)" and ok: "free_list_ok (regions s ! i) (ranges s) (x # xs)"
    and bn: "n_lo x \<le> unat b" "unat b + unat n \<le> n_hi x" "n \<noteq> 0"
    and sr: "irange_ready s sr" "sr \<notin> n_addr ` set (x # xs)"
    and re: "unat range_end = n_hi x"
  shows "\<exists>s'. carve_range pmap i (n_addr x) range_end b n s = Some (True, s') \<and>
    carved s i (x # xs) (unat b) (unat b + unat n) s'"
proof -
  obtain c where set: "carve_setup s i x xs range_end b n c" by (rule carve_setupI [OF i ok bn re])
  consider "unat b = n_lo x" "unat b + unat n = n_hi x" | "unat b = n_lo x" "unat b + unat n < n_hi x"
    | "n_lo x < unat b" "unat b + unat n = n_hi x" | "n_lo x < unat b" "unat b + unat n < n_hi x"
    using bn by linarith
  then show ?thesis
    using carve_all [OF set] carve_front [OF set] carve_back [OF set] carve_middle [OF set _ _ sr]
    by cases blast+
qed

text \<open>The list of allocations can take a new header \<open>h\<close>: it is empty, or its end is a header.\<close>

definition alloc_list_ready :: "avmf_region \<Rightarrow> header_store \<Rightarrow> u64 \<Rightarrow> bool" where
  "alloc_list_ready r H h \<longleftrightarrow> alloc_count r = 0 \<or> alloc_list r = NULL \<or>
     (\<exists>us e vs. hdr_list_ok AVMF_HDR_TYPE_ALLOC r H (us @ e # vs) \<and> alloc_list_end r = e \<and>
        h \<notin> set (us @ e # vs))"

definition header_frame :: "avmf_region \<Rightarrow> avmf_region \<Rightarrow> bool" where
  "header_frame r r' \<longleftrightarrow> (\<exists>l c e. r' = r\<lparr> alloc_list := l, alloc_count := c, alloc_list_end := e \<rparr>)"

lemma link_header_ready:
  assumes r: "region_ok r" "alloc_list_ready r H h"
    and h: "H h = Some hr" "h \<noteq> NULL" "h_type hr = AVMF_HDR_TYPE_ALLOC" "\<not> header_bad hr"
  shows "\<exists>r' H' p hs. avmf_link_header r h H = Some (True, r', H') \<and> header_frame r r' \<and>
    H' h = Some (hr\<lparr> h_next := NULL, h_parent := p \<rparr>) \<and> hdr_list_ok AVMF_HDR_TYPE_ALLOC r' H' (hs @ [h])"
proof -
  let ?hr = "hr\<lparr> h_next := NULL, h_parent := NULL \<rparr>"
  consider "alloc_count r = 0 \<or> alloc_list r = NULL"
    | us e vs where "alloc_count r \<noteq> 0" "alloc_list r \<noteq> NULL"
      "hdr_list_ok AVMF_HDR_TYPE_ALLOC r H (us @ e # vs)" "alloc_list_end r = e" "h \<notin> set (us @ e # vs)"
    using r(2) unfolding alloc_list_ready_def by blast
  then show ?thesis
  proof cases
    case 1
    then have "avmf_link_header r h H = Some (True, reset_list AVMF_HDR_TYPE_ALLOC h r, H(h \<mapsto> ?hr))"
      using r h by (auto simp: avmf_link_header_def Let_def word_less_nat_alt unat_eq_0)
    moreover have "header_frame r (reset_list AVMF_HDR_TYPE_ALLOC h r)"
      unfolding header_frame_def reset_list_def
      by (intro exI [of _ h] exI [of _ 1]) simp
    moreover have "hdr_list_ok AVMF_HDR_TYPE_ALLOC (reset_list AVMF_HDR_TYPE_ALLOC h r) (H(h \<mapsto> ?hr)) ([] @ [h])"
      using h by (simp add: hdr_list_ok_def reset_list_def header_bad_def)
    ultimately show ?thesis by (auto intro: exI [of _ "[]"])
  next
    case 2
    obtain ed where e: "H e = Some ed" "\<not> header_bad ed" "h_type ed = AVMF_HDR_TYPE_ALLOC" "e \<noteq> NULL"
      using 2(3) by (auto simp: hdr_list_ok_def hdr_seg_append)
    have he: "h \<noteq> e" using 2(5) by auto
    let ?r = "r\<lparr> alloc_count := alloc_count r + 1 \<rparr>"
    let ?H = "H(h \<mapsto> ?hr, e \<mapsto> ed\<lparr> h_next := h \<rparr>, h \<mapsto> ?hr\<lparr> h_parent := e \<rparr>)"
    have link: "avmf_link_header r h H = Some (True, ?r, ?H)"
      using r(1) h e he 2 by (auto simp: avmf_link_header_def Let_def word_less_nat_alt unat_eq_0)
    have list: "hdr_list_ok AVMF_HDR_TYPE_ALLOC ?r ?H ((us @ [e]) @ [h])"
      using link_header_after_end [of r AVMF_HDR_TYPE_ALLOC H us e vs h hr] r(1) h 2 link by auto
    have "header_frame r ?r"
      unfolding header_frame_def
      by (intro exI [of _ "alloc_list r"] exI [of _ "alloc_count r + 1"] exI [of _ "alloc_list_end r"]) simp
    moreover have "?H h = Some (hr\<lparr> h_next := NULL, h_parent := e \<rparr>)" by simp
    ultimately show ?thesis using link list by blast
  qed
qed

lemma frame_keeps:
  "region_frame r r' \<Longrightarrow> region_ok r' = region_ok r"
  "region_frame r r' \<Longrightarrow> allocated_bytes r' = allocated_bytes r"
  "header_frame r r' \<Longrightarrow> free_list_ok r' R xs = free_list_ok r R xs"
  "header_frame r r' \<Longrightarrow> allocated_bytes r' = allocated_bytes r"
  by (auto simp: region_frame_def header_frame_def region_ok_def free_list_ok_def free_list_shape_def)

lemma region_frame_ready: "region_frame r r' \<Longrightarrow> alloc_list_ready r' H h = alloc_list_ready r H h"
  unfolding region_frame_def alloc_list_ready_def hdr_list_ok_def by (elim exE) simp

lemma alloc_list_ready_upd: "alloc_list_ready r H h \<Longrightarrow> alloc_list_ready r (H(h \<mapsto> d)) h"
  unfolding alloc_list_ready_def
proof (elim disjE exE conjE)
  fix us e vs
  assume l: "hdr_list_ok AVMF_HDR_TYPE_ALLOC r H (us @ e # vs)" "alloc_list_end r = e" "h \<notin> set (us @ e # vs)"
  have "\<forall>k \<in> set (us @ e # vs). (H(h \<mapsto> d)) k = H k" using l(3) by auto
  then have "hdr_list_ok AVMF_HDR_TYPE_ALLOC r (H(h \<mapsto> d)) (us @ e # vs)"
    using l(1) unfolding hdr_list_ok_def hdr_seg_upd [OF l(3)] by (simp del: fun_upd_apply)
  then show "alloc_count r = 0 \<or> alloc_list r = NULL \<or>
     (\<exists>us e vs. hdr_list_ok AVMF_HDR_TYPE_ALLOC r (H(h \<mapsto> d)) (us @ e # vs) \<and> alloc_list_end r = e \<and>
        h \<notin> set (us @ e # vs))" using l(2,3) by blast
qed simp_all

lemma free_list_ok_bytes [simp]:
  "free_list_ok (r\<lparr> allocated_bytes := a \<rparr>) R xs = free_list_ok r R xs"
  by (simp add: free_list_ok_def free_list_shape_def)

lemma new_header_fields [simp]:
  "h_type (new_alloc_header v p n) = AVMF_HDR_TYPE_ALLOC" "\<not> header_bad (new_alloc_header v p n)"
  "virt_addr (new_alloc_header v p n) = v" "phys_addr (new_alloc_header v p n) = p"
  "h_size (new_alloc_header v p n) = n" "used (new_alloc_header v p n)"
  by (simp_all add: new_alloc_header_def header_bad_def)

text \<open>C12: \<open>avmf_region_alloc\<close> on the free list looks at the first range only. When the allocation cannot be placed there it returns \<open>NULL\<close> and changes nothing, whatever the other ranges are. When it can, it returns a header for page-aligned addresses inside the range and above \<open>min_virt\<close>, this header is the last one of the region's well-formed list of allocations, the free addresses become the old ones without the allocated, the list stays well formed, and the region's counter grows by the size.\<close>

theorem alloc_from_free_list_spec:
  assumes i: "i < length (regions s)" "region_ok (regions s ! i)" "n \<noteq> 0"
    and ok: "free_list_ok (regions s ! i) (ranges s) (x # xs)" "n_lo x \<noteq> 0" "ranges s (n_addr x) = Some c"
    and hdr: "ihdr_ready s hdr" "alloc_list_ready (regions s ! i) (headers s) hdr"
    and sr: "irange_ready s sr" "sr \<notin> n_addr ` set (x # xs)"
  shows "case place_in_range c n PAGE_SIZE min_virt max_virt of
      None \<Rightarrow> alloc_from_free_list pmap i n PAGE_SIZE min_virt max_virt s = Some (NULL, s)
    | Some b \<Rightarrow> \<exists>s' xs' hd. alloc_from_free_list pmap i n PAGE_SIZE min_virt max_virt s = Some (hdr, s') \<and>
        headers s' hdr = Some hd \<and> virt_addr hd = b \<and> phys_addr hd = 0 \<and> h_size hd = n \<and>
        min_virt \<le> b \<and> 4096 dvd unat b \<and> {unat b..<unat b + unat n} \<subseteq> {n_lo x..<n_hi x} \<and>
        free_list_ok (regions s' ! i) (ranges s') xs' \<and>
        free_bytes xs' = free_bytes (x # xs) - {unat b..<unat b + unat n} \<and>
        allocated_bytes (regions s' ! i) = allocated_bytes (regions s ! i) + n \<and>
        (\<exists>hs. hdr_list_ok AVMF_HDR_TYPE_ALLOC (regions s' ! i) (headers s') (hs @ [hdr]))"
proof -
  have ne: "free_count (regions s ! i) \<noteq> 0" "free_list (regions s ! i) = n_addr x" "n_addr x \<noteq> NULL"
    using ok(1) by (auto simp: free_list_ok_def free_list_shape_def node_at_def)
  obtain q where q: "node_at (ranges s) x q" using ok(1) by (auto simp: free_list_ok_def free_list_shape_def)
  have c: "unat (r_base c) = n_lo x" "unat (r_size c) = n_hi x - n_lo x" "unat (r_base c + r_size c) = n_hi x"
    "n_lo x < n_hi x"
    using node_atD [OF q] ok(3) by (metis option.inject)+
  show ?thesis
  proof (cases "place_in_range c n PAGE_SIZE min_virt max_virt")
    case None
    then show ?thesis using ne ok(3) by (simp add: alloc_from_free_list_def Let_def)
  next
    case (Some b)
    have "r_base c \<noteq> 0" using c(1) ok(2) by auto
    note B = place_in_range_bounds [OF Some this]
    let ?s1 = "s\<lparr> ihdr_cpage_remaining := ihdr_cpage_remaining s - sizeof_avmf_header \<rparr>"
    let ?s2 = "?s1\<lparr> headers := (headers s)(hdr \<mapsto> new_alloc_header b 0 n) \<rparr>"
    have hdrn: "hdr \<noteq> NULL" "headers s hdr \<noteq> None" using hdr(1) by (auto simp: ihdr_ready_def)
    have ready: "irange_ready ?s2 sr" using sr(1) unfolding irange_ready_def by simp blast
    have "\<exists>s3. carve_range pmap i (n_addr x) (r_base c + r_size c) b n ?s2 = Some (True, s3) \<and>
        carved ?s2 i (x # xs) (unat b) (unat b + unat n) s3"
      by (rule carve_range_carved [OF _ _ _ _ _ ready]) (use i ok sr(2) B c in simp_all)
    then obtain s3 xs' where s3: "carve_range pmap i (n_addr x) (r_base c + r_size c) b n ?s2 = Some (True, s3)"
      "free_list_ok (regions s3 ! i) (ranges s3) xs'"
      "free_bytes xs' = free_bytes (x # xs) - {unat b..<unat b + unat n}"
      "region_frame (regions s ! i) (regions s3 ! i)" "headers s3 = headers ?s2"
      "length (regions s3) = length (regions s)"
      unfolding carved_def by auto
    have "alloc_list_ready (regions s3 ! i) (headers s3) hdr"
      using hdr(2) unfolding region_frame_ready [OF s3(4)] s3(5) by (simp add: alloc_list_ready_upd)
    moreover have "region_ok (regions s3 ! i)" using frame_keeps(1) [OF s3(4)] i(2) by simp
    ultimately obtain r' H' p hs where link:
      "avmf_link_header (regions s3 ! i) hdr (headers s3) = Some (True, r', H')"
      "header_frame (regions s3 ! i) r'"
      "H' hdr = Some ((new_alloc_header b 0 n)\<lparr> h_next := NULL, h_parent := p \<rparr>)"
      "hdr_list_ok AVMF_HDR_TYPE_ALLOC r' H' (hs @ [hdr])"
      using link_header_ready [of "regions s3 ! i" "headers s3" hdr "new_alloc_header b 0 n"] hdrn(1) s3(5)
      by auto
    let ?s4 = "upd_region i (\<lambda>_. r') (s3\<lparr> headers := H' \<rparr>)"
    let ?s5 = "upd_region i (\<lambda>r. r\<lparr> allocated_bytes := allocated_bytes r + n \<rparr>) ?s4"
    have "alloc_from_free_list pmap i n PAGE_SIZE min_virt max_virt s = Some (hdr, ?s5)"
      using ne ok(3) Some alloc_ihdr_ready [OF hdr(1), of pmap] hdrn s3(1) link(1)
      by (auto simp: alloc_from_free_list_def Let_def upd_header_def link_in_def word_gt_0)
    moreover have "regions ?s5 ! i = r'\<lparr> allocated_bytes := allocated_bytes r' + n \<rparr>"
      using i s3(6) by simp
    moreover have "allocated_bytes r' = allocated_bytes (regions s ! i)"
      using frame_keeps(2) [OF s3(4)] frame_keeps(4) [OF link(2)] by simp
    moreover have "free_list_ok r' (ranges s3) xs'"
      using s3(2) frame_keeps(3) [OF link(2)] by simp
    moreover have "{unat b..<unat b + unat n} \<subseteq> {n_lo x..<n_hi x}" using B c by auto
    moreover have "hdr_list_ok AVMF_HDR_TYPE_ALLOC (r'\<lparr> allocated_bytes := allocated_bytes r' + n \<rparr>) H' (hs @ [hdr])"
      using link(4) by (simp add: hdr_list_ok_def)
    ultimately show ?thesis using Some s3(3) link(3) B by auto
  qed
qed


subsection \<open>Initialisation\<close>

definition static_slot :: "u64 \<Rightarrow> nat \<Rightarrow> u64" where
  "static_slot p j = p + sizeof_avmf_range * of_nat j"

lemma static_slot_less:
  assumes "unat p + 24 * 2048 \<le> 18446744073709551615" "p \<noteq> NULL" "j < 2048" "k < 2048"
  shows "static_slot p j \<noteq> NULL" "static_slot p j = static_slot p k \<longleftrightarrow> j = k"
proof -
  have u: "unat (static_slot p j) = unat p + 24 * j" if "j < 2048" for j
  proof -
    have "unat (24 * of_nat j :: u64) = 24 * j"
      using that by (simp add: unat_word_ariths unat_of_nat_u64)
    then show ?thesis using that assms(1) by (simp add: static_slot_def unat_plus_u64)
  qed
  have "0 < unat p" using assms(2) by (simp add: unat_gt_0)
  then show "static_slot p j \<noteq> NULL" using u [OF assms(3)] by auto
  show "static_slot p j = static_slot p k \<longleftrightarrow> j = k"
    using u [OF assms(3)] u [OF assms(4)] by (auto simp: word_unat_eq_iff)
qed

text \<open>The region that \<open>avmf_region_init\<close> makes, with the range record at \<open>p\<close> for all of its extent.\<close>

definition initial_region :: "u64 \<Rightarrow> u64 \<times> u64 \<Rightarrow> avmf_region" where
  "initial_region p e = \<lparr> signature = AVMF_SIGNATURE, version = AVMF_VERSION, base = fst e, limit = snd e,
       allocated_bytes = 0, free_list = p, free_count = 1, free_list_end = p,
       alloc_list = NULL, alloc_count = 0, alloc_list_end = NULL,
       cache_list = NULL, cache_count = 0, cache_list_end = NULL \<rparr>"

definition whole_range :: "u64 \<times> u64 \<Rightarrow> avmf_range" where
  "whole_range e = \<lparr> r_base = fst e, r_size = snd e - fst e, r_next = NULL \<rparr>"

definition whole_node :: "u64 \<Rightarrow> u64 \<times> u64 \<Rightarrow> range_node" where
  "whole_node p e = \<lparr> n_addr = p, n_lo = unat (fst e), n_hi = unat (snd e) \<rparr>"

lemma initial_region_bounds [simp]: "(base (initial_region p e), limit (initial_region p e)) = e"
  by (simp add: initial_region_def)

lemma initial_region_whole:
  assumes "fst e < snd e" "p \<noteq> NULL" "R p = Some (whole_range e)"
  shows "region_ok (initial_region p e) \<and> free_list_ok (initial_region p e) R [whole_node p e]"
proof -
  have lt: "unat (fst e) < unat (snd e)" using assms(1) by (simp add: word_less_nat_alt)
  then have "node_at R \<lparr> n_addr = p, n_lo = unat (fst e), n_hi = unat (snd e) \<rparr> NULL"
    using assms u64_le_max [of "snd e"]
    by (intro node_atI [where d = "whole_range e"]) (auto simp: whole_range_def unat_sub less_imp_le)
  then show ?thesis
    using assms(1,2) lt
    by (auto simp: initial_region_def whole_node_def region_ok_def free_list_ok_def free_list_shape_def
        word_less_nat_alt word_le_nat_alt)
qed

lemma region_init_initial:
  assumes "unat (static_ranges_count s) = n" "n < 2048"
  shows "avmf_region_init b l s = Some (initial_region (static_slot (static_ranges s) n) (b, l),
    s\<lparr> static_ranges_count := static_ranges_count s + 1,
       ranges := (ranges s)(static_slot (static_ranges s) n \<mapsto> whole_range (b, l)) \<rparr>)"
proof -
  have "static_ranges_count s = of_nat n" using assms(1) by auto
  then have "static_ranges s + sizeof_avmf_range * static_ranges_count s = static_slot (static_ranges s) n"
    by (simp add: static_slot_def)
  moreover have "static_ranges_count s < AVMF_STATIC_RANGE_SIZE" using assms by (simp add: word_less_nat_alt)
  ultimately show ?thesis by (simp add: avmf_region_init_def initial_region_def whole_range_def Let_def)
qed

lemma init_phys_regions_spec:
  "\<lbrakk>i + length es \<le> length (physical_regions s); unat (physical_region_count s) = i;
    unat (static_ranges_count s) = i; i + length es \<le> 2000;
    unat (static_ranges s) + 24 * 2048 \<le> 18446744073709551615; static_ranges s \<noteq> NULL\<rbrakk> \<Longrightarrow>
   \<exists>s'. init_phys_regions i es s = Some s' \<and> unat (physical_region_count s') = i + length es \<and>
     unat (static_ranges_count s') = i + length es \<and> static_ranges s' = static_ranges s \<and>
     regions s' = regions s \<and> length (physical_regions s') = length (physical_regions s) \<and>
     (\<forall>j < i. physical_regions s' ! j = physical_regions s ! j \<and>
        ranges s' (static_slot (static_ranges s) j) = ranges s (static_slot (static_ranges s) j)) \<and>
     (\<forall>k < length es. physical_regions s' ! (i + k) = initial_region (static_slot (static_ranges s) (i + k)) (es ! k) \<and>
        ranges s' (static_slot (static_ranges s) (i + k)) = Some (whole_range (es ! k)))"
proof (induction es arbitrary: i s)
  case (Cons e es)
  obtain b l where e: "e = (b, l)" by (cases e)
  let ?p = "static_slot (static_ranges s)"
  let ?s = "s\<lparr> static_ranges_count := static_ranges_count s + 1, ranges := (ranges s)(?p i \<mapsto> whole_range e),
      physical_regions := (physical_regions s)[i := initial_region (?p i) e],
      physical_region_count := physical_region_count s + 1 \<rparr>"
  have u: "unat (static_ranges_count s + 1) = i + 1" "unat (physical_region_count s + 1) = i + 1"
    using Cons.prems by (simp_all add: unat_plus_u64)
  have "\<exists>s'. init_phys_regions (i + 1) es ?s = Some s' \<and> unat (physical_region_count s') = i + 1 + length es \<and>
     unat (static_ranges_count s') = i + 1 + length es \<and> static_ranges s' = static_ranges ?s \<and>
     regions s' = regions ?s \<and> length (physical_regions s') = length (physical_regions ?s) \<and>
     (\<forall>j < i + 1. physical_regions s' ! j = physical_regions ?s ! j \<and>
        ranges s' (static_slot (static_ranges ?s) j) = ranges ?s (static_slot (static_ranges ?s) j)) \<and>
     (\<forall>k < length es. physical_regions s' ! (i + 1 + k) = initial_region (static_slot (static_ranges ?s) (i + 1 + k)) (es ! k) \<and>
        ranges s' (static_slot (static_ranges ?s) (i + 1 + k)) = Some (whole_range (es ! k)))"
    using Cons.prems u by (intro Cons.IH) simp_all
  then obtain s' where s': "init_phys_regions (i + 1) es ?s = Some s'" "unat (physical_region_count s') = i + length (e # es)"
     "unat (static_ranges_count s') = i + length (e # es)" "static_ranges s' = static_ranges s"
     "regions s' = regions s" "length (physical_regions s') = length (physical_regions s)"
     "\<forall>j < i + 1. physical_regions s' ! j = (physical_regions s)[i := initial_region (?p i) e] ! j \<and>
        ranges s' (?p j) = ((ranges s)(?p i \<mapsto> whole_range e)) (?p j)"
     "\<forall>k < length es. physical_regions s' ! (i + 1 + k) = initial_region (?p (i + 1 + k)) (es ! k) \<and>
        ranges s' (?p (i + 1 + k)) = Some (whole_range (es ! k))"
    by auto
  have i: "i < 2048" using Cons.prems(4) by simp
  have "init_phys_regions i (e # es) s = Some s'"
    using region_init_initial [OF Cons.prems(3) i, of b l] s'(1) e Cons.prems(1) by simp
  moreover have "\<forall>k < length (e # es). physical_regions s' ! (i + k) = initial_region (?p (i + k)) ((e # es) ! k) \<and>
        ranges s' (?p (i + k)) = Some (whole_range ((e # es) ! k))"
    using s'(7,8) Cons.prems(1) by (auto simp: nth_Cons split: nat.split)
  moreover have "physical_regions s' ! j = physical_regions s ! j \<and> ranges s' (?p j) = ranges s (?p j)" if "j < i" for j
    using s'(7) that static_slot_less(2) [OF Cons.prems(5,6) _ i, of j] i by auto
  ultimately show ?case using s'(2-6) by blast
qed auto

lemma init_virt_regions_spec:
  "\<lbrakk>i + length es \<le> length (regions s); unat (static_ranges_count s) = n; n + length es \<le> 2048;
    unat (static_ranges s) + 24 * 2048 \<le> 18446744073709551615; static_ranges s \<noteq> NULL\<rbrakk> \<Longrightarrow>
   \<exists>s'. init_virt_regions i es s = Some s' \<and> length (regions s') = length (regions s) \<and>
     physical_regions s' = physical_regions s \<and> physical_region_count s' = physical_region_count s \<and>
     (\<forall>j < i. regions s' ! j = regions s ! j) \<and>
     (\<forall>j < n. ranges s' (static_slot (static_ranges s) j) = ranges s (static_slot (static_ranges s) j)) \<and>
     (\<forall>k < length es. regions s' ! (i + k) = initial_region (static_slot (static_ranges s) (n + k)) (es ! k) \<and>
        ranges s' (static_slot (static_ranges s) (n + k)) = Some (whole_range (es ! k)))"
proof (induction es arbitrary: i s n)
  case (Cons e es)
  obtain b l where e: "e = (b, l)" by (cases e)
  let ?p = "static_slot (static_ranges s)"
  let ?s = "s\<lparr> static_ranges_count := static_ranges_count s + 1, ranges := (ranges s)(?p n \<mapsto> whole_range e),
      regions := (regions s)[i := initial_region (?p n) e] \<rparr>"
  have "\<exists>s'. init_virt_regions (i + 1) es ?s = Some s' \<and> length (regions s') = length (regions ?s) \<and>
     physical_regions s' = physical_regions ?s \<and> physical_region_count s' = physical_region_count ?s \<and>
     (\<forall>j < i + 1. regions s' ! j = regions ?s ! j) \<and>
     (\<forall>j < n + 1. ranges s' (static_slot (static_ranges ?s) j) = ranges ?s (static_slot (static_ranges ?s) j)) \<and>
     (\<forall>k < length es. regions s' ! (i + 1 + k) = initial_region (static_slot (static_ranges ?s) (n + 1 + k)) (es ! k) \<and>
        ranges s' (static_slot (static_ranges ?s) (n + 1 + k)) = Some (whole_range (es ! k)))"
    using Cons.prems by (intro Cons.IH) (simp_all add: unat_plus_u64)
  then obtain s' where s': "init_virt_regions (i + 1) es ?s = Some s'" "length (regions s') = length (regions s)"
     "physical_regions s' = physical_regions s" "physical_region_count s' = physical_region_count s"
     "\<forall>j < i + 1. regions s' ! j = (regions s)[i := initial_region (?p n) e] ! j"
     "\<forall>j < n + 1. ranges s' (?p j) = ((ranges s)(?p n \<mapsto> whole_range e)) (?p j)"
     "\<forall>k < length es. regions s' ! (i + 1 + k) = initial_region (?p (n + 1 + k)) (es ! k) \<and>
        ranges s' (?p (n + 1 + k)) = Some (whole_range (es ! k))"
    by auto
  have n: "n < 2048" using Cons.prems(3) by simp
  have "init_virt_regions i (e # es) s = Some s'"
    using region_init_initial [OF Cons.prems(2) n, of b l] s'(1) e Cons.prems(1) by simp
  moreover have "\<forall>k < length (e # es). regions s' ! (i + k) = initial_region (?p (n + k)) ((e # es) ! k) \<and>
        ranges s' (?p (n + k)) = Some (whole_range ((e # es) ! k))"
    using s'(5-7) Cons.prems(1) by (auto simp: nth_Cons split: nat.split)
  moreover have "\<forall>j < i. regions s' ! j = regions s ! j" using s'(5) by simp
  moreover have "ranges s' (?p j) = ranges s (?p j)" if "j < n" for j
    using s'(6) that static_slot_less(2) [OF Cons.prems(4,5) _ n, of j] n by auto
  ultimately show ?case using s'(2-4) by blast
qed (simp add: exI)

text \<open>C11: \<open>avmf_init\<close> succeeds and sets up the four virtual regions with their bounds and a physical region with its bounds for each entry of the two arrays. Each virtual region, and each physical region whose bounds are not empty, is well formed and has one free range, which covers the whole of it.\<close>

theorem avmf_init_layout:
  assumes n: "physical_region_count s = 0" "static_ranges_count s = 0" "length phys = unat entries"
    and room: "length phys \<le> length (physical_regions s)" "4 \<le> length (regions s)"
    and p: "unat (static_ranges s) + 24 * 2048 \<le> 18446744073709551615" "static_ranges s \<noteq> NULL"
  shows "\<exists>s'. avmf_init phys entries s = Some s' \<and> virtual_layout s' \<and>
    unat (physical_region_count s') = length phys \<and>
    (\<forall>i < length phys. (base (physical_regions s' ! i), limit (physical_regions s' ! i)) = phys ! i) \<and>
    (\<forall>i < length phys. fst (phys ! i) < snd (phys ! i) \<longrightarrow> region_ok (physical_regions s' ! i) \<and>
       (\<exists>x. free_list_ok (physical_regions s' ! i) (ranges s') [x] \<and>
          (of_nat (n_lo x), of_nat (n_hi x)) = phys ! i)) \<and>
    (\<forall>i < 4. \<exists>x. free_list_ok (regions s' ! i) (ranges s') [x] \<and>
       (of_nat (n_lo x), of_nat (n_hi x)) = virtual_bounds ! i)"
proof -
  let ?p = "static_slot (static_ranges s)"
  have e: "length phys < 256" using n(3) unsigned_less [of entries, where ?'a = nat] by simp
  from init_phys_regions_spec [of 0 phys s] n room(1) e p obtain s1 where
    s1: "init_phys_regions 0 phys s = Some s1" "unat (physical_region_count s1) = length phys"
      "unat (static_ranges_count s1) = length phys" "static_ranges s1 = static_ranges s" "regions s1 = regions s"
      "\<forall>k < length phys. physical_regions s1 ! k = initial_region (?p k) (phys ! k) \<and>
        ranges s1 (?p k) = Some (whole_range (phys ! k))"
    by auto
  have vb: "length virtual_bounds = 4" "\<forall>e \<in> set virtual_bounds. fst e < snd e"
    by (simp_all add: virtual_bounds_def)
  have "0 + length virtual_bounds \<le> length (regions s1)" "length phys + length virtual_bounds \<le> 2048"
    "unat (static_ranges s1) + 24 * 2048 \<le> 18446744073709551615" "static_ranges s1 \<noteq> NULL"
    using s1 room p e vb by simp_all
  from init_virt_regions_spec [OF this(1) s1(3) this(2-4)] obtain s2 where
    s2: "init_virt_regions 0 virtual_bounds s1 = Some s2" "length (regions s2) = length (regions s1)"
     "physical_regions s2 = physical_regions s1" "physical_region_count s2 = physical_region_count s1"
     "\<forall>j < length phys. ranges s2 (?p j) = ranges s1 (?p j)"
     "\<forall>k < 4. regions s2 ! k = initial_region (?p (length phys + k)) (virtual_bounds ! k) \<and>
        ranges s2 (?p (length phys + k)) = Some (whole_range (virtual_bounds ! k))"
    using vb(1) s1(4) by auto
  let ?s = "s2\<lparr> region_count := 4 \<rparr>"
  have slot: "?p k \<noteq> NULL" if "k < 2048" for k using static_slot_less(1) [OF p that that] .
  have node: "(of_nat (n_lo (whole_node q x)), of_nat (n_hi (whole_node q x))) = x" for q x
    by (simp add: whole_node_def)
  have virt: "region_ok (regions ?s ! i) \<and>
      free_list_ok (regions ?s ! i) (ranges ?s) [whole_node (?p (length phys + i)) (virtual_bounds ! i)]" if "i < 4" for i
    using initial_region_whole [of "virtual_bounds ! i" "?p (length phys + i)" "ranges s2"] s2(6) that slot vb e by simp
  have phys: "region_ok (physical_regions ?s ! i) \<and>
      free_list_ok (physical_regions ?s ! i) (ranges ?s) [whole_node (?p i) (phys ! i)]"
    if "i < length phys" "fst (phys ! i) < snd (phys ! i)" for i
    using initial_region_whole [OF that(2), of "?p i" "ranges s2"] s2(3,5) s1(6) that(1) slot e by simp
  have "avmf_init phys entries s = Some ?s"
    unfolding avmf_init_def virtual_bounds_def [symmetric] using n(3) e s1(1) s2(1) by (simp add: Let_def)
  moreover have "virtual_layout ?s"
    using s2 s1(5) room(2) virt by (simp add: virtual_layout_def)
  moreover have "\<forall>i < 4. \<exists>x. free_list_ok (regions ?s ! i) (ranges ?s) [x] \<and>
       (of_nat (n_lo x), of_nat (n_hi x)) = virtual_bounds ! i"
    using virt node by blast
  moreover have "\<forall>i < length phys. fst (phys ! i) < snd (phys ! i) \<longrightarrow> region_ok (physical_regions ?s ! i) \<and>
       (\<exists>x. free_list_ok (physical_regions ?s ! i) (ranges ?s) [x] \<and>
          (of_nat (n_lo x), of_nat (n_hi x)) = phys ! i)"
    using phys node by blast
  moreover have "unat (physical_region_count ?s) = length phys" using s1(2) s2(4) by simp
  moreover have "\<forall>i < length phys. (base (physical_regions ?s ! i), limit (physical_regions ?s ! i)) = phys ! i"
    using s1(6) s2(3) by simp
  ultimately show ?thesis by blast
qed

subsection \<open>Header pages through the direct map\<close>

lemma alloc_phys_page_cases:
  assumes "phys_ok s"
  shows "if \<exists>i < unat (physical_region_count s). can_take s i 1
    then \<exists>i < unat (physical_region_count s). \<exists>f s'. region_run s i 1 f \<and>
      avmf_alloc_phys_page s = Some (f * PAGE_SIZE, s') \<and> took_pages s i 1 f s'
    else avmf_alloc_phys_page s = Some (0, s)"
proof -
  have i: "i \<in> set (region_indices s) \<longleftrightarrow> i < unat (physical_region_count s)" for i
    by (simp add: region_indices_def)
  show ?thesis
    using alloc_phys_page_loop_spec [OF phys_ok_indices [OF assms]]
    unfolding avmf_alloc_phys_page_def i Bex_def by simp
qed

lemma direct_map_nonnull: "unat f < 1048576 \<Longrightarrow> AOS_DIRECT_MAP_BASE + f * PAGE_SIZE \<noteq> NULL"
proof
  assume f: "unat f < 1048576" and z: "AOS_DIRECT_MAP_BASE + f * PAGE_SIZE = NULL"
  have "unat (f * PAGE_SIZE) = unat f * 4096" using f by (simp add: unat_word_ariths)
  then have "unat (AOS_DIRECT_MAP_BASE + f * PAGE_SIZE) = 18446603336221196288 + unat f * 4096"
    using f by (simp add: unat_plus_u64)
  then show False using z by simp
qed

lemma header_slot_in: "(headers s ++ map_of (map (\<lambda>a. (a, zero_header)) (header_slots page))) page = Some zero_header"
proof -
  have "page \<in> set (header_slots page)" unfolding header_slots_def by (simp add: image_iff) (rule bexI [of _ 0], simp_all)
  then have "map_of (map (\<lambda>a. (a, zero_header)) (header_slots page)) page = Some zero_header"
    by (simp add: map_of_map_restrict)
  then show ?thesis by simp
qed

text \<open>
  What this component relies on when it maps the page of an object: the page is already in the
  direct map, and then \<open>pager_map\<close> confirms the mapping and changes nothing. Whether it is
  depends on the pager's part of the state alone.
\<close>

locale direct_map_pager =
  fixes pmap :: "'a pager_map_fn"
    and direct_mapped :: "'a avmf_scheme \<Rightarrow> u64 \<Rightarrow> bool"
  assumes pmap_direct: "direct_mapped s phys \<Longrightarrow>
      \<exists>t. t \<noteq> NULL \<and> pmap (AOS_DIRECT_MAP_BASE + phys) phys (PAGE_RW OR PAGE_PCD OR PAGE_PRESENT) s = Some (t, s)"
    and direct_mapped_more: "avmf.more s' = avmf.more s \<Longrightarrow> direct_mapped s' phys = direct_mapped s phys"
begin

lemma alloc_object_page_direct:
  assumes ok: "phys_ok s" and i: "i < unat (physical_region_count s)" "can_take s i 1"
    and pos: "\<forall>i < unat (physical_region_count s). \<forall>f. region_run s i 1 f \<longrightarrow> f \<noteq> 0 \<and> direct_mapped s (f * PAGE_SIZE)"
  shows "\<exists>j < unat (physical_region_count s). \<exists>f s1. region_run s j 1 f \<and> took_pages s j 1 f s1 \<and>
    AOS_DIRECT_MAP_BASE + f * PAGE_SIZE \<noteq> NULL \<and>
    alloc_object_page pmap s = Some (AOS_DIRECT_MAP_BASE + f * PAGE_SIZE, s1)"
proof -
  obtain j f s1 where j: "j < unat (physical_region_count s)" "region_run s j 1 f"
    "avmf_alloc_phys_page s = Some (f * PAGE_SIZE, s1)" "took_pages s j 1 f s1"
    using alloc_phys_page_cases [OF ok] i by (auto split: if_splits)
  have f: "f \<noteq> 0" "direct_mapped s (f * PAGE_SIZE)" using pos j(1,2) by blast+
  have lt: "unat f < 1048576"
    using j(1,2) ok by (auto simp: region_run_def free_run_def phys_ok_def)
  have "unat (f * PAGE_SIZE) = unat f * 4096" using lt by (simp add: unat_word_ariths)
  moreover have "0 < unat f" using f(1) by (simp add: unat_gt_0)
  ultimately have nz: "f * PAGE_SIZE \<noteq> 0" by auto
  have "avmf.more s1 = avmf.more s" using j(4) by (auto simp: took_pages_def add_allocated_def)
  then have "direct_mapped s1 (f * PAGE_SIZE)" using f(2) direct_mapped_more by blast
  then obtain t where "t \<noteq> NULL" "pmap (AOS_DIRECT_MAP_BASE + f * PAGE_SIZE) (f * PAGE_SIZE)
      (PAGE_RW OR PAGE_PCD OR PAGE_PRESENT) s1 = Some (t, s1)"
    using pmap_direct by blast
  then have "alloc_object_page pmap s = Some (AOS_DIRECT_MAP_BASE + f * PAGE_SIZE, s1)"
    using j(3) nz by (simp add: alloc_object_page_def numeral_3_eq_3)
  then show ?thesis using j direct_map_nonnull [OF lt] by blast
qed

lemma alloc_ihdr_new_page:
  assumes ok: "phys_ok s" and i: "i < unat (physical_region_count s)" "can_take s i 1"
    and pos: "\<forall>i < unat (physical_region_count s). \<forall>f. region_run s i 1 f \<longrightarrow> f \<noteq> 0 \<and> direct_mapped s (f * PAGE_SIZE)"
    and full: "ihdr_cpage_remaining s < sizeof_avmf_header \<or> ihdr_cpage s = NULL"
  shows "\<exists>j < unat (physical_region_count s). \<exists>f s'. region_run s j 1 f \<and>
    avmf_alloc_ihdr pmap s = Some (AOS_DIRECT_MAP_BASE + f * PAGE_SIZE, s') \<and>
    headers s' (AOS_DIRECT_MAP_BASE + f * PAGE_SIZE) = Some zero_header \<and>
    (\<forall>q. page_used s' q \<longleftrightarrow> q = f \<or> page_used s q)"
proof -
  obtain j f s1 where j: "j < unat (physical_region_count s)" "region_run s j 1 f" "took_pages s j 1 f s1"
    "AOS_DIRECT_MAP_BASE + f * PAGE_SIZE \<noteq> NULL"
    "alloc_object_page pmap s = Some (AOS_DIRECT_MAP_BASE + f * PAGE_SIZE, s1)"
    using alloc_object_page_direct [OF ok i pos] by blast
  let ?p = "AOS_DIRECT_MAP_BASE + f * PAGE_SIZE"
  let ?s = "s1\<lparr> ihdr_cpage := ?p,
      headers := headers s1 ++ map_of (map (\<lambda>a. (a, zero_header)) (header_slots ?p)),
      ihdr_cpage_remaining := PAGE_SIZE - sizeof_avmf_header \<rparr>"
  have "avmf_alloc_ihdr pmap s = Some (?p, ?s)"
    using full j(4,5) by (auto simp: avmf_alloc_ihdr_def)
  moreover have "headers ?s ?p = Some zero_header" using header_slot_in [of s1 ?p] by simp
  moreover have "unat f \<le> unat q \<and> unat q < unat f + 1 \<longleftrightarrow> q = f" for q :: u64
    by (auto intro: u64_eqI)
  then have "page_used ?s q \<longleftrightarrow> q = f \<or> page_used s q" for q
    using j(3) by (simp add: took_pages_def page_used_def)
  ultimately show ?thesis using j(1,2) by blast
qed

end



subsection \<open>Instances\<close>

definition sample_avmf :: avmf where
  "sample_avmf = sample_phys\<lparr> headers := [0x400000 \<mapsto> zero_header],
     ranges := [0x300000 \<mapsto> \<lparr> r_base = 0x5000, r_size = 0x3000, r_next = 0 \<rparr>, 0x500000 \<mapsto> zero_range],
     regions := [sample_region, sample_region\<lparr> base := AOS_KERNEL_SPACE_BASE, limit := AOS_DRIVER_SPACE_BASE \<rparr>,
       sample_region\<lparr> base := AOS_DRIVER_SPACE_BASE, limit := AOS_SENSITIVE_SPACE_BASE \<rparr>,
       sample_region\<lparr> base := AOS_SENSITIVE_SPACE_BASE, limit := AOS_SENSITIVE_SPACE_BASE_END \<rparr>],
     region_count := 4, ihdr_cpage := 0x400000, ihdr_cpage_remaining := 0x1000,
     irange_cpage := 0x500000, irange_cpage_remaining := 0x1000 \<rparr>"

lemma sample_layout: "virtual_layout sample_avmf"
proof -
  have "region_ok (regions sample_avmf ! i) \<and>
      (base (regions sample_avmf ! i), limit (regions sample_avmf ! i)) = virtual_bounds ! i" if "i < 4" for i
  proof -
    consider "i = 0" | "i = 1" | "i = 2" | "i = 3" using \<open>i < 4\<close> by linarith
    then show ?thesis
      by cases (simp_all add: sample_avmf_def sample_region_def region_ok_def virtual_bounds_def)
  qed
  then show ?thesis by (simp add: virtual_layout_def sample_avmf_def)
qed

theorem alloc_from_free_list_spec_witness:
  "\<exists>s' xs'. alloc_from_free_list (\<lambda>v p f s. Some (1, s)) 0 0x1000 PAGE_SIZE 0x6000 0 sample_avmf = Some (0x400000, s') \<and>
    free_list_ok (regions s' ! 0) (ranges s') xs' \<and> free_bytes xs' = {0x5000..<0x8000} - {0x6000..<0x7000}"
proof -
  have 1: "0 < length (regions sample_avmf)" "region_ok (regions sample_avmf ! 0)" "(0x1000 :: u64) \<noteq> 0"
    by (simp_all add: sample_avmf_def sample_region_def region_ok_def)
  have 2: "free_list_ok (regions sample_avmf ! 0) (ranges sample_avmf) [\<lparr> n_addr = 0x300000, n_lo = 0x5000, n_hi = 0x8000 \<rparr>]"
    by (simp add: sample_avmf_def sample_region_def free_list_ok_def free_list_shape_def node_at_def)
  have 3: "ranges sample_avmf 0x300000 = Some \<lparr> r_base = 0x5000, r_size = 0x3000, r_next = 0 \<rparr>"
    by (simp add: sample_avmf_def)
  have 4: "ihdr_ready sample_avmf 0x400000" "irange_ready sample_avmf 0x500000"
    "alloc_list_ready (regions sample_avmf ! 0) (headers sample_avmf) 0x400000"
    by (simp_all add: sample_avmf_def sample_region_def ihdr_ready_def irange_ready_def alloc_list_ready_def)
  have 5: "place_in_range \<lparr> r_base = 0x5000, r_size = 0x3000, r_next = 0 \<rparr> 0x1000 PAGE_SIZE 0x6000 0 = Some 0x6000"
    by (simp add: place_in_range_def range_start_def Let_def)
  show ?thesis
    using alloc_from_free_list_spec [OF 1 2 _ _ 4(1,3,2), where c = "\<lparr> r_base = 0x5000, r_size = 0x3000, r_next = 0 \<rparr>"
        and min_virt = "0x6000" and max_virt = 0 and pmap = "\<lambda>v p f s. Some (1, s)"] 3 5
    by auto
qed

theorem avmf_init_layout_witness:
  "\<exists>s' x. avmf_init [(0x10000, 0x14000)] 1 (sample_phys\<lparr> physical_region_count := 0,
      regions := replicate 1024 empty_region \<rparr>) = Some s' \<and> virtual_layout s' \<and>
      free_list_ok (physical_regions s' ! 0) (ranges s') [x]"
  using avmf_init_layout [of "sample_phys\<lparr> physical_region_count := 0, regions := replicate 1024 empty_region \<rparr>"
      "[(0x10000, 0x14000)]" 1]
  by (auto simp: sample_phys_def)

end
