(* ===== verification/Pager.thy ===== *)
theory Pager
  imports AvmfSpec KBoot
begin

text \<open>
  The pager of \<^verbatim>\<open>Kernel/mm/pager.c\<close>: four-level page tables in physical memory, filled by
  \<open>pager_map\<close> and cleared by \<open>pager_unmap\<close>. Its variables extend the state of the
  allocator. A page table is kept under its physical address, whichever of its two virtual
  addresses (the identity map, the direct map) the code reads it through.

  \<open>pager_map\<close> calls the allocator for new tables, which calls \<open>pager_map\<close> again for its own
  pages. The outer call holds the lock of the table, which is not recursive, so the inner call
  either returns before it takes the lock or spins for ever; \<open>pager_map_nested\<close> is that call
  and closes the recursion. The locks of the allocator are not modelled.
\<close>

subsection \<open>State\<close>

type_synonym page_table = "nat \<Rightarrow> u64"

text \<open>
  \<open>mapped_pml4\<close> points at an \<open>x_page_table\<close>; \<open>kernel_pml4\<close> is the only one in the kernel, so
  the pointer is \<open>True\<close> when it is not \<open>NULL\<close>. \<open>cr3\<close> is the register and \<open>invalidated\<close>
  the addresses given to \<open>invlpg\<close> and, for the other cores, to \<open>smp_tlb\<close>, last first.
\<close>

record x_page_table =
  table_phys :: u64
  tbl_lock :: bool
  "table" :: u64

record pager = avmf +
  tables :: "u64 \<rightharpoonup> page_table"
  kernel_pml4 :: x_page_table
  mapped_pml4 :: bool
  pager_ready :: bool
  cpu_phys_bits :: u64
  cpu_virt_bits :: u64
  first_pagemaps_ptr :: u64
  first_pagemaps :: u64
  first_pagemaps_end :: u64
  cr3 :: u64
  invalidated :: "u64 list"

type_synonym pstate = pager

text \<open>The physical address in an entry, and the indices of the four levels.\<close>

definition entry_addr :: "u64 \<Rightarrow> u64" where "entry_addr e = e AND NOT 0xFFF"
definition huge_addr :: "u64 \<Rightarrow> u64" where "huge_addr e = e AND NOT 0x1FFFFF"

definition idx_pml4 :: "u64 \<Rightarrow> nat" where "idx_pml4 virt = unat (drop_bit 39 virt AND 0x1FF)"
definition idx_pdpt :: "u64 \<Rightarrow> nat" where "idx_pdpt virt = unat (drop_bit 30 virt AND 0x1FF)"
definition idx_pd :: "u64 \<Rightarrow> nat" where "idx_pd virt = unat (drop_bit 21 virt AND 0x1FF)"
definition idx_pt :: "u64 \<Rightarrow> nat" where "idx_pt virt = unat (drop_bit 12 virt AND 0x1FF)"

subsection \<open>Page tables through pointers\<close>

definition pager_phys_to_virt :: "pstate \<Rightarrow> u64 \<Rightarrow> u64" where
  "pager_phys_to_virt s phys = (if \<not> pager_ready s then phys else phys + AOS_DIRECT_MAP_BASE)"

text \<open>The physical address behind a pointer into the identity map or the direct map.\<close>

definition ptr_phys :: "u64 \<Rightarrow> u64" where
  "ptr_phys p = (if AOS_DIRECT_MAP_BASE \<le> p then p - AOS_DIRECT_MAP_BASE else p)"

definition get_entry :: "u64 \<Rightarrow> nat \<Rightarrow> pstate \<Rightarrow> u64 option" where
  "get_entry p i s =
     (if p = NULL then None else do { t \<leftarrow> tables s (ptr_phys p); Some (t i) })"

definition set_entry :: "u64 \<Rightarrow> nat \<Rightarrow> u64 \<Rightarrow> pstate \<Rightarrow> pstate option" where
  "set_entry p i e s =
     (if p = NULL then None
      else do { t \<leftarrow> tables s (ptr_phys p);
                Some (s\<lparr> tables := (tables s)(ptr_phys p \<mapsto> t(i := e)) \<rparr>) })"

definition present :: "u64 \<Rightarrow> bool" where "present e \<longleftrightarrow> e AND PAGE_PRESENT \<noteq> 0"
definition huge :: "u64 \<Rightarrow> bool" where "huge e \<longleftrightarrow> e AND PAGE_HUGE \<noteq> 0"

text \<open>
  \<open>spin_lock_irqsave\<close> and \<open>spin_unlock_irqrestore\<close> (\<^verbatim>\<open>kfuncs.c\<close>) on the lock of the
  table, for one core: taking a lock that is held never returns.
\<close>

definition lock_pml4 :: "pstate \<Rightarrow> pstate option" where
  "lock_pml4 s = (if tbl_lock (kernel_pml4 s) then None
     else Some (s\<lparr> kernel_pml4 := (kernel_pml4 s)\<lparr> tbl_lock := True \<rparr> \<rparr>))"

definition unlock_pml4 :: "pstate \<Rightarrow> pstate" where
  "unlock_pml4 s = s\<lparr> kernel_pml4 := (kernel_pml4 s)\<lparr> tbl_lock := False \<rparr> \<rparr>"

subsection \<open>New page tables\<close>

text \<open>
  \<open>alloc_page_table\<close>: the pointer and the value stored through \<open>phys_out\<close>, which the
  callers set to 0 before. The result of \<open>avmf_alloc_phys_contiguous\<close> is not checked.
\<close>

definition alloc_page_table ::
  "(u64 \<Rightarrow> u64 \<Rightarrow> u64 \<Rightarrow> pstate \<Rightarrow> (u64 \<times> pstate) option) \<Rightarrow> pstate \<Rightarrow> (u64 \<times> u64 \<times> pstate) option" where
  "alloc_page_table pmap s =
     (if pager_ready s then do {
        (phys, s1) \<leftarrow> avmf_alloc_phys_contiguous PAGE_SIZE s;
        (virt, s2) \<leftarrow> avmf_alloc_virt pmap PAGE_SIZE MALLOC_TYPE_SENSITIVE s1;
        if virt = 0 then Some (NULL, 0, s2)
        else let tbl = AOS_DIRECT_MAP_BASE + phys in
          if tbl = NULL then Some (NULL, 0, s2)
          else Some (tbl, phys, s2\<lparr> tables := (tables s2)(ptr_phys tbl \<mapsto> (\<lambda>_. 0)) \<rparr>) }
      else
        let phys = first_pagemaps s + first_pagemaps_ptr s in
        if first_pagemaps_end s < phys + PAGE_SIZE then Some (NULL, 0, s)
        else let s1 = s\<lparr> first_pagemaps_ptr := first_pagemaps_ptr s + PAGE_SIZE \<rparr> in
          if phys = NULL then Some (NULL, 0, s1)
          else Some (phys, phys, s1\<lparr> tables := (tables s1)(ptr_phys phys \<mapsto> (\<lambda>_. 0)) \<rparr>))"

text \<open>The table behind entry \<open>i\<close> of \<open>p\<close>, allocated when the entry is not present.\<close>

definition next_table ::
  "(u64 \<Rightarrow> u64 \<Rightarrow> u64 \<Rightarrow> pstate \<Rightarrow> (u64 \<times> pstate) option) \<Rightarrow> u64 \<Rightarrow> nat \<Rightarrow> pstate \<Rightarrow> (u64 \<times> pstate) option" where
  "next_table pmap p i s =
     do { e \<leftarrow> get_entry p i s;
          if \<not> present e then do {
            (t, phys, s1) \<leftarrow> alloc_page_table pmap s;
            s2 \<leftarrow> set_entry p i (phys OR PAGE_PRESENT OR PAGE_RW) s1;
            Some (t, s2) }
          else Some (pager_phys_to_virt s (entry_addr e), s) }"

subsection \<open>Mapping\<close>

text \<open>The check at the head of \<open>pager_map\<close>; a shift by 64 or more has no C meaning.\<close>

definition phys_too_big :: "u64 \<Rightarrow> pstate \<Rightarrow> bool option" where
  "phys_too_big phys s =
     (if 64 \<le> cpu_phys_bits s then None
      else Some (phys AND NOT (push_bit (unat (cpu_phys_bits s)) 1 - 1) \<noteq> 0))"

definition map_huge :: "u64 \<Rightarrow> u64 \<Rightarrow> u64 \<Rightarrow> u64 \<Rightarrow> pstate \<Rightarrow> (u64 \<times> pstate) option" where
  "map_huge pd virt phys flags s =
     do { old \<leftarrow> get_entry pd (idx_pd virt) s;
          if present old then
            Some (if huge old \<and> huge_addr old = huge_addr phys then table (kernel_pml4 s) else NULL,
                  unlock_pml4 s)
          else do {
            s1 \<leftarrow> set_entry pd (idx_pd virt) (huge_addr phys OR (flags AND 0xFFF) OR PAGE_PRESENT) s;
            Some (table (kernel_pml4 s1), unlock_pml4 s1) } }"

definition map_small ::
  "(u64 \<Rightarrow> u64 \<Rightarrow> u64 \<Rightarrow> pstate \<Rightarrow> (u64 \<times> pstate) option) \<Rightarrow> u64 \<Rightarrow> u64 \<Rightarrow> u64 \<Rightarrow> u64 \<Rightarrow> pstate \<Rightarrow>
   (u64 \<times> pstate) option" where
  "map_small pmap pd virt phys flags s =
     do { e \<leftarrow> get_entry pd (idx_pd virt) s;
          if huge e then
            Some (if huge_addr e = huge_addr phys then table (kernel_pml4 s) else NULL, unlock_pml4 s)
          else do {
            (pt, s1) \<leftarrow> next_table pmap pd (idx_pd virt) s;
            old \<leftarrow> get_entry pt (idx_pt virt) s1;
            if present old then
              Some (if entry_addr old = entry_addr phys then table (kernel_pml4 s1) else NULL,
                    unlock_pml4 s1)
            else do {
              s2 \<leftarrow> set_entry pt (idx_pt virt) (entry_addr phys OR (flags AND 0xFFF) OR PAGE_PRESENT) s1;
              Some (table (kernel_pml4 s2), unlock_pml4 s2) } } }"

definition pager_map_with ::
  "(u64 \<Rightarrow> u64 \<Rightarrow> u64 \<Rightarrow> pstate \<Rightarrow> (u64 \<times> pstate) option) \<Rightarrow> u64 \<Rightarrow> u64 \<Rightarrow> u64 \<Rightarrow> pstate \<Rightarrow>
   (u64 \<times> pstate) option" where
  "pager_map_with pmap virt phys flags s =
     do { big \<leftarrow> phys_too_big phys s;
          if big \<or> table (kernel_pml4 s) = NULL then Some (NULL, s)
          else do {
            s1 \<leftarrow> lock_pml4 s;
            (pdpt, s2) \<leftarrow> next_table pmap (table (kernel_pml4 s1)) (idx_pml4 virt) s1;
            (pd, s3) \<leftarrow> next_table pmap pdpt (idx_pdpt virt) s2;
            if flags AND PAGE_HUGE \<noteq> 0 then map_huge pd virt phys flags s3
            else map_small pmap pd virt phys flags s3 } }"

definition pager_map_nested :: "u64 \<Rightarrow> u64 \<Rightarrow> u64 \<Rightarrow> pstate \<Rightarrow> (u64 \<times> pstate) option" where
  "pager_map_nested virt phys flags s =
     do { big \<leftarrow> phys_too_big phys s;
          if big \<or> table (kernel_pml4 s) = NULL then Some (NULL, s) else None }"

definition pager_map :: "u64 \<Rightarrow> u64 \<Rightarrow> u64 \<Rightarrow> pstate \<Rightarrow> (u64 \<times> pstate) option" where
  "pager_map = pager_map_with pager_map_nested"

text \<open>A call under the held lock is the nested call, whatever allocates its tables.\<close>

lemma pager_map_with_locked:
  "tbl_lock (kernel_pml4 s) \<Longrightarrow> pager_map_with pmap virt phys flags s = pager_map_nested virt phys flags s"
  by (cases "phys_too_big phys s") (simp_all add: pager_map_with_def pager_map_nested_def lock_pml4_def)

subsection \<open>Unmapping, loading and destroying\<close>

definition invlpg :: "u64 \<Rightarrow> pstate \<Rightarrow> pstate" where
  "invlpg addr s = (if \<not> pager_ready s then s else s\<lparr> invalidated := addr # invalidated s \<rparr>)"

definition pager_unmap :: "u64 \<Rightarrow> pstate \<Rightarrow> pstate option" where
  "pager_unmap virt s =
     (if \<not> mapped_pml4 s then Some s
      else do {
        s1 \<leftarrow> lock_pml4 s;
        e4 \<leftarrow> get_entry (table (kernel_pml4 s1)) (idx_pml4 virt) s1;
        if \<not> present e4 then Some (unlock_pml4 s1)
        else do {
          let pdpt = pager_phys_to_virt s1 (entry_addr e4);
          e3 \<leftarrow> get_entry pdpt (idx_pdpt virt) s1;
          if \<not> present e3 then Some (unlock_pml4 s1)
          else do {
            let pd = pager_phys_to_virt s1 (entry_addr e3);
            e2 \<leftarrow> get_entry pd (idx_pd virt) s1;
            if huge e2 then do {
              s2 \<leftarrow> set_entry pd (idx_pd virt) (e2 AND NOT PAGE_PRESENT) s1;
              Some (invlpg virt (unlock_pml4 s2)) }
            else if \<not> present e2 then Some (unlock_pml4 s1)
            else do {
              let pt = pager_phys_to_virt s1 (entry_addr e2);
              e1 \<leftarrow> get_entry pt (idx_pt virt) s1;
              s2 \<leftarrow> set_entry pt (idx_pt virt) (e1 AND NOT PAGE_PRESENT) s1;
              Some (invlpg virt (unlock_pml4 s2)) } } } })"

definition pager_load :: "pstate \<Rightarrow> pstate option" where
  "pager_load s =
     do { let pml4_phys = (if pager_ready s \<and> table_phys (kernel_pml4 s) = 0
                           then table (kernel_pml4 s) else table_phys (kernel_pml4 s));
          s1 \<leftarrow> lock_pml4 s;
          Some ((unlock_pml4 (s1\<lparr> cr3 := pml4_phys \<rparr>))\<lparr> mapped_pml4 := True \<rparr>) }"

text \<open>The loop of \<open>destroy_table\<close> over the entries, given the call for a subtable.\<close>

fun destroy_entries ::
  "(u64 \<Rightarrow> u64 \<Rightarrow> pstate \<Rightarrow> pstate option) \<Rightarrow> bool \<Rightarrow> u64 \<Rightarrow> nat list \<Rightarrow> pstate \<Rightarrow> pstate option" where
  "destroy_entries sub level2 p [] s = Some s"
| "destroy_entries sub level2 p (i # is) s =
     do { e \<leftarrow> get_entry p i s;
          if \<not> present e \<or> (level2 \<and> huge e) then destroy_entries sub level2 p is s
          else do {
            s1 \<leftarrow> sub (pager_phys_to_virt s (entry_addr e)) (entry_addr e) s;
            s2 \<leftarrow> set_entry p i 0 s1;
            destroy_entries sub level2 p is s2 } }"

text \<open>A level below 1 is treated as level 1, so \<open>nat\<close> stands for the \<open>int\<close> of the code.\<close>

fun destroy_table :: "nat \<Rightarrow> u64 \<Rightarrow> u64 \<Rightarrow> pstate \<Rightarrow> pstate option" where
  "destroy_table 0 p phys s =
     (if p = NULL then Some s else avmf_free_phys_contiguous phys PAGE_SIZE s)"
| "destroy_table (Suc l) p phys s =
     (if p = NULL then Some s
      else do { s1 \<leftarrow> (if 1 < Suc l then destroy_entries (destroy_table l) (Suc l = 2) p [0..<512] s else Some s);
                avmf_free_phys_contiguous phys PAGE_SIZE s1 })"

definition pager_destroy_table :: "nat \<Rightarrow> pstate \<Rightarrow> pstate option" where
  "pager_destroy_table level s =
     (if mapped_pml4 s then destroy_table level (table (kernel_pml4 s)) (table_phys (kernel_pml4 s)) s
      else None)"

subsection \<open>Initialisation\<close>

lemma unat_drop_bit_1: "unat (drop_bit 1 n :: u64) = unat n div 2"
  unfolding unat_drop_bit_eq by (simp add: drop_bit_eq_div)

lemma drop_bit_1_less: "drop_bit 1 n \<noteq> 0 \<Longrightarrow> unat (drop_bit 1 n :: u64) < unat n"
  unfolding unat_eq_0 [symmetric] unat_drop_bit_1 by linarith

function (sequential) bits_loop :: "u64 \<Rightarrow> u64 \<Rightarrow> u64" where
  "bits_loop count n = (if drop_bit 1 n \<noteq> 0 then bits_loop (count + 1) (drop_bit 1 n) else count + 1)"
  by pat_completeness auto

termination by (relation "measure (\<lambda>(c, n). unat n)") (simp_all add: drop_bit_1_less del: One_nat_def)

declare bits_loop.simps [simp del]

definition bits_needed :: "u64 \<Rightarrow> u64" where
  "bits_needed n = bits_loop 0 n"

text \<open>
  The scan of the memory map: the largest end address and the free areas above the kernel,
  in the arrays \<open>base_phys\<close> and \<open>limit_phys\<close> of 256 elements.
\<close>

fun scan_entries ::
  "u64 \<Rightarrow> uniboot_smmap_entry list \<Rightarrow> u64 \<Rightarrow> (u64 \<times> u64) list \<Rightarrow> (u64 \<times> (u64 \<times> u64) list) option" where
  "scan_entries privilaged [] max_phys_addr free = Some (max_phys_addr, free)"
| "scan_entries privilaged (e # es) max_phys_addr free =
     (let end_addr = phys_start e + e_size e in
      if e_size e = 0 then scan_entries privilaged es max_phys_addr free
      else let m = (if max_phys_addr < end_addr then end_addr else max_phys_addr) in
        if e_type e = UNIBOOT_SMMAP_TYPE_FREE then
          if phys_start e < privilaged \<and> e_size e \<le> privilaged - phys_start e
          then scan_entries privilaged es m free
          else if 256 \<le> length free then None
          else scan_entries privilaged es m
                 (free @ [(if phys_start e < privilaged then privilaged else phys_start e, end_addr)])
        else scan_entries privilaged es m free)"

definition limit_to_cpu :: "u64 \<Rightarrow> u64 \<Rightarrow> u64" where
  "limit_to_cpu phys_bits max_phys_addr =
     (if phys_bits < bits_needed max_phys_addr
      then (if 64 \<le> phys_bits then UINT64_MAX else push_bit (unat phys_bits) 1 - 1)
      else max_phys_addr)"

partial_function (option) alloc_root_loop :: "pstate \<Rightarrow> pstate option" where
  "alloc_root_loop s =
     (if table (kernel_pml4 s) = NULL then do {
        (t, phys, s1) \<leftarrow> alloc_page_table pager_map_nested s;
        alloc_root_loop (s1\<lparr> kernel_pml4 := \<lparr> table_phys = phys, tbl_lock = False, table = t \<rparr> \<rparr>) }
      else Some s)"

fun map_structs :: "uniboot_smmap_entry list \<Rightarrow> pstate \<Rightarrow> pstate option" where
  "map_structs [] s = Some s"
| "map_structs (e # es) s =
     (if e_size e \<noteq> 0 \<and> e_type e = UNIBOOT_SMMAP_TYPE_UNIBOOT_STRUCTS
      then do { s1 \<leftarrow> pager_map_range pager_map (phys_start e) (phys_start e) (e_size e)
                        (PAGE_PRESENT OR PAGE_RW OR PAGE_XD) s;
                map_structs es s1 }
      else map_structs es s)"

text \<open>
  \<open>pager_init\<close>: the first arguments are the linker's \<open>__kstart\<close> and \<open>__bss_end\<close> and the
  word \<open>eax\<close> that \<open>cpuid\<close> leaf 0x80000008 gives. Without boot information it panics.
\<close>

definition pager_init ::
  "u64 \<Rightarrow> u64 \<Rightarrow> u32 \<Rightarrow> uniboot_boot_info option \<Rightarrow> uniboot_smmap option \<Rightarrow> pstate \<Rightarrow> pstate option" where
  "pager_init kstart bss_end eax binfo smmap s0 =
     do {
       bi \<leftarrow> binfo; m \<leftarrow> smmap; arr \<leftarrow> m_entries m;
       if length arr < unat (m_count m) then None
       else do {
         let es = take (unat (m_count m)) arr;
         (max_phys, free) \<leftarrow> scan_entries (ALIGN_UP (bss_end + 0x1000000) PAGE_SIZE) es 0 [];
         let pbits = ucast (eax AND 0xFF);
         let max_phys_addr = limit_to_cpu pbits max_phys;
         let s1 = s0\<lparr> pager_ready := False, first_pagemaps := kernel_space bi,
                       first_pagemaps_end := kernel_space_end bi, cpu_phys_bits := pbits,
                       cpu_virt_bits := ucast (drop_bit 8 eax AND 0xFF) \<rparr>;
         s2 \<leftarrow> avmf_init free (of_nat (length free)) s1;
         s3 \<leftarrow> alloc_root_loop s2;
         s4 \<leftarrow> pager_map_range pager_map AOS_DIRECT_MAP_BASE 0 max_phys_addr
                 (PAGE_PRESENT OR PAGE_RW OR PAGE_PCD OR PAGE_XD) s3;
         s5 \<leftarrow> pager_map_range pager_map kstart kstart (bss_end - kstart) (PAGE_PRESENT OR PAGE_RW) s4;
         s6 \<leftarrow> pager_map_range pager_map (first_pagemaps s5) (first_pagemaps s5)
                 (first_pagemaps_end s5 - first_pagemaps s5) (PAGE_PRESENT OR PAGE_RW OR PAGE_XD) s5;
         s7 \<leftarrow> map_structs es s6;
         s8 \<leftarrow> pager_load s7;
         Some (s8\<lparr> pager_ready := True \<rparr>) } }"

end
