(* ===== verification/PagerSpec.thy ===== *)
theory PagerSpec
  imports Pager
begin

text \<open>
  What the pager's operations do to the address translation: the walk of the page tables as
  the processor does it, the tree the tables form, and the effect of mapping and unmapping.
\<close>

subsection \<open>The walk\<close>

definition idx_at :: "nat \<Rightarrow> u64 \<Rightarrow> nat" where
  "idx_at n v = unat (drop_bit (9 * n + 3) v AND 0x1FF)"

lemma idx_at_levels:
  "idx_pml4 v = idx_at 4 v" "idx_pdpt v = idx_at 3 v" "idx_pd v = idx_at 2 v" "idx_pt v = idx_at (Suc 0) v"
  by (simp_all add: idx_at_def idx_pml4_def idx_pdpt_def idx_pd_def idx_pt_def)

text \<open>An entry of a table of level \<open>n\<close> that leads to a table of the level below.\<close>

definition link :: "nat \<Rightarrow> u64 \<Rightarrow> bool" where
  "link n e \<longleftrightarrow> 1 < n \<and> present e \<and> \<not> (n = 2 \<and> huge e)"

text \<open>The entry that maps \<open>v\<close>, with its level, from the table \<open>x\<close> of level \<open>n\<close> on.\<close>

fun walk :: "(u64 \<rightharpoonup> page_table) \<Rightarrow> nat \<Rightarrow> u64 \<Rightarrow> u64 \<Rightarrow> (u64 \<times> nat) option" where
  "walk T 0 x v = None"
| "walk T (Suc n) x v =
     (case T x of None \<Rightarrow> None
      | Some t \<Rightarrow> let e = t (idx_at (Suc n) v) in
          if \<not> present e then None
          else if link (Suc n) e then walk T n (entry_addr e) v
          else Some (e, Suc n))"

lemma walk_entry:
  assumes "T x = Some t" "t (idx_at (Suc n) v) = e"
  shows "walk T (Suc n) x v =
    (if \<not> present e then None else if link (Suc n) e then walk T n (entry_addr e) v else Some (e, Suc n))"
  using assms by (simp add: Let_def)

lemma walk_at:
  assumes "T x = Some t"
  shows "walk T (Suc n) x v =
    (let e = t (idx_at (Suc n) v) in
     if \<not> present e then None else if link (Suc n) e then walk T n (entry_addr e) v else Some (e, Suc n))"
  using assms by (simp add: Let_def)

declare walk.simps(2) [simp del]

definition translate :: "pstate \<Rightarrow> u64 \<Rightarrow> u64 option" where
  "translate s v =
     (case walk (tables s) 4 (ptr_phys (table (kernel_pml4 s))) v of
        None \<Rightarrow> None
      | Some (e, n) \<Rightarrow> Some (if n = 2 then huge_addr e + (v AND 0x1FFFFF) else entry_addr e + (v AND 0xFFF)))"

text \<open>The walk for \<open>v\<close> reads table \<open>z\<close>.\<close>

fun visits :: "(u64 \<rightharpoonup> page_table) \<Rightarrow> nat \<Rightarrow> u64 \<Rightarrow> u64 \<Rightarrow> u64 \<Rightarrow> bool" where
  "visits T 0 x v z \<longleftrightarrow> False"
| "visits T (Suc n) x v z \<longleftrightarrow> x = z \<or>
     (case T x of None \<Rightarrow> False
      | Some t \<Rightarrow> link (Suc n) (t (idx_at (Suc n) v)) \<and> visits T n (entry_addr (t (idx_at (Suc n) v))) v z)"

subsection \<open>The tree\<close>

text \<open>
  The tables form a tree with root \<open>r\<close>: every link leads to a table one level below, and no
  two links to the same one. \<open>L\<close> gives the level of each table.
\<close>

definition tree_ok :: "(u64 \<rightharpoonup> page_table) \<Rightarrow> u64 \<Rightarrow> (u64 \<Rightarrow> nat) \<Rightarrow> bool" where
  "tree_ok T r L \<longleftrightarrow> T r \<noteq> None \<and> L r = 4 \<and>
     (\<forall>x t i. T x = Some t \<longrightarrow> link (L x) (t i) \<longrightarrow>
        T (entry_addr (t i)) \<noteq> None \<and> L (entry_addr (t i)) = L x - 1) \<and>
     (\<forall>x t i y u j. T x = Some t \<longrightarrow> T y = Some u \<longrightarrow> link (L x) (t i) \<longrightarrow> link (L y) (u j) \<longrightarrow>
        entry_addr (t i) = entry_addr (u j) \<longrightarrow> x = y \<and> i = j)"

lemma tree_link:
  assumes "tree_ok T r L" "T x = Some t" "link (L x) (t i)"
  shows "\<exists>u. T (entry_addr (t i)) = Some u" "L (entry_addr (t i)) = L x - 1"
  using assms unfolding tree_ok_def by blast+

lemma tree_inj:
  assumes "tree_ok T r L" "T x = Some t" "T y = Some u" "link (L x) (t i)" "link (L y) (u j)"
    "entry_addr (t i) = entry_addr (u j)"
  shows "x = y \<and> i = j"
  using assms unfolding tree_ok_def by blast

lemma visits_level:
  assumes "tree_ok T r L" "visits T n x v z" "L x = n" "T x \<noteq> None"
  shows "L z \<le> n \<and> (L z = n \<longrightarrow> x = z)"
  using assms(2-)
proof (induction n arbitrary: x)
  case (Suc n)
  show ?case
  proof (cases "x = z")
    case False
    with Suc.prems obtain t where t: "T x = Some t" "link (Suc n) (t (idx_at (Suc n) v))"
      "visits T n (entry_addr (t (idx_at (Suc n) v))) v z" by (auto split: option.splits)
    then have "L (entry_addr (t (idx_at (Suc n) v))) = n" "T (entry_addr (t (idx_at (Suc n) v))) \<noteq> None"
      using tree_link [OF assms(1) t(1), of "idx_at (Suc n) v"] Suc.prems(2) by auto
    from Suc.IH [OF t(3) this] show ?thesis by simp
  qed (use Suc.prems in simp)
qed simp

text \<open>Two walks that read the same table agree on every index above it.\<close>

lemma visits_unique:
  assumes tree: "tree_ok T r L"
  shows "visits T n x v z \<Longrightarrow> visits T n y w z \<Longrightarrow> L x = n \<Longrightarrow> L y = n \<Longrightarrow> T x \<noteq> None \<Longrightarrow> T y \<noteq> None \<Longrightarrow>
    x = y \<and> (\<forall>k. L z < k \<and> k \<le> n \<longrightarrow> idx_at k v = idx_at k w)"
proof (induction n arbitrary: x y)
  case (Suc n)
  show ?case
  proof (cases "x = z \<or> y = z")
    case True
    then have "L z = Suc n" using Suc.prems by auto
    then show ?thesis
      using visits_level [OF tree Suc.prems(1,3,5)] visits_level [OF tree Suc.prems(2,4,6)] by auto
  next
    case False
    from False Suc.prems(1) obtain t where t: "T x = Some t" "link (Suc n) (t (idx_at (Suc n) v))"
      "visits T n (entry_addr (t (idx_at (Suc n) v))) v z" by (auto split: option.splits)
    from False Suc.prems(2) obtain u where u: "T y = Some u" "link (Suc n) (u (idx_at (Suc n) w))"
      "visits T n (entry_addr (u (idx_at (Suc n) w))) w z" by (auto split: option.splits)
    have t2: "L (entry_addr (t (idx_at (Suc n) v))) = n" "T (entry_addr (t (idx_at (Suc n) v))) \<noteq> None"
      using tree_link [OF tree t(1), of "idx_at (Suc n) v"] t(2) Suc.prems(3) by auto
    have u2: "L (entry_addr (u (idx_at (Suc n) w))) = n" "T (entry_addr (u (idx_at (Suc n) w))) \<noteq> None"
      using tree_link [OF tree u(1), of "idx_at (Suc n) w"] u(2) Suc.prems(4) by auto
    from Suc.IH [OF t(3) u(3) t2(1) u2(1) t2(2) u2(2)]
    have eq: "entry_addr (t (idx_at (Suc n) v)) = entry_addr (u (idx_at (Suc n) w))"
      and low: "\<forall>k. L z < k \<and> k \<le> n \<longrightarrow> idx_at k v = idx_at k w" by auto
    have "x = y \<and> idx_at (Suc n) v = idx_at (Suc n) w"
      using tree_inj [OF tree t(1) u(1), of "idx_at (Suc n) v" "idx_at (Suc n) w"] t(2) u(2) Suc.prems(3,4) eq by simp
    then show ?thesis using low by (auto simp: le_Suc_eq)
  qed
qed simp

subsection \<open>Changing one entry\<close>

text \<open>An entry that is not on the walk of \<open>w\<close> does not matter to it.\<close>

lemma walk_other:
  assumes "T z = Some t" "\<not> (visits T n x w z \<and> idx_at (L z) w = i)"
    and tree: "tree_ok T r L" and x: "L x = n" "T x \<noteq> None"
  shows "walk (T(z \<mapsto> t(i := e))) n x w = walk T n x w"
  using assms(2) x
proof (induction n arbitrary: x)
  case (Suc n)
  obtain u where u: "T x = Some u" using Suc.prems by blast
  let ?T = "T(z \<mapsto> t(i := e))"
  let ?e = "u (idx_at (Suc n) w)"
  obtain u' where u': "(T(z \<mapsto> t(i := e))) x = Some u'" "u' (idx_at (Suc n) w) = ?e"
    using Suc.prems(1,2) u assms(1) by (cases "x = z") auto
  show ?case
  proof (cases "link (Suc n) ?e")
    case True
    then have nxt: "T (entry_addr ?e) \<noteq> None" "L (entry_addr ?e) = n"
      using tree_link [OF tree u, of "idx_at (Suc n) w"] Suc.prems(2) by auto
    have "\<not> (visits T n (entry_addr ?e) w z \<and> idx_at (L z) w = i)"
      using Suc.prems(1) u True by auto
    from Suc.IH [OF this nxt(2,1)] show ?thesis
      by (simp add: walk_at [where x = x and T = T, OF u] Let_def walk_entry [where T = ?T and x = x and t = u', OF u'] del: fun_upd_apply)
  qed (simp add: walk_at [where x = x and T = T, OF u] Let_def walk_entry [where T = ?T and x = x and t = u', OF u'] del: fun_upd_apply)
qed simp

text \<open>The tree stays a tree when an entry that was no link becomes an entry that is none.\<close>

lemma tree_ok_leaf:
  assumes tree: "tree_ok T r L" and z: "T z = Some t" and e: "\<not> link (L z) e"
  shows "tree_ok (T(z \<mapsto> t(i := e))) r L"
proof -
  let ?T = "T(z \<mapsto> t(i := e))"
  have old: "\<exists>u0. T x = Some u0 \<and> u0 j = u j" if "?T x = Some u" "link (L x) (u j)" for x u j
    using that z e by (auto split: if_splits)
  have dom: "?T x \<noteq> None \<longleftrightarrow> T x \<noteq> None" for x using z by simp
  show ?thesis
    unfolding tree_ok_def dom
  proof (intro conjI allI impI)
    show "T r \<noteq> None" "L r = 4" using tree by (simp_all add: tree_ok_def)
  next
    fix x u j assume *: "?T x = Some u" "link (L x) (u j)"
    obtain u0 where u0: "T x = Some u0" "u0 j = u j" using old [OF *] by blast
    have "link (L x) (u0 j)" using *(2) u0(2) by simp
    from tree_link [OF tree u0(1) this]
    show "T (entry_addr (u j)) \<noteq> None" "L (entry_addr (u j)) = L x - 1"
      unfolding u0(2) by auto
  next
    fix x u j y w k
    assume *: "?T x = Some u" "?T y = Some w" "link (L x) (u j)" "link (L y) (w k)"
      "entry_addr (u j) = entry_addr (w k)"
    obtain u0 where u0: "T x = Some u0" "u0 j = u j" using old [OF *(1,3)] by blast
    obtain w0 where w0: "T y = Some w0" "w0 k = w k" using old [OF *(2,4)] by blast
    have "x = y \<and> j = k"
      using tree_inj [OF tree u0(1) w0(1), of j k] * u0(2) w0(2) by simp
    then show "x = y" "j = k" by simp_all
  qed
qed

text \<open>A new empty table \<open>q\<close> behind an entry that was not present.\<close>

lemma walk_new_table:
  assumes tree: "tree_ok T r L" and z: "T z = Some t" "\<not> present (t i)" and q: "T q = None"
    and e: "entry_addr e = q" "link (L z) e" and x: "L x = n" "T x \<noteq> None"
  shows "walk (T(q \<mapsto> (\<lambda>_. 0), z \<mapsto> t(i := e))) n x v = walk T n x v"
  using x
proof (induction n arbitrary: x)
  case (Suc n)
  let ?T = "T(q \<mapsto> (\<lambda>_. 0), z \<mapsto> t(i := e))"
  obtain u where u: "T x = Some u" using Suc.prems by blast
  have neq: "x \<noteq> q" "z \<noteq> q" using u z q by auto
  let ?j = "idx_at (Suc n) v"
  show ?case
  proof (cases "x = z \<and> ?j = i")
    case True
    have new: "?T x = Some (t(i := e))" "(t(i := e)) ?j = e" using True by simp_all
    have "walk ?T n q v = None"
    proof (cases n)
      case (Suc m)
      have "?T q = Some (\<lambda>_. 0)" using neq by simp
      from walk_at [where T = ?T and x = q, OF this, of m v] show ?thesis unfolding Suc by (simp add: present_def)
    qed simp
    then have "walk ?T (Suc n) x v = None"
      unfolding walk_entry [where T = ?T and x = x, OF new] using e True Suc.prems by simp
    moreover have "walk T (Suc n) x v = None" using True z by (simp add: walk_entry [where t = t])
    ultimately show ?thesis by (simp only:)
  next
    case False
    obtain u' where u': "?T x = Some u'" "u' ?j = u ?j"
      using False u z neq by (cases "x = z") auto
    show ?thesis
    proof (cases "link (Suc n) (u ?j)")
      case True
      then have "T (entry_addr (u ?j)) \<noteq> None" "L (entry_addr (u ?j)) = n"
        using tree_link [OF tree u, of ?j] Suc.prems(1) by auto
      from Suc.IH [OF this(2,1)] show ?thesis
        by (simp add: walk_at [where x = x and T = T, OF u] Let_def walk_entry [where T = ?T and x = x and t = u', OF u'] del: fun_upd_apply)
    qed (simp add: walk_at [where x = x and T = T, OF u] Let_def walk_entry [where T = ?T and x = x and t = u', OF u'] del: fun_upd_apply)
  qed
qed simp

lemma tree_ok_new_table:
  assumes tree: "tree_ok T r L" and z: "T z = Some t" "\<not> present (t i)" and q: "T q = None"
    and e: "entry_addr e = q" "link (L z) e"
  shows "tree_ok (T(q \<mapsto> (\<lambda>_. 0), z \<mapsto> t(i := e))) r (L(q := L z - 1))"
proof -
  let ?T = "T(q \<mapsto> (\<lambda>_. 0), z \<mapsto> t(i := e))"
  let ?L = "L(q := L z - 1)"
  have zq: "z \<noteq> q" using z q by auto
  have nq: "T x = Some u \<Longrightarrow> x \<noteq> q" for x u using q by auto
  have cases: "x = z \<and> j = i \<and> u j = e \<or>
      (\<exists>u0. T x = Some u0 \<and> u0 j = u j \<and> link (L x) (u0 j) \<and> x \<noteq> q \<and> entry_addr (u j) \<noteq> q)"
    if *: "?T x = Some u" "link (?L x) (u j)" for x u j
  proof -
    have "x \<noteq> q" using * zq by (auto simp: link_def present_def)
    then consider "x = z" "j = i" "u j = e" | u0 where "T x = Some u0" "u0 j = u j"
      using *(1) z by (cases "x = z \<and> j = i") (auto split: if_splits)
    then show ?thesis
    proof cases
      case (2 u0)
      have "link (L x) (u0 j)" using *(2) 2 \<open>x \<noteq> q\<close> by simp
      moreover have "entry_addr (u j) \<noteq> q"
        using tree_link(1) [OF tree 2(1) calculation] 2(2) q by auto
      ultimately show ?thesis using 2 \<open>x \<noteq> q\<close> by blast
    qed simp
  qed
  have r: "r \<noteq> q" using tree q by (auto simp: tree_ok_def)
  have dom: "?T x \<noteq> None \<longleftrightarrow> x = q \<or> T x \<noteq> None" for x using z by simp
  show ?thesis
    unfolding tree_ok_def
  proof (intro conjI allI impI)
    show "?T r \<noteq> None" "?L r = 4" using tree r dom by (simp_all add: tree_ok_def)
  next
    fix x u j assume *: "?T x = Some u" "link (?L x) (u j)"
    from cases [OF *] have "(?T (entry_addr (u j)) \<noteq> None) \<and> ?L (entry_addr (u j)) = ?L x - 1"
    proof (elim disjE conjE exE)
      assume "x = z" "u j = e" then show ?thesis unfolding dom using e zq by simp
    next
      fix u0 assume 0: "T x = Some u0" "u0 j = u j" "link (L x) (u0 j)" "x \<noteq> q" "entry_addr (u j) \<noteq> q"
      from tree_link [OF tree 0(1,3)] 0(2,4,5) show ?thesis unfolding dom by auto
    qed
    then show "?T (entry_addr (u j)) \<noteq> None" "?L (entry_addr (u j)) = ?L x - 1" by blast+
  next
    fix x u j y w k
    assume *: "?T x = Some u" "?T y = Some w" "link (?L x) (u j)" "link (?L y) (w k)"
      "entry_addr (u j) = entry_addr (w k)"
    from cases [OF *(1,3)] cases [OF *(2,4)] have "x = y \<and> j = k"
    proof (elim disjE conjE exE)
      fix u0 w0 assume 0: "T x = Some u0" "u0 j = u j" "link (L x) (u0 j)"
        "T y = Some w0" "w0 k = w k" "link (L y) (w0 k)"
      from tree_inj [OF tree 0(1,4,3,6)] show "x = y \<and> j = k" using 0(2,5) *(5) by simp
    qed (use *(5) e in simp_all)
    then show "x = y" "j = k" by simp_all
  qed
qed

lemma visits_walk:
  assumes "tree_ok T r L"
  shows "visits T n x v z \<Longrightarrow> L x = n \<Longrightarrow> T x \<noteq> None \<Longrightarrow> walk T n x v = walk T (L z) z v"
proof (induction n arbitrary: x)
  case (Suc n)
  show ?case
  proof (cases "x = z")
    case False
    with Suc.prems(1) obtain t where t: "T x = Some t" "link (Suc n) (t (idx_at (Suc n) v))"
      "visits T n (entry_addr (t (idx_at (Suc n) v))) v z" by (auto split: option.splits)
    then have "L (entry_addr (t (idx_at (Suc n) v))) = n" "T (entry_addr (t (idx_at (Suc n) v))) \<noteq> None"
      using tree_link [OF assms t(1), of "idx_at (Suc n) v"] Suc.prems(2) by auto
    from Suc.IH [OF t(3) this] t(2) show ?thesis
      by (simp add: walk_at [where T = T and x = x, OF t(1)] link_def)
  qed (use Suc.prems(2) in simp)
qed simp

text \<open>The tables change from \<open>T\<close> to \<open>T'\<close> and every walk stays what it was.\<close>

definition extends :: "(u64 \<rightharpoonup> page_table) \<Rightarrow> (u64 \<Rightarrow> nat) \<Rightarrow> (u64 \<rightharpoonup> page_table) \<Rightarrow> (u64 \<Rightarrow> nat) \<Rightarrow> bool" where
  "extends T L T' L' \<longleftrightarrow>
     (\<forall>y u. T y = Some u \<longrightarrow> L' y = L y \<and> (\<exists>u'. T' y = Some u' \<and> (\<forall>j. present (u j) \<longrightarrow> u' j = u j))) \<and>
     (\<forall>y v. T y \<noteq> None \<longrightarrow> walk T' (L y) y v = walk T (L y) y v)"

lemma extends_refl: "extends T L T L"
  by (simp add: extends_def)

lemma extends_trans:
  assumes 1: "extends T L T' L'" and 2: "extends T' L' T'' L''"
  shows "extends T L T'' L''"
proof -
  have "L'' y = L y \<and> (\<exists>u''. T'' y = Some u'' \<and> (\<forall>j. present (u j) \<longrightarrow> u'' j = u j)) \<and>
      (\<forall>v. walk T'' (L y) y v = walk T (L y) y v)" if y: "T y = Some u" for y u
  proof -
    obtain u' where a: "T' y = Some u'" "L' y = L y" "\<forall>j. present (u j) \<longrightarrow> u' j = u j"
      using 1 y unfolding extends_def by blast
    obtain u'' where b: "T'' y = Some u''" "L'' y = L' y" "\<forall>j. present (u' j) \<longrightarrow> u'' j = u' j"
      using 2 a(1) unfolding extends_def by blast
    have "T y \<noteq> None" "T' y \<noteq> None" using y a(1) by simp_all
    then have c: "walk T' (L y) y v = walk T (L y) y v" "walk T'' (L' y) y v = walk T' (L' y) y v" for v
      using 1 2 unfolding extends_def by blast+
    show ?thesis
    proof (intro conjI allI)
      show "L'' y = L y" using a(2) b(2) by simp
      show "\<exists>u''. T'' y = Some u'' \<and> (\<forall>j. present (u j) \<longrightarrow> u'' j = u j)"
        using b(1,3) a(3) by auto
      show "walk T'' (L y) y v = walk T (L y) y v" for v using c [of v] a(2) by simp
    qed
  qed
  then show ?thesis unfolding extends_def by blast
qed

lemma extends_dom: "extends T L T' L' \<Longrightarrow> T y \<noteq> None \<Longrightarrow> T' y \<noteq> None \<and> L' y = L y"
  unfolding extends_def by blast

lemma extends_walk: "extends T L T' L' \<Longrightarrow> T y \<noteq> None \<Longrightarrow> walk T' (L y) y v = walk T (L y) y v"
  by (simp add: extends_def)

lemma extends_visits:
  assumes ext: "extends T L T' L'" and tree: "tree_ok T r L"
  shows "visits T n x v z \<Longrightarrow> L x = n \<Longrightarrow> T x \<noteq> None \<Longrightarrow> visits T' n x v z"
proof (induction n arbitrary: x)
  case (Suc n)
  show ?case
  proof (cases "x = z")
    case False
    let ?i = "idx_at (Suc n) v"
    from False Suc.prems(1) obtain t where t: "T x = Some t" "link (Suc n) (t ?i)"
      "visits T n (entry_addr (t ?i)) v z" by (auto split: option.splits)
    obtain t' where t': "T' x = Some t'" "t' ?i = t ?i"
      using ext t(1,2) unfolding extends_def link_def by blast
    have "L (entry_addr (t ?i)) = n" "T (entry_addr (t ?i)) \<noteq> None"
      using tree_link [OF tree t(1), of ?i] t(2) Suc.prems(2) by auto
    from Suc.IH [OF t(3) this] t(2) t' show ?thesis by simp
  qed simp
qed simp

lemma extends_new_table:
  assumes tree: "tree_ok T r L" and z: "T z = Some t" "\<not> present (t i)" and q: "T q = None"
    and e: "entry_addr e = q" "link (L z) e"
  shows "extends T L (T(q \<mapsto> (\<lambda>_. 0), z \<mapsto> t(i := e))) (L(q := L z - 1))"
  unfolding extends_def
proof (intro conjI allI impI)
  fix y u assume y: "T y = Some u"
  then show "(L(q := L z - 1)) y = L y" using q by auto
  show "\<exists>u'. (T(q \<mapsto> (\<lambda>_. 0), z \<mapsto> t(i := e))) y = Some u' \<and> (\<forall>j. present (u j) \<longrightarrow> u' j = u j)"
    using y q z by (cases "y = z") auto
qed (use walk_new_table [OF tree z q e refl] in blast)

text \<open>A leaf entry of level \<open>n\<close> on the walk of \<open>v\<close>.\<close>

lemma set_leaf:
  assumes tree: "tree_ok T r L" and vis: "visits T 4 r v z" and z: "T z = Some t" "L z = Suc n"
    and e: "\<not> link (Suc n) e"
  shows "tree_ok (T(z \<mapsto> t(idx_at (Suc n) v := e))) r L"
    and "walk (T(z \<mapsto> t(idx_at (Suc n) v := e))) 4 r v = (if present e then Some (e, Suc n) else None)"
    and "\<And>w. \<exists>k. Suc n \<le> k \<and> k \<le> 4 \<and> idx_at k w \<noteq> idx_at k v \<Longrightarrow>
           walk (T(z \<mapsto> t(idx_at (Suc n) v := e))) 4 r w = walk T 4 r w"
    and "\<And>w. \<not> present (t (idx_at (Suc n) v)) \<Longrightarrow> walk T 4 r w \<noteq> None \<Longrightarrow>
           walk (T(z \<mapsto> t(idx_at (Suc n) v := e))) 4 r w = walk T 4 r w"
proof -
  let ?i = "idx_at (Suc n) v"
  let ?T = "T(z \<mapsto> t(?i := e))"
  have r: "L r = 4" "T r \<noteq> None" using tree by (auto simp: tree_ok_def)
  show tree': "tree_ok ?T r L" using tree_ok_leaf [OF tree z(1)] e z(2) by simp
  have vis': "visits ?T m x v z" if "visits T m x v z" "L x = m" "T x \<noteq> None" for m x
    using that
  proof (induction m arbitrary: x)
    case (Suc m)
    show ?case
    proof (cases "x = z")
      case False
      let ?j = "idx_at (Suc m) v"
      from False Suc.prems(1) obtain u where u: "T x = Some u" "link (Suc m) (u ?j)"
        "visits T m (entry_addr (u ?j)) v z" by (auto split: option.splits)
      have "L (entry_addr (u ?j)) = m" "T (entry_addr (u ?j)) \<noteq> None"
        using tree_link [OF tree u(1), of ?j] u(2) Suc.prems(2) by auto
      from Suc.IH [OF u(3) this] u(1,2) False show ?thesis by simp
    qed simp
  qed simp
  have at_z: "?T z = Some (t(?i := e))" "(t(?i := e)) ?i = e" by simp_all
  have "walk ?T 4 r v = walk ?T (L z) z v"
    using visits_walk [OF tree' vis' [OF vis r] r(1)] r(2) z(1) by auto
  also have "\<dots> = (if present e then Some (e, Suc n) else None)"
    unfolding z(2) walk_entry [where T = ?T and x = z, OF at_z] using e by simp
  finally show "walk ?T 4 r v = (if present e then Some (e, Suc n) else None)" .
  have on: "walk ?T 4 r w = walk T 4 r w" if "\<not> (visits T 4 r w z \<and> idx_at (L z) w = ?i)" for w
    by (rule walk_other [OF z(1) that tree r])
  show "walk ?T 4 r w = walk T 4 r w" if "\<exists>k. Suc n \<le> k \<and> k \<le> 4 \<and> idx_at k w \<noteq> idx_at k v" for w
  proof (rule on, rule notI)
    assume *: "visits T 4 r w z \<and> idx_at (L z) w = ?i"
    then have "\<forall>k. L z < k \<and> k \<le> 4 \<longrightarrow> idx_at k w = idx_at k v"
      using visits_unique [OF tree, of 4 r w z r v] vis r by blast
    then show False using that * z(2) by (metis le_less not_less_eq_eq)
  qed
  show "walk ?T 4 r w = walk T 4 r w" if "\<not> present (t ?i)" "walk T 4 r w \<noteq> None" for w
  proof (rule on, rule notI)
    assume *: "visits T 4 r w z \<and> idx_at (L z) w = ?i"
    have "walk T 4 r w = walk T (Suc n) z w" using visits_walk [OF tree conjunct1 [OF *] r] unfolding z(2) .
    also have "\<dots> = None" using that(1) * z(2) by (simp add: walk_at [where T = T and x = z, OF z(1)])
    finally show False using that(2) by simp
  qed
qed

subsection \<open>Addresses in entries\<close>

lemma unat_entry_addr: "unat (entry_addr e) = unat e div 4096 * 4096"
  using unat_mask_clear [of e 12] unfolding entry_addr_def by (simp add: mask_eq_exp_minus_1)

lemma entry_addr_id: "4096 dvd unat e \<Longrightarrow> entry_addr e = e"
  by (rule u64_eqI) (simp add: unat_entry_addr)

lemma entry_addr_dvd: "4096 dvd unat (entry_addr e)"
  by (simp add: unat_entry_addr)

lemma bits_4096: "bit (0xFFF :: u64) k \<longleftrightarrow> k < 12" "bit (0x1FFFFF :: u64) k \<longleftrightarrow> k < 21"
  using bit_mask_iff [of 12 k, where ?'a = "64 word"] bit_mask_iff [of 21 k, where ?'a = "64 word"]
  by (auto simp: mask_eq_exp_minus_1)

lemma small_bits: "bit (1 :: u64) k \<longleftrightarrow> k = 0" "bit (2 :: u64) k \<longleftrightarrow> k = 1" "bit (0x80 :: u64) k \<longleftrightarrow> k = 7"
  using bit_exp_iff [of 1 k, where ?'a = "64 word"] bit_exp_iff [of 7 k, where ?'a = "64 word"]
  by (auto simp: bit_1_iff)

lemma aligned_bits: "4096 dvd unat x \<Longrightarrow> k < 12 \<Longrightarrow> \<not> bit (x :: u64) k"
proof -
  assume x: "4096 dvd unat x" "k < 12"
  have "bit (entry_addr x) k = bit x k" using entry_addr_id [OF x(1)] by simp
  then show "\<not> bit x k" using x(2) unfolding entry_addr_def bit_and_iff bit_not_iff bits_4096 by blast
qed

lemma present_iff: "present e \<longleftrightarrow> bit e 0"
  by (simp only: present_def bit_iff_and_push_bit_not_eq_0) simp

lemma huge_iff: "huge e \<longleftrightarrow> bit e 7"
  by (simp only: huge_def bit_iff_and_push_bit_not_eq_0) simp

lemmas entry_bits = entry_addr_def huge_addr_def bit_and_iff bit_or_iff bit_not_iff bits_4096 small_bits
  possible_bit_word present_iff huge_iff

lemma link_entry:
  assumes "4096 dvd unat q"
  shows "entry_addr (q OR PAGE_PRESENT OR PAGE_RW) = q" "present (q OR PAGE_PRESENT OR PAGE_RW)"
    "\<not> huge (q OR PAGE_PRESENT OR PAGE_RW)"
proof -
  have q: "\<not> bit q k" if "k < 12" for k using aligned_bits [OF assms that] .
  show "entry_addr (q OR PAGE_PRESENT OR PAGE_RW) = q"
    by (rule bit_word_eqI, unfold entry_bits) (use q in force)
  show "present (q OR PAGE_PRESENT OR PAGE_RW)" "\<not> huge (q OR PAGE_PRESENT OR PAGE_RW)"
    unfolding entry_bits using q [of 7] by simp_all
qed

lemma small_entry:
  "entry_addr (entry_addr p OR (f AND 0xFFF) OR PAGE_PRESENT) = entry_addr p"
  "present (x OR y OR PAGE_PRESENT)"
proof -
  show "entry_addr (entry_addr p OR (f AND 0xFFF) OR PAGE_PRESENT) = entry_addr p"
    by (rule bit_word_eqI, unfold entry_bits) auto
  show "present (x OR y OR PAGE_PRESENT)" unfolding entry_bits by simp
qed

lemma huge_entry:
  assumes "f AND PAGE_HUGE \<noteq> 0"
  shows "huge_addr (huge_addr p OR (f AND 0xFFF) OR PAGE_PRESENT) = huge_addr p"
    "huge (huge_addr p OR (f AND 0xFFF) OR PAGE_PRESENT)"
proof -
  show "huge_addr (huge_addr p OR (f AND 0xFFF) OR PAGE_PRESENT) = huge_addr p"
    by (rule bit_word_eqI, unfold entry_bits) auto
  have "bit f 7" using assms huge_iff [of f] by (simp add: huge_def)
  then show "huge (huge_addr p OR (f AND 0xFFF) OR PAGE_PRESENT)" unfolding entry_bits by simp
qed

subsection \<open>The pool of the boot phase\<close>

text \<open>
  Before \<open>pager_ready\<close> tables come from the area \<open>first_pagemaps\<close> and are read through the
  identity map. \<open>L\<close> gives the level of each table. No entry for a huge page has lost its
  present bit, which only \<open>pager_unmap\<close> takes away.
\<close>

definition pool_left :: "pstate \<Rightarrow> nat" where
  "pool_left s = unat (first_pagemaps_end s) - (unat (first_pagemaps s) + unat (first_pagemaps_ptr s))"

definition boot_ok :: "pstate \<Rightarrow> (u64 \<Rightarrow> nat) \<Rightarrow> bool" where
  "boot_ok s L \<longleftrightarrow> \<not> pager_ready s \<and> tree_ok (tables s) (table (kernel_pml4 s)) L \<and>
     first_pagemaps s \<noteq> 0 \<and> 4096 dvd unat (first_pagemaps s) \<and> 4096 dvd unat (first_pagemaps_ptr s) \<and>
     first_pagemaps_end s < AOS_DIRECT_MAP_BASE \<and>
     unat (first_pagemaps s) + unat (first_pagemaps_ptr s) \<le> unat (first_pagemaps_end s) \<and>
     (\<forall>x. tables s x \<noteq> None \<longrightarrow> 4096 dvd unat x \<and> first_pagemaps s \<le> x \<and>
        unat x < unat (first_pagemaps s) + unat (first_pagemaps_ptr s)) \<and>
     (\<forall>x t i. tables s x = Some t \<longrightarrow> L x = 2 \<longrightarrow> huge (t i) \<longrightarrow> present (t i))"

lemma boot_table:
  assumes "boot_ok s L" "tables s x \<noteq> None"
  shows "x \<noteq> NULL" "ptr_phys x = x" "entry_addr x = x" "unat x < unat (first_pagemaps s) + unat (first_pagemaps_ptr s)"
proof -
  have le: "first_pagemaps s \<le> x" "first_pagemaps s \<noteq> 0" "unat x < unat (first_pagemaps s) + unat (first_pagemaps_ptr s)"
    "unat (first_pagemaps s) + unat (first_pagemaps_ptr s) \<le> unat (first_pagemaps_end s)"
    "first_pagemaps_end s < AOS_DIRECT_MAP_BASE" "4096 dvd unat x"
    using assms by (auto simp: boot_ok_def)
  show "x \<noteq> NULL" using le(1,2) by auto
  have "\<not> AOS_DIRECT_MAP_BASE \<le> x" using le(3-5) by (simp add: word_le_nat_alt word_less_nat_alt)
  then show "ptr_phys x = x" by (simp add: ptr_phys_def)
  show "entry_addr x = x" by (rule entry_addr_id [OF le(6)])
  show "unat x < unat (first_pagemaps s) + unat (first_pagemaps_ptr s)" by (rule le(3))
qed

lemma boot_root:
  assumes "boot_ok s L"
  shows "table (kernel_pml4 s) \<noteq> NULL" "ptr_phys (table (kernel_pml4 s)) = table (kernel_pml4 s)"
    "L (table (kernel_pml4 s)) = 4" "tables s (table (kernel_pml4 s)) \<noteq> None"
proof -
  show "L (table (kernel_pml4 s)) = 4" "tables s (table (kernel_pml4 s)) \<noteq> None"
    using assms by (simp_all add: boot_ok_def tree_ok_def)
  then show "table (kernel_pml4 s) \<noteq> NULL" "ptr_phys (table (kernel_pml4 s)) = table (kernel_pml4 s)"
    using boot_table [OF assms] by blast+
qed

lemma get_entry_boot: "boot_ok s L \<Longrightarrow> tables s x = Some t \<Longrightarrow> get_entry x i s = Some (t i)"
  using boot_table [of s L x] by (simp add: get_entry_def)

lemma set_entry_boot:
  "boot_ok s L \<Longrightarrow> tables s x = Some t \<Longrightarrow>
     set_entry x i e s = Some (s\<lparr> tables := (tables s)(x \<mapsto> t(i := e)) \<rparr>)"
  using boot_table [of s L x] by (simp add: set_entry_def)

lemma boot_no_stale: "boot_ok s L \<Longrightarrow> tables s x = Some t \<Longrightarrow> L x = 2 \<Longrightarrow> huge (t i) \<Longrightarrow> present (t i)"
  by (simp add: boot_ok_def)

lemma boot_ok_leaf:
  assumes "boot_ok s L" "tables s z = Some t" "\<not> link (L z) e" "present e"
  shows "boot_ok (s\<lparr> tables := (tables s)(z \<mapsto> t(i := e)) \<rparr>) L"
  using assms tree_ok_leaf [of "tables s" "table (kernel_pml4 s)" L z t e i]
  by (auto simp: boot_ok_def)

lemma boot_ok_lock:
  "boot_ok (s\<lparr> kernel_pml4 := (kernel_pml4 s)\<lparr> tbl_lock := b \<rparr> \<rparr>) L \<longleftrightarrow> boot_ok s L"
  by (simp add: boot_ok_def)

text \<open>A table from the pool is new, aligned, and below the direct map.\<close>

lemma alloc_page_table_boot:
  assumes ok: "boot_ok s L"
  shows "if pool_left s < 4096 then alloc_page_table pmap s = Some (NULL, 0, s)
    else \<exists>q. alloc_page_table pmap s = Some (q, q, s\<lparr> first_pagemaps_ptr := first_pagemaps_ptr s + PAGE_SIZE,
             tables := (tables s)(q \<mapsto> (\<lambda>_. 0)) \<rparr>) \<and>
           q = first_pagemaps s + first_pagemaps_ptr s \<and> 4096 dvd unat q \<and> q \<noteq> NULL \<and>
           unat q = unat (first_pagemaps s) + unat (first_pagemaps_ptr s) \<and> tables s q = None"
proof -
  note f = ok [unfolded boot_ok_def]
  let ?q = "first_pagemaps s + first_pagemaps_ptr s"
  have lt: "unat (first_pagemaps_end s) < 0xFFFF800000000000" using f by (simp add: word_less_nat_alt)
  have q: "unat ?q = unat (first_pagemaps s) + unat (first_pagemaps_ptr s)"
    using f lt by (intro unat_plus_u64) linarith
  have q4: "unat (?q + PAGE_SIZE) = unat ?q + 4096"
    using f lt q by (subst unat_plus_u64) auto
  have over: "first_pagemaps_end s < ?q + PAGE_SIZE \<longleftrightarrow> pool_left s < 4096"
    using f q q4 by (auto simp: word_less_nat_alt pool_left_def)
  have nz: "?q \<noteq> NULL" using q f by (metis add_eq_0_iff_both_eq_0 unat_0 unat_eq_0)
  have "\<not> AOS_DIRECT_MAP_BASE \<le> ?q" using f q lt by (simp add: word_le_nat_alt)
  then have ph: "ptr_phys ?q = ?q" by (simp add: ptr_phys_def)
  have fresh: "tables s ?q = None" using boot_table(4) [OF ok, of ?q] q by fastforce
  have "4096 dvd unat ?q" unfolding q using f by simp
  then show ?thesis using f over nz ph fresh q by (simp add: alloc_page_table_def Let_def)
qed

subsection \<open>One level down\<close>

lemma boot_ok_new_table:
  assumes ok: "boot_ok s L" and left: "\<not> pool_left s < 4096"
    and z: "tables s z = Some t" "\<not> present (t i)" "1 < L z"
    and q: "q = first_pagemaps s + first_pagemaps_ptr s"
    and e: "e = q OR PAGE_PRESENT OR PAGE_RW"
  shows "boot_ok (s\<lparr> first_pagemaps_ptr := first_pagemaps_ptr s + PAGE_SIZE,
      tables := (tables s)(q \<mapsto> (\<lambda>_. 0), z \<mapsto> t(i := e)) \<rparr>) (L(q := L z - 1))"
    (is "boot_ok ?s ?L")
proof -
  note f = ok [unfolded boot_ok_def]
  obtain qf: "4096 dvd unat q" "unat q = unat (first_pagemaps s) + unat (first_pagemaps_ptr s)" "tables s q = None"
    using alloc_page_table_boot [OF ok, of "\<lambda>_ _ _ _. None"] left unfolding q by auto
  have e': "entry_addr e = q" "link (L z) e" using link_entry [OF qf(1)] z(3) e by (auto simp: link_def)
  have lt: "unat (first_pagemaps_end s) < 0xFFFF800000000000" using f by (simp add: word_less_nat_alt)
  have p: "unat (first_pagemaps_ptr s + PAGE_SIZE) = unat (first_pagemaps_ptr s) + 4096"
    using left lt by (subst unat_plus_u64) (auto simp: pool_left_def)
  have "tree_ok (tables ?s) (table (kernel_pml4 ?s)) ?L"
    using tree_ok_new_table [where T = "tables s" and L = L and z = z and t = t and i = i and q = q and e = e
        and r = "table (kernel_pml4 s)"] z qf(3) e' f by simp
  moreover have "present (u j)" if "tables ?s x = Some u" "?L x = 2" "huge (u j)" for x u j
  proof (cases "x = z \<or> x = q")
    case True
    have "z \<noteq> q" using z(1) qf(3) by auto
    then show ?thesis
      using True that link_entry [OF qf(1)] e boot_no_stale [OF ok z(1)]
      by (auto simp: huge_def split: if_splits)
  next
    case False
    then show ?thesis using that boot_no_stale [OF ok, of x u j] by simp
  qed
  moreover have "4096 dvd unat x \<and> first_pagemaps ?s \<le> x \<and>
      unat x < unat (first_pagemaps ?s) + unat (first_pagemaps_ptr ?s)" if "tables ?s x \<noteq> None" for x
  proof (cases "x = q")
    case True
    then show ?thesis using qf p by (simp add: word_le_nat_alt)
  next
    case False
    then have "tables s x \<noteq> None" using that z(1) by (auto split: if_splits)
    then show ?thesis using f p by force
  qed
  ultimately show ?thesis
    unfolding boot_ok_def using f p left by (simp add: pool_left_def)
qed

lemma next_table_boot:
  assumes ok: "boot_ok s L" and x: "tables s x = Some t" "1 < L x" and stale: "L x = 2 \<longrightarrow> \<not> huge (t i)"
  obtains
    (full) s' where "next_table pmap x i s = Some (NULL, s')" "pool_left s < 4096"
  | (down) q s' L' t' u where "next_table pmap x i s = Some (q, s')" "boot_ok s' L'"
      "extends (tables s) L (tables s') L'" "tables s' q = Some u" "L' q = L x - 1"
      "tables s' x = Some t'" "link (L x) (t' i)" "entry_addr (t' i) = q"
      "pool_left s \<le> pool_left s' + 4096" "kernel_pml4 s' = kernel_pml4 s"
proof (cases "present (t i)")
  case True
  have tree: "tree_ok (tables s) (table (kernel_pml4 s)) L" and nr: "\<not> pager_ready s"
    using ok by (simp_all add: boot_ok_def)
  have l: "link (L x) (t i)" using True x(2) stale by (simp add: link_def)
  obtain u where u: "tables s (entry_addr (t i)) = Some u" using tree_link(1) [OF tree x(1) l] by blast
  have "next_table pmap x i s = Some (entry_addr (t i), s)"
    using True nr get_entry_boot [OF ok x(1), of i] by (simp add: next_table_def pager_phys_to_virt_def)
  then show thesis
    using u tree_link(2) [OF tree x(1) l] l x(1) ok
    by (intro down [of "entry_addr (t i)" s L u t]) (simp_all add: extends_refl)
next
  case False
  have g: "get_entry x i s = Some (t i)" by (rule get_entry_boot [OF ok x(1)])
  show thesis
  proof (cases "pool_left s < 4096")
    case True
    then have "alloc_page_table pmap s = Some (NULL, 0, s)"
      using alloc_page_table_boot [OF ok, of pmap] by simp
    then have "\<exists>s'. next_table pmap x i s = Some (NULL, s')"
      using False g set_entry_boot [OF ok x(1)] by (simp add: next_table_def)
    then show thesis using full True by blast
  next
    case enough: False
    let ?q = "first_pagemaps s + first_pagemaps_ptr s"
    let ?e = "?q OR PAGE_PRESENT OR PAGE_RW"
    let ?s1 = "s\<lparr> first_pagemaps_ptr := first_pagemaps_ptr s + PAGE_SIZE, tables := (tables s)(?q \<mapsto> (\<lambda>_. 0)) \<rparr>"
    let ?s2 = "s\<lparr> first_pagemaps_ptr := first_pagemaps_ptr s + PAGE_SIZE,
      tables := (tables s)(?q \<mapsto> (\<lambda>_. 0), x \<mapsto> t(i := ?e)) \<rparr>"
    have a: "alloc_page_table pmap s = Some (?q, ?q, ?s1)" "4096 dvd unat ?q" "tables s ?q = None"
      "unat ?q = unat (first_pagemaps s) + unat (first_pagemaps_ptr s)"
      using alloc_page_table_boot [OF ok, of pmap] enough by auto
    have xq: "x \<noteq> ?q" using a(3) x(1) by auto
    have "set_entry x i ?e ?s1 = Some ?s2"
      using boot_table [OF ok, of x] x(1) xq by (simp add: set_entry_def)
    then have n: "next_table pmap x i s = Some (?q, ?s2)"
      using False g a(1) by (simp add: next_table_def)
    have ok2: "boot_ok ?s2 (L(?q := L x - 1))"
      by (rule boot_ok_new_table [OF ok enough x(1) False x(2) refl refl])
    have e: "entry_addr ?e = ?q" "link (L x) ?e" using link_entry [OF a(2)] x(2) by (auto simp: link_def)
    have "extends (tables s) L (tables ?s2) (L(?q := L x - 1))"
      using extends_new_table [where T = "tables s" and L = L and z = x and t = t and i = i and q = ?q and e = ?e]
        x(1) False a(3) e ok by (auto simp: boot_ok_def)
    moreover have "pool_left s \<le> pool_left ?s2 + 4096"
    proof -
      have "unat (first_pagemaps_ptr s + PAGE_SIZE) \<le> unat (first_pagemaps_ptr s) + 4096"
        using unat_plus_if' [of "first_pagemaps_ptr s" PAGE_SIZE] by (auto split: if_splits)
      then show ?thesis by (simp add: pool_left_def)
    qed
    ultimately show thesis
      using xq e by (intro down [OF n ok2, of "\<lambda>_. 0" "t(i := ?e)"]) simp_all
  qed
qed

text \<open>A table on the walk of \<open>v\<close>, and the step to the one below.\<close>

lemma visits_down:
  assumes tree: "tree_ok T r L" and vis: "visits T 4 r v x" and x: "T x = Some t" "L x = Suc n" "link (Suc n) (t (idx_at (Suc n) v))"
  shows "visits T 4 r v (entry_addr (t (idx_at (Suc n) v)))"
proof -
  have "visits T m y v (entry_addr (t (idx_at (Suc n) v)))" if "visits T m y v x" "L y = m" "T y \<noteq> None" for m y
    using that
  proof (induction m arbitrary: y)
    case (Suc m)
    show ?case
    proof (cases "y = x")
      case True
      then have "m = n" using Suc.prems(2) x(2) by simp
      have "0 < n" using x(3) by (simp add: link_def)
      then obtain k where "n = Suc k" by (cases n) auto
      then show ?thesis using True x \<open>m = n\<close> by simp
    next
      case False
      let ?j = "idx_at (Suc m) v"
      from False Suc.prems(1) obtain u where u: "T y = Some u" "link (Suc m) (u ?j)"
        "visits T m (entry_addr (u ?j)) v x" by (auto split: option.splits)
      have "L (entry_addr (u ?j)) = m" "T (entry_addr (u ?j)) \<noteq> None"
        using tree_link [OF tree u(1), of ?j] u(2) Suc.prems(2) by auto
      from Suc.IH [OF u(3) this] u(1,2) show ?thesis by simp
    qed
  qed simp
  then show ?thesis using vis tree by (auto simp: tree_ok_def)
qed

lemma next_table_visits:
  assumes ok: "boot_ok s L" and x: "tables s x = Some t" "L x = Suc n" "0 < n"
    and stale: "L x = 2 \<longrightarrow> \<not> huge (t i)" and i: "i = idx_at (Suc n) v"
    and vis: "visits (tables s) 4 (table (kernel_pml4 s)) v x"
  obtains
    (full) s' where "next_table pmap x i s = Some (NULL, s')" "pool_left s < 4096"
  | (down) q s' L' u where "next_table pmap x i s = Some (q, s')" "boot_ok s' L'"
      "extends (tables s) L (tables s') L'" "tables s' q = Some u" "L' q = n"
      "visits (tables s') 4 (table (kernel_pml4 s)) v q"
      "pool_left s \<le> pool_left s' + 4096" "kernel_pml4 s' = kernel_pml4 s"
proof -
  have 1: "1 < L x" using x by simp
  show thesis
  proof (rule next_table_boot [OF ok x(1) 1 stale, where pmap = pmap])
    fix s' assume "next_table pmap x i s = Some (NULL, s')" "pool_left s < 4096"
    then show thesis by (rule full)
  next
    fix q s' L' t' u
    assume d: "next_table pmap x i s = Some (q, s')" "boot_ok s' L'"
      "extends (tables s) L (tables s') L'" "tables s' q = Some u" "L' q = L x - 1"
      "tables s' x = Some t'" "link (L x) (t' i)" "entry_addr (t' i) = q"
      "pool_left s \<le> pool_left s' + 4096" "kernel_pml4 s' = kernel_pml4 s"
    have trees: "tree_ok (tables s) (table (kernel_pml4 s)) L" "tree_ok (tables s') (table (kernel_pml4 s)) L'"
      using ok d(2,10) by (simp_all add: boot_ok_def)
    have vx: "visits (tables s') 4 (table (kernel_pml4 s)) v x"
      using extends_visits [OF d(3) trees(1) vis] boot_root [OF ok] by simp
    have "L' x = Suc n" using extends_dom [OF d(3), of x] x by simp
    moreover have "link (Suc n) (t' (idx_at (Suc n) v))" using d(7) x(2) i by simp
    ultimately have "visits (tables s') 4 (table (kernel_pml4 s)) v q"
      using visits_down [OF trees(2) vx d(6), of n] d(8) i by simp
    then show thesis using d x(2) by (intro down [of q s' L' u]) simp_all
  qed
qed

subsection \<open>Mapping\<close>

lemma translate_boot:
  assumes "boot_ok s L"
  shows "translate s v = (case walk (tables s) 4 (table (kernel_pml4 s)) v of None \<Rightarrow> None
      | Some (e, n) \<Rightarrow> Some (if n = 2 then huge_addr e + (v AND 0x1FFFFF) else entry_addr e + (v AND 0xFFF)))"
  using boot_root(2) [OF assms] by (simp add: translate_def)

lemma translate_walk_eq:
  assumes "boot_ok s L" "boot_ok s' L'" "table (kernel_pml4 s') = table (kernel_pml4 s)"
    "walk (tables s') 4 (table (kernel_pml4 s)) v = walk (tables s) 4 (table (kernel_pml4 s)) v"
  shows "translate s' v = translate s v"
  using assms by (simp add: translate_boot)

lemma boot_ok_unlock: "boot_ok (unlock_pml4 s) L \<longleftrightarrow> boot_ok s L"
  by (simp add: unlock_pml4_def boot_ok_lock)

lemma translate_unlock: "translate (unlock_pml4 s) v = translate s v"
  by (simp add: translate_def unlock_pml4_def)

lemma unlock_fields:
  "tables (unlock_pml4 s) = tables s" "table (kernel_pml4 (unlock_pml4 s)) = table (kernel_pml4 s)"
  "pool_left (unlock_pml4 s) = pool_left s" "\<not> tbl_lock (kernel_pml4 (unlock_pml4 s))"
  by (simp_all add: unlock_pml4_def pool_left_def)

text \<open>The descent to the page directory, common to both sizes of pages.\<close>

lemma pager_map_pd:
  assumes ok: "boot_ok s L" and unlocked: "\<not> tbl_lock (kernel_pml4 s)"
    and small: "phys_too_big phys s = Some False"
  obtains
    (full) "pager_map v phys flags s = None" "pool_left s < 8192"
  | (pd) pd s3 L3 t where "boot_ok s3 L3" "extends (tables s) L (tables s3) L3" "tables s3 pd = Some t"
      "L3 pd = 2" "visits (tables s3) 4 (table (kernel_pml4 s)) v pd" "pool_left s \<le> pool_left s3 + 8192"
      "table (kernel_pml4 s3) = table (kernel_pml4 s)"
      "pager_map v phys flags s = (if flags AND PAGE_HUGE \<noteq> 0 then map_huge pd v phys flags s3
         else map_small pager_map_nested pd v phys flags s3)"
proof -
  let ?r = "table (kernel_pml4 s)"
  let ?s1 = "s\<lparr> kernel_pml4 := (kernel_pml4 s)\<lparr> tbl_lock := True \<rparr> \<rparr>"
  have ok1: "boot_ok ?s1 L" using ok by (simp add: boot_ok_lock)
  have lock: "lock_pml4 s = Some ?s1" using unlocked by (simp add: lock_pml4_def)
  note root = boot_root [OF ok]
  obtain tr where tr: "tables s ?r = Some tr" using root(4) by blast
  have start: "pager_map v phys flags s = do {
      (pdpt, s2) \<leftarrow> next_table pager_map_nested ?r (idx_at 4 v) ?s1;
      (pd, s3) \<leftarrow> next_table pager_map_nested pdpt (idx_at 3 v) s2;
      if flags AND PAGE_HUGE \<noteq> 0 then map_huge pd v phys flags s3
      else map_small pager_map_nested pd v phys flags s3 }"
    using small root(1) lock by (simp add: pager_map_def pager_map_with_def idx_at_levels)
  have null: "next_table pager_map_nested NULL i s' = None" for i s'
    by (simp add: next_table_def get_entry_def)
  have null2: "map_huge NULL v phys flags s' = None" "map_small pager_map_nested NULL v phys flags s' = None" for s'
    by (simp_all add: map_huge_def map_small_def get_entry_def)
  show thesis
  proof (rule next_table_visits [OF ok1, of ?r tr 3 "idx_at 4 v" v pager_map_nested])
    show "tables ?s1 ?r = Some tr" "L ?r = Suc 3" "L ?r = 2 \<longrightarrow> \<not> huge (tr (idx_at 4 v))"
      "visits (tables ?s1) 4 (table (kernel_pml4 ?s1)) v ?r"
      using tr root(3) by (simp_all add: eval_nat_numeral)
  next
    fix s' assume "next_table pager_map_nested ?r (idx_at 4 v) ?s1 = Some (NULL, s')" "pool_left ?s1 < 4096"
    then show thesis by (intro full) (simp_all add: start null pool_left_def)
  next
    fix p3 s2 L2 u2
    assume a: "next_table pager_map_nested ?r (idx_at 4 v) ?s1 = Some (p3, s2)" "boot_ok s2 L2"
      "extends (tables ?s1) L (tables s2) L2" "tables s2 p3 = Some u2" "L2 p3 = 3"
      "visits (tables s2) 4 (table (kernel_pml4 ?s1)) v p3"
      "pool_left ?s1 \<le> pool_left s2 + 4096" "kernel_pml4 s2 = kernel_pml4 ?s1"
    have l2: "pool_left s \<le> pool_left s2 + 4096" using a(7) by (simp add: pool_left_def)
    show thesis
    proof (rule next_table_visits [OF a(2,4), of 2 "idx_at 3 v" v pager_map_nested])
      show "L2 p3 = Suc 2" "L2 p3 = 2 \<longrightarrow> \<not> huge (u2 (idx_at 3 v))"
        "visits (tables s2) 4 (table (kernel_pml4 s2)) v p3"
        using a(5,6,8) by simp_all
    next
      fix s' assume "next_table pager_map_nested p3 (idx_at 3 v) s2 = Some (NULL, s')" "pool_left s2 < 4096"
      then show thesis using l2 by (intro full) (simp_all add: start a(1) null2)
    next
      fix p2 s3 L3 u3
      assume b: "next_table pager_map_nested p3 (idx_at 3 v) s2 = Some (p2, s3)" "boot_ok s3 L3"
        "extends (tables s2) L2 (tables s3) L3" "tables s3 p2 = Some u3" "L3 p2 = 2"
        "visits (tables s3) 4 (table (kernel_pml4 s2)) v p2"
        "pool_left s2 \<le> pool_left s3 + 4096" "kernel_pml4 s3 = kernel_pml4 s2"
      have "extends (tables s) L (tables s3) L3"
        using extends_trans [OF a(3) b(3)] by simp
      then show thesis
        using b a l2 by (intro pd [of s3 L3 p2 u3]) (simp_all add: start)
    qed simp_all
  qed simp_all
qed

lemma leaf_boot:
  assumes ok: "boot_ok s L" and z: "tables s z = Some t" "L z = Suc n"
    and vis: "visits (tables s) 4 (table (kernel_pml4 s)) v z"
    and e: "present e" "\<not> link (Suc n) e"
    and old: "\<not> present (t (idx_at (Suc n) v))"
    and s': "s' = unlock_pml4 (s\<lparr> tables := (tables s)(z \<mapsto> t(idx_at (Suc n) v := e)) \<rparr>)"
  shows "boot_ok s' L"
    and "translate s' v = Some (if n = 1 then huge_addr e + (v AND 0x1FFFFF) else entry_addr e + (v AND 0xFFF))"
    and "\<exists>k. Suc n \<le> k \<and> k \<le> 4 \<and> idx_at k w \<noteq> idx_at k v \<Longrightarrow> translate s' w = translate s w"
    and "translate s w = Some a \<Longrightarrow> translate s' w = Some a"
    and "pool_left s' = pool_left s" "table (kernel_pml4 s') = table (kernel_pml4 s)" "\<not> tbl_lock (kernel_pml4 s')"
proof -
  let ?r = "table (kernel_pml4 s)"
  let ?T = "(tables s)(z \<mapsto> t(idx_at (Suc n) v := e))"
  have tree: "tree_ok (tables s) ?r L" using ok by (simp add: boot_ok_def)
  note leaf = set_leaf [OF tree vis z e(2)]
  show ok': "boot_ok s' L" using boot_ok_leaf [OF ok z(1)] z(2) e by (simp add: s' boot_ok_unlock)
  have fields: "tables s' = ?T" "table (kernel_pml4 s') = ?r" by (simp_all add: s' unlock_fields)
  show "translate s' v = Some (if n = 1 then huge_addr e + (v AND 0x1FFFFF) else entry_addr e + (v AND 0xFFF))"
    unfolding translate_boot [OF ok'] fields leaf(2) using e(1) by simp
  show "translate s' w = translate s w" if "\<exists>k. Suc n \<le> k \<and> k \<le> 4 \<and> idx_at k w \<noteq> idx_at k v"
    unfolding translate_boot [OF ok'] translate_boot [OF ok] fields leaf(3) [OF that] ..
  show "translate s' w = Some a" if "translate s w = Some a"
  proof -
    have "walk (tables s) 4 ?r w \<noteq> None"
      using that by (cases "walk (tables s) 4 ?r w") (simp_all add: translate_boot [OF ok])
    from leaf(4) [OF old this] have "walk ?T 4 ?r w = walk (tables s) 4 ?r w" .
    then show ?thesis using that by (simp only: translate_boot [OF ok'] translate_boot [OF ok] fields)
  qed
  show "pool_left s' = pool_left s" "table (kernel_pml4 s') = ?r" "\<not> tbl_lock (kernel_pml4 s')"
    by (simp_all add: s' unlock_fields) (simp add: pool_left_def)
qed

text \<open>What a call leaves of the address space of before.\<close>

definition keeps_map :: "pstate \<Rightarrow> pstate \<Rightarrow> bool" where
  "keeps_map s s' \<longleftrightarrow> (\<exists>L'. boot_ok s' L') \<and> (\<forall>w a. translate s w = Some a \<longrightarrow> translate s' w = Some a) \<and>
     \<not> tbl_lock (kernel_pml4 s')"

lemma extends_translate:
  assumes "boot_ok s L" "boot_ok s' L'" "extends (tables s) L (tables s') L'"
    "table (kernel_pml4 s') = table (kernel_pml4 s)"
  shows "translate s' w = translate s w"
proof -
  have "walk (tables s') 4 (table (kernel_pml4 s)) w = walk (tables s) 4 (table (kernel_pml4 s)) w"
    using extends_walk [OF assms(3) boot_root(4) [OF assms(1)]] unfolding boot_root(3) [OF assms(1)] .
  then show ?thesis by (rule translate_walk_eq [OF assms(1,2,4)])
qed

lemma map_huge_boot:
  assumes ok: "boot_ok s L" and pd: "tables s pd = Some t" "L pd = 2"
    and vis: "visits (tables s) 4 (table (kernel_pml4 s)) v pd" and f: "flags AND PAGE_HUGE \<noteq> 0"
  shows "if present (t (idx_at 2 v))
    then map_huge pd v phys flags s = Some (if huge (t (idx_at 2 v)) \<and> huge_addr (t (idx_at 2 v)) = huge_addr phys
           then table (kernel_pml4 s) else NULL, unlock_pml4 s)
    else \<exists>s'. map_huge pd v phys flags s = Some (table (kernel_pml4 s), s') \<and> keeps_map s s' \<and>
      boot_ok s' L \<and> translate s' v = Some (huge_addr phys + (v AND 0x1FFFFF)) \<and>
      (\<forall>w. (\<exists>k. 2 \<le> k \<and> k \<le> 4 \<and> idx_at k w \<noteq> idx_at k v) \<longrightarrow> translate s' w = translate s w)"
proof -
  let ?e = "huge_addr phys OR (flags AND 0xFFF) OR PAGE_PRESENT"
  let ?s' = "unlock_pml4 (s\<lparr> tables := (tables s)(pd \<mapsto> t(idx_at 2 v := ?e)) \<rparr>)"
  have g: "get_entry pd (idx_pd v) s = Some (t (idx_at 2 v))"
    "set_entry pd (idx_pd v) ?e s = Some (s\<lparr> tables := (tables s)(pd \<mapsto> t(idx_at 2 v := ?e)) \<rparr>)"
    using get_entry_boot [OF ok pd(1)] set_entry_boot [OF ok pd(1)] by (simp_all add: idx_at_levels)
  show ?thesis
  proof (cases "present (t (idx_at 2 v))")
    case True
    then show ?thesis using g by (simp add: map_huge_def)
  next
    case False
    have e: "present ?e" "\<not> link (Suc 1) ?e" "huge_addr ?e = huge_addr phys"
      using huge_entry [OF f] small_entry(2) by (simp_all add: link_def)
    have l: "L pd = Suc 1" "\<not> present (t (idx_at (Suc 1) v))" using pd(2) False by (simp_all add: eval_nat_numeral)
    note leaf = leaf_boot [OF ok pd(1) l(1) vis e(1,2) l(2), where s' = ?s', unfolded Suc_1, OF refl]
    have "map_huge pd v phys flags s = Some (table (kernel_pml4 s), ?s')"
      using False g by (simp add: map_huge_def)
    then show ?thesis using False leaf e(3) unfolding keeps_map_def by auto
  qed
qed

lemma map_small_boot:
  assumes ok: "boot_ok s L" and pd: "tables s pd = Some t" "L pd = 2"
    and vis: "visits (tables s) 4 (table (kernel_pml4 s)) v pd"
  shows "map_small pager_map_nested pd v phys flags s = None \<and> pool_left s < 4096 \<or>
    (\<exists>p s'. map_small pager_map_nested pd v phys flags s = Some (p, s') \<and> keeps_map s s' \<and>
       pool_left s \<le> pool_left s' + 4096 \<and> table (kernel_pml4 s') = table (kernel_pml4 s) \<and>
       (translate s v = None \<longrightarrow> p \<noteq> NULL \<and> translate s' v = Some (entry_addr phys + (v AND 0xFFF))) \<and>
       (\<forall>w. (\<exists>k. 1 \<le> k \<and> k \<le> 4 \<and> idx_at k w \<noteq> idx_at k v) \<longrightarrow> translate s' w = translate s w))"
proof -
  let ?r = "table (kernel_pml4 s)"
  let ?e = "t (idx_at 2 v)"
  have tree: "tree_ok (tables s) ?r L" using ok by (simp add: boot_ok_def)
  have g: "get_entry pd (idx_pd v) s = Some ?e"
    using get_entry_boot [OF ok pd(1)] by (simp add: idx_at_levels)
  show ?thesis
  proof (cases "huge ?e")
    case True
    have pres: "present ?e" by (rule boot_no_stale [OF ok pd True])
    have "walk (tables s) 4 ?r v = walk (tables s) 2 pd v"
      using visits_walk [OF tree vis] boot_root [OF ok] pd by simp
    also have "\<dots> = Some (?e, 2)"
      using True pres pd(1) walk_at [where T = "tables s" and x = pd and n = 1 and v = v, OF pd(1)]
      by (simp add: link_def eval_nat_numeral)
    finally have "translate s v \<noteq> None" by (simp add: translate_boot [OF ok])
    moreover have "keeps_map s (unlock_pml4 s)"
      using ok by (auto simp: keeps_map_def boot_ok_unlock translate_unlock unlock_fields)
    ultimately show ?thesis
      using True g by (auto simp: map_small_def translate_unlock unlock_fields)
  next
    case False
    show ?thesis
    proof (rule next_table_visits [OF ok pd(1), of 1 "idx_at 2 v" v pager_map_nested])
      show "L pd = Suc 1" "L pd = 2 \<longrightarrow> \<not> huge ?e" "idx_at 2 v = idx_at (Suc 1) v"
        using pd(2) False by (simp_all add: eval_nat_numeral)
      show "visits (tables s) 4 ?r v pd" by (rule vis)
    next
      fix s' assume "next_table pager_map_nested pd (idx_at 2 v) s = Some (NULL, s')" "pool_left s < 4096"
      then show ?thesis using False g by (simp add: map_small_def idx_at_levels get_entry_def)
    next
      fix pt s1 L1 u
      assume a: "next_table pager_map_nested pd (idx_at 2 v) s = Some (pt, s1)" "boot_ok s1 L1"
        "extends (tables s) L (tables s1) L1" "tables s1 pt = Some u" "L1 pt = 1"
        "visits (tables s1) 4 ?r v pt" "pool_left s \<le> pool_left s1 + 4096" "kernel_pml4 s1 = kernel_pml4 s"
      let ?i = "idx_at (Suc 0) v"
      have tr: "translate s1 w = translate s w" for w
        using extends_translate [OF ok a(2,3)] a(8) by simp
      have g1: "get_entry pt (idx_pt v) s1 = Some (u ?i)"
        "set_entry pt (idx_pt v) e s1 = Some (s1\<lparr> tables := (tables s1)(pt \<mapsto> u(?i := e)) \<rparr>)" for e
        using get_entry_boot [OF a(2,4)] set_entry_boot [OF a(2,4)] by (simp_all add: idx_at_levels)
      show ?thesis
      proof (cases "present (u ?i)")
        case True
        have "walk (tables s1) 4 ?r v = walk (tables s1) 1 pt v"
          using visits_walk [where L = L1, OF _ a(6)] a(2,5,8) boot_root [OF a(2)] by (auto simp: boot_ok_def)
        also have "\<dots> = Some (u ?i, 1)"
          using True walk_at [where T = "tables s1" and x = pt and n = 0 and v = v, OF a(4)]
          by (simp add: link_def)
        finally have "translate s1 v \<noteq> None" using a(8) by (simp add: translate_boot [OF a(2)])
        moreover have "keeps_map s (unlock_pml4 s1)"
          using a(2) tr by (auto simp: keeps_map_def boot_ok_unlock translate_unlock unlock_fields)
        ultimately show ?thesis
          using True False g g1(1) a(1,7,8) tr
          by (auto simp: map_small_def translate_unlock unlock_fields idx_at_levels)
      next
        case new: False
        let ?n = "entry_addr phys OR (flags AND 0xFFF) OR PAGE_PRESENT"
        let ?s' = "unlock_pml4 (s1\<lparr> tables := (tables s1)(pt \<mapsto> u(?i := ?n)) \<rparr>)"
        have e: "present ?n" "\<not> link (Suc 0) ?n" "entry_addr ?n = entry_addr phys"
          using small_entry by (simp_all add: link_def)
        have l: "L1 pt = Suc 0" "visits (tables s1) 4 (table (kernel_pml4 s1)) v pt" using a(5,6,8) by simp_all
        note leaf = leaf_boot [OF a(2,4) l e(1,2) new, where s' = ?s', OF refl]
        have "map_small pager_map_nested pd v phys flags s = Some (?r, ?s')"
          using False g g1 new a(1,8) by (simp add: map_small_def idx_at_levels)
        moreover have "keeps_map s ?s'" using leaf(1,4,7) tr by (auto simp: keeps_map_def)
        ultimately show ?thesis
          using leaf(2,3,5,6) e(3) tr a(7,8) boot_root(1) [OF ok] by (auto simp: Suc_le_eq)
      qed
    qed simp_all
  qed
qed

text \<open>The page a virtual address lies in, and the 2 MiB area: bits 12 and 21 to 47.\<close>

definition page_of :: "u64 \<Rightarrow> u64" where "page_of v = take_bit 48 v AND NOT (mask 12)"
definition area_of :: "u64 \<Rightarrow> u64" where "area_of v = take_bit 48 v AND NOT (mask 21)"

lemma idx_at_bit: "k < 9 \<Longrightarrow> idx_at n v = idx_at n w \<Longrightarrow> n \<le> 4 \<Longrightarrow> bit v (9 * n + 3 + k) = bit w (9 * n + 3 + k)"
proof -
  assume k: "k < 9" and eq: "idx_at n v = idx_at n w" and n: "n \<le> 4"
  have m: "(0x1FF :: u64) = mask 9" by (simp add: mask_eq_exp_minus_1)
  have "drop_bit (9 * n + 3) v AND mask 9 = drop_bit (9 * n + 3) w AND mask 9"
    using eq unfolding idx_at_def m by (rule u64_eqI)
  then have "bit (drop_bit (9 * n + 3) v AND mask 9) k = bit (drop_bit (9 * n + 3) w AND mask 9) k" by simp
  then show ?thesis using k n by (simp add: bit_and_iff bit_mask_iff bit_drop_bit_eq)
qed

lemma idx_at_bits:
  assumes "\<forall>k. m \<le> k \<and> k \<le> 4 \<longrightarrow> idx_at k v = idx_at k w" "1 \<le> m" "9 * m + 3 \<le> j" "j < 48"
  shows "bit v j = bit w j"
proof -
  let ?n = "(j - 3) div 9" and ?k = "(j - 3) mod 9"
  have j: "j = 9 * ?n + 3 + ?k" using assms(2-4) by (simp add: mult.commute)
  have "m \<le> ?n" "?n \<le> 4" using assms(3,4) by linarith+
  then have "idx_at ?n v = idx_at ?n w" using assms(1) by blast
  from idx_at_bit [OF _ this \<open>?n \<le> 4\<close>, of ?k] show ?thesis unfolding j [symmetric] by simp
qed

lemma other_page: "page_of w \<noteq> page_of v \<Longrightarrow> \<exists>k. 1 \<le> k \<and> k \<le> 4 \<and> idx_at k w \<noteq> idx_at k v"
proof (rule ccontr)
  assume "page_of w \<noteq> page_of v" and "\<nexists>k. 1 \<le> k \<and> k \<le> 4 \<and> idx_at k w \<noteq> idx_at k v"
  then have "\<forall>k. 1 \<le> k \<and> k \<le> 4 \<longrightarrow> idx_at k w = idx_at k v" by blast
  from idx_at_bits [OF this] have "page_of w = page_of v"
    by (intro bit_word_eqI) (auto simp: page_of_def bit_simps not_less)
  then show False using \<open>page_of w \<noteq> page_of v\<close> by simp
qed

lemma other_area: "area_of w \<noteq> area_of v \<Longrightarrow> \<exists>k. 2 \<le> k \<and> k \<le> 4 \<and> idx_at k w \<noteq> idx_at k v"
proof (rule ccontr)
  assume "area_of w \<noteq> area_of v" and "\<nexists>k. 2 \<le> k \<and> k \<le> 4 \<and> idx_at k w \<noteq> idx_at k v"
  then have "\<forall>k. 2 \<le> k \<and> k \<le> 4 \<longrightarrow> idx_at k w = idx_at k v" by blast
  from idx_at_bits [OF this] have "area_of w = area_of v"
    by (intro bit_word_eqI) (auto simp: area_of_def bit_simps not_less)
  then show False using \<open>area_of w \<noteq> area_of v\<close> by simp
qed

lemma pager_map_early:
  "boot_ok s L \<Longrightarrow> phys_too_big phys s = Some True \<Longrightarrow> pager_map v phys flags s = Some (NULL, s)"
  "phys_too_big phys s = None \<Longrightarrow> pager_map v phys flags s = None"
  "boot_ok s L \<Longrightarrow> tbl_lock (kernel_pml4 s) \<Longrightarrow> phys_too_big phys s = Some False \<Longrightarrow> pager_map v phys flags s = None"
  by (simp_all add: pager_map_def pager_map_with_def lock_pml4_def boot_root)

lemma pager_map_keeps_map:
  assumes ok: "boot_ok s L" and res: "pager_map v phys flags s = Some (p, s')" and unlocked: "\<not> tbl_lock (kernel_pml4 s)"
  shows "keeps_map s s'"
proof (cases "phys_too_big phys s = Some False")
  case False
  then have "s' = s" using pager_map_early(1) [OF ok] pager_map_early(2) res
    by (cases "phys_too_big phys s") auto
  then show ?thesis using ok unlocked by (auto simp: keeps_map_def)
next
  case True
  show ?thesis
  proof (rule pager_map_pd [OF ok unlocked True, of v flags])
    fix pd s3 L3 t
    assume a: "boot_ok s3 L3" "extends (tables s) L (tables s3) L3" "tables s3 pd = Some t" "L3 pd = 2"
      "visits (tables s3) 4 (table (kernel_pml4 s)) v pd" "table (kernel_pml4 s3) = table (kernel_pml4 s)"
      "pager_map v phys flags s = (if flags AND PAGE_HUGE \<noteq> 0 then map_huge pd v phys flags s3
         else map_small pager_map_nested pd v phys flags s3)"
    have tr: "translate s3 w = translate s w" for w by (rule extends_translate [OF ok a(1,2,6)])
    have vis: "visits (tables s3) 4 (table (kernel_pml4 s3)) v pd" using a(5,6) by simp
    have "keeps_map s3 s'"
    proof (cases "flags AND PAGE_HUGE \<noteq> 0")
      case True
      have "keeps_map s3 (unlock_pml4 s3)"
        using a(1) by (auto simp: keeps_map_def boot_ok_unlock translate_unlock unlock_fields)
      then show ?thesis
        using map_huge_boot [OF a(1,3,4) vis True, of phys] res a(7) True by (auto split: if_splits)
    next
      case False
      then show ?thesis using map_small_boot [OF a(1,3,4) vis, of phys flags] res a(7) by auto
    qed
    then show "keeps_map s s'" by (simp add: keeps_map_def tr)
  qed (use res in simp)
qed

text \<open>C5: In the boot phase pager_map never changes where an address already leads, whatever it is asked to map and whether it succeeds, and the tables stay a tree inside the pool.\<close>

theorem pager_map_never_remaps:
  assumes "boot_ok s L" "\<not> tbl_lock (kernel_pml4 s)" "pager_map v phys flags s = Some (p, s')"
  shows "(\<exists>L'. boot_ok s' L') \<and> (\<forall>w a. translate s w = Some a \<longrightarrow> translate s' w = Some a)"
  using pager_map_keeps_map [OF assms(1,3,2)] unfolding keeps_map_def by blast

text \<open>C4: In the boot phase, with three pages left in the pool and a frame inside the physical width, pager_map of a 4 KiB page that is not mapped yet returns a pointer that is not null and maps the page to the given frame; no address of another page changes.\<close>

theorem pager_map_maps_page:
  assumes "boot_ok s L" "\<not> tbl_lock (kernel_pml4 s)" "phys_too_big phys s = Some False"
    "flags AND PAGE_HUGE = 0" "12288 \<le> pool_left s" "translate s v = None"
  shows "\<exists>p s'. pager_map v phys flags s = Some (p, s') \<and> p \<noteq> NULL \<and>
    translate s' v = Some (entry_addr phys + (v AND 0xFFF)) \<and>
    (\<forall>w. page_of w \<noteq> page_of v \<longrightarrow> translate s' w = translate s w) \<and> pool_left s \<le> pool_left s' + 12288"
proof (rule pager_map_pd [OF assms(1-3), of v flags])
  assume "pool_left s < 8192" then show ?thesis using assms(5) by simp
next
  fix pd s3 L3 t
  assume a: "boot_ok s3 L3" "extends (tables s) L (tables s3) L3" "tables s3 pd = Some t" "L3 pd = 2"
    "visits (tables s3) 4 (table (kernel_pml4 s)) v pd" "pool_left s \<le> pool_left s3 + 8192"
    "table (kernel_pml4 s3) = table (kernel_pml4 s)"
    "pager_map v phys flags s = (if flags AND PAGE_HUGE \<noteq> 0 then map_huge pd v phys flags s3
       else map_small pager_map_nested pd v phys flags s3)"
  have tr: "translate s3 w = translate s w" for w by (rule extends_translate [OF assms(1) a(1,2,7)])
  have vis: "visits (tables s3) 4 (table (kernel_pml4 s3)) v pd" using a(5,7) by simp
  have "\<not> pool_left s3 < 4096" using a(6) assms(5) by simp
  then obtain p s' where m: "map_small pager_map_nested pd v phys flags s3 = Some (p, s')"
    "pool_left s3 \<le> pool_left s' + 4096" "p \<noteq> NULL" "translate s' v = Some (entry_addr phys + (v AND 0xFFF))"
    "\<forall>w. (\<exists>k. 1 \<le> k \<and> k \<le> 4 \<and> idx_at k w \<noteq> idx_at k v) \<longrightarrow> translate s' w = translate s3 w"
    using map_small_boot [OF a(1,3,4) vis, of phys flags] assms(6) tr by auto
  have "\<forall>w. page_of w \<noteq> page_of v \<longrightarrow> translate s' w = translate s w"
    using m(5) other_page tr by metis
  moreover have "pager_map v phys flags s = Some (p, s')" using a(8) m(1) assms(4) by simp
  ultimately show ?thesis using m a(6) by auto
qed

text \<open>In the boot phase, when pager_map of a 2 MiB page succeeds, the address leads into the given 2 MiB frame, and no address outside the 2 MiB area changes.\<close>

lemma pager_map_maps_huge:
  assumes "boot_ok s L" "\<not> tbl_lock (kernel_pml4 s)"
    "flags AND PAGE_HUGE \<noteq> 0" "pager_map v phys flags s = Some (p, s')" "p \<noteq> NULL"
  shows "translate s' v = Some (huge_addr phys + (v AND 0x1FFFFF)) \<and>
    (\<forall>w. area_of w \<noteq> area_of v \<longrightarrow> translate s' w = translate s w)"
proof -
  have small: "phys_too_big phys s = Some False"
    using pager_map_early(1) [OF assms(1), of phys v flags] assms(4,5) by (cases "phys_too_big phys s") (auto simp: pager_map_early(2))
  show ?thesis
  proof (rule pager_map_pd [OF assms(1,2) small, of v flags])
    fix pd s3 L3 t
    assume a: "boot_ok s3 L3" "extends (tables s) L (tables s3) L3" "tables s3 pd = Some t" "L3 pd = 2"
      "visits (tables s3) 4 (table (kernel_pml4 s)) v pd" "table (kernel_pml4 s3) = table (kernel_pml4 s)"
      "pager_map v phys flags s = (if flags AND PAGE_HUGE \<noteq> 0 then map_huge pd v phys flags s3
         else map_small pager_map_nested pd v phys flags s3)"
    have tr: "translate s3 w = translate s w" for w by (rule extends_translate [OF assms(1) a(1,2,6)])
    have vis: "visits (tables s3) 4 (table (kernel_pml4 s3)) v pd" using a(5,6) by simp
    have res: "map_huge pd v phys flags s3 = Some (p, s')" using a(7) assms(3,4) by simp
    let ?e = "t (idx_at 2 v)"
    show ?thesis
    proof (cases "present ?e")
      case True
      then have e: "huge ?e" "huge_addr ?e = huge_addr phys" "s' = unlock_pml4 s3"
        using map_huge_boot [OF a(1,3,4) vis assms(3), of phys] res assms(5) by (auto split: if_splits)
      have "walk (tables s3) 4 (table (kernel_pml4 s3)) v = walk (tables s3) 2 pd v"
        using visits_walk [where L = L3, OF _ vis] a(1,3,4) boot_root [OF a(1)] by (auto simp: boot_ok_def)
      also have "\<dots> = Some (?e, 2)"
        using True e(1) walk_at [where T = "tables s3" and x = pd and n = 1 and v = v, OF a(3)]
        by (simp add: link_def eval_nat_numeral)
      finally show ?thesis using e tr by (simp add: translate_unlock translate_boot [OF a(1)])
    next
      case False
      then have "translate s' v = Some (huge_addr phys + (v AND 0x1FFFFF))"
        "\<forall>w. (\<exists>k. 2 \<le> k \<and> k \<le> 4 \<and> idx_at k w \<noteq> idx_at k v) \<longrightarrow> translate s' w = translate s3 w"
        using map_huge_boot [OF a(1,3,4) vis assms(3), of phys] res by auto
      then show ?thesis using other_area tr by metis
    qed
  qed (use assms(4) in simp)
qed

subsection \<open>Tables in both phases\<close>

definition tables_ok :: "pstate \<Rightarrow> (u64 \<Rightarrow> nat) \<Rightarrow> bool" where
  "tables_ok s L \<longleftrightarrow> tree_ok (tables s) (ptr_phys (table (kernel_pml4 s))) L \<and>
     table (kernel_pml4 s) \<noteq> NULL \<and>
     (\<forall>x. tables s x \<noteq> None \<longrightarrow> 4096 dvd unat x \<and> x \<noteq> 0 \<and> unat x < 2 ^ 46)"

abbreviation root :: "pstate \<Rightarrow> u64" where "root s \<equiv> ptr_phys (table (kernel_pml4 s))"

lemma tables_ok_root: "tables_ok s L \<Longrightarrow> tables s (root s) \<noteq> None \<and> L (root s) = 4 \<and> table (kernel_pml4 s) \<noteq> NULL"
  by (simp add: tables_ok_def tree_ok_def)

lemma table_pointer:
  assumes "tables_ok s L" "tables s x \<noteq> None"
  shows "pager_phys_to_virt s x \<noteq> NULL" "ptr_phys (pager_phys_to_virt s x) = x"
proof -
  have x: "x \<noteq> 0" "unat x < 2 ^ 46" using assms by (auto simp: tables_ok_def)
  have add: "unat (x + AOS_DIRECT_MAP_BASE) = unat x + 0xFFFF800000000000"
    using x(2) by (subst unat_plus_u64) simp_all
  have "\<not> AOS_DIRECT_MAP_BASE \<le> x" using x(2) by (simp add: word_le_nat_alt)
  moreover have "AOS_DIRECT_MAP_BASE \<le> x + AOS_DIRECT_MAP_BASE" using add by (simp add: word_le_nat_alt)
  moreover have "x + AOS_DIRECT_MAP_BASE \<noteq> NULL" using add by (metis add_is_0 unat_0 x(1) unat_eq_0)
  ultimately show "pager_phys_to_virt s x \<noteq> NULL" "ptr_phys (pager_phys_to_virt s x) = x"
    using x(1) by (simp_all add: pager_phys_to_virt_def ptr_phys_def)
qed

lemma get_entry_at: "p \<noteq> NULL \<Longrightarrow> tables s (ptr_phys p) = Some t \<Longrightarrow> get_entry p i s = Some (t i)"
  by (simp add: get_entry_def)

lemma set_entry_at: "p \<noteq> NULL \<Longrightarrow> tables s (ptr_phys p) = Some t \<Longrightarrow>
    set_entry p i e s = Some (s\<lparr> tables := (tables s)(ptr_phys p \<mapsto> t(i := e)) \<rparr>)"
  by (simp add: set_entry_def)

text \<open>A pointer to a table of level \<open>n\<close> on the walk of \<open>v\<close>, with the table.\<close>

definition on_walk :: "pstate \<Rightarrow> (u64 \<Rightarrow> nat) \<Rightarrow> u64 \<Rightarrow> nat \<Rightarrow> u64 \<Rightarrow> page_table \<Rightarrow> bool" where
  "on_walk s L v n p t \<longleftrightarrow> p \<noteq> NULL \<and> tables s (ptr_phys p) = Some t \<and> L (ptr_phys p) = n \<and>
     visits (tables s) 4 (root s) v (ptr_phys p)"

lemma on_walk_root: "tables_ok s L \<Longrightarrow> \<exists>t. on_walk s L v 4 (table (kernel_pml4 s)) t"
  using tables_ok_root [of s L] by (auto simp: on_walk_def eval_nat_numeral)

lemma on_walk_get: "on_walk s L v n p t \<Longrightarrow> get_entry p i s = Some (t i)"
  by (simp add: on_walk_def get_entry_at)

lemma on_walk_walk:
  assumes "tables_ok s L" "on_walk s L v (Suc n) p t"
  shows "walk (tables s) 4 (root s) v = (let e = t (idx_at (Suc n) v) in
     if \<not> present e then None else if link (Suc n) e then walk (tables s) n (entry_addr e) v else Some (e, Suc n))"
proof -
  have "walk (tables s) 4 (root s) v = walk (tables s) (Suc n) (ptr_phys p) v"
    using visits_walk [where L = L, of "tables s" "root s" 4 "root s" v "ptr_phys p"] assms tables_ok_root [OF assms(1)]
    by (simp add: on_walk_def tables_ok_def)
  then show ?thesis
    using walk_at [where T = "tables s" and x = "ptr_phys p" and t = t] assms(2) by (simp add: on_walk_def)
qed

lemma on_walk_down:
  assumes ok: "tables_ok s L" and p: "on_walk s L v (Suc n) p t" and l: "link (Suc n) (t (idx_at (Suc n) v))"
  shows "\<exists>u. on_walk s L v n (pager_phys_to_virt s (entry_addr (t (idx_at (Suc n) v)))) u"
proof -
  let ?x = "entry_addr (t (idx_at (Suc n) v))"
  have tree: "tree_ok (tables s) (root s) L" using ok by (simp add: tables_ok_def)
  have p': "tables s (ptr_phys p) = Some t" "L (ptr_phys p) = Suc n" "visits (tables s) 4 (root s) v (ptr_phys p)"
    using p by (simp_all add: on_walk_def)
  have x: "tables s ?x \<noteq> None" "L ?x = n"
    using tree_link [OF tree p'(1), of "idx_at (Suc n) v"] l p'(2) by auto
  have "visits (tables s) 4 (root s) v ?x" by (rule visits_down [OF tree p'(3,1,2) l])
  then show ?thesis using x table_pointer [OF ok x(1)] by (auto simp: on_walk_def)
qed

subsection \<open>Unmapping\<close>

text \<open>Taking the present bit away from the entry that ends the walk of \<open>v\<close>.\<close>

lemma clear_present: "\<not> present (e AND NOT PAGE_PRESENT)" "\<not> present e \<Longrightarrow> e AND NOT PAGE_PRESENT = e"
proof -
  show "\<not> present (e AND NOT PAGE_PRESENT)"
    unfolding present_iff bit_and_iff bit_not_iff small_bits by simp
  show "e AND NOT PAGE_PRESENT = e" if "\<not> present e"
  proof (rule bit_word_eqI)
    fix n assume "n < LENGTH(64)"
    then show "bit (e AND NOT PAGE_PRESENT) n = bit e n"
      unfolding bit_and_iff bit_not_iff small_bits
      by (cases "n = 0") (use that present_iff [of e] in \<open>simp_all del: bit_0\<close>)
  qed
qed

lemma clear_leaf:
  assumes ok: "tables_ok s L" and p: "on_walk s L v (Suc n) p t" and n: "n < 4"
    and e: "e = t (idx_at (Suc n) v)"
    and s': "s' = s\<lparr> tables := (tables s)(ptr_phys p \<mapsto> t(idx_at (Suc n) v := e AND NOT PAGE_PRESENT)) \<rparr>"
  shows "tables_ok s' L" "walk (tables s') 4 (root s') v = None"
    "(\<exists>k. Suc n \<le> k \<and> k \<le> 4 \<and> idx_at k w \<noteq> idx_at k v) \<or> \<not> present e \<Longrightarrow> translate s' w = translate s w"
proof -
  have tree: "tree_ok (tables s) (root s) L" using ok by (simp add: tables_ok_def)
  have p': "tables s (ptr_phys p) = Some t" "L (ptr_phys p) = Suc n" "visits (tables s) 4 (root s) v (ptr_phys p)"
    using p by (simp_all add: on_walk_def)
  have nl: "\<not> link (Suc n) (e AND NOT PAGE_PRESENT)" using clear_present(1) [of e] by (simp only: link_def) blast
  have r: "root s' = root s" by (simp add: s')
  have T: "tables s' = (tables s)(ptr_phys p \<mapsto> t(idx_at (Suc n) v := e AND NOT PAGE_PRESENT))" by (simp add: s')
  note leaf = set_leaf [OF tree p'(3,1,2) nl]
  show "tables_ok s' L"
    using ok leaf(1) p'(1) unfolding tables_ok_def r T by (auto simp: s' split: if_splits)
  show "walk (tables s') 4 (root s') v = None"
    unfolding r T leaf(2) using clear_present(1) [of e] by (simp only: if_False)
  assume "(\<exists>k. Suc n \<le> k \<and> k \<le> 4 \<and> idx_at k w \<noteq> idx_at k v) \<or> \<not> present e"
  then have "walk (tables s') 4 (root s) w = walk (tables s) 4 (root s) w"
  proof
    assume "\<exists>k. Suc n \<le> k \<and> k \<le> 4 \<and> idx_at k w \<noteq> idx_at k v"
    then show ?thesis unfolding T by (rule leaf(3))
  next
    assume "\<not> present e"
    then have "t(idx_at (Suc n) v := e AND NOT PAGE_PRESENT) = t" using clear_present(2) e by simp
    then have "tables s' = tables s" unfolding T using p'(1) by (simp only: fun_upd_triv map_upd_triv)
    then show ?thesis by simp
  qed
  then show "translate s' w = translate s w" unfolding translate_def r by simp
qed

lemma lock_tables_ok: "tables_ok (s\<lparr> kernel_pml4 := (kernel_pml4 s)\<lparr> tbl_lock := b \<rparr> \<rparr>) L \<longleftrightarrow> tables_ok s L"
  by (simp add: tables_ok_def)

lemma lock_on_walk: "on_walk (s\<lparr> kernel_pml4 := (kernel_pml4 s)\<lparr> tbl_lock := b \<rparr> \<rparr>) L v n p t \<longleftrightarrow> on_walk s L v n p t"
  by (simp add: on_walk_def)

text \<open>The state after the page that the walk ends at lost its present bit.\<close>

definition cleared :: "pstate \<Rightarrow> u64 \<Rightarrow> nat \<Rightarrow> page_table \<Rightarrow> u64 \<Rightarrow> pstate" where
  "cleared s p i t v = invlpg v (unlock_pml4 (s\<lparr> tables := (tables s)(ptr_phys p \<mapsto> t(i := t i AND NOT PAGE_PRESENT)) \<rparr>))"

lemma cleared_fields:
  "tables (cleared s p i t v) = (tables s)(ptr_phys p \<mapsto> t(i := t i AND NOT PAGE_PRESENT))"
  "root (cleared s p i t v) = root s" "table (kernel_pml4 (cleared s p i t v)) = table (kernel_pml4 s)"
  "pager_ready (cleared s p i t v) = pager_ready s" "cpu_phys_bits (cleared s p i t v) = cpu_phys_bits s"
  "invalidated (cleared s p i t v) = (if pager_ready s then v # invalidated s else invalidated s)"
  "\<not> tbl_lock (kernel_pml4 (cleared s p i t v))"
  by (simp_all add: cleared_def invlpg_def unlock_pml4_def)

lemma cleared_spec:
  assumes ok: "tables_ok s L" and p: "on_walk s L v (Suc n) p t" and n: "n < 4"
    and s': "s' = cleared s p (idx_at (Suc n) v) t v"
  shows "tables_ok s' L" "translate s' v = None"
    "(\<exists>k. Suc n \<le> k \<and> k \<le> 4 \<and> idx_at k w \<noteq> idx_at k v) \<or> \<not> present (t (idx_at (Suc n) v)) \<Longrightarrow>
       translate s' w = translate s w"
proof -
  let ?s = "s\<lparr> tables := (tables s)(ptr_phys p \<mapsto> t(idx_at (Suc n) v := t (idx_at (Suc n) v) AND NOT PAGE_PRESENT)) \<rparr>"
  note c = clear_leaf [OF ok p n refl refl]
  have f: "tables s' = tables ?s" "table (kernel_pml4 s') = table (kernel_pml4 ?s)"
    by (simp_all add: s' cleared_fields)
  show "tables_ok s' L" using c(1) unfolding tables_ok_def f .
  show "translate s' v = None" using c(2) by (simp only: translate_def f option.case)
  show "translate s' w = translate s w"
    if "(\<exists>k. Suc n \<le> k \<and> k \<le> 4 \<and> idx_at k w \<noteq> idx_at k v) \<or> \<not> present (t (idx_at (Suc n) v))"
    using c(3) [OF that] by (simp only: translate_def f)
qed

text \<open>What \<open>pager_unmap\<close> does, by where the walk of the address ends.\<close>

lemma pager_unmap_cases:
  assumes ok: "tables_ok s L" and mapped: "mapped_pml4 s" and unlocked: "\<not> tbl_lock (kernel_pml4 s)"
  obtains
    (absent) "pager_unmap v s = Some s" "translate s v = None"
  | (huge) p t where "on_walk s L v 2 p t" "huge (t (idx_at 2 v))" "pager_unmap v s = Some (cleared s p (idx_at 2 v) t v)"
  | (small) p t where "on_walk s L v 1 p t" "pager_unmap v s = Some (cleared s p (idx_at 1 v) t v)"
proof -
  let ?s1 = "s\<lparr> kernel_pml4 := (kernel_pml4 s)\<lparr> tbl_lock := True \<rparr> \<rparr>"
  have ok1: "tables_ok ?s1 L" using ok by (simp only: lock_tables_ok)
  have lock: "lock_pml4 s = Some ?s1" using unlocked by (simp add: lock_pml4_def)
  have unl: "unlock_pml4 ?s1 = s" using unlocked by (simp add: unlock_pml4_def)
  have cl: "invlpg v (unlock_pml4 (?s1\<lparr> tables := T \<rparr>)) = invlpg v (unlock_pml4 (s\<lparr> tables := T \<rparr>))" for T
    by (simp add: unlock_pml4_def)
  have none: "translate s v = None" if "on_walk ?s1 L v (Suc n) p t" "\<not> present (t (idx_at (Suc n) v))" for n p t
    using on_walk_walk [OF ok, of v n p t] that by (simp add: lock_on_walk translate_def)
  have set: "set_entry p i e ?s1 = Some (?s1\<lparr> tables := (tables s)(ptr_phys p \<mapsto> t(i := e)) \<rparr>)"
    if "on_walk ?s1 L v n p t" for n p t i e
    using that by (simp add: set_entry_at on_walk_def)
  obtain t4 where 4: "on_walk ?s1 L v (Suc 3) (table (kernel_pml4 ?s1)) t4"
    using on_walk_root [OF ok1, of v] by (auto simp: eval_nat_numeral)
  let ?e4 = "t4 (idx_at (Suc 3) v)"
  let ?p3 = "pager_phys_to_virt ?s1 (entry_addr ?e4)"
  have start: "pager_unmap v s =
      (if \<not> present ?e4 then Some s
       else do {
         e3 \<leftarrow> get_entry ?p3 (idx_at 3 v) ?s1;
         if \<not> present e3 then Some s
         else do {
           let pd = pager_phys_to_virt ?s1 (entry_addr e3);
           e2 \<leftarrow> get_entry pd (idx_at 2 v) ?s1;
           if huge e2 then do {
             s2 \<leftarrow> set_entry pd (idx_at 2 v) (e2 AND NOT PAGE_PRESENT) ?s1;
             Some (invlpg v (unlock_pml4 s2)) }
           else if \<not> present e2 then Some s
           else do {
             let pt = pager_phys_to_virt ?s1 (entry_addr e2);
             e1 \<leftarrow> get_entry pt (idx_at 1 v) ?s1;
             s2 \<leftarrow> set_entry pt (idx_at 1 v) (e1 AND NOT PAGE_PRESENT) ?s1;
             Some (invlpg v (unlock_pml4 s2)) } } })"
    using mapped lock on_walk_get [OF 4, of "idx_at 4 v"] unl
    by (simp add: pager_unmap_def idx_at_levels cong: if_cong)
  show thesis
  proof (cases "present ?e4")
    case False
    then show thesis using start none [OF 4] by (intro absent) simp_all
  next
    case p4: True
    then obtain t3 where 3: "on_walk ?s1 L v (Suc 2) ?p3 t3"
      using on_walk_down [OF ok1 4] by (auto simp: link_def eval_nat_numeral)
    let ?e3 = "t3 (idx_at (Suc 2) v)"
    let ?p2 = "pager_phys_to_virt ?s1 (entry_addr ?e3)"
    have g3: "get_entry ?p3 (idx_at 3 v) ?s1 = Some ?e3" using on_walk_get [OF 3, of "idx_at 3 v"] by simp
    show thesis
    proof (cases "present ?e3")
      case False
      then show thesis using start p4 g3 none [OF 3] by (intro absent) simp_all
    next
      case p3: True
      then obtain t2 where 2: "on_walk ?s1 L v (Suc 1) ?p2 t2"
        using on_walk_down [OF ok1 3] by (auto simp: link_def eval_nat_numeral)
      let ?e2 = "t2 (idx_at (Suc 1) v)"
      let ?p1 = "pager_phys_to_virt ?s1 (entry_addr ?e2)"
      have g2: "get_entry ?p2 (idx_at 2 v) ?s1 = Some ?e2" using on_walk_get [OF 2, of "idx_at 2 v"] by (simp only: Suc_1)
      have n2: "?e2 = t2 (idx_at 2 v)" "on_walk s L v 2 ?p2 t2" using 2 by (simp_all only: Suc_1 lock_on_walk)
      show thesis
      proof (cases "huge ?e2")
        case True
        have "pager_unmap v s = Some (cleared s ?p2 (idx_at 2 v) t2 v)"
          using start p4 p3 g3 g2 True set [OF 2] n2(1) by (simp add: cl cleared_def)
        then show thesis using huge [OF n2(2)] True n2(1) by simp
      next
        case nh: False
        show thesis
        proof (cases "present ?e2")
          case False
          then show thesis using start p4 p3 g3 g2 nh none [OF 2] by (intro absent) simp_all
        next
          case True
          then have "link (Suc 1) ?e2" using nh by (simp add: link_def)
          from on_walk_down [OF ok1 2 this] obtain t1 where 1: "on_walk ?s1 L v 1 ?p1 t1" by blast
          have g1: "get_entry ?p1 (idx_at 1 v) ?s1 = Some (t1 (idx_at 1 v))" by (rule on_walk_get [OF 1])
          have "pager_unmap v s = Some (cleared s ?p1 (idx_at 1 v) t1 v)"
            using start p4 p3 g3 g2 g1 nh True set [OF 1] by (simp add: cl cleared_def)
          then show thesis using small 1 by (simp only: lock_on_walk)
        qed
      qed
    qed
  qed
qed

text \<open>The address is mapped by a page of 2 MiB.\<close>

definition huge_mapped :: "pstate \<Rightarrow> u64 \<Rightarrow> bool" where
  "huge_mapped s v \<longleftrightarrow> (\<exists>e. walk (tables s) 4 (root s) v = Some (e, 2))"

lemma on_walk_huge:
  assumes "tables_ok s L" "on_walk s L v 2 p t" "huge (t (idx_at 2 v))"
  shows "walk (tables s) 4 (root s) v = (if present (t (idx_at 2 v)) then Some (t (idx_at 2 v), 2) else None)"
  using on_walk_walk [OF assms(1), of v 1 p t] assms(2,3) by (simp add: Let_def link_def eval_nat_numeral)

lemma on_walk_small:
  assumes "tables_ok s L" "on_walk s L v 1 p t"
  shows "walk (tables s) 4 (root s) v = (if present (t (idx_at 1 v)) then Some (t (idx_at 1 v), 1) else None)"
  using on_walk_walk [OF assms(1), of v 0 p t] assms(2) by (simp add: Let_def link_def)

text \<open>C6: pager_unmap of any address returns and leaves the address unmapped. Outside the 2 MiB area nothing changes, and unless the address was mapped by a huge page, neither does any other page; an address that was mapped is given to invlpg once the pager is ready.\<close>

theorem pager_unmap_unmaps:
  assumes "tables_ok s L" "mapped_pml4 s" "\<not> tbl_lock (kernel_pml4 s)"
  shows "\<exists>s'. pager_unmap v s = Some s' \<and> tables_ok s' L \<and> translate s' v = None \<and>
    (\<forall>w. (if huge_mapped s v then area_of w \<noteq> area_of v else page_of w \<noteq> page_of v) \<longrightarrow>
       translate s' w = translate s w) \<and>
    (pager_ready s \<and> translate s v \<noteq> None \<longrightarrow> invalidated s' = v # invalidated s)"
proof (rule pager_unmap_cases [OF assms, of v])
  assume "pager_unmap v s = Some s" "translate s v = None"
  then show ?thesis using assms(1) by simp
next
  fix p t assume a: "on_walk s L v 2 p t" "huge (t (idx_at 2 v))"
    "pager_unmap v s = Some (cleared s p (idx_at 2 v) t v)"
  have l: "on_walk s L v (Suc 1) p t" using a(1) by (simp only: Suc_1)
  note c = cleared_spec [OF assms(1) l _ refl, unfolded Suc_1]
  have "translate (cleared s p (idx_at 2 v) t v) w = translate s w"
    if "if huge_mapped s v then area_of w \<noteq> area_of v else page_of w \<noteq> page_of v" for w
  proof (rule c(3))
    show "(\<exists>k. 2 \<le> k \<and> k \<le> 4 \<and> idx_at k w \<noteq> idx_at k v) \<or> \<not> present (t (idx_at 2 v))"
      using that other_area [of w v] on_walk_huge [OF assms(1) a(1,2)]
      by (cases "present (t (idx_at 2 v))") (simp_all add: huge_mapped_def)
  qed simp
  then show ?thesis using a(3) c(1,2) by (simp add: cleared_fields(6))
next
  fix p t assume a: "on_walk s L v 1 p t" "pager_unmap v s = Some (cleared s p (idx_at 1 v) t v)"
  have l: "on_walk s L v (Suc 0) p t" using a(1) by (simp only: One_nat_def)
  note c = cleared_spec [OF assms(1) l _ refl, folded One_nat_def]
  have nh: "\<not> huge_mapped s v" using on_walk_small [OF assms(1) a(1)] by (simp add: huge_mapped_def)
  have "translate (cleared s p (idx_at 1 v) t v) w = translate s w" if "page_of w \<noteq> page_of v" for w
    using c(3) other_page [OF that] by simp
  then show ?thesis using a(2) c(1,2) nh by (simp add: cleared_fields(6))
qed

subsection \<open>Mapping where the tables exist\<close>

lemma on_walk_2:
  assumes ok: "tables_ok s L" and p: "on_walk s L v 2 p t"
  shows "\<exists>t4 t3. on_walk s L v 4 (table (kernel_pml4 s)) t4 \<and> present (t4 (idx_at 4 v)) \<and>
    on_walk s L v 3 (pager_phys_to_virt s (entry_addr (t4 (idx_at 4 v)))) t3 \<and> present (t3 (idx_at 3 v)) \<and>
    entry_addr (t3 (idx_at 3 v)) = ptr_phys p"
proof -
  have tree: "tree_ok (tables s) (root s) L" using ok by (simp add: tables_ok_def)
  let ?z = "ptr_phys p"
  have z: "L ?z = 2" "visits (tables s) (Suc 3) (root s) v ?z" using p by (simp_all add: on_walk_def eval_nat_numeral)
  obtain t4 where t4: "on_walk s L v 4 (table (kernel_pml4 s)) t4" using on_walk_root [OF ok] by blast
  then have r: "tables s (root s) = Some t4" "L (root s) = 4" by (simp_all add: on_walk_def)
  have "root s \<noteq> ?z" using z(1) r(2) by auto
  then have 4: "link 4 (t4 (idx_at 4 v))" "visits (tables s) (Suc 2) (entry_addr (t4 (idx_at 4 v))) v ?z"
    using z(2) r(1) by (simp_all add: eval_nat_numeral)
  have l4: "link (Suc 3) (t4 (idx_at (Suc 3) v))" using 4(1) by (simp add: eval_nat_numeral)
  have w4: "on_walk s L v (Suc 3) (table (kernel_pml4 s)) t4" using t4 by (simp add: eval_nat_numeral)
  from on_walk_down [OF ok w4 l4]
  obtain t3 where t3: "on_walk s L v 3 (pager_phys_to_virt s (entry_addr (t4 (idx_at 4 v)))) t3"
    by (auto simp: eval_nat_numeral)
  have x3: "tables s (entry_addr (t4 (idx_at 4 v))) \<noteq> None" "L (entry_addr (t4 (idx_at 4 v))) = 3"
    using tree_link [OF tree r(1), of "idx_at 4 v"] 4(1) r(2) by auto
  have u: "tables s (entry_addr (t4 (idx_at 4 v))) = Some t3"
    using t3 table_pointer(2) [OF ok x3(1)] by (simp add: on_walk_def)
  have "entry_addr (t4 (idx_at 4 v)) \<noteq> ?z" using x3(2) z(1) by auto
  then have 3: "link 3 (t3 (idx_at 3 v))" "visits (tables s) (Suc 1) (entry_addr (t3 (idx_at 3 v))) v ?z"
    using 4(2) u by (simp_all add: eval_nat_numeral)
  have x2: "tables s (entry_addr (t3 (idx_at 3 v))) \<noteq> None" "L (entry_addr (t3 (idx_at 3 v))) = Suc 1"
    using tree_link [OF tree u, of "idx_at 3 v"] 3(1) x3(2) by auto
  have "entry_addr (t3 (idx_at 3 v)) = ?z"
    using visits_level [OF tree 3(2) x2(2,1)] z(1) by simp
  then show ?thesis using t4 t3 4(1) 3(1) by (auto simp: link_def)
qed

lemma pager_map_on_walk:
  assumes ok: "tables_ok s L" and p: "on_walk s L v 2 p t" and unlocked: "\<not> tbl_lock (kernel_pml4 s)"
    and small: "phys_too_big phys s = Some False" and f: "flags AND PAGE_HUGE = 0"
    and e: "huge (t (idx_at 2 v))" "huge_addr (t (idx_at 2 v)) = huge_addr phys"
  shows "pager_map v phys flags s = Some (table (kernel_pml4 s), s)"
proof -
  let ?s1 = "s\<lparr> kernel_pml4 := (kernel_pml4 s)\<lparr> tbl_lock := True \<rparr> \<rparr>"
  have lock: "lock_pml4 s = Some ?s1" using unlocked by (simp add: lock_pml4_def)
  have unl: "unlock_pml4 ?s1 = s" using unlocked by (simp add: unlock_pml4_def)
  obtain t4 t3 where w: "on_walk s L v 4 (table (kernel_pml4 s)) t4" "present (t4 (idx_at 4 v))"
    "on_walk s L v 3 (pager_phys_to_virt s (entry_addr (t4 (idx_at 4 v)))) t3" "present (t3 (idx_at 3 v))"
    "entry_addr (t3 (idx_at 3 v)) = ptr_phys p"
    using on_walk_2 [OF ok p] by blast
  have get: "get_entry q i ?s1 = Some (u i)" if "on_walk s L v n q u" for q n u i
    using that by (intro on_walk_get [where s = ?s1 and L = L and v = v and n = n]) (simp add: lock_on_walk)
  have virt: "pager_phys_to_virt ?s1 x = pager_phys_to_virt s x" for x by (simp add: pager_phys_to_virt_def)
  have "tables s (ptr_phys p) \<noteq> None" using p by (simp add: on_walk_def)
  from table_pointer [OF ok this] have p2: "on_walk s L v 2 (pager_phys_to_virt s (ptr_phys p)) t"
    using p by (simp add: on_walk_def)
  have n4: "next_table pager_map_nested (table (kernel_pml4 s)) (idx_at 4 v) ?s1 =
      Some (pager_phys_to_virt s (entry_addr (t4 (idx_at 4 v))), ?s1)"
    using get [OF w(1)] w(2) by (simp add: next_table_def virt)
  have n3: "next_table pager_map_nested (pager_phys_to_virt s (entry_addr (t4 (idx_at 4 v)))) (idx_at 3 v) ?s1 =
      Some (pager_phys_to_virt s (ptr_phys p), ?s1)"
    using get [OF w(3)] w(4,5) by (simp add: next_table_def virt)
  have m: "map_small pager_map_nested (pager_phys_to_virt s (ptr_phys p)) v phys flags ?s1 =
      Some (table (kernel_pml4 s), s)"
    using get [OF p2, of "idx_at 2 v"] e unl by (simp add: map_small_def idx_at_levels)
  show ?thesis
    using small lock n4 n3 m f tables_ok_root [OF ok]
    by (simp add: pager_map_def pager_map_with_def idx_at_levels)
qed

text \<open>After pager_unmap took a 2 MiB page away, pager_map of a 4 KiB page inside the same frame reports success and maps nothing: the entry kept its size bit and lost only its present bit.\<close>

lemma pager_map_trusts_stale_huge:
  assumes "tables_ok s L" "mapped_pml4 s" "\<not> tbl_lock (kernel_pml4 s)"
    "walk (tables s) 4 (root s) v = Some (e, 2)" "huge_addr e = huge_addr phys"
    "phys_too_big phys s = Some False" "flags AND PAGE_HUGE = 0"
  shows "\<exists>s1 p. pager_unmap v s = Some s1 \<and> pager_map v phys flags s1 = Some (p, s1) \<and> p \<noteq> NULL \<and>
    translate s1 v = None"
proof (rule pager_unmap_cases [OF assms(1-3), of v])
  assume "translate s v = None" then show ?thesis using assms(4) by (simp add: translate_def)
next
  fix p t assume a: "on_walk s L v 1 p t"
  show ?thesis using on_walk_small [OF assms(1) a] assms(4) by (simp split: if_splits)
next
  fix p t assume a: "on_walk s L v 2 p t" "huge (t (idx_at 2 v))"
    "pager_unmap v s = Some (cleared s p (idx_at 2 v) t v)"
  let ?s1 = "cleared s p (idx_at 2 v) t v"
  let ?t1 = "t(idx_at 2 v := t (idx_at 2 v) AND NOT PAGE_PRESENT)"
  have l: "on_walk s L v (Suc 1) p t" using a(1) by (simp only: Suc_1)
  note c = cleared_spec [OF assms(1) l _ refl, unfolded Suc_1]
  have e: "t (idx_at 2 v) = e" using on_walk_huge [OF assms(1) a(1,2)] assms(4) by (simp split: if_splits)
  have ext: "extends (tables s) L (tables s) L" by (rule extends_refl)
  have tree: "tree_ok (tables s) (root s) L" using assms(1) by (simp add: tables_ok_def)
  have stays: "visits (tables ?s1) m x v (ptr_phys p)"
    if "visits (tables s) m x v (ptr_phys p)" "L x = m" "tables s x \<noteq> None" for m x
    using that
  proof (induction m arbitrary: x)
    case (Suc m)
    show ?case
    proof (cases "x = ptr_phys p")
      case False
      let ?j = "idx_at (Suc m) v"
      from False Suc.prems(1) obtain u where u: "tables s x = Some u" "link (Suc m) (u ?j)"
        "visits (tables s) m (entry_addr (u ?j)) v (ptr_phys p)" by (auto split: option.splits)
      have "L (entry_addr (u ?j)) = m" "tables s (entry_addr (u ?j)) \<noteq> None"
        using tree_link [OF tree u(1), of ?j] u(2) Suc.prems(2) by auto
      from Suc.IH [OF u(3) this] u(1,2) False show ?thesis by (simp add: cleared_fields(1))
    qed simp
  qed simp
  have w1: "on_walk ?s1 L v 2 p ?t1"
    using a(1) stays [of 4 "root s"] tables_ok_root [OF assms(1)]
    by (auto simp: on_walk_def cleared_fields(1,2))
  have bits: "huge (?t1 (idx_at 2 v))" "huge_addr (?t1 (idx_at 2 v)) = huge_addr phys"
  proof -
    show "huge (?t1 (idx_at 2 v))"
      using a(2) unfolding fun_upd_same huge_iff bit_and_iff bit_not_iff small_bits by simp
    have "huge_addr (e AND NOT PAGE_PRESENT) = huge_addr e"
      by (rule bit_word_eqI, unfold entry_bits) auto
    then show "huge_addr (?t1 (idx_at 2 v)) = huge_addr phys" using assms(5) e by (simp only: fun_upd_same)
  qed
  have "phys_too_big phys ?s1 = Some False" using assms(6) unfolding phys_too_big_def cleared_fields(5) .
  from pager_map_on_walk [OF c(1) w1 cleared_fields(7) this assms(7) bits]
  have "pager_map v phys flags ?s1 = Some (table (kernel_pml4 s), ?s1)"
    by (simp add: cleared_fields(3))
  moreover have "translate ?s1 v = None" using c(2) by simp
  ultimately show ?thesis using a(3) tables_ok_root [OF assms(1)] by blast
qed

subsection \<open>The direct map serves the allocator\<close>

definition direct_mapped :: "pstate \<Rightarrow> u64 \<Rightarrow> bool" where
  "direct_mapped s phys \<longleftrightarrow> (\<exists>L. tables_ok s L) \<and> \<not> tbl_lock (kernel_pml4 s) \<and>
     phys_too_big phys s = Some False \<and>
     (\<exists>e. walk (tables s) 4 (root s) (AOS_DIRECT_MAP_BASE + phys) = Some (e, 2) \<and> huge_addr e = huge_addr phys)"

text \<open>A walk that ends in a huge page reads the page directory.\<close>

lemma huge_walk_on_walk:
  assumes ok: "tables_ok s L" and w: "walk (tables s) 4 (root s) v = Some (e, 2)"
  shows "\<exists>p t. on_walk s L v 2 p t \<and> t (idx_at 2 v) = e \<and> huge e"
proof -
  obtain t4 where 4: "on_walk s L v (Suc 3) (table (kernel_pml4 s)) t4"
    using on_walk_root [OF ok] by (auto simp: eval_nat_numeral)
  from on_walk_walk [OF ok 4] w have l4: "link (Suc 3) (t4 (idx_at (Suc 3) v))" by (auto simp: Let_def split: if_splits)
  obtain p3 t3 where 3: "on_walk s L v (Suc 2) p3 t3"
    using on_walk_down [OF ok 4 l4] by (auto simp: eval_nat_numeral)
  from on_walk_walk [OF ok 3] w have l3: "link (Suc 2) (t3 (idx_at (Suc 2) v))" by (auto simp: Let_def split: if_splits)
  obtain p2 t2 where 2: "on_walk s L v (Suc 1) p2 t2"
    using on_walk_down [OF ok 3 l3] by (auto simp: eval_nat_numeral)
  let ?e = "t2 (idx_at (Suc 1) v)"
  have "\<not> link (Suc 1) ?e"
  proof
    assume l: "link (Suc 1) ?e"
    obtain p1 t1 where 1: "on_walk s L v 1 p1 t1" using on_walk_down [OF ok 2 l] by auto
    show False using on_walk_small [OF ok 1] w by (simp split: if_splits)
  qed
  then have "?e = e \<and> huge e"
    using on_walk_walk [OF ok 2] w by (auto simp: Let_def link_def split: if_splits)
  then show ?thesis using 2 by (auto simp only: Suc_1)
qed

lemma pager_more_cong:
  assumes "avmf.more s' = avmf.more (s :: pstate)"
  shows "tables s' = tables s" "kernel_pml4 s' = kernel_pml4 s" "cpu_phys_bits s' = cpu_phys_bits s"
  using assms by (cases s; cases s'; simp)+

interpretation pager: direct_map_pager pager_map direct_mapped
proof unfold_locales
  fix s phys assume d: "direct_mapped s phys"
  then obtain L e where *: "tables_ok s L" "\<not> tbl_lock (kernel_pml4 s)" "phys_too_big phys s = Some False"
    "walk (tables s) 4 (root s) (AOS_DIRECT_MAP_BASE + phys) = Some (e, 2)" "huge_addr e = huge_addr phys"
    unfolding direct_mapped_def by blast
  obtain p t where p: "on_walk s L (AOS_DIRECT_MAP_BASE + phys) 2 p t"
    "t (idx_at 2 (AOS_DIRECT_MAP_BASE + phys)) = e" "huge e"
    using huge_walk_on_walk [OF *(1,4)] by blast
  have f: "(PAGE_RW OR PAGE_PCD OR PAGE_PRESENT) AND PAGE_HUGE = 0" by simp
  have "pager_map (AOS_DIRECT_MAP_BASE + phys) phys (PAGE_RW OR PAGE_PCD OR PAGE_PRESENT) s =
      Some (table (kernel_pml4 s), s)"
    using p *(5) by (intro pager_map_on_walk [OF *(1) p(1) *(2,3) f]) simp_all
  then show "\<exists>t. t \<noteq> NULL \<and>
      pager_map (AOS_DIRECT_MAP_BASE + phys) phys (PAGE_RW OR PAGE_PCD OR PAGE_PRESENT) s = Some (t, s)"
    using tables_ok_root [OF *(1)] by blast
next
  fix s s' :: pstate and phys
  assume "avmf.more s' = avmf.more s"
  note m = pager_more_cong [OF this]
  show "direct_mapped s' phys = direct_mapped s phys"
    unfolding direct_mapped_def tables_ok_def phys_too_big_def m ..
qed

text \<open>C7: Once the direct map covers the free pages and the current page of headers is used up, avmf_alloc_ihdr with the real pager takes one free page, maps nothing new, and returns a zeroed header at its direct-map address.\<close>

theorem avmf_alloc_ihdr_through_pager:
  assumes "phys_ok s" "i < unat (physical_region_count s)" "can_take s i 1"
    "\<forall>i < unat (physical_region_count s). \<forall>f. region_run s i 1 f \<longrightarrow> f \<noteq> 0 \<and> direct_mapped s (f * PAGE_SIZE)"
    "ihdr_cpage_remaining s < sizeof_avmf_header \<or> ihdr_cpage s = NULL"
  shows "\<exists>j < unat (physical_region_count s). \<exists>f s'. region_run s j 1 f \<and>
    avmf_alloc_ihdr pager_map s = Some (AOS_DIRECT_MAP_BASE + f * PAGE_SIZE, s') \<and>
    headers s' (AOS_DIRECT_MAP_BASE + f * PAGE_SIZE) = Some zero_header \<and>
    (\<forall>q. page_used s' q \<longleftrightarrow> q = f \<or> page_used s q)"
  by (rule pager.alloc_ihdr_new_page [OF assms])

subsection \<open>Instances\<close>

definition sample_boot :: pstate where
  "sample_boot = \<lparr> headers = Map.empty, ranges = Map.empty, regions = [], region_count = 0,
     physical_regions = [empty_region\<lparr> signature := AVMF_SIGNATURE, version := AVMF_VERSION,
       base := 0x10000, limit := 0x14000 \<rparr>], physical_region_count = 1,
     static_ranges = 0x200000, static_ranges_count = 0, ihdr_cpage = 0, ihdr_cpage_remaining = 0,
     irange_cpage = 0, irange_cpage_remaining = 0, bitmap = (\<lambda>_. 0),
     tables = [0x100000 \<mapsto> (\<lambda>_. 0)],
     kernel_pml4 = \<lparr> table_phys = 0x100000, tbl_lock = False, table = 0x100000 \<rparr>,
     mapped_pml4 = False, pager_ready = False, cpu_phys_bits = 40, cpu_virt_bits = 48,
     first_pagemaps_ptr = 0x1000, first_pagemaps = 0x100000, first_pagemaps_end = 0x180000,
     cr3 = 0, invalidated = [] \<rparr>"

definition sample_ready :: pstate where
  "sample_ready = sample_boot\<lparr> tables := [0x100000 \<mapsto> (\<lambda>_. 0)(256 := 0x101003),
       0x101000 \<mapsto> (\<lambda>_. 0)(0 := 0x102003), 0x102000 \<mapsto> (\<lambda>_. 0)(0 := 0x83)],
     mapped_pml4 := True, pager_ready := True, first_pagemaps_ptr := 0x3000 \<rparr>"

lemma entry_0: "present 0 = False" "link n 0 = False"
  by (simp_all add: link_def present_def)

lemma sample_boot_ok: "boot_ok sample_boot (\<lambda>_. 4)"
proof -
  have "tree_ok (tables sample_boot) 0x100000 (\<lambda>_. 4)"
    unfolding tree_ok_def by (auto simp: sample_boot_def entry_0 split: if_splits)
  moreover have "pool_left sample_boot = 0x7F000" by (simp add: pool_left_def sample_boot_def)
  ultimately show ?thesis
    unfolding boot_ok_def by (auto simp: sample_boot_def entry_0 huge_def split: if_splits)
qed

lemma sample_ready_ok: "tables_ok sample_ready ((\<lambda>_. 0)(0x100000 := 4, 0x101000 := 3, 0x102000 := 2))"
  (is "tables_ok _ ?L")
proof -
  have T: "tables sample_ready = [0x100000 \<mapsto> (\<lambda>_. 0)(256 := 0x101003),
       0x101000 \<mapsto> (\<lambda>_. 0)(0 := 0x102003), 0x102000 \<mapsto> (\<lambda>_. 0)(0 := 0x83)]"
    "root sample_ready = 0x100000" "table (kernel_pml4 sample_ready) \<noteq> NULL"
    by (simp_all add: sample_ready_def sample_boot_def ptr_phys_def)
  have links: "x = 0x100000 \<and> i = 256 \<and> t i = 0x101003 \<or> x = 0x101000 \<and> i = 0 \<and> t i = 0x102003"
    if "tables sample_ready x = Some t" "link (?L x) (t i)" for x t i
    using that unfolding T by (auto simp: entry_0 link_def huge_def present_def split: if_splits)
  have addr: "entry_addr 0x101003 = 0x101000" "entry_addr 0x102003 = 0x102000"
    by (simp_all add: entry_addr_def)
  have "tree_ok (tables sample_ready) 0x100000 ?L"
    unfolding tree_ok_def
  proof (intro conjI allI impI)
    show "tables sample_ready 0x100000 \<noteq> None" "?L 0x100000 = 4" by (simp_all add: T)
  next
    fix x t i assume *: "tables sample_ready x = Some t" "link (?L x) (t i)"
    from links [OF *] show "tables sample_ready (entry_addr (t i)) \<noteq> None"
      "?L (entry_addr (t i)) = ?L x - 1"
      by (auto simp: T addr)
  next
    fix x t i y u j
    assume *: "tables sample_ready x = Some t" "tables sample_ready y = Some u"
      "link (?L x) (t i)" "link (?L y) (u j)" "entry_addr (t i) = entry_addr (u j)"
    from links [OF *(1,3)] links [OF *(2,4)] *(5) show "x = y" "i = j"
      by (auto simp: addr)
  qed
  then show ?thesis using T(3) unfolding tables_ok_def T(2) by (auto simp: T(1) split: if_splits)
qed

lemmas pager_eval = pager_map_def pager_map_with_def phys_too_big_def lock_pml4_def
  next_table_def get_entry_def set_entry_def present_def huge_def alloc_page_table_def ptr_phys_def
  map_small_def map_huge_def idx_pml4_def idx_pdpt_def idx_pd_def idx_pt_def

lemma sample_boot_unlocked: "\<not> tbl_lock (kernel_pml4 sample_boot)"
  by (simp add: sample_boot_def)

theorem pager_map_never_remaps_witness:
  "\<exists>s' L'. pager_map 0x1000 0x5000 0x3 sample_boot = Some (0x100000, s') \<and> boot_ok s' L'"
proof -
  have "\<exists>s'. pager_map 0x1000 0x5000 0x3 sample_boot = Some (0x100000, s')"
    by (simp add: sample_boot_def pager_eval Let_def)
  then show ?thesis using pager_map_never_remaps [OF sample_boot_ok sample_boot_unlocked] by blast
qed

theorem pager_map_maps_page_witness:
  "\<exists>p s'. pager_map 0x1234 0x5000 0x3 sample_boot = Some (p, s') \<and> translate s' 0x1234 = Some 0x5234"
proof -
  have T: "tables sample_boot 0x100000 = Some (\<lambda>_. 0)" "root sample_boot = 0x100000"
    by (simp_all add: sample_boot_def ptr_phys_def)
  have "walk (tables sample_boot) (Suc 3) 0x100000 0x1234 = None"
    by (subst walk_entry [where T = "tables sample_boot" and e = 0, OF T(1)]) (simp_all add: entry_0)
  then have t: "translate sample_boot 0x1234 = None" by (simp add: translate_def T(2) eval_nat_numeral)
  have "phys_too_big 0x5000 sample_boot = Some False" "(0x3 :: u64) AND PAGE_HUGE = 0"
    "12288 \<le> pool_left sample_boot"
    by (simp_all add: phys_too_big_def pool_left_def sample_boot_def)
  from pager_map_maps_page [OF sample_boot_ok sample_boot_unlocked this t] show ?thesis
    by (auto simp: entry_addr_def)
qed

lemma sample_ready_fields: "mapped_pml4 sample_ready" "\<not> tbl_lock (kernel_pml4 sample_ready)" "pager_ready sample_ready"
  by (simp_all add: sample_ready_def sample_boot_def)

lemma sample_ready_walk:
  "idx_at 4 v = 256 \<Longrightarrow> idx_at 3 v = 0 \<Longrightarrow> idx_at 2 v = 0 \<Longrightarrow>
   walk (tables sample_ready) 4 (root sample_ready) v = Some (0x83, 2)"
proof -
  assume i: "idx_at 4 v = 256" "idx_at 3 v = 0" "idx_at 2 v = 0"
  have T: "tables sample_ready 0x100000 = Some ((\<lambda>_. 0)(256 := 0x101003))"
    "tables sample_ready 0x101000 = Some ((\<lambda>_. 0)(0 := 0x102003))"
    "tables sample_ready 0x102000 = Some ((\<lambda>_. 0)(0 := 0x83))" "root sample_ready = 0x100000"
    by (simp_all add: sample_ready_def sample_boot_def ptr_phys_def)
  have n: "Suc 2 = (3 :: nat)" "Suc 3 = (4 :: nat)" by simp_all
  have "walk (tables sample_ready) 2 0x102000 v = Some (0x83, 2)"
    using walk_at [where T = "tables sample_ready" and x = "0x102000" and n = 1 and v = v, unfolded Suc_1, OF T(3)] i
    by (simp add: present_def link_def huge_def)
  then have "walk (tables sample_ready) 3 0x101000 v = Some (0x83, 2)"
    using walk_at [where T = "tables sample_ready" and x = "0x101000" and n = 2 and v = v, unfolded n, OF T(2)] i
    by (simp add: present_def link_def entry_addr_def)
  then show ?thesis
    using walk_at [where T = "tables sample_ready" and x = "0x100000" and n = 3 and v = v, unfolded n, OF T(1)] i
    by (simp add: present_def link_def entry_addr_def T(4))
qed

theorem pager_unmap_unmaps_witness:
  "\<exists>s'. pager_unmap AOS_DIRECT_MAP_BASE sample_ready = Some s' \<and> translate s' AOS_DIRECT_MAP_BASE = None \<and>
    invalidated s' = [AOS_DIRECT_MAP_BASE]"
proof -
  have "walk (tables sample_ready) 4 (root sample_ready) AOS_DIRECT_MAP_BASE = Some (0x83, 2)"
    by (rule sample_ready_walk) (simp_all add: idx_at_def)
  then have "translate sample_ready AOS_DIRECT_MAP_BASE \<noteq> None" by (simp add: translate_def)
  moreover have "invalidated sample_ready = []" by (simp add: sample_ready_def sample_boot_def)
  ultimately show ?thesis
    using pager_unmap_unmaps [OF sample_ready_ok sample_ready_fields(1,2), of AOS_DIRECT_MAP_BASE] sample_ready_fields(3)
    by auto
qed

lemma sample_ready_phys: "phys_ok sample_ready" "unat (physical_region_count sample_ready) = 1"
  "region_run sample_ready 0 1 f \<longleftrightarrow> 16 \<le> unat f \<and> unat f < 20"
  by (auto simp: phys_ok_def sample_ready_def sample_boot_def end_page_of_def first_page_of_def
    region_run_def region_ok_def free_run_def page_used_def)

lemma sample_ready_direct:
  assumes "16 \<le> unat f" "unat f < 20"
  shows "direct_mapped sample_ready (f * PAGE_SIZE)"
proof -
  have "f \<in> {16, 17, 18, 19}"
  proof -
    have "unat f = unat (16 :: u64) \<or> unat f = unat (17 :: u64) \<or> unat f = unat (18 :: u64) \<or> unat f = unat (19 :: u64)"
      using assms by auto
    then show ?thesis by (elim disjE) (drule u64_eqI, simp)+
  qed
  then have f: "huge_addr 0x83 = huge_addr (f * PAGE_SIZE)" "phys_too_big (f * PAGE_SIZE) sample_ready = Some False"
    "idx_at 4 (AOS_DIRECT_MAP_BASE + f * PAGE_SIZE) = 256" "idx_at 3 (AOS_DIRECT_MAP_BASE + f * PAGE_SIZE) = 0"
    "idx_at 2 (AOS_DIRECT_MAP_BASE + f * PAGE_SIZE) = 0"
    by (auto simp: huge_addr_def phys_too_big_def sample_ready_def sample_boot_def idx_at_def)
  show ?thesis
    unfolding direct_mapped_def
    using sample_ready_ok sample_ready_fields(2) sample_ready_walk [OF f(3-5)] f(1,2) by blast
qed

theorem avmf_alloc_ihdr_through_pager_witness:
  "\<exists>f s'. 16 \<le> unat f \<and> unat f < 20 \<and>
    avmf_alloc_ihdr pager_map sample_ready = Some (AOS_DIRECT_MAP_BASE + f * PAGE_SIZE, s') \<and> page_used s' f"
proof -
  have i: "0 < unat (physical_region_count sample_ready)" by (simp add: sample_ready_phys)
  have c: "can_take sample_ready 0 1" unfolding can_take_def sample_ready_phys
    by (rule exI [of _ 16]) simp
  have d: "\<forall>i < unat (physical_region_count sample_ready). \<forall>f. region_run sample_ready i 1 f \<longrightarrow>
      f \<noteq> 0 \<and> direct_mapped sample_ready (f * PAGE_SIZE)"
    using sample_ready_direct sample_ready_phys(3) by (auto simp: sample_ready_phys(2) simp del: One_nat_def)
  have e: "ihdr_cpage_remaining sample_ready < sizeof_avmf_header \<or> ihdr_cpage sample_ready = NULL"
    by (simp add: sample_ready_def sample_boot_def)
  from avmf_alloc_ihdr_through_pager [OF sample_ready_phys(1) i c d e] show ?thesis
    by (auto simp: sample_ready_phys simp del: One_nat_def)
qed

end
