(* ===== verification/IoPorts.thy ===== *)
theory IoPorts
  imports KMem KTime
begin

text \<open>
  The port input and output of \<^verbatim>\<open>Headers/asm.h\<close>, and the devices behind the ports.

  What a driver does to its device is the sequence of its port accesses and clock readings,
  latest first: its \<open>trace\<close>. What the device answers to a read is a function of that whole
  sequence, so a \<open>device\<close> is any deterministic device: a theorem for all devices covers every
  run of a real one. A driver function takes the trace so far and returns the longer one.
\<close>

datatype io_event =
    Outb u16 u8
  | Inb u16
  | Outw u16 u16
  | Inw u16
  | Outl u16 u32
  | Inl u16
  | Rdtsc
  | Load32 u64
  | Store32 u64 u32

type_synonym trace = "io_event list"

record device =
  in8 :: "trace \<Rightarrow> u16 \<Rightarrow> u8"
  in16 :: "trace \<Rightarrow> u16 \<Rightarrow> u16"
  in32 :: "trace \<Rightarrow> u16 \<Rightarrow> u32"
  tsc :: "trace \<Rightarrow> u64"
  mmio32 :: "trace \<Rightarrow> u64 \<Rightarrow> u32"
  timer :: timer_state

subsection \<open>The port instructions\<close>

definition asm_outb :: "u16 \<Rightarrow> u8 \<Rightarrow> trace \<Rightarrow> trace" where
  "asm_outb port v t = Outb port v # t"

definition asm_inb :: "device \<Rightarrow> u16 \<Rightarrow> trace \<Rightarrow> u8 \<times> trace" where
  "asm_inb d port t = (in8 d t port, Inb port # t)"

definition asm_inw :: "device \<Rightarrow> u16 \<Rightarrow> trace \<Rightarrow> u16 \<times> trace" where
  "asm_inw d port t = (in16 d t port, Inw port # t)"

definition asm_outw :: "u16 \<Rightarrow> u16 \<Rightarrow> trace \<Rightarrow> trace" where
  "asm_outw port v t = Outw port v # t"

definition asm_outl :: "u16 \<Rightarrow> u32 \<Rightarrow> trace \<Rightarrow> trace" where
  "asm_outl port v t = Outl port v # t"

definition asm_inl :: "device \<Rightarrow> u16 \<Rightarrow> trace \<Rightarrow> u32 \<times> trace" where
  "asm_inl d port t = (in32 d t port, Inl port # t)"

text \<open>A 32-bit access through a \<open>volatile\<close> pointer to the registers of a device.\<close>

definition load32 :: "device \<Rightarrow> u64 \<Rightarrow> trace \<Rightarrow> u32 \<times> trace" where
  "load32 d a t = (mmio32 d t a, Load32 a # t)"

definition store32 :: "u64 \<Rightarrow> u32 \<Rightarrow> trace \<Rightarrow> trace" where
  "store32 a v t = Store32 a v # t"

text \<open>\<open>rep insw\<close> and \<open>rep outsw\<close>: \<open>count\<close> words between the port and the buffer.\<close>

fun asm_insw :: "device \<Rightarrow> u16 \<Rightarrow> u64 \<Rightarrow> nat \<Rightarrow> mem \<Rightarrow> trace \<Rightarrow> (mem \<times> trace) option" where
  "asm_insw d port buffer 0 m t = Some (m, t)"
| "asm_insw d port buffer (Suc n) m t = do {
     let (w, t) = asm_inw d port t;
     m \<leftarrow> write_byte buffer (ucast w) m;
     m \<leftarrow> write_byte (buffer + 1) (ucast (drop_bit 8 w)) m;
     asm_insw d port (buffer + 2) n m t
   }"

fun asm_outsw :: "u16 \<Rightarrow> u64 \<Rightarrow> nat \<Rightarrow> mem \<Rightarrow> trace \<Rightarrow> trace option" where
  "asm_outsw port buffer 0 m t = Some t"
| "asm_outsw port buffer (Suc n) m t = do {
     lo \<leftarrow> m buffer;
     hi \<leftarrow> m (buffer + 1);
     asm_outsw port (buffer + 2) n m (asm_outw port (ucast lo OR push_bit 8 (ucast hi)) t)
   }"

text \<open>The milliseconds since power-on, one reading of the counter.\<close>

definition ms_at :: "device \<Rightarrow> trace \<Rightarrow> u64" where
  "ms_at d t = kget_ms_passed (tsc d t) (timer d)"

text \<open>The counter is read only when it has been calibrated.\<close>

definition read_tsc :: "device \<Rightarrow> trace \<Rightarrow> trace" where
  "read_tsc d t = (if tsc_ticks_per_ms (timer d) = 0 then t else Rdtsc # t)"

definition read_ms :: "device \<Rightarrow> trace \<Rightarrow> u64 \<times> trace" where
  "read_ms d t = (ms_at d t, read_tsc d t)"

lemmas port_defs = asm_outb_def asm_inb_def asm_inw_def asm_outw_def asm_outl_def asm_inl_def
  read_ms_def

subsection \<open>What the word transfers do\<close>

text \<open>The words a port gives when it is read \<open>n\<close> times from the trace \<open>t\<close> on.\<close>

definition words_read :: "device \<Rightarrow> u16 \<Rightarrow> trace \<Rightarrow> nat \<Rightarrow> u16 list" where
  "words_read d port t n = map (\<lambda>k. in16 d (replicate k (Inw port) @ t) port) [0..<n]"

definition word_bytes :: "u16 \<Rightarrow> u8 list" where
  "word_bytes w = [ucast w, ucast (drop_bit 8 w)]"

definition bytes_word :: "u8 \<Rightarrow> u8 \<Rightarrow> u16" where
  "bytes_word lo hi = ucast lo OR push_bit 8 (ucast hi)"

text \<open>The memory with a list of bytes written from an address on.\<close>

fun stored :: "mem \<Rightarrow> u64 \<Rightarrow> u8 list \<Rightarrow> mem" where
  "stored m a [] = m"
| "stored m a (b # bs) = stored (m(a \<mapsto> b)) (a + 1) bs"

lemma word_bytes_inverse: "word_bytes (bytes_word lo hi) = [lo, hi]"
proof -
  have "bit (ucast (bytes_word lo hi) :: u8) n = bit lo n" if "n < 8" for n
    using that by (simp add: bytes_word_def bit_simps)
  moreover have "bit (ucast (drop_bit 8 (bytes_word lo hi)) :: u8) n = bit hi n" if "n < 8" for n
    using that bit_imp_le_length [of lo "8 + n"] by (auto simp: bytes_word_def bit_simps)
  ultimately show ?thesis
    by (auto simp: word_bytes_def intro!: bit_word_eqI)
qed

lemma words_read_Suc:
  "words_read d port t (Suc n) = in16 d t port # words_read d port (Inw port # t) n"
proof -
  have "[0..<Suc n] = 0 # map Suc [0..<n]" by (simp only: map_Suc_upt upt_conv_Cons)
  then show ?thesis
    by (simp add: words_read_def replicate_append_same [symmetric] del: upt_Suc)
qed

lemma stored_word:
  "stored m a (word_bytes w @ bs) =
    stored (m(a \<mapsto> ucast w, a + 1 \<mapsto> ucast (drop_bit 8 w))) (a + 2) bs"
  by (simp add: word_bytes_def add.assoc)

lemma asm_insw_stores:
  assumes "mapped m buffer (2 * n)"
  shows "asm_insw d port buffer n m t =
    Some (stored m buffer (concat (map word_bytes (words_read d port t n))),
      replicate n (Inw port) @ t)"
  using assms
proof (induction n arbitrary: buffer m t)
  case 0
  then show ?case by (simp add: words_read_def)
next
  case (Suc n)
  obtain x where a0: "m buffer = Some x" using mapped_nth [OF Suc.prems, of 0] by auto
  obtain y where a1: "m (buffer + 1) = Some y" using mapped_nth [OF Suc.prems, of 1] by auto
  have r: "mapped m (buffer + 2) (2 * n)" using mapped_drop [of m buffer "2 * n" 2] Suc.prems by simp
  let ?w = "in16 d t port"
  let ?m = "m(buffer \<mapsto> ucast ?w, buffer + 1 \<mapsto> ucast (drop_bit 8 ?w))"
  have "asm_insw d port buffer (Suc n) m t = asm_insw d port (buffer + 2) n ?m (Inw port # t)"
    using a0 a1 by (simp add: asm_inw_def write_byte_def)
  also have "\<dots> = Some (stored ?m (buffer + 2) (concat (map word_bytes
      (words_read d port (Inw port # t) n))), replicate n (Inw port) @ Inw port # t)"
    using r by (intro Suc.IH mapped_upd)
  finally show ?case
    by (simp add: words_read_Suc stored_word replicate_app_Cons_same del: asm_insw.simps)
qed

text \<open>The words in memory from an address on, low byte first.\<close>

definition words_at :: "mem \<Rightarrow> u64 \<Rightarrow> nat \<Rightarrow> u16 list" where
  "words_at m a n = map (\<lambda>k. bytes_word (the (m (a + of_nat (2 * k))))
     (the (m (a + of_nat (2 * k) + 1)))) [0..<n]"

lemma words_at_Suc:
  "words_at m a (Suc n) = bytes_word (the (m a)) (the (m (a + 1))) # words_at m (a + 2) n"
proof -
  have "[0..<Suc n] = 0 # map Suc [0..<n]" by (simp only: map_Suc_upt upt_conv_Cons)
  then show ?thesis by (simp add: words_at_def add_ac del: upt_Suc)
qed

lemma asm_outsw_sends:
  assumes "mapped m buffer (2 * n)"
  shows "asm_outsw port buffer n m t = Some (map (Outw port) (rev (words_at m buffer n)) @ t)"
  using assms
proof (induction n arbitrary: buffer t)
  case 0
  then show ?case by (simp add: words_at_def)
next
  case (Suc n)
  obtain x where a0: "m buffer = Some x" using mapped_nth [OF Suc.prems, of 0] by auto
  obtain y where a1: "m (buffer + 1) = Some y" using mapped_nth [OF Suc.prems, of 1] by auto
  have r: "mapped m (buffer + 2) (2 * n)" using mapped_drop [of m buffer "2 * n" 2] Suc.prems by simp
  show ?case
    using a0 a1 Suc.IH [OF r] by (simp add: words_at_Suc asm_outw_def bytes_word_def)
qed

lemma stored_apply:
  "length bs \<le> 2 ^ 64 \<Longrightarrow>
   stored m a bs x = (if unat (x - a) < length bs then Some (bs ! unat (x - a)) else m x)"
proof (induction bs arbitrary: m a)
  case (Cons b bs)
  have n: "length bs < 18446744073709551616" using Cons.prems by simp
  have d: "unat (x - a) < Suc (length bs) \<longleftrightarrow> x = a \<or> unat (x - (a + 1)) < length bs"
    using unat_dist_Suc [OF n, of "x - a"] by (simp add: minus_Suc_u64)
  show ?case
  proof (cases "x = a")
    case True
    have "unat (a - (a + 1)) = 18446744073709551615"
      using unat_pred_zero by (simp only: minus_Suc_u64 diff_self)
    then show ?thesis using True Cons n by simp
  next
    case False
    then have "unat (x - a) = Suc (unat (x - (a + 1)))"
      using unat_minus_one [of "x - a"] by (simp add: minus_Suc_u64 unat_gt_0)
    then show ?thesis using False Cons d by simp
  qed
qed simp

lemma stored_append: "stored m a (xs @ ys) = stored (stored m a xs) (a + of_nat (length xs)) ys"
  by (induction xs arbitrary: m a) (simp_all add: add.assoc)

lemma mapped_stored: "mapped m p n \<Longrightarrow> mapped (stored m a bs) p n"
  by (induction bs arbitrary: m a) (simp_all add: mapped_upd del: fun_upd_apply)

lemma write_bytes_stored: "mapped m a (length bs) \<Longrightarrow> write_bytes a bs m = Some (stored m a bs)"
proof (induction bs arbitrary: m a)
  case (Cons b bs)
  have "m a \<noteq> None" using mapped_nth [OF Cons.prems, of 0] by auto
  moreover have "mapped (m(a \<mapsto> b)) (a + 1) (length bs)"
    using mapped_drop [of m a "length bs" 1] Cons.prems by (simp add: mapped_upd del: fun_upd_apply)
  ultimately show ?case using Cons.IH by (simp add: write_byte_mapped)
qed simp

text \<open>The bytes written to a port, latest first.\<close>

fun writes_to :: "u16 \<Rightarrow> trace \<Rightarrow> u8 list" where
  "writes_to p [] = []"
| "writes_to p (Outb q v # t) = (if q = p then v # writes_to p t else writes_to p t)"
| "writes_to p (e # t) = writes_to p t"

lemma writes_to_read_tsc [simp]: "writes_to p (read_tsc d t) = writes_to p t"
  by (simp add: read_tsc_def)

end
