(* ===== verification/Ata.thy ===== *)
theory Ata
  imports IoPorts
begin

text \<open>
  The legacy ATA driver of \<^verbatim>\<open>Kernel/drivers/io/io.c\<close>: \<open>ata_exists\<close>, \<open>ata_identify_device\<close>,
  \<open>ata_read_sectors\<close> and \<open>ata_write_sectors\<close>, with the wait for the drive they share, over the
  ports of \<open>IoPorts\<close>. The lock around each is taken and released on every path and is left out.
  A result \<open>None\<close> means that the wait never ends or that the buffer is not mapped.
\<close>

definition ATA_PRIMARY_IO :: u16 where "ATA_PRIMARY_IO = 0x1F0"
definition ATA_PRIMARY_CTRL :: u16 where "ATA_PRIMARY_CTRL = 0x3F6"
definition ATA_SECONDARY_IO :: u16 where "ATA_SECONDARY_IO = 0x170"
definition ATA_SECONDARY_CTRL :: u16 where "ATA_SECONDARY_CTRL = 0x376"
definition ATA_SR_BSY :: u8 where "ATA_SR_BSY = 0x80"
definition ATA_SR_DRDY :: u8 where "ATA_SR_DRDY = 0x40"
definition ATA_SR_DRQ :: u8 where "ATA_SR_DRQ = 0x08"
definition ATA_SR_ERR :: u8 where "ATA_SR_ERR = 0x01"
definition ATA_CMD_READ_PIO_EXT :: u8 where "ATA_CMD_READ_PIO_EXT = 0x24"
definition ATA_CMD_WRITE_PIO_EXT :: u8 where "ATA_CMD_WRITE_PIO_EXT = 0x34"
definition ATA_CMD_IDENTIFY :: u8 where "ATA_CMD_IDENTIFY = 0xEC"
definition ATA_CMD_FLUSH_EXT :: u8 where "ATA_CMD_FLUSH_EXT = 0xEA"

lemmas ata_consts = ATA_PRIMARY_IO_def ATA_PRIMARY_CTRL_def ATA_SECONDARY_IO_def
  ATA_SECONDARY_CTRL_def ATA_SR_BSY_def ATA_SR_DRDY_def ATA_SR_DRQ_def ATA_SR_ERR_def
  ATA_CMD_READ_PIO_EXT_def ATA_CMD_WRITE_PIO_EXT_def ATA_CMD_IDENTIFY_def ATA_CMD_FLUSH_EXT_def

record ata_bus =
  io_base :: u16
  ctrl_base :: u16

definition ata_buses :: "ata_bus list" where
  "ata_buses =
     [\<lparr>io_base = ATA_PRIMARY_IO, ctrl_base = ATA_PRIMARY_CTRL\<rparr>,
      \<lparr>io_base = ATA_SECONDARY_IO, ctrl_base = ATA_SECONDARY_CTRL\<rparr>]"

record ata_dp =
  lba :: u64
  count :: u16

record ata_identity =
  block_count :: u64
  block_size :: u32
  model :: "u8 list"
  serial :: "u8 list"
  supports_lba48 :: bool

text \<open>Bit 1 of the drive number selects the bus, bit 0 the device on it.\<close>

definition bus_of :: "u8 \<Rightarrow> ata_bus" where
  "bus_of drive = ata_buses ! unat (drop_bit 1 (drive - 0x80) AND 1)"

definition device_of :: "u8 \<Rightarrow> u8" where
  "device_of drive = drive AND 1"

subsection \<open>Waiting\<close>

text \<open>\<open>_ata_wait_ready\<close>: until the drive is ready or a second has passed.\<close>

partial_function (option) wait_ready_loop :: "device \<Rightarrow> u16 \<Rightarrow> u64 \<Rightarrow> trace \<Rightarrow> trace option" where
  "wait_ready_loop d io timeout t =
     (let (now, t) = read_ms d t in
      if now - timeout < 1000 then
        let (status, t) = asm_inb d (io + 7) t in
        if status AND ATA_SR_BSY = 0 \<and> status AND ATA_SR_DRDY \<noteq> 0 then Some t
        else wait_ready_loop d io timeout t
      else Some t)"

definition ata_wait_ready :: "device \<Rightarrow> u16 \<Rightarrow> trace \<Rightarrow> trace option" where
  "ata_wait_ready d io t = (let (timeout, t) = read_ms d t in wait_ready_loop d io timeout t)"

text \<open>The wait for the drive's data, \<open>False\<close> when a second passes first.\<close>

partial_function (option) wait_drq_loop ::
  "device \<Rightarrow> u16 \<Rightarrow> u64 \<Rightarrow> trace \<Rightarrow> (bool \<times> trace) option" where
  "wait_drq_loop d io timeout t =
     (let (status, t) = asm_inb d (io + 7) t in
      if status AND ATA_SR_DRQ = 0 then
        let (now, t) = read_ms d t in
        if now - timeout \<ge> 1000 then Some (False, t)
        else wait_drq_loop d io timeout t
      else Some (True, t))"

definition wait_drq :: "device \<Rightarrow> u16 \<Rightarrow> trace \<Rightarrow> (bool \<times> trace) option" where
  "wait_drq d io t = (let (timeout, t) = read_ms d t in wait_drq_loop d io timeout t)"

definition ata_exists :: "device \<Rightarrow> trace \<Rightarrow> bool \<times> trace" where
  "ata_exists d t = (let (s, t) = asm_inb d (ATA_PRIMARY_IO + 7) t in (s \<noteq> 0xFF, t))"

subsection \<open>Identification\<close>

text \<open>\<open>rep insw\<close> into the local buffer of 256 words.\<close>

fun insw_words :: "device \<Rightarrow> u16 \<Rightarrow> nat \<Rightarrow> trace \<Rightarrow> u16 list \<times> trace" where
  "insw_words d port 0 t = ([], t)"
| "insw_words d port (Suc n) t =
     (let (w, t) = asm_inw d port t; (ws, t) = insw_words d port n t in (w # ws, t))"

text \<open>\<open>n\<close> words from \<open>from\<close> on as characters, the high byte of each word first.\<close>

definition word_chars :: "u16 list \<Rightarrow> nat \<Rightarrow> nat \<Rightarrow> u8 list" where
  "word_chars buffer from n =
     concat (map (\<lambda>i. [ucast (drop_bit 8 (buffer ! (from + i))), ucast (buffer ! (from + i) AND 0xFF)])
       [0..<n])"

text \<open>The loops that replace the trailing spaces by terminators, from index \<open>i - 1\<close> down.\<close>

fun trim :: "nat \<Rightarrow> u8 list \<Rightarrow> u8 list" where
  "trim 0 s = s"
| "trim (Suc i) s = (if s ! i = 0x20 then trim i (s[i := 0]) else s)"

definition identity_of :: "u16 list \<Rightarrow> ata_identity" where
  "identity_of buffer =
     (let lba28_sectors = ucast (buffer ! 60) OR push_bit 16 (ucast (buffer ! 61)) :: u32;
          lba48_sectors = ucast (buffer ! 100) OR push_bit 16 (ucast (buffer ! 101))
            OR push_bit 32 (ucast (buffer ! 102)) OR push_bit 48 (ucast (buffer ! 103)) :: u64;
          lba48_supported = buffer ! 83;
          lba48 = (lba48_supported AND 0x400 \<noteq> 0 \<and> lba48_sectors > 0)
      in \<lparr>block_count = (if lba48 then lba48_sectors else ucast lba28_sectors),
          block_size = 512,
          model = trim 40 (word_chars buffer 27 20 @ [0]),
          serial = trim 20 (word_chars buffer 10 10 @ [0]),
          supports_lba48 = lba48\<rparr>)"

text \<open>The result is the return value; the identity is stored only with the value 1.\<close>

definition ata_identify_device ::
  "device \<Rightarrow> u8 \<Rightarrow> ata_identity \<Rightarrow> trace \<Rightarrow> (int \<times> ata_identity \<times> trace) option" where
  "ata_identify_device d drive out_info t =
     (let io = io_base (bus_of drive);
          t = asm_outb (io + 6) (0xA0 OR push_bit 4 (device_of drive)) t;
          (_, t) = asm_inb d (io + 7) t;
          (_, t) = asm_inb d (io + 7) t;
          (_, t) = asm_inb d (io + 7) t;
          (_, t) = asm_inb d (io + 7) t;
          t = asm_outb (io + 2) 0 t;
          t = asm_outb (io + 3) 0 t;
          t = asm_outb (io + 4) 0 t;
          t = asm_outb (io + 5) 0 t;
          t = asm_outb (io + 7) ATA_CMD_IDENTIFY t;
          (status, t) = asm_inb d (io + 7) t
      in if status = 0 then Some (0, out_info, t)
      else do {
        t \<leftarrow> ata_wait_ready d io t;
        let (status, t) = asm_inb d (io + 7) t;
        if status AND ATA_SR_ERR \<noteq> 0 then Some (0, out_info, t)
        else do {
          (ready, t) \<leftarrow> wait_drq d io t;
          if \<not> ready then Some (- 1, out_info, t)
          else do {
            let (buffer, t) = insw_words d io 256 t;
            Some (1, identity_of buffer, t)
          }
        }
      })"

subsection \<open>Sectors\<close>

text \<open>The twelve register writes that a read and a write begin with.\<close>

definition issue_command :: "ata_bus \<Rightarrow> u8 \<Rightarrow> ata_dp \<Rightarrow> u8 \<Rightarrow> trace \<Rightarrow> trace" where
  "issue_command bus device dp cmd t =
     (let io = io_base bus;
          t = asm_outb (ctrl_base bus) 0x00 t;
          t = asm_outb (io + 2) (ucast (drop_bit 8 (count dp))) t;
          t = asm_outb (io + 3) (ucast (drop_bit 24 (lba dp))) t;
          t = asm_outb (io + 4) (ucast (drop_bit 32 (lba dp))) t;
          t = asm_outb (io + 5) (ucast (drop_bit 40 (lba dp))) t;
          t = asm_outb (io + 6) (0x40 OR push_bit 4 device) t;
          t = asm_outb (io + 2) (ucast (count dp)) t;
          t = asm_outb (io + 3) (ucast (lba dp)) t;
          t = asm_outb (io + 4) (ucast (drop_bit 8 (lba dp))) t;
          t = asm_outb (io + 5) (ucast (drop_bit 16 (lba dp))) t
      in asm_outb (io + 7) cmd t)"

text \<open>One round of the sector loops before the data: \<open>False\<close> on an error or when no data comes.\<close>

definition wait_sector :: "device \<Rightarrow> u16 \<Rightarrow> trace \<Rightarrow> (bool \<times> trace) option" where
  "wait_sector d io t = do {
     t \<leftarrow> ata_wait_ready d io t;
     let (status, t) = asm_inb d (io + 7) t;
     if status AND ATA_SR_ERR \<noteq> 0 then Some (False, t) else wait_drq d io t
   }"

text \<open>The sector loops: \<open>n\<close> sectors are left, the next one goes to or comes from \<open>buffer\<close>.\<close>

fun read_loop :: "device \<Rightarrow> u16 \<Rightarrow> u64 \<Rightarrow> nat \<Rightarrow> mem \<Rightarrow> trace \<Rightarrow> (int \<times> mem \<times> trace) option" where
  "read_loop d io buffer 0 m t = Some (0, m, t)"
| "read_loop d io buffer (Suc n) m t = do {
     (ok, t) \<leftarrow> wait_sector d io t;
     if \<not> ok then Some (- 1, m, t)
     else do {
       (m, t) \<leftarrow> asm_insw d io buffer 256 m t;
       read_loop d io (buffer + 512) n m t
     }
   }"

fun write_loop :: "device \<Rightarrow> u16 \<Rightarrow> u64 \<Rightarrow> nat \<Rightarrow> mem \<Rightarrow> trace \<Rightarrow> (int \<times> trace) option" where
  "write_loop d io buffer 0 m t = do {
     t \<leftarrow> ata_wait_ready d io (asm_outb (io + 7) ATA_CMD_FLUSH_EXT t);
     Some (0, t)
   }"
| "write_loop d io buffer (Suc n) m t = do {
     (ok, t) \<leftarrow> wait_sector d io t;
     if \<not> ok then Some (- 1, t)
     else do {
       t \<leftarrow> asm_outsw io buffer 256 m t;
       write_loop d io (buffer + 512) n m t
     }
   }"

definition ata_read_sectors ::
  "device \<Rightarrow> ata_dp \<Rightarrow> u64 \<Rightarrow> u8 \<Rightarrow> mem \<Rightarrow> trace \<Rightarrow> (int \<times> mem \<times> trace) option" where
  "ata_read_sectors d dp buffer drive m t = do {
     let bus = bus_of drive;
     t \<leftarrow> ata_wait_ready d (io_base bus) t;
     let t = issue_command bus (device_of drive) dp ATA_CMD_READ_PIO_EXT t;
     read_loop d (io_base bus) buffer (unat (count dp)) m t
   }"

definition ata_write_sectors ::
  "device \<Rightarrow> ata_dp \<Rightarrow> u64 \<Rightarrow> u8 \<Rightarrow> mem \<Rightarrow> trace \<Rightarrow> (int \<times> trace) option" where
  "ata_write_sectors d dp buffer drive m t = do {
     let bus = bus_of drive;
     t \<leftarrow> ata_wait_ready d (io_base bus) t;
     let t = issue_command bus (device_of drive) dp ATA_CMD_WRITE_PIO_EXT t;
     write_loop d (io_base bus) buffer (unat (count dp)) m t
   }"

subsection \<open>What a drive sees\<close>

text \<open>
  The words the device has delivered over a port and those it was sent, first one first.
\<close>

fun delivered :: "device \<Rightarrow> u16 \<Rightarrow> trace \<Rightarrow> u16 list" where
  "delivered d p [] = []"
| "delivered d p (Inw q # t) = delivered d p t @ (if q = p then [in16 d t q] else [])"
| "delivered d p (e # t) = delivered d p t"

fun sent :: "u16 \<Rightarrow> trace \<Rightarrow> u16 list" where
  "sent p [] = []"
| "sent p (Outw q v # t) = sent p t @ (if q = p then [v] else [])"
| "sent p (e # t) = sent p t"

text \<open>
  The count and address registers of a drive with 48-bit addressing are two deep: a command uses
  the latest byte written as the low part and the one before it as the high part.
\<close>

definition latest :: "u16 \<Rightarrow> trace \<Rightarrow> u8" where
  "latest p t = (case writes_to p t of v # _ \<Rightarrow> v | [] \<Rightarrow> 0)"

definition previous :: "u16 \<Rightarrow> trace \<Rightarrow> u8" where
  "previous p t = (case writes_to p t of _ # v # _ \<Rightarrow> v | _ \<Rightarrow> 0)"

record ata_command =
  cmd :: u8
  cmd_device :: u8
  cmd_lba :: u64
  cmd_count :: u16

definition decode :: "u16 \<Rightarrow> u8 \<Rightarrow> trace \<Rightarrow> ata_command" where
  "decode io c t =
     \<lparr>cmd = c, cmd_device = latest (io + 6) t,
      cmd_lba = ucast (latest (io + 3) t) OR push_bit 8 (ucast (latest (io + 4) t))
        OR push_bit 16 (ucast (latest (io + 5) t)) OR push_bit 24 (ucast (previous (io + 3) t))
        OR push_bit 32 (ucast (previous (io + 4) t)) OR push_bit 40 (ucast (previous (io + 5) t)),
      cmd_count = ucast (latest (io + 2) t) OR push_bit 8 (ucast (previous (io + 2) t))\<rparr>"

text \<open>The commands a bus has been given, latest first.\<close>

fun commands :: "u16 \<Rightarrow> trace \<Rightarrow> ata_command list" where
  "commands io [] = []"
| "commands io (Outb p v # t) = (if p = io + 7 then decode io v t # commands io t else commands io t)"
| "commands io (e # t) = commands io t"

text \<open>Reading the clock or the drive's status changes none of this.\<close>

definition quiet :: "trace \<Rightarrow> trace \<Rightarrow> bool" where
  "quiet t t' \<longleftrightarrow> (\<exists>u. t' = u @ t \<and> (\<forall>e \<in> set u. e = Rdtsc \<or> (\<exists>p. e = Inb p)))"

lemma quiet_refl [intro, simp]: "quiet t t"
  by (simp add: quiet_def)

lemma quiet_trans [trans]: "quiet t t1 \<Longrightarrow> quiet t1 t2 \<Longrightarrow> quiet t t2"
  by (fastforce simp: quiet_def)

lemma quiet_read [intro]: "quiet t t' \<Longrightarrow> quiet t (Rdtsc # t')" "quiet t t' \<Longrightarrow> quiet t (Inb p # t')"
  by (auto simp: quiet_def)

lemma quiet_read_tsc [intro]: "quiet t t' \<Longrightarrow> quiet t (read_tsc d t')"
  by (auto simp: read_tsc_def)

lemma quiet_views:
  assumes "quiet t t'"
  shows "commands io t' = commands io t" "delivered d p t' = delivered d p t"
    "sent p t' = sent p t" "writes_to p t' = writes_to p t"
proof -
  obtain u where u: "t' = u @ t" "\<forall>e \<in> set u. e = Rdtsc \<or> (\<exists>p. e = Inb p)"
    using assms by (auto simp: quiet_def)
  have "commands io (u @ t) = commands io t \<and> delivered d p (u @ t) = delivered d p t \<and>
    sent p (u @ t) = sent p t \<and> writes_to p (u @ t) = writes_to p t"
    using u(2)
  proof (induction u)
    case (Cons e u)
    then consider "e = Rdtsc" | p where "e = Inb p" by auto
    then show ?case using Cons by cases simp_all
  qed simp
  then show "commands io t' = commands io t" "delivered d p t' = delivered d p t"
    "sent p t' = sent p t" "writes_to p t' = writes_to p t"
    by (simp_all add: u(1))
qed

lemma wait_ready_loop_quiet:
  assumes "wait_ready_loop d io timeout t = Some t'"
  shows "quiet t t'"
proof (rule wait_ready_loop.raw_induct [where P = "\<lambda>_ _ _ t t'. quiet t t'", OF _ assms])
  fix f :: "device \<Rightarrow> u16 \<Rightarrow> u64 \<Rightarrow> trace \<Rightarrow> trace option" and d io timeout t t'
  assume IH: "\<And>d io timeout t t'. f d io timeout t = Some t' \<Longrightarrow> quiet t t'"
    and r: "(let (now, t) = read_ms d t in
      if now - timeout < 1000 then
        let (status, t) = asm_inb d (io + 7) t in
        if status AND ATA_SR_BSY = 0 \<and> status AND ATA_SR_DRDY \<noteq> 0 then Some t
        else f d io timeout t
      else Some t) = Some t'"
  have q: "quiet t (Inb (io + 7) # read_tsc d t)" "quiet t (read_tsc d t)" by auto
  show "quiet t t'"
    using r q by (auto simp: port_defs Let_def split: if_splits dest!: IH intro: quiet_trans)
qed

lemma wait_drq_loop_quiet:
  assumes "wait_drq_loop d io timeout t = Some (b, t')"
  shows "quiet t t'"
proof -
  have "quiet t (snd (b, t'))"
  proof (rule wait_drq_loop.raw_induct [where P = "\<lambda>_ _ _ t r. quiet t (snd r)", OF _ assms])
    fix f :: "device \<Rightarrow> u16 \<Rightarrow> u64 \<Rightarrow> trace \<Rightarrow> (bool \<times> trace) option" and d io timeout t r
    assume IH: "\<And>d io timeout t r. f d io timeout t = Some r \<Longrightarrow> quiet t (snd r)"
      and r: "(let (status, t) = asm_inb d (io + 7) t in
        if status AND ATA_SR_DRQ = 0 then
          let (now, t) = read_ms d t in
          if now - timeout \<ge> 1000 then Some (False, t) else f d io timeout t
        else Some (True, t)) = Some r"
    have q: "quiet t (read_tsc d (Inb (io + 7) # t))" "quiet t (Inb (io + 7) # t)" by auto
    show "quiet t (snd r)"
      using r q by (auto simp: port_defs Let_def split: if_splits dest!: IH intro: quiet_trans)
  qed
  then show ?thesis by simp
qed

lemma ata_wait_ready_quiet: "ata_wait_ready d io t = Some t' \<Longrightarrow> quiet t t'"
  by (auto simp: ata_wait_ready_def port_defs dest!: wait_ready_loop_quiet intro: quiet_trans [rotated])

lemma wait_drq_quiet: "wait_drq d io t = Some (b, t') \<Longrightarrow> quiet t t'"
  by (auto simp: wait_drq_def port_defs dest!: wait_drq_loop_quiet intro: quiet_trans [rotated])

lemma wait_sector_quiet:
  assumes "wait_sector d io t = Some (ok, t')"
  shows "quiet t t'"
proof -
  obtain t1 where t1: "ata_wait_ready d io t = Some t1"
    using assms by (auto simp: wait_sector_def split: bind_splits)
  have q: "quiet t (Inb (io + 7) # t1)" using ata_wait_ready_quiet [OF t1] by auto
  show ?thesis
    using assms t1 q
    by (auto simp: wait_sector_def port_defs split: if_splits dest!: wait_drq_quiet
        intro: quiet_trans)
qed

text \<open>
  The clock runs: however a program goes on in steps of one or two port accesses or readings, the
  clock eventually shows a second more than where it began.
\<close>

definition clock_runs :: "device \<Rightarrow> bool" where
  "clock_runs d \<longleftrightarrow>
     (\<forall>f. (\<forall>k. \<exists>u. f (Suc k) = u @ f k \<and> u \<noteq> [] \<and> length u \<le> 2) \<longrightarrow>
       (\<exists>k. 1000 \<le> ms_at d (f (Suc k)) - ms_at d (f 0)))"

lemma clock_runs_steps:
  assumes "clock_runs d" and "\<And>t. \<exists>u. step t = u @ t \<and> u \<noteq> [] \<and> length u \<le> 2"
    and "\<exists>u. t1 = u @ t \<and> u \<noteq> [] \<and> length u \<le> 2"
  shows "\<exists>k. 1000 \<le> ms_at d ((step ^^ k) t1) - ms_at d t"
proof -
  define f where "f k = (case k of 0 \<Rightarrow> t | Suc k \<Rightarrow> (step ^^ k) t1)" for k
  have "\<exists>u. f (Suc k) = u @ f k \<and> u \<noteq> [] \<and> length u \<le> 2" for k
    using assms(2,3) by (cases k) (auto simp: f_def)
  then obtain k where "1000 \<le> ms_at d (f (Suc k)) - ms_at d (f 0)"
    using assms(1) unfolding clock_runs_def by blast
  then show ?thesis by (auto simp: f_def)
qed

lemma clock_runs_read_tsc:
  assumes "clock_runs d" shows "read_tsc d t = Rdtsc # t"
proof (cases "tsc_ticks_per_ms (timer d) = 0")
  case True
  have "\<exists>u. replicate (Suc k) Rdtsc = u @ replicate k Rdtsc \<and> u \<noteq> [] \<and> length u \<le> 2" for k
    by (rule exI [of _ "[Rdtsc]"]) simp
  then have "\<exists>k. 1000 \<le> ms_at d (replicate (Suc k) Rdtsc) - ms_at d (replicate 0 Rdtsc)"
    by (intro mp [OF spec [OF assms [unfolded clock_runs_def], of "\<lambda>k. replicate k Rdtsc"]] allI)
  then show ?thesis using True by (simp add: ms_at_def kget_ms_passed_def)
qed (simp add: read_tsc_def)

lemma ata_wait_ready_returns:
  assumes "clock_runs d"
  shows "\<exists>t'. ata_wait_ready d io t = Some t'"
proof -
  note clock_runs_read_tsc [OF assms, simp]
  let ?step = "\<lambda>t. Inb (io + 7) # Rdtsc # t"
  obtain k where k: "1000 \<le> ms_at d ((?step ^^ k) (Rdtsc # t)) - ms_at d t"
    using clock_runs_steps [OF assms, of ?step "Rdtsc # t" t] by auto
  have "\<exists>r. wait_ready_loop d io (ms_at d t) (Rdtsc # t) = Some r"
  proof (rule polling_returns [where E = "\<lambda>u. 1000 \<le> ms_at d u - ms_at d t" and step = ?step])
    fix u assume "wait_ready_loop d io (ms_at d t) u = None"
    then show "\<not> 1000 \<le> ms_at d u - ms_at d t \<and>
        wait_ready_loop d io (ms_at d t) (?step u) = None"
      by (subst (asm) wait_ready_loop.simps) (auto simp: port_defs split: if_splits)
  qed (rule k)
  then show ?thesis by (simp add: ata_wait_ready_def read_ms_def)
qed

lemma wait_drq_returns:
  assumes "clock_runs d"
  shows "\<exists>b t'. wait_drq d io t = Some (b, t')"
proof -
  note clock_runs_read_tsc [OF assms, simp]
  let ?step = "\<lambda>t. Rdtsc # Inb (io + 7) # t"
  obtain k where k: "1000 \<le> ms_at d (((\<lambda>t. Inb (io + 7) # Rdtsc # t) ^^ k) (Inb (io + 7) # Rdtsc # t))
      - ms_at d t"
    using clock_runs_steps [OF assms, of "\<lambda>t. Inb (io + 7) # Rdtsc # t" "Inb (io + 7) # Rdtsc # t" t]
    by auto
  have sh: "((\<lambda>t. Inb (io + 7) # Rdtsc # t) ^^ k) (Inb (io + 7) # u) = Inb (io + 7) # (?step ^^ k) u" for u
    by (induction k arbitrary: u) auto
  have "\<exists>r. wait_drq_loop d io (ms_at d t) (Rdtsc # t) = Some r"
  proof (rule polling_returns [where E = "\<lambda>u. 1000 \<le> ms_at d (Inb (io + 7) # u) - ms_at d t" and step = ?step])
    fix u assume "wait_drq_loop d io (ms_at d t) u = None"
    then show "\<not> 1000 \<le> ms_at d (Inb (io + 7) # u) - ms_at d t \<and>
        wait_drq_loop d io (ms_at d t) (?step u) = None"
      by (subst (asm) wait_drq_loop.simps) (auto simp: port_defs split: if_splits)
  next
    show "1000 \<le> ms_at d (Inb (io + 7) # (?step ^^ k) (Rdtsc # t)) - ms_at d t" using k by (simp add: sh)
  qed
  then show ?thesis by (auto simp: wait_drq_def read_ms_def)
qed

lemma wait_sector_returns:
  assumes "clock_runs d"
  shows "\<exists>ok t'. wait_sector d io t = Some (ok, t') \<and> quiet t t'"
proof -
  obtain t1 where t1: "ata_wait_ready d io t = Some t1" using ata_wait_ready_returns [OF assms] by blast
  obtain b t2 where t2: "wait_drq d io (Inb (io + 7) # t1) = Some (b, t2)"
    using wait_drq_returns [OF assms] by blast
  have "\<exists>ok t'. wait_sector d io t = Some (ok, t')"
    using t1 t2 by (auto simp: wait_sector_def port_defs)
  then show ?thesis using wait_sector_quiet by blast
qed

subsection \<open>The sector loops\<close>

lemma length_words [simp]: "length (words_read d p t n) = n" "length (words_at m a n) = n"
  by (simp_all add: words_read_def words_at_def)

lemma length_word_bytes: "length (concat (map word_bytes ws)) = 2 * length ws"
  by (induction ws) (simp_all add: word_bytes_def)

lemma delivered_words: "delivered d p (replicate n (Inw p) @ t) = delivered d p t @ words_read d p t n"
  by (induction n) (simp_all add: words_read_def)

lemma commands_words: "commands io (replicate n (Inw p) @ t) = commands io t"
  by (induction n) simp_all

lemma words_at_append:
  "words_at m a (n + k) = words_at m a n @ words_at m (a + of_nat (2 * n)) k"
proof (induction n arbitrary: a)
  case (Suc n)
  have "a + 2 + (of_nat (2 * n) :: u64) = a + of_nat (2 * Suc n)" by simp
  then show ?case by (simp only: words_at_Suc add_Suc Suc.IH append_Cons)
qed (simp add: words_at_def)

lemma words_at_sectors:
  "words_at m a 256 @ words_at m (a + 512) (256 * k) = words_at m a (256 * Suc k)"
  using words_at_append [of m a 256 "256 * k"] by (simp add: algebra_simps)

lemma sent_words: "sent p (map (Outw p) (rev ws) @ t) = sent p t @ ws"
  by (induction ws rule: rev_induct) simp_all

lemma commands_sent: "commands io (map (Outw p) ws @ t) = commands io t"
  by (induction ws) simp_all

lemma read_loop_reads:
  assumes "clock_runs d" "mapped m buffer (512 * n)"
  shows "\<exists>r m' t' ws. read_loop d io buffer n m t = Some (r, m', t') \<and>
    delivered d io t' = delivered d io t @ ws \<and>
    m' = stored m buffer (concat (map word_bytes ws)) \<and> commands io t' = commands io t \<and>
    (r = 0 \<and> length ws = 256 * n \<or> r = - 1 \<and> (\<exists>k < n. length ws = 256 * k))"
  using assms(2)
proof (induction n arbitrary: buffer m t)
  case 0
  then show ?case by simp
next
  case (Suc n)
  obtain ok t1 where s: "wait_sector d io t = Some (ok, t1)" and q: "quiet t t1"
    using wait_sector_returns [OF assms(1)] by blast
  show ?case
  proof (cases ok)
    case False
    then show ?thesis using s by (auto simp: quiet_views [OF q] intro!: exI [of _ "[]"])
  next
    case True
    let ?w = "words_read d io t1 256"
    let ?t2 = "replicate 256 (Inw io) @ t1"
    let ?m2 = "stored m buffer (concat (map word_bytes ?w))"
    have "mapped m buffer (2 * 256)" using Suc.prems by (simp add: mapped_def)
    then have i: "asm_insw d io buffer 256 m t1 = Some (?m2, ?t2)" by (rule asm_insw_stores)
    have "mapped m (buffer + of_nat 512) (512 * n)"
      using Suc.prems by (intro mapped_drop) (simp add: algebra_simps)
    then have "mapped ?m2 (buffer + 512) (512 * n)" by (simp add: mapped_stored)
    from Suc.IH [OF this, of ?t2] obtain r m' t' ws where
      l: "read_loop d io (buffer + 512) n ?m2 ?t2 = Some (r, m', t')"
        "delivered d io t' = delivered d io ?t2 @ ws"
        "m' = stored ?m2 (buffer + 512) (concat (map word_bytes ws))"
        "commands io t' = commands io ?t2"
        "r = 0 \<and> length ws = 256 * n \<or> r = - 1 \<and> (\<exists>k < n. length ws = 256 * k)" by blast
    have "read_loop d io buffer (Suc n) m t = Some (r, m', t')"
      using s True i l(1) by simp
    moreover have "delivered d io t' = delivered d io t @ (?w @ ws)"
      by (simp only: l(2) delivered_words quiet_views [OF q] append.assoc)
    moreover have "m' = stored m buffer (concat (map word_bytes (?w @ ws)))"
      by (simp add: l(3) stored_append length_word_bytes)
    moreover have "commands io t' = commands io t"
      by (simp only: l(4) commands_words quiet_views [OF q])
    moreover have "r = 0 \<and> length (?w @ ws) = 256 * Suc n \<or>
        r = - 1 \<and> (\<exists>k < Suc n. length (?w @ ws) = 256 * k)"
      using l(5) by (auto intro: exI [of _ "Suc _"])
    ultimately show ?thesis by blast
  qed
qed

text \<open>The words of a write are the sectors in memory; after the last one comes the flush.\<close>

lemma write_loop_writes:
  assumes "clock_runs d" "mapped m buffer (512 * n)"
  shows "\<exists>r t' k. write_loop d io buffer n m t = Some (r, t') \<and> k \<le> n \<and>
    sent io t' = sent io t @ words_at m buffer (256 * k) \<and>
    (r = 0 \<and> k = n \<and> (\<exists>f. cmd f = ATA_CMD_FLUSH_EXT \<and> commands io t' = f # commands io t) \<or>
     r = - 1 \<and> k < n \<and> commands io t' = commands io t)"
  using assms(2)
proof (induction n arbitrary: buffer t)
  case 0
  obtain t' where "ata_wait_ready d io (Outb (io + 7) ATA_CMD_FLUSH_EXT # t) = Some t'"
    using ata_wait_ready_returns [OF assms(1)] by blast
  then show ?case
    by (auto simp: asm_outb_def quiet_views [OF ata_wait_ready_quiet] decode_def words_at_def)
next
  case (Suc n)
  obtain ok t1 where s: "wait_sector d io t = Some (ok, t1)" and q: "quiet t t1"
    using wait_sector_returns [OF assms(1)] by blast
  show ?case
  proof (cases ok)
    case False
    then show ?thesis using s
      by (auto simp: quiet_views [OF q] words_at_def intro!: exI [of _ "0::nat"])
  next
    case True
    let ?w = "words_at m buffer 256"
    let ?t2 = "map (Outw io) (rev ?w) @ t1"
    have "mapped m buffer (2 * 256)" using Suc.prems by (simp add: mapped_def)
    then have i: "asm_outsw io buffer 256 m t1 = Some ?t2" by (rule asm_outsw_sends)
    have "mapped m (buffer + of_nat 512) (512 * n)"
      using Suc.prems by (intro mapped_drop) (simp add: algebra_simps)
    then have "mapped m (buffer + 512) (512 * n)" by simp
    from Suc.IH [OF this, of ?t2] obtain r t' k where
      l: "write_loop d io (buffer + 512) n m ?t2 = Some (r, t')" "k \<le> n"
        "sent io t' = sent io ?t2 @ words_at m (buffer + 512) (256 * k)"
        "r = 0 \<and> k = n \<and>
           (\<exists>f. cmd f = ATA_CMD_FLUSH_EXT \<and> commands io t' = f # commands io ?t2) \<or>
         r = - 1 \<and> k < n \<and> commands io t' = commands io ?t2" by blast
    have "write_loop d io buffer (Suc n) m t = Some (r, t')"
      using s True i l(1) by simp
    moreover have "sent io t' = sent io t @ words_at m buffer (256 * Suc k)"
      by (simp only: l(3) sent_words quiet_views [OF q] append.assoc words_at_sectors)
    moreover have "commands io ?t2 = commands io t"
      by (simp only: commands_sent quiet_views [OF q])
    ultimately show ?thesis using l(2,4) by (intro exI [of _ r] exI [of _ t'] exI [of _ "Suc k"]) auto
  qed
qed

subsection \<open>The command registers\<close>

lemma bus_of_cases:
  "bus_of drive = \<lparr>io_base = 0x1F0, ctrl_base = 0x3F6\<rparr> \<or>
   bus_of drive = \<lparr>io_base = 0x170, ctrl_base = 0x376\<rparr>"
proof -
  have "drop_bit 1 (drive - 0x80) AND 1 = 0 \<or> drop_bit 1 (drive - 0x80) AND (1 :: u8) = 1"
    by (simp add: and_one_eq mod2_eq_if)
  then show ?thesis by (auto simp: bus_of_def ata_buses_def ata_consts)
qed

lemma join_byte:
  fixes x :: "'a::len word"
  shows "take_bit n x OR push_bit n (ucast (ucast (drop_bit n x) :: u8)) = take_bit (n + 8) x"
  by (rule bit_word_eqI) (auto simp: bit_simps)

lemma first_byte: "(ucast (ucast (x :: 'a::len word) :: u8) :: 'a word) = take_bit 8 x"
  by (rule bit_word_eqI) (auto simp: bit_simps)

lemma count_bytes: "(ucast (ucast c :: u8) :: u16) OR push_bit 8 (ucast (ucast (drop_bit 8 c) :: u8)) = c"
  using join_byte [of 8 c] by (simp add: first_byte take_bit_word_eq_self)

lemma lba_bytes:
  "(ucast (ucast x :: u8) :: u64) OR push_bit 8 (ucast (ucast (drop_bit 8 x) :: u8))
    OR push_bit 16 (ucast (ucast (drop_bit 16 x) :: u8))
    OR push_bit 24 (ucast (ucast (drop_bit 24 x) :: u8))
    OR push_bit 32 (ucast (ucast (drop_bit 32 x) :: u8))
    OR push_bit 40 (ucast (ucast (drop_bit 40 x) :: u8)) = take_bit 48 (x :: u64)"
  using join_byte [of 8 x] join_byte [of 16 x] join_byte [of 24 x] join_byte [of 32 x]
    join_byte [of 40 x]
  by (simp add: first_byte or.assoc [symmetric])

lemma commands_issue:
  assumes "bus = bus_of drive"
  shows "commands (io_base bus) (issue_command bus dev dp c t) =
    \<lparr>cmd = c, cmd_device = 0x40 OR push_bit 4 dev, cmd_lba = take_bit 48 (lba dp),
     cmd_count = count dp\<rparr> # commands (io_base bus) t"
  using bus_of_cases [of drive, folded assms]
  by (elim disjE)
    (simp_all add: issue_command_def port_defs Let_def decode_def latest_def previous_def
      count_bytes lba_bytes)

lemma transfers_issue:
  assumes "bus = bus_of drive"
  shows "delivered d (io_base bus) (issue_command bus dev dp c t) = delivered d (io_base bus) t"
    "sent (io_base bus) (issue_command bus dev dp c t) = sent (io_base bus) t"
  by (simp_all add: issue_command_def port_defs Let_def)

subsection \<open>Reading and writing sectors\<close>

text \<open>C15: with a clock that runs and a mapped buffer, \<open>ata_read_sectors\<close> returns. The drive has been
  given one command, the LBA48 read of the requested device, count and address (modulo
  \<open>2 ^ 48\<close>), and the memory has changed only by the words the drive delivered after it, in
  order from \<open>buffer\<close> on. The result is 0 exactly when all \<open>count\<close> sectors were delivered; after
  an error they are a whole number of sectors.
\<close>

theorem ata_read_sectors_reads:
  assumes "clock_runs d" and "mapped m buffer (512 * unat (count dp))"
    and io_def: "io = io_base (bus_of drive)"
  shows "\<exists>r m' t' ws. ata_read_sectors d dp buffer drive m t = Some (r, m', t') \<and>
    commands io t' =
      \<lparr>cmd = ATA_CMD_READ_PIO_EXT, cmd_device = 0x40 OR push_bit 4 (device_of drive),
       cmd_lba = take_bit 48 (lba dp), cmd_count = count dp\<rparr> # commands io t \<and>
    delivered d io t' = delivered d io t @ ws \<and>
    m' = stored m buffer (concat (map word_bytes ws)) \<and>
    (r = 0 \<and> length ws = 256 * unat (count dp) \<or>
     r = - 1 \<and> (\<exists>k < unat (count dp). length ws = 256 * k))"
proof -
  obtain t1 where t1: "ata_wait_ready d io t = Some t1" using ata_wait_ready_returns [OF assms(1)] by blast
  let ?t2 = "issue_command (bus_of drive) (device_of drive) dp ATA_CMD_READ_PIO_EXT t1"
  obtain r m' t' ws where l: "read_loop d io buffer (unat (count dp)) m ?t2 = Some (r, m', t')"
      "delivered d io t' = delivered d io ?t2 @ ws"
      "m' = stored m buffer (concat (map word_bytes ws))" "commands io t' = commands io ?t2"
      "r = 0 \<and> length ws = 256 * unat (count dp) \<or>
       r = - 1 \<and> (\<exists>k < unat (count dp). length ws = 256 * k)"
    using read_loop_reads [OF assms(1,2), of io ?t2] by (elim exE conjE) rule
  have a: "ata_read_sectors d dp buffer drive m t = Some (r, m', t')"
    using t1 l(1) by (simp add: ata_read_sectors_def io_def)
  have c: "commands io ?t2 = \<lparr>cmd = ATA_CMD_READ_PIO_EXT,
      cmd_device = 0x40 OR push_bit 4 (device_of drive), cmd_lba = take_bit 48 (lba dp),
      cmd_count = count dp\<rparr> # commands io t"
    by (simp only: io_def commands_issue quiet_views [OF ata_wait_ready_quiet [OF t1]])
  have e: "delivered d io ?t2 = delivered d io t"
    by (simp only: io_def transfers_issue quiet_views [OF ata_wait_ready_quiet [OF t1]])
  show ?thesis
    by (intro exI [of _ r] exI [of _ m'] exI [of _ t'] exI [of _ ws] conjI a l(3) l(5))
      (simp_all only: l(2,4) c e)
qed

text \<open>C16: with a clock that runs and a mapped buffer, \<open>ata_write_sectors\<close> returns. The drive has been
  given the LBA48 write of the requested device, count and address and then whole sectors, the
  words in memory from \<open>buffer\<close> on; with the result 0 it got all \<open>count\<close> of them and after them
  the command to flush its cache, with an error fewer and no flush.
\<close>

theorem ata_write_sectors_writes:
  assumes "clock_runs d" and "mapped m buffer (512 * unat (count dp))"
    and io_def: "io = io_base (bus_of drive)"
  shows "\<exists>r t' k w. ata_write_sectors d dp buffer drive m t = Some (r, t') \<and>
    w = \<lparr>cmd = ATA_CMD_WRITE_PIO_EXT, cmd_device = 0x40 OR push_bit 4 (device_of drive),
      cmd_lba = take_bit 48 (lba dp), cmd_count = count dp\<rparr> \<and>
    sent io t' = sent io t @ words_at m buffer (256 * k) \<and>
    (r = 0 \<and> k = unat (count dp) \<and>
       (\<exists>f. cmd f = ATA_CMD_FLUSH_EXT \<and> commands io t' = f # w # commands io t) \<or>
     r = - 1 \<and> k < unat (count dp) \<and> commands io t' = w # commands io t)"
proof -
  obtain t1 where t1: "ata_wait_ready d io t = Some t1" using ata_wait_ready_returns [OF assms(1)] by blast
  let ?t2 = "issue_command (bus_of drive) (device_of drive) dp ATA_CMD_WRITE_PIO_EXT t1"
  obtain r t' k where l: "write_loop d io buffer (unat (count dp)) m ?t2 = Some (r, t')"
      "sent io t' = sent io ?t2 @ words_at m buffer (256 * k)"
      "r = 0 \<and> k = unat (count dp) \<and>
         (\<exists>f. cmd f = ATA_CMD_FLUSH_EXT \<and> commands io t' = f # commands io ?t2) \<or>
       r = - 1 \<and> k < unat (count dp) \<and> commands io t' = commands io ?t2"
    using write_loop_writes [OF assms(1,2), of io ?t2] by (elim exE conjE) rule
  have a: "ata_write_sectors d dp buffer drive m t = Some (r, t')"
    using t1 l(1) by (simp add: ata_write_sectors_def io_def)
  have c: "commands io ?t2 = \<lparr>cmd = ATA_CMD_WRITE_PIO_EXT,
      cmd_device = 0x40 OR push_bit 4 (device_of drive), cmd_lba = take_bit 48 (lba dp),
      cmd_count = count dp\<rparr> # commands io t"
    by (simp only: io_def commands_issue quiet_views [OF ata_wait_ready_quiet [OF t1]])
  have e: "sent io ?t2 = sent io t"
    by (simp only: io_def transfers_issue quiet_views [OF ata_wait_ready_quiet [OF t1]])
  have f: "sent io t' = sent io t @ words_at m buffer (256 * k)" by (simp only: l(2) e)
  show ?thesis
    by (intro exI [of _ r] exI [of _ t'] exI [of _ k] exI conjI, rule a, rule refl, rule f)
      (insert l(3), simp only: c)
qed

text \<open>A drive that is always ready, with a clock of one tick per millisecond.\<close>

definition ready_drive :: device where
  "ready_drive =
     \<lparr>in8 = (\<lambda>_ _. 0x48), in16 = (\<lambda>t _. of_nat (length t)), in32 = (\<lambda>_ _. 0),
      tsc = (\<lambda>t. of_nat (length t)), mmio32 = (\<lambda>_ _. 0),
      timer = \<lparr>rdtscp_supported = False, tsc_ticks_per_ms = 1, bootup_timestamp = 0\<rparr>\<rparr>"

lemma ready_drive_clock: "clock_runs ready_drive"
  unfolding clock_runs_def
proof (intro allI impI)
  fix f :: "nat \<Rightarrow> trace"
  assume f: "\<forall>k. \<exists>u. f (Suc k) = u @ f k \<and> u \<noteq> [] \<and> length u \<le> 2"
  have "length (f 0) + k \<le> length (f k) \<and> length (f k) \<le> length (f 0) + 2 * k" for k
  proof (induction k)
    case (Suc k)
    obtain u where "f (Suc k) = u @ f k" "u \<noteq> []" "length u \<le> 2" using f by blast
    then show ?case using Suc by (cases u) auto
  qed simp
  from this [of 1000] obtain j where j: "length (f 1000) = length (f 0) + j" "1000 \<le> j" "j \<le> 2000"
    by (auto dest!: le_Suc_ex)
  have "(of_nat (length (f 1000)) :: u64) - of_nat (length (f 0)) = of_nat j" by (simp add: j)
  moreover have "(1000 :: u64) \<le> of_nat j"
    using j(2,3) by (simp add: word_le_nat_alt unat_of_nat_u64)
  ultimately have "1000 \<le> ms_at ready_drive (f (Suc 999)) - ms_at ready_drive (f 0)"
    by (simp add: ms_at_def kget_ms_passed_def ready_drive_def)
  then show "\<exists>k. 1000 \<le> ms_at ready_drive (f (Suc k)) - ms_at ready_drive (f 0)" by blast
qed

lemma mapped_everywhere: "mapped (\<lambda>_. Some b) p n"
  by (simp add: mapped_def)

lemma ata_read_sectors_reads_witness:
  "\<exists>r m' t' ws. ata_read_sectors ready_drive \<lparr>lba = 0x123456789ABC, count = 3\<rparr> 0x1000 0x81
      (\<lambda>_. Some 0) [] = Some (r, m', t') \<and>
    commands 0x1F0 t' = [\<lparr>cmd = 0x24, cmd_device = 0x50, cmd_lba = 0x123456789ABC, cmd_count = 3\<rparr>] \<and>
    delivered ready_drive 0x1F0 t' = ws \<and>
    m' = stored (\<lambda>_. Some 0) 0x1000 (concat (map word_bytes ws)) \<and>
    (r = 0 \<and> length ws = 768 \<or> r = - 1 \<and> (\<exists>k < 3. length ws = 256 * k))"
  using ata_read_sectors_reads [OF ready_drive_clock mapped_everywhere [of 0] refl,
      of "\<lparr>lba = 0x123456789ABC, count = 3\<rparr>" "0x1000" "0x81" "[]"]
  by (simp add: bus_of_def device_of_def ata_buses_def ata_consts)

lemma ata_write_sectors_writes_witness:
  "\<exists>r t' k w. ata_write_sectors ready_drive \<lparr>lba = 7, count = 2\<rparr> 0x1000 0x80 (\<lambda>_. Some 0x41) [] =
      Some (r, t') \<and>
    w = \<lparr>cmd = 0x34, cmd_device = 0x40, cmd_lba = 7, cmd_count = 2\<rparr> \<and>
    sent 0x1F0 t' = words_at (\<lambda>_. Some 0x41) 0x1000 (256 * k) \<and>
    (r = 0 \<and> k = 2 \<and> (\<exists>f. cmd f = 0xEA \<and> commands 0x1F0 t' = [f, w]) \<or>
     r = - 1 \<and> k < 2 \<and> commands 0x1F0 t' = [w])"
  using ata_write_sectors_writes [OF ready_drive_clock mapped_everywhere [of "0x41"] refl,
      of "\<lparr>lba = 7, count = 2\<rparr>" "0x1000" "0x80" "[]"]
  by (simp add: bus_of_def device_of_def ata_buses_def ata_consts)

end
