(* ===== verification/Printf.thy ===== *)
theory Printf
  imports KConv "HOL-Library.Monad_Syntax"
begin

text \<open>
  The formatter that \<open>serial_printf\<close> and \<open>vmem_printf\<close> of \<^verbatim>\<open>Kernel/drivers/io/io.c\<close> share.
  The C file has it twice, once over \<open>serial_printc\<close> and once over \<open>vmem_printc\<close>; here the
  functions take what they print with as a \<open>printer\<close>, and \<open>Serial\<close> and \<open>Vmem\<close> supply it.

  A C string argument is the list of bytes from its address on. The variable arguments are a list;
  taking one of the wrong kind, or one that is not there, has no result.
\<close>

datatype va =
    Word_arg u64
  | Str_arg "u8 list option"
  | Double_arg "int \<Rightarrow> u8 list option"

text \<open>
  \<open>after_str\<close> and \<open>after_S\<close> are what follows the printing of a string and of a dump. The text of
  a \<open>double\<close> at a precision, what \<open>kdouble_to_str\<close> gives, is carried by the argument.
\<close>

record 's printer =
  putc :: "u8 \<Rightarrow> 's \<Rightarrow> 's option"
  puts :: "u8 list \<Rightarrow> 's \<Rightarrow> 's option"
  after_str :: "'s \<Rightarrow> 's"
  after_S :: "'s \<Rightarrow> 's"
  hex_signed :: bool

record flags =
  zero_pad :: bool
  fwidth :: int
  precision :: int
  is_long :: nat

definition cstring :: "u8 list \<Rightarrow> u8 list option" where
  "cstring bs = (if 0 \<in> set bs then Some (takeWhile (\<lambda>c. c \<noteq> 0) bs) else None)"

subsection \<open>Printing a string and a number\<close>

fun put_all :: "'s printer \<Rightarrow> u8 list \<Rightarrow> 's \<Rightarrow> 's option" where
  "put_all P [] s = Some s"
| "put_all P (c # cs) s = do { s \<leftarrow> putc P c s; put_all P cs s }"

definition print_ex_string :: "'s printer \<Rightarrow> u8 list \<Rightarrow> int \<Rightarrow> bool \<Rightarrow> 's \<Rightarrow> 's option" where
  "print_ex_string P str wd zp s =
     (let len = int (length str); neg = (str \<noteq> [] \<and> hd str = 0x2D) in
      if wd > len then
        let padding = nat (wd - len) in
        if zp \<and> neg then do {
          s \<leftarrow> putc P 0x2D s;
          s \<leftarrow> put_all P (replicate padding 0x30) s;
          put_all P (tl str) s
        }
        else do {
          s \<leftarrow> put_all P (replicate padding (if zp then 0x30 else 0x20)) s;
          put_all P str s
        }
      else put_all P str s)"

text \<open>The local buffer has 64 bytes; what it holds before does not matter.\<close>

definition print_ex_integer ::
  "'s printer \<Rightarrow> u64 \<Rightarrow> int \<Rightarrow> int \<Rightarrow> bool \<Rightarrow> bool \<Rightarrow> bool \<Rightarrow> 's \<Rightarrow> 's option" where
  "print_ex_integer P val base wd zp is_signed caps s = do {
     (ok, buf) \<leftarrow> (if is_signed then ki64_to_str val (Some (replicate 64 0)) 64 base caps
       else ku64_to_str val (Some (replicate 64 0)) 64 base caps);
     if \<not> ok then Some s
     else do { str \<leftarrow> cstring buf; print_ex_string P str wd zp s }
   }"

definition print_ex_float ::
  "'s printer \<Rightarrow> (int \<Rightarrow> u8 list option) \<Rightarrow> int \<Rightarrow> int \<Rightarrow> bool \<Rightarrow> 's \<Rightarrow> 's option" where
  "print_ex_float P val wd prec zp s =
     (case val prec of None \<Rightarrow> Some s | Some str \<Rightarrow> print_ex_string P str wd zp s)"

text \<open>The dump of \<open>n\<close> bytes for \<open>%S\<close>; a \<open>char\<close> is signed, so a byte of 128 or more is extended.\<close>

fun dump :: "'s printer \<Rightarrow> nat \<Rightarrow> u8 list \<Rightarrow> bool \<Rightarrow> 's \<Rightarrow> 's option" where
  "dump P 0 bs zp s = Some s"
| "dump P (Suc n) [] zp s = None"
| "dump P (Suc n) (c # bs) zp s = do {
     s \<leftarrow> (if kc_is_printable c then putc P c s
       else do {
         s \<leftarrow> putc P 0x5C s;
         s \<leftarrow> putc P 0x78 s;
         print_ex_integer P (scast c) 16 2 zp False True s
       });
     dump P n bs zp s
   }"

subsection \<open>Conversions\<close>

fun digits :: "int \<Rightarrow> u8 list \<Rightarrow> int \<times> u8 list" where
  "digits w [] = (w, [])"
| "digits w (c # fmt) =
     (if 0x30 \<le> c \<and> c \<le> 0x39 then digits (w * 10 + (uint c - 0x30)) fmt else (w, c # fmt))"

fun longs :: "nat \<Rightarrow> u8 list \<Rightarrow> nat \<times> u8 list" where
  "longs n [] = (n, [])"
| "longs n (c # fmt) = (if c = 0x6C then longs (Suc n) fmt else (n, c # fmt))"

text \<open>What stands between the percent sign and the conversion character.\<close>

definition parse_flags :: "u8 list \<Rightarrow> flags \<times> u8 list" where
  "parse_flags fmt =
     (let (zp, fmt) = (case fmt of c # r \<Rightarrow> if c = 0x30 then (True, r) else (False, fmt) | [] \<Rightarrow> (False, fmt));
          (wd, fmt) = digits 0 fmt;
          (prec, fmt) = (case fmt of c # r \<Rightarrow> if c = 0x2E then digits 0 r else (0, fmt) | [] \<Rightarrow> (0, fmt));
          (lg, fmt) = longs 0 fmt
      in (\<lparr>zero_pad = zp, fwidth = wd, precision = prec, is_long = lg\<rparr>, fmt))"

fun take_word :: "va list \<Rightarrow> (u64 \<times> va list) option" where
  "take_word (Word_arg w # args) = Some (w, args)"
| "take_word _ = None"

fun take_str :: "va list \<Rightarrow> (u8 list option \<times> va list) option" where
  "take_str (Str_arg s # args) = Some (s, args)"
| "take_str _ = None"

fun take_double :: "va list \<Rightarrow> ((int \<Rightarrow> u8 list option) \<times> va list) option" where
  "take_double (Double_arg d # args) = Some (d, args)"
| "take_double _ = None"

text \<open>\<open>va_arg\<close> of a 64-bit type, of \<open>int\<close> and of \<open>uint32_t\<close>, as a 64-bit value.\<close>

definition take_signed :: "flags \<Rightarrow> va list \<Rightarrow> (u64 \<times> va list) option" where
  "take_signed fl args = do {
     (w, args) \<leftarrow> take_word args;
     Some (if 1 \<le> is_long fl then w else scast (ucast w :: u32), args)
   }"

definition take_unsigned :: "flags \<Rightarrow> va list \<Rightarrow> (u64 \<times> va list) option" where
  "take_unsigned fl args = do {
     (w, args) \<leftarrow> take_word args;
     Some (if 1 \<le> is_long fl then w else ucast (ucast w :: u32), args)
   }"

definition null_text :: "u8 list" where
  "null_text = [0x28, 0x4E, 0x55, 0x4C, 0x4C, 0x29]"

text \<open>The switch on the conversion character.\<close>

definition conv ::
  "'s printer \<Rightarrow> u8 \<Rightarrow> flags \<Rightarrow> va list \<Rightarrow> 's \<Rightarrow> (va list \<times> 's) option" where
  "conv P d fl args s =
     (let wd = fwidth fl; zp = zero_pad fl in
      if d = 0x63 then do {
        (w, args) \<leftarrow> take_word args;
        s \<leftarrow> putc P (ucast w) s;
        Some (args, s)
      }
      else if d = 0x73 then do {
        (p, args) \<leftarrow> take_str args;
        str \<leftarrow> (case p of None \<Rightarrow> Some null_text | Some bs \<Rightarrow> cstring bs);
        s \<leftarrow> puts P str s;
        Some (args, after_str P s)
      }
      else if d = 0x53 then do {
        (p, args) \<leftarrow> take_str args;
        s \<leftarrow> (case p of None \<Rightarrow> puts P null_text s | Some bs \<Rightarrow> dump P (nat wd) bs zp s);
        Some (args, after_S P s)
      }
      else if d = 0x69 \<or> d = 0x64 then do {
        (v, args) \<leftarrow> take_signed fl args;
        s \<leftarrow> print_ex_integer P v 10 wd zp True False s;
        Some (args, s)
      }
      else if d = 0x75 then do {
        (v, args) \<leftarrow> take_unsigned fl args;
        s \<leftarrow> print_ex_integer P v 10 wd zp False False s;
        Some (args, s)
      }
      else if d = 0x49 \<or> d = 0x44 then do {
        (v, args) \<leftarrow> take_signed fl args;
        s \<leftarrow> print_ex_integer P v 10 wd zp True True s;
        Some (args, s)
      }
      else if d = 0x55 then do {
        (v, args) \<leftarrow> take_unsigned fl args;
        s \<leftarrow> print_ex_integer P v 10 wd zp False True s;
        Some (args, s)
      }
      else if d = 0x78 then do {
        (v, args) \<leftarrow> take_unsigned fl args;
        s \<leftarrow> print_ex_integer P v 16 wd zp (hex_signed P) False s;
        Some (args, s)
      }
      else if d = 0x70 then do {
        (v, args) \<leftarrow> take_word args;
        s \<leftarrow> puts P [0x30, 0x78] s;
        s \<leftarrow> print_ex_integer P v 16 (if wd = 0 then 16 else wd) True (hex_signed P) True (after_str P s);
        Some (args, s)
      }
      else if d = 0x58 then do {
        (v, args) \<leftarrow> take_unsigned fl args;
        s \<leftarrow> print_ex_integer P v 16 wd zp (hex_signed P) True s;
        Some (args, s)
      }
      else if d = 0x66 then do {
        (v, args) \<leftarrow> take_double args;
        s \<leftarrow> print_ex_float P v wd (precision fl) zp s;
        Some (args, s)
      }
      else do { s \<leftarrow> putc P d s; Some (args, s) })"

lemma length_digits: "digits w fmt = (w', r) \<Longrightarrow> length r \<le> length fmt"
  by (induction w fmt rule: digits.induct) (auto split: if_splits)

lemma length_longs: "longs n fmt = (n', r) \<Longrightarrow> length r \<le> length fmt"
  by (induction n fmt rule: longs.induct) (auto split: if_splits)

lemma length_parse_flags: "parse_flags fmt = (fl, r) \<Longrightarrow> length r \<le> length fmt"
  by (auto simp: parse_flags_def split: list.splits prod.splits if_splits
      dest!: length_digits length_longs)

text \<open>The loop over the format; a percent sign at its end reads past the terminator.\<close>

function printf_loop :: "'s printer \<Rightarrow> u8 list \<Rightarrow> va list \<Rightarrow> 's \<Rightarrow> 's option" where
  "printf_loop P [] args s = Some s"
| "printf_loop P (c # fmt) args s =
     (if c = 0x25 then
        (case parse_flags fmt of
           (fl, []) \<Rightarrow> None
         | (fl, d # rest) \<Rightarrow> do {
             (args, s) \<leftarrow> conv P d fl args s;
             printf_loop P rest args s
           })
      else do {
        s \<leftarrow> putc P c s;
        printf_loop P fmt args s
      })"
  by pat_completeness auto
termination
  by (relation "measure (\<lambda>(P, fmt, args, s). length fmt)") (auto dest: length_parse_flags [OF sym])

subsection \<open>The text of a number\<close>

lemma num_digits_length: "n < b ^ k \<Longrightarrow> 0 < k \<Longrightarrow> 2 \<le> b \<Longrightarrow> length (num_digits b n) \<le> k"
proof (induction k arbitrary: n)
  case (Suc k)
  show ?case
  proof (cases "n div b = 0")
    case True
    then show ?thesis using Suc.prems by (simp add: num_digits.simps [of b n])
  next
    case False
    have "n div b < b ^ k" using Suc.prems by (simp add: less_mult_imp_div_less mult.commute)
    moreover from this have "0 < k" using False by (cases k) auto
    ultimately show ?thesis
      using False Suc.IH [of "n div b"] Suc.prems by (simp add: num_digits.simps [of b n])
  qed
qed simp

definition digits_text :: "int \<Rightarrow> nat \<Rightarrow> bool \<Rightarrow> u8 list" where
  "digits_text base n caps = rev (digit_chars (nat base) n caps)"

lemma digits_text_nonzero:
  assumes "2 \<le> base" "base \<le> 36"
  shows "0 \<notin> set (digits_text base n caps)"
  using digit_chars_valid [OF assms, of caps n] not_valid_digit_0 [of base]
  by (auto simp: digits_text_def)

lemma length_digits_text:
  assumes "10 \<le> base"
  shows "length (num_digits (nat base) (unat (v :: u64))) \<le> 20"
proof -
  have "(10 :: nat) ^ 20 \<le> nat base ^ 20" using assms by (intro power_mono) auto
  moreover have "unat v < 10 ^ 20" using u64_lt [of v] by simp
  ultimately have "unat v < nat base ^ 20" by linarith
  then show ?thesis using assms num_digits_length [of "unat v" "nat base" 20] by simp
qed

lemma cstring_splice:
  assumes "0 \<notin> set str"
  shows "cstring (splice buf 0 (str @ [0])) = Some str"
  using assms by (auto simp: cstring_def splice_def takeWhile_append)

lemma ku64_text:
  assumes "10 \<le> base" "base \<le> 36"
  shows "\<exists>buf. ku64_to_str v (Some (replicate 64 0)) 64 base caps = Some (True, buf) \<and>
    cstring buf = Some (digits_text base (unat v) caps)"
  using assms le_less_trans [OF length_digits_text [OF assms(1), of v], of 63] digits_text_nonzero [of base "unat v" caps]
  by (simp add: ku64_to_str_splice Let_def cstring_splice flip: digits_text_def)

lemma of_nat_eq_64:
  assumes "n < 64" shows "of_nat n \<noteq> (64 :: u64)"
proof
  assume "of_nat n = (64 :: u64)"
  then have "unat (of_nat n :: u64) = unat (64 :: u64)" by simp
  then show False using assms by (simp add: unat_of_nat_u64)
qed

text \<open>A negative number in base 10 is its absolute value behind a minus sign.\<close>

definition signed_text :: "int \<Rightarrow> u64 \<Rightarrow> bool \<Rightarrow> u8 list" where
  "signed_text base v caps =
     (if base = 10 \<and> sint v < 0 then 0x2D # digits_text 10 (nat (- sint v)) caps
      else digits_text base (unat v) caps)"

lemma ki64_text:
  assumes "10 \<le> base" "base \<le> 36"
  shows "\<exists>buf. ki64_to_str v (Some (replicate 64 0)) 64 base caps = Some (True, buf) \<and>
    cstring buf = Some (signed_text base v caps)"
proof (cases "base = 10 \<and> sint v < 0")
  case False
  then have "ki64_to_str v (Some (replicate 64 0)) 64 base caps =
      ku64_to_str v (Some (replicate 64 0)) 64 base caps"
    by (auto simp: ki64_to_str_def ku64_to_str_def Let_def)
  then show ?thesis using ku64_text [OF assms, of v caps] False by (auto simp: signed_text_def)
next
  case True
  let ?ds = "digit_chars 10 (unat (- v)) caps"
  have l: "length ?ds \<le> 20" using length_digits_text [of 10 "- v"] by simp
  have loop: "digits_loop (- v) (replicate 64 0) 0 0 64 10 caps =
      Some (Inr (splice (replicate 64 0) 0 ?ds, length ?ds, of_nat (length ?ds)))"
    using digits_loop_splice [of 10 0 64 0 "replicate 64 0" "- v" caps] l by (simp add: Let_def)
  have p: "put (splice (replicate 64 0) 0 ?ds) (length ?ds) 45 =
      Some (splice (replicate 64 0) 0 (?ds @ [45]))"
  proof -
    have "replicate (64 - length ?ds) (0 :: u8) = 0 # replicate (63 - length ?ds) 0"
      using l by (cases "64 - length ?ds") (simp_all flip: replicate_Suc)
    then show ?thesis using l by (simp add: put_def splice_def list_update_append)
  qed
  have e: "of_nat (length ?ds) + 1 \<noteq> (64 :: u64)" "of_nat (length ?ds) + 1 + 1 \<noteq> (64 :: u64)"
    using l of_nat_eq_64 [of "length ?ds + 1"] of_nat_eq_64 [of "length ?ds + 2"]
    by (simp_all add: add.commute)
  have "print_end (splice (replicate 64 0) 0 (?ds @ [45])) (length (?ds @ [45]))
      (of_nat (length ?ds) + 1) 64 = Some (True, splice (replicate 64 0) 0 (rev (?ds @ [45]) @ [0]))"
    using l e(2) by (subst print_end_rev) simp_all
  then have "ki64_to_str v (Some (replicate 64 0)) 64 base caps =
      Some (True, splice (replicate 64 0) 0 (rev (?ds @ [45]) @ [0]))"
    using True loop p e by (simp add: ki64_to_str_def Let_def)
  moreover have "unat (- v) = nat (- sint v)"
  proof -
    have "uint (- v) = take_bit 64 (- uint v)" by (simp add: uint_word_arith_bintrs)
    also have "\<dots> = take_bit 64 (- sint v)"
      by (simp add: uint_sint take_bit_minus)
    also have "\<dots> = - sint v"
      using True sint_ge [of v] by (intro take_bit_int_eq_self) simp_all
    finally show ?thesis by (simp only: unat_eq_nat_uint)
  qed
  moreover have "0 \<notin> set (rev (?ds @ [45]))"
    using digits_text_nonzero [of 10 "unat (- v)" caps] by (simp add: digits_text_def)
  ultimately show ?thesis
    using True cstring_splice [of "rev (?ds @ [45])" "replicate 64 0"]
    by (simp add: signed_text_def digits_text_def)
qed

subsection \<open>What a format prints\<close>

text \<open>
  Specification. A format is a sequence of literal characters and directives; each directive
  renders its arguments as a text. \<open>enc\<close> is what the printer makes of a whole string (the serial
  port sends a carriage return before each newline of one).
\<close>

datatype piece =
    Literal u8
  | Directive u8 flags

function pieces :: "u8 list \<Rightarrow> piece list option" where
  "pieces [] = Some []"
| "pieces (c # fmt) =
     (if c = 0x25 then
        (case parse_flags fmt of
           (fl, []) \<Rightarrow> None
         | (fl, d # rest) \<Rightarrow> map_option ((#) (Directive d fl)) (pieces rest))
      else map_option ((#) (Literal c)) (pieces fmt))"
  by pat_completeness auto
termination
  by (relation "measure length") (auto dest: length_parse_flags [OF sym])

text \<open>Padding: zeros go between the sign and the digits, spaces before both.\<close>

definition padded :: "u8 list \<Rightarrow> int \<Rightarrow> bool \<Rightarrow> u8 list" where
  "padded str wd zp =
     (let n = nat (wd - int (length str)) in
      if zp then
        (if 0 < n \<and> str \<noteq> [] \<and> hd str = 0x2D then 0x2D # replicate n 0x30 @ tl str
         else replicate n 0x30 @ str)
      else replicate n 0x20 @ str)"

text \<open>A dumped byte: itself when it can be printed, else \<open>\x\<close> and its sign-extended value.\<close>

definition dumped :: "bool \<Rightarrow> u8 \<Rightarrow> u8 list" where
  "dumped zp c =
     (if kc_is_printable c then [c]
      else 0x5C # 0x78 # padded (digits_text 16 (unat (scast c :: u64)) True) 2 zp)"

fun render :: "(u8 list \<Rightarrow> u8 list) \<Rightarrow> piece \<Rightarrow> va list \<Rightarrow> (u8 list \<times> va list) option" where
  "render enc (Literal c) args = Some ([c], args)"
| "render enc (Directive d fl) args =
     (let wd = fwidth fl; zp = zero_pad fl; caps = (d \<in> {0x49, 0x44, 0x55, 0x58, 0x70}) in
      if d = 0x63 then
        map_option (\<lambda>(w, args). ([ucast w], args)) (take_word args)
      else if d = 0x73 then do {
        (p, args) \<leftarrow> take_str args;
        str \<leftarrow> (case p of None \<Rightarrow> Some null_text | Some bs \<Rightarrow> cstring bs);
        Some (enc str, args)
      }
      else if d = 0x53 then do {
        (p, args) \<leftarrow> take_str args;
        case p of None \<Rightarrow> Some (enc null_text, args)
        | Some bs \<Rightarrow> if nat wd \<le> length bs then Some (concat (map (dumped zp) (take (nat wd) bs)), args) else None
      }
      else if d \<in> {0x69, 0x64, 0x49, 0x44} then
        map_option (\<lambda>(v, args). (padded (signed_text 10 v caps) wd zp, args)) (take_signed fl args)
      else if d \<in> {0x75, 0x55} then
        map_option (\<lambda>(v, args). (padded (digits_text 10 (unat v) caps) wd zp, args)) (take_unsigned fl args)
      else if d \<in> {0x78, 0x58} then
        map_option (\<lambda>(v, args). (padded (digits_text 16 (unat v) caps) wd zp, args)) (take_unsigned fl args)
      else if d = 0x70 then
        map_option (\<lambda>(v, args). (enc [0x30, 0x78] @
          padded (digits_text 16 (unat v) caps) (if wd = 0 then 16 else wd) True, args)) (take_word args)
      else if d = 0x66 then
        map_option (\<lambda>(v, args). (case v (precision fl) of None \<Rightarrow> [] | Some str \<Rightarrow> padded str wd zp, args))
          (take_double args)
      else Some ([d], args))"

fun render_all :: "(u8 list \<Rightarrow> u8 list) \<Rightarrow> piece list \<Rightarrow> va list \<Rightarrow> u8 list option" where
  "render_all enc [] args = Some []"
| "render_all enc (p # ps) args = do {
     (text, args) \<leftarrow> render enc p args;
     map_option ((@) text) (render_all enc ps args)
   }"

definition format :: "(u8 list \<Rightarrow> u8 list) \<Rightarrow> u8 list \<Rightarrow> va list \<Rightarrow> u8 list option" where
  "format enc fmt args = do { ps \<leftarrow> pieces fmt; render_all enc ps args }"

subsection \<open>A printer that keeps its promises\<close>

text \<open>
  The interface between the formatter and a printer: while the printer's state is \<open>good\<close>,
  printing succeeds, keeps it good and appends to what came \<open>out\<close>.
\<close>

locale text_printer =
  fixes P :: "'s printer" and good :: "'s \<Rightarrow> bool" and out :: "'s \<Rightarrow> u8 list"
    and enc :: "u8 list \<Rightarrow> u8 list"
  assumes putc: "good s \<Longrightarrow> \<exists>s'. putc P c s = Some s' \<and> good s' \<and> out s' = out s @ [c]"
    and puts: "good s \<Longrightarrow> \<exists>s'. puts P str s = Some s' \<and> good s' \<and> out s' = out s @ enc str"
    and after_str: "good s \<Longrightarrow> good (after_str P s) \<and> out (after_str P s) = out s"
    and after_S: "good s \<Longrightarrow> good (after_S P s) \<and> out (after_S P s) = out s"
begin

definition prints :: "('s \<Rightarrow> 's option) \<Rightarrow> u8 list \<Rightarrow> bool" where
  "prints f text \<longleftrightarrow> (\<forall>s. good s \<longrightarrow> (\<exists>s'. f s = Some s' \<and> good s' \<and> out s' = out s @ text))"

lemma prints_putc: "prints (putc P c) [c]"
  using putc by (simp add: prints_def)

lemma prints_puts: "prints (puts P str) (enc str)"
  using puts by (simp add: prints_def)

lemma prints_Some: "prints Some []"
  by (simp add: prints_def)

lemma prints_bind:
  assumes "prints f x" "prints g y"
  shows "prints (\<lambda>s. f s \<bind> g) (x @ y)"
  unfolding prints_def
proof (intro allI impI)
  fix s assume "good s"
  then obtain s1 where "f s = Some s1" "good s1" "out s1 = out s @ x"
    using assms(1) unfolding prints_def by blast
  moreover from this obtain s2 where "g s1 = Some s2" "good s2" "out s2 = out s1 @ y"
    using assms(2) unfolding prints_def by blast
  ultimately show "\<exists>s'. f s \<bind> g = Some s' \<and> good s' \<and> out s' = out s @ x @ y" by simp
qed

lemma prints_put_all: "prints (put_all P str) str"
proof (induction str)
  case Nil
  then show ?case by (simp add: prints_Some put_all.simps [abs_def])
next
  case (Cons c str)
  then show ?case using prints_bind [OF prints_putc Cons] by (simp add: put_all.simps [abs_def])
qed

lemma prints_ex_string: "prints (print_ex_string P str wd zp) (padded str wd zp)"
proof (cases "wd > int (length str)")
  case False
  then show ?thesis
    using prints_put_all [of str] by (simp add: print_ex_string_def [abs_def] padded_def)
next
  case True
  show ?thesis
  proof (cases "zp \<and> str \<noteq> [] \<and> hd str = 0x2D")
    case neg: True
    then show ?thesis
      using True prints_bind [OF prints_putc prints_bind [OF prints_put_all prints_put_all]]
      by (simp add: print_ex_string_def [abs_def] padded_def Let_def)
  next
    case False
    then show ?thesis
      using True prints_bind [OF prints_put_all
          [of "replicate (nat (wd - int (length str))) (if zp then 0x30 else 0x20)"] prints_put_all [of str]]
      by (auto simp: print_ex_string_def [abs_def] padded_def Let_def cong: if_cong)
  qed
qed

lemma prints_ex_integer:
  assumes "base = 10 \<or> base = 16"
  shows "prints (print_ex_integer P v base wd zp is_signed caps)
    (padded (if is_signed then signed_text base v caps else digits_text base (unat v) caps) wd zp)"
proof -
  have b: "10 \<le> base" "base \<le> 36" using assms by auto
  show ?thesis
    using ki64_text [OF b, of v caps] ku64_text [OF b, of v caps] prints_ex_string
    by (cases is_signed) (auto simp: print_ex_integer_def [abs_def])
qed

lemma prints_hex:
  "prints (print_ex_integer P v 16 wd zp is_signed caps) (padded (digits_text 16 (unat v) caps) wd zp)"
  using prints_ex_integer [of 16 v wd zp is_signed caps]
  by (cases is_signed) (simp_all add: signed_text_def)

lemma prints_dump:
  "n \<le> length bs \<Longrightarrow> prints (dump P n bs zp) (concat (map (dumped zp) (take n bs)))"
proof (induction n arbitrary: bs)
  case 0
  then show ?case by (simp add: prints_Some dump.simps [abs_def])
next
  case (Suc n)
  then obtain c cs where bs: "bs = c # cs" by (cases bs) auto
  have i: "prints (dump P n cs zp) (concat (map (dumped zp) (take n cs)))" using Suc by (simp add: bs)
  show ?case
  proof (cases "kc_is_printable c")
    case True
    then have "dumped zp c = [c]" by (simp add: dumped_def)
    then show ?thesis
      using True prints_bind [OF prints_putc i, of c] by (simp add: bs dump.simps [abs_def])
  next
    case False
    have "prints (\<lambda>s. putc P 0x5C s \<bind> (\<lambda>s. putc P 0x78 s \<bind>
        print_ex_integer P (scast c) 16 2 zp False True)) (dumped zp c)"
      using False prints_bind [OF prints_putc prints_bind [OF prints_putc
          prints_ex_integer [of 16 "scast c" 2 zp False True]], of "0x5C" "0x78"]
      by (simp add: dumped_def)
    from prints_bind [OF this i] show ?thesis
      using False by (simp add: bs dump.simps [abs_def])
  qed
qed

text \<open>Running a conversion: the arguments that are left and the text that came out.\<close>

definition converts :: "('s \<Rightarrow> (va list \<times> 's) option) \<Rightarrow> u8 list \<Rightarrow> va list \<Rightarrow> bool" where
  "converts f text args \<longleftrightarrow>
     (\<forall>s. good s \<longrightarrow> (\<exists>s'. f s = Some (args, s') \<and> good s' \<and> out s' = out s @ text))"

lemma converts_prints:
  "prints f text \<Longrightarrow> converts (\<lambda>s. f s \<bind> (\<lambda>s. Some (args, s))) text args"
  unfolding prints_def converts_def by fastforce

lemma converts_after:
  assumes "prints f text" "g = after_str P \<or> g = after_S P"
  shows "converts (\<lambda>s. f s \<bind> (\<lambda>s. Some (args, g s))) text args"
  using assms after_str after_S unfolding prints_def converts_def by fastforce

lemma prints_pointer:
  assumes "prints f text"
  shows "prints (\<lambda>s. puts P str s \<bind> (\<lambda>s. f (after_str P s))) (enc str @ text)"
proof -
  have "prints (\<lambda>s. f (after_str P s)) text"
    using assms after_str unfolding prints_def by fastforce
  from prints_bind [OF prints_puts this] show ?thesis .
qed

lemma conv_renders:
  assumes "render enc (Directive d fl) args = Some (text, rest)"
  shows "converts (conv P d fl args) text rest"
proof -
  let ?wd = "fwidth fl" and ?zp = "zero_pad fl"
  note r = assms [simplified render.simps Let_def]
  consider (c) "d = 0x63" | (s) "d = 0x73" | (S) "d = 0x53" | (i) "d \<in> {0x69, 0x64, 0x49, 0x44}"
    | (u) "d \<in> {0x75, 0x55}" | (x) "d \<in> {0x78, 0x58}" | (p) "d = 0x70" | (f) "d = 0x66"
    | (other) "d \<notin> {0x63, 0x73, 0x53, 0x69, 0x64, 0x49, 0x44, 0x75, 0x55, 0x78, 0x58, 0x70, 0x66}"
    by blast
  then show ?thesis
  proof cases
    case c
    then show ?thesis
      using r converts_prints [OF prints_putc] by (auto simp: conv_def [abs_def])
  next
    case s
    then obtain q args' str where "take_str args = Some (q, args')"
        "(case q of None \<Rightarrow> Some null_text | Some bs \<Rightarrow> cstring bs) = Some str"
        "text = enc str" "rest = args'"
      using r by (auto split: bind_splits)
    then show ?thesis
      using s converts_after [OF prints_puts, of "after_str P" str args'] by (simp add: conv_def [abs_def])
  next
    case S
    then obtain q args' where q: "take_str args = Some (q, args')"
      using r by (cases "take_str args") auto
    show ?thesis
    proof (cases q)
      case None
      then show ?thesis
        using S q r converts_after [OF prints_puts, of "after_S P" null_text args']
        by (simp add: conv_def [abs_def])
    next
      case (Some bs)
      then have "nat ?wd \<le> length bs" "text = concat (map (dumped ?zp) (take (nat ?wd) bs))" "rest = args'"
        using S q r by (auto split: if_splits)
      then show ?thesis
        using S q Some converts_after [OF prints_dump, of "nat ?wd" bs "after_S P" ?zp args']
        by (simp add: conv_def [abs_def])
    qed
  next
    case i
    then obtain v args' where "take_signed fl args = Some (v, args')"
        "text = padded (signed_text 10 v (d \<in> {0x49, 0x44, 0x55, 0x58, 0x70})) ?wd ?zp" "rest = args'"
      using r by auto
    then show ?thesis
      using i converts_prints [OF prints_ex_integer, of 10 v ?wd ?zp True _ args']
      by (auto simp: conv_def [abs_def])
  next
    case u
    then obtain v args' where "take_unsigned fl args = Some (v, args')"
        "text = padded (digits_text 10 (unat v) (d \<in> {0x49, 0x44, 0x55, 0x58, 0x70})) ?wd ?zp" "rest = args'"
      using r by auto
    then show ?thesis
      using u converts_prints [OF prints_ex_integer, of 10 v ?wd ?zp False _ args']
      by (auto simp: conv_def [abs_def])
  next
    case x
    then obtain v args' where "take_unsigned fl args = Some (v, args')"
        "text = padded (digits_text 16 (unat v) (d \<in> {0x49, 0x44, 0x55, 0x58, 0x70})) ?wd ?zp" "rest = args'"
      using r by auto
    then show ?thesis
      using x converts_prints [OF prints_hex, of v ?wd ?zp "hex_signed P" _ args']
      by (auto simp: conv_def [abs_def])
  next
    case p
    then obtain v args' where "take_word args = Some (v, args')" "text = enc [0x30, 0x78] @
        padded (digits_text 16 (unat v) True) (if ?wd = 0 then 16 else ?wd) True" "rest = args'"
      using r by auto
    then show ?thesis
      using p converts_prints [OF prints_pointer [OF prints_hex], of "[0x30, 0x78]" v
          "if ?wd = 0 then 16 else ?wd" True "hex_signed P" True args']
      by (auto simp: conv_def [abs_def])
  next
    case f
    then obtain v args' where "take_double args = Some (v, args')"
        "text = (case v (precision fl) of None \<Rightarrow> [] | Some str \<Rightarrow> padded str ?wd ?zp)" "rest = args'"
      using r by auto
    moreover have "prints (print_ex_float P v ?wd (precision fl) ?zp)
        (case v (precision fl) of None \<Rightarrow> [] | Some str \<Rightarrow> padded str ?wd ?zp)" for v
      by (cases "v (precision fl)")
        (simp_all add: print_ex_float_def [abs_def] prints_Some prints_ex_string)
    ultimately show ?thesis
      using f converts_prints [of "print_ex_float P v ?wd (precision fl) ?zp" _ args']
      by (simp add: conv_def [abs_def])
  next
    case other
    then show ?thesis
      using r converts_prints [OF prints_putc, of d args] by (simp add: conv_def [abs_def])
  qed
qed

lemma printf_loop_renders:
  "pieces fmt = Some ps \<Longrightarrow> render_all enc ps args = Some tx \<Longrightarrow> prints (printf_loop P fmt args) tx"
proof (induction fmt arbitrary: ps args tx rule: pieces.induct)
  case 1
  then show ?case by (simp add: prints_Some printf_loop.simps [abs_def])
next
  case (2 c fmt)
  show ?case
  proof (cases "c = 0x25")
    case False
    then obtain ps' where ps: "pieces fmt = Some ps'" "ps = Literal c # ps'" using 2(3) by auto
    then obtain tx' where t: "render_all enc ps' args = Some tx'" "tx = [c] @ tx'"
      using 2(4) by auto
    show ?thesis
      using False t(2) prints_bind [OF prints_putc 2(2) [OF False ps(1) t(1)]]
      by (simp add: printf_loop.simps [abs_def])
  next
    case True
    then obtain fl d rest ps' where f: "parse_flags fmt = (fl, d # rest)"
        "pieces rest = Some ps'" "ps = Directive d fl # ps'"
      using 2(3) by (auto split: prod.splits list.splits)
    then obtain t1 args' t2 where t: "render enc (Directive d fl) args = Some (t1, args')"
        "render_all enc ps' args' = Some t2" "tx = t1 @ t2"
      using 2(4) by (auto simp del: render.simps split: bind_splits)
    have "prints (printf_loop P rest args') t2"
      by (rule 2(1) [OF True f(1) [symmetric] _ f(2) t(2)]) simp_all
    then show ?thesis
      using conv_renders [OF t(1)] True f(1) t(3)
      unfolding prints_def converts_def by (fastforce simp: printf_loop.simps)
  qed
qed

lemma printf_renders:
  assumes "format enc fmt args = Some text" "good s"
  shows "\<exists>s'. printf_loop P fmt args s = Some s' \<and> good s' \<and> out s' = out s @ text"
  using assms printf_loop_renders unfolding prints_def format_def by (auto split: bind_splits)

end

end
