(* ===== verification/Framebuffer.thy ===== *)
theory Framebuffer
  imports KMem
begin

text \<open>
  The framebuffer of \<^verbatim>\<open>Kernel/drivers/core/framebuffer.c\<close>: pixels, rectangles, characters
  and scrolling over the byte memory of \<open>KMem\<close>. The glyphs of the font are an argument, a table
  of 16 bytes for each character. \<open>None\<close> is a write outside the mapped memory. C \<open>int\<close>
  coordinates are 32-bit words; a comparison with the unsigned width converts them to unsigned.
\<close>

datatype pyrion_color_format =
    PYRION_COLORF_RGBA
  | PYRION_COLORF_BGRA
  | PYRION_COLORF_ABGR
  | PYRION_COLORF_ARGB
  | PYRION_COLORF_RGB
  | PYRION_COLORF_BGR

record fb_cursor =
  cur_x :: u32
  cur_y :: u32
  fg_color :: u32
  bg_color :: u32
  auto_scroll :: bool

record fb_info =
  fb_addr :: u64
  fb_phys_addr :: u64
  width :: u32
  height :: u32
  pitch :: u32
  bpp :: u8
  fb_size :: u64
  cformat :: pyrion_color_format

type_synonym font = "u8 \<Rightarrow> nat \<Rightarrow> u8"

subsection \<open>Pixels and rectangles\<close>

definition swap_color :: "u32 \<Rightarrow> u32" where
  "swap_color color =
     push_bit 24 (color AND 0xFF) OR push_bit 16 (drop_bit 8 color AND 0xFF)
     OR push_bit 8 (drop_bit 16 color AND 0xFF) OR (drop_bit 24 color AND 0xFF)"

text \<open>The bytes of a 32-bit store.\<close>

definition dword_bytes :: "u32 \<Rightarrow> u8 list" where
  "dword_bytes w = [ucast w, ucast (drop_bit 8 w), ucast (drop_bit 16 w), ucast (drop_bit 24 w)]"

definition pixel_addr :: "fb_info \<Rightarrow> u32 \<Rightarrow> u32 \<Rightarrow> u64" where
  "pixel_addr fb x y = fb_addr fb + ucast (y * pitch fb) + scast (x * (ucast (bpp fb div 8)))"

definition fb_put_pixel :: "fb_info \<Rightarrow> u32 \<Rightarrow> u32 \<Rightarrow> u32 \<Rightarrow> mem \<Rightarrow> mem option" where
  "fb_put_pixel fb x y color m =
     (if x \<ge> width fb \<or> y \<ge> height fb then Some m
      else write_bytes (pixel_addr fb x y) (dword_bytes (swap_color color)) m)"

text \<open>The two loops, with the number of rounds that are left.\<close>

fun draw_row :: "fb_info \<Rightarrow> u32 \<Rightarrow> u32 \<Rightarrow> u32 \<Rightarrow> nat \<Rightarrow> mem \<Rightarrow> mem option" where
  "draw_row fb x y color 0 m = Some m"
| "draw_row fb x y color (Suc n) m = do {
     m \<leftarrow> fb_put_pixel fb x y color m;
     draw_row fb (x + 1) y color n m
   }"

fun draw_rows :: "fb_info \<Rightarrow> u32 \<Rightarrow> u32 \<Rightarrow> nat \<Rightarrow> u32 \<Rightarrow> nat \<Rightarrow> mem \<Rightarrow> mem option" where
  "draw_rows fb x y w color 0 m = Some m"
| "draw_rows fb x y w color (Suc n) m = do {
     m \<leftarrow> draw_row fb x y color w m;
     draw_rows fb x (y + 1) w color n m
   }"

definition fb_draw_rect ::
  "fb_info \<Rightarrow> u32 \<Rightarrow> u32 \<Rightarrow> u32 \<Rightarrow> u32 \<Rightarrow> u32 \<Rightarrow> mem \<Rightarrow> mem option" where
  "fb_draw_rect fb x y w h color m = draw_rows fb x y (nat (sint w)) color (nat (sint h)) m"

definition fb_clear :: "fb_info \<Rightarrow> u32 \<Rightarrow> mem \<Rightarrow> mem option" where
  "fb_clear fb color m = fb_draw_rect fb 0 0 (width fb) (height fb) color m"

definition fb_scroll_up :: "fb_info \<Rightarrow> u32 \<Rightarrow> u32 \<Rightarrow> mem \<Rightarrow> mem option" where
  "fb_scroll_up fb lines color m =
     (if lines = 0 then Some m
      else
        let scroll_pixels = lines * 16 in
        if scroll_pixels \<ge> height fb then fb_clear fb color m
        else do {
          let base = fb_addr fb;
          let move_size = ucast (height fb - scroll_pixels) * ucast (pitch fb);
          (_, m) \<leftarrow> memmove base (base + ucast scroll_pixels * ucast (pitch fb)) move_size m;
          fb_draw_rect fb 0 (height fb - scroll_pixels) (width fb) scroll_pixels color m
        })"

subsection \<open>Characters\<close>

text \<open>A row of a glyph, from bit \<open>7 - col\<close> on, and the 16 rows.\<close>

fun glyph_row :: "fb_info \<Rightarrow> fb_cursor \<Rightarrow> u8 \<Rightarrow> u32 \<Rightarrow> nat \<Rightarrow> nat \<Rightarrow> mem \<Rightarrow> mem option" where
  "glyph_row fb cur line row col 0 m = Some m"
| "glyph_row fb cur line row col (Suc n) m = do {
     let color = (if bit line (7 - col) then fg_color cur else bg_color cur);
     m \<leftarrow> fb_put_pixel fb (cur_x cur + of_nat col) (cur_y cur + row) color m;
     glyph_row fb cur line row (col + 1) n m
   }"

fun glyph_rows :: "font \<Rightarrow> fb_info \<Rightarrow> fb_cursor \<Rightarrow> u8 \<Rightarrow> nat \<Rightarrow> nat \<Rightarrow> mem \<Rightarrow> mem option" where
  "glyph_rows font fb cur c row 0 m = Some m"
| "glyph_rows font fb cur c row (Suc n) m = do {
     m \<leftarrow> glyph_row fb cur (font c row) (of_nat row) 0 8 m;
     glyph_rows font fb cur c (row + 1) n m
   }"

definition draw_glyph :: "font \<Rightarrow> fb_info \<Rightarrow> fb_cursor \<Rightarrow> u8 \<Rightarrow> mem \<Rightarrow> mem option" where
  "draw_glyph font fb cur c m = glyph_rows font fb cur c 0 16 m"

text \<open>The end of a line that has run past the bottom.\<close>

definition bottom :: "fb_info \<Rightarrow> fb_cursor \<Rightarrow> mem \<Rightarrow> (fb_cursor \<times> mem) option" where
  "bottom fb cur m =
     (if cur_y cur + 16 > height fb then
        if auto_scroll cur then do {
          m \<leftarrow> fb_scroll_up fb 1 (bg_color cur) m;
          Some (cur\<lparr>cur_y := cur_y cur - 16\<rparr>, m)
        }
        else Some (cur\<lparr>cur_y := 0\<rparr>, m)
      else Some (cur, m))"

text \<open>The default case of the switch: draw, advance, wrap.\<close>

definition print_glyph :: "font \<Rightarrow> fb_info \<Rightarrow> fb_cursor \<Rightarrow> u8 \<Rightarrow> mem \<Rightarrow> (fb_cursor \<times> mem) option" where
  "print_glyph font fb cur c m = do {
     m \<leftarrow> draw_glyph font fb cur c m;
     let cur = cur\<lparr>cur_x := cur_x cur + 8\<rparr>;
     let cur = (if cur_x cur + 8 > width fb then cur\<lparr>cur_x := 0, cur_y := cur_y cur + 16\<rparr> else cur);
     bottom fb cur m
   }"

definition fb_printc ::
  "font \<Rightarrow> fb_info \<Rightarrow> fb_cursor \<Rightarrow> u8 \<Rightarrow> mem \<Rightarrow> (fb_cursor \<times> mem) option" where
  "fb_printc font fb cur c m =
     (if sint c < 0 then Some (cur, m)
      else if c = 0x0A then bottom fb (cur\<lparr>cur_x := 0, cur_y := cur_y cur + 16\<rparr>) m
      else if c = 0x09 then do {
        (cur, m) \<leftarrow> print_glyph font fb cur 0x20 m;
        (cur, m) \<leftarrow> print_glyph font fb cur 0x20 m;
        (cur, m) \<leftarrow> print_glyph font fb cur 0x20 m;
        print_glyph font fb cur 0x20 m
      }
      else if c = 0x08 then
        if cur_x cur = 0 \<and> cur_y cur = 0 then Some (cur, m)
        else do {
          let cur = (if cur_x cur = 0 then cur\<lparr>cur_x := width fb, cur_y := cur_y cur - 16\<rparr>
            else cur\<lparr>cur_x := cur_x cur - 8\<rparr>);
          m \<leftarrow> draw_glyph font fb cur 0x20 m;
          Some (cur, m)
        }
      else print_glyph font fb cur c m)"

fun fb_print :: "font \<Rightarrow> fb_info \<Rightarrow> fb_cursor \<Rightarrow> u8 list \<Rightarrow> mem \<Rightarrow> (fb_cursor \<times> mem) option" where
  "fb_print font fb cur [] m = Some (cur, m)"
| "fb_print font fb cur (c # cs) m = do {
     (cur, m) \<leftarrow> fb_printc font fb cur c m;
     fb_print font fb cur cs m
   }"

definition fb_set_cursor :: "fb_cursor \<Rightarrow> u32 \<Rightarrow> u32 \<Rightarrow> fb_cursor" where
  "fb_set_cursor cur x y = cur\<lparr>cur_x := x, cur_y := y\<rparr>"

subsection \<open>Inside the framebuffer\<close>

text \<open>A framebuffer of 32-bit pixels whose rows do not overlap and that does not wrap around.\<close>

definition fb_bytes :: "fb_info \<Rightarrow> nat" where
  "fb_bytes fb = unat (height fb) * unat (pitch fb)"

definition fb_ok :: "fb_info \<Rightarrow> bool" where
  "fb_ok fb \<longleftrightarrow> bpp fb = 32 \<and> 4 * unat (width fb) \<le> unat (pitch fb) \<and>
     fb_bytes fb < 2 ^ 31 \<and> fb_addr fb \<noteq> 0 \<and> unat (fb_addr fb) + fb_bytes fb < 2 ^ 64"

text \<open>
  A run of an operation that stays inside: it does not fail, the framebuffer stays mapped, and
  every byte outside it keeps its value.
\<close>

definition inside :: "fb_info \<Rightarrow> mem \<Rightarrow> mem \<Rightarrow> bool" where
  "inside fb m m' \<longleftrightarrow> mapped m' (fb_addr fb) (fb_bytes fb) \<and>
     (\<forall>a. \<not> unat (a - fb_addr fb) < fb_bytes fb \<longrightarrow> m' a = m a)"

lemma inside_refl: "mapped m (fb_addr fb) (fb_bytes fb) \<Longrightarrow> inside fb m m"
  by (simp add: inside_def)

lemma inside_trans: "inside fb m m1 \<Longrightarrow> inside fb m1 m2 \<Longrightarrow> inside fb m m2"
  by (auto simp: inside_def)

lemma inside_mapped: "inside fb m m' \<Longrightarrow> mapped m' (fb_addr fb) (fb_bytes fb)"
  by (simp add: inside_def)

lemma write_bytes_inside:
  assumes "mapped m (fb_addr fb) (fb_bytes fb)" "off + length bs \<le> fb_bytes fb" "fb_bytes fb < 2 ^ 64"
  shows "\<exists>m'. write_bytes (fb_addr fb + of_nat off) bs m = Some m' \<and> inside fb m m'"
  using assms(1,2)
proof (induction bs arbitrary: m off)
  case Nil
  then show ?case by (auto intro: inside_refl)
next
  case (Cons b bs)
  let ?p = "fb_addr fb + of_nat off"
  have o: "unat (?p - fb_addr fb) = off" using Cons.prems(2) assms(3) by (simp add: unat_of_nat_u64)
  then have d: "m ?p \<noteq> None" using Cons.prems by (auto simp: mapped_def)
  let ?m = "m(?p \<mapsto> b)"
  have i: "inside fb m ?m"
    using Cons.prems o by (auto simp: inside_def)
  have "\<exists>m'. write_bytes (fb_addr fb + of_nat (off + 1)) bs ?m = Some m' \<and> inside fb ?m m'"
    using Cons.prems(2) by (intro Cons.IH inside_mapped [OF i]) simp
  then show ?case
    using i d by (auto simp: write_byte_mapped add.assoc add.commute [of 1] intro: inside_trans)
qed

text \<open>Operations on the memory alone, and those that also move the cursor.\<close>

definition stays :: "fb_info \<Rightarrow> (mem \<Rightarrow> mem option) \<Rightarrow> bool" where
  "stays fb f \<longleftrightarrow> (\<forall>m. mapped m (fb_addr fb) (fb_bytes fb) \<longrightarrow> (\<exists>m'. f m = Some m' \<and> inside fb m m'))"

definition stays_cur :: "fb_info \<Rightarrow> (mem \<Rightarrow> (fb_cursor \<times> mem) option) \<Rightarrow> bool" where
  "stays_cur fb f \<longleftrightarrow> (\<forall>m. mapped m (fb_addr fb) (fb_bytes fb) \<longrightarrow>
     (\<exists>cur m'. f m = Some (cur, m') \<and> inside fb m m'))"

lemma stays_Some: "stays fb Some" "stays_cur fb (\<lambda>m. Some (cur, m))"
  by (auto simp: stays_def stays_cur_def inside_refl)

lemma stays_bind: "stays fb f \<Longrightarrow> stays fb g \<Longrightarrow> stays fb (\<lambda>m. f m \<bind> g)"
  unfolding stays_def by (metis bind.bind_lunit inside_mapped inside_trans)

lemma stays_cur_bind:
  assumes "stays fb f" "stays_cur fb g"
  shows "stays_cur fb (\<lambda>m. f m \<bind> g)"
  unfolding stays_cur_def
proof (intro allI impI)
  fix m assume "mapped m (fb_addr fb) (fb_bytes fb)"
  then obtain m1 where 1: "f m = Some m1" "inside fb m m1"
    using assms(1) unfolding stays_def by blast
  obtain cur m2 where "g m1 = Some (cur, m2)" "inside fb m1 m2"
    using assms(2) inside_mapped [OF 1(2)] unfolding stays_cur_def by blast
  then show "\<exists>cur m'. f m \<bind> g = Some (cur, m') \<and> inside fb m m'"
    using 1 by (auto intro: inside_trans)
qed

lemma stays_cur_cur:
  assumes "stays_cur fb f" "\<And>cur. stays_cur fb (g cur)"
  shows "stays_cur fb (\<lambda>m. f m \<bind> (\<lambda>(cur, m). g cur m))"
  unfolding stays_cur_def
proof (intro allI impI)
  fix m assume "mapped m (fb_addr fb) (fb_bytes fb)"
  then obtain cur m1 where 1: "f m = Some (cur, m1)" "inside fb m m1"
    using assms(1) unfolding stays_cur_def by blast
  obtain cur' m2 where "g cur m1 = Some (cur', m2)" "inside fb m1 m2"
    using assms(2) [of cur] inside_mapped [OF 1(2)] unfolding stays_cur_def by blast
  then show "\<exists>cur m'. f m \<bind> (\<lambda>(cur, m). g cur m) = Some (cur, m') \<and> inside fb m m'"
    using 1 by (auto intro: inside_trans)
qed

lemma sint_of_nat_u32: "n < 2147483648 \<Longrightarrow> sint (of_nat n :: u32) = int n"
  by (simp add: sint_uint unsigned_of_nat take_bit_nat_eq_self signed_take_bit_int_eq_self)

lemma pixel_offset:
  assumes "fb_ok fb" "x < width fb" "y < height fb"
  shows "pixel_addr fb x y = fb_addr fb + of_nat (unat y * unat (pitch fb) + 4 * unat x)"
    and "unat y * unat (pitch fb) + 4 * unat x + 4 \<le> fb_bytes fb"
proof -
  have y: "unat y < unat (height fb)" and x: "unat x < unat (width fb)"
    using assms by (simp_all add: word_less_nat_alt)
  have "(unat y + 1) * unat (pitch fb) \<le> fb_bytes fb"
    unfolding fb_bytes_def using y by (intro mult_right_mono) auto
  then show b: "unat y * unat (pitch fb) + 4 * unat x + 4 \<le> fb_bytes fb"
    using assms(1) x by (simp add: fb_ok_def)
  have lt: "fb_bytes fb < 2147483648" using assms(1) by (simp add: fb_ok_def)
  have row: "unat (y * pitch fb) = unat y * unat (pitch fb)"
    using b lt by (simp add: unat_word_ariths)
  have col: "unat (x * 4) = 4 * unat x" using b lt by (simp add: unat_word_ariths)
  have "sint (x * 4) = int (4 * unat x)"
    using b lt sint_of_nat_u32 [of "4 * unat x"] by (simp add: mult.commute)
  then have "(scast (x * 4) :: u64) = of_nat (4 * unat x)" by (simp add: scast_eq)
  moreover have "(ucast (y * pitch fb) :: u64) = of_nat (unat y * unat (pitch fb))"
    using row by (metis of_nat_unat)
  ultimately show "pixel_addr fb x y = fb_addr fb + of_nat (unat y * unat (pitch fb) + 4 * unat x)"
    using assms(1) by (simp add: pixel_addr_def fb_ok_def)
qed

lemma put_pixel_stays: "fb_ok fb \<Longrightarrow> stays fb (fb_put_pixel fb x y color)"
  unfolding stays_def
proof (intro allI impI)
  fix m assume ok: "fb_ok fb" and m: "mapped m (fb_addr fb) (fb_bytes fb)"
  show "\<exists>m'. fb_put_pixel fb x y color m = Some m' \<and> inside fb m m'"
  proof (cases "x \<ge> width fb \<or> y \<ge> height fb")
    case True
    then show ?thesis using m by (auto simp: fb_put_pixel_def inside_refl)
  next
    case False
    then have l: "x < width fb" "y < height fb" by auto
    have b: "unat y * unat (pitch fb) + 4 * unat x + length (dword_bytes (swap_color color)) \<le> fb_bytes fb"
      using pixel_offset(2) [OF ok l] by (simp add: dword_bytes_def)
    have "fb_bytes fb < 2 ^ 64" using ok by (simp add: fb_ok_def)
    then show ?thesis
      using write_bytes_inside [OF m b] False by (simp add: fb_put_pixel_def pixel_offset(1) [OF ok l])
  qed
qed

lemma draw_row_stays: "fb_ok fb \<Longrightarrow> stays fb (draw_row fb x y color n)"
  by (induction n arbitrary: x) (simp_all add: stays_Some stays_bind put_pixel_stays draw_row.simps [abs_def])

lemma draw_rows_stays: "fb_ok fb \<Longrightarrow> stays fb (draw_rows fb x y w color n)"
  by (induction n arbitrary: y) (simp_all add: stays_Some stays_bind draw_row_stays draw_rows.simps [abs_def])

lemma draw_rect_stays: "fb_ok fb \<Longrightarrow> stays fb (fb_draw_rect fb x y w h color)"
  by (simp add: fb_draw_rect_def [abs_def] draw_rows_stays)

lemma clear_stays: "fb_ok fb \<Longrightarrow> stays fb (fb_clear fb color)"
  by (simp add: fb_clear_def [abs_def] draw_rect_stays)

lemma glyph_row_stays: "fb_ok fb \<Longrightarrow> stays fb (glyph_row fb cur line row col n)"
  by (induction n arbitrary: col)
    (simp_all add: stays_Some stays_bind put_pixel_stays glyph_row.simps [abs_def] Let_def)

lemma glyph_rows_stays: "fb_ok fb \<Longrightarrow> stays fb (glyph_rows font fb cur c row n)"
  by (induction n arbitrary: row)
    (simp_all add: stays_Some stays_bind glyph_row_stays glyph_rows.simps [abs_def])

lemma draw_glyph_stays: "fb_ok fb \<Longrightarrow> stays fb (draw_glyph font fb cur c)"
  by (simp add: draw_glyph_def [abs_def] glyph_rows_stays)

lemma scroll_stays:
  assumes "fb_ok fb"
  shows "stays fb (fb_scroll_up fb lines color)"
  unfolding stays_def
proof (intro allI impI)
  fix m assume m: "mapped m (fb_addr fb) (fb_bytes fb)"
  let ?s = "lines * 16"
  show "\<exists>m'. fb_scroll_up fb lines color m = Some m' \<and> inside fb m m'"
  proof (cases "lines = 0 \<or> ?s \<ge> height fb")
    case True
    then show ?thesis
      using m clear_stays [OF assms, of color]
      by (auto simp: fb_scroll_up_def Let_def inside_refl stays_def)
  next
    case False
    then have lt: "?s < height fb" by (simp add: not_le)
    let ?p = "unat (pitch fb)"
    let ?src = "fb_addr fb + ucast ?s * ucast (pitch fb)"
    let ?n = "ucast (height fb - ?s) * ucast (pitch fb) :: u64"
    have e: "unat ?s * ?p + (unat (height fb) - unat ?s) * ?p = fb_bytes fb"
      using lt by (simp add: fb_bytes_def word_less_nat_alt flip: add_mult_distrib)
    have ok: "fb_bytes fb < 2147483648" "fb_addr fb \<noteq> 0"
        "unat (fb_addr fb) + fb_bytes fb < 18446744073709551616"
      using assms by (simp_all add: fb_ok_def)
    have h: "unat (height fb - ?s) = unat (height fb) - unat ?s" using lt by (intro unat_sub) simp
    have n: "unat ?n = (unat (height fb) - unat ?s) * ?p"
      using e ok(1) by (simp add: unat_mult_u64 unat_ucast_u32 h)
    have off: "unat (ucast ?s * ucast (pitch fb) :: u64) = unat ?s * ?p"
      using e ok(1) by (simp add: unat_mult_u64 unat_ucast_u32)
    have src: "unat ?src = unat (fb_addr fb) + unat ?s * ?p"
      using e ok(3) by (subst unat_plus_u64) (simp_all add: off)
    have nn: "?src \<noteq> 0" using src ok(2) by (metis add_is_0 unat_0 unat_eq_zero)
    have "mapped m (fb_addr fb + of_nat (unat ?s * ?p)) (unat ?n)"
      using m by (intro mapped_drop) (simp add: n e add.commute)
    then have ms: "mapped m ?src (unat ?n)" by (simp flip: off)
    have md: "mapped m (fb_addr fb) (unat ?n)" using m e by (elim mapped_mono) (simp add: n)
    have mv: "memmove (fb_addr fb) ?src ?n m = Some (if fb_addr fb < ?src then fb_addr fb + ?n else fb_addr fb,
        copied m (fb_addr fb) ?src (unat ?n))" (is "_ = Some (_, ?m)")
      using e ok(3) by (intro memmove_copied ok(2) nn md ms) (simp_all add: src n)
    have i: "inside fb m ?m"
      using m ms e unfolding inside_def mapped_def copied_def n
      by (auto simp: n)
    obtain m' where "fb_draw_rect fb 0 (height fb - ?s) (width fb) ?s color ?m = Some m'"
        "inside fb ?m m'"
      using draw_rect_stays [OF assms] inside_mapped [OF i] unfolding stays_def by blast
    then show ?thesis
      using False mv i by (auto simp: fb_scroll_up_def Let_def intro: inside_trans)
  qed
qed

lemma stays_cur_if:
  "(P \<Longrightarrow> stays_cur fb f) \<Longrightarrow> (\<not> P \<Longrightarrow> stays_cur fb g) \<Longrightarrow>
   stays_cur fb (\<lambda>m. if P then f m else g m)"
  by (cases P) simp_all

lemma bottom_stays: "fb_ok fb \<Longrightarrow> stays_cur fb (bottom fb cur)"
  unfolding bottom_def by (intro stays_cur_if stays_cur_bind stays_Some scroll_stays)

lemma print_glyph_stays: "fb_ok fb \<Longrightarrow> stays_cur fb (print_glyph font fb cur c)"
  by (simp add: print_glyph_def [abs_def] Let_def stays_cur_bind draw_glyph_stays bottom_stays)

lemma printc_stays: "fb_ok fb \<Longrightarrow> stays_cur fb (fb_printc font fb cur c)"
  unfolding fb_printc_def Let_def
  by (intro stays_cur_if stays_cur_cur stays_cur_bind stays_Some bottom_stays print_glyph_stays
      draw_glyph_stays)

lemma print_stays: "fb_ok fb \<Longrightarrow> stays_cur fb (fb_print font fb cur cs)"
  by (induction cs arbitrary: cur)
    (simp_all add: fb_print.simps [abs_def] stays_Some stays_cur_cur printc_stays)

subsection \<open>The cursor\<close>

text \<open>A cursor at which a whole character fits on the screen.\<close>

definition on_screen :: "fb_info \<Rightarrow> fb_cursor \<Rightarrow> bool" where
  "on_screen fb cur \<longleftrightarrow> unat (cur_x cur) + 8 \<le> unat (width fb) \<and>
     unat (cur_y cur) + 16 \<le> unat (height fb)"

lemma bottom_on_screen:
  assumes "bottom fb cur m = Some (cur', m')" "unat (cur_x cur) + 8 \<le> unat (width fb)"
    and "32 \<le> unat (height fb)" "unat (cur_y cur) \<le> unat (height fb)" "unat (height fb) < 2147483648"
  shows "on_screen fb cur'"
proof -
  have p: "unat (cur_y cur + 16) = unat (cur_y cur) + 16" using assms(4,5) by (simp add: unat_word_ariths)
  show ?thesis
  proof (cases "cur_y cur + 16 > height fb")
    case True
    then have "16 \<le> unat (cur_y cur)" using p assms(3) by (simp add: word_less_nat_alt)
    then have "unat (cur_y cur - 16) = unat (cur_y cur) - 16"
      by (subst unat_sub) (simp_all add: word_le_nat_alt)
    then show ?thesis
      using assms True by (auto simp: bottom_def on_screen_def split: if_splits bind_splits)
  next
    case False
    then show ?thesis
      using assms p by (simp add: bottom_def on_screen_def word_less_nat_alt not_less)
  qed
qed

definition screen_ok :: "fb_info \<Rightarrow> bool" where
  "screen_ok fb \<longleftrightarrow> 8 \<le> unat (width fb) \<and> unat (width fb) < 2 ^ 31 \<and>
     32 \<le> unat (height fb) \<and> unat (height fb) < 2 ^ 31"

lemma print_glyph_on_screen:
  assumes "print_glyph font fb cur c m = Some (cur', m')" "on_screen fb cur" "screen_ok fb"
  shows "on_screen fb cur'"
proof -
  have p: "unat (cur_x cur + 8) = unat (cur_x cur) + 8" "unat (cur_x cur + 16) = unat (cur_x cur) + 16"
      "unat (cur_y cur + 16) = unat (cur_y cur) + 16"
    using assms(2,3) by (simp_all add: on_screen_def screen_ok_def unat_word_ariths)
  obtain m1 where m1: "draw_glyph font fb cur c m = Some m1"
    using assms(1) by (auto simp: print_glyph_def split: bind_splits)
  let ?cur = "if cur_x cur + 16 > width fb
    then cur\<lparr>cur_x := 0, cur_y := cur_y cur + 16\<rparr> else cur\<lparr>cur_x := cur_x cur + 8\<rparr>"
  have "bottom fb ?cur m1 = Some (cur', m')"
    using assms(1) m1 by (simp add: print_glyph_def Let_def add.commute cong: if_cong)
  then show ?thesis
    by (rule bottom_on_screen) (use assms(2,3) p in
      \<open>auto simp: on_screen_def screen_ok_def word_less_nat_alt not_less\<close>)
qed

lemma printc_on_screen:
  assumes "fb_printc font fb cur c m = Some (cur', m')" "c \<noteq> 0x08" "on_screen fb cur" "screen_ok fb"
  shows "on_screen fb cur'"
proof -
  have p: "unat (cur_y cur + 16) = unat (cur_y cur) + 16"
    using assms(3,4) by (simp add: on_screen_def screen_ok_def unat_word_ariths)
  consider "sint c < 0" | "c = 0x0A" | "c = 0x09" | "c \<noteq> 0x0A" "c \<noteq> 0x09" "\<not> sint c < 0" by blast
  then show ?thesis
  proof cases
    case 1
    then show ?thesis using assms by (simp add: fb_printc_def)
  next
    case 2
    then have "bottom fb (cur\<lparr>cur_x := 0, cur_y := cur_y cur + 16\<rparr>) m = Some (cur', m')"
      using assms(1) by (simp add: fb_printc_def)
    then show ?thesis
      by (rule bottom_on_screen) (use assms(3,4) p in \<open>auto simp: on_screen_def screen_ok_def\<close>)
  next
    case 3
    then show ?thesis
      using assms by (auto simp: fb_printc_def split: bind_splits dest!: print_glyph_on_screen)
  next
    case 4
    then show ?thesis
      using assms by (auto simp: fb_printc_def dest!: print_glyph_on_screen)
  qed
qed

lemma print_on_screen:
  "fb_print font fb cur cs m = Some (cur', m') \<Longrightarrow> 0x08 \<notin> set cs \<Longrightarrow> on_screen fb cur \<Longrightarrow>
   screen_ok fb \<Longrightarrow> on_screen fb cur'"
proof (induction cs arbitrary: cur m)
  case (Cons c cs)
  then show ?case by (auto split: bind_splits dest: printc_on_screen)
qed simp

text \<open>C18: printing any text on a 32-bit framebuffer that is mapped succeeds and changes no byte outside
  the framebuffer, scrolling included; and a text without a backspace leaves the cursor where a
  whole character fits on the screen when it was there before.
\<close>

theorem fb_print_inside:
  assumes "fb_ok fb" "mapped m (fb_addr fb) (fb_bytes fb)"
  shows "\<exists>cur' m'. fb_print font fb cur cs m = Some (cur', m') \<and>
    (\<forall>a. \<not> unat (a - fb_addr fb) < fb_bytes fb \<longrightarrow> m' a = m a) \<and>
    (0x08 \<notin> set cs \<and> on_screen fb cur \<and> screen_ok fb \<longrightarrow> on_screen fb cur')"
proof -
  obtain cur' m' where "fb_print font fb cur cs m = Some (cur', m')" "inside fb m m'"
    using print_stays [OF assms(1)] assms(2) unfolding stays_cur_def by blast
  then show ?thesis using print_on_screen unfolding inside_def by blast
qed

text \<open>
  A backspace at the start of a line leaves the cursor past the last column, where nothing is
  drawn: no character is erased.
\<close>

lemma draw_glyph_right_of_screen:
  assumes "cur_x cur = width fb" "unat (width fb) < 2147483648"
  shows "draw_glyph font fb cur c m = Some m"
proof -
  have "cur_x cur + of_nat k \<ge> width fb" if "k < 16" for k
    using assms that by (simp add: word_le_nat_alt unat_word_ariths unat_of_nat take_bit_nat_eq_self)
  then have "glyph_row fb cur line row k n m = Some m" if "k + n \<le> 16" for line row k n m
    using that by (induction n arbitrary: k) (simp_all add: fb_put_pixel_def)
  then have "glyph_rows font fb cur c row n m = Some m" for row n
    by (induction n arbitrary: row) simp_all
  then show ?thesis by (simp add: draw_glyph_def)
qed

lemma backspace_at_line_start:
  assumes "cur_x cur = 0" "cur_y cur \<noteq> 0" "unat (width fb) < 2147483648"
  shows "fb_printc font fb cur 0x08 m =
    Some (cur\<lparr>cur_x := width fb, cur_y := cur_y cur - 16\<rparr>, m)"
  using assms draw_glyph_right_of_screen [of "cur\<lparr>cur_x := width fb, cur_y := cur_y cur - 16\<rparr>" fb]
  by (simp add: fb_printc_def)

definition sample_fb :: fb_info where
  "sample_fb = \<lparr>fb_addr = 0x10000, fb_phys_addr = 0x10000, width = 640, height = 480, pitch = 2560,
     bpp = 32, fb_size = 0x12C000, cformat = PYRION_COLORF_RGBA\<rparr>"

lemma fb_print_inside_witness:
  "\<exists>cur' m'. fb_print (\<lambda>c row. c) sample_fb
      \<lparr>cur_x = 632, cur_y = 464, fg_color = 0xFFFFFFFF, bg_color = 0, auto_scroll = True\<rparr>
      [0x41, 0x0A, 0x09] (\<lambda>_. Some 0) = Some (cur', m') \<and>
    (\<forall>a. \<not> unat (a - 0x10000) < 1228800 \<longrightarrow> m' a = Some 0) \<and> on_screen sample_fb cur'"
proof -
  have "fb_ok sample_fb" "screen_ok sample_fb" and a: "fb_addr sample_fb = 0x10000"
    and b: "fb_bytes sample_fb = 1228800"
    by (simp_all add: fb_ok_def screen_ok_def sample_fb_def fb_bytes_def)
  moreover have "on_screen sample_fb
      \<lparr>cur_x = 632, cur_y = 464, fg_color = 0xFFFFFFFF, bg_color = 0, auto_scroll = True\<rparr>"
    by (simp add: on_screen_def sample_fb_def)
  moreover have "mapped (\<lambda>_. Some 0) (fb_addr sample_fb) (fb_bytes sample_fb)" by (simp add: mapped_def)
  ultimately show ?thesis
    using fb_print_inside [of sample_fb "\<lambda>_. Some 0" "\<lambda>c row. c"
        "\<lparr>cur_x = 632, cur_y = 464, fg_color = 0xFFFFFFFF, bg_color = 0, auto_scroll = True\<rparr>"
        "[0x41, 0x0A, 0x09]"]
    by (simp only: a b) simp
qed

end
