(* ===== verification/Serial.thy ===== *)
theory Serial
  imports Pager IoPorts Printf Framebuffer
begin

text \<open>
  The serial port and the kernel log of \<^verbatim>\<open>Kernel/drivers/io/io.c\<close>. The static variables of
  that file are the record \<open>io_state\<close>, together with the byte memory, the trace of port accesses
  and the state of the memory manager; what does not change is the record \<open>io_env\<close>. The locks are
  taken and released on every path and are left out. \<open>None\<close> is a write to memory that is not
  mapped, a wait that never ends, or no result of the memory manager.
\<close>

record io_env =
  dev :: device
  preklog :: u64
  fresh :: "u64 \<Rightarrow> u8"
  font8x16 :: font

record io_state =
  io_mem :: mem
  ports :: trace
  heap :: pstate
  serial_present :: bool
  klog :: u64
  klog_cap :: u64
  klog_end :: u64
  klog_pos :: u64
  klog_present :: bool
  klog_msg_started :: bool
  vmem_active :: bool
  MAX_COLS :: u64
  MAX_ROWS :: u64
  IO_VMEM_true :: u64
  vmem_mode :: u8
  vmem_fbi :: fb_info

subsection \<open>Ports and memory of the state\<close>

definition outb :: "u16 \<Rightarrow> u8 \<Rightarrow> io_state \<Rightarrow> io_state" where
  "outb port v s = s\<lparr>ports := asm_outb port v (ports s)\<rparr>"

definition inb :: "io_env \<Rightarrow> u16 \<Rightarrow> io_state \<Rightarrow> u8 \<times> io_state" where
  "inb e port s = (let (v, t) = asm_inb (dev e) port (ports s) in (v, s\<lparr>ports := t\<rparr>))"

definition store_bytes :: "u64 \<Rightarrow> u8 list \<Rightarrow> io_state \<Rightarrow> io_state option" where
  "store_bytes a bs s = do { m \<leftarrow> write_bytes a bs (io_mem s); Some (s\<lparr>io_mem := m\<rparr>) }"

definition copy_mem :: "u64 \<Rightarrow> u64 \<Rightarrow> u64 \<Rightarrow> io_state \<Rightarrow> io_state option" where
  "copy_mem dest src n s = do { (_, m) \<leftarrow> memcpy dest src n (io_mem s); Some (s\<lparr>io_mem := m\<rparr>) }"

text \<open>
  Memory from the manager: the pages of the allocation are mapped and hold whatever they hold.
\<close>

definition map_fresh :: "(u64 \<Rightarrow> u8) \<Rightarrow> u64 \<Rightarrow> nat \<Rightarrow> mem \<Rightarrow> mem" where
  "map_fresh junk a n m = (\<lambda>x. if unat (x - a) < n then Some (junk x) else m x)"

definition kalloc :: "io_env \<Rightarrow> u64 \<Rightarrow> io_state \<Rightarrow> (u64 \<times> io_state) option" where
  "kalloc e sz s = do {
     (v, _, h) \<leftarrow> avmf_alloc pager_map sz MALLOC_TYPE_KERNEL AVMF_FLAG_RW (heap s);
     let s = s\<lparr>heap := h\<rparr>;
     Some (v, if v = NULL then s
       else s\<lparr>io_mem := map_fresh (fresh e) v (unat (align4k sz)) (io_mem s)\<rparr>)
   }"

text \<open>
  \<open>avmf_free\<close> unmaps the pages of the allocation that it finds for the address, from the start
  of that allocation on, when the pager's tables are the ones in use. Their bytes are gone: a
  later access faults.
\<close>

definition freed_block :: "u64 \<Rightarrow> pstate \<Rightarrow> (u64 \<times> nat) option" where
  "freed_block virt h =
     (if virt = 0 \<or> \<not> mapped_pml4 h then None
      else do {
        ro \<leftarrow> avmf_find_region virt UINT64_MAX (virt + 1) h;
        i \<leftarrow> ro;
        p \<leftarrow> find_alloc virt (alloc_list (regions h ! i)) (headers h);
        hd \<leftarrow> (if p = NULL then None else headers h p);
        Some (virt_addr hd, unat (h_size hd div PAGE_SIZE) * 4096)
      })"

fun in_block :: "(u64 \<times> nat) option \<Rightarrow> u64 \<Rightarrow> bool" where
  "in_block None a = False"
| "in_block (Some (v, n)) a = (unat (a - v) < n)"

definition unmap_block :: "(u64 \<times> nat) option \<Rightarrow> mem \<Rightarrow> mem" where
  "unmap_block b m = (\<lambda>a. if in_block b a then None else m a)"

definition kfree_pages :: "u64 \<Rightarrow> io_state \<Rightarrow> io_state option" where
  "kfree_pages a s = do {
     h \<leftarrow> avmf_free pager_map pager_unmap a (heap s);
     Some (s\<lparr>heap := h, io_mem := unmap_block (freed_block a (heap s)) (io_mem s)\<rparr>)
   }"

subsection \<open>The kernel log\<close>

definition klog_realloc :: "io_env \<Rightarrow> io_state \<Rightarrow> (bool \<times> io_state) option" where
  "klog_realloc e s =
     (if klog s = preklog e then Some (False, s)
      else if klog_cap s - klog_pos s \<ge> 32 then Some (True, s)
      else do {
        let sz = klog_cap s;
        (nptr, s) \<leftarrow> kalloc e (sz + 1024) s;
        if nptr = NULL then Some (False, s)
        else do {
          s \<leftarrow> copy_mem nptr (klog s) (klog_end s) s;
          s \<leftarrow> kfree_pages (klog s) s;
          Some (True, s\<lparr>klog := nptr, klog_cap := sz + 1024\<rparr>)
        }
      })"

text \<open>The decimal digits of the timestamp, least significant first.\<close>

function stamp_digits :: "u64 \<Rightarrow> u8 list" where
  "stamp_digits val =
     (0x30 + ucast (val mod 10)) # (if val div 10 > 0 then stamp_digits (val div 10) else [])"
  by pat_completeness auto
termination
  by (relation "measure unat") (auto simp: unat_div_distrib word_less_nat_alt)

declare stamp_digits.simps [simp del]

text \<open>One byte at the position of the log, which moves on.\<close>

definition klog_put :: "u8 \<Rightarrow> io_state \<Rightarrow> io_state option" where
  "klog_put c s = do {
     m \<leftarrow> write_byte (klog s + klog_pos s) c (io_mem s);
     Some (s\<lparr>io_mem := m, klog_pos := klog_pos s + 1\<rparr>)
   }"

fun klog_puts :: "u8 list \<Rightarrow> io_state \<Rightarrow> io_state option" where
  "klog_puts [] s = Some s"
| "klog_puts (c # cs) s = do { s \<leftarrow> klog_put c s; klog_puts cs s }"

text \<open>The eight bytes copied from \<open>"[AOS - "\<close> include its terminator.\<close>

definition klog_prefix :: "u8 list" where
  "klog_prefix = [0x5B, 0x41, 0x4F, 0x53, 0x20, 0x2D, 0x20, 0x00]"

definition klog_header :: "io_env \<Rightarrow> io_state \<Rightarrow> io_state option" where
  "klog_header e s = do {
     s \<leftarrow> klog_puts klog_prefix s;
     let val = kget_timestamp_seconds (tsc (dev e) (ports s)) (timer (dev e));
     let s = s\<lparr>ports := read_tsc (dev e) (ports s)\<rparr>;
     let buf = stamp_digits val;
     s \<leftarrow> klog_puts (replicate (10 - length buf) 0x30) s;
     s \<leftarrow> klog_puts (rev buf) s;
     s \<leftarrow> klog_puts [0x5D, 0x20] s;
     Some (s\<lparr>klog_msg_started := True\<rparr>)
   }"

definition klog_printc :: "io_env \<Rightarrow> u8 \<Rightarrow> io_state \<Rightarrow> io_state option" where
  "klog_printc e c s =
     (if klog s = NULL then Some s
      else do {
        (room, s) \<leftarrow> (if klog_pos s + 32 \<ge> klog_cap s then klog_realloc e s else Some (True, s));
        if \<not> room then Some s
        else do {
          s \<leftarrow> (if \<not> klog_msg_started s then klog_header e s else Some s);
          s \<leftarrow> klog_put c s;
          Some (if klog_end s < klog_pos s then s\<lparr>klog_end := klog_pos s\<rparr> else s)
        }
      })"

subsection \<open>The port\<close>

definition SERIAL_PORT :: u16 where "SERIAL_PORT = 0x3F8"
definition SERIAL_SCRATCH_PORT :: u16 where "SERIAL_SCRATCH_PORT = SERIAL_PORT + 7"

definition serial_init :: "io_env \<Rightarrow> bool \<Rightarrow> io_state \<Rightarrow> io_state" where
  "serial_init e pre_init s =
     (let s = outb (SERIAL_PORT + 1) 0x00 s;
          s = outb (SERIAL_PORT + 3) 0x80 s;
          s = outb (SERIAL_PORT + 0) 0x03 s;
          s = outb (SERIAL_PORT + 1) 0x00 s;
          s = outb (SERIAL_PORT + 3) 0x03 s;
          s = outb (SERIAL_PORT + 2) 0xC7 s;
          s = outb (SERIAL_PORT + 4) 0x0B s;
          s = outb SERIAL_SCRATCH_PORT 0xAE s;
          (v, s) = inb e SERIAL_SCRATCH_PORT s;
          s = s\<lparr>serial_present := (v = 0xAE), klog := preklog e, klog_msg_started := False,
            klog_cap := 0x1000\<rparr>
      in if pre_init then s\<lparr>klog_pos := 0, klog_end := 0\<rparr> else s)"

definition serial_is_transmit_empty :: "io_env \<Rightarrow> io_state \<Rightarrow> bool \<times> io_state" where
  "serial_is_transmit_empty e s = (let (v, s) = inb e (SERIAL_PORT + 5) s in (v AND 0x20 \<noteq> 0, s))"

partial_function (option) wait_transmit_empty :: "io_env \<Rightarrow> io_state \<Rightarrow> io_state option" where
  "wait_transmit_empty e s =
     (let (empty, s) = serial_is_transmit_empty e s in
      if empty then Some s else wait_transmit_empty e s)"

definition serial_printc :: "io_env \<Rightarrow> u8 \<Rightarrow> io_state \<Rightarrow> io_state option" where
  "serial_printc e c s = do {
     s \<leftarrow> (if serial_present s then do {
         s \<leftarrow> wait_transmit_empty e s;
         Some (outb SERIAL_PORT c s)
       } else Some s);
     klog_printc e c s
   }"

fun serial_chars :: "io_env \<Rightarrow> u8 list \<Rightarrow> io_state \<Rightarrow> io_state option" where
  "serial_chars e [] s = Some s"
| "serial_chars e (c # cs) s = do {
     s \<leftarrow> (if c = 0x0A then serial_printc e 0x0D s else Some s);
     s \<leftarrow> serial_printc e c s;
     serial_chars e cs s
   }"

definition serial_print :: "io_env \<Rightarrow> u8 list \<Rightarrow> io_state \<Rightarrow> io_state option" where
  "serial_print e str s = do {
     s \<leftarrow> serial_chars e str s;
     Some (s\<lparr>klog_msg_started := False\<rparr>)
   }"

text \<open>\<open>serial_printf\<close> is the formatter over the port.\<close>

definition serial_printer :: "io_env \<Rightarrow> io_state printer" where
  "serial_printer e =
     \<lparr>putc = serial_printc e, puts = serial_print e,
      after_str = (\<lambda>s. s\<lparr>klog_msg_started := True\<rparr>),
      after_S = (\<lambda>s. s\<lparr>klog_msg_started := True\<rparr>), hex_signed = True\<rparr>"

definition serial_printf :: "io_env \<Rightarrow> u8 list \<Rightarrow> va list \<Rightarrow> io_state \<Rightarrow> io_state option" where
  "serial_printf e fmt args s = do {
     s \<leftarrow> printf_loop (serial_printer e) fmt args s;
     Some (s\<lparr>klog_msg_started := False\<rparr>)
   }"

subsection \<open>The log in a file\<close>

text \<open>
  The file system of the PBFS submodule is a parameter: whether each call succeeds and what it
  stores. A log is written with \<open>pbfs_update_file\<close> or \<open>pbfs_add\<close>.
\<close>

record pbfs =
  pbfs_get_file_size :: "u8 list \<Rightarrow> bool \<times> u64"
  pbfs_read_file :: "u8 list \<Rightarrow> u64 \<Rightarrow> bool \<times> u8 list \<times> u64"

datatype pbfs_write =
    Update_file "u8 list" "u8 list"
  | Add_file "u8 list" "u8 list"

fun read_mem :: "mem \<Rightarrow> u64 \<Rightarrow> nat \<Rightarrow> u8 list option" where
  "read_mem m a 0 = Some []"
| "read_mem m a (Suc n) = do { b \<leftarrow> m a; bs \<leftarrow> read_mem m (a + 1) n; Some (b # bs) }"

definition serial_init_klog ::
  "io_env \<Rightarrow> u8 list \<Rightarrow> pbfs option \<Rightarrow> io_state \<Rightarrow> io_state option" where
  "serial_init_klog e path mnt s =
     (case mnt of None \<Rightarrow> Some s
      | Some fs \<Rightarrow> do {
          let preklog_present = klog_end s > 0;
          let s = s\<lparr>klog_present := False\<rparr>;
          let (found, sz) = pbfs_get_file_size fs path;
          (data, sz, s) \<leftarrow> (if found \<and> sz > 0 then do {
              (data, s) \<leftarrow> kalloc e sz s;
              if data = NULL then Some (NULL, sz, s)
              else do {
                let (ok, content, sz') = pbfs_read_file fs path sz;
                s \<leftarrow> store_bytes data content s;
                Some (data, sz', if ok then s\<lparr>klog_present := True\<rparr> else s)
              }
            } else Some (NULL, sz, s));
          (p, s) \<leftarrow> kalloc e (sz + klog_end s + 4096) s;
          let s = s\<lparr>klog := p\<rparr>;
          if p = NULL then (if data \<noteq> NULL then kfree_pages data s else Some s)
          else do {
            s \<leftarrow> (if preklog_present then copy_mem (klog s) (preklog e) (klog_end s) s else Some s);
            s \<leftarrow> (if data \<noteq> NULL \<and> sz > 0 then copy_mem (klog s + klog_end s) data sz s else Some s);
            let s = s\<lparr>klog_pos := sz + klog_end s, klog_cap := sz + 4096 + klog_end s\<rparr>;
            let s = s\<lparr>klog_end := sz + klog_end s\<rparr>;
            if data \<noteq> NULL then kfree_pages data s else Some s
          }
        })"

text \<open>What is written to the file, if anything.\<close>

definition klog_write :: "u8 list \<Rightarrow> io_state \<Rightarrow> pbfs_write option" where
  "klog_write path s = do {
     bs \<leftarrow> read_mem (io_mem s) (klog s) (unat (klog_end s));
     Some (if klog_present s then Update_file path bs else Add_file path bs)
   }"

definition serial_flush_klog :: "u8 list \<Rightarrow> io_state \<Rightarrow> pbfs_write list option" where
  "serial_flush_klog path s =
     (if klog s = NULL \<or> klog_end s = 0 then Some []
      else do { w \<leftarrow> klog_write path s; Some [w] })"

definition serial_deinit_klog ::
  "io_env \<Rightarrow> u8 list \<Rightarrow> io_state \<Rightarrow> (pbfs_write list \<times> io_state) option" where
  "serial_deinit_klog e path s =
     (if klog s = NULL then Some ([], s)
      else do {
        ws \<leftarrow> (if klog_end s = 0 then Some [] else do { w \<leftarrow> klog_write path s; Some [w] });
        let written = (klog_end s \<noteq> 0);
        s \<leftarrow> (if klog s \<noteq> preklog e then kfree_pages (klog s) s else Some s);
        let s = s\<lparr>klog := NULL, klog_end := 0, klog_pos := 0, klog_cap := 0\<rparr>;
        Some (ws, if written then s\<lparr>klog_present := True\<rparr> else s)
      })"

subsection \<open>The log stays in its memory\<close>

lemma stamp_digit:
  assumes "d < 10" shows "(0x30 + ucast (of_nat d :: u64) :: u8) = digit_char (of_nat d) False"
proof -
  have "\<forall>d \<in> set [0..<10]. (0x30 + ucast (of_nat d :: u64) :: u8) = digit_char (of_nat d) False"
    by (simp add: upt_rec digit_char_def del: upt_Suc)
  then show ?thesis using assms by (simp del: upt_Suc)
qed

lemma stamp_digits_eq: "stamp_digits v = digit_chars 10 (unat v) False"
proof (induction v rule: stamp_digits.induct)
  case (1 v)
  have u: "unat (v div 10) = unat v div 10" by (simp add: unat_div_distrib)
  have "v mod 10 = of_nat (unat v mod 10)" using word_arith_nat_mod [of v 10] by simp
  then have d: "(0x30 + ucast (v mod 10) :: u8) = digit_char (of_nat (unat v mod 10)) False"
    by (simp only: stamp_digit)
  have z: "v div 10 > 0 \<longleftrightarrow> unat v div 10 \<noteq> 0"
    using u by (simp add: word_greater_zero_iff flip: unat_eq_zero)
  show ?case
    using 1 z by (simp add: stamp_digits.simps [of v] num_digits.simps [of 10 "unat v"] d u)
qed

definition log_text :: "io_state \<Rightarrow> u8 list" where
  "log_text s = map (\<lambda>k. the (io_mem s (klog s + of_nat k))) [0..<unat (klog_pos s)]"

text \<open>The log's memory is mapped and the position is in it.\<close>

definition log_wf :: "io_state \<Rightarrow> bool" where
  "log_wf s \<longleftrightarrow> klog s \<noteq> NULL \<and> mapped (io_mem s) (klog s) (unat (klog_cap s)) \<and>
     klog_pos s \<le> klog_cap s \<and> unat (klog_cap s) + 32 < 2 ^ 64"

text \<open>The state with bytes appended to the log.\<close>

definition logged :: "u8 list \<Rightarrow> io_state \<Rightarrow> io_state" where
  "logged bs s = s\<lparr>io_mem := stored (io_mem s) (klog s + klog_pos s) bs,
     klog_pos := klog_pos s + of_nat (length bs)\<rparr>"

lemma logged_append: "logged (xs @ ys) s = logged ys (logged xs s)"
  by (simp add: logged_def stored_append add.assoc)

lemma logged_simps [simp]:
  "klog (logged bs s) = klog s" "klog_cap (logged bs s) = klog_cap s" "klog_end (logged bs s) = klog_end s"
  "ports (logged bs s) = ports s" "klog_msg_started (logged bs s) = klog_msg_started s"
  "serial_present (logged bs s) = serial_present s"
  "klog_pos (logged bs s) = klog_pos s + of_nat (length bs)"
  by (simp_all add: logged_def)

lemma klog_puts_stored:
  assumes "mapped (io_mem s) (klog s) n" "unat (klog_pos s) + length bs \<le> n" "n < 2 ^ 64"
  shows "klog_puts bs s = Some (logged bs s)"
  unfolding logged_def using assms(1,2)
proof (induction bs arbitrary: s)
  case (Cons b bs)
  have p: "unat (klog_pos s + 1) = unat (klog_pos s) + 1"
    using Cons.prems(2) assms(3) by (subst unat_plus_u64) simp_all
  have m: "io_mem s (klog s + klog_pos s) \<noteq> None"
    using mapped_nth [OF Cons.prems(1), of "unat (klog_pos s)"] Cons.prems(2) by auto
  let ?s = "s\<lparr>io_mem := (io_mem s)(klog s + klog_pos s \<mapsto> b), klog_pos := klog_pos s + 1\<rparr>"
  have "klog_put b s = Some ?s" using m by (simp add: klog_put_def write_byte_mapped)
  moreover have "klog_puts bs ?s = Some (?s\<lparr>io_mem := stored (io_mem ?s) (klog ?s + klog_pos ?s) bs,
      klog_pos := klog_pos ?s + of_nat (length bs)\<rparr>)"
    using Cons.prems p by (intro Cons.IH) (simp_all del: fun_upd_apply)
  ultimately show ?case by (simp add: add.assoc)
qed simp

lemma log_text_stored:
  assumes "unat (klog_pos s) + length bs < 2 ^ 64"
  shows "log_text (logged bs s) = log_text s @ bs"
  unfolding logged_def
proof (rule nth_equalityI)
  let ?s = "s\<lparr>io_mem := stored (io_mem s) (klog s + klog_pos s) bs,
    klog_pos := klog_pos s + of_nat (length bs)\<rparr>"
  have p: "unat (klog_pos s + of_nat (length bs)) = unat (klog_pos s) + length bs"
    using assms by (subst unat_plus_u64) (simp_all add: unat_of_nat_u64)
  then show l: "length (log_text ?s) = length (log_text s @ bs)" by (simp add: log_text_def)
  fix k assume "k < length (log_text ?s)"
  then have k: "k < unat (klog_pos s) + length bs" by (simp add: log_text_def p)
  have d: "klog s + of_nat k - (klog s + klog_pos s) = of_nat k - klog_pos s" by simp
  have n: "unat (of_nat k :: u64) = k" using k assms by (simp add: unat_of_nat_u64)
  have e: "log_text ?s ! k = the (stored (io_mem s) (klog s + klog_pos s) bs (klog s + of_nat k))"
    using k by (simp add: log_text_def p)
  show "log_text ?s ! k = (log_text s @ bs) ! k"
  proof (cases "k < unat (klog_pos s)")
    case True
    have "unat (of_nat k - klog_pos s) = 2 ^ 64 - (unat (klog_pos s) - k)"
      using True u64_lt [of "klog_pos s"] by (simp add: unat_sub_if_size word_size n)
    then have "\<not> unat (of_nat k - klog_pos s) < length bs" using assms by linarith
    then have "log_text ?s ! k = the (io_mem s (klog s + of_nat k))"
      using assms by (simp add: e stored_apply d)
    then show ?thesis using True by (simp only: nth_append) (simp add: log_text_def)
  next
    case False
    then have "unat (of_nat k - klog_pos s) = k - unat (klog_pos s)"
      by (subst unat_sub) (simp_all add: word_le_nat_alt n)
    moreover have "k - unat (klog_pos s) < length bs" using False k by linarith
    ultimately have "log_text ?s ! k = bs ! (k - unat (klog_pos s))"
      using assms by (simp add: e stored_apply d)
    then show ?thesis using False by (simp only: nth_append) (simp add: log_text_def)
  qed
qed

text \<open>What a log entry begins with, and what \<open>klog_printc\<close> appends.\<close>

definition header_text :: "io_env \<Rightarrow> io_state \<Rightarrow> u8 list" where
  "header_text e s =
     (let stamp = digits_text 10 (unat (kget_timestamp_seconds (tsc (dev e) (ports s)) (timer (dev e)))) False
      in klog_prefix @ replicate (10 - length stamp) 0x30 @ stamp @ [0x5D, 0x20])"

definition appended :: "io_env \<Rightarrow> u8 \<Rightarrow> io_state \<Rightarrow> u8 list" where
  "appended e c s = (if klog_msg_started s then [] else header_text e s) @ [c]"

lemma length_appended: "length (appended e c s) \<le> 31"
proof -
  let ?t = "kget_timestamp_seconds (tsc (dev e) (ports s)) (timer (dev e))"
  have "length (digits_text 10 (unat ?t) False) \<le> 20"
    using length_digits_text [of 10 ?t] by (simp add: digits_text_def)
  then have "10 - length (digits_text 10 (unat ?t) False) + length (digits_text 10 (unat ?t) False) \<le> 20"
    by arith
  then show ?thesis by (simp add: appended_def header_text_def klog_prefix_def Let_def)
qed

text \<open>There are \<open>n\<close> bytes left in the log.\<close>

definition room :: "nat \<Rightarrow> io_state \<Rightarrow> bool" where
  "room n s \<longleftrightarrow> mapped (io_mem s) (klog s) (unat (klog_cap s)) \<and>
     unat (klog_pos s) + n \<le> unat (klog_cap s)"

lemma klog_puts_room:
  assumes "room n s" "length bs \<le> n"
  shows "klog_puts bs s = Some (logged bs s)" "room (n - length bs) (logged bs s)"
proof -
  have r: "mapped (io_mem s) (klog s) (unat (klog_cap s))" "unat (klog_pos s) + n \<le> unat (klog_cap s)"
    using assms(1) by (simp_all add: room_def)
  show "klog_puts bs s = Some (logged bs s)"
    by (rule klog_puts_stored [OF r(1)]) (use r(2) assms(2) u64_lt [of "klog_cap s"] in simp_all)
  have "unat (klog_pos s + of_nat (length bs)) = unat (klog_pos s) + length bs"
    using r(2) assms(2) u64_lt [of "klog_cap s"]
    by (subst unat_plus_u64) (simp_all add: unat_of_nat_u64)
  then show "room (n - length bs) (logged bs s)"
    using r assms(2) by (simp add: room_def) (simp add: logged_def mapped_stored)
qed

lemma logged_ports: "logged bs (s\<lparr>ports := t\<rparr>) = (logged bs s)\<lparr>ports := t\<rparr>"
  "logged bs (s\<lparr>ports := t, klog_msg_started := b\<rparr>) = (logged bs s)\<lparr>ports := t, klog_msg_started := b\<rparr>"
  by (simp_all add: logged_def)

lemma room_ports [simp]: "room n (s\<lparr>ports := t\<rparr>) = room n s"
  "room n (s\<lparr>ports := t, klog_msg_started := b\<rparr>) = room n s"
  by (simp_all add: room_def)

lemma room_mono: "room n s \<Longrightarrow> k \<le> n \<Longrightarrow> room k s"
  by (simp add: room_def)

lemma klog_header_logged:
  assumes "room 31 s"
  shows "klog_header e s =
    Some ((logged (header_text e s) s)\<lparr>ports := read_tsc (dev e) (ports s), klog_msg_started := True\<rparr>)"
proof -
  let ?val = "kget_timestamp_seconds (tsc (dev e) (ports s)) (timer (dev e))"
  let ?buf = "stamp_digits ?val"
  let ?pad = "replicate (10 - length ?buf) (0x30 :: u8)"
  let ?t = "read_tsc (dev e) (ports s)"
  have stamp: "digits_text 10 (unat ?val) False = rev ?buf"
    by (simp add: digits_text_def stamp_digits_eq)
  have l: "length klog_prefix = 8" "length ?buf \<le> 20"
    using length_digits_text [of 10 ?val] by (simp_all add: klog_prefix_def stamp_digits_eq)
  let ?s1 = "logged klog_prefix s" and ?s2 = "logged (klog_prefix @ ?pad) s"
  let ?s3 = "logged (klog_prefix @ ?pad @ rev ?buf) s"
  have p1: "klog_puts klog_prefix s = Some ?s1" "room 23 ?s1"
    using klog_puts_room [OF assms, of klog_prefix] l by simp_all
  have p2: "klog_puts ?pad (?s1\<lparr>ports := ?t\<rparr>) = Some (?s2\<lparr>ports := ?t\<rparr>)" "room (23 - length ?pad) ?s2"
    using klog_puts_room [of 23 "?s1\<lparr>ports := ?t\<rparr>" ?pad] p1(2) l
    by (simp_all add: logged_ports logged_append)
  have a: "length (rev ?buf) \<le> 23 - length ?pad" "2 \<le> 23 - length ?pad - length (rev ?buf)"
    using l(2) by simp_all
  have p3: "klog_puts (rev ?buf) (?s2\<lparr>ports := ?t\<rparr>) = Some (?s3\<lparr>ports := ?t\<rparr>)" "room 2 ?s3"
    using klog_puts_room(1) [of "23 - length ?pad" "?s2\<lparr>ports := ?t\<rparr>" "rev ?buf"]
      room_mono [OF klog_puts_room(2) [OF p2(2) a(1)] a(2)] p2(2) a(1)
    by (simp_all only: room_ports logged_ports logged_append append_assoc)
  have p4: "klog_puts [0x5D, 0x20] (?s3\<lparr>ports := ?t\<rparr>) =
      Some ((logged (klog_prefix @ ?pad @ rev ?buf @ [0x5D, 0x20]) s)\<lparr>ports := ?t\<rparr>)"
    using klog_puts_room(1) [of 2 "?s3\<lparr>ports := ?t\<rparr>" "[0x5D, 0x20]"] p3(2)
    by (simp add: logged_ports logged_append del: klog_puts.simps)
  show ?thesis
    using p1 p2 p3 p4 by (simp add: klog_header_def header_text_def stamp Let_def del: klog_puts.simps)
qed

text \<open>With 31 bytes left, \<open>klog_printc\<close> appends to the log.\<close>

definition klog_written :: "io_env \<Rightarrow> u8 \<Rightarrow> io_state \<Rightarrow> io_state" where
  "klog_written e c s =
     (let s' = (logged (appended e c s) s)
        \<lparr>ports := (if klog_msg_started s then ports s else read_tsc (dev e) (ports s)), klog_msg_started := True\<rparr>
      in s'\<lparr>klog_end := max (klog_end s) (klog_pos s')\<rparr>)"

lemma klog_written_step:
  assumes "room 31 s"
  shows "do {
      s \<leftarrow> (if \<not> klog_msg_started s then klog_header e s else Some s);
      s \<leftarrow> klog_put c s;
      Some (if klog_end s < klog_pos s then s\<lparr>klog_end := klog_pos s\<rparr> else s)
    } = Some (klog_written e c s)"
proof (cases "klog_msg_started s")
  case True
  have "klog_puts [c] s = Some (logged [c] s)" by (rule klog_puts_room(1) [OF assms]) simp
  then have "klog_put c s = Some (logged [c] s)" by (simp split: bind_splits)
  then show ?thesis
    using True by (auto simp: klog_written_def appended_def Let_def max_def)
next
  case False
  let ?h = "header_text e s" and ?t = "read_tsc (dev e) (ports s)"
  have l: "length ?h \<le> 30" using length_appended [of e c s] False by (simp add: appended_def)
  have r: "room (31 - length ?h) (logged ?h s)" by (rule klog_puts_room(2) [OF assms]) (use l in simp)
  have "klog_puts [c] ((logged ?h s)\<lparr>ports := ?t, klog_msg_started := True\<rparr>) =
      Some ((logged (?h @ [c]) s)\<lparr>ports := ?t, klog_msg_started := True\<rparr>)"
    using r l by (subst klog_puts_room(1) [of "31 - length ?h"]) (simp_all add: logged_ports logged_append)
  then have "klog_put c ((logged ?h s)\<lparr>ports := ?t, klog_msg_started := True\<rparr>) =
      Some ((logged (?h @ [c]) s)\<lparr>ports := ?t, klog_msg_started := True\<rparr>)"
    by (simp split: bind_splits)
  then show ?thesis
    using False by (auto simp: klog_header_logged [OF assms] klog_written_def appended_def Let_def max_def)
qed

lemma log_wf_room: "log_wf s \<Longrightarrow> klog_pos s + 32 < klog_cap s \<Longrightarrow> room 31 s"
proof -
  assume wf: "log_wf s" and lt: "klog_pos s + 32 < klog_cap s"
  have "unat (klog_pos s + 32) = unat (klog_pos s) + 32"
    using wf by (subst unat_plus_u64) (simp_all add: log_wf_def word_le_nat_alt)
  then show "room 31 s" using wf lt by (simp add: room_def log_wf_def word_less_nat_alt)
qed

lemma stored_outside:
  assumes "unat pos + length bs \<le> n" "n < 2 ^ 64" "\<not> unat (x - a) < n"
  shows "stored m (a + pos) bs x = m x"
proof -
  have "\<not> unat (x - (a + pos)) < length bs"
  proof
    assume lt: "unat (x - (a + pos)) < length bs"
    have "x - a = (x - (a + pos)) + pos" by simp
    then have "unat (x - a) \<le> unat (x - (a + pos)) + unat pos"
      by (metis mod_less_eq_dividend unat_word_ariths(1))
    then show False using lt assms by linarith
  qed
  then show ?thesis using assms by (simp add: stored_apply)
qed

lemma klog_written_facts:
  assumes "log_wf s" "room 31 s"
  shows "log_wf (klog_written e c s)"
    and "log_text (klog_written e c s) = log_text s @ appended e c s"
    and "\<not> unat (a - klog s) < unat (klog_cap s) \<Longrightarrow> io_mem (klog_written e c s) a = io_mem s a"
    and "serial_present (klog_written e c s) = serial_present s"
    and "klog (klog_written e c s) = klog s"
proof -
  let ?bs = "appended e c s"
  have n: "unat (klog_pos s) + length ?bs \<le> unat (klog_cap s)"
    using assms(2) length_appended [of e c s] by (simp add: room_def)
  have p: "unat (klog_pos s + of_nat (length ?bs)) = unat (klog_pos s) + length ?bs"
    using n u64_lt [of "klog_cap s"] by (subst unat_plus_u64) (simp_all add: unat_of_nat_u64)
  show "log_wf (klog_written e c s)"
    using assms(1) n p by (simp add: log_wf_def klog_written_def Let_def logged_def mapped_stored word_le_nat_alt)
  have "log_text (klog_written e c s) = log_text (logged ?bs s)"
    by (simp add: log_text_def klog_written_def Let_def logged_def)
  also have "\<dots> = log_text s @ ?bs"
    by (rule log_text_stored) (use n u64_lt [of "klog_cap s"] in simp)
  finally show "log_text (klog_written e c s) = log_text s @ ?bs" .
  show "io_mem (klog_written e c s) a = io_mem s a" if "\<not> unat (a - klog s) < unat (klog_cap s)"
    using stored_outside [OF n _ that] u64_lt [of "klog_cap s"]
    by (simp add: klog_written_def Let_def logged_def)
qed (simp_all add: klog_written_def Let_def)

lemma klog_printc_eq:
  assumes "log_wf s" "klog_pos s + 32 < klog_cap s \<or> klog s = preklog e"
  shows "klog_printc e c s = Some (if klog_pos s + 32 < klog_cap s then klog_written e c s else s)"
proof (cases "klog_pos s + 32 < klog_cap s")
  case True
  then have "\<not> klog_cap s \<le> klog_pos s + 32" by (simp add: not_le)
  then show ?thesis
    using assms(1) True klog_written_step [OF log_wf_room [OF assms(1) True], of e c]
    by (simp add: klog_printc_def log_wf_def)
next
  case False
  then show ?thesis using assms by (auto simp: klog_printc_def klog_realloc_def not_less)
qed

text \<open>
  A full log that is not the early one moves: \<open>avmf_alloc\<close> gives new pages at \<open>p\<close>, apart from the
  old log and from the block \<open>b\<close> that \<open>avmf_free\<close> unmaps for it.
\<close>

definition new_log :: "io_state \<Rightarrow> u64 \<Rightarrow> u64 \<Rightarrow> bool" where
  "new_log s p a \<longleftrightarrow> unat (a - p) < unat (align4k (klog_cap s + 1024))"

definition log_moves :: "io_state \<Rightarrow> u64 \<Rightarrow> (u64 \<times> nat) option \<Rightarrow> bool" where
  "log_moves s p b \<longleftrightarrow>
     klog_pos s \<le> klog_end s \<and> klog_end s \<le> klog_cap s \<and> unat (klog_cap s) + 8192 < 2 ^ 64 \<and>
     (\<exists>x h1 h2. avmf_alloc pager_map (klog_cap s + 1024) MALLOC_TYPE_KERNEL AVMF_FLAG_RW (heap s) = Some (p, x, h1) \<and>
        p \<noteq> NULL \<and> avmf_free pager_map pager_unmap (klog s) h1 = Some h2 \<and> b = freed_block (klog s) h1) \<and>
     (\<forall>a. new_log s p a \<longrightarrow> \<not> unat (a - klog s) < unat (klog_cap s) \<and> \<not> in_block b a)"

lemma klog_full_left:
  assumes "log_wf s" "klog_cap s < klog_pos s + 32"
  shows "\<not> 32 \<le> klog_cap s - klog_pos s"
proof -
  have "unat (klog_pos s + 32) = unat (klog_pos s) + 32"
    using assms(1) by (subst unat_plus_u64) (simp_all add: log_wf_def word_le_nat_alt)
  then have "unat (klog_cap s - klog_pos s) < 32"
    using assms by (simp add: unat_sub log_wf_def word_less_nat_alt word_le_nat_alt)
  then show ?thesis by (simp add: word_le_nat_alt)
qed

text \<open>The first \<open>k\<close> bytes of the \<open>c\<close> at \<open>a\<close> copied to \<open>n\<close> fresh ones at \<open>p\<close>, and the block \<open>b\<close> unmapped.\<close>

lemma moved_bytes:
  fixes f :: "u64 \<Rightarrow> u8"
  assumes old: "mapped m a c" "k \<le> c" "c \<le> n" "n < 2 ^ 64"
    and apart: "\<And>x. unat (x - p) < n \<Longrightarrow> \<not> unat (x - a) < c \<and> \<not> in_block b x"
  defines "m1 \<equiv> map_fresh f p n m"
  defines "m2 \<equiv> unmap_block b (copied m1 p a k)"
  shows "mapped m1 p k" "mapped m1 a k" "mapped m2 p n"
    "j < k \<Longrightarrow> m2 (p + of_nat j) = m (a + of_nat j)"
    "\<not> unat (x - p) < n \<Longrightarrow> \<not> in_block b x \<Longrightarrow> m2 x = m x"
proof -
  have src: "\<not> unat (a + of_nat i - p) < n" "m (a + of_nat i) \<noteq> None" if "i < c" for i
  proof -
    have "unat (a + of_nat i - a) < c" using that old(3,4) by (simp add: unat_of_nat_u64)
    then show "\<not> unat (a + of_nat i - p) < n" "m (a + of_nat i) \<noteq> None"
      using apart [of "a + of_nat i"] old(1) by (blast, simp add: mapped_def)
  qed
  show "mapped m1 p k" "mapped m1 a k"
    using old by (simp_all add: mapped_def m1_def map_fresh_def)
  have "m2 x \<noteq> None" if "unat (x - p) < n" for x
  proof (cases "unat (x - p) < k")
    case True
    have "a + (x - p) = a + of_nat (unat (x - p))" by simp
    then show ?thesis
      using True src [of "unat (x - p)"] apart [OF that] old(2)
      by (simp add: m2_def m1_def unmap_block_def copied_def map_fresh_def)
  next
    case False
    then show ?thesis using that apart [OF that]
      by (simp add: m2_def m1_def unmap_block_def copied_def map_fresh_def)
  qed
  then show "mapped m2 p n" by (simp add: mapped_def)
  show "m2 (p + of_nat j) = m (a + of_nat j)" if "j < k"
  proof -
    have j: "unat (of_nat j :: u64) = j" using that old by (simp add: unat_of_nat_u64)
    then show ?thesis using that apart [of "p + of_nat j"] src(1) [of j] old
      by (simp add: m2_def m1_def unmap_block_def copied_def map_fresh_def)
  qed
  show "m2 x = m x" if "\<not> unat (x - p) < n" "\<not> in_block b x"
    using that old(2,3) by (simp add: m2_def m1_def unmap_block_def copied_def map_fresh_def)
qed

lemma klog_realloc_moves:
  assumes wf: "log_wf s" and full: "klog_cap s < klog_pos s + 32" "klog s \<noteq> preklog e" and mv: "log_moves s p b"
  shows "\<exists>s1. klog_realloc e s = Some (True, s1) \<and> log_wf s1 \<and> room 31 s1 \<and> klog s1 = p \<and>
    klog_cap s1 = klog_cap s + 1024 \<and> log_text s1 = log_text s \<and>
    klog_msg_started s1 = klog_msg_started s \<and> ports s1 = ports s \<and>
    (\<forall>a. \<not> new_log s p a \<and> \<not> in_block b a \<longrightarrow> io_mem s1 a = io_mem s a)"
proof -
  let ?n = "unat (align4k (klog_cap s + 1024))" and ?k = "unat (klog_end s)"
  from mv obtain x h1 h2 where h: "avmf_alloc pager_map (klog_cap s + 1024) MALLOC_TYPE_KERNEL AVMF_FLAG_RW (heap s) = Some (p, x, h1)"
    "p \<noteq> NULL" "avmf_free pager_map pager_unmap (klog s) h1 = Some h2" "b = freed_block (klog s) h1"
    by (auto simp: log_moves_def)
  have ends: "unat (klog_pos s) \<le> ?k" "?k \<le> unat (klog_cap s)"
    "unat (klog_cap s) + 8192 < 2 ^ 64" using mv by (simp_all add: log_moves_def word_le_nat_alt)
  have apart: "\<not> unat (a - klog s) < unat (klog_cap s) \<and> \<not> in_block b a" if "unat (a - p) < ?n" for a
    using mv that by (auto simp: log_moves_def new_log_def)
  have cap: "unat (klog_cap s + 1024) = unat (klog_cap s) + 1024" using ends by (simp add: unat_plus_u64)
  have n: "unat (klog_cap s) + 1024 \<le> ?n" using ends cap by (simp add: unat_align4k)
  let ?m1 = "map_fresh (fresh e) p ?n (io_mem s)"
  let ?m2 = "copied ?m1 p (klog s) ?k"
  let ?s1 = "s\<lparr>heap := h2, io_mem := unmap_block b ?m2, klog := p, klog_cap := klog_cap s + 1024\<rparr>"
  have old: "mapped (io_mem s) (klog s) (unat (klog_cap s))" "klog s \<noteq> NULL" using wf by (simp_all add: log_wf_def)
  have le: "unat (klog_cap s) \<le> ?n" "?n < 2 ^ 64" using n u64_lt [of "align4k (klog_cap s + 1024)"] by simp_all
  note moved = moved_bytes [OF old(1) ends(2) le apart, where f = "fresh e"]
  have "?k \<le> unat (p - klog s)" using apart [of p] n ends by simp
  then have cp: "memcpy p (klog s) (klog_end s) ?m1 = Some (if p = klog s then p else p + klog_end s, ?m2)"
    using old(2) h(2) moved(1,2) by (intro memcpy_copies) simp_all
  have step: "klog_realloc e s = Some (True, ?s1)"
    using full klog_full_left [OF wf full(1)] h cp
    by (simp add: klog_realloc_def kalloc_def copy_mem_def kfree_pages_def Let_def)
  have "mapped (unmap_block b ?m2) p (unat (klog_cap s) + 1024)"
    using moved(3) n by (simp add: mapped_def)
  then have wf1: "log_wf ?s1" "room 31 ?s1"
    using h(2) ends cap by (simp_all add: log_wf_def room_def word_le_nat_alt)
  have same_log: "log_text ?s1 = log_text s" using moved(4) ends(1) by (simp add: log_text_def)
  have fr: "io_mem ?s1 a = io_mem s a" if "\<not> new_log s p a \<and> \<not> in_block b a" for a
    using that moved(5) by (simp add: new_log_def)
  show ?thesis using step wf1 same_log fr by (intro exI [of _ ?s1]) simp
qed

lemma klog_printc_stays:
  assumes wf: "log_wf s" and room: "klog_pos s + 32 \<le> klog_cap s" "klog_pos s + 32 < klog_cap s \<or> klog s \<noteq> preklog e"
  shows "klog_printc e c s = Some (klog_written e c s)" "room 31 s"
proof -
  have "unat (klog_pos s + 32) = unat (klog_pos s) + 32"
    using wf by (subst unat_plus_u64) (simp_all add: log_wf_def word_le_nat_alt)
  then show r: "room 31 s" using wf room(1) by (simp add: room_def log_wf_def word_le_nat_alt)
  show "klog_printc e c s = Some (klog_written e c s)"
  proof (cases "klog_pos s + 32 < klog_cap s")
    case True
    then show ?thesis using wf klog_printc_eq [of s e c] by simp
  next
    case False
    then have "klog_pos s + 32 = klog_cap s" using room(1) by simp
    then have "klog_cap s - klog_pos s = 32" by (metis add_diff_cancel_left')
    then show ?thesis
      using False wf room klog_written_step [OF r, of e c]
      by (simp add: klog_printc_def klog_realloc_def log_wf_def not_less)
  qed
qed

lemma klog_printc_moves:
  assumes wf: "log_wf s" and full: "klog_cap s < klog_pos s + 32" "klog s \<noteq> preklog e" and mv: "log_moves s p b"
  shows "\<exists>s'. klog_printc e c s = Some s' \<and> log_wf s' \<and> klog s' = p \<and> klog_cap s' = klog_cap s + 1024 \<and>
    log_text s' = log_text s @ appended e c s \<and>
    (\<forall>a. \<not> new_log s p a \<and> \<not> in_block b a \<longrightarrow> io_mem s' a = io_mem s a)"
proof -
  from klog_realloc_moves [OF assms] obtain s1 where s1: "klog_realloc e s = Some (True, s1)" "log_wf s1" "room 31 s1"
    "klog s1 = p" "klog_cap s1 = klog_cap s + 1024" "log_text s1 = log_text s"
    "klog_msg_started s1 = klog_msg_started s" "ports s1 = ports s"
    "\<forall>a. \<not> new_log s p a \<and> \<not> in_block b a \<longrightarrow> io_mem s1 a = io_mem s a" by blast
  have "klog s \<noteq> NULL" using wf by (simp add: log_wf_def)
  then have "klog_printc e c s = Some (klog_written e c s1)"
    using klog_written_step [OF s1(3), of e c] less_imp_le [OF full(1)] s1(1) by (simp add: klog_printc_def)
  moreover have "appended e c s1 = appended e c s"
    using s1(7,8) by (simp add: appended_def header_text_def)
  moreover have "\<not> unat (a - p) < unat (klog_cap s1)" if "\<not> new_log s p a" for a
  proof -
    have "unat (klog_cap s) + 8192 < 2 ^ 64" using mv by (simp add: log_moves_def)
    then have "unat (klog_cap s1) \<le> unat (align4k (klog_cap s + 1024))"
      unfolding s1(5) by (simp add: unat_align4k unat_plus_u64)
    then show ?thesis using that by (simp add: new_log_def)
  qed
  moreover have "klog_cap (klog_written e c s1) = klog_cap s1" by (simp add: klog_written_def Let_def)
  ultimately show ?thesis using klog_written_facts [OF s1(2,3), where e = e and c = c] s1 by auto
qed


subsection \<open>What the port sends\<close>

definition port_out :: "io_state \<Rightarrow> u8 list" where
  "port_out s = rev (writes_to SERIAL_PORT (ports s))"

text \<open>Newlines of a string are sent with a carriage return.\<close>

definition crlf :: "u8 list \<Rightarrow> u8 list" where
  "crlf str = concat (map (\<lambda>c. if c = 0x0A then [0x0D, 0x0A] else [c]) str)"

text \<open>The transmitter is eventually empty, whenever it is polled.\<close>

definition responsive :: "device \<Rightarrow> bool" where
  "responsive d \<longleftrightarrow> (\<forall>t. \<exists>n. in8 d (replicate n (Inb (SERIAL_PORT + 5)) @ t) (SERIAL_PORT + 5) AND 0x20 \<noteq> 0)"

definition port_ok :: "io_env \<Rightarrow> io_state \<Rightarrow> bool" where
  "port_ok e s \<longleftrightarrow> responsive (dev e) \<and> serial_present s \<and> log_wf s \<and> klog s = preklog e"

lemma port_ok_upd [simp]:
  "port_ok e (s\<lparr>ports := t\<rparr>) = port_ok e s" "port_ok e (s\<lparr>klog_msg_started := b\<rparr>) = port_ok e s"
  "port_out (s\<lparr>klog_msg_started := b\<rparr>) = port_out s"
  by (simp_all add: port_ok_def log_wf_def port_out_def)

lemma wait_transmit_empty_ports:
  assumes "wait_transmit_empty e s = Some s'"
  shows "\<exists>t. s' = s\<lparr>ports := t\<rparr> \<and> writes_to SERIAL_PORT t = writes_to SERIAL_PORT (ports s)"
proof (rule wait_transmit_empty.raw_induct [where
    P = "\<lambda>e s s'. \<exists>t. s' = s\<lparr>ports := t\<rparr> \<and> writes_to SERIAL_PORT t = writes_to SERIAL_PORT (ports s)",
    OF _ assms])
  fix f :: "io_env \<Rightarrow> io_state \<Rightarrow> io_state option" and e s s'
  assume IH: "\<And>e s s'. f e s = Some s' \<Longrightarrow>
      \<exists>t. s' = s\<lparr>ports := t\<rparr> \<and> writes_to SERIAL_PORT t = writes_to SERIAL_PORT (ports s)"
    and r: "(let (empty, s) = serial_is_transmit_empty e s in if empty then Some s else f e s) = Some s'"
  show "\<exists>t. s' = s\<lparr>ports := t\<rparr> \<and> writes_to SERIAL_PORT t = writes_to SERIAL_PORT (ports s)"
    using r by (auto simp: serial_is_transmit_empty_def inb_def port_defs split: if_splits dest!: IH)
qed

lemma wait_transmit_empty_returns:
  assumes "responsive (dev e)"
  shows "\<exists>t. wait_transmit_empty e s = Some (s\<lparr>ports := t\<rparr>) \<and>
    writes_to SERIAL_PORT t = writes_to SERIAL_PORT (ports s)"
proof -
  let ?p = "SERIAL_PORT + 5"
  let ?step = "\<lambda>s. s\<lparr>ports := Inb ?p # ports s\<rparr>"
  obtain n where n: "in8 (dev e) (replicate n (Inb ?p) @ ports s) ?p AND 0x20 \<noteq> 0"
    using assms unfolding responsive_def by blast
  have i: "(?step ^^ n) s = s\<lparr>ports := replicate n (Inb ?p) @ ports s\<rparr>" by (induction n) simp_all
  have "\<exists>r. wait_transmit_empty e s = Some r"
  proof (rule polling_returns [where E = "\<lambda>s. in8 (dev e) (ports s) ?p AND 0x20 \<noteq> 0" and step = ?step])
    fix u assume "wait_transmit_empty e u = None"
    then show "\<not> in8 (dev e) (ports u) ?p AND 0x20 \<noteq> 0 \<and> wait_transmit_empty e (?step u) = None"
      by (subst (asm) wait_transmit_empty.simps)
        (auto simp: serial_is_transmit_empty_def inb_def port_defs split: if_splits)
  next
    show "in8 (dev e) (ports ((?step ^^ n) s)) ?p AND 0x20 \<noteq> 0" using n by (simp add: i)
  qed
  then show ?thesis using wait_transmit_empty_ports by blast
qed

lemma klog_printc_port:
  assumes "port_ok e s"
  shows "\<exists>s'. klog_printc e c s = Some s' \<and> port_ok e s' \<and> port_out s' = port_out s"
proof -
  have w: "log_wf s" "klog s = preklog e" using assms by (simp_all add: port_ok_def)
  have "writes_to SERIAL_PORT (ports (klog_written e c s)) = writes_to SERIAL_PORT (ports s)"
    by (simp add: klog_written_def Let_def)
  then show ?thesis
    using assms klog_printc_eq [of s e c]
      klog_written_facts [OF w(1) log_wf_room [OF w(1)], where e = e and c = c] w
    by (auto simp: port_ok_def port_out_def)
qed

lemma serial_printc_port:
  assumes "port_ok e s"
  shows "\<exists>s'. serial_printc e c s = Some s' \<and> port_ok e s' \<and> port_out s' = port_out s @ [c]"
proof -
  have p: "responsive (dev e)" "serial_present s" using assms by (simp_all add: port_ok_def)
  obtain t where t: "wait_transmit_empty e s = Some (s\<lparr>ports := t\<rparr>)"
      "writes_to SERIAL_PORT t = writes_to SERIAL_PORT (ports s)"
    using wait_transmit_empty_returns [OF p(1)] by blast
  let ?s = "s\<lparr>ports := Outb SERIAL_PORT c # t\<rparr>"
  have "port_ok e ?s" "port_out ?s = port_out s @ [c]"
    using assms t(2) by (simp_all add: port_out_def)
  then obtain s' where "klog_printc e c ?s = Some s'" "port_ok e s'" "port_out s' = port_out s @ [c]"
    using klog_printc_port by metis
  then show ?thesis using p t(1) by (simp add: serial_printc_def outb_def asm_outb_def)
qed

lemma serial_chars_port:
  "port_ok e s \<Longrightarrow> \<exists>s'. serial_chars e str s = Some s' \<and> port_ok e s' \<and> port_out s' = port_out s @ crlf str"
proof (induction str arbitrary: s)
  case Nil
  then show ?case by (simp add: crlf_def)
next
  case (Cons c str)
  obtain s1 where 1: "(if c = 0x0A then serial_printc e 0x0D s else Some s) = Some s1" "port_ok e s1"
      "port_out s1 = port_out s @ (if c = 0x0A then [0x0D] else [])"
    using serial_printc_port [OF Cons.prems] Cons.prems by (cases "c = 0x0A") auto
  obtain s2 where 2: "serial_printc e c s1 = Some s2" "port_ok e s2" "port_out s2 = port_out s1 @ [c]"
    using serial_printc_port [OF 1(2)] by blast
  obtain s3 where "serial_chars e str s2 = Some s3" "port_ok e s3" "port_out s3 = port_out s2 @ crlf str"
    using Cons.IH [OF 2(2)] by blast
  moreover from this have "serial_chars e (c # str) s = Some s3"
    by (simp only: serial_chars.simps 1(1) 2(1) bind.bind_lunit)
  moreover have "crlf (c # str) = (if c = 0x0A then [0x0D] else []) @ [c] @ crlf str" by (simp add: crlf_def)
  ultimately show ?case using 1(3) 2(3) by (intro exI [of _ s3]) simp
qed

interpretation port: text_printer "serial_printer e" "port_ok e" port_out crlf for e
proof
  fix s c str
  assume ok: "port_ok e s"
  show "\<exists>s'. putc (serial_printer e) c s = Some s' \<and> port_ok e s' \<and> port_out s' = port_out s @ [c]"
    using serial_printc_port [OF ok] by (simp add: serial_printer_def)
  show "\<exists>s'. puts (serial_printer e) str s = Some s' \<and> port_ok e s' \<and> port_out s' = port_out s @ crlf str"
    using serial_chars_port [OF ok, of str]
    by (auto simp: serial_printer_def serial_print_def)
qed (simp_all add: serial_printer_def)

text \<open>C20: While the log is the early one, \<open>serial_printf\<close> with a format and arguments that fit sends exactly the formatted text over the
  port, after what was sent before, whatever the device answers to the polling and whether or
  not the log has room; it returns as long as the transmitter is eventually empty.
\<close>

theorem serial_printf_sends:
  assumes "port_ok e s" "format crlf fmt args = Some sent"
  shows "\<exists>s'. serial_printf e fmt args s = Some s' \<and> port_ok e s' \<and> port_out s' = port_out s @ sent"
proof -
  obtain s' where "printf_loop (serial_printer e) fmt args s = Some s'" "port_ok e s'"
      "port_out s' = port_out s @ sent"
    using port.printf_renders [OF assms(2,1)] by blast
  then show ?thesis by (simp add: serial_printf_def)
qed

definition sample_env :: io_env where
  "sample_env = \<lparr>dev = \<lparr>in8 = (\<lambda>_ _. 0x20), in16 = (\<lambda>_ _. 0), in32 = (\<lambda>_ _. 0), tsc = (\<lambda>_. 5000), mmio32 = (\<lambda>_ _. 0),
      timer = \<lparr>rdtscp_supported = False, tsc_ticks_per_ms = 1, bootup_timestamp = 1000000000\<rparr>\<rparr>,
     preklog = 0x5000, fresh = (\<lambda>_. 0), font8x16 = (\<lambda>_ _. 0)\<rparr>"

definition sample_io :: "pstate \<Rightarrow> io_state" where
  "sample_io h = \<lparr>io_mem = (\<lambda>_. Some 0), ports = [], heap = h, serial_present = True, klog = 0x5000,
     klog_cap = 0x1000, klog_end = 0, klog_pos = 0, klog_present = False, klog_msg_started = False,
     vmem_active = True, MAX_COLS = 80, MAX_ROWS = 25, IO_VMEM_true = 0xB8000, vmem_mode = 1,
     vmem_fbi = sample_fb\<rparr>"

lemma sample_port_ok: "port_ok sample_env (sample_io h)"
  by (simp add: port_ok_def responsive_def sample_env_def sample_io_def log_wf_def mapped_def)

text \<open>A full log in pages of the kernel's region, with other pages for it in the region's cache.\<close>

definition log_heap :: pstate where
  "log_heap = \<lparr> headers = [0x400000 \<mapsto> (new_alloc_header 0xFFFFA00000010000 0x10000 0x1000),
       0x400048 \<mapsto> (new_alloc_header 0xFFFFA00000020000 0x20000 0x1000)\<lparr> h_type := AVMF_HDR_TYPE_CACHE, used := False \<rparr>],
     ranges = Map.empty,
     regions = [empty_region\<lparr> signature := AVMF_SIGNATURE, version := AVMF_VERSION,
       base := AOS_KERNEL_SPACE_BASE, limit := AOS_DRIVER_SPACE_BASE, allocated_bytes := 0x2000,
       alloc_list := 0x400000, alloc_count := 1, alloc_list_end := 0x400000,
       cache_list := 0x400048, cache_count := 1, cache_list_end := 0x400048 \<rparr>],
     region_count = 1, physical_regions = [], physical_region_count = 0,
     static_ranges = 0x200000, static_ranges_count = 0, ihdr_cpage = 0, ihdr_cpage_remaining = 0,
     irange_cpage = 0, irange_cpage_remaining = 0, bitmap = (\<lambda>_. 0),
     tables = [0x100000 \<mapsto> (\<lambda>_. 0)(320 := 0x101003), 0x101000 \<mapsto> (\<lambda>_. 0)(0 := 0x102003),
       0x102000 \<mapsto> (\<lambda>_. 0)(0 := 0x103003), 0x103000 \<mapsto> (\<lambda>_. 0)(16 := 0x10003)],
     kernel_pml4 = \<lparr> table_phys = 0x100000, tbl_lock = False, table = 0x100000 \<rparr>,
     mapped_pml4 = True, pager_ready = False, cpu_phys_bits = 48, cpu_virt_bits = 48,
     first_pagemaps_ptr = 0, first_pagemaps = 0, first_pagemaps_end = 0, cr3 = 0x100000, invalidated = [] \<rparr>"

lemma log_heap_moves: "\<exists>x h1. avmf_alloc pager_map 0x800 MALLOC_TYPE_KERNEL AVMF_FLAG_RW log_heap = Some (0xFFFFA00000020000, x, h1) \<and>
   freed_block 0xFFFFA00000010000 h1 = Some (0xFFFFA00000010000, 0x1000) \<and> avmf_free pager_map pager_unmap 0xFFFFA00000010000 h1 \<noteq> None"
  apply (simp add: avmf_alloc_def align4k_def ALIGN_UP_def avmf_alloc_hdr_internal_def avmf_find_region_def
    log_heap_def region_ok_def empty_region_def region_score_def avmf_region_alloc_def)
  apply (simp add: cache_loop.simps cache_round_def new_alloc_header_def zero_header_def header_bad_def unlink_in_def link_in_def
     upd_header_def avmf_unlink_header_def avmf_link_header_def reset_list_def upd_region_def Let_def region_ok_def
     unlink_next_def unlink_parent_def)
  apply (simp add: pager_map_range_def pager_map_range_loop.simps pager_map_def pager_map_with_def phys_too_big_def
    lock_pml4_def next_table_def get_entry_def ptr_phys_def idx_pml4_def idx_pdpt_def present_def pager_phys_to_virt_def
    entry_addr_def map_small_def huge_def)
  apply (simp add: get_entry_def ptr_phys_def idx_pd_def idx_pt_def present_def pager_phys_to_virt_def
    entry_addr_def map_small_def huge_def next_table_def set_entry_def unlock_pml4_def
    avmf_convert_flags_to_pager_flags_def AVMF_FLAG_RW_def)
  apply (intro conjI)
   apply (simp add: freed_block_def avmf_find_region_def region_ok_def region_score_def find_alloc.simps header_bad_def)
  apply (simp add: avmf_free_def avmf_find_region_def region_ok_def region_score_def find_alloc.simps header_bad_def)
  apply (simp add: bitmap_clear_def pager_unmap_def lock_pml4_def get_entry_def ptr_phys_def present_def pager_phys_to_virt_def
    entry_addr_def huge_def set_entry_def unlock_pml4_def invlpg_def  idx_pml4_def idx_pdpt_def idx_pd_def idx_pt_def Let_def)
  apply (simp add: avmf_region_free_def region_ok_def align4k_def ALIGN_UP_def region_free_loop.simps free_round_def header_bad_def
    unlink_in_def link_in_def
     upd_header_def avmf_unlink_header_def avmf_link_header_def reset_list_def upd_region_def Let_def region_ok_def
     unlink_next_def unlink_parent_def)
  done

definition full_log :: io_state where
  "full_log = (sample_io log_heap)\<lparr>klog := 0xFFFFA00000010000, klog_cap := 0x400, klog_end := 0x3F0,
     klog_pos := 0x3F0, klog_msg_started := True\<rparr>"

lemma full_log_wf: "log_wf full_log"
  by (simp add: full_log_def sample_io_def log_wf_def mapped_def)

lemma full_log_moves: "log_moves full_log 0xFFFFA00000020000 (Some (0xFFFFA00000010000, 0x1000))"
proof -
  have "\<not> unat (a - 0xFFFFA00000010000) < 0x1000 \<and> \<not> unat (a - 0xFFFFA00000010000) < 0x400"
    if "unat (a - 0xFFFFA00000020000) < 0x1000" for a :: u64
  proof -
    have "a - 0xFFFFA00000010000 = (a - 0xFFFFA00000020000) + 0x10000" by simp
    then have "unat (a - 0xFFFFA00000010000) = unat (a - 0xFFFFA00000020000) + 0x10000"
      using that by (simp only:) (subst unat_plus_u64, simp_all)
    then show ?thesis by simp
  qed
  then show ?thesis
    using log_heap_moves
    by (auto simp: log_moves_def full_log_def sample_io_def new_log_def align4k_def ALIGN_UP_def word_le_nat_alt)
qed


lemma serial_printf_sends_witness:
  "\<forall>h. \<exists>s'. serial_printf sample_env [0x78, 0x3D, 0x25, 0x30, 0x34, 0x64, 0x0A] [Word_arg (- 5)] (sample_io h) = Some s' \<and>
    port_ok sample_env s' \<and> port_out s' = [0x78, 0x3D, 0x2D, 0x30, 0x30, 0x35, 0x0A]"
proof
  fix h
  have v: "(scast (ucast (- 5 :: u64) :: u32) :: u64) = - 5" by simp
  have "sint (- 5 :: u64) = - 5" by simp
  then have t: "signed_text 10 (- 5) False = [0x2D, 0x35]"
    by (simp add: signed_text_def digits_text_def num_digits.simps [of 10 5] digit_char_def)
  have r: "replicate 2 (0x30 :: u8) = [0x30, 0x30]" by (simp add: numeral_2_eq_2)
  have f: "format crlf [0x78, 0x3D, 0x25, 0x30, 0x34, 0x64, 0x0A] [Word_arg (- 5)] =
      Some [0x78, 0x3D, 0x2D, 0x30, 0x30, 0x35, 0x0A]"
    by (simp add: format_def parse_flags_def take_signed_def v t padded_def r)
  have "port_out (sample_io h) = []" by (simp add: port_out_def sample_io_def)
  then show "\<exists>s'. serial_printf sample_env [0x78, 0x3D, 0x25, 0x30, 0x34, 0x64, 0x0A] [Word_arg (- 5)] (sample_io h) = Some s' \<and>
    port_ok sample_env s' \<and> port_out s' = [0x78, 0x3D, 0x2D, 0x30, 0x30, 0x35, 0x0A]"
    using serial_printf_sends [OF sample_port_ok f, of h] by simp
qed

end
