(* ===== verification/Vmem.thy ===== *)
theory Vmem
  imports Serial
begin

text \<open>
  The text screen of \<^verbatim>\<open>Kernel/drivers/io/io.c\<close>: colors, the hardware cursor, characters,
  scrolling and \<open>vmem_printf\<close>, on a graphics framebuffer (\<open>Framebuffer\<close>) or on the cells of the
  VGA text mode. The design a caller passes by pointer is passed and returned.
\<close>

datatype VMemColors =
    VMEM_COLOR_BLACK
  | VMEM_COLOR_BLUE
  | VMEM_COLOR_GREEN
  | VMEM_COLOR_CYAN
  | VMEM_COLOR_RED
  | VMEM_COLOR_MAGENTA
  | VMEM_COLOR_BROWN
  | VMEM_COLOR_LIGHT_GRAY
  | VMEM_COLOR_DARK_GRAY
  | VMEM_COLOR_LIGHT_BLUE
  | VMEM_COLOR_LIGHT_GREEN
  | VMEM_COLOR_LIGHT_CYAN
  | VMEM_COLOR_LIGHT_RED
  | VEM_COLOR_LIGHT_MAGENTA
  | VMEM_COLOR_YELLOW
  | VMEM_COLOR_WHITE

fun color_code :: "VMemColors \<Rightarrow> u16" where
  "color_code VMEM_COLOR_BLACK = 0x0"
| "color_code VMEM_COLOR_BLUE = 0x1"
| "color_code VMEM_COLOR_GREEN = 0x2"
| "color_code VMEM_COLOR_CYAN = 0x3"
| "color_code VMEM_COLOR_RED = 0x4"
| "color_code VMEM_COLOR_MAGENTA = 0x5"
| "color_code VMEM_COLOR_BROWN = 0x6"
| "color_code VMEM_COLOR_LIGHT_GRAY = 0x7"
| "color_code VMEM_COLOR_DARK_GRAY = 0x8"
| "color_code VMEM_COLOR_LIGHT_BLUE = 0x9"
| "color_code VMEM_COLOR_LIGHT_GREEN = 0xA"
| "color_code VMEM_COLOR_LIGHT_CYAN = 0xB"
| "color_code VMEM_COLOR_LIGHT_RED = 0xC"
| "color_code VEM_COLOR_LIGHT_MAGENTA = 0xD"
| "color_code VMEM_COLOR_YELLOW = 0xE"
| "color_code VMEM_COLOR_WHITE = 0xF"

record vmem_design =
  pos_x :: u64
  pos_y :: u64
  fg :: VMemColors
  bg :: VMemColors
  serial_out :: bool
  scrolls :: bool

record uniboot_fb_info =
  fbi_mode :: u32
  fbi_addr :: u64
  fbi_phys_addr :: u64
  fbi_size :: u64
  fbi_pitch :: u64
  fbi_width :: u64
  fbi_height :: u64
  fbi_bpp :: u8
  fbi_color_format :: u32

definition UNIBOOT_FB_MODE_UEFI_GOP :: u8 where "UNIBOOT_FB_MODE_UEFI_GOP = 1"
definition UNIBOOT_FB_MODE_VGA :: u8 where "UNIBOOT_FB_MODE_VGA = 2"

subsection \<open>Colors\<close>

definition uniboot_convert_color_to_pyrion :: "u32 \<Rightarrow> pyrion_color_format" where
  "uniboot_convert_color_to_pyrion fmt =
     (if fmt = 0 then PYRION_COLORF_RGBA
      else if fmt = 1 then PYRION_COLORF_BGRA
      else if fmt = 2 then PYRION_COLORF_ABGR
      else if fmt = 3 then PYRION_COLORF_ARGB
      else if fmt = 4 then PYRION_COLORF_RGB
      else if fmt = 5 then PYRION_COLORF_BGR
      else PYRION_COLORF_RGBA)"

definition bytes4 :: "u8 \<Rightarrow> u8 \<Rightarrow> u8 \<Rightarrow> u8 \<Rightarrow> u32" where
  "bytes4 b3 b2 b1 b0 =
     push_bit 24 (ucast b3) OR push_bit 16 (ucast b2) OR push_bit 8 (ucast b1) OR ucast b0"

fun pyrion_convert_color :: "u8 \<Rightarrow> u8 \<Rightarrow> u8 \<Rightarrow> u8 \<Rightarrow> pyrion_color_format \<Rightarrow> u32" where
  "pyrion_convert_color r g b a PYRION_COLORF_RGBA = bytes4 r g b a"
| "pyrion_convert_color r g b a PYRION_COLORF_BGRA = bytes4 b g r a"
| "pyrion_convert_color r g b a PYRION_COLORF_ABGR = bytes4 a b g r"
| "pyrion_convert_color r g b a PYRION_COLORF_ARGB = bytes4 a r g b"
| "pyrion_convert_color r g b a PYRION_COLORF_RGB = bytes4 0 r g b"
| "pyrion_convert_color r g b a PYRION_COLORF_BGR = bytes4 0 b g r"

fun vmem_rgb :: "VMemColors \<Rightarrow> u8 \<times> u8 \<times> u8" where
  "vmem_rgb VMEM_COLOR_BLACK = (0x00, 0x00, 0x00)"
| "vmem_rgb VMEM_COLOR_BLUE = (0x00, 0x00, 0xAA)"
| "vmem_rgb VMEM_COLOR_GREEN = (0x00, 0xAA, 0x00)"
| "vmem_rgb VMEM_COLOR_CYAN = (0x00, 0xAA, 0xAA)"
| "vmem_rgb VMEM_COLOR_RED = (0xAA, 0x00, 0x00)"
| "vmem_rgb VMEM_COLOR_MAGENTA = (0xAA, 0x00, 0xAA)"
| "vmem_rgb VMEM_COLOR_BROWN = (0xAA, 0x55, 0x00)"
| "vmem_rgb VMEM_COLOR_LIGHT_GRAY = (0xAA, 0xAA, 0xAA)"
| "vmem_rgb VMEM_COLOR_DARK_GRAY = (0x55, 0x55, 0x55)"
| "vmem_rgb VMEM_COLOR_LIGHT_BLUE = (0x55, 0x55, 0xFF)"
| "vmem_rgb VMEM_COLOR_LIGHT_GREEN = (0x55, 0xFF, 0x55)"
| "vmem_rgb VMEM_COLOR_LIGHT_CYAN = (0x55, 0xFF, 0xFF)"
| "vmem_rgb VMEM_COLOR_LIGHT_RED = (0xFF, 0x55, 0x55)"
| "vmem_rgb VEM_COLOR_LIGHT_MAGENTA = (0xFF, 0x55, 0xFF)"
| "vmem_rgb VMEM_COLOR_YELLOW = (0xFF, 0xFF, 0x55)"
| "vmem_rgb VMEM_COLOR_WHITE = (0xFF, 0xFF, 0xFF)"

definition vmem_convert_color_to_rgba :: "VMemColors \<Rightarrow> io_state \<Rightarrow> u32" where
  "vmem_convert_color_to_rgba color s =
     (let (r, g, b) = vmem_rgb color in pyrion_convert_color r g b 0xFF (cformat (vmem_fbi s)))"

subsection \<open>Initialisation\<close>

definition lit :: "string \<Rightarrow> u8 list" where
  "lit str = map (\<lambda>c. of_nat (of_char c)) str"

definition vmem_init :: "io_env \<Rightarrow> uniboot_fb_info option \<Rightarrow> io_state \<Rightarrow> io_state option" where
  "vmem_init e sysinfo s =
     (case sysinfo of None \<Rightarrow> Some s
      | Some fb \<Rightarrow> do {
          let mode = (ucast (fbi_mode fb) :: u8);
          let mode = (if mode = UNIBOOT_FB_MODE_VGA \<or> mode = UNIBOOT_FB_MODE_UEFI_GOP then mode
            else UNIBOOT_FB_MODE_VGA);
          let addr = AOS_DIRECT_MAP_BASE + fbi_phys_addr fb;
          let s = s\<lparr>vmem_mode := mode, IO_VMEM_true := addr,
            MAX_COLS := fbi_width fb div 8, MAX_ROWS := fbi_height fb div 16,
            vmem_fbi := \<lparr>fb_addr = addr, fb_phys_addr = fbi_phys_addr fb, width = ucast (fbi_width fb),
              height = ucast (fbi_height fb), pitch = ucast (fbi_pitch fb), bpp = fbi_bpp fb, fb_size = fbi_size fb,
              cformat = uniboot_convert_color_to_pyrion (fbi_color_format fb)\<rparr>\<rparr>;
          let len = (if fbi_size fb > 0 then fbi_size fb
            else fbi_width fb * fbi_height fb * ucast (fbi_bpp fb div 8));
          h \<leftarrow> pager_map_range pager_map addr (fbi_phys_addr fb) len (PAGE_PRESENT OR PAGE_PCD OR PAGE_RW)
            (heap s);
          let s = s\<lparr>heap := h, io_mem := map_fresh (fresh e) addr (unat len) (io_mem s), vmem_active := True\<rparr>;
          s \<leftarrow> serial_printf e (lit ''[IO:VMEM] FB Mode: %u'' @ [0x0A]) [Word_arg (ucast (fbi_mode fb))] s;
          s \<leftarrow> serial_printf e (lit ''[IO:VMEM] FB Addr: 0x%llx'' @ [0x0A]) [Word_arg (fbi_addr fb)] s;
          s \<leftarrow> serial_printf e (lit ''[IO:VMEM] FB Width: %u'' @ [0x0A]) [Word_arg (fbi_width fb)] s;
          s \<leftarrow> serial_printf e (lit ''[IO:VMEM] FB Height: %u'' @ [0x0A]) [Word_arg (fbi_height fb)] s;
          s \<leftarrow> serial_printf e (lit ''[IO:VMEM] FB Pitch: %u'' @ [0x0A]) [Word_arg (fbi_pitch fb)] s;
          serial_printf e (lit ''[IO:VMEM] FB Size: %u'' @ [0x0A]) [Word_arg (fbi_size fb)] s
        })"

subsection \<open>The cursor\<close>

definition vmem_set_only_cursor :: "u64 \<Rightarrow> u64 \<Rightarrow> io_state \<Rightarrow> io_state" where
  "vmem_set_only_cursor x y s =
     (if \<not> vmem_active s \<or> vmem_mode s = UNIBOOT_FB_MODE_UEFI_GOP \<or> x > 0xFFFF \<or> y > 0xFFFF then s
      else
        let pos = ucast (ucast (ucast y :: u16) * MAX_COLS s + ucast (ucast x :: u16)) :: u16;
            s = outb 0x3D4 0x0E s;
            s = outb 0x3D5 (ucast (drop_bit 8 pos)) s;
            s = outb 0x3D4 0x0F s
        in outb 0x3D5 (ucast pos) s)"

definition move_design :: "u64 \<Rightarrow> u64 \<Rightarrow> vmem_design option \<Rightarrow> vmem_design option" where
  "move_design x y d = map_option (\<lambda>d. d\<lparr>pos_x := x, pos_y := y\<rparr>) d"

definition vmem_set_cursor ::
  "vmem_design option \<Rightarrow> u64 \<Rightarrow> u64 \<Rightarrow> io_state \<Rightarrow> vmem_design option \<times> io_state" where
  "vmem_set_cursor design x y s = (move_design x y design, vmem_set_only_cursor x y s)"

definition vmem_set_cursor_to_col ::
  "vmem_design option \<Rightarrow> u64 \<Rightarrow> u64 \<Rightarrow> io_state \<Rightarrow> vmem_design option \<times> io_state" where
  "vmem_set_cursor_to_col design cx cy s =
     (let x = cx * 8; y = cy * 16 in (move_design x y design, vmem_set_only_cursor x y s))"

definition vmem_set_cursor_ex ::
  "vmem_design option \<Rightarrow> u64 \<Rightarrow> u64 \<Rightarrow> io_state \<Rightarrow> vmem_design option \<times> io_state" where
  "vmem_set_cursor_ex design cx cy s =
     (let x = (if drop_bit 63 cx AND 1 \<noteq> 0 then cx * 8 else cx);
          y = (if drop_bit 63 cy AND 1 \<noteq> 0 then cy * 16 else cy)
      in (move_design x y design, vmem_set_only_cursor x y s))"

definition vmem_disable_cursor :: "io_state \<Rightarrow> io_state" where
  "vmem_disable_cursor s =
     (if \<not> vmem_active s \<or> vmem_mode s \<noteq> UNIBOOT_FB_MODE_VGA then s
      else outb 0x3D5 0x20 (outb 0x3D4 0x0A s))"

subsection \<open>Cells, clearing and scrolling\<close>

text \<open>The store to cell \<open>i\<close> of the text mode.\<close>

definition put_cell :: "u64 \<Rightarrow> u16 \<Rightarrow> io_state \<Rightarrow> io_state option" where
  "put_cell i w s = store_bytes (IO_VMEM_true s + 2 * i) (word_bytes w) s"

definition attribute :: "vmem_design \<Rightarrow> u16" where
  "attribute d = push_bit 4 (color_code (bg d)) OR color_code (fg d)"

text \<open>The counter of the loop has 16 bits, so more cells than it can count are never done.\<close>

partial_function (option) clear_cells :: "u16 \<Rightarrow> u16 \<Rightarrow> io_state \<Rightarrow> io_state option" where
  "clear_cells i w s =
     (if ucast i < MAX_COLS s * MAX_ROWS s then do {
        s \<leftarrow> put_cell (ucast i) w s;
        clear_cells (i + 1) w s
      }
      else Some s)"

definition fb_do :: "(mem \<Rightarrow> mem option) \<Rightarrow> io_state \<Rightarrow> io_state option" where
  "fb_do f s = do { m \<leftarrow> f (io_mem s); Some (s\<lparr>io_mem := m\<rparr>) }"

definition vmem_clear_screen :: "vmem_design \<Rightarrow> io_state \<Rightarrow> (vmem_design \<times> io_state) option" where
  "vmem_clear_screen d s =
     (if \<not> vmem_active s then Some (d, s)
      else do {
        s \<leftarrow> (if vmem_mode s = UNIBOOT_FB_MODE_UEFI_GOP
          then fb_do (fb_clear (vmem_fbi s) (vmem_convert_color_to_rgba (bg d) s)) s
          else clear_cells 0 (push_bit 8 (attribute d)) s);
        Some (d\<lparr>pos_x := 0, pos_y := 0\<rparr>, s)
      })"

fun blank_cells :: "u64 \<Rightarrow> u16 \<Rightarrow> nat \<Rightarrow> io_state \<Rightarrow> io_state option" where
  "blank_cells a w 0 s = Some s"
| "blank_cells a w (Suc n) s = do { s \<leftarrow> store_bytes a (word_bytes w) s; blank_cells (a + 2) w n s }"

definition vmem_scroll_up ::
  "vmem_design \<Rightarrow> u32 \<Rightarrow> VMemColors \<Rightarrow> io_state \<Rightarrow> (vmem_design \<times> io_state) option" where
  "vmem_scroll_up d lines color s =
     (if \<not> vmem_active s then Some (d, s)
      else if vmem_mode s = UNIBOOT_FB_MODE_UEFI_GOP then do {
        s \<leftarrow> fb_do (fb_scroll_up (vmem_fbi s) lines (vmem_convert_color_to_rgba color s)) s;
        Some (d, s)
      }
      else if ucast lines \<ge> MAX_ROWS s then vmem_clear_screen d s
      else do {
        let base = IO_VMEM_true s;
        let move_size = (MAX_ROWS s - ucast lines) * 2;
        s \<leftarrow> fb_do (\<lambda>m. map_option snd (memmove base (base + ucast lines * 2) move_size m)) s;
        let blank = push_bit 8 (color_code color) OR 0x20;
        s \<leftarrow> blank_cells (base + move_size) blank (unat lines) s;
        Some (d, s)
      })"

subsection \<open>Characters\<close>

text \<open>The end of a line of the text mode that has run past the last row.\<close>

definition next_row :: "vmem_design \<Rightarrow> io_state \<Rightarrow> (vmem_design \<times> io_state) option" where
  "next_row d s =
     (let d = d\<lparr>pos_x := 0, pos_y := pos_y d + 1\<rparr> in
      if pos_y d \<ge> MAX_ROWS s then
        if scrolls d then vmem_scroll_up d 1 (bg d) s else Some (d\<lparr>pos_y := 0\<rparr>, s)
      else Some (d, s))"

definition text_printc :: "vmem_design \<Rightarrow> u8 \<Rightarrow> io_state \<Rightarrow> (vmem_design \<times> io_state) option" where
  "text_printc d c s =
     (let attr = attribute d in
      if c = 0x0A then next_row d s
      else if c = 0x08 then
        if pos_x d = 0 \<and> pos_y d = 0 then Some (d, s)
        else do {
          let d = (if pos_x d > 0 then d\<lparr>pos_x := pos_x d - 1\<rparr>
            else d\<lparr>pos_x := MAX_COLS s - 1, pos_y := pos_y d - 1\<rparr>);
          let s = vmem_set_only_cursor (pos_x d) (pos_y d) s;
          s \<leftarrow> put_cell (pos_y d * MAX_COLS s + pos_x d) (push_bit 8 attr OR 0x20) s;
          Some (d, s)
        }
      else do {
        s \<leftarrow> put_cell (pos_y d * MAX_COLS s + pos_x d) (push_bit 8 attr OR scast c) s;
        let d = d\<lparr>pos_x := pos_x d + 1\<rparr>;
        if pos_x d \<ge> MAX_COLS s then next_row d s else Some (d, s)
      })"

definition gop_printc ::
  "io_env \<Rightarrow> vmem_design \<Rightarrow> u8 \<Rightarrow> io_state \<Rightarrow> (vmem_design \<times> io_state) option" where
  "gop_printc e d c s = do {
     let cur = \<lparr>cur_x = ucast (pos_x d), cur_y = ucast (pos_y d),
       fg_color = vmem_convert_color_to_rgba (fg d) s, bg_color = vmem_convert_color_to_rgba (bg d) s,
       auto_scroll = scrolls d\<rparr>;
     (cur, m) \<leftarrow> fb_printc (font8x16 e) (vmem_fbi s) cur c (io_mem s);
     Some (d\<lparr>pos_x := ucast (cur_x cur), pos_y := ucast (cur_y cur)\<rparr>, s\<lparr>io_mem := m\<rparr>)
   }"

definition vmem_printc ::
  "io_env \<Rightarrow> u8 \<Rightarrow> vmem_design \<times> io_state \<Rightarrow> (vmem_design \<times> io_state) option" where
  "vmem_printc e c = (\<lambda>(d, s). do {
     s \<leftarrow> (if serial_out d then do {
         s \<leftarrow> serial_printc e c s;
         if c = 0x08 then do { s \<leftarrow> serial_printc e 0x20 s; serial_printc e 0x08 s } else Some s
       } else Some s);
     if \<not> vmem_active s then Some (d, s)
     else do {
       let d = (if pos_x d \<ge> ucast (width (vmem_fbi s)) then d\<lparr>pos_x := ucast (width (vmem_fbi s))\<rparr> else d);
       let d = (if pos_y d \<ge> ucast (height (vmem_fbi s)) then d\<lparr>pos_y := ucast (height (vmem_fbi s))\<rparr> else d);
       let s = vmem_set_only_cursor (pos_x d) (pos_y d) s;
       if vmem_mode s = UNIBOOT_FB_MODE_UEFI_GOP then gop_printc e d c s else text_printc d c s
     }
   })"

fun vmem_print ::
  "io_env \<Rightarrow> u8 list \<Rightarrow> vmem_design \<times> io_state \<Rightarrow> (vmem_design \<times> io_state) option" where
  "vmem_print e [] ds = Some ds"
| "vmem_print e (c # cs) ds = do { ds \<leftarrow> vmem_printc e c ds; vmem_print e cs ds }"

text \<open>\<open>vmem_printf\<close> is the formatter over the screen; only a dump touches the log's flag.\<close>

definition vmem_printer :: "io_env \<Rightarrow> (vmem_design \<times> io_state) printer" where
  "vmem_printer e =
     \<lparr>putc = vmem_printc e, puts = vmem_print e, after_str = id,
      after_S = (\<lambda>(d, s). (d, s\<lparr>klog_msg_started := True\<rparr>)), hex_signed = False\<rparr>"

definition vmem_print_ex_string :: "io_env \<Rightarrow> u8 list \<Rightarrow> int \<Rightarrow> bool \<Rightarrow> vmem_design \<times> io_state \<Rightarrow> (vmem_design \<times> io_state) option" where
  "vmem_print_ex_string e = print_ex_string (vmem_printer e)"

definition vmem_print_ex_integer ::
  "io_env \<Rightarrow> u64 \<Rightarrow> int \<Rightarrow> int \<Rightarrow> bool \<Rightarrow> bool \<Rightarrow> bool \<Rightarrow> vmem_design \<times> io_state \<Rightarrow> (vmem_design \<times> io_state) option" where
  "vmem_print_ex_integer e = print_ex_integer (vmem_printer e)"

definition vmem_print_ex_float ::
  "io_env \<Rightarrow> (int \<Rightarrow> u8 list option) \<Rightarrow> int \<Rightarrow> int \<Rightarrow> bool \<Rightarrow> vmem_design \<times> io_state \<Rightarrow> (vmem_design \<times> io_state) option" where
  "vmem_print_ex_float e = print_ex_float (vmem_printer e)"

definition vmem_printf ::
  "io_env \<Rightarrow> u8 list \<Rightarrow> va list \<Rightarrow> vmem_design \<times> io_state \<Rightarrow> (vmem_design \<times> io_state) option" where
  "vmem_printf e fmt args ds = printf_loop (vmem_printer e) fmt args ds"

subsection \<open>Colors in memory\<close>

lemma no_high_bit: "8 \<le> k \<Longrightarrow> \<not> bit (b :: u8) (k + n)"
  using bit_imp_le_length [of b "k + n"] by auto

lemma byte_of_bytes4:
  "ucast (bytes4 b3 b2 b1 b0) = b0" "ucast (drop_bit 8 (bytes4 b3 b2 b1 b0)) = b1"
  "ucast (drop_bit 16 (bytes4 b3 b2 b1 b0)) = b2" "ucast (drop_bit 24 (bytes4 b3 b2 b1 b0)) = b3"
  by (auto intro!: bit_word_eqI simp: bytes4_def bit_simps no_high_bit)

lemma low_byte: "w AND 0xFF = ucast (ucast (w :: u32) :: u8)"
proof (rule bit_word_eqI)
  fix n
  have m: "(0xFF :: u32) = mask 8" by (simp add: mask_eq_exp_minus_1)
  show "bit (w AND 0xFF) n = bit (ucast (ucast w :: u8) :: u32) n"
    unfolding m by (auto simp: bit_simps)
qed

lemma swap_bytes4: "swap_color (bytes4 b3 b2 b1 b0) = bytes4 b0 b1 b2 b3"
  by (simp add: swap_color_def low_byte byte_of_bytes4) (simp add: bytes4_def)

lemma dword_bytes4: "dword_bytes (bytes4 b3 b2 b1 b0) = [b0, b1, b2, b3]"
  by (simp add: dword_bytes_def byte_of_bytes4)

text \<open>the four bytes that a pixel of a converted color has in the framebuffer, in the order of
  their addresses, are the components in the order the format names them, and for the two
  formats of three components a zero byte before them.
\<close>

lemma pixel_bytes_of_color:
  "dword_bytes (swap_color (pyrion_convert_color r g b a fmt)) =
    (case fmt of
       PYRION_COLORF_RGBA \<Rightarrow> [r, g, b, a] | PYRION_COLORF_BGRA \<Rightarrow> [b, g, r, a]
     | PYRION_COLORF_ABGR \<Rightarrow> [a, b, g, r] | PYRION_COLORF_ARGB \<Rightarrow> [a, r, g, b]
     | PYRION_COLORF_RGB \<Rightarrow> [0, r, g, b] | PYRION_COLORF_BGR \<Rightarrow> [0, b, g, r])"
  by (cases fmt) (simp_all add: swap_bytes4 dword_bytes4)

subsection \<open>The last row of the text mode\<close>

text \<open>
  Scrolling at the last row leaves the cursor below the screen: the next character is stored
  behind the cells.
\<close>

lemma write_bytes_two:
  "m a \<noteq> None \<Longrightarrow> m (a + 1) \<noteq> None \<Longrightarrow>
   write_bytes a (word_bytes w) m = Some (m(a \<mapsto> ucast w, a + 1 \<mapsto> ucast (drop_bit 8 w)))"
  by (simp add: word_bytes_def write_byte_mapped)

lemma text_newline_leaves_screen:
  assumes vga: "vmem_active s" "vmem_mode s = UNIBOOT_FB_MODE_VGA"
    and screen: "1 < MAX_ROWS s" "unat (MAX_ROWS s) < 65536" "IO_VMEM_true s \<noteq> 0"
      "unat (IO_VMEM_true s) < 2 ^ 63" "mapped (io_mem s) (IO_VMEM_true s) (2 * unat (MAX_ROWS s))"
    and last_row: "scrolls d" "pos_y d = MAX_ROWS s - 1"
  shows "\<exists>s'. text_printc d 0x0A s = Some (d\<lparr>pos_x := 0, pos_y := MAX_ROWS s\<rparr>, s')"
proof -
  define n where "n = (MAX_ROWS s - 1) * 2"
  let ?base = "IO_VMEM_true s" and ?r = "unat (MAX_ROWS s)"
  have r1: "unat (MAX_ROWS s - 1) = ?r - 1" "1 < ?r"
    using screen(1) by (simp_all add: unat_minus_u64 word_less_nat_alt word_le_nat_alt)
  have n: "unat n = 2 * (?r - 1)" unfolding n_def using screen(2) by (subst unat_mult_u64) (simp_all add: r1)
  have b2: "unat (?base + 2) = unat ?base + 2" using screen(4) by (subst unat_plus_u64) simp_all
  have md: "mapped (io_mem s) ?base (unat n)" using screen(5) by (rule mapped_mono) (simp add: n)
  have ms: "mapped (io_mem s) (?base + of_nat 2) (unat n)"
  proof (rule mapped_drop)
    have "unat n + 2 = 2 * ?r" using n r1(2) by simp
    then show "mapped (io_mem s) ?base (unat n + 2)" using screen(5) by (simp only:)
  qed
  have mv: "memmove ?base (?base + 2) n (io_mem s) =
      Some (if ?base < ?base + 2 then ?base + n else ?base, copied (io_mem s) ?base (?base + 2) (unat n))"
    using screen ms md b2
    by (intro memmove_copied) (auto simp: n word_neq_0_conv simp flip: unat_eq_zero)
  let ?m = "copied (io_mem s) ?base (?base + 2) (unat n)"
  have mm: "mapped ?m ?base (2 * ?r)"
    using screen(5) ms by (auto simp: mapped_def copied_def)
  have "?m (?base + n) \<noteq> None" "?m (?base + n + 1) \<noteq> None"
  proof -
    have c: "unat n < 2 * ?r" "unat n + 1 < 2 * ?r" using n r1(2) by auto
    show "?m (?base + n) \<noteq> None" "?m (?base + n + 1) \<noteq> None"
      using mapped_nth [OF mm c(1)] mapped_nth [OF mm c(2)]
      by (simp_all only: of_nat_add of_nat_unat of_nat_1 add.assoc) auto
  qed
  then have "\<exists>s'. store_bytes (?base + n) (word_bytes w) (s\<lparr>io_mem := ?m\<rparr>) = Some s'" for w
    by (simp add: store_bytes_def write_bytes_two)
  then obtain s' where "store_bytes (?base + n) (word_bytes (push_bit 8 (color_code (bg d)) OR 0x20))
      (s\<lparr>io_mem := ?m\<rparr>) = Some s'" by blast
  then show ?thesis
    using vga screen(1) last_row mv unfolding n_def
    by (auto simp: text_printc_def next_row_def vmem_scroll_up_def fb_do_def Let_def
        UNIBOOT_FB_MODE_VGA_def UNIBOOT_FB_MODE_UEFI_GOP_def not_le)
qed

end
