(* ===== verification/Keyboard.thy ===== *)
theory Keyboard
  imports IoPorts
begin

text \<open>
  The PS/2 controller of \<^verbatim>\<open>Kernel/drivers/io/io.c\<close> (\<open>is_ps2_present\<close>, \<open>ps2_init\<close>,
  \<open>ps2_read_scan\<close>, \<open>ps2_try_read_scan\<close>) and the keyboard of
  \<^verbatim>\<open>Kernel/drivers/keyboard/keyboard.c\<close>: scan codes to characters, with the shift and caps-lock
  state. The locks are taken and released on every path and are left out. \<open>ps2_read_line\<close>,
  which also prints, is in \<open>Console\<close>.
\<close>

subsection \<open>The controller\<close>

text \<open>\<open>None\<close>: the controller never answers.\<close>

partial_function (option) ps2_drain :: "device \<Rightarrow> trace \<Rightarrow> trace option" where
  "ps2_drain d t =
     (let (s, t) = asm_inb d 0x64 t in
      if s AND 0x01 \<noteq> 0 then let (_, t) = asm_inb d 0x60 t in ps2_drain d t else Some t)"

fun ps2_echo_loop :: "device \<Rightarrow> nat \<Rightarrow> trace \<Rightarrow> bool \<times> trace" where
  "ps2_echo_loop d 0 t = (False, t)"
| "ps2_echo_loop d (Suc i) t =
     (let (s, t) = asm_inb d 0x64 t in
      if s AND 0x01 \<noteq> 0 then let (resp, t) = asm_inb d 0x60 t in (resp = 0xEE, t)
      else ps2_echo_loop d i t)"

definition is_ps2_present :: "device \<Rightarrow> trace \<Rightarrow> (bool \<times> trace) option" where
  "is_ps2_present d t = do {
     t \<leftarrow> ps2_drain d t;
     let t = asm_outb 0x60 0xEE t;
     Some (ps2_echo_loop d 500000 t)
   }"

partial_function (option) ps2_wait_input_empty :: "device \<Rightarrow> trace \<Rightarrow> trace option" where
  "ps2_wait_input_empty d t =
     (let (s, t) = asm_inb d 0x64 t in
      if s AND 0x02 \<noteq> 0 then ps2_wait_input_empty d t else Some t)"

partial_function (option) ps2_wait_output_full :: "device \<Rightarrow> trace \<Rightarrow> trace option" where
  "ps2_wait_output_full d t =
     (let (s, t) = asm_inb d 0x64 t in
      if s AND 0x01 = 0 then ps2_wait_output_full d t else Some t)"

definition keyboard_send :: "device \<Rightarrow> u8 \<Rightarrow> trace \<Rightarrow> trace option" where
  "keyboard_send d val t = do {
     t \<leftarrow> ps2_wait_input_empty d t;
     Some (asm_outb 0x60 val t)
   }"

definition keyboard_read :: "device \<Rightarrow> trace \<Rightarrow> (u8 \<times> trace) option" where
  "keyboard_read d t = do {
     t \<leftarrow> ps2_wait_output_full d t;
     Some (asm_inb d 0x60 t)
   }"

definition ps2_init :: "device \<Rightarrow> trace \<Rightarrow> trace option" where
  "ps2_init d t = do {
     t \<leftarrow> ps2_wait_input_empty d t;
     let t = asm_outb 0x64 0x20 t;
     t \<leftarrow> ps2_wait_output_full d t;
     let (config, t) = asm_inb d 0x60 t;
     let config = config OR 1;
     let config = config AND NOT (push_bit 4 1);
     t \<leftarrow> ps2_wait_input_empty d t;
     let t = asm_outb 0x64 0x60 t;
     t \<leftarrow> ps2_wait_input_empty d t;
     let t = asm_outb 0x60 config t;
     t \<leftarrow> keyboard_send d 0xF0 t;
     (resp, t) \<leftarrow> keyboard_read d t;
     t \<leftarrow> (if resp = 0xFA then keyboard_send d 0x01 t else Some t);
     keyboard_send d 0xF4 t
   }"

text \<open>Both return an \<open>int16_t\<close>; -1 is no scan code.\<close>

definition ps2_read_scan :: "device \<Rightarrow> trace \<Rightarrow> (u16 \<times> trace) option" where
  "ps2_read_scan d t = do {
     t \<leftarrow> ps2_wait_output_full d t;
     let (out, t) = asm_inb d 0x60 t;
     Some (ucast out, t)
   }"

definition ps2_try_read_scan :: "device \<Rightarrow> trace \<Rightarrow> u16 \<times> trace" where
  "ps2_try_read_scan d t =
     (let (s, t) = asm_inb d 0x64 t in
      if s AND 1 = 0 then (- 1, t)
      else let (out, t) = asm_inb d 0x60 t in (ucast out, t))"

subsection \<open>The keyboard\<close>

record keyboard_state =
  lshift :: bool
  rshift :: bool
  capslock :: bool

definition SHIFT_DOWN :: "keyboard_state \<Rightarrow> bool" where
  "SHIFT_DOWN s \<longleftrightarrow> lshift s \<or> rshift s"

text \<open>The two tables; what they do not list is 0.\<close>

definition keymap_table :: "(nat \<times> u8) list" where
  "keymap_table =
     [(0x01, 27),
      (0x02, 0x31), (0x03, 0x32), (0x04, 0x33), (0x05, 0x34), (0x06, 0x35), (0x07, 0x36),
      (0x08, 0x37), (0x09, 0x38), (0x0A, 0x39), (0x0B, 0x30), (0x0C, 0x2D), (0x0D, 0x3D),
      (0x0E, 0x08), (0x0F, 0x09),
      (0x10, 0x71), (0x11, 0x77), (0x12, 0x65), (0x13, 0x72), (0x14, 0x74), (0x15, 0x79),
      (0x16, 0x75), (0x17, 0x69), (0x18, 0x6F), (0x19, 0x70), (0x1A, 0x5B), (0x1B, 0x5D),
      (0x1C, 0x0A),
      (0x1E, 0x61), (0x1F, 0x73), (0x20, 0x64), (0x21, 0x66), (0x22, 0x67), (0x23, 0x68),
      (0x24, 0x6A), (0x25, 0x6B), (0x26, 0x6C), (0x27, 0x3B), (0x28, 0x27), (0x29, 0x60),
      (0x2B, 0x5C),
      (0x2C, 0x7A), (0x2D, 0x78), (0x2E, 0x63), (0x2F, 0x76), (0x30, 0x62), (0x31, 0x6E),
      (0x32, 0x6D), (0x33, 0x2C), (0x34, 0x2E), (0x35, 0x2F), (0x39, 0x20),
      (0x47, 0x37), (0x48, 0x38), (0x49, 0x39), (0x4B, 0x34), (0x4C, 0x35), (0x4D, 0x36),
      (0x4F, 0x31), (0x50, 0x32), (0x51, 0x33), (0x52, 0x30), (0x53, 0x2E),
      (0x37, 0x2A), (0x4A, 0x2D), (0x4E, 0x2B)]"

definition keymap_shift_table :: "(nat \<times> u8) list" where
  "keymap_shift_table =
     [(0x02, 0x21), (0x03, 0x40), (0x04, 0x23), (0x05, 0x24), (0x06, 0x25), (0x07, 0x5E),
      (0x08, 0x26), (0x09, 0x2A), (0x0A, 0x28), (0x0B, 0x29), (0x0C, 0x5F), (0x0D, 0x2B),
      (0x1A, 0x7B), (0x1B, 0x7D), (0x27, 0x3A), (0x28, 0x22), (0x29, 0x7E), (0x2B, 0x7C),
      (0x33, 0x3C), (0x34, 0x3E), (0x35, 0x3F), (0x37, 0x2A), (0x4A, 0x2D), (0x4E, 0x2B)]"

definition keymap :: "u16 \<Rightarrow> u8" where
  "keymap sc = (case map_of keymap_table (unat sc) of Some c \<Rightarrow> c | None \<Rightarrow> 0)"

definition keymap_shift :: "u16 \<Rightarrow> u8" where
  "keymap_shift sc = (case map_of keymap_shift_table (unat sc) of Some c \<Rightarrow> c | None \<Rightarrow> 0)"

definition update_state :: "u16 \<Rightarrow> keyboard_state \<Rightarrow> keyboard_state" where
  "update_state sc s =
     (if sc = 0x2A then s\<lparr>lshift := True\<rparr>
      else if sc = 0x36 then s\<lparr>rshift := True\<rparr>
      else if sc = 0xAA then s\<lparr>lshift := False\<rparr>
      else if sc = 0xB6 then s\<lparr>rshift := False\<rparr>
      else if sc = 0x3A then s\<lparr>capslock := \<not> capslock s\<rparr>
      else s)"

definition is_letter :: "u8 \<Rightarrow> bool" where
  "is_letter ch \<longleftrightarrow> 0x61 \<le> ch \<and> ch \<le> 0x7A \<or> 0x41 \<le> ch \<and> ch \<le> 0x5A"

text \<open>What both readers do with the scan code they read.\<close>

definition scan_char :: "u16 \<Rightarrow> keyboard_state \<Rightarrow> u8 \<times> keyboard_state" where
  "scan_char sc_raw s =
     (if sint sc_raw < 0 then (0, s)
      else let sc = sc_raw; s = update_state sc s in
        if sc AND 0x80 \<noteq> 0 then (0, s)
        else if \<not> sc < 128 then (ucast sc, s)
        else let ch = keymap sc in
          if is_letter ch then
            (if SHIFT_DOWN s \<noteq> capslock s then ch - 32 else ch, s)
          else if SHIFT_DOWN s \<and> keymap_shift sc \<noteq> 0 then (keymap_shift sc, s)
          else (ch, s))"

definition keyboard_ps2_get_char ::
  "device \<Rightarrow> keyboard_state \<Rightarrow> trace \<Rightarrow> (u8 \<times> keyboard_state \<times> trace) option" where
  "keyboard_ps2_get_char d s t = do {
     (sc, t) \<leftarrow> ps2_read_scan d t;
     let (ch, s) = scan_char sc s;
     Some (ch, s, t)
   }"

definition keyboard_ps2_try_get_char ::
  "device \<Rightarrow> keyboard_state \<Rightarrow> trace \<Rightarrow> u8 \<times> keyboard_state \<times> trace" where
  "keyboard_ps2_try_get_char d s t =
     (let (sc, t) = ps2_try_read_scan d t; (ch, s) = scan_char sc s in (ch, s, t))"

subsection \<open>The state as a function of the keys\<close>

text \<open>
  Specification. A shift key is held when the last of its press and release codes was the
  press; caps lock is on when it was pressed an odd number of times.
\<close>

definition held :: "u8 \<Rightarrow> u8 \<Rightarrow> u8 list \<Rightarrow> bool" where
  "held press release codes \<longleftrightarrow>
     (case filter (\<lambda>c. c = press \<or> c = release) codes of [] \<Rightarrow> False
      | _ \<Rightarrow> last (filter (\<lambda>c. c = press \<or> c = release) codes) = press)"

definition caps_on :: "u8 list \<Rightarrow> bool" where
  "caps_on codes \<longleftrightarrow> odd (length (filter (\<lambda>c. c = 0x3A) codes))"

definition shift_on :: "u8 list \<Rightarrow> bool" where
  "shift_on codes \<longleftrightarrow> held 0x2A 0xAA codes \<or> held 0x36 0xB6 codes"

text \<open>The scan codes the driver has taken from the data port.\<close>

fun scans :: "device \<Rightarrow> trace \<Rightarrow> u8 list" where
  "scans d [] = []"
| "scans d (Inb p # t) = scans d t @ (if p = 0x60 then [in8 d t p] else [])"
| "scans d (e # t) = scans d t"

text \<open>The state that belongs to the codes read so far.\<close>

definition tracks :: "u8 list \<Rightarrow> keyboard_state \<Rightarrow> bool" where
  "tracks codes s \<longleftrightarrow>
     lshift s = held 0x2A 0xAA codes \<and> rshift s = held 0x36 0xB6 codes \<and> capslock s = caps_on codes"

text \<open>The character of a key, given which modifiers are on.\<close>

definition key_char :: "u8 \<Rightarrow> bool \<Rightarrow> bool \<Rightarrow> u8" where
  "key_char code shift caps =
     (let c = keymap (ucast code); upper = keymap_shift (ucast code) in
      if 0x80 \<le> code then 0
      else if 0x61 \<le> c \<and> c \<le> 0x7A then (if shift \<noteq> caps then c - 32 else c)
      else if shift \<and> upper \<noteq> 0 then upper else c)"

lemma held_Nil [simp]: "\<not> held p r []"
  by (simp add: held_def)

lemma held_snoc: "held p r (codes @ [c]) \<longleftrightarrow> c = p \<or> c \<noteq> r \<and> held p r codes"
  by (auto simp: held_def split: list.splits)

lemma caps_snoc: "caps_on (codes @ [c]) \<longleftrightarrow> (caps_on codes \<noteq> (c = 0x3A))"
  by (simp add: caps_on_def)

lemma ucast_code_eq: "(ucast (c :: u8) :: u16) = ucast k \<longleftrightarrow> c = (k :: u8)"
proof
  assume "(ucast c :: u16) = ucast k"
  then have "(ucast (ucast c :: u16) :: u8) = ucast (ucast k :: u16)" by simp
  then show "c = k" by (simp add: ucast_up_ucast_id is_up)
qed simp

lemma tracks_update:
  assumes "tracks codes s"
  shows "tracks (codes @ [c]) (update_state (ucast c) s)"
  using assms ucast_code_eq [of c "0x2A"] ucast_code_eq [of c "0x36"] ucast_code_eq [of c "0xAA"]
    ucast_code_eq [of c "0xB6"] ucast_code_eq [of c "0x3A"]
  by (auto simp: tracks_def update_state_def held_snoc caps_snoc)

lemma keymap_no_capitals: "\<not> (0x41 \<le> keymap sc \<and> keymap sc \<le> 0x5A)"
proof (cases "map_of keymap_table (unat sc)")
  case None
  then show ?thesis by (simp add: keymap_def)
next
  case (Some c)
  have "list_all (\<lambda>(k, c). \<not> (0x41 \<le> c \<and> c \<le> 0x5A)) keymap_table"
    by (simp add: keymap_table_def)
  then have "\<not> (0x41 \<le> c \<and> c \<le> 0x5A)"
    using map_of_SomeD [OF Some] by (auto simp: list_all_iff)
  then show ?thesis by (simp add: keymap_def Some)
qed

lemma scan_char_code:
  fixes c :: u8
  assumes "tracks codes s" "scan_char (ucast c) s = (ch, s')"
  shows "tracks (codes @ [c]) s' \<and>
    ch = key_char c (shift_on (codes @ [c])) (caps_on (codes @ [c]))"
proof -
  let ?s = "update_state (ucast c) s"
  have l: "unat c < 256" using unsigned_less [of c, where ?'a = nat] by simp
  then have u: "unat (ucast c :: u16) = unat c" by (simp add: unsigned_ucast_eq take_bit_nat_eq_self)
  then have "\<not> sint (ucast c :: u16) < 0"
    using bit_imp_le_length [of c 15] by (auto simp: sint_uint signed_take_bit_eq_if_positive bit_simps)
  moreover have "(ucast c AND 0x80 :: u16) \<noteq> 0 \<longleftrightarrow> 0x80 \<le> c"
  proof -
    have "(ucast c AND 0x80 :: u16) \<noteq> 0 \<longleftrightarrow> bit (ucast c :: u16) 7"
      using and_exp_eq_0_iff_not_bit [of "ucast c :: u16" 7] by simp
    also have "\<dots> \<longleftrightarrow> odd (unat c div 128)" 
      using bit_unsigned_iff [where ?'a = nat, of c 7] by (simp add: bit_simps bit_nat_def)
    also have "\<dots> \<longleftrightarrow> 0 < unat c div 128"
      using l less_mult_imp_div_less [of "unat c" 2 128] by (cases "unat c div 128") auto
    also have "\<dots> \<longleftrightarrow> 0x80 \<le> c" by (simp add: div_greater_zero_iff word_le_nat_alt)
    finally show ?thesis .
  qed
  moreover have "(ucast c :: u16) < 128 \<longleftrightarrow> \<not> 0x80 \<le> c"
    by (simp add: word_less_nat_alt word_le_nat_alt u not_le)
  moreover have t: "tracks (codes @ [c]) ?s" using assms(1) by (rule tracks_update)
  ultimately show ?thesis
    using assms(2) keymap_no_capitals [of "ucast c"]
    by (auto simp: scan_char_def key_char_def Let_def is_letter_def SHIFT_DOWN_def shift_on_def
        tracks_def split: if_splits)
qed

subsection \<open>The readers\<close>

lemma wait_output_full_scans:
  assumes "ps2_wait_output_full d t = Some t'"
  shows "scans d t' = scans d t"
proof (rule ps2_wait_output_full.raw_induct [where P = "\<lambda>d t t'. scans d t' = scans d t", OF _ assms])
  fix f :: "device \<Rightarrow> trace \<Rightarrow> trace option" and d t t'
  assume IH: "\<And>d t t'. f d t = Some t' \<Longrightarrow> scans d t' = scans d t"
    and r: "(let (s, t) = asm_inb d 0x64 t in if s AND 0x01 = 0 then f d t else Some t) = Some t'"
  show "scans d t' = scans d t"
    using r by (auto simp: port_defs split: if_splits dest: IH)
qed

text \<open>The controller has a scan code after \<open>n\<close> readings of its status.\<close>

definition ready_after :: "device \<Rightarrow> trace \<Rightarrow> nat \<Rightarrow> bool" where
  "ready_after d t n \<longleftrightarrow> in8 d (replicate n (Inb 0x64) @ t) 0x64 AND 0x01 \<noteq> 0"

lemma wait_output_full_returns:
  assumes "ready_after d t n"
  shows "\<exists>t'. ps2_wait_output_full d t = Some t'"
proof (rule polling_returns [where E = "\<lambda>u. in8 d u 0x64 AND 0x01 \<noteq> 0" and step = "\<lambda>u. Inb 0x64 # u"])
  fix u assume "ps2_wait_output_full d u = None"
  then show "\<not> in8 d u 0x64 AND 0x01 \<noteq> 0 \<and> ps2_wait_output_full d (Inb 0x64 # u) = None"
    by (subst (asm) ps2_wait_output_full.simps) (auto simp: port_defs split: if_splits)
next
  have "((\<lambda>u. Inb 0x64 # u) ^^ n) t = replicate n (Inb 0x64) @ t" by (induction n) auto
  then show "in8 d (((\<lambda>u. Inb 0x64 # u) ^^ n) t) 0x64 AND 0x01 \<noteq> 0"
    using assms by (simp add: ready_after_def)
qed

text \<open>C17: when the controller ever has a scan code, \<open>keyboard_ps2_get_char\<close> takes exactly one and
  returns its character, and it keeps the shift and caps-lock state equal to what the whole
  history of scan codes says: a shift key counts while its last code was the press, caps lock
  after an odd number of presses; letters are capital when exactly one of the two is on, other
  keys follow shift alone.
\<close>

theorem keyboard_get_char_follows_history:
  assumes "ready_after d t n" and "tracks (scans d t) s"
  shows "\<exists>ch s' t' code. keyboard_ps2_get_char d s t = Some (ch, s', t') \<and>
    scans d t' = scans d t @ [code] \<and> tracks (scans d t') s' \<and>
    ch = key_char code (shift_on (scans d t')) (caps_on (scans d t'))"
proof -
  obtain t1 where t1: "ps2_wait_output_full d t = Some t1"
    using wait_output_full_returns [OF assms(1)] by blast
  let ?c = "in8 d t1 0x60"
  obtain ch s' where k: "scan_char (ucast ?c) s = (ch, s')" by fastforce
  have sc: "scans d (Inb 0x60 # t1) = scans d t @ [?c]"
    by (simp add: wait_output_full_scans [OF t1])
  have "keyboard_ps2_get_char d s t = Some (ch, s', Inb 0x60 # t1)"
    by (simp add: keyboard_ps2_get_char_def ps2_read_scan_def t1 port_defs k)
  moreover have "tracks (scans d t @ [?c]) s' \<and>
      ch = key_char ?c (shift_on (scans d t @ [?c])) (caps_on (scans d t @ [?c]))"
    using assms(2) k by (rule scan_char_code)
  ultimately show ?thesis
    by (intro exI [of _ ch] exI [of _ s'] exI [of _ "Inb 0x60 # t1"] exI [of _ ?c]) (simp only: sc simp_thms)
qed

text \<open>A keyboard that sends the given codes one after the other, and then the last one again.\<close>

definition typing :: "u8 list \<Rightarrow> device" where
  "typing codes =
     \<lparr>in8 = (\<lambda>t p. if p = 0x64 then 1
        else codes ! min (length codes - 1) (length (filter (\<lambda>e. e = Inb 0x60) t))),
      in16 = (\<lambda>_ _. 0), in32 = (\<lambda>_ _. 0), tsc = (\<lambda>_. 0), mmio32 = (\<lambda>_ _. 0),
      timer = \<lparr>rdtscp_supported = False, tsc_ticks_per_ms = 1, bootup_timestamp = 0\<rparr>\<rparr>"

lemma keyboard_get_char_follows_history_witness:
  "\<exists>ch s' t' code. keyboard_ps2_get_char (typing [0x2A, 0x1E])
      \<lparr>lshift = True, rshift = False, capslock = False\<rparr> [Inb 0x60, Inb 0x64] = Some (ch, s', t') \<and>
    scans (typing [0x2A, 0x1E]) t' = [0x2A] @ [code] \<and> tracks (scans (typing [0x2A, 0x1E]) t') s' \<and>
    ch = key_char code (shift_on (scans (typing [0x2A, 0x1E]) t'))
      (caps_on (scans (typing [0x2A, 0x1E]) t'))"
proof -
  have s: "scans (typing [0x2A, 0x1E]) [Inb 0x60, Inb 0x64] = [0x2A]" by (simp add: typing_def)
  have "tracks [0x2A] \<lparr>lshift = True, rshift = False, capslock = False\<rparr>"
    by (simp add: tracks_def held_def caps_on_def)
  then show ?thesis
    using keyboard_get_char_follows_history [of "typing [0x2A, 0x1E]" "[Inb 0x60, Inb 0x64]" 0
        "\<lparr>lshift = True, rshift = False, capslock = False\<rparr>"]
    by (simp add: ready_after_def typing_def s)
qed

text \<open>Shift and a letter; an arrow key types a digit, as its prefix \<open>0xE0\<close> is dropped.\<close>

lemma shifted_letter: "key_char 0x1E True False = 0x41" "key_char 0x1E True True = 0x61"
  by (simp_all add: key_char_def keymap_def keymap_table_def keymap_shift_def keymap_shift_table_def)

lemma arrow_up_types_8: "key_char 0xE0 shift caps = 0" "key_char 0x48 False caps = 0x38"
  by (simp_all add: key_char_def keymap_def keymap_table_def keymap_shift_def keymap_shift_table_def)

end
