(* ===== verification/Console.thy ===== *)
theory Console
  imports Vmem Keyboard
begin

text \<open>
  \<open>ps2_read_line\<close> of \<^verbatim>\<open>Kernel/drivers/io/io.c\<close>, the line editor over the keyboard and the
  screen, and what the line it leaves in the buffer is.
\<close>

partial_function (option) read_line_loop ::
  "io_env \<Rightarrow> u64 \<Rightarrow> int \<Rightarrow> int \<Rightarrow> keyboard_state \<Rightarrow> vmem_design \<times> io_state \<Rightarrow>
   (keyboard_state \<times> vmem_design \<times> io_state) option" where
  "read_line_loop e buf max_len idx k ds = do {
     (c, k, t) \<leftarrow> keyboard_ps2_get_char (dev e) k (ports (snd ds));
     let d = fst ds;
     let s = (snd ds)\<lparr>ports := t\<rparr>;
     if c = 0 then read_line_loop e buf max_len idx k (d, s)
     else if c = 0x0A then do {
       s \<leftarrow> store_bytes (buf + of_int idx) [0] s;
       ds \<leftarrow> vmem_printc e 0x0A (d, s);
       Some (k, ds)
     }
     else if c = 0x08 then
       if idx > 0 then do {
         ds \<leftarrow> vmem_printc e 0x08 (d, s);
         read_line_loop e buf max_len (idx - 1) k ds
       }
       else read_line_loop e buf max_len idx k (d, s)
     else if idx < max_len - 1 then do {
       s \<leftarrow> store_bytes (buf + of_int idx) [c] s;
       ds \<leftarrow> vmem_printc e c (d, s);
       read_line_loop e buf max_len (idx + 1) k ds
     }
     else read_line_loop e buf max_len idx k (d, s)
   }"

definition ps2_read_line ::
  "io_env \<Rightarrow> u64 \<Rightarrow> int \<Rightarrow> keyboard_state \<Rightarrow> vmem_design \<times> io_state \<Rightarrow>
   (keyboard_state \<times> vmem_design \<times> io_state) option" where
  "ps2_read_line e buf max_len k ds = read_line_loop e buf max_len 0 k ds"

subsection \<open>What printing leaves alone\<close>

definition in_log :: "io_state \<Rightarrow> u64 \<Rightarrow> bool" where
  "in_log s a \<longleftrightarrow> unat (a - klog s) < unat (klog_cap s)"

definition in_fb :: "io_state \<Rightarrow> u64 \<Rightarrow> bool" where
  "in_fb s a \<longleftrightarrow> unat (a - fb_addr (vmem_fbi s)) < fb_bytes (vmem_fbi s)"

text \<open>
  The screen is off or a graphics framebuffer that is mapped, and the log is the one from before
  the file systems are up.
\<close>

definition screen_mapped :: "io_env \<Rightarrow> io_state \<Rightarrow> bool" where
  "screen_mapped e s \<longleftrightarrow> port_ok e s \<and> vmem_mode s = UNIBOOT_FB_MODE_UEFI_GOP \<and>
     fb_ok (vmem_fbi s) \<and> mapped (io_mem s) (fb_addr (vmem_fbi s)) (fb_bytes (vmem_fbi s))"

text \<open>No scan code is taken, and memory outside the log and the framebuffer keeps its values.\<close>

definition printed :: "io_env \<Rightarrow> io_state \<Rightarrow> io_state \<Rightarrow> bool" where
  "printed e s s' \<longleftrightarrow> screen_mapped e s' \<and> klog s' = klog s \<and> klog_cap s' = klog_cap s \<and>
     vmem_fbi s' = vmem_fbi s \<and>
     (\<forall>a. \<not> in_log s a \<and> \<not> in_fb s a \<longrightarrow> io_mem s' a = io_mem s a) \<and>
     (\<exists>u. ports s' = u @ ports s \<and> Inb 0x60 \<notin> set u)"

lemma printed_refl: "screen_mapped e s \<Longrightarrow> printed e s s"
  by (simp add: printed_def)

lemma printed_mapped: "printed e s s' \<Longrightarrow> screen_mapped e s'"
  by (simp add: printed_def)

lemma printed_trans:
  assumes "printed e s s1" "printed e s1 s2"
  shows "printed e s s2"
proof -
  obtain u v where "ports s1 = u @ ports s" "Inb 0x60 \<notin> set u" "ports s2 = v @ ports s1" "Inb 0x60 \<notin> set v"
    using assms unfolding printed_def by blast
  then have "\<exists>u. ports s2 = u @ ports s \<and> Inb 0x60 \<notin> set u" by (intro exI [of _ "v @ u"]) simp
  then show ?thesis using assms unfolding printed_def in_log_def in_fb_def by simp
qed

lemma screen_mapped_ports [simp]: "screen_mapped e (s\<lparr>ports := t\<rparr>) = screen_mapped e s"
  by (simp add: screen_mapped_def)

lemma klog_printc_printed:
  assumes "screen_mapped e s"
  shows "\<exists>s'. klog_printc e c s = Some s' \<and> printed e s s'"
proof -
  have p: "port_ok e s" and w: "log_wf s" "klog s = preklog e"
    using assms by (simp_all add: screen_mapped_def port_ok_def)
  have eq: "klog_printc e c s = Some (if klog_pos s + 32 < klog_cap s then klog_written e c s else s)"
    using klog_printc_eq [OF w(1)] w(2) by blast
  show ?thesis
  proof (cases "klog_pos s + 32 < klog_cap s")
    case True
    note f = klog_written_facts [OF w(1) log_wf_room [OF w(1) True], where e = e and c = c]
    let ?s = "klog_written e c s"
    have v: "vmem_mode ?s = vmem_mode s" "vmem_fbi ?s = vmem_fbi s" "klog_cap ?s = klog_cap s"
        "io_mem ?s = stored (io_mem s) (klog s + klog_pos s) (appended e c s)"
        "ports ?s = (if klog_msg_started s then ports s else read_tsc (dev e) (ports s))"
      by (simp_all add: klog_written_def Let_def logged_def)
    have "screen_mapped e ?s"
      using assms f(1,4,5) unfolding screen_mapped_def port_ok_def by (simp add: v mapped_stored)
    then have "printed e s ?s"
      using f(3,5) v(2,3,5) by (auto simp: printed_def in_log_def read_tsc_def)
    then show ?thesis using eq True by simp
  next
    case False
    then show ?thesis using eq assms by (simp add: printed_refl)
  qed
qed

lemma wait_transmit_empty_quiet:
  assumes "wait_transmit_empty e s = Some s'"
  shows "\<exists>u. s' = s\<lparr>ports := u @ ports s\<rparr> \<and> Inb 0x60 \<notin> set u"
proof (rule wait_transmit_empty.raw_induct [where
    P = "\<lambda>e s s'. \<exists>u. s' = s\<lparr>ports := u @ ports s\<rparr> \<and> Inb 0x60 \<notin> set u", OF _ assms])
  fix f :: "io_env \<Rightarrow> io_state \<Rightarrow> io_state option" and e s s'
  assume IH: "\<And>e s s'. f e s = Some s' \<Longrightarrow> \<exists>u. s' = s\<lparr>ports := u @ ports s\<rparr> \<and> Inb 0x60 \<notin> set u"
    and r: "(let (empty, s) = serial_is_transmit_empty e s in if empty then Some s else f e s) = Some s'"
  let ?p = "SERIAL_PORT + 5" and ?s = "s\<lparr>ports := Inb (SERIAL_PORT + 5) # ports s\<rparr>"
  have p: "?p \<noteq> 0x60" by (simp add: SERIAL_PORT_def)
  have e: "serial_is_transmit_empty e s = (in8 (dev e) (ports s) ?p AND 0x20 \<noteq> 0, ?s)"
    by (simp add: serial_is_transmit_empty_def inb_def port_defs)
  show "\<exists>u. s' = s\<lparr>ports := u @ ports s\<rparr> \<and> Inb 0x60 \<notin> set u"
  proof (cases "in8 (dev e) (ports s) ?p AND 0x20 \<noteq> 0")
    case True
    then show ?thesis using r p by (auto simp: e intro!: exI [of _ "[Inb ?p]"])
  next
    case False
    then obtain u where "s' = ?s\<lparr>ports := u @ ports ?s\<rparr>" "Inb 0x60 \<notin> set u"
      using r IH [of e ?s s'] by (auto simp: e)
    then show ?thesis using p by (intro exI [of _ "u @ [Inb ?p]"]) simp
  qed
qed

lemma printed_ports:
  "screen_mapped e s \<Longrightarrow> Inb 0x60 \<notin> set u \<Longrightarrow> printed e s (s\<lparr>ports := u @ ports s\<rparr>)"
  by (auto simp: printed_def)

lemma serial_printc_printed:
  assumes "screen_mapped e s"
  shows "\<exists>s'. serial_printc e c s = Some s' \<and> printed e s s'"
proof -
  have p: "responsive (dev e)" "serial_present s"
    using assms by (simp_all add: screen_mapped_def port_ok_def)
  obtain t where t: "wait_transmit_empty e s = Some (s\<lparr>ports := t\<rparr>)"
    using wait_transmit_empty_returns [OF p(1)] by blast
  obtain u where w: "wait_transmit_empty e s = Some (s\<lparr>ports := u @ ports s\<rparr>)" "Inb 0x60 \<notin> set u"
    using wait_transmit_empty_quiet [OF t] t by metis
  let ?s = "s\<lparr>ports := (Outb SERIAL_PORT c # u) @ ports s\<rparr>"
  have i: "printed e s ?s" using assms w(2) by (intro printed_ports) auto
  have "screen_mapped e ?s" using assms by simp
  then obtain s' where s': "klog_printc e c ?s = Some s'" "printed e ?s s'"
    using klog_printc_printed by blast
  have "serial_printc e c s = Some s'"
    using p(2) w(1) s'(1) by (simp add: serial_printc_def outb_def asm_outb_def)
  then show ?thesis using printed_trans [OF i s'(2)] by blast
qed

lemma vmem_printc_printed:
  assumes "screen_mapped e s"
  shows "\<exists>d' s'. vmem_printc e c (d, s) = Some (d', s') \<and> printed e s s'"
proof -
  obtain s1 where s1: "(if serial_out d then do {
         s \<leftarrow> serial_printc e c s;
         if c = 0x08 then do { s \<leftarrow> serial_printc e 0x20 s; serial_printc e 0x08 s } else Some s
       } else Some s) = Some s1" "printed e s s1"
  proof (cases "serial_out d")
    case False
    then show ?thesis using that [of s] assms by (simp add: printed_refl)
  next
    case True
    obtain a where a: "serial_printc e c s = Some a" "printed e s a"
      using serial_printc_printed [OF assms] by blast
    obtain b where b: "serial_printc e 0x20 a = Some b" "printed e a b"
      using serial_printc_printed [OF printed_mapped [OF a(2)]] by blast
    obtain x where x: "serial_printc e 0x08 b = Some x" "printed e b x"
      using serial_printc_printed [OF printed_mapped [OF b(2)]] by blast
    show ?thesis
      using True a b x that [of a] that [of x] printed_trans [OF a(2) printed_trans [OF b(2) x(2)]]
      by (cases "c = 0x08") auto
  qed
  have m1: "screen_mapped e s1" using s1(2) by (simp add: printed_def)
  show ?thesis
  proof (cases "vmem_active s1")
    case False
    then show ?thesis using s1 unfolding vmem_printc_def by simp
  next
    case True
    have gop: "vmem_mode s1 = UNIBOOT_FB_MODE_UEFI_GOP" "fb_ok (vmem_fbi s1)"
        "mapped (io_mem s1) (fb_addr (vmem_fbi s1)) (fb_bytes (vmem_fbi s1))"
      using m1 by (simp_all add: screen_mapped_def)
    let ?d = "let d = (if pos_x d \<ge> ucast (width (vmem_fbi s1)) then d\<lparr>pos_x := ucast (width (vmem_fbi s1))\<rparr> else d)
      in (if pos_y d \<ge> ucast (height (vmem_fbi s1)) then d\<lparr>pos_y := ucast (height (vmem_fbi s1))\<rparr> else d)"
    let ?cur = "\<lparr>cur_x = ucast (pos_x ?d), cur_y = ucast (pos_y ?d),
       fg_color = vmem_convert_color_to_rgba (fg ?d) s1, bg_color = vmem_convert_color_to_rgba (bg ?d) s1,
       auto_scroll = scrolls ?d\<rparr>"
    obtain cur m where f: "fb_printc (font8x16 e) (vmem_fbi s1) ?cur c (io_mem s1) = Some (cur, m)"
        "inside (vmem_fbi s1) (io_mem s1) m"
      using printc_stays [OF gop(2)] gop(3) unfolding stays_cur_def by blast
    have g: "gop_printc e ?d c s1 =
        Some (?d\<lparr>pos_x := ucast (cur_x cur), pos_y := ucast (cur_y cur)\<rparr>, s1\<lparr>io_mem := m\<rparr>)"
      using f(1) by (simp add: gop_printc_def Let_def del: if_split cong: if_cong)
    have c: "vmem_set_only_cursor x y s1 = s1" for x y by (simp add: vmem_set_only_cursor_def gop(1))
    have "mapped m (klog s1) (unat (klog_cap s1))"
      using m1 f(2) unfolding screen_mapped_def port_ok_def log_wf_def inside_def mapped_def by metis
    then have "screen_mapped e (s1\<lparr>io_mem := m\<rparr>)"
      using m1 f(2) unfolding screen_mapped_def port_ok_def log_wf_def inside_def by (auto simp del: fun_upd_apply)
    then have "printed e s1 (s1\<lparr>io_mem := m\<rparr>)"
      using f(2) by (auto simp: printed_def inside_def in_fb_def)
    then have "printed e s (s1\<lparr>io_mem := m\<rparr>)" by (rule printed_trans [OF s1(2)])
    moreover have "vmem_printc e c (d, s) = gop_printc e ?d c s1"
      using s1(1) True unfolding vmem_printc_def by (simp add: c gop(1) Let_def del: if_split cong: if_cong)
    ultimately show ?thesis using g by auto
  qed
qed

subsection \<open>The edited line\<close>

text \<open>
  Specification. A character is appended while there is room for it and the terminator, a
  backspace drops the last one, and codes without a character do nothing.
\<close>

definition edit_char :: "int \<Rightarrow> u8 list \<Rightarrow> u8 \<Rightarrow> u8 list" where
  "edit_char max_len line c =
     (if c = 0 then line
      else if c = 0x08 then butlast line
      else if int (length line) < max_len - 1 then line @ [c]
      else line)"

text \<open>The characters of scan codes that follow the codes \<open>hist\<close>.\<close>

fun typed_chars :: "u8 list \<Rightarrow> u8 list \<Rightarrow> u8 list" where
  "typed_chars hist [] = []"
| "typed_chars hist (code # codes) =
     key_char code (shift_on (hist @ [code])) (caps_on (hist @ [code])) # typed_chars (hist @ [code]) codes"

text \<open>
  The keyboard sends the codes next: whatever else is done on the ports, the controller has the
  next code when it is polled often enough.
\<close>

definition keyboard_sends :: "device \<Rightarrow> trace \<Rightarrow> u8 list \<Rightarrow> bool" where
  "keyboard_sends d t codes \<longleftrightarrow>
     (\<forall>u. let n = length (filter (\<lambda>x. x = Inb 0x60) u) in n < length codes \<longrightarrow>
        in8 d (u @ t) 0x60 = codes ! n \<and> (\<exists>k. ready_after d (u @ t) k))"

lemma keyboard_sendsD:
  assumes "keyboard_sends d t codes" "length (filter (\<lambda>x. x = Inb 0x60) u) = n" "n < length codes"
  shows "in8 d (u @ t) 0x60 = codes ! n" "\<exists>k. ready_after d (u @ t) k"
  using assms by (auto simp: keyboard_sends_def Let_def)

lemma keyboard_sends_Cons:
  assumes "keyboard_sends d t (code # codes)" "length (filter (\<lambda>x. x = Inb 0x60) u) = 1"
  shows "keyboard_sends d (u @ t) codes"
  unfolding keyboard_sends_def Let_def
proof (intro allI impI)
  fix v assume n: "length (filter (\<lambda>x. x = Inb 0x60) v) < length codes"
  have l: "length (filter (\<lambda>x. x = Inb 0x60) (v @ u)) = Suc (length (filter (\<lambda>x. x = Inb 0x60) v))"
    using assms(2) by simp
  show "in8 d (v @ u @ t) 0x60 = codes ! length (filter (\<lambda>x. x = Inb 0x60) v) \<and>
      (\<exists>k. ready_after d (v @ u @ t) k)"
    using keyboard_sendsD [OF assms(1) l] n by simp
qed

lemma wait_output_full_polls:
  assumes "ps2_wait_output_full d t = Some t'"
  shows "\<exists>u. t' = u @ t \<and> Inb 0x60 \<notin> set u"
proof (rule ps2_wait_output_full.raw_induct [where P = "\<lambda>d t t'. \<exists>u. t' = u @ t \<and> Inb 0x60 \<notin> set u", OF _ assms])
  fix f :: "device \<Rightarrow> trace \<Rightarrow> trace option" and d t t'
  assume IH: "\<And>d t t'. f d t = Some t' \<Longrightarrow> \<exists>u. t' = u @ t \<and> Inb 0x60 \<notin> set u"
    and r: "(let (s, t) = asm_inb d 0x64 t in if s AND 0x01 = 0 then f d t else Some t) = Some t'"
  show "\<exists>u. t' = u @ t \<and> Inb 0x60 \<notin> set u"
  proof (cases "in8 d t 0x64 AND 0x01 = 0")
    case True
    then have "f d (Inb 0x64 # t) = Some t'" using r by (simp add: port_defs)
    then obtain u where "t' = u @ (Inb 0x64 # t)" "Inb 0x60 \<notin> set u" using IH by blast
    then show ?thesis by (intro exI [of _ "u @ [Inb 0x64]"]) simp
  next
    case False
    then show ?thesis using r by (auto simp: port_defs intro!: exI [of _ "[Inb 0x64]"])
  qed
qed

text \<open>One key: the character of the next code, and the keyboard state of the longer history.\<close>

lemma get_char_typed:
  assumes "keyboard_sends d t (code # codes)" "tracks hist k"
  shows "\<exists>k' u. keyboard_ps2_get_char d k t =
      Some (key_char code (shift_on (hist @ [code])) (caps_on (hist @ [code])), k', u @ t) \<and>
    tracks (hist @ [code]) k' \<and> length (filter (\<lambda>x. x = Inb 0x60) u) = 1"
proof -
  have s: "in8 d (u @ t) 0x60 = code" if "Inb 0x60 \<notin> set u" for u
  proof -
    have "length (filter (\<lambda>x. x = Inb 0x60) u) = 0" using that by (auto simp: filter_empty_conv)
    then show ?thesis using keyboard_sendsD(1) [OF assms(1), of u 0] by simp
  qed
  obtain n where "ready_after d t n" using keyboard_sendsD(2) [OF assms(1), of "[]" 0] by auto
  then obtain t1 where t1: "ps2_wait_output_full d t = Some t1" using wait_output_full_returns by blast
  then obtain u where u: "t1 = u @ t" "Inb 0x60 \<notin> set u" using wait_output_full_polls by blast
  obtain ch k' where c: "scan_char (ucast code) k = (ch, k')" by fastforce
  have "keyboard_ps2_get_char d k t = Some (ch, k', (Inb 0x60 # u) @ t)"
    using t1 s [OF u(2)] by (simp add: keyboard_ps2_get_char_def ps2_read_scan_def port_defs u(1) c)
  moreover have "length (filter (\<lambda>x. x = Inb 0x60) (Inb 0x60 # u)) = 1"
    using u(2) by (auto simp: filter_empty_conv)
  ultimately show ?thesis using scan_char_code [OF assms(2) c] by blast
qed

subsection \<open>The loop\<close>

definition buffer_bytes :: "u64 \<Rightarrow> nat \<Rightarrow> u64 set" where
  "buffer_bytes buf n = {buf + of_nat i | i. i < n}"

definition line_at :: "io_state \<Rightarrow> u64 \<Rightarrow> u8 list \<Rightarrow> bool" where
  "line_at s buf line \<longleftrightarrow> (\<forall>i < length line. io_mem s (buf + of_nat i) = Some (line ! i))"

text \<open>The buffer is mapped memory of its own.\<close>

definition buffer_free :: "io_state \<Rightarrow> u64 \<Rightarrow> nat \<Rightarrow> bool" where
  "buffer_free s buf n \<longleftrightarrow> n < 2 ^ 32 \<and>
     (\<forall>a \<in> buffer_bytes buf n. \<not> in_log s a \<and> \<not> in_fb s a \<and> io_mem s a \<noteq> None)"

text \<open>Outside the buffer, the log and the framebuffer memory keeps its values.\<close>

definition frame :: "u64 \<Rightarrow> nat \<Rightarrow> io_state \<Rightarrow> io_state \<Rightarrow> bool" where
  "frame buf n s s' \<longleftrightarrow> klog s' = klog s \<and> klog_cap s' = klog_cap s \<and> vmem_fbi s' = vmem_fbi s \<and>
     (\<forall>a. a \<notin> buffer_bytes buf n \<and> \<not> in_log s a \<and> \<not> in_fb s a \<longrightarrow> io_mem s' a = io_mem s a)"

lemma frame_refl: "frame buf n s s"
  by (simp add: frame_def)

lemma frame_trans: "frame buf n s s1 \<Longrightarrow> frame buf n s1 s2 \<Longrightarrow> frame buf n s s2"
  unfolding frame_def in_log_def in_fb_def by metis

text \<open>What holds before each key.\<close>

definition editing ::
  "io_env \<Rightarrow> u64 \<Rightarrow> nat \<Rightarrow> u8 list \<Rightarrow> io_state \<Rightarrow> u8 list \<Rightarrow> bool" where
  "editing e buf n line s codes \<longleftrightarrow> screen_mapped e s \<and> buffer_free s buf n \<and> length line < n \<and>
     line_at s buf line \<and> keyboard_sends (dev e) (ports s) codes"

lemma keyboard_sends_skip:
  assumes "keyboard_sends d t codes" "Inb 0x60 \<notin> set v"
  shows "keyboard_sends d (v @ t) codes"
  unfolding keyboard_sends_def Let_def
proof (intro allI impI)
  fix u assume n: "length (filter (\<lambda>x. x = Inb 0x60) u) < length codes"
  have "filter (\<lambda>x. x = Inb 0x60) v = []" using assms(2) by (auto simp: filter_empty_conv)
  then show "in8 d (u @ v @ t) 0x60 = codes ! length (filter (\<lambda>x. x = Inb 0x60) u) \<and>
      (\<exists>k. ready_after d (u @ v @ t) k)"
    using keyboard_sendsD [OF assms(1), of "u @ v"] n by simp
qed

lemma line_at_printed:
  assumes "printed e s s'" "buffer_free s buf n" "length line \<le> n" "line_at s buf line"
  shows "line_at s' buf line"
  unfolding line_at_def
proof (intro allI impI)
  fix i assume i: "i < length line"
  then have "buf + of_nat i \<in> buffer_bytes buf n" using assms(3) by (auto simp: buffer_bytes_def)
  then show "io_mem s' (buf + of_nat i) = Some (line ! i)"
    using assms i by (simp add: buffer_free_def line_at_def printed_def)
qed

lemma frame_printed: "printed e s s' \<Longrightarrow> frame buf n s s'"
  by (simp add: printed_def frame_def)

lemma buffer_free_printed: "printed e s s' \<Longrightarrow> buffer_free s buf n \<Longrightarrow> buffer_free s' buf n"
  by (auto simp: printed_def buffer_free_def in_log_def in_fb_def)

lemma keyboard_sends_printed:
  assumes "printed e s s'" "keyboard_sends (dev e) (ports s) codes"
  shows "keyboard_sends (dev e) (ports s') codes"
  using assms keyboard_sends_skip by (auto simp: printed_def)

lemma editing_printed:
  assumes "printed e s s'" "buffer_free s buf n" "length line < n" "line_at s buf line"
    and "keyboard_sends (dev e) (ports s) codes"
  shows "editing e buf n line s' codes"
  using assms line_at_printed [OF assms(1,2) less_imp_le [OF assms(3)] assms(4)]
    buffer_free_printed [OF assms(1,2)] keyboard_sends_printed [OF assms(1,5)] printed_mapped [OF assms(1)]
  by (simp add: editing_def)

lemma of_nat_index:
  assumes "i < n" "j < n" "n < 4294967296"
  shows "buf + of_nat i = buf + (of_nat j :: u64) \<longleftrightarrow> i = j"
proof
  assume "buf + of_nat i = buf + (of_nat j :: u64)"
  then have "unat (of_nat i :: u64) = unat (of_nat j :: u64)" by simp
  then show "i = j" using assms by (simp add: unat_of_nat_u64)
qed simp

text \<open>The store of one byte at an index of the buffer.\<close>

definition poked :: "u64 \<Rightarrow> nat \<Rightarrow> u8 \<Rightarrow> io_state \<Rightarrow> io_state" where
  "poked buf i c s = s\<lparr>io_mem := (io_mem s)(buf + of_nat i \<mapsto> c)\<rparr>"

lemma editing_poked:
  assumes "editing e buf n line s codes" "i = length line"
  shows "store_bytes (buf + of_nat i) [c] s = Some (poked buf i c s)"
    and "frame buf n s (poked buf i c s)" "screen_mapped e (poked buf i c s)"
    and "buffer_free (poked buf i c s) buf n" "line_at (poked buf i c s) buf (line @ [c])"
    and "ports (poked buf i c s) = ports s"
proof -
  have b: "buffer_free s buf n" "i < n" "line_at s buf line" "screen_mapped e s"
    using assms by (simp_all add: editing_def)
  have a: "buf + of_nat i \<in> buffer_bytes buf n" using b(2) by (auto simp: buffer_bytes_def)
  then have "io_mem s (buf + of_nat i) \<noteq> None" using b(1) by (simp add: buffer_free_def)
  then show "store_bytes (buf + of_nat i) [c] s = Some (poked buf i c s)"
    by (simp add: store_bytes_def write_byte_mapped poked_def)
  show "frame buf n s (poked buf i c s)" using a by (auto simp: frame_def poked_def)
  show "screen_mapped e (poked buf i c s)"
    using b(4) unfolding poked_def screen_mapped_def port_ok_def log_wf_def
    by (auto simp del: fun_upd_apply)
  show "buffer_free (poked buf i c s) buf n"
    using b(1) by (simp add: buffer_free_def poked_def in_log_def in_fb_def)
  show "line_at (poked buf i c s) buf (line @ [c])"
    unfolding line_at_def
  proof (intro allI impI)
    fix j assume j: "j < length (line @ [c])"
    have "n < 4294967296" using b(1) by (simp add: buffer_free_def)
    then have "buf + of_nat j = buf + (of_nat i :: u64) \<longleftrightarrow> j = i"
      using j b(2) assms(2) by (intro of_nat_index [of _ n]) auto
    then show "io_mem (poked buf i c s) (buf + of_nat j) = Some ((line @ [c]) ! j)"
      using j b(3) assms(2) by (auto simp: poked_def line_at_def nth_append)
  qed
qed (simp add: poked_def)

lemma editing_key:
  assumes "editing e buf n line s (code # codes)" "tracks hist k"
  shows "\<exists>k' u. keyboard_ps2_get_char (dev e) k (ports s) =
      Some (key_char code (shift_on (hist @ [code])) (caps_on (hist @ [code])), k', u @ ports s) \<and>
    tracks (hist @ [code]) k' \<and> editing e buf n line (s\<lparr>ports := u @ ports s\<rparr>) codes"
proof -
  have ks: "keyboard_sends (dev e) (ports s) (code # codes)" using assms(1) by (simp add: editing_def)
  obtain k' u where "keyboard_ps2_get_char (dev e) k (ports s) =
      Some (key_char code (shift_on (hist @ [code])) (caps_on (hist @ [code])), k', u @ ports s)"
      "tracks (hist @ [code]) k'" "length (filter (\<lambda>x. x = Inb 0x60) u) = 1"
    using get_char_typed [OF ks assms(2)] by blast
  then show ?thesis
    using keyboard_sends_Cons [OF ks, of u] assms(1)
    by (auto simp: editing_def buffer_free_def in_log_def in_fb_def line_at_def)
qed

lemma frame_ports: "frame buf n s (s\<lparr>ports := t\<rparr>)"
  by (simp add: frame_def)

lemma read_line_loop_edits:
  assumes "editing e buf n line s (codes @ [enter])" "tracks hist k"
    and "n = nat (max 1 max_len)"
    and "0x0A \<notin> set (typed_chars hist codes)" "last (typed_chars hist (codes @ [enter])) = 0x0A"
  shows "\<exists>k' d' s'. read_line_loop e buf max_len (int (length line)) k (d, s) = Some (k', d', s') \<and>
    line_at s' buf (foldl (edit_char max_len) line (typed_chars hist codes) @ [0]) \<and> frame buf n s s'"
  using assms(1,2,4,5)
proof (induction codes arbitrary: line s hist k d)
  case Nil
  obtain k' u where r: "keyboard_ps2_get_char (dev e) k (ports s) = Some (0x0A, k', u @ ports s)"
      and ed: "editing e buf n line (s\<lparr>ports := u @ ports s\<rparr>) []"
    using editing_key [of e buf n line s enter "[]" hist k] Nil by auto
  let ?s = "s\<lparr>ports := u @ ports s\<rparr>"
  let ?s1 = "poked buf (length line) 0 ?s"
  note p = editing_poked [OF ed refl, of 0]
  obtain d' s' where v: "vmem_printc e 0x0A (d, ?s1) = Some (d', s')" "printed e ?s1 s'"
    using vmem_printc_printed [OF p(3)] by blast
  have "read_line_loop e buf max_len (int (length line)) k (d, s) = Some (k', d', s')"
    by (subst read_line_loop.simps) (simp add: r p(1) v(1))
  moreover have "line_at s' buf (line @ [0])"
    using line_at_printed [OF v(2) p(4) _ p(5)] Nil.prems(1) by (simp add: editing_def)
  moreover have "frame buf n s s'"
    using frame_trans [OF frame_ports frame_trans [OF p(2) frame_printed [OF v(2)]]] .
  ultimately show ?case by auto
next
  case (Cons code codes)
  let ?c = "key_char code (shift_on (hist @ [code])) (caps_on (hist @ [code]))"
  obtain k' u where r: "keyboard_ps2_get_char (dev e) k (ports s) = Some (?c, k', u @ ports s)"
      and k': "tracks (hist @ [code]) k'"
      and ed: "editing e buf n line (s\<lparr>ports := u @ ports s\<rparr>) (codes @ [enter])"
    using editing_key [of e buf n line s code "codes @ [enter]" hist k] Cons.prems by auto
  let ?s = "s\<lparr>ports := u @ ports s\<rparr>"
  have nl: "?c \<noteq> 0x0A" "0x0A \<notin> set (typed_chars (hist @ [code]) codes)"
      "last (typed_chars (hist @ [code]) (codes @ [enter])) = 0x0A"
    using Cons.prems(3,4) by (auto split: if_splits)
  note edD = ed [unfolded editing_def]
  have l: "length line < n" using ed by (simp add: editing_def)
  have goal: "\<exists>k' d' s'. read_line_loop e buf max_len (int (length line)) k (d, s) = Some (k', d', s') \<and>
      line_at s' buf (foldl (edit_char max_len) line (typed_chars hist (code # codes)) @ [0]) \<and> frame buf n s s'"
    if step: "read_line_loop e buf max_len (int (length line)) k (d, s) =
        read_line_loop e buf max_len (int (length line')) k' (d1, s1)"
      and ed1: "editing e buf n line' s1 (codes @ [enter])" and fr: "frame buf n s s1"
      and line': "edit_char max_len line ?c = line'"
    for line' d1 s1
    using Cons.IH [OF ed1 k' nl(2,3), of d1] frame_trans [OF fr] by (auto simp: step line')
  show ?case
  proof (cases "?c = 0 \<or> ?c = 0x08 \<and> line = [] \<or> ?c \<noteq> 0x08 \<and> \<not> int (length line) < max_len - 1")
    case True
    show ?thesis
    proof (rule goal [OF _ ed frame_ports])
      show "read_line_loop e buf max_len (int (length line)) k (d, s) =
          read_line_loop e buf max_len (int (length line)) k' (d, ?s)"
        using True nl(1) by (subst read_line_loop.simps) (auto simp: r Let_def)
      show "edit_char max_len line ?c = line" using True by (auto simp: edit_char_def)
    qed
  next
    case False
    show ?thesis
    proof (cases "?c = 0x08")
      case bsp: True
      obtain d1 s1 where v: "vmem_printc e 0x08 (d, ?s) = Some (d1, s1)" "printed e ?s s1"
        using vmem_printc_printed edD by blast
      show ?thesis
      proof (rule goal)
        show "read_line_loop e buf max_len (int (length line)) k (d, s) =
            read_line_loop e buf max_len (int (length (butlast line))) k' (d1, s1)"
        proof -
          have "int (length (butlast line)) = int (length line) - 1"
            using False bsp by (cases line) auto
          then show ?thesis
            using False bsp v(1) by (subst read_line_loop.simps) (auto simp: r)
        qed
        show "editing e buf n (butlast line) s1 (codes @ [enter])"
          using edD l by (intro editing_printed [OF v(2)]) (auto simp: line_at_def nth_butlast)
        show "frame buf n s s1" by (rule frame_trans [OF frame_ports frame_printed [OF v(2)]])
        show "edit_char max_len line ?c = butlast line" using bsp by (simp add: edit_char_def)
      qed
    next
      case ins: False
      then have room: "int (length line) < max_len - 1" "?c \<noteq> 0" using False by auto
      let ?s1 = "poked buf (length line) ?c ?s"
      note p = editing_poked [OF ed refl, of ?c]
      obtain d1 s1 where v: "vmem_printc e ?c (d, ?s1) = Some (d1, s1)" "printed e ?s1 s1"
        using vmem_printc_printed [OF p(3)] by blast
      show ?thesis
      proof (rule goal)
        show "read_line_loop e buf max_len (int (length line)) k (d, s) =
            read_line_loop e buf max_len (int (length (line @ [?c]))) k' (d1, s1)"
          using room ins nl(1) p(1) v(1) by (subst read_line_loop.simps) (simp add: r add.commute)
        have "length (line @ [?c]) < n" using room(1) assms(3) by simp
        then show "editing e buf n (line @ [?c]) s1 (codes @ [enter])"
          using edD p by (intro editing_printed [OF v(2)]) auto
        show "frame buf n s s1"
          by (rule frame_trans [OF frame_ports frame_trans [OF p(2) frame_printed [OF v(2)]]])
        show "edit_char max_len line ?c = line @ [?c]" using room ins by (simp add: edit_char_def)
      qed
    qed
  qed
qed

text \<open>C21: \<open>ps2_read_line\<close> returns once the keyboard sends Enter, and the buffer then holds the
  terminated line that the typed characters edit to: characters of the keys with the shift and
  caps-lock state of the whole history, backspaces dropping the last one, and what would not
  fit in \<open>max_len\<close> with its terminator ignored. No other memory than the buffer, the kernel log
  and the framebuffer changes, whatever is printed on the way.
\<close>

theorem ps2_read_line_edits:
  assumes "screen_mapped e s" "buffer_free s buf n" "n = nat (max 1 max_len)"
    and "keyboard_sends (dev e) (ports s) (codes @ [enter])" "tracks hist k"
    and "0x0A \<notin> set (typed_chars hist codes)" "last (typed_chars hist (codes @ [enter])) = 0x0A"
  shows "\<exists>k' d' s'. ps2_read_line e buf max_len k (d, s) = Some (k', d', s') \<and>
    line_at s' buf (foldl (edit_char max_len) [] (typed_chars hist codes) @ [0]) \<and>
    (\<forall>a. a \<notin> buffer_bytes buf n \<and> \<not> in_log s a \<and> \<not> in_fb s a \<longrightarrow> io_mem s' a = io_mem s a)"
proof -
  have "editing e buf n [] s (codes @ [enter])"
    using assms(1-4) by (simp add: editing_def line_at_def)
  from read_line_loop_edits [OF this assms(5,3,6,7), of d] show ?thesis
    by (auto simp: ps2_read_line_def frame_def)
qed

text \<open>A keyboard that sends \<open>a\<close>, shift, \<open>b\<close>, backspace and Enter, and a serial port that is ready.\<close>

definition console_device :: "u8 list \<Rightarrow> device" where
  "console_device codes =
     (typing codes)\<lparr>in8 := (\<lambda>t p. if p = 0x3FD then 0x20 else in8 (typing codes) t p)\<rparr>"

definition console_env :: io_env where
  "console_env = sample_env\<lparr>dev := console_device [0x1E, 0x2A, 0x30, 0x0E, 0x1C]\<rparr>"

definition console_io :: "pstate \<Rightarrow> io_state" where
  "console_io h = (sample_io h)\<lparr>vmem_fbi := sample_fb\<rparr>"

lemma console_sends: "keyboard_sends (console_device codes) [] codes"
proof -
  have "min (length codes - 1) n = n" if "n < length codes" for n using that by arith
  then show ?thesis
    by (simp add: keyboard_sends_def Let_def console_device_def typing_def ready_after_def)
qed

lemma ps2_read_line_edits_witness:
  "\<forall>h. \<exists>k' d' s'. ps2_read_line console_env 0x9000 16
      \<lparr>lshift = False, rshift = False, capslock = False\<rparr>
      (\<lparr>pos_x = 0, pos_y = 0, fg = VMEM_COLOR_WHITE, bg = VMEM_COLOR_BLACK, serial_out = True,
        scrolls = True\<rparr>, console_io h) = Some (k', d', s') \<and>
    line_at s' 0x9000 [0x61, 0]"
proof
  fix h
  have sm: "screen_mapped console_env (console_io h)"
    by (simp add: screen_mapped_def port_ok_def responsive_def console_env_def console_device_def sample_env_def
        console_io_def sample_io_def log_wf_def mapped_def SERIAL_PORT_def UNIBOOT_FB_MODE_UEFI_GOP_def
        fb_ok_def sample_fb_def fb_bytes_def)
  have "\<forall>i \<in> set [0..<16]. let a = 0x9000 + of_nat i in
      \<not> in_log (console_io h) a \<and> \<not> in_fb (console_io h) a \<and> io_mem (console_io h) a \<noteq> None"
    by (simp add: upt_rec in_log_def in_fb_def console_io_def sample_io_def sample_fb_def fb_bytes_def
        del: upt_Suc)
  then have bf: "buffer_free (console_io h) 0x9000 16"
    by (auto simp: buffer_free_def buffer_bytes_def Let_def)
  have tr: "tracks [] \<lparr>lshift = False, rshift = False, capslock = False\<rparr>"
    by (simp add: tracks_def held_def caps_on_def)
  have ty: "typed_chars [] [0x1E, 0x2A, 0x30, 0x0E] = [0x61, 0, 0x42, 0x08]"
    "last (typed_chars [] ([0x1E, 0x2A, 0x30, 0x0E] @ [0x1C])) = 0x0A"
    by (simp_all add: key_char_def keymap_def keymap_table_def keymap_shift_def keymap_shift_table_def
        shift_on_def caps_on_def held_def)
  have ks: "keyboard_sends (dev console_env) (ports (console_io h)) ([0x1E, 0x2A, 0x30, 0x0E] @ [0x1C])"
    using console_sends by (simp add: console_io_def sample_io_def console_env_def)
  have n: "16 = nat (max 1 16)" by simp
  have nl: "0x0A \<notin> set (typed_chars [] [0x1E, 0x2A, 0x30, 0x0E])" by (simp only: ty) simp
  have ed: "foldl (edit_char 16) [] (typed_chars [] [0x1E, 0x2A, 0x30, 0x0E]) = [0x61]"
    by (simp only: ty) (simp add: edit_char_def)
  show "\<exists>k' d' s'. ps2_read_line console_env 0x9000 16
      \<lparr>lshift = False, rshift = False, capslock = False\<rparr>
      (\<lparr>pos_x = 0, pos_y = 0, fg = VMEM_COLOR_WHITE, bg = VMEM_COLOR_BLACK, serial_out = True,
        scrolls = True\<rparr>, console_io h) = Some (k', d', s') \<and>
    line_at s' 0x9000 [0x61, 0]"
    using ps2_read_line_edits [OF sm bf n ks tr nl ty(2), of "\<lparr>pos_x = 0, pos_y = 0,
        fg = VMEM_COLOR_WHITE, bg = VMEM_COLOR_BLACK, serial_out = True, scrolls = True\<rparr>"]
    unfolding ed by (elim exE conjE) (intro exI conjI, assumption, simp)
qed

end
