(* ===== verification/Descriptors.thy ===== *)
theory Descriptors
  imports Pager IoPorts
begin

text \<open>
  \<^verbatim>\<open>Kernel/drivers/core/tss_gdt.c\<close> and \<^verbatim>\<open>Kernel/drivers/core/idt.c\<close>: the descriptor tables and
  the registers they are loaded into. The tables are records field by field as in C; the second
  half of the theory lays them out as bytes and reads them the way the processor does.
\<close>

subsection \<open>Segments and task state\<close>

record gdt_entry =
  limit_low :: u16
  base_low :: u16
  base_mid :: u8
  access :: u8
  granularity :: u8
  base_high :: u8

record gdt_tss_entry =
  ts_limit_low :: u16
  ts_base_low :: u16
  ts_base_mid1 :: u8
  ts_access :: u8
  ts_granularity :: u8
  ts_base_mid2 :: u8
  ts_base_high :: u32
  ts_reserved :: u32

record gdt =
  gdt_null :: gdt_entry
  kernel_code :: gdt_entry
  kernel_data :: gdt_entry
  user_data :: gdt_entry
  user_code :: gdt_entry
  gdt_tss :: gdt_tss_entry

record gdtr =
  gdtr_limit :: u16
  gdtr_base :: u64

record tss =
  rsp0 :: u64
  rsp1 :: u64
  rsp2 :: u64
  ist1 :: u64
  ist2 :: u64
  ist3 :: u64
  ist4 :: u64
  ist5 :: u64
  ist6 :: u64
  ist7 :: u64
  iomap_base :: u16

text \<open>What \<open>sizeof\<close> gives for the packed structures.\<close>

definition sizeof_tss :: u64 where "sizeof_tss = 104"
definition sizeof_gdt :: u64 where "sizeof_gdt = 56"
definition sizeof_idt_entry :: u64 where "sizeof_idt_entry = 16"
definition sizeof_idt_ptr :: u64 where "sizeof_idt_ptr = 10"

definition SEGMENT_SELECTOR :: "u16 \<Rightarrow> u16 \<Rightarrow> u16" where
  "SEGMENT_SELECTOR index rpl = push_bit 3 index OR rpl"

definition KERNEL_CS :: u16 where "KERNEL_CS = SEGMENT_SELECTOR 1 0"
definition KERNEL_DS :: u16 where "KERNEL_DS = SEGMENT_SELECTOR 2 0"
definition USER_CS :: u16 where "USER_CS = SEGMENT_SELECTOR 4 3"
definition USER_DS :: u16 where "USER_DS = SEGMENT_SELECTOR 3 3"
definition GDT_TSS_SELECTOR :: u16 where "GDT_TSS_SELECTOR = SEGMENT_SELECTOR 5 0"

definition GDT_ACCESS_KERNEL_CODE :: u8 where "GDT_ACCESS_KERNEL_CODE = 0x9A"
definition GDT_ACCESS_KERNEL_DATA :: u8 where "GDT_ACCESS_KERNEL_DATA = 0x92"
definition GDT_ACCESS_USER_CODE :: u8 where "GDT_ACCESS_USER_CODE = 0xFA"
definition GDT_ACCESS_USER_DATA :: u8 where "GDT_ACCESS_USER_DATA = 0xF2"
definition GDT_ACCESS_TSS :: u8 where "GDT_ACCESS_TSS = 0x89"
definition GDT_FLAG_LONG_MODE :: u8 where "GDT_FLAG_LONG_MODE = 0x20"

text \<open>The registers that \<open>lgdt\<close>, the far return, \<open>ltr\<close> and \<open>lidt\<close> change.\<close>

record segs =
  r_cs :: u16
  r_ds :: u16
  r_es :: u16
  r_ss :: u16
  r_tr :: u16
  r_gdtr :: gdtr
  r_idtr :: gdtr
  interrupts :: bool

definition flat_entry :: "u8 \<Rightarrow> u8 \<Rightarrow> gdt_entry" where
  "flat_entry acc gran =
     \<lparr>limit_low = 0, base_low = 0, base_mid = 0, access = acc, granularity = gran, base_high = 0\<rparr>"

definition tss_entry :: "u64 \<Rightarrow> gdt_tss_entry" where
  "tss_entry tss =
     \<lparr>ts_limit_low = ucast (sizeof_tss - 1),
      ts_base_low = ucast (tss AND 0xFFFF),
      ts_base_mid1 = ucast (drop_bit 16 tss AND 0xFF),
      ts_access = GDT_ACCESS_TSS,
      ts_granularity = ucast (drop_bit 16 (sizeof_tss - 1) AND 0x0F),
      ts_base_mid2 = ucast (drop_bit 24 tss AND 0xFF),
      ts_base_high = ucast (drop_bit 32 tss),
      ts_reserved = 0\<rparr>"

text \<open>
  \<open>gdt_init_ex\<close> gets the addresses of the table and of the task state, and fills the table and the
  table register; \<open>gdt_init\<close> does the same with the kernel's own.
\<close>

definition gdt_init_ex :: "u64 \<Rightarrow> u64 \<Rightarrow> segs \<Rightarrow> bool \<times> gdt \<times> gdtr \<times> segs" where
  "gdt_init_ex gdt tss c =
     (let table = \<lparr>gdt_null = flat_entry 0 0,
            kernel_code = flat_entry GDT_ACCESS_KERNEL_CODE GDT_FLAG_LONG_MODE,
            kernel_data = flat_entry GDT_ACCESS_KERNEL_DATA 0,
            user_data = flat_entry GDT_ACCESS_USER_DATA 0,
            user_code = flat_entry GDT_ACCESS_USER_CODE GDT_FLAG_LONG_MODE,
            gdt_tss = tss_entry tss\<rparr>;
          r = \<lparr>gdtr_limit = ucast (sizeof_gdt - 1), gdtr_base = gdt\<rparr>;
          c = c\<lparr>r_gdtr := r\<rparr>;
          c = c\<lparr>r_ds := KERNEL_DS, r_es := KERNEL_DS, r_ss := KERNEL_DS\<rparr>;
          c = c\<lparr>r_cs := KERNEL_CS\<rparr>
      in (True, table, r, c))"

definition gdt_init :: "u64 \<Rightarrow> u64 \<Rightarrow> segs \<Rightarrow> gdt \<times> gdtr \<times> segs" where
  "gdt_init kgdt ktss c = (let (_, table, r, c) = gdt_init_ex kgdt ktss c in (table, r, c))"

text \<open>\<open>kstacks i\<close> is the address of the \<open>i\<close>-th of the ten static stacks of 16 KiB.\<close>

definition tss_init :: "(nat \<Rightarrow> u64) \<Rightarrow> segs \<Rightarrow> tss \<times> segs" where
  "tss_init kstacks c =
     (\<lparr>rsp0 = kstacks 0 + 0x4000, rsp1 = kstacks 1 + 0x4000, rsp2 = kstacks 2 + 0x4000,
       ist1 = kstacks 3 + 0x4000, ist2 = kstacks 4 + 0x4000, ist3 = kstacks 5 + 0x4000,
       ist4 = kstacks 6 + 0x4000, ist5 = kstacks 7 + 0x4000, ist6 = kstacks 8 + 0x4000,
       ist7 = kstacks 9 + 0x4000, iomap_base = ucast sizeof_tss\<rparr>,
      c\<lparr>r_tr := GDT_TSS_SELECTOR\<rparr>)"

definition STACK_SIZE :: u64 where "STACK_SIZE = 0x4000"

definition zero_tss :: tss where
  "zero_tss = \<lparr>rsp0 = 0, rsp1 = 0, rsp2 = 0, ist1 = 0, ist2 = 0, ist3 = 0, ist4 = 0, ist5 = 0,
     ist6 = 0, ist7 = 0, iomap_base = 0\<rparr>"

definition tss_init_ex ::
  "MemoryAllocType \<Rightarrow> u32 \<Rightarrow> pstate \<Rightarrow> segs \<Rightarrow> (bool \<times> tss \<times> pstate \<times> segs) option" where
  "tss_init_ex mtype flags h c = do {
     (stack, _, h) \<leftarrow> avmf_alloc pager_map (STACK_SIZE * 10) mtype flags h;
     if stack = NULL then Some (False, zero_tss, h, c)
     else
       Some (True,
         \<lparr>rsp0 = stack + STACK_SIZE,
          rsp1 = (stack + STACK_SIZE) + STACK_SIZE,
          rsp2 = (stack + STACK_SIZE * 2) + STACK_SIZE,
          ist1 = (stack + STACK_SIZE * 3) + STACK_SIZE,
          ist2 = (stack + STACK_SIZE * 4) + STACK_SIZE,
          ist3 = (stack + STACK_SIZE * 5) + STACK_SIZE,
          ist4 = (stack + STACK_SIZE * 6) + STACK_SIZE,
          ist5 = (stack + STACK_SIZE * 7) + STACK_SIZE,
          ist6 = (stack + STACK_SIZE * 8) + STACK_SIZE,
          ist7 = (stack + STACK_SIZE * 9) + STACK_SIZE,
          iomap_base = ucast sizeof_tss\<rparr>,
         h, c\<lparr>r_tr := GDT_TSS_SELECTOR\<rparr>)
   }"

subsection \<open>Interrupts\<close>

record idt_entry =
  offset_low :: u16
  selector :: u16
  ist :: u8
  type_attr :: u8
  offset_mid :: u16
  offset_high :: u32
  id_zero :: u32

text \<open>
  The table is a store of 256 entries; \<open>handlers\<close> gives the addresses of the assembly stubs, the
  32 of the exceptions and the five of the other vectors.
\<close>

record idt_state =
  idt_heap :: pstate
  idt :: u64
  idt_ptr :: u64
  entries :: "nat \<Rightarrow> idt_entry"
  idt_ptr_val :: gdtr
  idt_segs :: segs
  idt_said :: "message list"

record handlers =
  aos_system_exception_asm :: "nat \<Rightarrow> u64"
  aos_int_smp_timer :: u64
  aos_int_smp_ipi :: u64
  aos_int_smp_tlb_ipi :: u64
  aos_int_avmss :: u64
  aos_int_gpu_switch_off :: u64

definition idt_gate :: "u64 \<Rightarrow> u16 \<Rightarrow> u8 \<Rightarrow> idt_entry" where
  "idt_gate offset sel attr =
     \<lparr>offset_low = ucast (offset AND 0xFFFF), selector = sel, ist = 0, type_attr = attr,
      offset_mid = ucast (drop_bit 16 offset AND 0xFFFF), offset_high = ucast (drop_bit 32 offset),
      id_zero = 0\<rparr>"

definition set_idt_entry :: "nat \<Rightarrow> u64 \<Rightarrow> u16 \<Rightarrow> u8 \<Rightarrow> idt_state \<Rightarrow> idt_state" where
  "set_idt_entry num offset sel attr s = s\<lparr>entries := (entries s)(num := idt_gate offset sel attr)\<rparr>"

definition idt_load_local :: "idt_state \<Rightarrow> idt_state" where
  "idt_load_local s =
     (if idt s = NULL \<or> idt_ptr s = NULL then s
      else s\<lparr>idt_segs := (idt_segs s)\<lparr>r_idtr := idt_ptr_val s\<rparr>\<rparr>)"

definition say_idt :: "string \<Rightarrow> idt_state \<Rightarrow> idt_state" where
  "say_idt msg s = s\<lparr>idt_said := (msg, []) # idt_said s\<rparr>"

text \<open>The part of \<open>idt_init\<close> after the allocations; the pages of the table are not cleared.\<close>

definition idt_fill :: "handlers \<Rightarrow> idt_state \<Rightarrow> idt_state" where
  "idt_fill H s =
     (let s = s\<lparr>idt_ptr_val := \<lparr>gdtr_limit = ucast (sizeof_idt_entry * 256 - 1), gdtr_base = idt s\<rparr>\<rparr>;
          s = fold (\<lambda>k. set_idt_entry k (aos_system_exception_asm H k) 0x08 0x8E) [0..<32] s;
          s = set_idt_entry 0x30 (aos_int_smp_timer H) 0x08 0x8E s;
          s = set_idt_entry 0x40 (aos_int_smp_ipi H) 0x08 0x8E s;
          s = set_idt_entry 0x41 (aos_int_smp_tlb_ipi H) 0x08 0x8E s;
          s = set_idt_entry 0x50 (aos_int_avmss H) 0x08 0x8E s;
          s = set_idt_entry 0x51 (aos_int_gpu_switch_off H) 0x08 0x8E s
      in s\<lparr>idt_segs := (idt_segs s)\<lparr>r_idtr := idt_ptr_val s, interrupts := True\<rparr>\<rparr>)"

text \<open>The flags are \<open>AVMF_FLAG_RW | AVMF_FLAG_GLOBAL\<close>.\<close>

definition idt_init :: "handlers \<Rightarrow> (nat \<Rightarrow> idt_entry) \<Rightarrow> idt_state \<Rightarrow> idt_state option" where
  "idt_init H junk s = do {
     let s = say_idt ''[IDT] Initializing...'' s;
     (p, _, h) \<leftarrow> avmf_alloc pager_map (sizeof_idt_entry * 256) MALLOC_TYPE_SENSITIVE 0x23 (idt_heap s);
     let s = s\<lparr>idt := p, idt_heap := h\<rparr>;
     if p = NULL then Some (say_idt ''[IDT] Failed to allocate memory for idt!'' s)
     else do {
       let s = s\<lparr>entries := junk\<rparr>;
       (q, _, h) \<leftarrow> avmf_alloc pager_map sizeof_idt_ptr MALLOC_TYPE_SENSITIVE 0x23 (idt_heap s);
       let s = s\<lparr>idt_ptr := q, idt_heap := h\<rparr>;
       if q = NULL then Some (say_idt ''[IDT] Failed to allocate memory for idt_ptr!'' s)
       else Some (say_idt ''[IDT] Initialized'' (idt_fill H s))
     }
   }"

subsection \<open>The tables as the processor reads them\<close>

definition le32 :: "u32 \<Rightarrow> u8 list" where
  "le32 w = [ucast w, ucast (drop_bit 8 w), ucast (drop_bit 16 w), ucast (drop_bit 24 w)]"

definition gdt_entry_bytes :: "gdt_entry \<Rightarrow> u8 list" where
  "gdt_entry_bytes e = word_bytes (limit_low e) @ word_bytes (base_low e) @
     [base_mid e, access e, granularity e, base_high e]"

definition gdt_tss_bytes :: "gdt_tss_entry \<Rightarrow> u8 list" where
  "gdt_tss_bytes e = word_bytes (ts_limit_low e) @ word_bytes (ts_base_low e) @
     [ts_base_mid1 e, ts_access e, ts_granularity e, ts_base_mid2 e] @ le32 (ts_base_high e) @
     le32 (ts_reserved e)"

definition gdt_bytes :: "gdt \<Rightarrow> u8 list" where
  "gdt_bytes g = gdt_entry_bytes (gdt_null g) @ gdt_entry_bytes (kernel_code g) @
     gdt_entry_bytes (kernel_data g) @ gdt_entry_bytes (user_data g) @ gdt_entry_bytes (user_code g) @
     gdt_tss_bytes (gdt_tss g)"

definition idt_entry_bytes :: "idt_entry \<Rightarrow> u8 list" where
  "idt_entry_bytes e = word_bytes (offset_low e) @ word_bytes (selector e) @ [ist e, type_attr e] @
     word_bytes (offset_mid e) @ le32 (offset_high e) @ le32 (id_zero e)"

text \<open>A little-endian number.\<close>

fun le :: "u8 list \<Rightarrow> u64" where
  "le [] = 0"
| "le (b # bs) = ucast b OR push_bit 8 (le bs)"

text \<open>
  What a selector means in long mode: a 64-bit code segment or a writable data segment with its
  privilege level, or an available 64-bit task state with its base and limit.
\<close>

datatype segment = Code64 nat | Writable nat | Available_tss u64 nat | No_segment

definition segment_of :: "u8 list \<Rightarrow> segment" where
  "segment_of d =
     (let acc = d ! 5;
          dpl = unat (drop_bit 5 acc AND 3)
      in if length d < 8 \<or> \<not> bit acc 7 then No_segment
      else if bit acc 4 then
        if bit acc 3 then if bit (d ! 6) 5 \<and> \<not> bit (d ! 6) 6 then Code64 dpl else No_segment
        else if bit acc 1 then Writable dpl else No_segment
      else if length d < 16 \<or> acc AND 0xF \<noteq> 9 then No_segment
      else Available_tss (le [d ! 2, d ! 3, d ! 4, d ! 7, d ! 8, d ! 9, d ! 10, d ! 11])
        (unat (le [d ! 0, d ! 1, d ! 6 AND 0xF])))"

definition segment_at :: "u8 list \<Rightarrow> u16 \<Rightarrow> segment" where
  "segment_at bs sel = segment_of (drop (8 * unat (drop_bit 3 sel)) bs)"

text \<open>An entry of the interrupt table: the selector and the address of a present interrupt gate.\<close>

definition interrupt_gate :: "u8 list \<Rightarrow> (u64 \<times> u64) option" where
  "interrupt_gate bs =
     (if length bs = 16 \<and> bit (bs ! 5) 7 \<and> bs ! 5 AND 0x1F = 0xE
      then Some (le [bs ! 2, bs ! 3], le [bs ! 0, bs ! 1, bs ! 6, bs ! 7, bs ! 8, bs ! 9, bs ! 10, bs ! 11])
      else None)"

lemma byte_bit_lt: "bit (b :: u8) n \<Longrightarrow> n < 8"
  using bit_imp_le_length [of b n] by simp

lemma bit_le:
  "bit (le bs) n \<longleftrightarrow> n < 64 \<and> n div 8 < length bs \<and> bit (bs ! (n div 8)) (n mod 8)"
proof (induction bs arbitrary: n)
  case (Cons b bs)
  show ?case
  proof (cases "n < 8")
    case True
    then show ?thesis by (auto simp: bit_simps)
  next
    case False
    then have "n div 8 = Suc ((n - 8) div 8)" "n mod 8 = (n - 8) mod 8"
      by (simp_all add: div_if mod_if)
    then show ?thesis using False Cons.IH [of "n - 8"] by (auto simp: bit_simps dest: byte_bit_lt)
  qed
qed simp

text \<open>A quadword read back from its eight bytes.\<close>

lemma le_qword_bytes: "le (qword_bytes a) = a"
proof (rule bit_word_eqI)
  fix n assume "n < LENGTH(64)"
  then have "n div 8 < 8" by simp
  then show "bit (le (qword_bytes a)) n = bit a n"
    using \<open>n < LENGTH(64)\<close> by (simp add: bit_le qword_bytes_def bit_simps)
qed


lemma low_masks: "(x :: u64) AND 0xFFFF = take_bit 16 x" "(x :: u64) AND 0xFF = take_bit 8 x"
  by (simp_all add: take_bit_eq_mask mask_eq_exp_minus_1)

lemma qword_bytes_split:
  "qword_bytes a = [ucast a, ucast (drop_bit 8 a), ucast (drop_bit 16 a), ucast (drop_bit 24 a),
     ucast (drop_bit 32 a), ucast (drop_bit 40 a), ucast (drop_bit 48 a), ucast (drop_bit 56 a)]"
  by (simp add: qword_bytes_def upt_rec)

lemma tss_base_bytes:
  "[ucast (ts_base_low (tss_entry a)), ucast (drop_bit 8 (ts_base_low (tss_entry a))),
    ts_base_mid1 (tss_entry a), ts_base_mid2 (tss_entry a)] @ le32 (ts_base_high (tss_entry a)) = qword_bytes a"
  unfolding qword_bytes_split tss_entry_def le32_def
  by (auto simp: low_masks bit_simps intro!: bit_word_eqI)

lemma gate_offset_bytes:
  "word_bytes (offset_low (idt_gate a sel attr)) @ word_bytes (offset_mid (idt_gate a sel attr)) @
    le32 (offset_high (idt_gate a sel attr)) = qword_bytes a"
  unfolding qword_bytes_split idt_gate_def le32_def word_bytes_def
  by (auto simp: low_masks bit_simps intro!: bit_word_eqI)

lemma length_entry_bytes [simp]: "length (gdt_entry_bytes e) = 8" "length (gdt_tss_bytes e') = 16"
  by (simp_all add: gdt_entry_bytes_def gdt_tss_bytes_def word_bytes_def le32_def)

lemma length_gdt: "length (gdt_bytes g) = 56"
  by (simp add: gdt_bytes_def)

lemma drop_gdt:
  "drop 8 (gdt_bytes g) = gdt_entry_bytes (kernel_code g) @ drop 16 (gdt_bytes g)"
  "drop 16 (gdt_bytes g) = gdt_entry_bytes (kernel_data g) @ drop 24 (gdt_bytes g)"
  "drop 24 (gdt_bytes g) = gdt_entry_bytes (user_data g) @ drop 32 (gdt_bytes g)"
  "drop 32 (gdt_bytes g) = gdt_entry_bytes (user_code g) @ drop 40 (gdt_bytes g)"
  "drop 40 (gdt_bytes g) = gdt_tss_bytes (gdt_tss g)"
  by (simp_all add: gdt_bytes_def)

lemma segment_of_flat:
  "segment_of (gdt_entry_bytes (flat_entry 0x9A 0x20) @ bs) = Code64 0"
  "segment_of (gdt_entry_bytes (flat_entry 0xFA 0x20) @ bs) = Code64 3"
  "segment_of (gdt_entry_bytes (flat_entry 0x92 0) @ bs) = Writable 0"
  "segment_of (gdt_entry_bytes (flat_entry 0xF2 0) @ bs) = Writable 3"
  by (simp_all add: segment_of_def gdt_entry_bytes_def word_bytes_def flat_entry_def Let_def)

lemma segment_of_tss: "segment_of (gdt_tss_bytes (tss_entry a)) = Available_tss a 103"
proof -
  have e: "ts_access (tss_entry a) = 0x89" "ts_granularity (tss_entry a) = 0" "ts_limit_low (tss_entry a) = 103"
    by (simp_all add: tss_entry_def GDT_ACCESS_TSS_def sizeof_tss_def)
  have "le [ucast (ts_base_low (tss_entry a)), ucast (drop_bit 8 (ts_base_low (tss_entry a))),
      ts_base_mid1 (tss_entry a), ts_base_mid2 (tss_entry a),
      ucast (ts_base_high (tss_entry a)), ucast (drop_bit 8 (ts_base_high (tss_entry a))),
      ucast (drop_bit 16 (ts_base_high (tss_entry a))), ucast (drop_bit 24 (ts_base_high (tss_entry a)))] = a"
    using tss_base_bytes [of a] le_qword_bytes [of a] by (simp add: le32_def)
  then show ?thesis
    by (simp add: segment_of_def gdt_tss_bytes_def word_bytes_def le32_def e Let_def del: le.simps)
      (simp)
qed

text \<open>C22: after \<open>gdt_init_ex\<close> the table register covers exactly the bytes of the table; the selectors it has loaded mean 64-bit code and writable data of the kernel's ring, those it keeps for user mode the same of ring 3, and the selector that \<open>tss_init_ex\<close> loads means an available task state at the given address, of exactly the size of the structure.\<close>

theorem gdt_init_ex_segments:
  "case gdt_init_ex gdt tss c of (ok, g, r, c') \<Rightarrow>
     ok \<and> r_gdtr c' = r \<and> gdtr_base r = gdt \<and> unat (gdtr_limit r) + 1 = length (gdt_bytes g) \<and>
     segment_at (gdt_bytes g) (r_cs c') = Code64 0 \<and>
     map (segment_at (gdt_bytes g)) [r_ds c', r_es c', r_ss c'] = [Writable 0, Writable 0, Writable 0] \<and>
     segment_at (gdt_bytes g) USER_CS = Code64 3 \<and>
     segment_at (gdt_bytes g) USER_DS = Writable 3 \<and>
     segment_at (gdt_bytes g) GDT_TSS_SELECTOR = Available_tss tss (unat sizeof_tss - 1)"
proof -
  note accs = GDT_ACCESS_KERNEL_CODE_def GDT_ACCESS_KERNEL_DATA_def GDT_ACCESS_USER_CODE_def
    GDT_ACCESS_USER_DATA_def GDT_FLAG_LONG_MODE_def
  note sels = KERNEL_CS_def KERNEL_DS_def USER_CS_def USER_DS_def GDT_TSS_SELECTOR_def SEGMENT_SELECTOR_def
  show ?thesis
    by (simp add: gdt_init_ex_def Let_def sels segment_at_def drop_gdt segment_of_flat segment_of_tss accs
      sizeof_gdt_def sizeof_tss_def length_gdt)
qed


lemma length_idt_entry_bytes [simp]: "length (idt_entry_bytes e) = 16"
  by (simp add: idt_entry_bytes_def word_bytes_def le32_def)

lemma interrupt_gate_of_handler: "interrupt_gate (idt_entry_bytes (idt_gate a 8 0x8E)) = Some (8, a)"
proof -
  have "le [ucast (offset_low (idt_gate a 8 0x8E)), ucast (drop_bit 8 (offset_low (idt_gate a 8 0x8E))),
      ucast (offset_mid (idt_gate a 8 0x8E)), ucast (drop_bit 8 (offset_mid (idt_gate a 8 0x8E))),
      ucast (offset_high (idt_gate a 8 0x8E)), ucast (drop_bit 8 (offset_high (idt_gate a 8 0x8E))),
      ucast (drop_bit 16 (offset_high (idt_gate a 8 0x8E))), ucast (drop_bit 24 (offset_high (idt_gate a 8 0x8E)))] = a"
    using gate_offset_bytes [of a 8 "0x8E"] le_qword_bytes [of a] by (simp add: le32_def word_bytes_def)
  moreover have "selector (idt_gate a 8 0x8E) = 8" "type_attr (idt_gate a 8 0x8E) = 0x8E"
    by (simp_all add: idt_gate_def)
  ultimately show ?thesis
    by (simp add: interrupt_gate_def idt_entry_bytes_def word_bytes_def le32_def del: le.simps) simp
qed

lemma set_idt_entry_simps [simp]:
  "entries (set_idt_entry k a sel attr s) = (entries s)(k := idt_gate a sel attr)"
  "idt (set_idt_entry k a sel attr s) = idt s"
  "idt_ptr_val (set_idt_entry k a sel attr s) = idt_ptr_val s"
  by (simp_all add: set_idt_entry_def)

lemma fold_set_idt_entry:
  "entries (fold (\<lambda>k. set_idt_entry k (f k) sel attr) ks s) v =
     (if v \<in> set ks then idt_gate (f v) sel attr else entries s v)"
  "idt (fold (\<lambda>k. set_idt_entry k (f k) sel attr) ks s) = idt s"
  "idt_ptr_val (fold (\<lambda>k. set_idt_entry k (f k) sel attr) ks s) = idt_ptr_val s"
  by (induction ks arbitrary: s) auto

text \<open>The vectors of the kernel: the exceptions, the timer, the two messages between processors, and two of its own.\<close>

definition handler_of :: "handlers \<Rightarrow> nat \<Rightarrow> u64 option" where
  "handler_of H v =
     (if v < 32 then Some (aos_system_exception_asm H v)
      else if v = 0x30 then Some (aos_int_smp_timer H)
      else if v = 0x40 then Some (aos_int_smp_ipi H)
      else if v = 0x41 then Some (aos_int_smp_tlb_ipi H)
      else if v = 0x50 then Some (aos_int_avmss H)
      else if v = 0x51 then Some (aos_int_gpu_switch_off H)
      else None)"

text \<open>C23: \<open>idt_fill\<close>, what \<open>idt_init\<close> does once it has its memory, loads a table of 256 entries in which every vector the kernel handles is a present interrupt gate to its handler in the kernel's 64-bit code segment, and every other vector holds what the fresh memory held before.\<close>

theorem idt_fill_dispatches:
  "gdtr_base (r_idtr (idt_segs (idt_fill H s))) = idt s \<and>
   unat (gdtr_limit (r_idtr (idt_segs (idt_fill H s)))) + 1 = 256 * 16 \<and>
   interrupts (idt_segs (idt_fill H s)) \<and>
   interrupt_gate (idt_entry_bytes (entries (idt_fill H s) v)) =
     (case handler_of H v of Some a \<Rightarrow> Some (ucast KERNEL_CS, a)
      | None \<Rightarrow> interrupt_gate (idt_entry_bytes (entries s v)))"
proof -
  have "ucast KERNEL_CS = (8 :: u64)" by (simp add: KERNEL_CS_def SEGMENT_SELECTOR_def)
  moreover have "entries (idt_fill H s) v =
      (case handler_of H v of Some a \<Rightarrow> idt_gate a 8 0x8E | None \<Rightarrow> entries s v)"
    by (auto simp: idt_fill_def Let_def fold_set_idt_entry handler_of_def)
  ultimately show ?thesis
    by (simp add: idt_fill_def Let_def fold_set_idt_entry sizeof_idt_entry_def interrupt_gate_of_handler
      split: option.split)
qed

end
