(* ===== verification/Smp.thy ===== *)
theory Smp
  imports Descriptors Serial
begin

text \<open>
  \<^verbatim>\<open>Kernel/drivers/core/smp.c\<close>: the local APIC, starting the other processors, the loop that
  each of them runs, and the queues of threads.

  Cores and threads are stores of records by address. A function runs on one processor, whose
  registers are a record of their own; what the other processors do while it waits for them is the
  argument \<open>others\<close>. The queue, command and thread locks are not modelled: each function of this
  theory is one step. \<open>serial_printf\<close> is recorded as a message.
\<close>

subsection \<open>State\<close>

datatype thread_status = THREAD_STATUS_READY | THREAD_STATUS_RUNNING | THREAD_STATUS_BLOCKED | THREAD_STATUS_DEAD

datatype core_status = CORE_STATUS_READY | CORE_STATUS_RESERVED | CORE_STATUS_RUNNING

record thread_state =
  t_rsp :: u64
  t_arg :: u64
  stack_bottom :: u64
  stack_size :: u64
  t_context :: u64
  t_status :: thread_status
  t_next :: u64
  t_prev :: u64

record core_state =
  self :: u64
  c_gdt :: gdt
  c_tss :: tss
  gdt_desc :: gdtr
  tlb_cmd :: u32
  tlb_resp :: u32
  tlb_addr :: u64
  lapic_id :: u32
  core_idx :: u32
  command :: u64
  response :: u64
  c_status :: core_status
  cur_thread :: u64
  idle_thread :: u64
  ready_list :: u64
  ready_list_end :: u64
  finished_list :: u64
  finished_list_end :: u64
  c_stack :: u64

record smp =
  s_heap :: pstate
  s_mem :: mem
  bus :: trace
  said :: "message list"
  threads :: "u64 \<rightharpoonup> thread_state"
  core_states :: "u64 \<rightharpoonup> core_state"
  cores :: "u64 list"
  ap_boot_flag :: bool
  bsp_core_idx :: u32
  bsp_apic_id :: u32
  lapic_base_virt :: u64
  lapic_ticks_per_ms :: u32

record cpu =
  rsp :: u64
  rdi :: u64
  rbp :: u64
  rbx :: u64
  r12 :: u64
  r13 :: u64
  r14 :: u64
  r15 :: u64
  rip :: u64
  cr0 :: u64
  cr3 :: u64
  cr4 :: u64
  gs_base :: u64
  c_segs :: segs
  invalidated :: "u64 list"

record smp_env =
  s_dev :: device
  s_fresh :: "u64 \<Rightarrow> u8"
  others :: "smp \<Rightarrow> smp"
  apic_ids :: "u8 list"
  lapic_base :: u64
  s_idt :: idt_state
  trampoline_start :: u64
  trampoline_end :: u64
  ap_kernel_entry_at :: u64

definition SMP_MAX_CORES :: nat where "SMP_MAX_CORES = 256"
definition SMP_IPI_VECTOR :: u8 where "SMP_IPI_VECTOR = 0x40"
definition SMP_TLB_IPI_VECTOR :: u8 where "SMP_TLB_IPI_VECTOR = 0x41"
definition SMP_TLB_CMD_INVLPAGE :: u32 where "SMP_TLB_CMD_INVLPAGE = 1"
definition SMP_TLB_CMD_REFRESH_PAGES :: u32 where "SMP_TLB_CMD_REFRESH_PAGES = 2"
definition SMP_TLB_RESP_ACK_INVPAGE :: u32 where "SMP_TLB_RESP_ACK_INVPAGE = 0x200"
definition SMP_TLB_RESP_ACK_REFRESH_PAGES :: u32 where "SMP_TLB_RESP_ACK_REFRESH_PAGES = 0x400"
definition SMP_CMD_SHUTDOWN :: u64 where "SMP_CMD_SHUTDOWN = 1"
definition SMP_CMD_RESERVE :: u64 where "SMP_CMD_RESERVE = 2"
definition SMP_CMD_UNRESERVE :: u64 where "SMP_CMD_UNRESERVE = 4"
definition SMP_RESP_INV_CMD :: u64 where "SMP_RESP_INV_CMD = 0x100"
definition SMP_RESP_ACK_SHUTDOWN :: u64 where "SMP_RESP_ACK_SHUTDOWN = 0x200"
definition SMP_RESP_ACK_RESERVE :: u64 where "SMP_RESP_ACK_RESERVE = 0x400"
definition SMP_RESP_ACK_UNRESERVE :: u64 where "SMP_RESP_ACK_UNRESERVE = 0x800"

text \<open>\<open>sizeof\<close> of the two structures.\<close>

definition sizeof_thread_state :: u64 where "sizeof_thread_state = 72"
definition sizeof_core_state :: u64 where "sizeof_core_state = 296"

definition zero_thread :: thread_state where
  "zero_thread = \<lparr>t_rsp = 0, t_arg = 0, stack_bottom = 0, stack_size = 0, t_context = 0,
     t_status = THREAD_STATUS_READY, t_next = 0, t_prev = 0\<rparr>"

definition zero_core :: core_state where
  "zero_core = \<lparr>self = 0,
     c_gdt = \<lparr>gdt_null = flat_entry 0 0, kernel_code = flat_entry 0 0, kernel_data = flat_entry 0 0,
       user_data = flat_entry 0 0, user_code = flat_entry 0 0,
       gdt_tss = \<lparr>ts_limit_low = 0, ts_base_low = 0, ts_base_mid1 = 0, ts_access = 0,
         ts_granularity = 0, ts_base_mid2 = 0, ts_base_high = 0, ts_reserved = 0\<rparr>\<rparr>,
     c_tss = zero_tss, gdt_desc = \<lparr>gdtr_limit = 0, gdtr_base = 0\<rparr>,
     tlb_cmd = 0, tlb_resp = 0, tlb_addr = 0, lapic_id = 0, core_idx = 0, command = 0, response = 0,
     c_status = CORE_STATUS_READY, cur_thread = 0, idle_thread = 0, ready_list = 0,
     ready_list_end = 0, finished_list = 0, finished_list_end = 0, c_stack = 0\<rparr>"

definition say :: "string \<Rightarrow> msg_arg list \<Rightarrow> smp \<Rightarrow> smp" where
  "say fmt args s = s\<lparr>said := (fmt, args) # said s\<rparr>"

definition upd_thread :: "u64 \<Rightarrow> (thread_state \<Rightarrow> thread_state) \<Rightarrow> smp \<Rightarrow> smp option" where
  "upd_thread p f s = do { t \<leftarrow> threads s p; Some (s\<lparr>threads := (threads s)(p \<mapsto> f t)\<rparr>) }"

definition upd_core :: "u64 \<Rightarrow> (core_state \<Rightarrow> core_state) \<Rightarrow> smp \<Rightarrow> smp option" where
  "upd_core p f s = do { c \<leftarrow> core_states s p; Some (s\<lparr>core_states := (core_states s)(p \<mapsto> f c)\<rparr>) }"

text \<open>Memory from the manager, as in \<open>Serial\<close>; the bytes and the threads in pages that are freed are gone, the record of a core stays.\<close>

definition sm_alloc :: "smp_env \<Rightarrow> u64 \<Rightarrow> smp \<Rightarrow> (u64 \<times> smp) option" where
  "sm_alloc e sz s = do {
     (v, _, h) \<leftarrow> avmf_alloc pager_map sz MALLOC_TYPE_KERNEL AVMF_FLAG_RW (s_heap s);
     let s = s\<lparr>s_heap := h\<rparr>;
     Some (v, if v = NULL then s
       else s\<lparr>s_mem := map_fresh (s_fresh e) v (unat (align4k sz)) (s_mem s)\<rparr>)
   }"

definition sm_free :: "u64 \<Rightarrow> smp \<Rightarrow> smp option" where
  "sm_free a s = do {
     h \<leftarrow> avmf_free pager_map pager_unmap a (s_heap s);
     let b = freed_block a (s_heap s);
     Some (s\<lparr>s_heap := h, s_mem := unmap_block b (s_mem s),
       threads := (\<lambda>p. if in_block b p then None else threads s p)\<rparr>)
   }"

definition sm_memset :: "u64 \<Rightarrow> u64 \<Rightarrow> smp \<Rightarrow> smp option" where
  "sm_memset a n s = do { (_, m) \<leftarrow> memset a 0 n (s_mem s); Some (s\<lparr>s_mem := m\<rparr>) }"

definition store64 :: "u64 \<Rightarrow> u64 \<Rightarrow> smp \<Rightarrow> smp option" where
  "store64 a v s = do { m \<leftarrow> write_bytes a (qword_bytes v) (s_mem s); Some (s\<lparr>s_mem := m\<rparr>) }"

definition load64 :: "u64 \<Rightarrow> smp \<Rightarrow> u64 option" where
  "load64 a s = do { bs \<leftarrow> read_mem (s_mem s) a 8; Some (le bs) }"

subsection \<open>The local APIC\<close>

definition lapic_write :: "smp_env \<Rightarrow> u32 \<Rightarrow> u32 \<Rightarrow> smp \<Rightarrow> smp" where
  "lapic_write e reg v s =
     (let a = lapic_base_virt s + ucast reg;
          t = store32 a v (bus s);
          (_, t) = load32 (s_dev e) a t
      in s\<lparr>bus := t\<rparr>)"

definition lapic_read :: "smp_env \<Rightarrow> u32 \<Rightarrow> smp \<Rightarrow> u32 \<times> smp" where
  "lapic_read e reg s = (let (v, t) = load32 (s_dev e) (lapic_base_virt s + ucast reg) (bus s) in (v, s\<lparr>bus := t\<rparr>))"

text \<open>The delays of \<open>KTime\<close>, counted in reads of the counter on the trace.\<close>

definition sm_delay :: "((nat \<Rightarrow> u64) \<Rightarrow> timer_state \<Rightarrow> nat option) \<Rightarrow> smp_env \<Rightarrow> smp \<Rightarrow> smp option" where
  "sm_delay f e s = do {
     n \<leftarrow> f (\<lambda>k. tsc (s_dev e) (replicate k Rdtsc @ bus s)) (timer (s_dev e));
     Some (s\<lparr>bus := replicate n Rdtsc @ bus s\<rparr>)
   }"

definition sm_ms :: "smp_env \<Rightarrow> smp \<Rightarrow> u64 \<times> smp" where
  "sm_ms e s = (let (now, t) = read_ms (s_dev e) (bus s) in (now, s\<lparr>bus := t\<rparr>))"

definition lapic_timer_calibrate :: "smp_env \<Rightarrow> smp \<Rightarrow> smp option" where
  "lapic_timer_calibrate e s = do {
     let s = lapic_write e 0x3E0 0x3 s;
     let s = lapic_write e 0x380 0xFFFFFFFF s;
     s \<leftarrow> sm_delay (kdelay 10) e s;
     let s = lapic_write e 0x320 0x10000 s;
     let (cur, s) = lapic_read e 0x390 s;
     let ticks_passed = 0xFFFFFFFF - cur;
     let s = s\<lparr>lapic_ticks_per_ms := ticks_passed div 10\<rparr>;
     Some (say ''[SMP : LAPIC] Calibrated: %d ticks/ms'' [Num (ucast (lapic_ticks_per_ms s))] s)
   }"

definition lapic_timer_start :: "smp_env \<Rightarrow> u32 \<Rightarrow> smp \<Rightarrow> smp" where
  "lapic_timer_start e ms s =
     (let s = lapic_write e 0x3E0 0x3 s;
          vector = 0x30 OR push_bit 17 1;
          s = lapic_write e 0x320 vector s
      in lapic_write e 0x380 (ms * lapic_ticks_per_ms s) s)"

definition lapic_init :: "smp_env \<Rightarrow> u64 \<Rightarrow> smp \<Rightarrow> smp option" where
  "lapic_init e phys s =
     (let s = s\<lparr>lapic_base_virt := phys + AOS_DIRECT_MAP_BASE\<rparr>;
          s = say ''[SMP:LAPIC] Initializing at Virtual Addr 0x%llx (Phys 0x%llx)''
            [Num (lapic_base_virt s), Num phys] s;
          s = lapic_write e 0x80 0 s;
          s = lapic_write e 0xF0 0x1FF s
      in lapic_timer_calibrate e s)"

definition get_lapic_id :: "smp_env \<Rightarrow> smp \<Rightarrow> u8 \<times> smp" where
  "get_lapic_id e s = (let (v, s) = lapic_read e 0x20 s in (ucast (drop_bit 24 v), s))"

text \<open>The wait for the delivery of an interrupt command.\<close>

partial_function (option) icr_wait :: "smp_env \<Rightarrow> smp \<Rightarrow> smp option" where
  "icr_wait e s =
     (let (v, s) = lapic_read e 0x300 s in
      if v AND 0x1000 \<noteq> 0 then icr_wait e s else Some s)"

definition send_ipi :: "smp_env \<Rightarrow> u8 \<Rightarrow> u8 \<Rightarrow> smp \<Rightarrow> smp option" where
  "send_ipi e target vector s = do {
     let s = lapic_write e 0x310 (push_bit 24 (ucast target)) s;
     let s = lapic_write e 0x300 0xC500 s;
     s \<leftarrow> icr_wait e s;
     let s = lapic_write e 0x310 (push_bit 24 (ucast target)) s;
     let s = lapic_write e 0x300 (0xC600 OR ucast vector) s;
     icr_wait e s
   }"

definition send_wakeup_ipi :: "smp_env \<Rightarrow> u8 \<Rightarrow> u8 \<Rightarrow> smp \<Rightarrow> smp" where
  "send_wakeup_ipi e target vector s =
     (let s = lapic_write e 0x310 (push_bit 24 (ucast target)) s
      in lapic_write e 0x300 (0x4000 OR ucast vector) s)"

definition smp_ipi_handler :: "smp_env \<Rightarrow> smp \<Rightarrow> smp" where
  "smp_ipi_handler e s = lapic_write e 0xB0 0 s"

definition smp_timer_handler :: "smp_env \<Rightarrow> smp \<Rightarrow> smp" where
  "smp_timer_handler e s = lapic_write e 0xB0 0 s"


subsection \<open>Threads and the switch between them\<close>

text \<open>\<open>push\<close> and \<open>pop\<close> at a stack pointer.\<close>

definition push64 :: "u64 \<Rightarrow> u64 \<times> smp \<Rightarrow> (u64 \<times> smp) option" where
  "push64 v ps = do { s \<leftarrow> store64 (fst ps - 8) v (snd ps); Some (fst ps - 8, s) }"

fun push_all :: "u64 list \<Rightarrow> u64 \<times> smp \<Rightarrow> (u64 \<times> smp) option" where
  "push_all [] ps = Some ps"
| "push_all (v # vs) ps = do { ps \<leftarrow> push64 v ps; push_all vs ps }"

text \<open>The frame of a thread that has not run: its entry, the argument, and six zeros.\<close>

definition start_frame :: "u64 \<Rightarrow> u64 \<Rightarrow> u64 list" where
  "start_frame entry arg = [entry, arg, 0, 0, 0, 0, 0, 0]"

definition create_thread :: "smp_env \<Rightarrow> u64 \<Rightarrow> u64 \<Rightarrow> smp \<Rightarrow> (u64 \<times> smp) option" where
  "create_thread e entry arg s = do {
     (thread, s) \<leftarrow> sm_alloc e sizeof_thread_state s;
     if thread = NULL then Some (NULL, s)
     else do {
       let s = s\<lparr>threads := (threads s)(thread \<mapsto> zero_thread)\<rparr>;
       (stack_raw, s) \<leftarrow> sm_alloc e PAGE_SIZE s;
       if stack_raw = NULL then Some (NULL, s)
       else do {
         s \<leftarrow> sm_memset stack_raw PAGE_SIZE s;
         (stack, s) \<leftarrow> push_all (start_frame entry arg) (stack_raw + PAGE_SIZE, s);
         s \<leftarrow> upd_thread thread (\<lambda>t. t\<lparr>t_rsp := stack, stack_bottom := stack_raw,
           stack_size := PAGE_SIZE, t_arg := arg, t_status := THREAD_STATUS_READY\<rparr>) s;
         Some (thread, s)
       }
     }
   }"

text \<open>
  \<^verbatim>\<open>Kernel/src/arch/x86_64/switch_thread_context.asm\<close>. The call has pushed \<open>ret\<close> and has \<open>old\<close>
  in \<open>rdi\<close>; the last instruction returns to the address on the new stack.
\<close>

definition thread_context_switch :: "u64 \<Rightarrow> u64 \<Rightarrow> u64 \<Rightarrow> cpu \<times> smp \<Rightarrow> (cpu \<times> smp) option" where
  "thread_context_switch ret old new cs = do {
     let (c, s) = cs;
     (sp, s) \<leftarrow> push_all [ret, old, rbp c, rbx c, r12 c, r13 c, r14 c, r15 c] (rsp c, s);
     s \<leftarrow> upd_thread old (\<lambda>t. t\<lparr>t_rsp := sp\<rparr>) s;
     t \<leftarrow> threads s new;
     let sp = t_rsp t;
     v15 \<leftarrow> load64 sp s;
     v14 \<leftarrow> load64 (sp + 8) s;
     v13 \<leftarrow> load64 (sp + 16) s;
     v12 \<leftarrow> load64 (sp + 24) s;
     vbx \<leftarrow> load64 (sp + 32) s;
     vbp \<leftarrow> load64 (sp + 40) s;
     vdi \<leftarrow> load64 (sp + 48) s;
     vip \<leftarrow> load64 (sp + 56) s;
     Some (c\<lparr>r15 := v15, r14 := v14, r13 := v13, r12 := v12, rbx := vbx, rbp := vbp, rdi := vdi,
       rip := vip, rsp := sp + 64\<rparr>, s)
   }"

subsection \<open>Which core this is\<close>

definition core_has_valid_core_state :: "cpu \<Rightarrow> bool" where
  "core_has_valid_core_state c \<longleftrightarrow> gs_base c \<noteq> NULL"

text \<open>\<open>mov %gs:0\<close> reads the field \<open>self\<close>.\<close>

definition this_core :: "cpu \<Rightarrow> smp \<Rightarrow> u64 option" where
  "this_core c s = do { cs \<leftarrow> core_states s (gs_base c); Some (self cs) }"

definition smp_is_bsp_core :: "cpu \<Rightarrow> smp \<Rightarrow> bool option" where
  "smp_is_bsp_core c s =
     (if \<not> core_has_valid_core_state c then Some True
      else do {
        core \<leftarrow> this_core c s;
        cs \<leftarrow> core_states s core;
        Some (lapic_id cs = bsp_apic_id s)
      })"

definition smp_get_current_core :: "cpu \<Rightarrow> smp \<Rightarrow> u32 option" where
  "smp_get_current_core c s =
     (if \<not> core_has_valid_core_state c then Some 0
      else do {
        core \<leftarrow> this_core c s;
        cs \<leftarrow> core_states s core;
        Some (core_idx cs)
      })"

definition core_at :: "u32 \<Rightarrow> smp \<Rightarrow> u64" where
  "core_at idx s = (if unat idx \<ge> SMP_MAX_CORES then NULL else cores s ! unat idx)"

definition smp_get_core_status :: "u32 \<Rightarrow> smp \<Rightarrow> core_status option option" where
  "smp_get_core_status idx s =
     (if core_at idx s = NULL then Some None
      else do { cs \<leftarrow> core_states s (core_at idx s); Some (Some (c_status cs)) })"

fun first_free_loop :: "nat list \<Rightarrow> smp \<Rightarrow> u32 option option" where
  "first_free_loop [] s = Some None"
| "first_free_loop (i # is) s =
     (if cores s ! i = NULL \<or> i = unat (bsp_core_idx s) then first_free_loop is s
      else do {
        cs \<leftarrow> core_states s (cores s ! i);
        if c_status cs = CORE_STATUS_READY then Some (Some (core_idx cs)) else first_free_loop is s
      })"

definition smp_get_first_free_core :: "smp \<Rightarrow> u32 option option" where
  "smp_get_first_free_core s = first_free_loop [0..<SMP_MAX_CORES] s"

subsection \<open>Queueing a task\<close>

text \<open>The two unlinking blocks of the search through the finished threads.\<close>

definition unlink_finished :: "u64 \<Rightarrow> u64 \<Rightarrow> u64 \<Rightarrow> smp \<Rightarrow> smp option" where
  "unlink_finished target prev_t cur_t s = do {
     t \<leftarrow> threads s cur_t;
     s \<leftarrow> (if prev_t \<noteq> NULL then upd_thread prev_t (\<lambda>p. p\<lparr>t_next := t_next t\<rparr>) s else Some s);
     t \<leftarrow> threads s cur_t;
     s \<leftarrow> (if t_next t \<noteq> NULL then upd_thread (t_next t) (\<lambda>n. n\<lparr>t_prev := prev_t\<rparr>) s else Some s);
     t \<leftarrow> threads s cur_t;
     s \<leftarrow> upd_core target (\<lambda>c. if finished_list c = cur_t then c\<lparr>finished_list := t_next t\<rparr> else c) s;
     upd_core target (\<lambda>c. if finished_list_end c = cur_t then c\<lparr>finished_list_end := t_prev t\<rparr> else c) s
   }"

text \<open>A thread whose stack is too small for any use is freed.\<close>

definition free_thread :: "u64 \<Rightarrow> smp \<Rightarrow> smp option" where
  "free_thread th s = do {
     t \<leftarrow> threads s th;
     s \<leftarrow> (if stack_bottom t \<noteq> NULL then sm_free (stack_bottom t) s else Some s);
     s \<leftarrow> upd_thread th (\<lambda>t. t\<lparr>stack_bottom := NULL, stack_size := 0, t_rsp := NULL\<rparr>) s;
     sm_free th s
   }"

text \<open>The frame of a thread that is used again: \<open>rsp\<close> is set before the frame is pushed.\<close>

definition reset_thread :: "u64 \<Rightarrow> u64 \<Rightarrow> u64 \<Rightarrow> smp \<Rightarrow> smp option" where
  "reset_thread th entry arg s = do {
     s \<leftarrow> upd_thread th (\<lambda>t. t\<lparr>t_rsp := stack_bottom t + stack_size t\<rparr>) s;
     t \<leftarrow> threads s th;
     (_, s) \<leftarrow> push_all (start_frame entry arg) (t_rsp t, s);
     Some s
   }"

partial_function (option) reuse_thread ::
  "u64 \<Rightarrow> u64 \<Rightarrow> u64 \<Rightarrow> u64 \<Rightarrow> u64 \<Rightarrow> smp \<Rightarrow> (u64 \<times> smp) option" where
  "reuse_thread target prev_t cur_t entry arg s =
     (if cur_t = NULL then Some (NULL, s)
      else do {
        t \<leftarrow> threads s cur_t;
        if t_status t = THREAD_STATUS_DEAD then
          if stack_size t < 1024 then do {
            s \<leftarrow> unlink_finished target prev_t cur_t s;
            t \<leftarrow> threads s cur_t;
            s \<leftarrow> free_thread cur_t s;
            reuse_thread target prev_t (t_next t) entry arg s
          }
          else do {
            s \<leftarrow> unlink_finished target prev_t cur_t s;
            s \<leftarrow> reset_thread cur_t entry arg s;
            Some (cur_t, s)
          }
        else reuse_thread target cur_t (t_next t) entry arg s
      })"

definition enqueue_thread :: "u64 \<Rightarrow> u64 \<Rightarrow> smp \<Rightarrow> smp option" where
  "enqueue_thread target th s = do {
     c \<leftarrow> core_states s target;
     s \<leftarrow> (if ready_list_end c \<noteq> NULL then upd_thread (ready_list_end c) (\<lambda>t. t\<lparr>t_next := th\<rparr>) s else Some s);
     s \<leftarrow> upd_thread th (\<lambda>t. t\<lparr>t_prev := ready_list_end c\<rparr>) s;
     upd_core target (\<lambda>c. c\<lparr>ready_list_end := th,
       ready_list := if ready_list c = NULL then th else ready_list c\<rparr>) s
   }"

definition smp_push_task :: "smp_env \<Rightarrow> cpu \<Rightarrow> u32 \<Rightarrow> u64 \<Rightarrow> u64 \<Rightarrow> smp \<Rightarrow> smp option" where
  "smp_push_task e c idx entry arg s =
     (if core_at idx s = NULL then Some s
      else do {
        bsp \<leftarrow> (if idx = bsp_core_idx s then smp_is_bsp_core c s else Some True);
        if \<not> bsp then
          Some (say ''[SMP] Warning: AP core tried to push a task to the BSP core! Blocked.'' [] s)
        else do {
          let target = core_at idx s;
          cs \<leftarrow> core_states s target;
          (new_thread, s) \<leftarrow> reuse_thread target NULL (finished_list cs) entry arg s;
          (new_thread, s) \<leftarrow> (if new_thread = NULL then create_thread e entry arg s else Some (new_thread, s));
          s \<leftarrow> upd_thread new_thread (\<lambda>t. t\<lparr>t_arg := arg, t_status := THREAD_STATUS_READY\<rparr>) s;
          s \<leftarrow> enqueue_thread target new_thread s;
          let s = say ''[SMP] Queueing new task for core %d'' [Num (ucast idx)] s;
          cs \<leftarrow> core_states s target;
          if c_status cs \<noteq> CORE_STATUS_RUNNING then
            Some (send_wakeup_ipi e (ucast (lapic_id cs)) SMP_IPI_VECTOR
              (say ''[SMP] Sending Awake command for core %d'' [Num (ucast idx)] s))
          else Some s
        }
      })"

text \<open>\<open>call\<close> stands for the call of the entry function.\<close>

definition smp_push_task_bsp :: "(u64 \<Rightarrow> u64 \<Rightarrow> smp \<Rightarrow> smp option) \<Rightarrow> cpu \<Rightarrow> u64 \<Rightarrow> u64 \<Rightarrow> smp \<Rightarrow> smp option" where
  "smp_push_task_bsp call c entry arg s = do {
     bsp \<leftarrow> smp_is_bsp_core c s;
     if \<not> bsp then
       Some (say ''[SMP] Warning: AP core tried to push a task to the BSP core! Blocked.'' [] s)
     else call entry arg s
   }"

subsection \<open>The loop of a core\<close>

text \<open>
  The command of the core, answered at the start of every round; the results are whether it shuts
  down and its status when idle.
\<close>

definition answer_command :: "u64 \<Rightarrow> core_status \<Rightarrow> smp \<Rightarrow> (bool \<times> core_status \<times> smp) option" where
  "answer_command core idle s = do {
     cs \<leftarrow> core_states s core;
     if command cs = 0 then Some (False, idle, s)
     else if command cs = SMP_CMD_SHUTDOWN then do {
       s \<leftarrow> upd_core core (\<lambda>c. c\<lparr>response := SMP_RESP_ACK_SHUTDOWN\<rparr>) s;
       Some (True, idle, s)
     }
     else if command cs = SMP_CMD_RESERVE then do {
       s \<leftarrow> upd_core core (\<lambda>c. c\<lparr>response := SMP_RESP_ACK_RESERVE\<rparr>) s;
       Some (False, CORE_STATUS_RESERVED, s)
     }
     else if command cs = SMP_CMD_UNRESERVE then do {
       s \<leftarrow> upd_core core (\<lambda>c. c\<lparr>response := SMP_RESP_ACK_UNRESERVE\<rparr>) s;
       Some (False, CORE_STATUS_READY, s)
     }
     else do {
       s \<leftarrow> upd_core core (\<lambda>c. c\<lparr>response := SMP_RESP_INV_CMD\<rparr>) s;
       Some (False, idle, s)
     }
   }"

partial_function (option) find_ready :: "u64 \<Rightarrow> smp \<Rightarrow> u64 option" where
  "find_ready p s =
     (if p = NULL then Some NULL
      else do {
        t \<leftarrow> threads s p;
        if t_status t = THREAD_STATUS_READY then Some p else find_ready (t_next t) s
      })"

text \<open>The next ready thread leaves the queue, \<open>NULL\<close> when there is none.\<close>

definition take_ready :: "u64 \<Rightarrow> smp \<Rightarrow> (u64 \<times> smp) option" where
  "take_ready core s = do {
     cs \<leftarrow> core_states s core;
     n \<leftarrow> find_ready (ready_list cs) s;
     if n = NULL then Some (NULL, s)
     else do {
       t \<leftarrow> threads s n;
       s \<leftarrow> upd_core core (\<lambda>c. c\<lparr>ready_list := t_next t\<rparr>) s;
       s \<leftarrow> upd_core core (\<lambda>c. if ready_list_end c = n then c\<lparr>ready_list_end := t_prev t\<rparr> else c) s;
       s \<leftarrow> upd_thread n (\<lambda>t. t\<lparr>t_status := THREAD_STATUS_RUNNING\<rparr>) s;
       Some (n, s)
     }
   }"

text \<open>\<open>False\<close>: there is no ready thread.\<close>

definition dispatch :: "u64 \<Rightarrow> u64 \<Rightarrow> cpu \<times> smp \<Rightarrow> (bool \<times> cpu \<times> smp) option" where
  "dispatch ret core ps = do {
     let (c, s) = ps;
     (n, s) \<leftarrow> take_ready core s;
     if n = NULL then Some (False, c, s)
     else do {
       cs \<leftarrow> core_states s core;
       let s = say ''[SMP : CORE %d] Found Task'' [Num (ucast (core_idx cs))] s;
       s \<leftarrow> upd_core core (\<lambda>c. c\<lparr>cur_thread := n\<rparr>) s;
       (c, s) \<leftarrow> thread_context_switch ret (cur_thread cs) n (c, s);
       Some (True, c, s)
     }
   }"

datatype ap_outcome = Ap_halted | Ap_switched | Ap_idle

text \<open>One round of the loop of \<open>ap_kernel_entry\<close>, up to the halt when there is nothing to do.\<close>

definition ap_round :: "u64 \<Rightarrow> u64 \<Rightarrow> core_status \<Rightarrow> cpu \<times> smp \<Rightarrow> (ap_outcome \<times> core_status \<times> cpu \<times> smp) option" where
  "ap_round ret core idle ps = do {
     let (c, s) = ps;
     (shutdown, idle, s) \<leftarrow> answer_command core idle s;
     if shutdown then Some (Ap_halted, idle, c, s)
     else do {
       cs \<leftarrow> core_states s core;
       (found, c, s) \<leftarrow> (if ready_list cs \<noteq> NULL then dispatch ret core (c, s) else Some (False, c, s));
       if found then Some (Ap_switched, idle, c, s)
       else do {
         s \<leftarrow> upd_core core (\<lambda>c. c\<lparr>c_status := idle\<rparr>) s;
         Some (Ap_idle, idle, c, s)
       }
     }
   }"

text \<open>What follows the halt.\<close>

definition ap_wake :: "u64 \<Rightarrow> smp \<Rightarrow> smp option" where
  "ap_wake core s = upd_core core (\<lambda>c. c\<lparr>c_status := CORE_STATUS_RUNNING\<rparr>) s"

definition smp_yield :: "u64 \<Rightarrow> cpu \<times> smp \<Rightarrow> (cpu \<times> smp) option" where
  "smp_yield ret ps =
     (let (c, s) = ps in
      if \<not> core_has_valid_core_state c then Some (c, s)
      else do {
        core \<leftarrow> this_core c s;
        cs \<leftarrow> core_states s core;
        if core_idx cs = bsp_core_idx s then
          Some (c, say ''[SMP] Warning: Yield called by BSP Core? Blocked.'' [] s)
        else if cur_thread cs = idle_thread cs then Some (c, s)
        else do {
          let cur = cur_thread cs;
          s \<leftarrow> upd_thread cur (\<lambda>t. t\<lparr>t_status := THREAD_STATUS_DEAD, t_next := NULL\<rparr>) s;
          s \<leftarrow> (if finished_list_end cs \<noteq> NULL
            then upd_thread (finished_list_end cs) (\<lambda>t. t\<lparr>t_next := cur\<rparr>) s else Some s);
          s \<leftarrow> upd_thread cur (\<lambda>t. t\<lparr>t_prev := finished_list_end cs\<rparr>) s;
          s \<leftarrow> upd_core core (\<lambda>c. c\<lparr>finished_list_end := cur,
            finished_list := if finished_list c = NULL then cur else finished_list c,
            cur_thread := idle_thread c\<rparr>) s;
          thread_context_switch ret cur (idle_thread cs) (c, s)
        }
      })"


subsection \<open>How a core starts\<close>

definition ap_init_core_state :: "u64 \<Rightarrow> cpu \<Rightarrow> cpu" where
  "ap_init_core_state state c =
     (let low = ucast state :: u32; high = ucast (drop_bit 32 state) :: u32
      in c\<lparr>gs_base := ucast low OR push_bit 32 (ucast high)\<rparr>)"

text \<open>\<open>ap_kernel_entry\<close> up to its loop; \<open>None\<close> as the core: it has halted for want of memory.\<close>

definition ap_start :: "smp_env \<Rightarrow> cpu \<times> smp \<Rightarrow> (u64 option \<times> cpu \<times> smp) option" where
  "ap_start e ps = do {
     let (c, s) = ps;
     let c = c\<lparr>cr0 := cr0 c AND NOT 4 OR 2\<rparr>;
     let c = c\<lparr>cr4 := cr4 c OR 0x200 OR 0x400\<rparr>;
     let (apic, s) = get_lapic_id e s;
     core \<leftarrow> load64 (AOS_DIRECT_MAP_BASE + 0x520) s;
     let (_, g, r, sg) = gdt_init_ex (core + 8) (core + 64) (c_segs c);
     s \<leftarrow> upd_core core (\<lambda>k. k\<lparr>c_gdt := g, gdt_desc := r\<rparr>) s;
     (ok, t, h, sg) \<leftarrow> tss_init_ex MALLOC_TYPE_KERNEL AVMF_FLAG_RW (s_heap s) sg;
     s \<leftarrow> upd_core core (\<lambda>k. k\<lparr>c_tss := t\<rparr>) (s\<lparr>s_heap := h\<rparr>);
     if \<not> ok then Some (None, c\<lparr>c_segs := sg\<rparr>, s)
     else do {
       let s = lapic_write e 0xF0 0x1FF s;
       let s = lapic_write e 0x80 0 s;
       let sg = idt_segs (idt_load_local ((s_idt e)\<lparr>idt_segs := sg\<rparr>));
       let c = ap_init_core_state core (c\<lparr>c_segs := sg\<rparr>);
       let s = say ''[SMP] Core %d online!'' [Num (ucast apic)] s;
       s \<leftarrow> upd_core core (\<lambda>k. k\<lparr>c_status := CORE_STATUS_RUNNING, cur_thread := idle_thread k\<rparr>) s;
       let s = lapic_timer_start e 10 s;
       Some (Some core, c, s\<lparr>ap_boot_flag := True\<rparr>)
     }
   }"

text \<open>The interrupt by which another core is told to forget translations.\<close>

definition smp_tlb_ipi_handler :: "smp_env \<Rightarrow> cpu \<times> smp \<Rightarrow> (cpu \<times> smp) option" where
  "smp_tlb_ipi_handler e ps =
     (let (c, s) = ps in
      if \<not> core_has_valid_core_state c then Some (c, s)
      else do {
        core \<leftarrow> this_core c s;
        s \<leftarrow> upd_core core (\<lambda>k. k\<lparr>tlb_resp := 0\<rparr>) s;
        k \<leftarrow> core_states s core;
        (c, s) \<leftarrow> (if tlb_cmd k AND SMP_TLB_CMD_INVLPAGE \<noteq> 0 then do {
            s \<leftarrow> upd_core core (\<lambda>k. k\<lparr>tlb_resp := tlb_resp k OR SMP_TLB_RESP_ACK_INVPAGE\<rparr>) s;
            Some (c\<lparr>invalidated := tlb_addr k # invalidated c\<rparr>, s)
          }
          else if tlb_cmd k = SMP_TLB_CMD_REFRESH_PAGES then do {
            s \<leftarrow> upd_core core (\<lambda>k. k\<lparr>tlb_resp := tlb_resp k OR SMP_TLB_RESP_ACK_REFRESH_PAGES\<rparr>) s;
            Some (c\<lparr>cr3 := tlb_addr k\<rparr>, s)
          }
          else Some (c, s));
        s \<leftarrow> upd_core core (\<lambda>k. k\<lparr>tlb_cmd := 0\<rparr>) s;
        Some (c, lapic_write e 0xB0 0 s)
      })"

subsection \<open>Commands to other cores\<close>

definition send_command :: "smp_env \<Rightarrow> u64 \<Rightarrow> u64 \<Rightarrow> smp \<Rightarrow> smp option" where
  "send_command e target cmd s = do {
     s \<leftarrow> upd_core target (\<lambda>k. k\<lparr>command := cmd, response := 0\<rparr>) s;
     k \<leftarrow> core_states s target;
     Some (if c_status k \<noteq> CORE_STATUS_RUNNING then send_wakeup_ipi e (ucast (lapic_id k)) SMP_IPI_VECTOR s else s)
   }"

text \<open>
  The waits. The other cores run between two rounds; the tests of the response inside the loops of
  the C code see the same 0 as the loop condition.
\<close>

partial_function (option) await_response :: "smp_env \<Rightarrow> u64 \<Rightarrow> smp \<Rightarrow> smp option" where
  "await_response e target s = do {
     k \<leftarrow> core_states s target;
     if response k = 0 then await_response e target (others e s) else Some s
   }"

partial_function (option) await_timed :: "smp_env \<Rightarrow> u64 \<Rightarrow> u64 \<Rightarrow> u64 \<Rightarrow> smp \<Rightarrow> smp option" where
  "await_timed e target timeout lim s = do {
     k \<leftarrow> core_states s target;
     if response k \<noteq> 0 then Some s
     else
       let (now, s) = sm_ms e s in
       if now - timeout < lim then await_timed e target timeout lim (others e s) else Some s
   }"

partial_function (option) await_tlb :: "smp_env \<Rightarrow> u64 \<Rightarrow> u64 \<Rightarrow> smp \<Rightarrow> smp option" where
  "await_tlb e target timeout s = do {
     k \<leftarrow> core_states s target;
     if tlb_resp k \<noteq> 0 then Some s
     else
       let (now, s) = sm_ms e s in
       if now - timeout < 1000 then await_tlb e target timeout (others e s) else Some s
   }"

definition smp_reserve_core :: "smp_env \<Rightarrow> u32 \<Rightarrow> smp \<Rightarrow> smp option" where
  "smp_reserve_core e idx s =
     (if core_at idx s = NULL then Some s
      else if idx = bsp_core_idx s then
        Some (say ''[SMP] Warning: Reservation called on BSP Core! Blocked.'' [] s)
      else do {
        s' \<leftarrow> send_command e (core_at idx s) SMP_CMD_RESERVE s;
        await_response e (core_at idx s) s'
      })"

definition smp_unreserve_core :: "smp_env \<Rightarrow> u32 \<Rightarrow> smp \<Rightarrow> smp option" where
  "smp_unreserve_core e idx s =
     (if core_at idx s = NULL then Some s
      else if idx = bsp_core_idx s then
        Some (say ''[SMP] Warning: Unreservation called on BSP Core! Blocked.'' [] s)
      else do {
        s' \<leftarrow> send_command e (core_at idx s) SMP_CMD_UNRESERVE s;
        await_response e (core_at idx s) s'
      })"

text \<open>All threads of a list are freed.\<close>

partial_function (option) free_threads :: "u64 \<Rightarrow> smp \<Rightarrow> smp option" where
  "free_threads cur s =
     (if cur = NULL then Some s
      else do {
        t \<leftarrow> threads s cur;
        s \<leftarrow> (if stack_bottom t \<noteq> NULL then sm_free (stack_bottom t) s else Some s);
        s \<leftarrow> upd_thread cur (\<lambda>t. t\<lparr>stack_bottom := NULL, t_rsp := NULL, stack_size := 0,
          t_status := THREAD_STATUS_BLOCKED, t_prev := NULL\<rparr>) s;
        t \<leftarrow> threads s cur;
        s \<leftarrow> upd_thread cur (\<lambda>t. t\<lparr>t_next := NULL\<rparr>) s;
        s \<leftarrow> sm_free cur s;
        free_threads (t_next t) s
      })"

text \<open>The two messages that reset a core.\<close>

definition reset_ipi :: "smp_env \<Rightarrow> u64 \<Rightarrow> smp \<Rightarrow> smp option" where
  "reset_ipi e target s = do {
     k \<leftarrow> core_states s target;
     let s = lapic_write e 0x310 (push_bit 24 (lapic_id k)) s;
     let s = lapic_write e 0x300 0x4500 s;
     s \<leftarrow> sm_delay (kdelay 10) e s;
     let s = lapic_write e 0x300 0x4000 s;
     sm_delay (kdelay 10) e s
   }"

definition smp_shutdown_core :: "smp_env \<Rightarrow> u32 \<Rightarrow> smp \<Rightarrow> smp option" where
  "smp_shutdown_core e idx s =
     (if core_at idx s = NULL then Some s
      else if idx = bsp_core_idx s then
        Some (say ''[SMP] Warning: Shutdown called on BSP Core! Blocked.'' [] s)
      else do {
        let target = core_at idx s;
        s \<leftarrow> send_command e target SMP_CMD_SHUTDOWN s;
        let (timeout, s) = sm_ms e s;
        s \<leftarrow> await_timed e target timeout 10000 s;
        let (now, s) = sm_ms e s;
        if now - timeout > 1000 then Some s
        else do {
          k \<leftarrow> core_states s target;
          s \<leftarrow> upd_core target (\<lambda>k. k\<lparr>ready_list := NULL, ready_list_end := NULL\<rparr>) s;
          s \<leftarrow> free_threads (ready_list k) s;
          s \<leftarrow> upd_core target (\<lambda>k. k\<lparr>finished_list := NULL, finished_list_end := NULL\<rparr>) s;
          s \<leftarrow> free_threads (finished_list k) s;
          s \<leftarrow> (if idle_thread k \<noteq> NULL then sm_free (idle_thread k) s else Some s);
          s \<leftarrow> upd_core target (\<lambda>k. k\<lparr>idle_thread := NULL\<rparr>) s;
          s \<leftarrow> (if c_stack k \<noteq> NULL then sm_free (c_stack k) s else Some s);
          s \<leftarrow> upd_core target (\<lambda>k. k\<lparr>c_stack := NULL\<rparr>) s;
          s \<leftarrow> reset_ipi e target s;
          s \<leftarrow> sm_free target s;
          Some (s\<lparr>cores := (cores s)[unat idx := NULL]\<rparr>)
        }
      })"

text \<open>
  What the boot code of a core finds in low memory: the tables, the stack pointer, the entry and
  the core's state; the trampoline is copied to \<open>dest\<close>.
\<close>

definition prepare_boot :: "smp_env \<Rightarrow> cpu \<Rightarrow> u64 \<Rightarrow> u64 \<Rightarrow> u64 \<Rightarrow> smp \<Rightarrow> smp option" where
  "prepare_boot e c dest stack state s = do {
     (_, m) \<leftarrow> memcpy dest (trampoline_start e) (trampoline_end e - trampoline_start e) (s_mem s);
     let s = s\<lparr>s_mem := m\<rparr>;
     s \<leftarrow> store64 (AOS_DIRECT_MAP_BASE + 0x500) (cr3 c) s;
     s \<leftarrow> store64 (AOS_DIRECT_MAP_BASE + 0x510) stack s;
     s \<leftarrow> store64 (AOS_DIRECT_MAP_BASE + 0x518) (ap_kernel_entry_at e) s;
     store64 (AOS_DIRECT_MAP_BASE + 0x520) state s
   }"

partial_function (option) await_boot :: "smp_env \<Rightarrow> u64 \<Rightarrow> smp \<Rightarrow> smp option" where
  "await_boot e timeout s =
     (if ap_boot_flag s then Some s
      else
        let (now, s) = sm_ms e s in
        if now - timeout < 1000 then await_boot e timeout (others e s) else Some s)"

text \<open>The start-up messages and the wait for the core; \<open>others\<close> also runs during the delay.\<close>

definition boot_core :: "smp_env \<Rightarrow> u32 \<Rightarrow> u64 \<Rightarrow> smp \<Rightarrow> smp option" where
  "boot_core e apic shown s = do {
     let s = say ''[SMP] Sending SIPI to APIC ID %lld'' [Num (ucast apic)] s;
     s \<leftarrow> send_ipi e (ucast apic) 0x08 s;
     s \<leftarrow> sm_delay (kdelay_us 200) e s;
     let s = others e s;
     s \<leftarrow> (if \<not> ap_boot_flag s then send_ipi e (ucast apic) 0x08 s else Some s);
     let (timeout, s) = sm_ms e s;
     s \<leftarrow> await_boot e timeout s;
     Some (if \<not> ap_boot_flag s then say ''[SMP] Error: Core %lld failed to check in!'' [Num shown] s
       else say ''[SMP] Core %lld checked in successfully.'' [Num shown] s)
   }"

definition smp_reset_core :: "smp_env \<Rightarrow> cpu \<Rightarrow> u32 \<Rightarrow> smp \<Rightarrow> smp option" where
  "smp_reset_core e c idx s =
     (if core_at idx s = NULL then Some s
      else if idx = bsp_core_idx s then
        Some (say ''[SMP] Warning: Reset called on BSP Core! Blocked.'' [] s)
      else do {
        let target = core_at idx s;
        s \<leftarrow> send_command e target SMP_CMD_SHUTDOWN s;
        let (timeout, s) = sm_ms e s;
        s \<leftarrow> await_timed e target timeout 10000 s;
        let (now, s) = sm_ms e s;
        if now - timeout > 1000 then Some s
        else do {
          s \<leftarrow> reset_ipi e target s;
          let s = s\<lparr>ap_boot_flag := False\<rparr>;
          k \<leftarrow> core_states s target;
          s \<leftarrow> (if idle_thread k \<noteq> NULL
            then upd_thread (idle_thread k) (\<lambda>t. t\<lparr>t_status := THREAD_STATUS_RUNNING\<rparr>) s else Some s);
          s \<leftarrow> upd_core target (\<lambda>k. k\<lparr>c_status := CORE_STATUS_READY, command := 0\<rparr>) s;
          s \<leftarrow> prepare_boot e c (AOS_DIRECT_MAP_BASE + 0x8000) (c_stack k + 16384) target s;
          boot_core e (lapic_id k) (ucast idx) s
        }
      })"

definition smp_tlb_core :: "smp_env \<Rightarrow> u32 \<Rightarrow> u64 \<Rightarrow> bool \<Rightarrow> smp \<Rightarrow> smp option" where
  "smp_tlb_core e idx virt full_flush s =
     (if core_at idx s = NULL then Some s
      else if idx = bsp_core_idx s then
        Some (say ''[SMP] Warning: TLB Flush/Invlpage called on BSP Core! Blocked.'' [] s)
      else do {
        let target = core_at idx s;
        s \<leftarrow> upd_core target (\<lambda>k. k\<lparr>tlb_resp := 0,
          tlb_cmd := if full_flush then SMP_TLB_CMD_REFRESH_PAGES else SMP_TLB_CMD_INVLPAGE,
          tlb_addr := virt\<rparr>) s;
        k \<leftarrow> core_states s target;
        let s = send_wakeup_ipi e (ucast (lapic_id k)) SMP_TLB_IPI_VECTOR s;
        let (timeout, s) = sm_ms e s;
        s \<leftarrow> await_tlb e target timeout s;
        let (now, s) = sm_ms e s;
        Some (if now - timeout > 1000
          then say ''[SMP] Error: Core %lld failed to check in on TLB Flush/Invlpage!'' [Num (ucast idx)] s else s)
      })"

text \<open>The functions for all cores but the boot processor.\<close>

fun on_cores :: "(u32 \<Rightarrow> smp \<Rightarrow> smp option) \<Rightarrow> nat list \<Rightarrow> smp \<Rightarrow> smp option" where
  "on_cores f [] s = Some s"
| "on_cores f (i # is) s =
     (if cores s ! i = NULL \<or> i = unat (bsp_core_idx s) then on_cores f is s
      else do { s \<leftarrow> f (of_nat i) s; on_cores f is s })"

definition smp_reset :: "smp_env \<Rightarrow> cpu \<Rightarrow> smp \<Rightarrow> smp option" where
  "smp_reset e c s = on_cores (smp_reset_core e c) [0..<SMP_MAX_CORES] s"

definition smp_shutdown :: "smp_env \<Rightarrow> smp \<Rightarrow> smp option" where
  "smp_shutdown e s = on_cores (smp_shutdown_core e) [0..<SMP_MAX_CORES] s"

definition smp_tlb :: "smp_env \<Rightarrow> u64 \<Rightarrow> bool \<Rightarrow> smp \<Rightarrow> smp option" where
  "smp_tlb e virt full_flush s = on_cores (\<lambda>i. smp_tlb_core e i virt full_flush) [0..<SMP_MAX_CORES] s"

subsection \<open>Starting all cores\<close>

text \<open>The state of a core and its idle thread; \<open>NULL\<close> when memory runs out.\<close>

definition alloc_core :: "smp_env \<Rightarrow> u8 \<Rightarrow> smp \<Rightarrow> ((u64 \<times> u64 \<times> u64) option \<times> smp) option" where
  "alloc_core e apic s = do {
     (ap_stack, s) \<leftarrow> sm_alloc e (PAGE_SIZE * 4) s;
     if ap_stack = NULL then
       Some (None, say ''[SMP] Error: Could not allocate stack for core %lld'' [Num (ucast apic)] s)
     else do {
       s \<leftarrow> sm_memset ap_stack (PAGE_SIZE * 4) s;
       (ap_state, s) \<leftarrow> sm_alloc e sizeof_core_state s;
       if ap_state = NULL then
         Some (None, say ''[SMP] Error: Could not allocate state structure for core %lld'' [Num (ucast apic)] s)
       else do {
         let s = s\<lparr>core_states := (core_states s)(ap_state \<mapsto> zero_core)\<rparr>;
         (idle, s) \<leftarrow> sm_alloc e sizeof_thread_state s;
         if idle = NULL then
           Some (None, say ''[SMP] Error: Could not allocate idle thread state structure for core %lld'' [Num (ucast apic)] s)
         else
           Some (Some (ap_stack, ap_state, idle), s\<lparr>threads := (threads s)(idle \<mapsto> zero_thread)\<rparr>)
       }
     }
   }"

fun unmap_all :: "u64 list \<Rightarrow> smp \<Rightarrow> smp option" where
  "unmap_all [] s = Some s"
| "unmap_all (a # as) s = do { h \<leftarrow> pager_unmap a (s_heap s); unmap_all as (s\<lparr>s_heap := h\<rparr>) }"

definition map_low :: "smp_env \<Rightarrow> u64 \<Rightarrow> u64 \<Rightarrow> u64 \<Rightarrow> smp \<Rightarrow> smp option" where
  "map_low e a len flags s = do {
     h \<leftarrow> pager_map_range pager_map a a len flags (s_heap s);
     Some (s\<lparr>s_heap := h, s_mem := map_fresh (s_fresh e) a (unat len) (s_mem s)\<rparr>)
   }"

text \<open>One round of the loop over the processors.\<close>

definition init_core :: "smp_env \<Rightarrow> cpu \<Rightarrow> nat \<Rightarrow> smp \<Rightarrow> smp option" where
  "init_core e c i s =
     (if cores s ! i \<noteq> NULL then
        Some (say ''[SMP] Warning: Core %d already registered, skipping!'' [Num (of_nat i)] s)
      else let apic = apic_ids e ! i in
      if ucast apic = bsp_apic_id s then Some (s\<lparr>bsp_core_idx := of_nat i\<rparr>)
      else do {
        let s = s\<lparr>ap_boot_flag := False\<rparr>;
        (r, s) \<leftarrow> alloc_core e apic s;
        case r of None \<Rightarrow> Some s
        | Some (ap_stack, ap_state, idle) \<Rightarrow> do {
            s \<leftarrow> upd_core ap_state (\<lambda>k. k\<lparr>self := ap_state, lapic_id := ucast apic, core_idx := of_nat i,
              idle_thread := idle, ready_list := NULL, c_stack := ap_stack + 0x4000,
              c_status := CORE_STATUS_READY, command := 0\<rparr>) s;
            s \<leftarrow> upd_thread idle (\<lambda>t. t\<lparr>t_status := THREAD_STATUS_RUNNING\<rparr>) s;
            let len = trampoline_end e - trampoline_start e;
            s \<leftarrow> unmap_all (map (\<lambda>k. 0x8000 + of_nat k) [0..<unat (ALIGN_UP len PAGE_SIZE div PAGE_SIZE)]) s;
            s \<leftarrow> unmap_all [0x500] s;
            s \<leftarrow> map_low e 0x8000 len (PAGE_PRESENT OR PAGE_RW) s;
            s \<leftarrow> map_low e 0x500 0x100 (PAGE_PRESENT OR PAGE_RW OR PAGE_XD) s;
            s \<leftarrow> prepare_boot e c 0x8000 (ap_stack + 0x4000) ap_state s;
            let s = s\<lparr>cores := (cores s)[i := ap_state]\<rparr>;
            boot_core e (ucast apic) (ucast apic) s
          }
      })"

fun init_cores :: "smp_env \<Rightarrow> cpu \<Rightarrow> nat list \<Rightarrow> smp \<Rightarrow> smp option" where
  "init_cores e c [] s = Some s"
| "init_cores e c (i # is) s = do { s \<leftarrow> init_core e c i s; init_cores e c is s }"

definition smp_init :: "smp_env \<Rightarrow> cpu \<times> smp \<Rightarrow> (cpu \<times> smp) option" where
  "smp_init e ps = do {
     let (c, s) = ps;
     let s = say ''[SMP] Preparing to wake %lld core...'' [Num (of_nat (length (apic_ids e)) - 1)] s;
     s \<leftarrow> lapic_init e (lapic_base e) s;
     let (apic, s) = get_lapic_id e s;
     let s = s\<lparr>bsp_apic_id := ucast apic\<rparr>;
     s \<leftarrow> init_cores e c [0..<length (apic_ids e)] s;
     (bsp_state, s) \<leftarrow> sm_alloc e sizeof_core_state s;
     if bsp_state = NULL then Some (c, s)
     else do {
       let s = s\<lparr>core_states := (core_states s)(bsp_state \<mapsto> zero_core\<lparr>self := bsp_state,
         lapic_id := bsp_apic_id s, core_idx := bsp_core_idx s, c_status := CORE_STATUS_RUNNING\<rparr>)\<rparr>;
       (idle, s) \<leftarrow> sm_alloc e sizeof_thread_state s;
       let s = (if idle \<noteq> NULL
         then s\<lparr>threads := (threads s)(idle \<mapsto> zero_thread\<lparr>t_status := THREAD_STATUS_RUNNING\<rparr>)\<rparr> else s);
       s \<leftarrow> upd_core bsp_state (\<lambda>k. k\<lparr>idle_thread := idle, cur_thread := idle\<rparr>) s;
       let s = s\<lparr>cores := (cores s)[unat (bsp_core_idx s) := bsp_state]\<rparr>;
       let s = lapic_timer_start e 10 s;
       let c = ap_init_core_state bsp_state c;
       Some (c\<lparr>c_segs := (c_segs c)\<lparr>interrupts := True\<rparr>\<rparr>, s)
     }
   }"

end
