(* ===== verification/SmpSpec.thy ===== *)
theory SmpSpec
  imports Smp
begin

text \<open>
  What the scheduler of \<open>Smp\<close> does: how a thread starts, that the queue of a core is first in, first
  out, and what the status of a core says after a command.
\<close>

subsection \<open>Words on a stack\<close>

lemma read_mem_nth:
  "(\<And>i. i < length bs \<Longrightarrow> m (a + of_nat i) = Some (bs ! i)) \<Longrightarrow> read_mem m a (length bs) = Some bs"
proof (induction bs arbitrary: a)
  case (Cons b bs)
  have "m a = Some b" using Cons.prems [of 0] by simp
  moreover have "m (a + 1 + of_nat i) = Some (bs ! i)" if "i < length bs" for i
    using Cons.prems [of "Suc i"] that by (simp add: add.assoc)
  ultimately show ?case using Cons.IH [of "a + 1"] by simp
qed simp

lemma stored_in_front:
  assumes "a = b + of_nat (length ys)" "length ys + length xs < 2 ^ 64"
  shows "stored (stored m a xs) b ys = stored m b (ys @ xs)"
proof
  fix x
  show "stored (stored m a xs) b ys x = stored m b (ys @ xs) x"
  proof (cases "unat (x - b) < length ys")
    case True
    then show ?thesis using assms by (simp add: stored_apply nth_append)
  next
    case False
    have "x - a = (x - b) - of_nat (length ys)" using assms by simp
    moreover have "unat ((x - b) - of_nat (length ys)) = unat (x - b) - length ys"
      using False assms(2) by (subst unat_minus_u64) (simp_all add: unat_of_nat_u64 word_le_nat_alt)
    ultimately have "unat (x - a) = unat (x - b) - length ys" by (simp only:)
    then show ?thesis using False assms by (auto simp: stored_apply nth_append)
  qed
qed

lemma concat_nth:
  "(\<And>x. x \<in> set xs \<Longrightarrow> length (f x) = n) \<Longrightarrow> k < length xs \<Longrightarrow> i < n \<Longrightarrow>
   concat (map f xs) ! (n * k + i) = f (xs ! k) ! i"
proof (induction xs arbitrary: k)
  case (Cons x xs)
  show ?case
  proof (cases k)
    case 0
    then show ?thesis using Cons.prems by (simp add: nth_append)
  next
    case (Suc j)
    have "concat (map f xs) ! (n * j + i) = f (xs ! j) ! i" using Cons Suc by simp
    then show ?thesis using Cons.prems Suc by (simp add: nth_append)
  qed
qed simp

lemma length_qword_bytes [simp]: "length (qword_bytes v) = 8"
  by (simp add: qword_bytes_def)

lemma length_qwords [simp]: "length (concat (map qword_bytes vs)) = 8 * length vs"
  by (induction vs) auto

lemma load64_stored:
  assumes "s_mem s = stored m a (concat (map qword_bytes vs))" "k < length vs" "8 * length vs < 2 ^ 64"
  shows "load64 (a + of_nat (8 * k)) s = Some (vs ! k)"
proof -
  have "s_mem s (a + of_nat (8 * k) + of_nat i) = Some (qword_bytes (vs ! k) ! i)"
    if "i < length (qword_bytes (vs ! k))" for i
  proof -
    have lt: "8 * k + i < 8 * length vs" using that assms(2) by auto
    have e: "a + of_nat (8 * k) + of_nat i - a = (of_nat (8 * k + i) :: u64)" by simp
    have "unat (of_nat (8 * k + i) :: u64) = 8 * k + i"
      using lt assms(3) by (intro unat_of_nat_u64) simp
    then show ?thesis
      using lt assms(3) concat_nth [of vs qword_bytes 8 k i] that assms(1,2)
      by (simp only: stored_apply e length_qwords) simp
  qed
  from read_mem_nth [OF this] show ?thesis by (simp add: load64_def le_qword_bytes)
qed

lemma push_all_stored:
  "mapped (s_mem s) (sp - of_nat (8 * length vs)) (8 * length vs) \<Longrightarrow> 8 * length vs < 2 ^ 64 \<Longrightarrow>
   push_all vs (sp, s) = Some (sp - of_nat (8 * length vs),
     s\<lparr>s_mem := stored (s_mem s) (sp - of_nat (8 * length vs)) (concat (map qword_bytes (rev vs)))\<rparr>)"
proof (induction vs arbitrary: sp s)
  case (Cons v vs)
  let ?n = "8 * length vs" and ?b = "sp - of_nat (8 * length (v # vs))"
  have b: "?b = sp - 8 - of_nat ?n" "?b + of_nat ?n = sp - 8" by (simp_all add: algebra_simps)
  have "mapped (s_mem s) (?b + of_nat ?n) 8" using Cons.prems(1) by (intro mapped_drop) (simp add: add.commute)
  then have w: "write_bytes (sp - 8) (qword_bytes v) (s_mem s) = Some (stored (s_mem s) (sp - 8) (qword_bytes v))"
    unfolding b(2) by (intro write_bytes_stored) simp
  let ?s = "s\<lparr>s_mem := stored (s_mem s) (sp - 8) (qword_bytes v)\<rparr>"
  have "mapped (s_mem s) ?b ?n" using Cons.prems(1) by (rule mapped_mono) simp
  then have m: "mapped (s_mem ?s) (sp - 8 - of_nat ?n) ?n"
    unfolding b(1) by (simp add: mapped_stored)
  have l: "?n < 2 ^ 64" using Cons.prems(2) by simp
  have st: "stored (stored (s_mem s) (sp - 8) (qword_bytes v)) (sp - 8 - of_nat ?n) (concat (map qword_bytes (rev vs))) =
      stored (s_mem s) (sp - 8 - of_nat ?n) (concat (map qword_bytes (rev vs)) @ qword_bytes v)"
    using Cons.prems(2) by (intro stored_in_front) simp_all
  show ?case
    using Cons.IH [OF m l] w st unfolding b(1) by (simp add: push64_def store64_def)
qed simp


lemma write_bytes_mapped: "write_bytes a bs m = Some m' \<Longrightarrow> length bs < 2 ^ 64 \<Longrightarrow> mapped m a (length bs)"
proof (induction bs arbitrary: a m)
  case Nil
  then show ?case by (simp add: mapped_def)
next
  case (Cons b bs)
  then obtain m1 where w: "write_byte a b m = Some m1" "write_bytes (a + 1) bs m1 = Some m'"
    by (auto simp: bind_eq_Some_conv)
  then have a: "m a \<noteq> None" "m1 = m(a \<mapsto> b)" by (auto simp: write_byte_def split: if_splits option.splits)
  have "mapped m1 (a + 1) (length bs)" using Cons.IH [OF w(2)] Cons.prems(2) by simp
  have r: "m x \<noteq> None" if "unat (x - (a + 1)) < length bs" for x
  proof -
    have "m1 x \<noteq> None" using \<open>mapped m1 (a + 1) (length bs)\<close> that by (simp add: mapped_def)
    then show ?thesis using a by (cases "x = a") simp_all
  qed
  show ?case
    unfolding mapped_def
  proof (intro allI impI)
    fix x assume x: "unat (x - a) < length (b # bs)"
    show "m x \<noteq> None"
    proof (cases "x = a")
      case False
      have "unat (x - a) = Suc (unat (x - (a + 1)))"
        using False unat_minus_one [of "x - a"] by (simp add: minus_Suc_u64 unat_gt_0)
      then show ?thesis using r x by simp
    qed (simp add: a)
  qed
qed

text \<open>The words from an address upwards.\<close>

definition words_from :: "smp \<Rightarrow> u64 \<Rightarrow> u64 list \<Rightarrow> bool" where
  "words_from s a vs \<longleftrightarrow> (\<forall>k < length vs. load64 (a + of_nat (8 * k)) s = Some (vs ! k))"

definition apart :: "u64 \<Rightarrow> u64 \<Rightarrow> nat \<Rightarrow> bool" where
  "apart a b n \<longleftrightarrow> n \<le> unat (a - b) \<and> n \<le> unat (b - a)"

lemma read_mem_cong: "(\<And>i. i < n \<Longrightarrow> m (a + of_nat i) = m' (a + of_nat i)) \<Longrightarrow> read_mem m a n = read_mem m' a n"
proof (induction n arbitrary: a)
  case (Suc n)
  have "m a = m' a" using Suc.prems [of 0] by simp
  moreover have "read_mem m (a + 1) n = read_mem m' (a + 1) n"
    using Suc.prems [of "Suc i" for i] by (intro Suc.IH) (simp add: add.assoc)
  ultimately show ?case by simp
qed simp

lemma unat_offset: "n < 2 ^ 64 \<Longrightarrow> unat (a + of_nat n - a :: u64) = n"
  by (simp add: unat_of_nat_u64)

lemma load64_other:
  assumes "s_mem s' = stored (s_mem s) b bs" "length bs = n" "n < 2 ^ 64" "apart a b n" "8 * k + 8 \<le> n"
  shows "load64 (a + of_nat (8 * k)) s' = load64 (a + of_nat (8 * k)) s"
proof -
  have "s_mem s' (a + of_nat (8 * k) + of_nat i) = s_mem s (a + of_nat (8 * k) + of_nat i)" if "i < 8" for i
  proof -
    define j where "j = 8 * k + i"
    have j: "j < n" using that assms(5) by (simp add: j_def)
    have e: "a + of_nat (8 * k) + of_nat i = (a + of_nat j :: u64)" by (simp add: j_def)
    have "\<not> unat (a + of_nat j - b) < n"
    proof
      assume lt: "unat (a + of_nat j - b) < n"
      have uj: "unat (of_nat j :: u64) = j" using j assms(3) by (simp add: unat_of_nat_u64)
      have "a + of_nat j - b = (a - b) + of_nat j" by simp
      moreover have "unat ((a - b) + of_nat j) = (unat (a - b) + j) mod 2 ^ 64"
        by (subst unat_word_ariths(1)) (simp only: uj, simp)
      ultimately have s: "unat (a + of_nat j - b) = (unat (a - b) + j) mod 2 ^ 64" by (simp only:)
      have "unat (a - b) + j < 2 ^ 64 \<or> 2 ^ 64 \<le> unat (a - b) + j" by arith
      then show False
      proof
        assume "unat (a - b) + j < 2 ^ 64"
        then show False using s lt assms(4) by (simp add: apart_def)
      next
        assume w: "2 ^ 64 \<le> unat (a - b) + j"
        have "unat ((a - b) + (b - a)) = (unat (a - b) + unat (b - a)) mod 2 ^ 64"
          by (subst unat_word_ariths(1)) simp
        then have "(unat (a - b) + unat (b - a)) mod 2 ^ 64 = 0" by simp
        moreover have "0 < unat (a - b)" using assms(4) j by (simp add: apart_def)
        moreover have "unat (b - a) < 2 ^ 64" "unat (a - b) < 2 ^ 64"
          using u64_lt [of "b - a"] u64_lt [of "a - b"] by simp_all
        ultimately have "unat (a - b) + unat (b - a) = 2 ^ 64"
          by (simp add: mod_if split: if_splits)
        then show False using w j assms(4) by (simp add: apart_def)
      qed
    qed
    then show ?thesis using assms(1-3) by (simp only: e stored_apply) simp
  qed
  then show ?thesis by (simp add: load64_def cong: read_mem_cong)
qed


lemma load64_threads [simp]: "load64 a (s\<lparr>threads := f\<rparr>) = load64 a s" "load64 a (s\<lparr>core_states := g\<rparr>) = load64 a s"
  "load64 a (s\<lparr>said := msgs\<rparr>) = load64 a s"
  by (simp_all add: load64_def)

subsection \<open>How a thread starts\<close>

definition saved_frame :: "u64 \<Rightarrow> u64 \<Rightarrow> cpu \<Rightarrow> u64 list" where
  "saved_frame ret old c = [r15 c, r14 c, r13 c, r12 c, rbx c, rbp c, old, ret]"

definition resumed :: "u64 list \<Rightarrow> u64 \<Rightarrow> cpu \<Rightarrow> cpu" where
  "resumed vs sp c = c\<lparr>r15 := vs ! 0, r14 := vs ! 1, r13 := vs ! 2, r12 := vs ! 3, rbx := vs ! 4,
     rbp := vs ! 5, rdi := vs ! 6, rip := vs ! 7, rsp := sp + 64\<rparr>"

lemma words_from_nth: "words_from s a vs \<Longrightarrow> k < length vs \<Longrightarrow> load64 (a + of_nat (8 * k)) s = Some (vs ! k)"
  by (simp add: words_from_def)

lemma context_switch:
  assumes m: "mapped (s_mem s) (rsp c - 64) 64"
    and t: "threads s old = Some ot" "threads s new = Some t" "old \<noteq> new"
    and f: "words_from s (t_rsp t) vs" "length vs = 8"
    and ap: "apart (t_rsp t) (rsp c - 64) 64"
  shows "\<exists>s'. thread_context_switch ret old new (c, s) = Some (resumed vs (t_rsp t) c, s') \<and>
    threads s' = (threads s)(old \<mapsto> ot\<lparr>t_rsp := rsp c - 64\<rparr>) \<and> core_states s' = core_states s \<and>
    words_from s' (rsp c - 64) (saved_frame ret old c)"
proof -
  let ?ws = "[ret, old, rbp c, rbx c, r12 c, r13 c, r14 c, r15 c]"
  let ?m = "stored (s_mem s) (rsp c - 64) (concat (map qword_bytes (rev ?ws)))"
  let ?s = "s\<lparr>s_mem := ?m\<rparr>"
  have len: "length ?ws = 8" by simp
  have p: "push_all ?ws (rsp c, s) = Some (rsp c - 64, ?s)"
    using push_all_stored [of s "rsp c" ?ws] m by simp
  define s1 where "s1 = ?s\<lparr>threads := (threads s)(old \<mapsto> ot\<lparr>t_rsp := rsp c - 64\<rparr>)\<rparr>"
  have u: "upd_thread old (\<lambda>t. t\<lparr>t_rsp := rsp c - 64\<rparr>) ?s = Some s1"
    using t by (simp add: upd_thread_def s1_def)
  have n: "threads s1 new = Some t" using t by (simp add: s1_def)
  have mem: "s_mem s1 = ?m" by (simp add: s1_def)
  have ld: "load64 (t_rsp t + of_nat (8 * k)) s1 = Some (vs ! k)" if "k < 8" for k
  proof -
    have "load64 (t_rsp t + of_nat (8 * k)) s1 = load64 (t_rsp t + of_nat (8 * k)) s"
      using ap that by (intro load64_other [OF mem, where n = 64]) simp_all
    then show ?thesis using words_from_nth [OF f(1)] f(2) that by simp
  qed
  note lds = ld [of 0, simplified] ld [of 1, simplified] ld [of 2, simplified] ld [of 3, simplified]
    ld [of 4, simplified] ld [of 5, simplified] ld [of 6, simplified] ld [of 7, simplified]
  have "thread_context_switch ret old new (c, s) = Some (resumed vs (t_rsp t) c, s1)"
    unfolding thread_context_switch_def Let_def prod.case p Option.bind.simps u n
    by (simp add: lds resumed_def)
  moreover have "words_from s1 (rsp c - 64) (saved_frame ret old c)"
    unfolding words_from_def
  proof (intro allI impI)
    fix k assume k: "k < length (saved_frame ret old c)"
    have r: "rev ?ws = saved_frame ret old c" by (simp add: saved_frame_def)
    show "load64 (rsp c - 64 + of_nat (8 * k)) s1 = Some (saved_frame ret old c ! k)"
      using load64_stored [OF mem [unfolded r] k] by (simp add: saved_frame_def)
  qed
  ultimately show ?thesis by (auto simp: s1_def)
qed

lemma find_ready_head:
  "threads s n = Some t \<Longrightarrow> t_status t = THREAD_STATUS_READY \<Longrightarrow> n \<noteq> NULL \<Longrightarrow> find_ready n s = Some n"
  by (simp add: find_ready.simps)

text \<open>C24: when the first thread of a core's queue is ready and has the frame that \<open>create_thread\<close> makes, \<open>dispatch\<close> takes it off the queue, marks it running and the core continues at the entry of the task with the argument in \<open>rdi\<close> and the thread's own stack; the registers of the thread it leaves are on that thread's stack, where its \<open>rsp\<close> points.\<close>

theorem dispatch_starts_task:
  assumes k: "core_states s core = Some k" "ready_list k = n" "n \<noteq> NULL"
    and t: "threads s n = Some t" "t_status t = THREAD_STATUS_READY"
    and o: "threads s (cur_thread k) = Some ot" "cur_thread k \<noteq> n"
    and f: "words_from s (t_rsp t) (rev (start_frame entry arg))"
    and m: "mapped (s_mem s) (rsp c - 64) 64" "apart (t_rsp t) (rsp c - 64) 64"
  shows "\<exists>c' s'. dispatch ret core (c, s) = Some (True, c', s') \<and>
    rip c' = entry \<and> rdi c' = arg \<and> rsp c' = t_rsp t + 64 \<and>
    core_states s' = (core_states s)(core \<mapsto> k\<lparr>ready_list := t_next t,
      ready_list_end := (if ready_list_end k = n then t_prev t else ready_list_end k), cur_thread := n\<rparr>) \<and>
    threads s' = (threads s)(n \<mapsto> t\<lparr>t_status := THREAD_STATUS_RUNNING\<rparr>,
      cur_thread k \<mapsto> ot\<lparr>t_rsp := rsp c - 64\<rparr>) \<and>
    words_from s' (rsp c - 64) (saved_frame ret (cur_thread k) c)"
proof -
  let ?k = "k\<lparr>ready_list := t_next t, ready_list_end := (if ready_list_end k = n then t_prev t else ready_list_end k), cur_thread := n\<rparr>"
  define s1 where "s1 = s\<lparr>threads := (threads s)(n \<mapsto> t\<lparr>t_status := THREAD_STATUS_RUNNING\<rparr>),
    said := (''[SMP : CORE %d] Found Task'', [Num (ucast (core_idx k))]) # said s,
    core_states := (core_states s)(core \<mapsto> ?k)\<rparr>"
  have e: "k\<lparr>ready_list := t_next t, cur_thread := n\<rparr> = ?k" if "ready_list_end k \<noteq> n"
    using that by (intro core_state.equality) simp_all
  have d: "dispatch ret core (c, s) = do {
      (c, s) \<leftarrow> thread_context_switch ret (cur_thread k) n (c, s1);
      Some (True, c, s) }"
    using k t find_ready_head [OF t k(3)] e
    by (cases "ready_list_end k = n")
      (simp_all add: dispatch_def take_ready_def upd_core_def upd_thread_def say_def s1_def Let_def)
  have ms: "s_mem s1 = s_mem s" by (simp add: s1_def)
  have "words_from s1 (t_rsp t) (rev (start_frame entry arg))"
    using f by (simp add: words_from_def load64_def ms)
  moreover have "threads s1 (cur_thread k) = Some ot" "threads s1 n = Some (t\<lparr>t_status := THREAD_STATUS_RUNNING\<rparr>)"
    using o by (simp_all add: s1_def)
  ultimately obtain s' where s': "thread_context_switch ret (cur_thread k) n (c, s1) =
      Some (resumed (rev (start_frame entry arg)) (t_rsp t) c, s')"
    "threads s' = (threads s1)(cur_thread k \<mapsto> ot\<lparr>t_rsp := rsp c - 64\<rparr>)" "core_states s' = core_states s1"
    "words_from s' (rsp c - 64) (saved_frame ret (cur_thread k) c)"
    using context_switch [of s1 c "cur_thread k" ot n "t\<lparr>t_status := THREAD_STATUS_RUNNING\<rparr>"
        "rev (start_frame entry arg)" ret] o(2) m ms
    by (auto simp: start_frame_def)
  then show ?thesis
    by (simp add: d resumed_def start_frame_def) (simp add: s1_def)
qed


lemma write_byte_dom: "write_byte a b m = Some m' \<Longrightarrow> (m' x = None) = (m x = None)"
  by (auto simp: write_byte_def split: if_splits option.splits)

lemma write_bytes_dom: "write_bytes a bs m = Some m' \<Longrightarrow> (m' x = None) = (m x = None)"
  by (induction bs arbitrary: a m) (auto simp: bind_eq_Some_conv dest: write_byte_dom)

lemma push_all_frame:
  "push_all vs ps = Some (sp, s') \<Longrightarrow> threads s' = threads (snd ps) \<and> core_states s' = core_states (snd ps) \<and>
    (s_mem s' x = None) = (s_mem (snd ps) x = None)"
proof (induction vs arbitrary: ps)
  case (Cons v vs)
  then obtain s1 where "store64 (fst ps - 8) v (snd ps) = Some s1" "push_all vs (fst ps - 8, s1) = Some (sp, s')"
    by (auto simp: push64_def bind_eq_Some_conv)
  moreover from this have "(s_mem s1 x = None) = (s_mem (snd ps) x = None)"
    "threads s1 = threads (snd ps)" "core_states s1 = core_states (snd ps)"
    using write_bytes_dom [where x = x] by (auto simp: store64_def bind_eq_Some_conv)
  ultimately show ?case using Cons.IH [of "(fst ps - 8, s1)"] by simp
qed auto

lemma load64_unmapped: "s_mem s a = None \<Longrightarrow> load64 a s = None"
  by (simp add: load64_def eval_nat_numeral)

text \<open>A switch to a thread whose stack pointer is not mapped faults.\<close>

lemma context_switch_faults:
  assumes "threads s new = Some t" "s_mem s (t_rsp t) = None" "old \<noteq> new"
  shows "thread_context_switch ret old new (c, s) = None"
proof (rule ccontr)
  assume "thread_context_switch ret old new (c, s) \<noteq> None"
  then obtain sp s1 s2 t2 v where
    p: "push_all [ret, old, rbp c, rbx c, r12 c, r13 c, r14 c, r15 c] (rsp c, s) = Some (sp, s1)"
    and u: "upd_thread old (\<lambda>t. t\<lparr>t_rsp := sp\<rparr>) s1 = Some s2" and t2: "threads s2 new = Some t2"
    and v: "load64 (t_rsp t2) s2 = Some v"
    by (auto simp: thread_context_switch_def bind_eq_Some_conv Let_def simp del: push_all.simps)
  have "threads s2 new = threads s new" "s_mem s2 (t_rsp t) = None"
    using push_all_frame [OF p, of "t_rsp t"] u assms
    by (auto simp: upd_thread_def bind_eq_Some_conv)
  then show False using t2 v assms load64_unmapped [of s2 "t_rsp t"] by simp
qed

lemma send_wakeup_frame [simp]:
  "threads (send_wakeup_ipi e a v s) = threads s" "core_states (send_wakeup_ipi e a v s) = core_states s"
  "s_mem (send_wakeup_ipi e a v s) = s_mem s" "load64 x (send_wakeup_ipi e a v s) = load64 x s"
  by (simp_all add: send_wakeup_ipi_def lapic_write_def load64_def Let_def split_beta)

lemma say_frame [simp]:
  "threads (say m as s) = threads s" "core_states (say m as s) = core_states s"
  "s_mem (say m as s) = s_mem s" "load64 x (say m as s) = load64 x s" "cores (say m as s) = cores s"
  by (simp_all add: say_def load64_def)

text \<open>C25: when the first finished thread of a core has a stack of a kilobyte or more, \<open>smp_push_task\<close> gives the task to that thread; but its stack pointer is left at the upper end of its stack, above the frame that was pushed for the task. Where the memory above the stack is not mapped, the core's next switch to the thread faults.\<close>

theorem reused_thread_starts_above_stack:
  assumes i: "core_at idx s = target" "target \<noteq> NULL" "idx \<noteq> bsp_core_idx s"
    and k: "core_states s target = Some k" "finished_list k = n" "n \<noteq> NULL" "ready_list k = NULL" "ready_list_end k = NULL"
      "cur_thread k \<noteq> n"
    and t: "threads s n = Some t" "t_status t = THREAD_STATUS_DEAD" "1024 \<le> stack_size t" "t_next t = NULL"
    and m: "mapped (s_mem s) (stack_bottom t + stack_size t - 64) 64"
  shows "\<exists>s' t'. smp_push_task e c idx entry arg s = Some s' \<and> threads s' n = Some t' \<and>
    t_status t' = THREAD_STATUS_READY \<and> map_option ready_list (core_states s' target) = Some n \<and>
    t_rsp t' = stack_bottom t + stack_size t \<and>
    words_from s' (t_rsp t' - 64) (rev (start_frame entry arg)) \<and>
    (s_mem s (t_rsp t') = None \<longrightarrow> (\<forall>ret c'. dispatch ret target (c', s') = None))"
proof -
  let ?top = "stack_bottom t + stack_size t"
  define k1 where "k1 = (if finished_list_end k = n then k\<lparr>finished_list := NULL, finished_list_end := t_prev t\<rparr>
    else k\<lparr>finished_list := NULL\<rparr>)"
  define s1 where "s1 = s\<lparr>core_states := (core_states s)(target \<mapsto> k1)\<rparr>"
  have un: "unlink_finished target NULL n s = Some s1"
    using k t by (simp add: unlink_finished_def upd_core_def s1_def k1_def)
  define s2 where "s2 = s1\<lparr>threads := (threads s)(n \<mapsto> t\<lparr>t_rsp := ?top\<rparr>)\<rparr>"
  define s3 where "s3 = s2\<lparr>s_mem := stored (s_mem s) (?top - 64) (concat (map qword_bytes (rev (start_frame entry arg))))\<rparr>"
  have mem: "s_mem s2 = s_mem s" by (simp add: s2_def s1_def)
  have len: "length (start_frame entry arg) = 8" by (simp add: start_frame_def)
  have "push_all (start_frame entry arg) (?top, s2) = Some (?top - 64, s3)"
    using push_all_stored [of s2 ?top "start_frame entry arg"] m mem len by (simp add: s3_def)
  then have rs: "reset_thread n entry arg s1 = Some s3"
    using t by (simp add: reset_thread_def upd_thread_def s2_def s1_def)
  have "reuse_thread target NULL n entry arg s = Some (n, s3)"
    using k t un rs by (simp add: reuse_thread.simps [of target NULL n] not_less [symmetric])
  moreover define t' where "t' = t\<lparr>t_rsp := ?top, t_arg := arg, t_status := THREAD_STATUS_READY, t_prev := NULL\<rparr>"
  define s4 where "s4 = s3\<lparr>threads := (threads s)(n \<mapsto> t'),
    core_states := (core_states s)(target \<mapsto> k1\<lparr>ready_list_end := n, ready_list := n\<rparr>)\<rparr>"
  have k1: "ready_list k1 = NULL" "ready_list_end k1 = NULL" "c_status k1 = c_status k" "lapic_id k1 = lapic_id k"
    "cur_thread k1 = cur_thread k"
    using k by (simp_all add: k1_def)
  have "(do { s \<leftarrow> upd_thread n (\<lambda>t. t\<lparr>t_arg := arg, t_status := THREAD_STATUS_READY\<rparr>) s3;
      enqueue_thread target n s }) = Some s4"
    using k t k1 by (simp add: upd_thread_def upd_core_def enqueue_thread_def s3_def s2_def s1_def s4_def t'_def)
  then obtain s5 where s5: "upd_thread n (\<lambda>t. t\<lparr>t_arg := arg, t_status := THREAD_STATUS_READY\<rparr>) s3 = Some s5"
    "enqueue_thread target n s5 = Some s4"
    by (auto simp: bind_eq_Some_conv)
  moreover have "core_states s4 target = Some (k1\<lparr>ready_list_end := n, ready_list := n\<rparr>)"
    by (simp add: s4_def)
  ultimately have "smp_push_task e c idx entry arg s =
      Some (let s' = say ''[SMP] Queueing new task for core %d'' [Num (ucast idx)] s4 in
        if c_status k \<noteq> CORE_STATUS_RUNNING then send_wakeup_ipi e (ucast (lapic_id k)) SMP_IPI_VECTOR
          (say ''[SMP] Sending Awake command for core %d'' [Num (ucast idx)] s') else s')"
    using i k k1 by (simp add: smp_push_task_def Let_def)
  then obtain s' where s': "smp_push_task e c idx entry arg s = Some s'"
    "threads s' = threads s4" "core_states s' = core_states s4" "s_mem s' = s_mem s4"
    by (simp add: Let_def)
  have th: "threads s' n = Some t'" using s' by (simp add: s4_def)
  have wf: "words_from s' (t_rsp t' - 64) (rev (start_frame entry arg))"
    unfolding words_from_def
    using load64_stored [of s' "s_mem s" "?top - 64" "rev (start_frame entry arg)"] s'(4) len
    by (simp add: s4_def s3_def t'_def)
  have "dispatch ret target (c', s') = None" if un: "s_mem s ?top = None" for ret c'
  proof (rule ccontr)
    assume "dispatch ret target (c', s') \<noteq> None"
    then obtain s6 r where r: "thread_context_switch ret (cur_thread k) n (c', s6) = Some r" "threads s6 n = Some (t'\<lparr>t_status := THREAD_STATUS_RUNNING\<rparr>)"
      "s_mem s6 = s_mem s'"
      using th s'(3) k1 k(3) find_ready_head [OF th]
      by (auto simp: dispatch_def take_ready_def bind_eq_Some_conv upd_core_def upd_thread_def s4_def t'_def split: if_splits)
    have "write_bytes (?top - 64) (concat (map qword_bytes (rev (start_frame entry arg)))) (s_mem s) = Some (s_mem s3)"
      using m len by (simp add: s3_def write_bytes_stored)
    from write_bytes_dom [OF this, of ?top] have "s_mem s' ?top = None"
      using un s'(4) by (simp add: s4_def)
    then show False
      using context_switch_faults [OF r(2), where c = c' and ret = ret and old = "cur_thread k"] r k by (simp add: t'_def)
  qed
  then show ?thesis
    using s' th wf by (auto simp: t'_def s4_def)
qed


subsection \<open>The queue of a core\<close>

text \<open>All of a list in, and \<open>n\<close> elements out.\<close>

fun put_in :: "('a \<Rightarrow> 's \<Rightarrow> 's option) \<Rightarrow> 'a list \<Rightarrow> 's \<Rightarrow> 's option" where
  "put_in enq [] s = Some s"
| "put_in enq (x # xs) s = do { s \<leftarrow> enq x s; put_in enq xs s }"

fun take_out :: "('s \<Rightarrow> ('a \<times> 's) option) \<Rightarrow> nat \<Rightarrow> 's \<Rightarrow> ('a list \<times> 's) option" where
  "take_out deq 0 s = Some ([], s)"
| "take_out deq (Suc n) s = do { (x, s) \<leftarrow> deq s; (xs, s) \<leftarrow> take_out deq n s; Some (x # xs, s) }"

text \<open>
  What a first-in-first-out queue promises. \<open>repr s p xs\<close>: the state has the queue \<open>xs\<close>, whose first
  element was put in behind \<open>p\<close>; the pointer to the end is \<open>p\<close> when the queue is empty.
\<close>

locale fifo =
  fixes enq :: "'a \<Rightarrow> 's \<Rightarrow> 's option"
    and deq :: "'s \<Rightarrow> ('a \<times> 's) option"
    and repr :: "'s \<Rightarrow> 'a \<Rightarrow> 'a list \<Rightarrow> bool"
    and fresh :: "'s \<Rightarrow> 'a \<Rightarrow> bool"
    and none :: 'a
  assumes enq_ok: "repr s p xs \<Longrightarrow> xs = [] \<longrightarrow> p = none \<Longrightarrow> fresh s x \<Longrightarrow> x \<notin> set xs \<Longrightarrow>
      \<exists>s'. enq x s = Some s' \<and> repr s' p (xs @ [x]) \<and> (\<forall>y. y \<noteq> x \<longrightarrow> y \<notin> set xs \<longrightarrow> fresh s y \<longrightarrow> fresh s' y)"
    and deq_ok: "repr s p (x # xs) \<Longrightarrow> \<exists>s'. deq s = Some (x, s') \<and> repr s' (if xs = [] then p else x) xs"
begin

lemma enq_all_ok:
  "repr s p ys \<Longrightarrow> ys = [] \<longrightarrow> p = none \<Longrightarrow> distinct (ys @ xs) \<Longrightarrow> \<forall>x \<in> set xs. fresh s x \<Longrightarrow>
   \<exists>s'. put_in enq xs s = Some s' \<and> repr s' p (ys @ xs)"
proof (induction xs arbitrary: s ys)
  case (Cons x xs)
  obtain s1 where s1: "enq x s = Some s1" "repr s1 p (ys @ [x])"
    "\<forall>y. y \<noteq> x \<longrightarrow> y \<notin> set ys \<longrightarrow> fresh s y \<longrightarrow> fresh s1 y"
    using enq_ok [of s p ys x] Cons.prems by auto
  have "\<exists>s'. put_in enq xs s1 = Some s' \<and> repr s' p ((ys @ [x]) @ xs)"
    using s1 Cons.prems by (intro Cons.IH) auto
  then show ?case using s1 by simp
qed auto

definition left_over :: "'a \<Rightarrow> 'a list \<Rightarrow> 'a" where
  "left_over p xs = (if length xs \<le> 1 then p else last (butlast xs))"

lemma deq_all_ok:
  "repr s p xs \<Longrightarrow> \<exists>s'. take_out deq (length xs) s = Some (xs, s') \<and> repr s' (left_over p xs) []"
proof (induction xs arbitrary: s p)
  case (Cons x xs)
  obtain s1 where s1: "deq s = Some (x, s1)" "repr s1 (if xs = [] then p else x) xs"
    using deq_ok [OF Cons.prems] by auto
  obtain s2 where s2: "take_out deq (length xs) s1 = Some (xs, s2)" "repr s2 (left_over (if xs = [] then p else x) xs) []"
    using Cons.IH [OF s1(2)] by auto
  have "left_over (if xs = [] then p else x) xs = left_over p (x # xs)"
    by (cases xs) (auto simp: left_over_def)
  then show ?case using s1 s2 by auto
qed (simp add: left_over_def)

lemma first_in_first_out:
  assumes "repr s none []" "distinct xs" "\<forall>x \<in> set xs. fresh s x"
  shows "\<exists>s1 s2. put_in enq xs s = Some s1 \<and> take_out deq (length xs) s1 = Some (xs, s2) \<and> repr s2 (left_over none xs) []"
  using enq_all_ok [OF assms(1), of xs] assms(2,3) deq_all_ok by fastforce

end

fun dll :: "smp \<Rightarrow> u64 \<Rightarrow> u64 \<Rightarrow> u64 list \<Rightarrow> bool" where
  "dll s p a [] \<longleftrightarrow> a = NULL"
| "dll s p a (x # xs) \<longleftrightarrow> a = x \<and> x \<noteq> NULL \<and>
     (\<exists>t. threads s x = Some t \<and> t_status t = THREAD_STATUS_READY \<and> t_prev t = p \<and> dll s x (t_next t) xs)"

definition ready_queue :: "u64 \<Rightarrow> smp \<Rightarrow> u64 \<Rightarrow> u64 list \<Rightarrow> bool" where
  "ready_queue core s p xs \<longleftrightarrow> distinct xs \<and>
     (\<exists>k. core_states s core = Some k \<and> dll s p (ready_list k) xs \<and>
       ready_list_end k = (if xs = [] then p else last xs))"

definition new_ready :: "smp \<Rightarrow> u64 \<Rightarrow> bool" where
  "new_ready s x \<longleftrightarrow> x \<noteq> NULL \<and> (\<exists>t. threads s x = Some t \<and> t_status t = THREAD_STATUS_READY \<and> t_next t = NULL)"

lemma dll_cong: "(\<And>x. x \<in> set xs \<Longrightarrow> threads s' x = threads s x) \<Longrightarrow> dll s' p a xs = dll s p a xs"
  by (induction s p a xs rule: dll.induct) auto

lemma dll_snoc:
  assumes "dll s p a (xs @ [y])" "distinct (xs @ [y])" "x \<notin> set (xs @ [y])" "x \<noteq> NULL"
    and "threads s y = Some ty" "threads s x = Some tx" "t_status tx = THREAD_STATUS_READY" "t_next tx = NULL"
    and "threads s' = (threads s)(y \<mapsto> ty\<lparr>t_next := x\<rparr>, x \<mapsto> tx\<lparr>t_prev := y\<rparr>)"
  shows "dll s' p a (xs @ [y, x])"
  using assms by (induction xs arbitrary: p a) auto

lemma dll_last: "dll s p a (xs @ [y]) \<Longrightarrow> y \<noteq> NULL \<and> (\<exists>t. threads s y = Some t)"
  by (induction xs arbitrary: p a) auto

lemma enqueue_ready_queue:
  assumes q: "ready_queue core s p xs" "xs = [] \<longrightarrow> p = NULL" and x: "new_ready s x" "x \<notin> set xs"
  shows "\<exists>s'. enqueue_thread core x s = Some s' \<and> ready_queue core s' p (xs @ [x]) \<and>
    (\<forall>y. y \<noteq> x \<longrightarrow> y \<notin> set xs \<longrightarrow> new_ready s y \<longrightarrow> new_ready s' y)"
proof -
  obtain k where k: "core_states s core = Some k" "dll s p (ready_list k) xs" "distinct xs"
    "ready_list_end k = (if xs = [] then p else last xs)"
    using q by (auto simp: ready_queue_def)
  obtain tx where tx: "x \<noteq> NULL" "threads s x = Some tx" "t_status tx = THREAD_STATUS_READY" "t_next tx = NULL"
    using x by (auto simp: new_ready_def)
  show ?thesis
  proof (cases xs rule: rev_cases)
    case Nil
    then show ?thesis
      using k q tx by (auto simp: enqueue_thread_def upd_thread_def upd_core_def ready_queue_def new_ready_def)
  next
    case (snoc ys y)
    obtain ty where ty: "y \<noteq> NULL" "threads s y = Some ty" using dll_last k snoc by blast
    have ne: "ready_list k \<noteq> NULL" using k(2) snoc by (cases ys) auto
    have neq: "x \<noteq> y" using x snoc by auto
    define s' where "s' = s\<lparr>threads := (threads s)(y \<mapsto> ty\<lparr>t_next := x\<rparr>, x \<mapsto> tx\<lparr>t_prev := y\<rparr>),
      core_states := (core_states s)(core \<mapsto> k\<lparr>ready_list_end := x, ready_list := ready_list k\<rparr>)\<rparr>"
    have e: "enqueue_thread core x s = Some s'"
      using k tx ty neq ne snoc by (simp add: enqueue_thread_def upd_thread_def upd_core_def s'_def)
    have "dll s' p (ready_list k) (ys @ [y, x])"
      using k tx ty x snoc by (intro dll_snoc [where s = s]) (auto simp: s'_def)
    then have "ready_queue core s' p (xs @ [x])"
      using k snoc x neq by (auto simp: ready_queue_def s'_def)
    moreover have "new_ready s' z" if "z \<noteq> x" "z \<notin> set xs" "new_ready s z" for z
      using that snoc by (auto simp: new_ready_def s'_def)
    ultimately show ?thesis using e by blast
  qed
qed

lemma take_ready_queue:
  assumes q: "ready_queue core s p (x # xs)"
  shows "\<exists>s'. take_ready core s = Some (x, s') \<and> ready_queue core s' (if xs = [] then p else x) xs"
proof -
  obtain k t where k: "core_states s core = Some k" "ready_list k = x" "x \<noteq> NULL" "threads s x = Some t"
    "t_status t = THREAD_STATUS_READY" "t_prev t = p" "dll s x (t_next t) xs" "distinct (x # xs)"
    "ready_list_end k = last (x # xs)"
    using q by (auto simp: ready_queue_def)
  define s' where "s' = s\<lparr>threads := (threads s)(x \<mapsto> t\<lparr>t_status := THREAD_STATUS_RUNNING\<rparr>),
    core_states := (core_states s)(core \<mapsto>
      (if xs = [] then k\<lparr>ready_list := t_next t, ready_list_end := p\<rparr> else k\<lparr>ready_list := t_next t\<rparr>))\<rparr>"
  have f: "find_ready x s = Some x" using k by (intro find_ready_head)
  have "last xs \<noteq> x" if "xs \<noteq> []" using k(8) that by auto
  then have "take_ready core s = Some (x, s')"
    using k f by (cases "xs = []") (simp_all add: take_ready_def upd_core_def upd_thread_def s'_def)
  moreover have "dll s' (if xs = [] then p else x) (t_next t) xs"
  proof (cases "xs = []")
    case False
    have "dll s' x (t_next t) xs = dll s x (t_next t) xs"
      using k(8) by (intro dll_cong) (auto simp: s'_def)
    then show ?thesis using k(7) False by simp
  qed (use k in simp)
  then have "ready_queue core s' (if xs = [] then p else x) xs"
    using k by (auto simp: ready_queue_def s'_def)
  ultimately show ?thesis by blast
qed

interpretation rq: fifo "enqueue_thread core" "take_ready core" "ready_queue core" new_ready NULL for core
  by unfold_locales (use enqueue_ready_queue take_ready_queue in auto)


text \<open>C26: threads put into the empty ready queue of a core are taken out of it in the same order. When the queue has run empty its end pointer is \<open>NULL\<close> only if there was one thread: otherwise it is the last thread but one, which has long been taken.\<close>

theorem ready_queue_fifo:
  assumes "ready_queue core s NULL []" "distinct ths" "\<forall>th \<in> set ths. new_ready s th"
  shows "\<exists>s1 s2 k. put_in (enqueue_thread core) ths s = Some s1 \<and>
    take_out (take_ready core) (length ths) s1 = Some (ths, s2) \<and>
    core_states s2 core = Some k \<and> ready_list k = NULL \<and>
    ready_list_end k = (if length ths \<le> 1 then NULL else last (butlast ths))"
  using rq.first_in_first_out [OF assms] by (auto simp: ready_queue_def rq.left_over_def)


subsection \<open>The status of a core\<close>

text \<open>
  Changes of the state that leave the status and the response of every core, and the results whose
  state, given by \<open>st\<close>, has come from \<open>s\<close> by such changes. The rules follow the program.
\<close>

definition kept :: "smp \<Rightarrow> smp \<Rightarrow> bool" where
  "kept s s' \<longleftrightarrow> (\<forall>p k. core_states s p = Some k \<longrightarrow>
     (\<exists>k'. core_states s' p = Some k' \<and> c_status k' = c_status k \<and> response k' = response k))"

definition keeps :: "('x \<Rightarrow> smp) \<Rightarrow> smp \<Rightarrow> 'x option \<Rightarrow> bool" where
  "keeps st s r \<longleftrightarrow> (\<forall>x. r = Some x \<longrightarrow> kept s (st x))"

named_theorems keep_rules

lemma kept_refl: "kept s s"
  by (simp add: kept_def)

lemma kept_same: "core_states s' = core_states s \<Longrightarrow> kept s s'"
  by (simp add: kept_def)

lemma kept_trans: "kept s s' \<Longrightarrow> kept s' s'' \<Longrightarrow> kept s s''"
  unfolding kept_def by metis

lemma kept_cong: "kept s s' \<Longrightarrow> core_states s'' = core_states s' \<Longrightarrow> kept s s''"
  by (simp add: kept_def)

lemma keepsD: "keeps st s r \<Longrightarrow> r = Some x \<Longrightarrow> kept s (st x)"
  by (simp add: keeps_def)

lemma keeps_Some [keep_rules]: "kept s (st x) \<Longrightarrow> keeps st s (Some x)"
  by (simp add: keeps_def)

lemma keeps_if [keep_rules]: "(b \<Longrightarrow> keeps st s m) \<Longrightarrow> (\<not> b \<Longrightarrow> keeps st s n) \<Longrightarrow> keeps st s (if b then m else n)"
  by simp

lemma keeps_if_bind [keep_rules]:
  "(b \<Longrightarrow> keeps st s (m \<bind> g)) \<Longrightarrow> (\<not> b \<Longrightarrow> keeps st s (n \<bind> g)) \<Longrightarrow> keeps st s ((if b then m else n) \<bind> g)"
  by simp

lemma keeps_Some_bind [keep_rules]:
  "keeps st s (g c) \<Longrightarrow> keeps st s (Some (c :: smp) \<bind> g)"
  "keeps st s (g' b) \<Longrightarrow> keeps st s (Some (b :: bool) \<bind> g')"
  "keeps st s (h x c) \<Longrightarrow> keeps st s (Some (x, c) \<bind> (\<lambda>(x, c). h x c))"
  by simp_all

text \<open>A step with the state as its result, or a value and the state.\<close>

lemma keeps_step:
  assumes "keeps (\<lambda>x. x) c m" "kept s c" "\<And>s1. kept s s1 \<Longrightarrow> keeps st s (g s1)"
  shows "keeps st s (m \<bind> g)"
  using assms by (cases m) (auto simp: keeps_def dest: kept_trans)

lemma keeps_step_pair:
  assumes "keeps snd c m" "kept s c" "\<And>x s1. kept s s1 \<Longrightarrow> keeps st s (g x s1)"
  shows "keeps st s (m \<bind> (\<lambda>(x, s1). g x s1))"
  using assms by (cases m) (auto simp: keeps_def dest: kept_trans)

lemma keeps_threads: "(\<And>t. keeps st s (g t)) \<Longrightarrow> keeps st s (threads c p \<bind> g)"
  by (cases "threads c p") (simp_all add: keeps_def)

lemma keeps_cores: "(\<And>t. keeps st s (g t)) \<Longrightarrow> keeps st s (core_states c p \<bind> g)"
  by (cases "core_states c p") (simp_all add: keeps_def)

lemma keeps_any: "(\<And>x. keeps st s (g x)) \<Longrightarrow> keeps st s (m \<bind> g)"
  by (cases m) (simp_all add: keeps_def)

lemma keeps_upd_core: "(\<And>k. c_status (f k) = c_status k \<and> response (f k) = response k) \<Longrightarrow> keeps (\<lambda>x. x) s (upd_core p f s)"
  by (auto simp: upd_core_def bind_eq_Some_conv keeps_def kept_def)

lemma keeps_upd_thread: "keeps (\<lambda>x. x) s (upd_thread p f s)"
  by (auto simp: upd_thread_def bind_eq_Some_conv keeps_def kept_def)

lemma keeps_sm_alloc: "keeps snd s (sm_alloc e n s)"
  by (auto simp: sm_alloc_def bind_eq_Some_conv keeps_def kept_def Let_def split: if_splits)

lemma keeps_sm_free: "keeps (\<lambda>x. x) s (sm_free a s)"
  by (auto simp: sm_free_def Let_def bind_eq_Some_conv keeps_def kept_def)

lemma keeps_sm_memset: "keeps (\<lambda>x. x) s (sm_memset a n s)"
  by (auto simp: sm_memset_def bind_eq_Some_conv keeps_def kept_def)

lemma keeps_push_all: "keeps snd s (push_all vs (sp, s))"
  using push_all_frame [of vs "(sp, s)"] by (fastforce simp: keeps_def kept_def)

lemmas keep_binds =
  keeps_step [OF keeps_upd_core] keeps_step [OF keeps_upd_thread] keeps_step [OF keeps_sm_free]
  keeps_step [OF keeps_sm_memset] keeps_step_pair [OF keeps_sm_alloc] keeps_step_pair [OF keeps_push_all]
  keeps_threads keeps_cores

declare keep_binds [keep_rules]

lemma keeps_trans_same: "kept s c \<Longrightarrow> keeps st c m \<Longrightarrow> keeps st s m"
  by (auto simp: keeps_def dest: kept_trans)

lemmas keep_tails = keeps_trans_same [OF _ keeps_upd_core] keeps_trans_same [OF _ keeps_upd_thread]
  keeps_trans_same [OF _ keeps_sm_free]

declare keep_tails [keep_rules]

lemma keeps_create_thread: "keeps snd s (create_thread e entry arg s)"
  unfolding create_thread_def Let_def
  by (intro keep_rules kept_refl) (auto simp: kept_def)

lemma keeps_free_thread: "keeps (\<lambda>x. x) s (free_thread th s)"
  unfolding free_thread_def by (intro keep_rules kept_refl)

lemma keeps_reset_thread: "keeps (\<lambda>x. x) s (reset_thread th entry arg s)"
  unfolding reset_thread_def by (intro keep_rules kept_refl)

lemma keeps_unlink_finished: "keeps (\<lambda>x. x) s (unlink_finished target prev cur s)"
  unfolding unlink_finished_def by (intro keep_rules kept_refl) auto

lemma keeps_enqueue_thread: "keeps (\<lambda>x. x) s (enqueue_thread target th s)"
  unfolding enqueue_thread_def by (intro keep_rules kept_refl) auto


lemma keeps_context_switch: "keeps snd s (thread_context_switch ret old new (c, s))"
  by (auto simp: thread_context_switch_def bind_eq_Some_conv Let_def upd_thread_def keeps_def kept_def
    simp del: push_all.simps dest!: push_all_frame)

lemma kept_say: "kept s c \<Longrightarrow> kept s (say m as c)"
  by (simp add: kept_def)

lemmas keeps_reads =
  keeps_any [where m = "find_ready p s" for p s] keeps_any [where m = "smp_is_bsp_core c s" for c s]
  keeps_any [where m = "this_core c s" for c s]

lemmas keep_calls = keeps_reads
  keeps_step [OF keeps_free_thread] keeps_step [OF keeps_reset_thread] keeps_step [OF keeps_unlink_finished]
  keeps_step [OF keeps_enqueue_thread] keeps_step_pair [OF keeps_create_thread]
  keeps_step_pair [OF keeps_context_switch]

lemma reuse_thread_kept:
  assumes "reuse_thread target prev cur entry arg s = Some r" shows "keeps snd s (Some r)"
proof (rule reuse_thread.raw_induct [where P = "\<lambda>target prev cur entry arg s r. keeps snd s (Some r)", OF _ assms])
  fix rt :: "u64 \<Rightarrow> u64 \<Rightarrow> u64 \<Rightarrow> u64 \<Rightarrow> u64 \<Rightarrow> smp \<Rightarrow> (u64 \<times> smp) option"
    and target prev cur entry arg s r
  assume IH: "\<And>target prev cur entry arg s r. rt target prev cur entry arg s = Some r \<Longrightarrow> keeps snd s (Some r)"
  have rt: "keeps snd s (rt target prev cur entry arg s)" for target prev cur entry arg s
    using IH by (cases "rt target prev cur entry arg s") (auto simp: keeps_def)
  assume "(if cur = NULL then Some (NULL, s)
      else do {
        t \<leftarrow> threads s cur;
        if t_status t = THREAD_STATUS_DEAD then
          if stack_size t < 1024 then do {
            s \<leftarrow> unlink_finished target prev cur s;
            t \<leftarrow> threads s cur;
            s \<leftarrow> free_thread cur s;
            rt target prev (t_next t) entry arg s
          }
          else do {
            s \<leftarrow> unlink_finished target prev cur s;
            s \<leftarrow> reset_thread cur entry arg s;
            Some (cur, s)
          }
        else rt target cur (t_next t) entry arg s
      }) = Some r" (is "?body = _")
  moreover have "keeps snd s ?body"
    by (intro keep_rules keep_calls kept_refl) (auto intro: rt keeps_trans_same kept_refl)
  ultimately show "keeps snd s (Some r)" by simp
qed

lemma keeps_reuse_thread: "keeps snd s (reuse_thread target prev cur entry arg s)"
  using reuse_thread_kept by (cases "reuse_thread target prev cur entry arg s") (auto simp: keeps_def)

lemma keeps_smp_push_task: "keeps (\<lambda>x. x) s (smp_push_task e c idx entry arg s)"
  unfolding smp_push_task_def Let_def
  by (intro keep_rules keep_calls keeps_step_pair [OF keeps_reuse_thread] kept_refl kept_say)
    (auto intro: kept_refl kept_say kept_cong)

lemma keeps_take_ready: "keeps snd s (take_ready core s)"
  unfolding take_ready_def by (intro keep_rules keep_calls kept_refl) (auto intro: kept_refl)

lemma keeps_dispatch: "keeps (snd \<circ> snd) s (dispatch ret core (c, s))"
  unfolding dispatch_def Let_def prod.case
  by (intro keep_rules keep_calls keeps_step_pair [OF keeps_take_ready] kept_refl kept_say) auto

lemma keeps_smp_yield: "keeps snd s (smp_yield ret (c, s))"
  unfolding smp_yield_def Let_def prod.case
  by (intro keep_rules keep_calls kept_refl kept_say keeps_trans_same [OF _ keeps_context_switch])
    (auto intro: kept_refl kept_say)


text \<open>
  The steps of a core: rounds of its loop, waking up, the end of a thread, a task put into its
  queue by another processor, and a command sent to it. \<open>idle\<close> is the local variable of the loop.
\<close>

datatype phase = In_loop | Waiting | In_thread | Stopped

record config =
  ph :: phase
  idle :: core_status
  reg :: cpu
  mc :: smp

inductive core_step :: "smp_env \<Rightarrow> u64 \<Rightarrow> u64 \<Rightarrow> config \<Rightarrow> config \<Rightarrow> bool" for e ret core where
  round_switch: "ph g = In_loop \<Longrightarrow> ap_round ret core (idle g) (reg g, mc g) = Some (Ap_switched, i, c, s) \<Longrightarrow>
    core_step e ret core g \<lparr>ph = In_thread, idle = i, reg = c, mc = s\<rparr>"
| round_idle: "ph g = In_loop \<Longrightarrow> ap_round ret core (idle g) (reg g, mc g) = Some (Ap_idle, i, c, s) \<Longrightarrow>
    core_step e ret core g \<lparr>ph = Waiting, idle = i, reg = c, mc = s\<rparr>"
| round_halt: "ph g = In_loop \<Longrightarrow> ap_round ret core (idle g) (reg g, mc g) = Some (Ap_halted, i, c, s) \<Longrightarrow>
    core_step e ret core g \<lparr>ph = Stopped, idle = i, reg = c, mc = s\<rparr>"
| wake: "ph g = Waiting \<Longrightarrow> ap_wake core (mc g) = Some s \<Longrightarrow> core_step e ret core g (g\<lparr>ph := In_loop, mc := s\<rparr>)"
| thread_ends: "ph g = In_thread \<Longrightarrow> smp_yield ret (reg g, mc g) = Some (c, s) \<Longrightarrow>
    core_step e ret core g (g\<lparr>ph := In_loop, reg := c, mc := s\<rparr>)"
| task: "smp_push_task e b idx entry arg (mc g) = Some s \<Longrightarrow> core_step e ret core g (g\<lparr>mc := s\<rparr>)"
| cmd: "send_command e core cmd (mc g) = Some s \<Longrightarrow> core_step e ret core g (g\<lparr>mc := s\<rparr>)"

inductive reachable :: "smp_env \<Rightarrow> u64 \<Rightarrow> u64 \<Rightarrow> config \<Rightarrow> bool" for e ret core where
  started: "ph g = In_loop \<Longrightarrow> idle g = CORE_STATUS_READY \<Longrightarrow> core_states (mc g) core = Some k \<Longrightarrow>
    c_status k = CORE_STATUS_RUNNING \<Longrightarrow> response k = 0 \<Longrightarrow> reachable e ret core g"
| stepped: "reachable e ret core g \<Longrightarrow> core_step e ret core g g' \<Longrightarrow> reachable e ret core g'"

definition status_ok :: "u64 \<Rightarrow> config \<Rightarrow> bool" where
  "status_ok core g \<longleftrightarrow> (\<exists>k. core_states (mc g) core = Some k \<and>
     c_status k = (if ph g = Waiting then idle g else CORE_STATUS_RUNNING) \<and>
     (response k = SMP_RESP_ACK_RESERVE \<longrightarrow> idle g = CORE_STATUS_RESERVED))"

lemma status_ok_kept: "status_ok core g \<Longrightarrow> kept (mc g) s \<Longrightarrow> status_ok core (g\<lparr>mc := s\<rparr>)"
  by (fastforce simp: status_ok_def kept_def)

lemma status_ok_running:
  assumes "core_states s core = Some k" "c_status k = CORE_STATUS_RUNNING"
    "response k = SMP_RESP_ACK_RESERVE \<longrightarrow> i = CORE_STATUS_RESERVED" "kept s s'" "p \<noteq> Waiting"
  shows "status_ok core \<lparr>ph = p, idle = i, reg = c, mc = s'\<rparr>"
  using assms by (fastforce simp: status_ok_def kept_def)

lemma answer_command_ok:
  assumes "answer_command core i s = Some (b, i', s')" "core_states s core = Some k"
    "response k = SMP_RESP_ACK_RESERVE \<longrightarrow> i = CORE_STATUS_RESERVED"
  shows "\<exists>k'. core_states s' core = Some k' \<and> c_status k' = c_status k \<and>
    (response k' = SMP_RESP_ACK_RESERVE \<longrightarrow> i' = CORE_STATUS_RESERVED)"
  using assms
  by (auto simp: answer_command_def upd_core_def SMP_RESP_ACK_RESERVE_def SMP_RESP_ACK_SHUTDOWN_def
    SMP_RESP_ACK_UNRESERVE_def SMP_RESP_INV_CMD_def split: if_splits)

lemma ap_round_ok:
  assumes "ap_round ret core i (c, s) = Some (r, i', c', s')" "core_states s core = Some k"
    "c_status k = CORE_STATUS_RUNNING" "response k = SMP_RESP_ACK_RESERVE \<longrightarrow> i = CORE_STATUS_RESERVED"
  shows "status_ok core \<lparr>ph = (case r of Ap_halted \<Rightarrow> Stopped | Ap_switched \<Rightarrow> In_thread | Ap_idle \<Rightarrow> Waiting),
    idle = i', reg = c', mc = s'\<rparr>"
proof -
  obtain b s1 where a: "answer_command core i s = Some (b, i', s1)"
    using assms(1) by (auto simp: ap_round_def bind_eq_Some_conv split: if_splits)
  obtain k1 where k1: "core_states s1 core = Some k1" "c_status k1 = CORE_STATUS_RUNNING"
    "response k1 = SMP_RESP_ACK_RESERVE \<longrightarrow> i' = CORE_STATUS_RESERVED"
    using answer_command_ok [OF a assms(2,4)] assms(3) by auto
  let ?m = "if ready_list k1 \<noteq> NULL then dispatch ret core (c, s1) else Some (False, c, s1)"
  have kd: "keeps (snd \<circ> snd) s1 ?m"
    using keeps_dispatch [of s1 ret core c] by (simp add: keeps_def kept_refl)
  show ?thesis
  proof (cases b)
    case True
    then show ?thesis using assms(1) a k1 by (auto simp: ap_round_def status_ok_def)
  next
    case False
    then obtain f c2 s2 where m: "?m = Some (f, c2, s2)"
      using assms(1) a k1 by (auto simp: ap_round_def bind_eq_Some_conv)
    have k2: "kept s1 s2" using keepsD [OF kd m] by simp
    have r: "(if f then Some (Ap_switched, i', c2, s2)
        else do { s \<leftarrow> upd_core core (\<lambda>c. c\<lparr>c_status := i'\<rparr>) s2; Some (Ap_idle, i', c2, s) }) =
        Some (r, i', c', s')"
      using assms(1) a k1(1) m False by (simp add: ap_round_def)
    show ?thesis
    proof (cases f)
      case True
      then show ?thesis using r status_ok_running [OF k1 k2, of In_thread] by auto
    next
      case False
      obtain k' where "core_states s2 core = Some k'" "c_status k' = c_status k1" "response k' = response k1"
        using k1(1) k2 unfolding kept_def by blast
      then show ?thesis using r k1 False by (auto simp: upd_core_def status_ok_def)
    qed
  qed
qed

lemma reachable_status_ok: "reachable e ret core g \<Longrightarrow> status_ok core g"
proof (induction rule: reachable.induct)
  case (started g k)
  then show ?case by (auto simp: status_ok_def SMP_RESP_ACK_RESERVE_def)
next
  case (stepped g g')
  obtain k where k: "core_states (mc g) core = Some k"
    "c_status k = (if ph g = Waiting then idle g else CORE_STATUS_RUNNING)"
    "response k = SMP_RESP_ACK_RESERVE \<longrightarrow> idle g = CORE_STATUS_RESERVED"
    using stepped.IH by (auto simp: status_ok_def)
  from stepped.hyps(2) show ?case
  proof (cases rule: core_step.cases)
    case (task b idx entry arg s)
    then show ?thesis using status_ok_kept [OF stepped.IH] keepsD [OF keeps_smp_push_task] by blast
  next
    case (cmd m s)
    then show ?thesis
      using k by (auto simp: send_command_def upd_core_def status_ok_def SMP_RESP_ACK_RESERVE_def)
  next
    case (thread_ends c s)
    then have "kept (mc g) s" using keepsD [OF keeps_smp_yield] by fastforce
    then show ?thesis using thread_ends k by (fastforce simp: status_ok_def kept_def)
  next
    case (wake s)
    then show ?thesis using k by (auto simp: ap_wake_def upd_core_def status_ok_def)
  qed (use k ap_round_ok [OF _ k(1) _ k(3)] in fastforce)+
qed

text \<open>
  A step after which the response of the core is none yet or the acknowledgement of a reservation. An
  answer to any other command is another response, so no such command is answered in the step;
  commands may well be sent.
\<close>

definition quiet_step :: "smp_env \<Rightarrow> u64 \<Rightarrow> u64 \<Rightarrow> config \<Rightarrow> config \<Rightarrow> bool" where
  "quiet_step e ret core g g' \<longleftrightarrow> core_step e ret core g g' \<and>
     (\<forall>k. core_states (mc g') core = Some k \<longrightarrow> response k \<in> {0, SMP_RESP_ACK_RESERVE})"

lemma answer_command_reserved:
  assumes "answer_command core CORE_STATUS_RESERVED s = Some (b, i', s')"
  shows "i' = CORE_STATUS_RESERVED \<or> (\<exists>k. core_states s' core = Some k \<and> response k = SMP_RESP_ACK_UNRESERVE)"
  using assms by (auto simp: answer_command_def upd_core_def bind_eq_Some_conv split: if_splits)

lemma ap_round_reserved:
  assumes r: "ap_round ret core CORE_STATUS_RESERVED (c, s) = Some (r, i', c', s')"
    and quiet: "\<forall>k. core_states s' core = Some k \<longrightarrow> response k \<in> {0, SMP_RESP_ACK_RESERVE}"
  shows "i' = CORE_STATUS_RESERVED"
proof (rule ccontr)
  assume ne: "i' \<noteq> CORE_STATUS_RESERVED"
  obtain b j s1 where a: "answer_command core CORE_STATUS_RESERVED s = Some (b, j, s1)"
    using r by (auto simp: ap_round_def bind_eq_Some_conv split: if_splits)
  have "i' = j" using r a by (auto simp: ap_round_def bind_eq_Some_conv split: if_splits)
  then obtain k1 where k1: "core_states s1 core = Some k1" "response k1 = SMP_RESP_ACK_UNRESERVE"
    using answer_command_reserved [OF a] ne by blast
  have "\<exists>k'. core_states s' core = Some k' \<and> response k' = response k1"
  proof (cases b)
    case True
    then show ?thesis using r a k1 by (simp add: ap_round_def)
  next
    case False
    let ?m = "if ready_list k1 \<noteq> NULL then dispatch ret core (c, s1) else Some (False, c, s1)"
    have kd: "keeps (snd \<circ> snd) s1 ?m"
      using keeps_dispatch [of s1 ret core c] by (simp add: keeps_def kept_refl)
    obtain f c2 s2 where m: "?m = Some (f, c2, s2)"
      using r a k1 False by (auto simp: ap_round_def bind_eq_Some_conv)
    obtain k2 where "core_states s2 core = Some k2" "response k2 = response k1"
      using keepsD [OF kd m] k1(1) unfolding kept_def by fastforce
    then show ?thesis using r a k1(1) m False by (auto simp: ap_round_def upd_core_def split: if_splits)
  qed
  then show False
    using quiet k1(2) by (auto simp: SMP_RESP_ACK_RESERVE_def SMP_RESP_ACK_UNRESERVE_def)
qed

lemma quiet_step_reserved: "quiet_step e ret core g g' \<Longrightarrow> idle g = CORE_STATUS_RESERVED \<Longrightarrow> idle g' = CORE_STATUS_RESERVED"
  unfolding quiet_step_def by (erule conjE, erule core_step.cases) (auto dest: ap_round_reserved)

lemma quiet_run_reserved:
  assumes "(quiet_step e ret core)\<^sup>*\<^sup>* g g'" "reachable e ret core g" "idle g = CORE_STATUS_RESERVED"
  shows "reachable e ret core g' \<and> idle g' = CORE_STATUS_RESERVED"
  using assms
  by (induction rule: rtranclp_induct)
    (auto simp: quiet_step_def intro: reachable.stepped quiet_step_reserved [unfolded quiet_step_def])

text \<open>C27: whatever tasks and commands reach a core, in any order between the steps of its loop: once it has acknowledged that it is reserved, its status is never \<open>CORE_STATUS_READY\<close>, the one \<open>smp_get_first_free_core\<close> looks for, until it answers another command; that one has been sent, which clears the response, is not enough. And while it runs a thread or its loop it is reported as running.\<close>

theorem reserved_core_is_not_free:
  assumes "reachable e ret core g"
  shows "\<exists>k. core_states (mc g) core = Some k \<and>
    (response k = SMP_RESP_ACK_RESERVE \<longrightarrow> c_status k \<noteq> CORE_STATUS_READY \<and>
      (\<forall>g'. (quiet_step e ret core)\<^sup>*\<^sup>* g g' \<longrightarrow>
        (\<exists>k'. core_states (mc g') core = Some k' \<and> c_status k' \<noteq> CORE_STATUS_READY))) \<and>
    (ph g \<noteq> Waiting \<longrightarrow> c_status k = CORE_STATUS_RUNNING)"
proof -
  obtain k where k: "core_states (mc g) core = Some k"
    "c_status k = (if ph g = Waiting then idle g else CORE_STATUS_RUNNING)"
    "response k = SMP_RESP_ACK_RESERVE \<longrightarrow> idle g = CORE_STATUS_RESERVED"
    using reachable_status_ok [OF assms] by (auto simp: status_ok_def)
  have "\<exists>k'. core_states (mc g') core = Some k' \<and> c_status k' \<noteq> CORE_STATUS_READY"
    if "response k = SMP_RESP_ACK_RESERVE" "(quiet_step e ret core)\<^sup>*\<^sup>* g g'" for g'
    using quiet_run_reserved [OF that(2) assms] that(1) k(3) reachable_status_ok [of e ret core g']
    by (auto simp: status_ok_def)
  then show ?thesis using k by auto
qed

text \<open>C28: when the core runs a round of its loop with an empty queue whenever the caller waits, \<open>smp_reserve_core\<close> returns, the command is acknowledged, and the core is reserved and not free.\<close>

theorem smp_reserve_core_acknowledged:
  assumes o: "others e = (\<lambda>s. case ap_round ret target i (c, s) of Some (_, _, _, s') \<Rightarrow> s' | None \<Rightarrow> s)"
    and t: "core_at idx s = target" "target \<noteq> NULL" "idx \<noteq> bsp_core_idx s"
    and k: "core_states s target = Some k" "ready_list k = NULL"
  shows "\<exists>s'. smp_reserve_core e idx s = Some s' \<and>
    core_states s' = (core_states s)(target \<mapsto> k\<lparr>command := SMP_CMD_RESERVE,
      response := SMP_RESP_ACK_RESERVE, c_status := CORE_STATUS_RESERVED\<rparr>)"
proof -
  obtain s1 where s1: "send_command e target SMP_CMD_RESERVE s = Some s1"
    "core_states s1 = (core_states s)(target \<mapsto> k\<lparr>command := SMP_CMD_RESERVE, response := 0\<rparr>)"
    using k by (simp add: send_command_def upd_core_def)
  let ?k = "k\<lparr>command := SMP_CMD_RESERVE, response := SMP_RESP_ACK_RESERVE, c_status := CORE_STATUS_RESERVED\<rparr>"
  define s2 where "s2 = s1\<lparr>core_states := (core_states s)(target \<mapsto> ?k)\<rparr>"
  have "ap_round ret target i (c, s1) = Some (Ap_idle, CORE_STATUS_RESERVED, c, s2)"
    using s1 k by (simp add: ap_round_def answer_command_def upd_core_def s2_def SMP_CMD_RESERVE_def SMP_CMD_SHUTDOWN_def)
  then have os: "others e s1 = s2" by (simp add: o)
  have k2: "core_states s2 target = Some ?k" by (simp add: s2_def)
  have "await_response e target s2 = Some s2"
    by (subst await_response.simps) (simp add: k2 SMP_RESP_ACK_RESERVE_def)
  moreover have "await_response e target s1 = await_response e target (others e s1)"
    by (subst await_response.simps) (simp add: s1)
  ultimately have "await_response e target s1 = Some s2" by (simp add: os)
  then show ?thesis using t s1 by (simp add: smp_reserve_core_def s2_def)
qed

subsection \<open>Instances\<close>

definition sample_thread :: "thread_status \<Rightarrow> u64 \<Rightarrow> thread_state" where
  "sample_thread st sp = \<lparr>t_rsp = sp, t_arg = 0, stack_bottom = 0x2000, stack_size = 0x1000, t_context = 0,
     t_status = st, t_next = 0, t_prev = 0\<rparr>"

definition sample_cpu :: cpu where
  "sample_cpu = \<lparr>rsp = 0x9000, rdi = 0, rbp = 0, rbx = 0, r12 = 0, r13 = 0, r14 = 0, r15 = 0, rip = 0,
     cr0 = 0, cr3 = 0, cr4 = 0, gs_base = 0x700,
     c_segs = \<lparr>r_cs = 8, r_ds = 16, r_es = 16, r_ss = 16, r_tr = 40,
       r_gdtr = \<lparr>gdtr_limit = 0, gdtr_base = 0\<rparr>, r_idtr = \<lparr>gdtr_limit = 0, gdtr_base = 0\<rparr>, interrupts = True\<rparr>,
     invalidated = []\<rparr>"

text \<open>A core at 0x700 with its idle thread at 0x800 and another thread at 0x900; the memory ends at 0x3000 above the stack of that thread.\<close>

definition sample_core :: core_state where
  "sample_core = zero_core\<lparr>self := 0x700, core_idx := 1, c_status := CORE_STATUS_RUNNING, cur_thread := 0x800,
     idle_thread := 0x800\<rparr>"

definition sample_smp :: "pstate \<Rightarrow> mem \<Rightarrow> core_state \<Rightarrow> thread_state \<Rightarrow> smp" where
  "sample_smp h m k t = \<lparr>s_heap = h, s_mem = m, bus = [], said = [],
     threads = [0x800 \<mapsto> sample_thread THREAD_STATUS_RUNNING 0x8000, 0x900 \<mapsto> t],
     core_states = [0x700 \<mapsto> k], cores = [0x600, 0x700] @ replicate 254 0, ap_boot_flag = True,
     bsp_core_idx = 0, bsp_apic_id = 0, lapic_base_virt = 0xFEE00000, lapic_ticks_per_ms = 1\<rparr>"

lemma dispatch_starts_task_witness:
  "\<forall>h. \<exists>c' s'. dispatch 0x1234 0x700 (sample_cpu, sample_smp h
      (stored (\<lambda>_. Some 0) 0x2FC0 (concat (map qword_bytes (rev (start_frame 0x401000 7)))))
      (sample_core\<lparr>ready_list := 0x900, ready_list_end := 0x900\<rparr>) (sample_thread THREAD_STATUS_READY 0x2FC0)) =
    Some (True, c', s') \<and> rip c' = 0x401000 \<and> rdi c' = 7"
proof
  fix h
  let ?s = "sample_smp h (stored (\<lambda>_. Some 0) 0x2FC0 (concat (map qword_bytes (rev (start_frame 0x401000 7)))))
    (sample_core\<lparr>ready_list := 0x900, ready_list_end := 0x900\<rparr>) (sample_thread THREAD_STATUS_READY 0x2FC0)"
  have w: "words_from ?s 0x2FC0 (rev (start_frame 0x401000 7))"
    unfolding words_from_def
    using load64_stored [of ?s "\<lambda>_. Some 0" "0x2FC0" "rev (start_frame 0x401000 7)"]
    by (simp add: sample_smp_def start_frame_def)
  have "mapped (\<lambda>_. Some 0) (0x9000 - 64) 64" by (simp add: mapped_def)
  then have m: "mapped (s_mem ?s) (rsp sample_cpu - 64) 64"
    by (simp add: sample_smp_def sample_cpu_def mapped_stored)
  show "\<exists>c' s'. dispatch 0x1234 0x700 (sample_cpu, ?s) = Some (True, c', s') \<and> rip c' = 0x401000 \<and> rdi c' = 7"
    using dispatch_starts_task [where s = ?s and core = "0x700" and n = "0x900" and c = sample_cpu
        and entry = "0x401000" and arg = 7 and ret = "0x1234"
        and k = "sample_core\<lparr>ready_list := 0x900, ready_list_end := 0x900\<rparr>"
        and t = "sample_thread THREAD_STATUS_READY 0x2FC0"
        and ot = "sample_thread THREAD_STATUS_RUNNING 0x8000"] w m
    by (force simp: sample_smp_def sample_core_def sample_cpu_def sample_thread_def apart_def)
qed

lemma reused_thread_starts_above_stack_witness:
  "\<forall>e h. \<exists>s'. smp_push_task e sample_cpu 1 0x401000 7 (sample_smp h (\<lambda>a. if a < 0x3000 then Some 0 else None)
      (sample_core\<lparr>finished_list := 0x900, finished_list_end := 0x900\<rparr>) (sample_thread THREAD_STATUS_DEAD 0)) = Some s' \<and>
    dispatch 0x1234 0x700 (sample_cpu, s') = None"
proof (intro allI)
  fix e h
  let ?s = "sample_smp h (\<lambda>a. if a < 0x3000 then Some 0 else None)
    (sample_core\<lparr>finished_list := 0x900, finished_list_end := 0x900\<rparr>) (sample_thread THREAD_STATUS_DEAD 0)"
  have "x < 0x3000" if "unat (x - 0x2FC0) < 64" for x :: u64
  proof -
    have "x - 0x2FC0 < 64" using that by (simp add: word_less_nat_alt)
    then show ?thesis by unat_arith
  qed
  then have m: "mapped (s_mem ?s) 0x2FC0 64" by (auto simp: mapped_def sample_smp_def)
  show "\<exists>s'. smp_push_task e sample_cpu 1 0x401000 7 ?s = Some s' \<and> dispatch 0x1234 0x700 (sample_cpu, s') = None"
    using reused_thread_starts_above_stack [where s = ?s and idx = 1 and target = "0x700" and n = "0x900"
        and k = "sample_core\<lparr>finished_list := 0x900, finished_list_end := 0x900\<rparr>"
        and t = "sample_thread THREAD_STATUS_DEAD 0" and entry = "0x401000" and arg = 7 and c = sample_cpu and e = e] m
    by (force simp: sample_smp_def sample_core_def sample_thread_def core_at_def SMP_MAX_CORES_def zero_core_def)
qed

lemma ready_queue_fifo_witness:
  "\<forall>h m. \<exists>s1 s2 k. put_in (enqueue_thread 0x700) [0x900, 0xB00, 0xA00]
      (sample_smp h m sample_core (sample_thread THREAD_STATUS_DEAD 0)
        \<lparr>threads := (\<lambda>_. Some (sample_thread THREAD_STATUS_READY 0))\<rparr>) = Some s1 \<and>
    take_out (take_ready 0x700) 3 s1 = Some ([0x900, 0xB00, 0xA00], s2) \<and>
    core_states s2 0x700 = Some k \<and> ready_list k = NULL \<and> ready_list_end k = 0xB00"
proof (intro allI)
  fix h m
  let ?s = "sample_smp h m sample_core (sample_thread THREAD_STATUS_DEAD 0)
    \<lparr>threads := (\<lambda>_. Some (sample_thread THREAD_STATUS_READY 0))\<rparr>"
  have "ready_queue 0x700 ?s NULL []"
    by (simp add: ready_queue_def sample_smp_def sample_core_def zero_core_def)
  moreover have "\<forall>th \<in> set [0x900, 0xB00, 0xA00]. new_ready ?s th"
    by (simp add: new_ready_def sample_smp_def sample_thread_def)
  ultimately show "\<exists>s1 s2 k. put_in (enqueue_thread 0x700) [0x900, 0xB00, 0xA00] ?s = Some s1 \<and>
      take_out (take_ready 0x700) 3 s1 = Some ([0x900, 0xB00, 0xA00], s2) \<and>
      core_states s2 0x700 = Some k \<and> ready_list k = NULL \<and> ready_list_end k = 0xB00"
    using ready_queue_fifo [of "0x700" ?s "[0x900, 0xB00, 0xA00]"]
    by (simp add: numeral_3_eq_3 del: put_in.simps take_out.simps)
qed

text \<open>The core is idle and reserved; then it is told to give up the reservation, and has not answered yet.\<close>

lemma reserved_core_is_not_free_witness:
  "\<forall>e h m t. \<exists>s s2 k. send_command e 0x700 SMP_CMD_RESERVE (sample_smp h m sample_core t) = Some s \<and>
    send_command e 0x700 SMP_CMD_UNRESERVE (s\<lparr>core_states := (core_states s)(0x700 \<mapsto> sample_core
      \<lparr>command := SMP_CMD_RESERVE, response := SMP_RESP_ACK_RESERVE, c_status := CORE_STATUS_RESERVED\<rparr>)\<rparr>) = Some s2 \<and>
    core_states s2 0x700 = Some k \<and> response k = 0 \<and> c_status k \<noteq> CORE_STATUS_READY"
proof (intro allI)
  fix e h m t
  let ?s = "sample_smp h m sample_core t"
  let ?k = "sample_core\<lparr>command := SMP_CMD_RESERVE, response := SMP_RESP_ACK_RESERVE, c_status := CORE_STATUS_RESERVED\<rparr>"
  obtain s where s: "send_command e 0x700 SMP_CMD_RESERVE ?s = Some s"
    "core_states s = [0x700 \<mapsto> sample_core\<lparr>command := SMP_CMD_RESERVE, response := 0\<rparr>]"
    by (simp add: send_command_def upd_core_def sample_smp_def sample_core_def)
  let ?s' = "s\<lparr>core_states := (core_states s)(0x700 \<mapsto> ?k)\<rparr>"
  let ?g = "\<lparr>ph = In_loop, idle = CORE_STATUS_READY, reg = sample_cpu, mc = ?s\<rparr>"
  let ?g1 = "\<lparr>ph = Waiting, idle = CORE_STATUS_RESERVED, reg = sample_cpu, mc = ?s'\<rparr>"
  obtain s2 where s2: "send_command e 0x700 SMP_CMD_UNRESERVE ?s' = Some s2"
    "core_states s2 0x700 = Some (?k\<lparr>command := SMP_CMD_UNRESERVE, response := 0\<rparr>)"
    by (simp add: send_command_def upd_core_def)
  have "reachable e 0 0x700 ?g"
    by (rule reachable.started [where k = sample_core])
      (simp_all add: sample_smp_def sample_core_def zero_core_def)
  moreover have "core_step e 0 0x700 ?g (?g\<lparr>mc := s\<rparr>)"
    by (rule core_step.cmd [where cmd = SMP_CMD_RESERVE]) (simp add: s)
  moreover have "ap_round 0 0x700 CORE_STATUS_READY (sample_cpu, s) = Some (Ap_idle, CORE_STATUS_RESERVED, sample_cpu, ?s')"
    using s by (simp add: ap_round_def answer_command_def upd_core_def sample_core_def zero_core_def
      SMP_CMD_RESERVE_def SMP_CMD_SHUTDOWN_def)
  then have "core_step e 0 0x700 (?g\<lparr>mc := s\<rparr>) ?g1"
    by (intro core_step.round_idle) simp_all
  ultimately have g1: "reachable e 0 0x700 ?g1"
    by (blast intro: reachable.stepped)
  have "core_step e 0 0x700 ?g1 (?g1\<lparr>mc := s2\<rparr>)"
    by (rule core_step.cmd [where cmd = SMP_CMD_UNRESERVE]) (simp add: s2)
  then have "quiet_step e 0 0x700 ?g1 (?g1\<lparr>mc := s2\<rparr>)" using s2(2) by (simp add: quiet_step_def)
  then have run: "(quiet_step e 0 0x700)\<^sup>*\<^sup>* ?g1 (?g1\<lparr>mc := s2\<rparr>)" by (rule r_into_rtranclp)
  have "\<exists>k'. core_states (mc (?g1\<lparr>mc := s2\<rparr>)) 0x700 = Some k' \<and> c_status k' \<noteq> CORE_STATUS_READY"
    using reserved_core_is_not_free [OF g1] run by force
  then show "\<exists>s s2 k. send_command e 0x700 SMP_CMD_RESERVE ?s = Some s \<and>
      send_command e 0x700 SMP_CMD_UNRESERVE (s\<lparr>core_states := (core_states s)(0x700 \<mapsto> ?k)\<rparr>) = Some s2 \<and>
      core_states s2 0x700 = Some k \<and> response k = 0 \<and> c_status k \<noteq> CORE_STATUS_READY"
    using s(1) s2 by force
qed

lemma smp_reserve_core_acknowledged_witness:
  "\<forall>e h m t. \<exists>s'. smp_reserve_core (e\<lparr>others := \<lambda>s. case ap_round 0 0x700 CORE_STATUS_READY (sample_cpu, s) of
        Some (_, _, _, s') \<Rightarrow> s' | None \<Rightarrow> s\<rparr>) 1 (sample_smp h m sample_core t) = Some s' \<and>
    map_option c_status (core_states s' 0x700) = Some CORE_STATUS_RESERVED"
proof (intro allI)
  fix e :: smp_env and h m t
  let ?e = "e\<lparr>others := \<lambda>s. case ap_round 0 0x700 CORE_STATUS_READY (sample_cpu, s) of
        Some (_, _, _, s') \<Rightarrow> s' | None \<Rightarrow> s\<rparr>"
  show "\<exists>s'. smp_reserve_core ?e 1 (sample_smp h m sample_core t) = Some s' \<and>
      map_option c_status (core_states s' 0x700) = Some CORE_STATUS_RESERVED"
    using smp_reserve_core_acknowledged [of ?e 0 "0x700" CORE_STATUS_READY sample_cpu 1 "sample_smp h m sample_core t" sample_core]
    by (fastforce simp: core_at_def sample_smp_def sample_core_def zero_core_def SMP_MAX_CORES_def)
qed

end
