(* ===== verification/Aml.thy ===== *)
theory Aml
  imports Serial
begin

text \<open>
  \<^verbatim>\<open>Kernel/drivers/aml/aml_parser.c\<close>: the parser of ACPI machine code, as far as the source has it:
  integers, strings, names and package lengths, the pools of nodes and objects, and the loop that
  collects the data objects of a stream.

  A function has its value, the flag it leaves in \<open>valid\<close>, and the new state. The stream is a part
  of the state; it is \<open>None\<close> for the null pointer, which every function answers as its first call of
  \<open>aml_next\<close> or \<open>aml_peek\<close> does. \<open>valid\<close> itself is never the null pointer. Nodes and objects are
  stores of records by address: the elements of a pool that is freed are in no store.
\<close>

subsection \<open>State\<close>

record aml_stream =
  st_start :: u64
  st_ptr :: u64
  st_end :: u64

text \<open>The stack of a frame; its other fields are not used by any function.\<close>

record aml_frame =
  frame_stack :: "u64 list"
  stack_top :: int

datatype aml_node_type = AML_NODE_NULL | AML_NODE_ROOT | AML_NODE_NAME_SEG | AML_NODE_DUAL_NAME_SEG
  | AML_NODE_MULTI_NAME_SEG | AML_NODE_NULL_NAME | AML_NODE_INTEGER | AML_NODE_STRING

text \<open>The union of a node, by the member that was last written.\<close>

datatype aml_value =
    AmlString u64 u64
  | AmlInteger u64 u8
  | AmlMulti u8 u64
  | AmlNameSeg "u8 list"
  | AmlDualNameSeg "u8 list"

record aml_node =
  node_type :: aml_node_type
  node_value :: aml_value
  n_parent :: u64
  n_child :: u64
  n_sibling :: u64
  n_object :: u64

record aml =
  a_heap :: pstate
  a_mem :: mem
  stream :: "aml_stream option"
  nodes :: "u64 \<rightharpoonup> aml_node"
  node_pool :: u64
  node_pool_cap :: u64
  node_pool_count :: u64
  objects :: "u64 \<rightharpoonup> u8 list"
  object_pool :: u64
  object_pool_cap :: u64
  object_pool_count :: u64

text \<open>What is in memory that was just allocated.\<close>

record aml_env =
  fresh_node :: "u64 \<Rightarrow> aml_node"
  fresh_object :: "u64 \<Rightarrow> u8 list"

text \<open>Sizes of the records on x86-64, and how many are in a page.\<close>

definition sizeof_aml_node :: u64 where "sizeof_aml_node = 56"
definition sizeof_aml_object :: u64 where "sizeof_aml_object = 24"
definition NODES_PER_PAGE :: u64 where "NODES_PER_PAGE = PAGE_SIZE div sizeof_aml_node"
definition OBJECTS_PER_PAGE :: u64 where "OBJECTS_PER_PAGE = PAGE_SIZE div sizeof_aml_object"

definition AML_ZERO_OP :: u8 where "AML_ZERO_OP = 0x00"
definition AML_ONE_OP :: u8 where "AML_ONE_OP = 0x01"
definition AML_BYTE_PREFIX :: u8 where "AML_BYTE_PREFIX = 0x0A"
definition AML_WORD_PREFIX :: u8 where "AML_WORD_PREFIX = 0x0B"
definition AML_DWORD_PREFIX :: u8 where "AML_DWORD_PREFIX = 0x0C"
definition AML_STRING_PREFIX :: u8 where "AML_STRING_PREFIX = 0x0D"
definition AML_QWORD_PREFIX :: u8 where "AML_QWORD_PREFIX = 0x0E"
definition AML_DUAL_NAME_PREFIX :: u8 where "AML_DUAL_NAME_PREFIX = 0x2E"
definition AML_MULTI_NAME_PREFIX :: u8 where "AML_MULTI_NAME_PREFIX = 0x2F"
definition AML_ROOT_CHAR :: u8 where "AML_ROOT_CHAR = 0x5C"
definition AML_ONES_OP :: u8 where "AML_ONES_OP = 0xFF"

subsection \<open>The stream\<close>

definition aml_peek :: "aml \<Rightarrow> (u8 \<times> bool) option" where
  "aml_peek s = (case stream s of None \<Rightarrow> Some (0, False)
     | Some st \<Rightarrow> if st_ptr st > st_end st then Some (0, False)
         else do { c \<leftarrow> a_mem s (st_ptr st); Some (c, True) })"

definition aml_next :: "aml \<Rightarrow> (u8 \<times> bool \<times> aml) option" where
  "aml_next s = (case stream s of None \<Rightarrow> Some (0, False, s)
     | Some st \<Rightarrow> if st_ptr st \<ge> st_end st then Some (0, False, s)
         else do {
           c \<leftarrow> a_mem s (st_ptr st);
           Some (c, True, s\<lparr>stream := Some (st\<lparr>st_ptr := st_ptr st + 1\<rparr>)\<rparr>)
         })"

text \<open>The end of the stream, and whether there is one.\<close>

definition aml_eof :: "aml \<Rightarrow> bool \<times> bool" where
  "aml_eof s = (case stream s of None \<Rightarrow> (True, False) | Some st \<Rightarrow> (st_ptr st \<ge> st_end st, True))"

subsection \<open>The stack of a frame\<close>

text \<open>The frame and the object may be null; the stack has 256 places.\<close>

definition aml_push :: "aml_frame option \<Rightarrow> u64 \<Rightarrow> bool \<times> aml_frame option" where
  "aml_push frame obj = (case frame of None \<Rightarrow> (False, None)
     | Some f \<Rightarrow>
         if obj = NULL \<or> stack_top f \<ge> 256 then (False, Some f)
         else (True, Some (f\<lparr>frame_stack := (frame_stack f)[nat (stack_top f) := obj], stack_top := stack_top f + 1\<rparr>)))"

definition aml_pop :: "aml_frame option \<Rightarrow> u64 \<times> bool \<times> aml_frame option" where
  "aml_pop frame = (case frame of None \<Rightarrow> (NULL, False, None)
     | Some f \<Rightarrow>
         if stack_top f = 0 then (NULL, True, Some f)
         else (frame_stack f ! nat (stack_top f - 1), True, Some (f\<lparr>stack_top := stack_top f - 1\<rparr>)))"

subsection \<open>The pools\<close>

text \<open>The elements of an array of \<open>n\<close> records of the given size at \<open>p\<close>.\<close>

definition elems :: "u64 \<Rightarrow> u64 \<Rightarrow> u64 \<Rightarrow> u64 set" where
  "elems size_of p n = (\<lambda>i. p + size_of * of_nat i) ` {..<unat n}"

definition aml_alloc :: "u64 \<Rightarrow> aml \<Rightarrow> (u64 \<times> aml) option" where
  "aml_alloc sz s = do {
     (v, _, h) \<leftarrow> avmf_alloc pager_map sz MALLOC_TYPE_KERNEL AVMF_FLAG_RW (a_heap s);
     Some (v, s\<lparr>a_heap := h\<rparr>)
   }"

definition aml_free :: "u64 \<Rightarrow> aml \<Rightarrow> aml option" where
  "aml_free a s = do { h \<leftarrow> avmf_free pager_map pager_unmap a (a_heap s); Some (s\<lparr>a_heap := h\<rparr>) }"

text \<open>
  A new array: fresh elements, and the first \<open>n\<close> of the old array copied. \<open>drop_array\<close>: the old array is freed.
\<close>

definition new_array :: "u64 \<Rightarrow> (u64 \<Rightarrow> 'a) \<Rightarrow> u64 \<Rightarrow> u64 \<Rightarrow> (u64 \<rightharpoonup> 'a) \<Rightarrow> (u64 \<rightharpoonup> 'a)" where
  "new_array size_of init p n m = (\<lambda>a. if a \<in> elems size_of p n then Some (init a) else m a)"

definition copy_array :: "u64 \<Rightarrow> u64 \<Rightarrow> u64 \<Rightarrow> u64 \<Rightarrow> (u64 \<rightharpoonup> 'a) \<Rightarrow> (u64 \<rightharpoonup> 'a)" where
  "copy_array size_of dest src n m = (\<lambda>a. if a \<in> elems size_of dest n then m (src + (a - dest)) else m a)"

definition drop_array :: "u64 \<Rightarrow> u64 \<Rightarrow> u64 \<Rightarrow> (u64 \<rightharpoonup> 'a) \<Rightarrow> (u64 \<rightharpoonup> 'a)" where
  "drop_array size_of p n m = (\<lambda>a. if a \<in> elems size_of p n then None else m a)"

definition get_new_node :: "aml_env \<Rightarrow> aml \<Rightarrow> (u64 \<times> aml) option" where
  "get_new_node e s = do {
     (ok, s) \<leftarrow>
       (if node_pool s = NULL then do {
          (p, s) \<leftarrow> aml_alloc (sizeof_aml_node * NODES_PER_PAGE) s;
          let s = s\<lparr>node_pool := p\<rparr>;
          if p = NULL then Some (False, s)
          else Some (True, s\<lparr>node_pool_cap := NODES_PER_PAGE, node_pool_count := 0,
            nodes := new_array sizeof_aml_node (fresh_node e) p NODES_PER_PAGE (nodes s)\<rparr>)
        }
        else do {
          let s = (if node_pool_cap s < node_pool_count s then s\<lparr>node_pool_count := node_pool_cap s\<rparr> else s);
          if node_pool_count s < node_pool_cap s then Some (True, s)
          else do {
            (p, s) \<leftarrow> aml_alloc (sizeof_aml_node * (node_pool_cap s + NODES_PER_PAGE)) s;
            if p = NULL then Some (False, s)
            else do {
              let m = new_array sizeof_aml_node (fresh_node e) p (node_pool_cap s + NODES_PER_PAGE) (nodes s);
              let m = copy_array sizeof_aml_node p (node_pool s) (node_pool_count s) m;
              s \<leftarrow> aml_free (node_pool s) s;
              Some (True, s\<lparr>nodes := drop_array sizeof_aml_node (node_pool s) (node_pool_cap s) m,
                node_pool := p, node_pool_cap := node_pool_cap s + NODES_PER_PAGE\<rparr>)
            }
          }
        });
     if ok then Some (node_pool s + sizeof_aml_node * node_pool_count s, s\<lparr>node_pool_count := node_pool_count s + 1\<rparr>)
     else Some (NULL, s)
   }"

definition get_new_object :: "aml_env \<Rightarrow> aml \<Rightarrow> (u64 \<times> aml) option" where
  "get_new_object e s = do {
     (ok, s) \<leftarrow>
       (if object_pool s = NULL then do {
          (p, s) \<leftarrow> aml_alloc (sizeof_aml_object * OBJECTS_PER_PAGE) s;
          let s = s\<lparr>object_pool := p\<rparr>;
          if p = NULL then Some (False, s)
          else Some (True, s\<lparr>object_pool_cap := OBJECTS_PER_PAGE, object_pool_count := 0,
            objects := new_array sizeof_aml_object (fresh_object e) p OBJECTS_PER_PAGE (objects s)\<rparr>)
        }
        else do {
          let s = (if object_pool_cap s < object_pool_count s then s\<lparr>object_pool_count := object_pool_cap s\<rparr> else s);
          if object_pool_count s < object_pool_cap s then Some (True, s)
          else do {
            (p, s) \<leftarrow> aml_alloc (sizeof_aml_object * (object_pool_cap s + OBJECTS_PER_PAGE)) s;
            if p = NULL then Some (False, s)
            else do {
              let m = new_array sizeof_aml_object (fresh_object e) p (object_pool_cap s + OBJECTS_PER_PAGE) (objects s);
              let m = copy_array sizeof_aml_object p (object_pool s) (object_pool_count s) m;
              s \<leftarrow> aml_free (object_pool s) s;
              Some (True, s\<lparr>objects := drop_array sizeof_aml_object (object_pool s) (object_pool_cap s) m,
                object_pool := p, object_pool_cap := object_pool_cap s + OBJECTS_PER_PAGE\<rparr>)
            }
          }
        });
     if ok then Some (object_pool s + sizeof_aml_object * object_pool_count s, s\<lparr>object_pool_count := object_pool_count s + 1\<rparr>)
     else Some (NULL, s)
   }"

definition upd_node :: "u64 \<Rightarrow> (aml_node \<Rightarrow> aml_node) \<Rightarrow> aml \<Rightarrow> aml option" where
  "upd_node p f s = do { n \<leftarrow> nodes s p; Some (s\<lparr>nodes := (nodes s)(p \<mapsto> f n)\<rparr>) }"

text \<open>The end of every parsing function: a node of a type with a value.\<close>

definition new_node :: "aml_env \<Rightarrow> (aml_node \<Rightarrow> aml_node) \<Rightarrow> aml \<Rightarrow> (u64 \<times> bool \<times> aml) option" where
  "new_node e f s = do {
     (n, s) \<leftarrow> get_new_node e s;
     if n = NULL then Some (NULL, False, s)
     else do { s \<leftarrow> upd_node n f s; Some (n, True, s) }
   }"

subsection \<open>Package lengths and numbers\<close>

text \<open>\<open>next_le k i x\<close> reads \<open>k\<close> bytes, the first of which is moved up by \<open>i\<close> bits.\<close>

fun next_le :: "nat \<Rightarrow> nat \<Rightarrow> u64 \<Rightarrow> aml \<Rightarrow> (u64 \<times> bool \<times> aml) option" where
  "next_le 0 i x s = Some (x, True, s)"
| "next_le (Suc k) i x s = do {
     (b, v, s) \<leftarrow> aml_next s;
     if \<not> v then Some (0, False, s)
     else next_le k (i + 8) (x OR push_bit i (ucast b)) s
   }"

definition aml_parse_pkglen :: "aml \<Rightarrow> (u32 \<times> bool \<times> aml) option" where
  "aml_parse_pkglen s = do {
     (lead, v, s) \<leftarrow> aml_next s;
     if \<not> v then Some (0, False, s)
     else
       let bytes_follow = drop_bit 6 lead in
       if bytes_follow = 0 then Some (ucast (lead AND 0x3F), True, s)
       else if bytes_follow > 3 then Some (0, False, s)
       else if drop_bit 4 lead AND 3 \<noteq> 0 then Some (0, False, s)
       else do {
         (x, v, s) \<leftarrow> next_le (unat bytes_follow) 4 (ucast (lead AND 0x0F)) s;
         Some (ucast x, v, s)
       }
   }"

definition aml_parse_byte :: "aml \<Rightarrow> (u8 \<times> bool \<times> aml) option" where
  "aml_parse_byte s = aml_next s"

definition aml_parse_word :: "aml \<Rightarrow> (u16 \<times> bool \<times> aml) option" where
  "aml_parse_word s = do { (x, v, s) \<leftarrow> next_le 2 0 0 s; Some (ucast x, v, s) }"

definition aml_parse_dword :: "aml \<Rightarrow> (u32 \<times> bool \<times> aml) option" where
  "aml_parse_dword s = do { (x, v, s) \<leftarrow> next_le 4 0 0 s; Some (ucast x, v, s) }"

definition aml_parse_qword :: "aml \<Rightarrow> (u64 \<times> bool \<times> aml) option" where
  "aml_parse_qword s = next_le 8 0 0 s"

subsection \<open>Constants\<close>

definition prefix_is :: "u8 \<Rightarrow> aml \<Rightarrow> (bool \<times> aml) option" where
  "prefix_is op s = do { (c, v, s) \<leftarrow> aml_next s; Some (c = op \<and> v, s) }"

definition integer_node :: "u64 \<Rightarrow> u8 \<Rightarrow> aml_node \<Rightarrow> aml_node" where
  "integer_node x n = (\<lambda>nd. nd\<lparr>node_type := AML_NODE_INTEGER, node_value := AmlInteger x n\<rparr>)"

definition parse_const :: "u8 \<Rightarrow> u64 \<Rightarrow> aml_env \<Rightarrow> aml \<Rightarrow> (u64 \<times> bool \<times> aml) option" where
  "parse_const op x e s = do {
     (ok, s) \<leftarrow> prefix_is op s;
     if ok then new_node e (integer_node x 1) s else Some (NULL, False, s)
   }"

definition aml_parse_zero_const :: "aml_env \<Rightarrow> aml \<Rightarrow> (u64 \<times> bool \<times> aml) option" where
  "aml_parse_zero_const = parse_const AML_ZERO_OP 0"

definition aml_parse_one_const :: "aml_env \<Rightarrow> aml \<Rightarrow> (u64 \<times> bool \<times> aml) option" where
  "aml_parse_one_const = parse_const AML_ONE_OP 1"

definition aml_parse_ones_const :: "aml_env \<Rightarrow> aml \<Rightarrow> (u64 \<times> bool \<times> aml) option" where
  "aml_parse_ones_const = parse_const AML_ONES_OP UINT64_MAX"

definition parse_number ::
  "u8 \<Rightarrow> u8 \<Rightarrow> (aml \<Rightarrow> ('n::len word \<times> bool \<times> aml) option) \<Rightarrow> aml_env \<Rightarrow> aml \<Rightarrow> (u64 \<times> bool \<times> aml) option" where
  "parse_number op bytes number e s = do {
     (ok, s) \<leftarrow> prefix_is op s;
     if \<not> ok then Some (NULL, False, s)
     else do {
       (x, v, s) \<leftarrow> number s;
       if v then new_node e (integer_node (ucast x) bytes) s else Some (NULL, False, s)
     }
   }"

definition aml_parse_byte_const :: "aml_env \<Rightarrow> aml \<Rightarrow> (u64 \<times> bool \<times> aml) option" where
  "aml_parse_byte_const = parse_number AML_BYTE_PREFIX 1 aml_parse_byte"

definition aml_parse_word_const :: "aml_env \<Rightarrow> aml \<Rightarrow> (u64 \<times> bool \<times> aml) option" where
  "aml_parse_word_const = parse_number AML_WORD_PREFIX 2 aml_parse_word"

definition aml_parse_dword_const :: "aml_env \<Rightarrow> aml \<Rightarrow> (u64 \<times> bool \<times> aml) option" where
  "aml_parse_dword_const = parse_number AML_DWORD_PREFIX 4 aml_parse_dword"

definition aml_parse_qword_const :: "aml_env \<Rightarrow> aml \<Rightarrow> (u64 \<times> bool \<times> aml) option" where
  "aml_parse_qword_const = parse_number AML_QWORD_PREFIX 8 aml_parse_qword"

subsection \<open>Strings\<close>

text \<open>How much of the stream is left: each call of \<open>aml_next\<close> that succeeds takes one byte.\<close>

definition remaining :: "aml \<Rightarrow> nat" where
  "remaining s = (case stream s of None \<Rightarrow> 0 | Some st \<Rightarrow> unat (st_end st) - unat (st_ptr st))"

lemma aml_next_remaining:
  assumes "aml_next s = Some (c, True, s')"
  shows "remaining s = Suc (remaining s')"
proof -
  obtain st where st: "stream s = Some st" "st_ptr st < st_end st"
    "s' = s\<lparr>stream := Some (st\<lparr>st_ptr := st_ptr st + 1\<rparr>)\<rparr>"
    using assms by (auto simp: aml_next_def bind_eq_Some_conv split: option.splits if_splits)
  then have "unat (st_ptr st + 1) = Suc (unat (st_ptr st))"
    by unat_arith
  then show ?thesis using st by (simp add: remaining_def word_less_nat_alt)
qed

text \<open>Whether the end of a string was found. Both errors and a missing end are answered in the same way.\<close>

function string_loop :: "aml \<Rightarrow> (bool \<times> aml) option" where
  "string_loop s =
     (if fst (aml_eof s) then Some (False, s)
      else do {
        (c, v, s) \<leftarrow> aml_next s;
        if \<not> v then Some (False, s)
        else if c = 0 then Some (True, s)
        else if c > 0x7F then Some (False, s)
        else string_loop s
      })"
  by pat_completeness auto
termination
  by (relation "measure remaining") (auto dest: aml_next_remaining)

declare string_loop.simps [simp del]

definition ptr_of :: "aml \<Rightarrow> u64" where
  "ptr_of s = (case stream s of None \<Rightarrow> NULL | Some st \<Rightarrow> st_ptr st)"

definition aml_parse_string_const :: "aml_env \<Rightarrow> aml \<Rightarrow> (u64 \<times> bool \<times> aml) option" where
  "aml_parse_string_const e s = do {
     (ok, s) \<leftarrow> prefix_is AML_STRING_PREFIX s;
     if \<not> ok then Some (NULL, False, s)
     else do {
       let start = ptr_of s;
       (terminated, s) \<leftarrow> string_loop s;
       if \<not> terminated then Some (NULL, False, s)
       else new_node e (\<lambda>nd. nd\<lparr>node_type := AML_NODE_STRING,
         node_value := AmlString start (ptr_of s - start - 1)\<rparr>) s
     }
   }"

subsection \<open>Names\<close>

definition aml_is_lead_name_char :: "u8 \<Rightarrow> bool" where
  "aml_is_lead_name_char c \<longleftrightarrow> 0x41 \<le> c \<and> c \<le> 0x5A \<or> c = 0x5F"

definition aml_is_name_char :: "u8 \<Rightarrow> bool" where
  "aml_is_name_char c \<longleftrightarrow> aml_is_lead_name_char c \<or> 0x30 \<le> c \<and> c \<le> 0x39"

text \<open>Characters that pass the given tests.\<close>

fun next_chars :: "(u8 \<Rightarrow> bool) list \<Rightarrow> aml \<Rightarrow> (u8 list option \<times> aml) option" where
  "next_chars [] s = Some (Some [], s)"
| "next_chars (p # ps) s = do {
     (c, v, s) \<leftarrow> aml_next s;
     if \<not> v \<or> \<not> p c then Some (None, s)
     else do {
       (cs, s) \<leftarrow> next_chars ps s;
       Some (map_option ((#) c) cs, s)
     }
   }"

definition name_seg :: "(u8 \<Rightarrow> bool) list" where
  "name_seg = [aml_is_lead_name_char, aml_is_name_char, aml_is_name_char, aml_is_name_char]"

definition aml_parse_nameseg :: "aml_env \<Rightarrow> aml \<Rightarrow> (u64 \<times> bool \<times> aml) option" where
  "aml_parse_nameseg e s = do {
     (cs, s) \<leftarrow> next_chars name_seg s;
     case cs of None \<Rightarrow> Some (NULL, False, s)
     | Some cs \<Rightarrow> new_node e (\<lambda>nd. nd\<lparr>node_type := AML_NODE_NAME_SEG, node_value := AmlNameSeg (cs @ [0])\<rparr>) s
   }"

definition aml_parse_dual_namepath :: "aml_env \<Rightarrow> aml \<Rightarrow> (u64 \<times> bool \<times> aml) option" where
  "aml_parse_dual_namepath e s = do {
     (ok, s) \<leftarrow> prefix_is AML_DUAL_NAME_PREFIX s;
     if \<not> ok then Some (NULL, False, s)
     else do {
       (cs, s) \<leftarrow> next_chars (name_seg @ name_seg) s;
       case cs of None \<Rightarrow> Some (NULL, False, s)
       | Some cs \<Rightarrow> new_node e (\<lambda>nd. nd\<lparr>node_type := AML_NODE_DUAL_NAME_SEG,
           node_value := AmlDualNameSeg (cs @ [0])\<rparr>) s
     }
   }"

text \<open>
  The segments of a path: \<open>got\<close> segments and \<open>k\<close> characters of the next one were read. The end of
  the stream ends the loop without an error.
\<close>

function multi_loop :: "u8 \<Rightarrow> u8 \<Rightarrow> u8 \<Rightarrow> aml \<Rightarrow> (bool \<times> aml) option" where
  "multi_loop segments got k s =
     (if fst (aml_eof s) then Some (True, s)
      else do {
        (c, v, s) \<leftarrow> aml_next s;
        if \<not> v then Some (False, s)
        else if \<not> (if k = 0 then aml_is_lead_name_char c else aml_is_name_char c) then Some (False, s)
        else if k + 1 \<noteq> 4 then multi_loop segments got (k + 1) s
        else if got + 1 = segments then Some (True, s)
        else multi_loop segments (got + 1) 0 s
      })"
  by pat_completeness auto
termination
  by (relation "measure (\<lambda>(_, _, _, s). remaining s)") (auto dest: aml_next_remaining)

declare multi_loop.simps [simp del]

definition aml_parse_multi_namepath :: "aml_env \<Rightarrow> aml \<Rightarrow> (u64 \<times> bool \<times> aml) option" where
  "aml_parse_multi_namepath e s = do {
     (ok, s) \<leftarrow> prefix_is AML_MULTI_NAME_PREFIX s;
     if \<not> ok then Some (NULL, False, s)
     else do {
       (segments, v, s) \<leftarrow> aml_next s;
       if \<not> v \<or> segments < 1 then Some (NULL, False, s)
       else do {
         let start = ptr_of s;
         (ok, s) \<leftarrow> multi_loop segments 0 0 s;
         if \<not> ok then Some (NULL, False, s)
         else new_node e (\<lambda>nd. nd\<lparr>node_type := AML_NODE_MULTI_NAME_SEG, node_value := AmlMulti segments start\<rparr>) s
       }
     }
   }"

definition aml_parse_null_namepath :: "aml_env \<Rightarrow> aml \<Rightarrow> (u64 \<times> bool \<times> aml) option" where
  "aml_parse_null_namepath e s = do {
     (ok, s) \<leftarrow> prefix_is 0 s;
     if ok then new_node e (\<lambda>nd. nd\<lparr>node_type := AML_NODE_NULL_NAME\<rparr>) s else Some (NULL, False, s)
   }"

definition aml_parse_namepath :: "aml_env \<Rightarrow> aml \<Rightarrow> (u64 \<times> bool \<times> aml) option" where
  "aml_parse_namepath e s = do {
     (enc, v) \<leftarrow> aml_peek s;
     if \<not> v then Some (NULL, False, s)
     else if enc = AML_DUAL_NAME_PREFIX then aml_parse_dual_namepath e s
     else if enc = AML_MULTI_NAME_PREFIX then aml_parse_multi_namepath e s
     else if enc = 0 then aml_parse_null_namepath e s
     else aml_parse_nameseg e s
   }"

subsection \<open>Data objects and the loop\<close>

definition aml_parse_data_object :: "aml_env \<Rightarrow> aml \<Rightarrow> (u64 \<times> bool \<times> aml) option" where
  "aml_parse_data_object e s = do {
     (enc, v) \<leftarrow> aml_peek s;
     if \<not> v then Some (NULL, False, s)
     else if enc = AML_ZERO_OP then aml_parse_zero_const e s
     else if enc = AML_ONE_OP then aml_parse_one_const e s
     else if enc = AML_ONES_OP then aml_parse_ones_const e s
     else if enc = AML_BYTE_PREFIX then aml_parse_byte_const e s
     else if enc = AML_WORD_PREFIX then aml_parse_word_const e s
     else if enc = AML_DWORD_PREFIX then aml_parse_dword_const e s
     else if enc = AML_QWORD_PREFIX then aml_parse_qword_const e s
     else if enc = AML_STRING_PREFIX then aml_parse_string_const e s
     else Some (NULL, False, s)
   }"

definition data_ops :: "u8 list" where
  "data_ops = [AML_ZERO_OP, AML_ONE_OP, AML_ONES_OP, AML_BYTE_PREFIX, AML_WORD_PREFIX, AML_DWORD_PREFIX,
     AML_QWORD_PREFIX, AML_STRING_PREFIX]"

text \<open>An opcode that is not one of data gives the null pointer and is valid; it is not taken off the stream.\<close>

definition aml_parse_term :: "aml_env \<Rightarrow> u64 \<Rightarrow> aml \<Rightarrow> (u64 \<times> bool \<times> aml) option" where
  "aml_parse_term e parent s =
     (if stream s = None \<or> parent = NULL then Some (NULL, False, s)
      else do {
        (op, v) \<leftarrow> aml_peek s;
        if \<not> v then Some (NULL, False, s)
        else if op \<in> set data_ops then do {
          (n, _, s) \<leftarrow> aml_parse_data_object e s;
          if n = NULL then Some (NULL, False, s)
          else do { s \<leftarrow> upd_node n (\<lambda>nd. nd\<lparr>n_parent := parent\<rparr>) s; Some (n, True, s) }
        }
        else Some (NULL, True, s)
      })"

text \<open>
  The loop may go round forever, so its result and that of \<open>aml_parse\<close> is an option of the others'
  kind of result: \<open>None\<close> if it does not return, \<open>Some None\<close> if it faults.
\<close>

partial_function (option) parse_loop :: "aml_env \<Rightarrow> u64 \<Rightarrow> u64 \<Rightarrow> aml \<Rightarrow> (bool \<times> aml) option option" where
  "parse_loop e n prev_node s =
     (if fst (aml_eof s) \<or> \<not> snd (aml_eof s) then Some (Some (True, s))
      else case aml_parse_term e n s of
        None \<Rightarrow> Some None
      | Some (c, v, s) \<Rightarrow>
          if \<not> v then Some (Some (False, s))
          else if c = NULL then parse_loop e n prev_node s
          else case (if prev_node = NULL then upd_node n (\<lambda>nd. nd\<lparr>n_child := c\<rparr>) s
                else upd_node prev_node (\<lambda>nd. nd\<lparr>n_sibling := c\<rparr>) s) of
            None \<Rightarrow> Some None
          | Some s \<Rightarrow> parse_loop e n c s)"

definition aml_parse :: "aml_env \<Rightarrow> u64 \<Rightarrow> aml \<Rightarrow> (u64 \<times> bool \<times> aml) option option" where
  "aml_parse e parent s =
     (if stream s = None then Some (Some (NULL, False, s))
      else case new_node e (\<lambda>nd. if parent \<noteq> NULL then nd\<lparr>node_type := AML_NODE_NULL, n_parent := parent\<rparr>
             else nd\<lparr>node_type := AML_NODE_NULL\<rparr>) s of
        None \<Rightarrow> Some None
      | Some (n, v, s) \<Rightarrow>
          if \<not> v then Some (Some (NULL, False, s))
          else do {
            r \<leftarrow> parse_loop e n NULL s;
            Some (do { (ok, s) \<leftarrow> r; Some (if ok then (n, True, s) else (NULL, False, s)) })
          })"

definition aml_parse_root :: "aml_env \<Rightarrow> aml \<Rightarrow> (u64 \<times> bool \<times> aml) option option" where
  "aml_parse_root e s =
     (case prefix_is AML_ROOT_CHAR s of
        None \<Rightarrow> Some None
      | Some (ok, s) \<Rightarrow>
          if \<not> ok then Some (Some (NULL, False, s))
          else case new_node e (\<lambda>nd. nd\<lparr>node_type := AML_NODE_ROOT\<rparr>) s of
            None \<Rightarrow> Some None
          | Some (n, v, s) \<Rightarrow>
              if \<not> v then Some (Some (NULL, False, s))
              else do {
                r \<leftarrow> aml_parse e n s;
                Some (do {
                  (children, v, s) \<leftarrow> r;
                  if \<not> v \<or> children = NULL then Some (NULL, False, s)
                  else do { s \<leftarrow> upd_node n (\<lambda>nd. nd\<lparr>n_child := children\<rparr>) s; Some (n, True, s) }
                })
              })"

end
