(* ===== verification/AmlSpec.thy ===== *)
theory AmlSpec
  imports Aml
begin

text \<open>
  What \<open>Aml\<close> does: data objects and package lengths are read back from their encodings, and the
  loop returns exactly when it never meets an opcode that is not one of data.
\<close>

subsection \<open>Reading a stream\<close>

fun bytes_at :: "mem \<Rightarrow> u64 \<Rightarrow> u8 list \<Rightarrow> bool" where
  "bytes_at m a [] \<longleftrightarrow> True"
| "bytes_at m a (b # bs) \<longleftrightarrow> m a = Some b \<and> bytes_at m (a + 1) bs"

text \<open>What is left of the stream is exactly \<open>bs\<close>.\<close>

definition input :: "aml \<Rightarrow> u8 list \<Rightarrow> bool" where
  "input s bs \<longleftrightarrow> (\<exists>st. stream s = Some st \<and> bytes_at (a_mem s) (st_ptr st) bs \<and>
     unat (st_end st) = unat (st_ptr st) + length bs)"

definition advance :: "nat \<Rightarrow> aml \<Rightarrow> aml" where
  "advance n s = s\<lparr>stream := map_option (\<lambda>st. st\<lparr>st_ptr := st_ptr st + of_nat n\<rparr>) (stream s)\<rparr>"

lemma advance_0 [simp]: "advance 0 s = s"
  by (cases "stream s") (auto simp: advance_def)

lemma advance_advance [simp]: "advance m (advance n s) = advance (n + m) s"
  by (cases "stream s") (auto simp: advance_def add.assoc)

lemma advance_simps [simp]:
  "nodes (advance n s) = nodes s" "node_pool (advance n s) = node_pool s" "a_mem (advance n s) = a_mem s"
  "node_pool_cap (advance n s) = node_pool_cap s" "node_pool_count (advance n s) = node_pool_count s"
  by (simp_all add: advance_def)

lemma ptr_of_advance: "stream s \<noteq> None \<Longrightarrow> ptr_of (advance n s) = ptr_of s + of_nat n"
  by (auto simp: ptr_of_def advance_def)

lemma input_stream: "input s bs \<Longrightarrow> stream s \<noteq> None"
  by (auto simp: input_def)

lemma input_next:
  assumes "input s (b # bs)"
  shows "aml_next s = Some (b, True, advance 1 s)" "input (advance 1 s) bs"
    "aml_peek s = Some (b, True)" "aml_eof s = (False, True)"
proof -
  obtain st where st: "stream s = Some st" "a_mem s (st_ptr st) = Some b" "bytes_at (a_mem s) (st_ptr st + 1) bs"
    "unat (st_end st) = unat (st_ptr st) + Suc (length bs)"
    using assms by (auto simp: input_def)
  then have lt: "st_ptr st < st_end st" by (simp add: word_less_nat_alt)
  then have "unat (st_ptr st + 1) = Suc (unat (st_ptr st))" by unat_arith
  with st lt show "aml_next s = Some (b, True, advance 1 s)" "input (advance 1 s) bs"
      "aml_peek s = Some (b, True)" "aml_eof s = (False, True)"
    by (auto simp: aml_next_def aml_peek_def aml_eof_def advance_def input_def)
qed

lemma input_end:
  assumes "input s []"
  shows "aml_next s = Some (0, False, s)" "aml_eof s = (True, True)"
  using assms by (auto simp: input_def aml_next_def aml_eof_def word_le_nat_alt)

lemma input_advance: "input s (xs @ bs) \<Longrightarrow> input (advance (length xs) s) bs"
proof (induction xs arbitrary: s)
  case (Cons x xs)
  then show ?case using Cons.IH [of "advance 1 s"] input_next(2) by fastforce
qed simp

lemma prefix_is_input:
  assumes "input s (b # bs)"
  shows "prefix_is op s = Some (b = op, advance 1 s)"
  using input_next(1) [OF assms] by (simp add: prefix_is_def)

subsection \<open>Numbers\<close>

fun le_or :: "nat \<Rightarrow> u64 \<Rightarrow> u8 list \<Rightarrow> u64" where
  "le_or i x [] = x"
| "le_or i x (b # bs) = le_or (i + 8) (x OR push_bit i (ucast b)) bs"

lemma next_le_input:
  "input s (bs @ rest) \<Longrightarrow> next_le (length bs) i x s = Some (le_or i x bs, True, advance (length bs) s)"
proof (induction bs arbitrary: s i x)
  case (Cons b bs)
  then show ?case
    using input_next [of s b "bs @ rest"] Cons.IH [of "advance 1 s"] by simp
qed simp

lemma next_le_short:
  "input s bs \<Longrightarrow> length bs < k \<Longrightarrow> \<exists>s'. next_le k i x s = Some (0, False, s')"
proof (induction k arbitrary: s bs i x)
  case (Suc k)
  show ?case
  proof (cases bs)
    case Nil
    then show ?thesis using Suc.prems input_end [of s] by simp
  next
    case (Cons b bs')
    then show ?thesis
      using Suc.prems input_next(1,2) [of s b bs'] Suc.IH [of "advance 1 s" bs' "i + 8" "x OR push_bit i (ucast b)"] by simp
  qed
qed simp

text \<open>The bytes of a number, the lowest first.\<close>

definition le_bytes :: "nat \<Rightarrow> 'a::len word \<Rightarrow> u8 list" where
  "le_bytes k x = map (\<lambda>i. ucast (drop_bit (8 * i) x)) [0..<k]"

lemma length_le_bytes [simp]: "length (le_bytes k x) = k"
  by (simp add: le_bytes_def)

lemma bit_le_or:
  "bit (le_or i x bs) n \<longleftrightarrow> bit x n \<or> n < 64 \<and> i \<le> n \<and> n - i < 8 * length bs \<and> bit (bs ! ((n - i) div 8)) ((n - i) mod 8)"
proof (induction bs arbitrary: i x)
  case (Cons b bs)
  show ?case
  proof (cases "i + 8 \<le> n")
    case True
    then obtain k where k: "n = i + 8 + k" using le_Suc_ex by blast
    then have "\<not> bit b (8 + k)" using bit_imp_le_length [of b "8 + k"] by auto
    moreover have "(8 + k) div 8 = Suc (k div 8)" by simp
    ultimately show ?thesis using k Cons.IH by (auto simp: bit_simps)
  next
    case False
    then show ?thesis
      using Cons.IH by (auto simp: bit_simps dest: bit_imp_le_length)
  qed
qed simp

lemma le_or_le_bytes:
  fixes x :: "'a::len word"
  assumes "LENGTH('a) = 8 * k" "k \<le> 8"
  shows "ucast (le_or 0 0 (le_bytes k x)) = x"
proof (rule bit_word_eqI)
  fix n assume "n < LENGTH('a)"
  then show "bit (ucast (le_or 0 0 (le_bytes k x)) :: 'a word) n \<longleftrightarrow> bit x n"
    using assms by (simp add: bit_simps bit_le_or le_bytes_def less_mult_imp_div_less)
qed

lemma le_bytes_le_or:
  assumes "length bs = k" "LENGTH('a) = 8 * k" "k \<le> 8"
  shows "le_bytes k (ucast (le_or 0 0 bs) :: 'a::len word) = bs"
proof (rule nth_equalityI)
  fix i assume i: "i < length (le_bytes k (ucast (le_or 0 0 bs) :: 'a word))"
  show "le_bytes k (ucast (le_or 0 0 bs) :: 'a word) ! i = bs ! i"
  proof (rule bit_word_eqI)
    fix n assume "n < LENGTH(8)"
    then show "bit (le_bytes k (ucast (le_or 0 0 bs) :: 'a word) ! i) n \<longleftrightarrow> bit (bs ! i) n"
      using i assms by (simp add: le_bytes_def bit_simps bit_le_or)
  qed
qed (simp add: assms)

subsection \<open>Package lengths\<close>

text \<open>The encoding of a length: the number of further bytes in the upper two bits, then the length.\<close>

definition pkglen :: "u32 \<Rightarrow> u8 list" where
  "pkglen n = (if n < 0x40 then [ucast n]
     else let k = (if n < 0x1000 then 1 else if n < 0x100000 then 2 else 3)
       in (push_bit 6 (of_nat k) OR (ucast n AND 0x0F)) # le_bytes k (drop_bit 4 n))"

lemma low_bits:
  "(x :: u8) AND 0x0F = take_bit 4 x" "(x :: u8) AND 0x3F = take_bit 6 x" "(x :: u8) AND 3 = take_bit 2 x"
  by (simp_all add: take_bit_eq_mask mask_eq_exp_minus_1)

lemma bit_below:
  fixes x :: "'a::len word"
  assumes "unat x < 2 ^ m" "bit x i"
  shows "i < m"
proof -
  have "take_bit m x = x"
    using assms(1) by (simp add: word_unat_eq_iff unsigned_take_bit_eq take_bit_nat_eq_self)
  then show ?thesis using assms(2) by (metis bit_take_bit_iff)
qed

lemma le_or_part:
  assumes "unat n < 2 ^ (4 + 8 * k)" "k \<le> 3"
  shows "ucast (le_or 4 (ucast ((ucast n :: u8) AND 0x0F)) (le_bytes k (drop_bit 4 n))) = (n :: u32)"
proof (rule bit_word_eqI)
  fix i assume i: "i < LENGTH(32)"
  have n: "bit n i \<longleftrightarrow> i < 4 + 8 * k \<and> bit n i" using bit_below [OF assms(1)] by blast
  show "bit (ucast (le_or 4 (ucast ((ucast n :: u8) AND 0x0F)) (le_bytes k (drop_bit 4 n))) :: u32) i \<longleftrightarrow> bit n i"
  proof (cases "i < 4")
    case True
    then show ?thesis unfolding low_bits by (simp add: bit_simps bit_le_or)
  next
    case False
    then obtain j where j: "i = 4 + j" using le_Suc_ex not_less by blast
    then show ?thesis using i assms(2) n unfolding low_bits
      by (auto simp: bit_simps bit_le_or le_bytes_def less_mult_imp_div_less add.commute)
  qed
qed

text \<open>C31: every package length below 2^28 is read back from its encoding, which is taken off the stream.\<close>

theorem aml_parse_pkglen_roundtrip:
  assumes "input s (pkglen n @ rest)" "n < 0x10000000"
  shows "aml_parse_pkglen s = Some (n, True, advance (length (pkglen n)) s)"
proof (cases "n < 0x40")
  case True
  then have b: "bit n i \<Longrightarrow> i < 6" for i by (intro bit_below [of n 6]) (simp add: word_less_nat_alt)
  have "drop_bit 6 (ucast n :: u8) = 0" "ucast ((ucast n :: u8) AND 0x3F) = n"
    unfolding low_bits by (rule bit_word_eqI; use b in \<open>fastforce simp: bit_simps\<close>)+
  then show ?thesis
    using assms(1) True input_next(1) [of s] by (simp add: aml_parse_pkglen_def pkglen_def)
next
  case False
  define k :: nat where "k = (if n < 0x1000 then 1 else if n < 0x100000 then 2 else 3)"
  define lead :: u8 where "lead = push_bit 6 (of_nat k) OR (ucast n AND 0x0F)"
  have p: "pkglen n = lead # le_bytes k (drop_bit 4 n)" using False by (simp add: pkglen_def k_def lead_def Let_def)
  have k: "k \<in> {1, 2, 3}" by (simp add: k_def)
  then have l: "drop_bit 6 lead = of_nat k" "drop_bit 4 lead AND 3 = 0" "lead AND 0x0F = ucast n AND 0x0F"
  proof -
    have b: "bit (of_nat k :: u8) i \<Longrightarrow> i < 2" for i
      using k by (intro bit_below [of "of_nat k" 2]) auto
    show "drop_bit 6 lead = of_nat k" "drop_bit 4 lead AND 3 = 0" "lead AND 0x0F = ucast n AND 0x0F"
      unfolding lead_def low_bits by (rule bit_word_eqI; use b in \<open>fastforce simp: bit_simps\<close>)+
  qed
  have "unat n < 2 ^ (4 + 8 * k)"
    using assms(2) by (auto simp: k_def word_less_nat_alt)
  then have "ucast (le_or 4 (ucast ((ucast n :: u8) AND 0x0F)) (le_bytes k (drop_bit 4 n))) = n"
    using k by (intro le_or_part) auto
  moreover have "next_le k 4 (ucast ((ucast n :: u8) AND 0x0F)) (advance 1 s) =
      Some (le_or 4 (ucast ((ucast n :: u8) AND 0x0F)) (le_bytes k (drop_bit 4 n)), True, advance k (advance 1 s))"
    using assms(1) next_le_input [of "advance 1 s" "le_bytes k (drop_bit 4 n)" rest]
      input_next(2) [of s lead "le_bytes k (drop_bit 4 n) @ rest"] by (simp add: p)
  moreover have "aml_next s = Some (lead, True, advance 1 s)" using assms(1) input_next(1) [of s] by (simp add: p)
  ultimately show ?thesis using k by (auto simp: aml_parse_pkglen_def p l)
qed

subsection \<open>Nodes\<close>

text \<open>There are \<open>k\<close> more places in the pool of nodes, which neither wraps around nor has holes.\<close>

definition slot :: "aml \<Rightarrow> nat \<Rightarrow> u64" where
  "slot s i = node_pool s + sizeof_aml_node * of_nat i"

definition pool_room :: "aml \<Rightarrow> nat \<Rightarrow> bool" where
  "pool_room s k \<longleftrightarrow> node_pool s \<noteq> NULL \<and> unat (node_pool_count s) + k \<le> unat (node_pool_cap s) \<and>
     unat (node_pool s) + 56 * unat (node_pool_cap s) < 2 ^ 64 \<and>
     (\<forall>i < unat (node_pool_cap s). nodes s (slot s i) \<noteq> None)"

definition next_slot :: "aml \<Rightarrow> u64" where
  "next_slot s = slot s (unat (node_pool_count s))"

text \<open>The places that are still free.\<close>

definition free_slots :: "aml \<Rightarrow> u64 set" where
  "free_slots s = slot s ` {unat (node_pool_count s)..<unat (node_pool_cap s)}"

text \<open>The state after the next place was taken and its node changed by \<open>f\<close>.\<close>

definition placed :: "(aml_node \<Rightarrow> aml_node) \<Rightarrow> aml \<Rightarrow> aml" where
  "placed f s = s\<lparr>node_pool_count := node_pool_count s + 1,
     nodes := (nodes s)(next_slot s \<mapsto> f (the (nodes s (next_slot s))))\<rparr>"

lemma placed_simps [simp]:
  "stream (placed f s) = stream s" "a_mem (placed f s) = a_mem s" "node_pool (placed f s) = node_pool s"
  "node_pool_cap (placed f s) = node_pool_cap s"
  "nodes (placed f s) = (nodes s)(next_slot s \<mapsto> f (the (nodes s (next_slot s))))"
  by (simp_all add: placed_def)

lemma pool_room_advance [simp]: "pool_room (advance n s) k = pool_room s k" "next_slot (advance n s) = next_slot s"
  "free_slots (advance n s) = free_slots s"
  by (simp_all add: pool_room_def slot_def next_slot_def free_slots_def)

lemma unat_slot:
  assumes "pool_room s k" "i < unat (node_pool_cap s)"
  shows "unat (slot s i) = unat (node_pool s) + 56 * i"
proof -
  have "unat (of_nat i :: u64) = i" using assms(2) u64_lt [of "node_pool_cap s"] by (intro unat_of_nat_u64) simp
  then show ?thesis
    using assms by (simp add: slot_def sizeof_aml_node_def pool_room_def unat_arith_rules)
qed

lemma new_node_room:
  assumes "pool_room s (Suc k)"
  shows "new_node e f s = Some (next_slot s, True, placed f s)" "next_slot s \<noteq> NULL" "next_slot s \<in> free_slots s"
    "pool_room (placed f s) k" "free_slots (placed f s) = free_slots s - {next_slot s}" "nodes s (next_slot s) \<noteq> None"
proof -
  let ?c = "node_pool_count s"
  have c: "unat ?c < unat (node_pool_cap s)" "?c < node_pool_cap s" "node_pool s \<noteq> NULL"
    using assms by (auto simp: pool_room_def word_less_nat_alt)
  have c1: "unat (?c + 1) = Suc (unat ?c)" using c(2) by unat_arith
  have u: "unat (slot s i) = unat (node_pool s) + 56 * i" if "i < unat (node_pool_cap s)" for i
    using unat_slot [OF assms that] .
  show nz: "next_slot s \<noteq> NULL"
    using u [OF c(1)] c(3) by (metis add_is_0 next_slot_def unat_0 unat_eq_0)
  show ex: "nodes s (next_slot s) \<noteq> None" using assms c(1) by (simp add: pool_room_def next_slot_def)
  show "next_slot s \<in> free_slots s" using c(1) by (simp add: free_slots_def next_slot_def)
  have g: "get_new_node e s = Some (next_slot s, s\<lparr>node_pool_count := ?c + 1\<rparr>)"
    using c less_not_sym [OF c(2)] by (simp add: get_new_node_def next_slot_def slot_def)
  show "new_node e f s = Some (next_slot s, True, placed f s)"
    using nz ex by (auto simp: new_node_def g upd_node_def placed_def)
  have sl: "slot (placed f s) = slot s" by (simp add: slot_def fun_eq_iff)
  have cp: "node_pool_count (placed f s) = ?c + 1" by (simp add: placed_def)
  show "pool_room (placed f s) k"
    using assms by (auto simp: pool_room_def sl cp c1)
  have "{unat ?c..<unat (node_pool_cap s)} = insert (unat ?c) {Suc (unat ?c)..<unat (node_pool_cap s)}" using c(1) by auto
  moreover have "next_slot s \<notin> slot s ` {Suc (unat ?c)..<unat (node_pool_cap s)}"
  proof
    assume "next_slot s \<in> slot s ` {Suc (unat ?c)..<unat (node_pool_cap s)}"
    then obtain i where "Suc (unat ?c) \<le> i" "i < unat (node_pool_cap s)" "slot s (unat ?c) = slot s i"
      by (auto simp: next_slot_def)
    then show False using u [OF c(1)] u [of i] by simp
  qed
  ultimately show "free_slots (placed f s) = free_slots s - {next_slot s}"
    by (simp add: free_slots_def sl cp c1 next_slot_def)
qed

lemma new_node_advanced:
  assumes "pool_room s (Suc k)"
  shows "new_node e f (advance n s) = Some (next_slot s, True, placed f (advance n s))"
  using new_node_room(1) [of "advance n s"] assms by simp

subsection \<open>Data objects\<close>

datatype aml_data = Zero | One | Ones | Byte u8 | Word u16 | Dword u32 | Qword u64 | Text "u8 list"

fun encode :: "aml_data \<Rightarrow> u8 list" where
  "encode Zero = [AML_ZERO_OP]"
| "encode One = [AML_ONE_OP]"
| "encode Ones = [AML_ONES_OP]"
| "encode (Byte x) = AML_BYTE_PREFIX # le_bytes 1 x"
| "encode (Word x) = AML_WORD_PREFIX # le_bytes 2 x"
| "encode (Dword x) = AML_DWORD_PREFIX # le_bytes 4 x"
| "encode (Qword x) = AML_QWORD_PREFIX # le_bytes 8 x"
| "encode (Text cs) = AML_STRING_PREFIX # cs @ [0]"

text \<open>A string has ASCII characters only.\<close>

fun wf_data :: "aml_data \<Rightarrow> bool" where
  "wf_data (Text cs) \<longleftrightarrow> list_all (\<lambda>c. c \<noteq> 0 \<and> c \<le> 0x7F) cs"
| "wf_data _ \<longleftrightarrow> True"

text \<open>The type and the value of the node of an object that is at the address \<open>a\<close>.\<close>

fun meaning :: "u64 \<Rightarrow> aml_data \<Rightarrow> aml_node_type \<times> aml_value" where
  "meaning a Zero = (AML_NODE_INTEGER, AmlInteger 0 1)"
| "meaning a One = (AML_NODE_INTEGER, AmlInteger 1 1)"
| "meaning a Ones = (AML_NODE_INTEGER, AmlInteger UINT64_MAX 1)"
| "meaning a (Byte x) = (AML_NODE_INTEGER, AmlInteger (ucast x) 1)"
| "meaning a (Word x) = (AML_NODE_INTEGER, AmlInteger (ucast x) 2)"
| "meaning a (Dword x) = (AML_NODE_INTEGER, AmlInteger (ucast x) 4)"
| "meaning a (Qword x) = (AML_NODE_INTEGER, AmlInteger x 8)"
| "meaning a (Text cs) = (AML_NODE_STRING, AmlString (a + 1) (of_nat (length cs)))"

definition data_node :: "u64 \<Rightarrow> aml_data \<Rightarrow> aml_node \<Rightarrow> aml_node" where
  "data_node a d = (\<lambda>nd. nd\<lparr>node_type := fst (meaning a d), node_value := snd (meaning a d)\<rparr>)"

lemmas op_defs = AML_ZERO_OP_def AML_ONE_OP_def AML_ONES_OP_def AML_BYTE_PREFIX_def AML_WORD_PREFIX_def
  AML_DWORD_PREFIX_def AML_QWORD_PREFIX_def AML_STRING_PREFIX_def

lemma parse_const_input:
  assumes "input s (op # rest)" "pool_room s (Suc k)"
  shows "parse_const op x e s = Some (next_slot s, True, placed (integer_node x 1) (advance 1 s))"
  using prefix_is_input [OF assms(1)] new_node_advanced [OF assms(2)] by (simp add: parse_const_def)

lemma parse_number_input:
  assumes "input s (op # bs @ rest)" "pool_room s (Suc k)"
    and "number (advance 1 s) = Some (x, True, advance (length bs) (advance 1 s))"
  shows "parse_number op n number e s =
    Some (next_slot s, True, placed (integer_node (ucast x) n) (advance (Suc (length bs)) s))"
  using prefix_is_input [OF assms(1)] new_node_advanced [OF assms(2)] assms(3) by (simp add: parse_number_def)

lemma ptr_of_simps [simp]: "ptr_of (placed f s) = ptr_of s"
  by (simp add: ptr_of_def)

lemma string_loop_input:
  "input s (cs @ 0 # rest) \<Longrightarrow> list_all (\<lambda>c. c \<noteq> 0 \<and> c \<le> 0x7F) cs \<Longrightarrow>
   string_loop s = Some (True, advance (Suc (length cs)) s)"
proof (induction cs arbitrary: s)
  case Nil
  then show ?case using input_next [of s 0 rest] by (simp add: string_loop.simps [of s])
next
  case (Cons c cs)
  then show ?case
    using input_next [of s c "cs @ 0 # rest"] Cons.IH [of "advance 1 s"] by (simp add: string_loop.simps [of s] not_less)
qed

text \<open>Whatever is on the stream, the loop ends: it finds the end of a string or not.\<close>

lemma string_loop_cases:
  "input s bs \<Longrightarrow> (\<exists>cs rest. bs = cs @ 0 # rest \<and> list_all (\<lambda>c. c \<noteq> 0 \<and> c \<le> 0x7F) cs) \<or>
   (\<exists>s'. string_loop s = Some (False, s'))"
proof (induction bs arbitrary: s)
  case Nil
  then show ?case using input_end [of s] by (simp add: string_loop.simps [of s])
next
  case (Cons c bs)
  note n = input_next [OF Cons.prems]
  show ?case
  proof (cases "c = 0 \<or> c > 0x7F")
    case True
    then show ?thesis
    proof
      assume "c = 0"
      then show ?thesis by (intro disjI1 exI [of _ "[]"] exI [of _ bs]) simp
    next
      assume "c > 0x7F"
      then show ?thesis using n by (auto simp: string_loop.simps [of s])
    qed
  next
    case False
    then have l: "string_loop s = string_loop (advance 1 s)" using n by (simp add: string_loop.simps [of s])
    from Cons.IH [OF n(2)] show ?thesis
    proof
      assume "\<exists>cs rest. bs = cs @ 0 # rest \<and> list_all (\<lambda>c. c \<noteq> 0 \<and> c \<le> 0x7F) cs"
      then obtain cs rest where "bs = cs @ 0 # rest" "list_all (\<lambda>c. c \<noteq> 0 \<and> c \<le> 0x7F) cs" by blast
      then show ?thesis using False by (intro disjI1 exI [of _ "c # cs"] exI [of _ rest]) auto
    qed (simp add: l)
  qed
qed

lemma parse_string_input:
  assumes "input s (AML_STRING_PREFIX # cs @ 0 # rest)" "pool_room s (Suc k)" "list_all (\<lambda>c. c \<noteq> 0 \<and> c \<le> 0x7F) cs"
  shows "aml_parse_string_const e s =
    Some (next_slot s, True, placed (data_node (ptr_of s) (Text cs)) (advance (length cs + 2) s))"
proof -
  have "string_loop (advance 1 s) = Some (True, advance (Suc (length cs)) (advance 1 s))"
    using input_next(2) [OF assms(1)] assms(3) by (intro string_loop_input) auto
  moreover have "ptr_of (advance n s) = ptr_of s + of_nat n" for n
    using assms(1) by (intro ptr_of_advance input_stream)
  ultimately show ?thesis
    using prefix_is_input [OF assms(1)] new_node_advanced [OF assms(2)]
    by (simp add: aml_parse_string_const_def data_node_def add.assoc)
qed

lemma data_object_input:
  assumes "input s (encode d @ rest)" "pool_room s (Suc k)" "wf_data d"
  shows "aml_parse_data_object e s =
    Some (next_slot s, True, placed (data_node (ptr_of s) d) (advance (length (encode d)) s))"
proof -
  obtain b bs where bs: "encode d @ rest = b # bs" by (cases d) auto
  have n: "next_le n i x (advance 1 s) = Some (le_or i x (le_bytes n y), True, advance n (advance 1 s))"
    if "encode d = c # le_bytes n y" for n i x c and y :: "'a::len word"
    using input_next(2) [of s] next_le_input [of "advance 1 s" "le_bytes n y" rest] assms(1) that by simp
  have peek: "aml_peek s = Some (b, True)" using input_next(3) assms(1) bs by simp
  show ?thesis
  proof (cases d)
    case (Byte x)
    then have "aml_next (advance 1 s) = Some (x, True, advance 1 (advance 1 s))"
      using assms(1) input_next(1) [OF input_next(2), of s AML_BYTE_PREFIX x rest] by (simp add: le_bytes_def)
    then show ?thesis
      using Byte assms parse_number_input [of s AML_BYTE_PREFIX "le_bytes 1 x" rest k aml_parse_byte x 1 e] peek bs
      by (auto simp: aml_parse_data_object_def op_defs aml_parse_byte_const_def aml_parse_byte_def data_node_def integer_node_def)
  next
    case (Word x)
    then show ?thesis
      using assms parse_number_input [of s AML_WORD_PREFIX "le_bytes 2 x" rest k aml_parse_word x 2 e] peek bs
        n [of AML_WORD_PREFIX 2 x 0 0] le_or_le_bytes [of 2 x]
      by (auto simp: aml_parse_data_object_def op_defs aml_parse_word_const_def aml_parse_word_def data_node_def integer_node_def)
  next
    case (Dword x)
    then show ?thesis
      using assms parse_number_input [of s AML_DWORD_PREFIX "le_bytes 4 x" rest k aml_parse_dword x 4 e] peek bs
        n [of AML_DWORD_PREFIX 4 x 0 0] le_or_le_bytes [of 4 x]
      by (auto simp: aml_parse_data_object_def op_defs aml_parse_dword_const_def aml_parse_dword_def data_node_def integer_node_def)
  next
    case (Qword x)
    then show ?thesis
      using assms parse_number_input [of s AML_QWORD_PREFIX "le_bytes 8 x" rest k aml_parse_qword x 8 e] peek bs
        n [of AML_QWORD_PREFIX 8 x 0 0] le_or_le_bytes [of 8 x]
      by (auto simp: aml_parse_data_object_def op_defs aml_parse_qword_const_def aml_parse_qword_def data_node_def integer_node_def)
  next
    case (Text cs)
    then show ?thesis
      using assms parse_string_input [of s cs rest k e] peek bs
      by (auto simp: aml_parse_data_object_def op_defs)
  qed (use assms parse_const_input [of s _ rest k _ e] peek bs in
    \<open>auto simp: aml_parse_data_object_def op_defs aml_parse_zero_const_def aml_parse_one_const_def
      aml_parse_ones_const_def data_node_def integer_node_def\<close>)
qed

lemma parse_number_short:
  assumes "input s (op # bs)" "length bs < k"
    and "\<And>s' x. next_le k 0 0 (advance 1 s) = Some (0, False, s') \<Longrightarrow> number (advance 1 s) = Some (ucast (0 :: u64), False, s')"
  shows "\<exists>s'. parse_number op n number e s = Some (NULL, False, s')"
proof -
  obtain s' where "next_le k 0 0 (advance 1 s) = Some (0, False, s')"
    using next_le_short [OF input_next(2) [OF assms(1)] assms(2)] by blast
  then show ?thesis using prefix_is_input [OF assms(1)] assms(3) by (auto simp: parse_number_def)
qed

lemma long_enough:
  assumes "LENGTH('a) = 8 * k" "k \<le> length bs" "k \<le> 8"
  shows "bs = le_bytes k (ucast (le_or 0 0 (take k bs)) :: 'a::len word) @ drop k bs"
  using le_bytes_le_or [of "take k bs" k, where 'a = 'a] assms by simp

lemma object_prefix:
  assumes "bs = enc @ rest" "encode d = op # enc" "wf_data d"
  shows "\<exists>d rest. wf_data d \<and> op # bs = encode d @ rest"
  using assms by (intro exI [of _ d] exI [of _ rest]) simp

text \<open>An opcode of data: there is a complete object on the stream, or the parser reports an error.\<close>

lemma data_object_cases:
  assumes i: "input s (b # bs)" and b: "b \<in> set data_ops"
  shows "(\<exists>d rest. wf_data d \<and> b # bs = encode d @ rest) \<or> (\<exists>s'. aml_parse_data_object e s = Some (NULL, False, s'))"
proof -
  note peek = input_next(3) [OF i]
  consider (single) "b = AML_ZERO_OP \<or> b = AML_ONE_OP \<or> b = AML_ONES_OP" | (byte) "b = AML_BYTE_PREFIX"
    | (word) "b = AML_WORD_PREFIX" | (dword) "b = AML_DWORD_PREFIX" | (qword) "b = AML_QWORD_PREFIX"
    | (string) "b = AML_STRING_PREFIX"
    using b by (auto simp: data_ops_def)
  then show ?thesis
  proof cases
    case single
    then show ?thesis
      using object_prefix [of bs "[]" bs Zero b] object_prefix [of bs "[]" bs One b] object_prefix [of bs "[]" bs Ones b]
      by auto
  next
    case byte
    show ?thesis
    proof (cases "1 \<le> length bs")
      case True
      then show ?thesis
        using object_prefix [OF long_enough [of 1 bs, where 'a = 8], of "Byte (ucast (le_or 0 0 (take 1 bs)))" b] byte by simp
    next
      case False
      then have "bs = []" by (cases bs) auto
      then show ?thesis using input_end(1) input_next(2) [OF i] prefix_is_input [OF i] byte peek
        by (auto simp: aml_parse_data_object_def op_defs aml_parse_byte_const_def parse_number_def aml_parse_byte_def)
    qed
  next
    case word
    show ?thesis
    proof (cases "2 \<le> length bs")
      case True
      then show ?thesis
        using object_prefix [OF long_enough [of 2 bs, where 'a = 16], of "Word (ucast (le_or 0 0 (take 2 bs)))" b] word by simp
    next
      case False
      then show ?thesis using parse_number_short [OF i, of 2 aml_parse_word 2 e] word peek
        by (auto simp: aml_parse_data_object_def op_defs aml_parse_word_const_def aml_parse_word_def)
    qed
  next
    case dword
    show ?thesis
    proof (cases "4 \<le> length bs")
      case True
      then show ?thesis
        using object_prefix [OF long_enough [of 4 bs, where 'a = 32], of "Dword (ucast (le_or 0 0 (take 4 bs)))" b] dword by simp
    next
      case False
      then show ?thesis using parse_number_short [OF i, of 4 aml_parse_dword 4 e] dword peek
        by (auto simp: aml_parse_data_object_def op_defs aml_parse_dword_const_def aml_parse_dword_def)
    qed
  next
    case qword
    show ?thesis
    proof (cases "8 \<le> length bs")
      case True
      then show ?thesis
        using object_prefix [OF long_enough [of 8 bs, where 'a = 64], of "Qword (ucast (le_or 0 0 (take 8 bs)))" b] qword by simp
    next
      case False
      then show ?thesis using parse_number_short [OF i, of 8 aml_parse_qword 8 e] qword peek
        by (auto simp: aml_parse_data_object_def op_defs aml_parse_qword_const_def aml_parse_qword_def)
    qed
  next
    case string
    show ?thesis
      using string_loop_cases [OF input_next(2) [OF i]]
    proof
      assume "\<exists>cs rest. bs = cs @ 0 # rest \<and> list_all (\<lambda>c. c \<noteq> 0 \<and> c \<le> 0x7F) cs"
      then obtain cs rest where "bs = (cs @ [0]) @ rest" "wf_data (Text cs)" by auto
      then show ?thesis using object_prefix [of bs "cs @ [0]" rest "Text cs" b] string by simp
    next
      assume "\<exists>s'. string_loop (advance 1 s) = Some (False, s')"
      then show ?thesis using prefix_is_input [OF i] string peek
        by (auto simp: aml_parse_data_object_def op_defs aml_parse_string_const_def)
    qed
  qed
qed

subsection \<open>The loop\<close>

definition term_node :: "u64 \<Rightarrow> u64 \<Rightarrow> aml_data \<Rightarrow> aml_node \<Rightarrow> aml_node" where
  "term_node parent a d nd = (data_node a d nd)\<lparr>n_parent := parent\<rparr>"

lemma parse_term_input:
  assumes "input s (encode d @ rest)" "pool_room s (Suc k)" "wf_data d" "parent \<noteq> NULL"
  shows "aml_parse_term e parent s =
    Some (next_slot s, True, placed (term_node parent (ptr_of s) d) (advance (length (encode d)) s))"
proof -
  have "encode d @ rest = b # bs \<Longrightarrow> b \<in> set data_ops" for b bs by (cases d) (auto simp: data_ops_def)
  then have "\<exists>b. aml_peek s = Some (b, True) \<and> b \<in> set data_ops"
    using assms(1) input_next(3) by (cases "encode d @ rest"; cases d) fastforce+
  then show ?thesis
    using data_object_input [OF assms(1-3)] new_node_room(2,6) [OF assms(2)] input_stream [OF assms(1)] assms(4)
    by (auto simp: aml_parse_term_def upd_node_def placed_def term_node_def next_slot_def slot_def)
qed

text \<open>
  Along the siblings from \<open>p\<close> there are nodes for the objects that start at the address \<open>a\<close>. The sibling
  of the last one is not initialised.
\<close>

fun child_list :: "(u64 \<rightharpoonup> aml_node) \<Rightarrow> u64 \<Rightarrow> u64 \<Rightarrow> u64 \<Rightarrow> aml_data list \<Rightarrow> bool" where
  "child_list m parent p a [] \<longleftrightarrow> True"
| "child_list m parent p a (d # ds) \<longleftrightarrow> (\<exists>nd. m p = Some nd \<and> n_parent nd = parent \<and>
     (node_type nd, node_value nd) = meaning a d \<and>
     child_list m parent (n_sibling nd) (a + of_nat (length (encode d))) ds)"

text \<open>The pointer that a round sets: the child of the parent at first, then the sibling of the node before.\<close>

definition linked :: "u64 \<Rightarrow> u64 \<Rightarrow> u64 \<Rightarrow> (u64 \<rightharpoonup> aml_node) \<Rightarrow> (u64 \<rightharpoonup> aml_node)" where
  "linked n q p m = (if q = NULL then m(n \<mapsto> (the (m n))\<lparr>n_child := p\<rparr>) else m(q \<mapsto> (the (m q))\<lparr>n_sibling := p\<rparr>))"

lemma parse_loop_round:
  assumes "input s (encode d @ rest)" "pool_room s (Suc k)" "wf_data d" "n \<noteq> NULL"
    and "nodes s n \<noteq> None" "q = NULL \<or> nodes s q \<noteq> None" "n \<notin> free_slots s" "q \<notin> free_slots s"
  defines "s' \<equiv> placed (term_node n (ptr_of s) d) (advance (length (encode d)) s)"
  shows "parse_loop e n q s = parse_loop e n (next_slot s) (s'\<lparr>nodes := linked n q (next_slot s) (nodes s')\<rparr>)"
proof -
  obtain b bs where "encode d @ rest = b # bs" by (cases d) auto
  then have "aml_eof s = (False, True)" using input_next(4) assms(1) by simp
  then show ?thesis
    using parse_term_input [OF assms(1,2,3,4)] new_node_room(2,3) [OF assms(2)] assms(5-8)
    by (subst parse_loop.simps) (auto simp: s'_def upd_node_def linked_def fun_upd_def cong: if_cong)
qed

lemma linked_room:
  assumes "pool_room s k" "nodes s n \<noteq> None" "q = NULL \<or> nodes s q \<noteq> None"
  shows "pool_room (s\<lparr>nodes := linked n q p (nodes s)\<rparr>) k"
  using assms by (auto simp: pool_room_def linked_def slot_def)

text \<open>
  What holds between two rounds of the loop, and the rounds that read \<open>ds\<close>. Only free places and the
  node that links the first new node change.
\<close>

definition in_loop :: "u64 \<Rightarrow> u64 \<Rightarrow> aml \<Rightarrow> nat \<Rightarrow> bool" where
  "in_loop n q s k \<longleftrightarrow> pool_room s k \<and> n \<noteq> NULL \<and> nodes s n \<noteq> None \<and> (q = NULL \<or> nodes s q \<noteq> None) \<and>
     n \<notin> free_slots s \<and> q \<notin> free_slots s"

lemma parse_loop_reads:
  "input s (concat (map encode ds) @ rest) \<Longrightarrow> list_all wf_data ds \<Longrightarrow> in_loop n q s (length ds + k) \<Longrightarrow>
   \<exists>s' q' p. parse_loop e n q s = parse_loop e n q' s' \<and> input s' rest \<and> in_loop n q' s' k \<and>
     child_list (nodes s') n p (ptr_of s) ds \<and>
     (\<forall>a. a \<notin> free_slots s \<longrightarrow> nodes s' a = (if ds = [] then nodes s else linked n q p (nodes s)) a)"
proof (induction ds arbitrary: s q)
  case Nil
  then show ?case by auto
next
  case (Cons d ds)
  let ?c = "next_slot s"
  define s1 where "s1 = placed (term_node n (ptr_of s) d) (advance (length (encode d)) s)"
  define s2 where "s2 = s1\<lparr>nodes := linked n q ?c (nodes s1)\<rparr>"
  have room: "pool_room s (Suc (length ds + k))" and n: "n \<noteq> NULL" "nodes s n \<noteq> None"
    "q = NULL \<or> nodes s q \<noteq> None" "n \<notin> free_slots s" "q \<notin> free_slots s"
    using Cons.prems(3) by (auto simp: in_loop_def)
  have c: "?c \<noteq> NULL" "?c \<in> free_slots s" "n \<noteq> ?c" "q \<noteq> ?c" "nodes s ?c \<noteq> None"
    using new_node_room(2,3,6) [OF room] n by auto
  have i: "input s (encode d @ concat (map encode ds) @ rest)" and wf: "wf_data d" "list_all wf_data ds"
    using Cons.prems by auto
  have step: "parse_loop e n q s = parse_loop e n ?c s2"
    using parse_loop_round [OF i room wf(1) n] by (simp add: s2_def s1_def)
  have nodes1: "nodes s1 = (nodes s)(?c \<mapsto> term_node n (ptr_of s) d (the (nodes s ?c)))"
    by (simp add: s1_def)
  have room1: "pool_room s1 (length ds + k)" "free_slots s1 = free_slots s - {?c}"
    using new_node_room(4,5) [of "advance (length (encode d)) s"] room by (auto simp: s1_def)
  have "input s2 (concat (map encode ds) @ rest)"
    using input_advance [OF i] by (simp add: s2_def s1_def input_def)
  moreover have "in_loop n ?c s2 (length ds + k)"
    using linked_room [OF room1(1), of n q ?c] n c room1(2)
    by (auto simp: in_loop_def s2_def nodes1 linked_def free_slots_def slot_def)
  moreover have ptr2: "ptr_of s2 = ptr_of s + of_nat (length (encode d))"
    using ptr_of_advance [OF input_stream [OF i]] by (simp add: s2_def s1_def ptr_of_def)
  ultimately obtain s' q' p where s': "parse_loop e n ?c s2 = parse_loop e n q' s'" "input s' rest" "in_loop n q' s' k"
      "child_list (nodes s') n p (ptr_of s + of_nat (length (encode d))) ds"
      "\<And>a. a \<notin> free_slots s2 \<Longrightarrow> nodes s' a = (if ds = [] then nodes s2 else linked n ?c p (nodes s2)) a"
    using Cons.IH [of s2 ?c] wf(2) by metis
  have free2: "free_slots s2 = free_slots s - {?c}" using room1(2) by (simp add: s2_def free_slots_def slot_def)
  have nodes2: "nodes s2 a = (if a = ?c then Some (term_node n (ptr_of s) d (the (nodes s ?c))) else linked n q ?c (nodes s) a)" for a
    using c by (simp add: s2_def linked_def nodes1)
  have "nodes s' ?c = (if ds = [] then nodes s2 else linked n ?c p (nodes s2)) ?c"
    by (rule s'(5)) (simp add: free2)
  then have "child_list (nodes s') n ?c (ptr_of s) (d # ds)"
    using s'(4) c(1) by (cases ds) (auto simp: nodes2 linked_def term_node_def data_node_def)
  moreover have "nodes s' a = linked n q ?c (nodes s) a" if "a \<notin> free_slots s" for a
  proof -
    have "a \<noteq> ?c" using that c(2) by auto
    moreover have "nodes s' a = (if ds = [] then nodes s2 else linked n ?c p (nodes s2)) a"
      by (rule s'(5)) (simp add: free2 that)
    ultimately show ?thesis using c(1) by (simp add: nodes2 linked_def)
  qed
  ultimately show ?case using s'(1-3) step by auto
qed

lemma parse_loop_stuck:
  assumes "input s (op # rest)" "op \<notin> set data_ops" "n \<noteq> NULL"
  shows "parse_loop e n q s = None"
proof (rule ccontr)
  assume "\<not> ?thesis"
  then obtain r where r: "parse_loop e n q s = Some r" by auto
  have "\<not> (input s (op # rest) \<and> op \<notin> set data_ops \<and> n \<noteq> NULL)"
  proof (rule parse_loop.raw_induct [where P = "\<lambda>e n q s r. \<not> (input s (op # rest) \<and> op \<notin> set data_ops \<and> n \<noteq> NULL)", OF _ r])
    fix loop :: "aml_env \<Rightarrow> u64 \<Rightarrow> u64 \<Rightarrow> aml \<Rightarrow> (bool \<times> aml) option option" and e n q s r
    assume rec: "\<And>e n q s r. loop e n q s = Some r \<Longrightarrow> \<not> (input s (op # rest) \<and> op \<notin> set data_ops \<and> n \<noteq> NULL)"
      and body: "(if fst (aml_eof s) \<or> \<not> snd (aml_eof s) then Some (Some (True, s))
        else case aml_parse_term e n s of None \<Rightarrow> Some None
        | Some (c, v, s) \<Rightarrow> if \<not> v then Some (Some (False, s)) else if c = NULL then loop e n q s
            else case (if q = NULL then upd_node n (\<lambda>nd. nd\<lparr>n_child := c\<rparr>) s
                else upd_node q (\<lambda>nd. nd\<lparr>n_sibling := c\<rparr>) s) of None \<Rightarrow> Some None | Some s \<Rightarrow> loop e n c s) = Some r"
    show "\<not> (input s (op # rest) \<and> op \<notin> set data_ops \<and> n \<noteq> NULL)"
    proof
      assume a: "input s (op # rest) \<and> op \<notin> set data_ops \<and> n \<noteq> NULL"
      then have "aml_eof s = (False, True)" "aml_parse_term e n s = Some (NULL, True, s)"
        using input_next(3,4) input_stream by (auto simp: aml_parse_term_def)
      then show False using body rec a by auto
    qed
  qed
  then show False using assms by simp
qed

lemma NULL_not_free:
  assumes "pool_room s k"
  shows "NULL \<notin> free_slots s"
proof
  assume "NULL \<in> free_slots s"
  then obtain i where "i < unat (node_pool_cap s)" "slot s i = NULL" by (auto simp: free_slots_def)
  then have "unat (node_pool s) + 56 * i = 0" using unat_slot [OF assms] by (metis unat_0)
  then show False using assms by (simp add: pool_room_def unat_eq_0)
qed

definition root_node :: "u64 \<Rightarrow> aml_node \<Rightarrow> aml_node" where
  "root_node parent nd = (if parent \<noteq> NULL then nd\<lparr>node_type := AML_NODE_NULL, n_parent := parent\<rparr>
     else nd\<lparr>node_type := AML_NODE_NULL\<rparr>)"

lemma aml_parse_starts:
  assumes "input s bs" "pool_room s (Suc k)"
  shows "aml_parse e parent s = do {
      r \<leftarrow> parse_loop e (next_slot s) NULL (placed (root_node parent) s);
      Some (do { (ok, s') \<leftarrow> r; Some (if ok then (next_slot s, True, s') else (NULL, False, s')) }) }"
    "in_loop (next_slot s) NULL (placed (root_node parent) s) k" "input (placed (root_node parent) s) bs"
proof -
  note room = new_node_room [OF assms(2)]
  have "root_node parent = (\<lambda>nd. if parent \<noteq> NULL then nd\<lparr>node_type := AML_NODE_NULL, n_parent := parent\<rparr>
      else nd\<lparr>node_type := AML_NODE_NULL\<rparr>)"
    by (simp add: root_node_def fun_eq_iff)
  then show "aml_parse e parent s = do {
      r \<leftarrow> parse_loop e (next_slot s) NULL (placed (root_node parent) s);
      Some (do { (ok, s') \<leftarrow> r; Some (if ok then (next_slot s, True, s') else (NULL, False, s')) }) }"
    using room(1) input_stream [OF assms(1)] by (auto simp: aml_parse_def)
  show "in_loop (next_slot s) NULL (placed (root_node parent) s) k"
    using room(2,4,5) NULL_not_free [OF room(4)] by (simp add: in_loop_def)
  show "input (placed (root_node parent) s) bs" using assms(1) by (simp add: input_def)
qed

text \<open>C30: on a stream that is the encoding of any list of data objects, with room for their nodes in the pool, \<open>aml_parse\<close> returns a node with the nodes of the objects as its children, in the same order, each with the type and value of its object and the node as its parent; the stream is used up.\<close>

theorem aml_parse_reads_objects:
  assumes "input s (concat (map encode ds))" "list_all wf_data ds" "pool_room s (Suc (length ds))"
  shows "\<exists>n s' nd. aml_parse e parent s = Some (Some (n, True, s')) \<and> input s' [] \<and> nodes s' n = Some nd \<and>
    node_type nd = AML_NODE_NULL \<and> child_list (nodes s') n (n_child nd) (ptr_of s) ds"
proof -
  let ?n = "next_slot s" and ?s = "placed (root_node parent) s"
  note start = aml_parse_starts [OF assms(1,3)]
  obtain s' q' p where s': "parse_loop e ?n NULL ?s = parse_loop e ?n q' s'" "input s' []"
    "child_list (nodes s') ?n p (ptr_of s) ds"
    "\<forall>a. a \<notin> free_slots ?s \<longrightarrow> nodes s' a = (if ds = [] then nodes ?s else linked ?n NULL p (nodes ?s)) a"
    using parse_loop_reads [where e = e and s = ?s and ds = ds and rest = "[]" and n = ?n and q = NULL and k = 0]
      start(2,3) assms(2) by auto
  have "parse_loop e ?n q' s' = Some (Some (True, s'))"
    using input_end(2) [OF s'(2)] by (subst parse_loop.simps) simp
  moreover have "?n \<notin> free_slots ?s" using start(2) by (simp add: in_loop_def)
  then have "nodes s' ?n = (if ds = [] then nodes ?s else linked ?n NULL p (nodes ?s)) ?n" using s'(4) by blast
  ultimately show ?thesis
    using s'(1-3) start(1) by (cases "ds = []") (auto simp: linked_def root_node_def)
qed

text \<open>The longest prefix that is data, and what comes after it.\<close>

lemma data_prefix:
  "\<exists>ds rest. bs = concat (map encode ds) @ rest \<and> list_all wf_data ds \<and> length ds \<le> length bs \<and>
     \<not> (\<exists>d rest'. wf_data d \<and> rest = encode d @ rest')"
proof (induction bs rule: length_induct)
  case (1 bs)
  show ?case
  proof (cases "\<exists>d rest'. wf_data d \<and> bs = encode d @ rest'")
    case True
    then obtain d rest' where d: "wf_data d" "bs = encode d @ rest'" by blast
    moreover have "1 \<le> length (encode d)" by (cases d) auto
    ultimately obtain ds rest where "rest' = concat (map encode ds) @ rest" "list_all wf_data ds"
      "length ds \<le> length rest'" "\<not> (\<exists>d rest'. wf_data d \<and> rest = encode d @ rest')"
      using 1 by (metis length_append less_add_same_cancel2 less_le_trans zero_less_one)
    then show ?thesis using d \<open>1 \<le> length (encode d)\<close>
      by (intro exI [of _ "d # ds"] exI [of _ rest]) auto
  next
    case False
    then show ?thesis by (intro exI [of _ "[]"] exI [of _ bs]) auto
  qed
qed

text \<open>C29: \<open>aml_parse\<close>, with room in the pool, returns on every stream but those that have an opcode that is not one of data where an object should start: there it goes round forever, as the opcode is not taken off the stream.\<close>

theorem aml_parse_returns_iff:
  assumes "input s bs" "pool_room s (Suc (length bs))"
  shows "aml_parse e parent s = None \<longleftrightarrow>
    (\<exists>ds op rest. bs = concat (map encode ds) @ op # rest \<and> list_all wf_data ds \<and> op \<notin> set data_ops)"
proof -
  let ?n = "next_slot s" and ?s = "placed (root_node parent) s"
  note start = aml_parse_starts [OF assms]
  have reads: "\<exists>s' q'. parse_loop e ?n NULL ?s = parse_loop e ?n q' s' \<and> input s' rest"
    if "bs = concat (map encode ds) @ rest" "list_all wf_data ds" "length ds \<le> length bs" for ds rest
  proof -
    have "in_loop ?n NULL ?s (length ds + (length bs - length ds))" using start(2) that(3) by simp
    from parse_loop_reads [OF start(3) [unfolded that(1)] that(2) this] show ?thesis by blast
  qed
  have len: "length ds \<le> length (concat (map encode ds))" for ds
  proof (induction ds)
    case (Cons d ds)
    then show ?case by (cases d) auto
  qed simp
  have n: "?n \<noteq> NULL" using start(2) by (simp add: in_loop_def)
  obtain ds rest where ds: "bs = concat (map encode ds) @ rest" "list_all wf_data ds" "length ds \<le> length bs"
    "\<not> (\<exists>d rest'. wf_data d \<and> rest = encode d @ rest')"
    using data_prefix [of bs] by blast
  obtain s' q' where s': "parse_loop e ?n NULL ?s = parse_loop e ?n q' s'" "input s' rest"
    using reads [OF ds(1-3)] by blast
  have ret: "rest = [] \<or> (\<exists>b bs'. rest = b # bs' \<and> b \<in> set data_ops) \<Longrightarrow> parse_loop e ?n q' s' \<noteq> None"
  proof (elim disjE exE conjE)
    assume "rest = []"
    then show ?thesis using input_end(2) [of s'] s'(2) by (subst parse_loop.simps) simp
  next
    fix b bs' assume b: "rest = b # bs'" "b \<in> set data_ops"
    note nxt = input_next [OF s'(2) [unfolded b(1)]]
    obtain t where "aml_parse_data_object e s' = Some (NULL, False, t)"
      using data_object_cases [OF s'(2) [unfolded b(1)] b(2)] ds(4) b(1) by blast
    then have "aml_parse_term e ?n s' = Some (NULL, False, t)"
      using nxt b(2) n input_stream [OF s'(2)] by (auto simp: aml_parse_term_def)
    then show ?thesis using nxt(4) by (subst parse_loop.simps) simp
  qed
  show ?thesis
  proof
    assume "aml_parse e parent s = None"
    then have "parse_loop e ?n q' s' = None" using start(1) s'(1) by (auto simp: bind_eq_None_conv)
    then obtain b bs' where "rest = b # bs'" "b \<notin> set data_ops" using ret by (cases rest) auto
    then show "\<exists>ds op rest. bs = concat (map encode ds) @ op # rest \<and> list_all wf_data ds \<and> op \<notin> set data_ops"
      using ds by blast
  next
    assume "\<exists>ds op rest. bs = concat (map encode ds) @ op # rest \<and> list_all wf_data ds \<and> op \<notin> set data_ops"
    then obtain ds op rest where st: "bs = concat (map encode ds) @ op # rest" "list_all wf_data ds" "op \<notin> set data_ops"
      by blast
    then obtain s' q' where "parse_loop e ?n NULL ?s = parse_loop e ?n q' s'" "input s' (op # rest)"
      using reads [of ds "op # rest"] len [of ds] by auto
    then show "aml_parse e parent s = None" using parse_loop_stuck [OF _ st(3) n] start(1) by simp
  qed
qed

subsection \<open>Instances\<close>

definition blank_node :: aml_node where
  "blank_node = \<lparr>node_type = AML_NODE_NULL, node_value = AmlInteger 0 0, n_parent = 0, n_child = 0, n_sibling = 0, n_object = 0\<rparr>"

definition sample_aml :: "pstate \<Rightarrow> u8 list \<Rightarrow> aml" where
  "sample_aml h bs = \<lparr>a_heap = h, a_mem = (\<lambda>a. if unat a - 0x1000 < length bs then Some (bs ! (unat a - 0x1000)) else None),
     stream = Some \<lparr>st_start = 0x1000, st_ptr = 0x1000, st_end = 0x1000 + of_nat (length bs)\<rparr>,
     nodes = (\<lambda>_. Some blank_node), node_pool = 0x10000, node_pool_cap = 73, node_pool_count = 0,
     objects = (\<lambda>_. None), object_pool = 0, object_pool_cap = 0, object_pool_count = 0\<rparr>"

lemma sample_bytes:
  "unat a = 0x1000 + length xs \<Longrightarrow> length (xs @ bs) < 100 \<Longrightarrow> bytes_at (a_mem (sample_aml h (xs @ bs))) a bs"
proof (induction bs arbitrary: xs a)
  case (Cons b bs)
  have "unat (a + 1) = 0x1000 + length (xs @ [b])"
    using Cons.prems by (simp add: unat_arith_rules)
  then show ?case using Cons.IH [of "a + 1" "xs @ [b]"] Cons.prems by (simp add: sample_aml_def)
qed simp

lemma sample_input:
  assumes "length bs < 100"
  shows "input (sample_aml h bs) bs"
proof -
  have "bytes_at (a_mem (sample_aml h ([] @ bs))) 0x1000 bs" using assms by (intro sample_bytes) simp_all
  moreover have "unat (0x1000 + of_nat (length bs) :: u64) = 0x1000 + length bs"
    using assms by (simp add: unat_arith_rules)
  ultimately show ?thesis by (simp add: input_def sample_aml_def)
qed

lemma sample_room: "k \<le> 73 \<Longrightarrow> pool_room (sample_aml h bs) k"
  by (simp add: pool_room_def sample_aml_def)

lemma aml_parse_pkglen_roundtrip_witness:
  "\<forall>h. \<exists>s'. aml_parse_pkglen (sample_aml h [0x42, 0x30, 0x5F]) = Some (0x302, True, s')"
proof
  fix h
  have "pkglen 0x302 = [0x42, 0x30]" by (simp add: pkglen_def le_bytes_def)
  then show "\<exists>s'. aml_parse_pkglen (sample_aml h [0x42, 0x30, 0x5F]) = Some (0x302, True, s')"
    using aml_parse_pkglen_roundtrip [of "sample_aml h [0x42, 0x30, 0x5F]" "0x302" "[0x5F]"]
      sample_input [of "[0x42, 0x30, 0x5F]" h] by auto
qed

lemma le_bytes_2: "le_bytes 2 x = [ucast x, ucast (drop_bit 8 x)]"
  by (simp add: le_bytes_def upt_conv_Cons)

lemma aml_parse_reads_objects_witness:
  "\<forall>e h. \<exists>n s' nd. aml_parse e 0x2000 (sample_aml h [0x0B, 0x34, 0x12, 0x0D, 0x4F, 0x4B, 0]) = Some (Some (n, True, s')) \<and>
    nodes s' n = Some nd \<and> child_list (nodes s') n (n_child nd) 0x1000 [Word 0x1234, Text [0x4F, 0x4B]]"
proof (intro allI)
  fix e h
  let ?bs = "[0x0B, 0x34, 0x12, 0x0D, 0x4F, 0x4B, 0] :: u8 list" and ?ds = "[Word 0x1234, Text [0x4F, 0x4B]]"
  have eq: "concat (map encode ?ds) = ?bs" by (simp add: op_defs le_bytes_2)
  have i: "input (sample_aml h ?bs) (concat (map encode ?ds))" unfolding eq by (rule sample_input) simp
  have r: "pool_room (sample_aml h ?bs) (Suc (length ?ds))" by (intro sample_room) simp
  have p: "ptr_of (sample_aml h ?bs) = 0x1000" by (simp add: ptr_of_def sample_aml_def)
  obtain n s' nd where "aml_parse e 0x2000 (sample_aml h ?bs) = Some (Some (n, True, s'))" "nodes s' n = Some nd"
      "child_list (nodes s') n (n_child nd) 0x1000 ?ds"
    using aml_parse_reads_objects [OF i _ r, of e "0x2000", unfolded p] by force
  then show "\<exists>n s' nd. aml_parse e 0x2000 (sample_aml h ?bs) = Some (Some (n, True, s')) \<and>
    nodes s' n = Some nd \<and> child_list (nodes s') n (n_child nd) 0x1000 ?ds"
    by blast
qed

text \<open>A scope after an integer.\<close>

lemma aml_parse_returns_iff_witness:
  "\<forall>e h. aml_parse e 0x2000 (sample_aml h [0x0A, 0x34, 0x10, 0x00]) = None"
proof (intro allI)
  fix e h
  let ?bs = "[0x0A, 0x34, 0x10, 0x00] :: u8 list"
  have "?bs = concat (map encode [Byte 0x34]) @ 0x10 # [0x00] \<and> list_all wf_data [Byte 0x34] \<and> 0x10 \<notin> set data_ops"
    by (simp add: op_defs le_bytes_def data_ops_def)
  then have "\<exists>ds op rest. ?bs = concat (map encode ds) @ op # rest \<and> list_all wf_data ds \<and> op \<notin> set data_ops"
    by blast
  moreover have "input (sample_aml h ?bs) ?bs" "pool_room (sample_aml h ?bs) (Suc (length ?bs))"
    by (intro sample_input sample_room; simp)+
  ultimately show "aml_parse e 0x2000 (sample_aml h ?bs) = None"
    using aml_parse_returns_iff by blast
qed

end
