(* ===== verification/Module.thy ===== *)
theory Module
  imports Serial
begin

text \<open>
  \<^verbatim>\<open>Kernel/src/module.c\<close> with the records of \<^verbatim>\<open>module.h\<close>, \<^verbatim>\<open>pcie.h\<close>, \<^verbatim>\<open>drive.h\<close> and \<^verbatim>\<open>gpu.h\<close>: the
  table of the modules that are built in, the list of the registered ones, and the four lookups.

  Modules are a store of records by address. A function pointer is the name of the function,
  \<open>None\<close> the null pointer. \<open>struct block_device\<close> comes with the PBFS library, which is a submodule: it
  is the type \<open>'b\<close>, and the size of a module is an argument. The entries of the list of registered
  modules up to its count are a list; the address of its memory and its capacity are kept.
\<close>

subsection \<open>Records\<close>

datatype module_type = MODULE_TYPE_DRIVER | MODULE_TYPE_EXECUTABLE_RUNTIME

datatype driver_type = MODULE_DRIVER_TYPE_SATA | MODULE_DRIVER_TYPE_HDD | MODULE_DRIVER_TYPE_NVMe
  | MODULE_DRIVER_TYPE_GPU | MODULE_DRIVER_TYPE_xHCI

type_synonym fn = "string option"

record pcie_device =
  pd_vendor_id :: u16
  pd_device_id :: u16
  pd_class_code :: u8
  pd_subclass :: u8
  pd_prog_if :: u8
  pd_bus :: u8
  pd_slot :: u8
  pd_func :: u8
  pd_bar0 :: u64

record 'b drive_device =
  dr_name :: "string option"
  dr_pcie_device :: u64
  dr_init :: fn
  read_blk :: fn
  write_blk :: fn
  dr_flush :: fn
  get_block_device :: fn
  block_dev :: 'b
  cur_port :: u64
  dr_controller_idx :: u64
  dr_active :: bool

record pyrion_api =
  py_init :: fn
  py_finish :: fn
  py_create_ctx :: fn
  py_destroy_ctx :: fn
  py_unuse_device :: fn
  py_enumerate_physical_devices :: fn
  py_use_device :: fn
  py_submit_cmd_stream :: fn
  py_flush :: fn
  py_viewport :: fn
  py_clear :: fn
  py_pixel :: fn
  py_draw_rect :: fn
  py_upload_font :: fn
  py_destroy_font :: fn
  py_draw_char :: fn
  py_blit :: fn

record gpu_device =
  g_name :: "string option"
  g_controller_idx :: u64
  g_pcie_device :: u64
  g_framebuffer :: u64
  acceleration_present :: bool
  g_init :: fn
  init_resources :: fn
  set_mode :: fn
  swap_buffers :: fn
  g_flush :: fn
  switch_off :: fn
  pyrion :: pyrion_api
  g_active :: bool

text \<open>The union of the two connectors, by the member that was written; \<open>No_connector\<close>: all of it is zero.\<close>

datatype 'b connector = No_connector | Drive_connector "'b drive_device" | Gpu_connector gpu_device

record module_hdr =
  m_name :: string
  m_version :: u32
  m_signature :: u64
  m_type :: module_type
  m_registered :: bool

record 'b module_driver =
  d_type :: driver_type
  target_class :: u8
  target_subclass :: u8
  target_progifclass :: u8
  target_use_progifclass :: u8
  target_revision :: u8
  target_use_revision :: u8
  target_vendor :: u16
  target_use_vendor :: u8
  d_pcie_device :: pcie_device
  connector :: "'b connector"

record 'b aos_module =
  m_hdr :: module_hdr
  initialize_on_register :: bool
  init_module :: string
  driver_module :: "'b module_driver"

record 'b module_state =
  m_heap :: pstate
  m_said :: "message list"
  module_at :: "u64 \<rightharpoonup> 'b aos_module"
  modules :: u64
  module_count :: u64
  module_cap :: u64
  registered_modules :: u64
  registered_list :: "u64 list"
  registered_module_cap :: u64

text \<open>
  What the functions are given: the size of a module, what fresh memory holds, the block device that
  is all zero, and which modules the build leaves in.
\<close>

record 'b module_env =
  sizeof_module :: u64
  fresh_module :: "u64 \<Rightarrow> 'b aos_module"
  zero_block_device :: 'b
  built_in :: "driver_type \<Rightarrow> bool"

definition PCI_CLASS_MASS_STORAGE :: u8 where "PCI_CLASS_MASS_STORAGE = 0x01"
definition PCI_SUBCLASS_AHCI :: u8 where "PCI_SUBCLASS_AHCI = 0x06"
definition PCI_PROGIF_AHCI :: u8 where "PCI_PROGIF_AHCI = 0x01"
definition PCI_SUBCLASS_NVMe :: u8 where "PCI_SUBCLASS_NVMe = 0x08"
definition PCI_PROGIF_NVMe :: u8 where "PCI_PROGIF_NVMe = 0x02"
definition PCI_VGA_DISPLAY :: u8 where "PCI_VGA_DISPLAY = 0x03"
definition PCI_SUBCLASS_VGA :: u8 where "PCI_SUBCLASS_VGA = 0x00"
definition PCI_CLASS_SERIAL_BUS_CONTROLLER :: u8 where "PCI_CLASS_SERIAL_BUS_CONTROLLER = 0x0C"
definition PCI_SUBCLASS_USB :: u8 where "PCI_SUBCLASS_USB = 0x03"
definition XHCI_PROGRAMMIMG_INTERFACE :: u8 where "XHCI_PROGRAMMIMG_INTERFACE = 0x30"
definition VirtIo_VENDORID :: u16 where "VirtIo_VENDORID = 0x1AF4"

definition msay :: "string \<Rightarrow> msg_arg list \<Rightarrow> ('b, 'z) module_state_scheme \<Rightarrow> ('b, 'z) module_state_scheme" where
  "msay fmt args s = s\<lparr>m_said := (fmt, args) # m_said s\<rparr>"

definition mo_alloc :: "u64 \<Rightarrow> ('b, 'z) module_state_scheme \<Rightarrow> (u64 \<times> ('b, 'z) module_state_scheme) option" where
  "mo_alloc sz s = do {
     (v, _, h) \<leftarrow> avmf_alloc pager_map sz MALLOC_TYPE_KERNEL AVMF_FLAG_RW (m_heap s);
     Some (v, s\<lparr>m_heap := h\<rparr>)
   }"

definition mo_free :: "u64 \<Rightarrow> ('b, 'z) module_state_scheme \<Rightarrow> ('b, 'z) module_state_scheme option" where
  "mo_free a s = do { h \<leftarrow> avmf_free pager_map pager_unmap a (m_heap s); Some (s\<lparr>m_heap := h\<rparr>) }"

text \<open>A module that is freed is in the store no longer.\<close>

definition free_module :: "u64 \<Rightarrow> ('b, 'z) module_state_scheme \<Rightarrow> ('b, 'z) module_state_scheme option" where
  "free_module m s = do { s \<leftarrow> mo_free m s; Some (s\<lparr>module_at := (module_at s)(m := None)\<rparr>) }"

definition upd_module ::
  "u64 \<Rightarrow> ('b aos_module \<Rightarrow> 'b aos_module) \<Rightarrow> ('b, 'z) module_state_scheme \<Rightarrow> ('b, 'z) module_state_scheme option" where
  "upd_module p f s = do { m \<leftarrow> module_at s p; Some (s\<lparr>module_at := (module_at s)(p \<mapsto> f m)\<rparr>) }"

subsection \<open>The modules that are built in\<close>

definition AOS_MODULE_SIGN :: "u64 \<Rightarrow> u64" where
  "AOS_MODULE_SIGN n = push_bit 32 0x414F53 OR (n AND 0xFFFFFFFF)"

definition AOS_MODULE_PACK_VERSION :: "u32 \<Rightarrow> u32 \<Rightarrow> u32 \<Rightarrow> u32" where
  "AOS_MODULE_PACK_VERSION major minor patch =
     push_bit 24 (major AND 0xFF) OR push_bit 16 (minor AND 0xFF) OR (patch AND 0xFFFF)"

definition no_pcie_device :: pcie_device where
  "no_pcie_device = \<lparr>pd_vendor_id = 0, pd_device_id = 0, pd_class_code = 0, pd_subclass = 0, pd_prog_if = 0,
     pd_bus = 0, pd_slot = 0, pd_func = 0, pd_bar0 = 0\<rparr>"

text \<open>The header of the module number \<open>n\<close>, and a driver for a class, subclass and interface.\<close>

definition driver_hdr :: "string \<Rightarrow> u64 \<Rightarrow> module_hdr" where
  "driver_hdr nm n = \<lparr>m_name = nm, m_version = AOS_MODULE_PACK_VERSION 1 0 0, m_signature = AOS_MODULE_SIGN n,
     m_type = MODULE_TYPE_DRIVER, m_registered = False\<rparr>"

definition sata_module :: "'b module_env \<Rightarrow> u64 \<Rightarrow> 'b aos_module" where
  "sata_module e n = \<lparr>m_hdr = driver_hdr ''AOS-inb-driver-SATA'' n, initialize_on_register = True, init_module = ''sata_init'',
     driver_module = \<lparr>d_type = MODULE_DRIVER_TYPE_SATA, target_class = PCI_CLASS_MASS_STORAGE,
       target_subclass = PCI_SUBCLASS_AHCI, target_progifclass = PCI_PROGIF_AHCI, target_use_progifclass = 1,
       target_revision = 0, target_use_revision = 0, target_vendor = 0, target_use_vendor = 0,
       d_pcie_device = no_pcie_device,
       connector = Drive_connector \<lparr>dr_name = None, dr_pcie_device = NULL, dr_init = Some ''sata_init'',
         read_blk = Some ''sata_read_blk'', write_blk = Some ''sata_write_blk'', dr_flush = Some ''sata_flush'',
         get_block_device = Some ''sata_get_block_device'', block_dev = zero_block_device e, cur_port = 0,
         dr_controller_idx = 0, dr_active = False\<rparr>\<rparr>\<rparr>"

definition nvme_module :: "'b module_env \<Rightarrow> u64 \<Rightarrow> 'b aos_module" where
  "nvme_module e n = \<lparr>m_hdr = driver_hdr ''AOS-inb-driver-NVMe'' n, initialize_on_register = True, init_module = ''nvme_init'',
     driver_module = \<lparr>d_type = MODULE_DRIVER_TYPE_NVMe, target_class = PCI_CLASS_MASS_STORAGE,
       target_subclass = PCI_SUBCLASS_NVMe, target_progifclass = PCI_PROGIF_NVMe, target_use_progifclass = 1,
       target_revision = 0, target_use_revision = 0, target_vendor = 0, target_use_vendor = 0,
       d_pcie_device = no_pcie_device,
       connector = Drive_connector \<lparr>dr_name = None, dr_pcie_device = NULL, dr_init = Some ''nvme_init'',
         read_blk = None, write_blk = None, dr_flush = None,
         get_block_device = Some ''nvme_get_block_device'', block_dev = zero_block_device e, cur_port = 0,
         dr_controller_idx = 0, dr_active = False\<rparr>\<rparr>\<rparr>"

definition virtio_pyrion :: pyrion_api where
  "virtio_pyrion = \<lparr>py_init = Some ''pyrion_init_virtio'', py_finish = Some ''pyrion_finish_virtio'',
     py_create_ctx = Some ''pyrion_create_ctx_virtio'', py_destroy_ctx = Some ''pyrion_destroy_ctx_virtio'',
     py_unuse_device = Some ''pyrion_unuse_device_virtio'',
     py_enumerate_physical_devices = Some ''pyrion_enumerate_physical_devices_virtio'',
     py_use_device = Some ''pyrion_use_device_virtio'', py_submit_cmd_stream = Some ''pyrion_submit_cmd_stream_virtio'',
     py_flush = Some ''pyrion_flush_virtio'', py_viewport = Some ''pyrion_viewport_virtio'',
     py_clear = Some ''pyrion_clear_virtio'', py_pixel = Some ''pyrion_pixel_virtio'',
     py_draw_rect = Some ''pyrion_rect_virtio'', py_upload_font = Some ''pyrion_upload_font_virtio'',
     py_destroy_font = Some ''pyrion_destroy_font_virtio'', py_draw_char = Some ''pyrion_draw_char_virtio'',
     py_blit = Some ''pyrion_blit''\<rparr>"

definition virtio_module :: "u64 \<Rightarrow> 'b aos_module" where
  "virtio_module n = \<lparr>m_hdr = driver_hdr ''AOS-inb-driver-gpu-VIRTIO'' n, initialize_on_register = False, init_module = ''virtio_init'',
     driver_module = \<lparr>d_type = MODULE_DRIVER_TYPE_GPU, target_class = PCI_VGA_DISPLAY,
       target_subclass = PCI_SUBCLASS_VGA, target_progifclass = 0, target_use_progifclass = 0,
       target_revision = 0, target_use_revision = 0, target_vendor = VirtIo_VENDORID, target_use_vendor = 1,
       d_pcie_device = no_pcie_device,
       connector = Gpu_connector \<lparr>g_name = Some ''VirtIo'', g_controller_idx = 0, g_pcie_device = NULL,
         g_framebuffer = NULL, acceleration_present = False, g_init = Some ''virtio_init'',
         init_resources = Some ''virtio_init_resources'', set_mode = Some ''virtio_set_mode'', swap_buffers = None,
         g_flush = Some ''virtio_flush'', switch_off = Some ''virtio_switch_off'', pyrion = virtio_pyrion,
         g_active = False\<rparr>\<rparr>\<rparr>"

definition xhci_module :: "u64 \<Rightarrow> 'b aos_module" where
  "xhci_module n = \<lparr>m_hdr = driver_hdr ''AOS-inb-driver-usb-xHCI'' n, initialize_on_register = True, init_module = ''xhci_init'',
     driver_module = \<lparr>d_type = MODULE_DRIVER_TYPE_xHCI, target_class = PCI_CLASS_SERIAL_BUS_CONTROLLER,
       target_subclass = PCI_SUBCLASS_USB, target_progifclass = XHCI_PROGRAMMIMG_INTERFACE, target_use_progifclass = 1,
       target_revision = 0, target_use_revision = 0, target_vendor = 0, target_use_vendor = 0,
       d_pcie_device = no_pcie_device, connector = No_connector\<rparr>\<rparr>"

text \<open>The place of the module number \<open>n\<close> in the table.\<close>

definition nth_module :: "'b module_env \<Rightarrow> ('b, 'z) module_state_scheme \<Rightarrow> u64 \<Rightarrow> u64" where
  "nth_module e s n = modules s + n * sizeof_module e"

definition put_module :: "'b module_env \<Rightarrow> u64 \<Rightarrow> 'b aos_module \<Rightarrow> ('b, 'z) module_state_scheme \<Rightarrow> ('b, 'z) module_state_scheme" where
  "put_module e n m s = s\<lparr>module_at := (module_at s)(nth_module e s n \<mapsto> m)\<rparr>"

text \<open>The number of the first module is taken whether the build has it or not.\<close>

definition next_id :: "('b, 'z) module_state_scheme \<Rightarrow> u64 \<times> ('b, 'z) module_state_scheme" where
  "next_id s = (module_count s, s\<lparr>module_count := module_count s + 1\<rparr>)"

definition add_module :: "'b module_env \<Rightarrow> driver_type \<Rightarrow> (u64 \<Rightarrow> 'b aos_module) \<Rightarrow> ('b, 'z) module_state_scheme \<Rightarrow> ('b, 'z) module_state_scheme" where
  "add_module e ty m s = (if built_in e ty then let (n, s) = next_id s in put_module e n (m n) s else s)"

definition modules_init :: "'b module_env \<Rightarrow> ('b, 'z) module_state_scheme \<Rightarrow> (bool \<times> ('b, 'z) module_state_scheme) option" where
  "modules_init e s = do {
     (p, s) \<leftarrow> mo_alloc (sizeof_module e * 16) s;
     let s = s\<lparr>modules := p\<rparr>;
     if p = NULL then Some (False, msay ''[Module-System] Allocation failed!'' [] s)
     else do {
       let s = s\<lparr>module_cap := 16, module_at := (\<lambda>a.
         if a \<in> set (map (\<lambda>i. p + of_nat i * sizeof_module e) [0..<16]) then Some (fresh_module e a) else module_at s a)\<rparr>;
       let (n, s) = next_id s;
       let s = (if built_in e MODULE_DRIVER_TYPE_SATA then put_module e n (sata_module e n) s else s);
       let s = add_module e MODULE_DRIVER_TYPE_NVMe (nvme_module e) s;
       let s = add_module e MODULE_DRIVER_TYPE_GPU virtio_module s;
       let s = add_module e MODULE_DRIVER_TYPE_xHCI xhci_module s;
       Some (True, msay ''[Module-System] Core Modules Loaded!'' [] s)
     }
   }"

subsection \<open>Registering\<close>

fun first_empty :: "nat \<Rightarrow> u64 list \<Rightarrow> nat option" where
  "first_empty i [] = None"
| "first_empty i (m # ms) = (if m = NULL then Some i else first_empty (Suc i) ms)"

definition mark_registered :: "u64 \<Rightarrow> ('b, 'z) module_state_scheme \<Rightarrow> (bool \<times> ('b, 'z) module_state_scheme) option" where
  "mark_registered m s = do {
     s \<leftarrow> upd_module m (\<lambda>md. md\<lparr>m_hdr := (m_hdr md)\<lparr>m_registered := True\<rparr>\<rparr>) s;
     Some (True, s)
   }"

text \<open>Room for one more entry, in new memory if there is none or it is full.\<close>

definition grow_registered :: "('b, 'z) module_state_scheme \<Rightarrow> (bool \<times> ('b, 'z) module_state_scheme) option" where
  "grow_registered s =
     (if registered_modules s = NULL \<or> of_nat (length (registered_list s)) \<ge> registered_module_cap s then do {
        (p, s) \<leftarrow> mo_alloc (8 * (registered_module_cap s + 16)) s;
        if p = NULL then
          Some (False, msay ''[Module-System] Reallocation of registered modules failed!'' [] s)
        else do {
          let s = s\<lparr>registered_module_cap := registered_module_cap s + 16\<rparr>;
          s \<leftarrow> (if registered_modules s \<noteq> NULL then mo_free (registered_modules s) s else Some s);
          Some (True, s\<lparr>registered_modules := p\<rparr>)
        }
      } else Some (True, s))"

definition module_register :: "u64 \<Rightarrow> ('b, 'z) module_state_scheme \<Rightarrow> (bool \<times> ('b, 'z) module_state_scheme) option" where
  "module_register m s =
     (case first_empty 0 (registered_list s) of
        Some i \<Rightarrow> mark_registered m (s\<lparr>registered_list := (registered_list s)[i := m]\<rparr>)
      | None \<Rightarrow> do {
          (ok, s) \<leftarrow> grow_registered s;
          if ok then mark_registered m (s\<lparr>registered_list := registered_list s @ [m]\<rparr>)
          else Some (False, s)
        })"

text \<open>Every entry that is the module is emptied.\<close>

definition module_unregister :: "u64 \<Rightarrow> ('b, 'z) module_state_scheme \<Rightarrow> bool \<times> ('b, 'z) module_state_scheme" where
  "module_unregister m s =
     (True, s\<lparr>registered_list := map (\<lambda>x. if x = m then NULL else x) (registered_list s)\<rparr>)"

fun unregister_dealloc_loop ::
  "u64 \<Rightarrow> nat list \<Rightarrow> ('b, 'z) module_state_scheme \<Rightarrow> ('b, 'z) module_state_scheme option" where
  "unregister_dealloc_loop m [] s = Some s"
| "unregister_dealloc_loop m (i # is) s =
     (if registered_list s ! i = m then do {
        s \<leftarrow> free_module m s;
        unregister_dealloc_loop m is (s\<lparr>registered_list := (registered_list s)[i := NULL]\<rparr>)
      } else unregister_dealloc_loop m is s)"

definition module_unregister_dealloc :: "u64 \<Rightarrow> ('b, 'z) module_state_scheme \<Rightarrow> (bool \<times> ('b, 'z) module_state_scheme) option" where
  "module_unregister_dealloc m s = do {
     s \<leftarrow> unregister_dealloc_loop m [0..<length (registered_list s)] s;
     Some (True, s)
   }"

definition module_already_initialized :: "u64 \<Rightarrow> ('b, 'z) module_state_scheme \<Rightarrow> bool" where
  "module_already_initialized m s \<longleftrightarrow> m \<in> set (registered_list s)"

definition module_get_registered_module_count :: "('b, 'z) module_state_scheme \<Rightarrow> u64" where
  "module_get_registered_module_count s = of_nat (length (registered_list s))"

subsection \<open>Looking up\<close>

text \<open>The arguments of the four lookups but the index.\<close>

record query =
  q_class :: u8
  q_subclass :: u8
  q_use_subclass :: u8
  q_progif :: u8
  q_use_progif :: u8
  q_revision :: u8
  q_use_revision :: u8
  q_vendor :: u16
  q_use_vendor :: u8

definition applicable :: "query \<Rightarrow> 'b aos_module \<Rightarrow> bool" where
  "applicable q m \<longleftrightarrow>
     (let d = driver_module m in
      m_type (m_hdr m) = MODULE_TYPE_DRIVER \<and> target_class d = q_class q \<and>
      \<not> (q_use_subclass q = 1 \<and> target_subclass d \<noteq> q_subclass q) \<and>
      \<not> (q_use_progif q = 1 \<and> target_use_progifclass d = 1 \<and> target_progifclass d \<noteq> q_progif q) \<and>
      \<not> (q_use_revision q = 1 \<and> target_use_revision d = 1 \<and> target_revision d \<noteq> q_revision q) \<and>
      \<not> (q_use_vendor q = 1 \<and> target_use_vendor d = 1 \<and> target_vendor d \<noteq> q_vendor q))"

fun lookup_loop :: "u64 \<Rightarrow> query \<Rightarrow> u64 \<Rightarrow> u64 list \<Rightarrow> ('b, 'z) module_state_scheme \<Rightarrow> u64 option" where
  "lookup_loop idx q found_count [] s = Some NULL"
| "lookup_loop idx q found_count (p # ps) s = do {
     m \<leftarrow> module_at s p;
     if \<not> applicable q m then lookup_loop idx q found_count ps s
     else if idx \<noteq> found_count then lookup_loop idx q (found_count + 1) ps s
     else Some p
   }"

text \<open>The addresses of the modules in the table.\<close>

definition module_table :: "'b module_env \<Rightarrow> ('b, 'z) module_state_scheme \<Rightarrow> u64 list" where
  "module_table e s = map (\<lambda>i. nth_module e s (of_nat i)) [0..<unat (module_count s)]"

definition module_get_applicable_driver :: "'b module_env \<Rightarrow> u64 \<Rightarrow> query \<Rightarrow> ('b, 'z) module_state_scheme \<Rightarrow> u64 option" where
  "module_get_applicable_driver e idx q s = lookup_loop idx q 0 (module_table e s) s"

definition module_get_applicable_registered_driver :: "u64 \<Rightarrow> query \<Rightarrow> ('b, 'z) module_state_scheme \<Rightarrow> u64 option" where
  "module_get_applicable_registered_driver idx q s = lookup_loop idx q 0 (registered_list s) s"

text \<open>The module, if any, copied to new memory.\<close>

definition alloc_copy :: "'b module_env \<Rightarrow> u64 \<Rightarrow> ('b, 'z) module_state_scheme \<Rightarrow> (u64 \<times> ('b, 'z) module_state_scheme) option" where
  "alloc_copy e p s =
     (if p = NULL then Some (NULL, s)
      else do {
        (nmod, s) \<leftarrow> mo_alloc (sizeof_module e) s;
        if nmod = NULL then Some (NULL, s)
        else do {
          m \<leftarrow> module_at s p;
          Some (nmod, s\<lparr>module_at := (module_at s)(nmod \<mapsto> m)\<rparr>)
        }
      })"

definition module_get_applicable_driver_alloced ::
  "'b module_env \<Rightarrow> u64 \<Rightarrow> query \<Rightarrow> ('b, 'z) module_state_scheme \<Rightarrow> (u64 \<times> ('b, 'z) module_state_scheme) option" where
  "module_get_applicable_driver_alloced e idx q s = do {
     p \<leftarrow> module_get_applicable_driver e idx q s;
     alloc_copy e p s
   }"

definition module_get_applicable_registered_driver_alloced ::
  "'b module_env \<Rightarrow> u64 \<Rightarrow> query \<Rightarrow> ('b, 'z) module_state_scheme \<Rightarrow> (u64 \<times> ('b, 'z) module_state_scheme) option" where
  "module_get_applicable_registered_driver_alloced e idx q s = do {
     p \<leftarrow> module_get_applicable_registered_driver idx q s;
     alloc_copy e p s
   }"

end
