(* ===== verification/ModuleSpec.thy ===== *)
theory ModuleSpec
  imports Module
begin

text \<open>
  What \<open>Module\<close> does: the lookups give the entry of the filtered list that the index names, and the
  list of registered modules behaves as a set.
\<close>

subsection \<open>The lookups\<close>

lemma lookup_loop_eq:
  assumes "\<forall>p \<in> set ps. p \<noteq> NULL \<longrightarrow> module_at s p \<noteq> None" "module_at s NULL = None"
    and "found_count \<le> idx" "unat found_count + length ps < 2 ^ 64"
  shows "lookup_loop idx q found_count ps s =
    (let ms = filter (\<lambda>p. applicable q (the (module_at s p))) (takeWhile (\<lambda>p. p \<noteq> NULL) ps)
     in if unat idx - unat found_count < length ms then Some (ms ! (unat idx - unat found_count))
        else if NULL \<in> set ps then None else Some NULL)"
  using assms
proof (induction ps arbitrary: found_count)
  case (Cons p ps)
  show ?case
  proof (cases "p = NULL")
    case False
    then obtain m where m: "module_at s p = Some m" using Cons.prems(1) by auto
    show ?thesis
    proof (cases "applicable q m \<and> idx \<noteq> found_count")
      case True
      then have lt: "found_count < idx" using Cons.prems(3) by (auto simp: order.strict_iff_order)
      then have "unat (found_count + 1) = Suc (unat found_count)" by unat_arith
      moreover have "found_count + 1 \<le> idx" using lt by (simp add: inc_le)
      moreover have "unat idx - unat found_count = Suc (unat idx - Suc (unat found_count))"
        using lt by (simp add: word_less_nat_alt)
      ultimately show ?thesis
        using Cons.IH [of "found_count + 1"] Cons.prems True m False by (simp add: Let_def)
    next
      case f: False
      then show ?thesis using Cons.IH [of found_count] Cons.prems m False by (auto simp: Let_def)
    qed
  qed (use Cons.prems in simp)
qed simp

text \<open>C34: the lookup of a registered module returns the entry with the index \<open>idx\<close> of the list of the registered modules that the request applies to, in the order of registration, and the null pointer when there are not so many; but when it has to pass an entry that was emptied, it reads through the null pointer.\<close>

theorem module_get_applicable_registered_driver_eq:
  assumes "\<forall>p \<in> set (registered_list s). p \<noteq> NULL \<longrightarrow> module_at s p \<noteq> None" "module_at s NULL = None"
    and "length (registered_list s) < 2 ^ 64"
  shows "module_get_applicable_registered_driver idx q s =
    (let ms = filter (\<lambda>p. applicable q (the (module_at s p))) (takeWhile (\<lambda>p. p \<noteq> NULL) (registered_list s))
     in if unat idx < length ms then Some (ms ! unat idx)
        else if NULL \<in> set (registered_list s) then None else Some NULL)"
  using lookup_loop_eq [of "registered_list s" s 0 idx q] assms
  by (simp add: module_get_applicable_registered_driver_def Let_def)

subsection \<open>The registered modules as a set\<close>

text \<open>
  What a registry promises: on a good state, \<open>add\<close> that succeeds adds an element, \<open>rem\<close> removes it, and
  \<open>has\<close> tells the members.
\<close>

locale registry =
  fixes add :: "'a \<Rightarrow> 's \<Rightarrow> (bool \<times> 's) option"
    and rem :: "'a \<Rightarrow> 's \<Rightarrow> bool \<times> 's"
    and has :: "'a \<Rightarrow> 's \<Rightarrow> bool"
    and members :: "'s \<Rightarrow> 'a set"
    and valid :: "'a \<Rightarrow> bool"
  assumes add_members: "valid x \<Longrightarrow> add x s = Some (True, s') \<Longrightarrow> members s' = insert x (members s)"
    and rem_members: "valid x \<Longrightarrow> members (snd (rem x s)) = members s - {x}"
    and has_members: "valid x \<Longrightarrow> has x s \<longleftrightarrow> x \<in> members s"

datatype 'a change = Put 'a | Del 'a

fun apply_set :: "'a change list \<Rightarrow> 'a set \<Rightarrow> 'a set" where
  "apply_set [] A = A"
| "apply_set (Put x # cs) A = apply_set cs (insert x A)"
| "apply_set (Del x # cs) A = apply_set cs (A - {x})"

fun changed :: "'a change \<Rightarrow> 'a" where
  "changed (Put x) = x"
| "changed (Del x) = x"

text \<open>A run of changes, each of which succeeds.\<close>

fun run_changes ::
  "('a \<Rightarrow> 's \<Rightarrow> (bool \<times> 's) option) \<Rightarrow> ('a \<Rightarrow> 's \<Rightarrow> bool \<times> 's) \<Rightarrow> 'a change list \<Rightarrow> 's \<Rightarrow> 's option" where
  "run_changes add rem [] s = Some s"
| "run_changes add rem (Put x # cs) s = (case add x s of Some (True, s') \<Rightarrow> run_changes add rem cs s' | _ \<Rightarrow> None)"
| "run_changes add rem (Del x # cs) s = run_changes add rem cs (snd (rem x s))"

context registry
begin

lemma run_members:
  "run_changes add rem cs s = Some s' \<Longrightarrow> \<forall>c \<in> set cs. valid (changed c) \<Longrightarrow> members s' = apply_set cs (members s)"
proof (induction cs arbitrary: s)
  case (Cons c cs)
  show ?case
  proof (cases c)
    case (Put x)
    then show ?thesis using Cons by (auto simp: add_members split: option.splits prod.splits bool.splits)
  next
    case (Del x)
    then show ?thesis using Cons by (simp add: rem_members)
  qed
qed simp

lemma has_after_run:
  assumes "run_changes add rem cs s = Some s'" "\<forall>c \<in> set cs. valid (changed c)" "valid x"
  shows "has x s' \<longleftrightarrow> x \<in> apply_set cs (members s)"
  using run_members [OF assms(1,2)] has_members [OF assms(3)] by simp

end

definition registered_set :: "('b, 'z) module_state_scheme \<Rightarrow> u64 set" where
  "registered_set s = set (registered_list s) - {NULL}"

lemma first_empty_Some: "first_empty i ms = Some j \<Longrightarrow> i \<le> j \<and> j - i < length ms \<and> ms ! (j - i) = NULL"
  by (induction i ms arbitrary: j rule: first_empty.induct) (auto split: if_splits simp: Suc_diff_le nth_Cons')

lemma registered_list_simps [simp]:
  "mo_alloc n s = Some (p, s') \<Longrightarrow> registered_list s' = registered_list s"
  "mo_free a s = Some s' \<Longrightarrow> registered_list s' = registered_list s"
  by (auto simp: mo_alloc_def mo_free_def bind_eq_Some_conv)

lemma grow_registered_list: "grow_registered s = Some (ok, s') \<Longrightarrow> registered_list s' = registered_list s"
  by (auto simp: grow_registered_def mo_alloc_def mo_free_def msay_def Let_def bind_eq_Some_conv split: if_splits)

lemma mark_registered_list: "mark_registered m s = Some (ok, s') \<Longrightarrow> registered_list s' = registered_list s"
  by (auto simp: mark_registered_def upd_module_def bind_eq_Some_conv)

lemma module_register_list:
  assumes "module_register m s = Some (True, s')"
  shows "registered_list s' = (case first_empty 0 (registered_list s) of
    Some i \<Rightarrow> (registered_list s)[i := m] | None \<Rightarrow> registered_list s @ [m])"
proof (cases "first_empty 0 (registered_list s)")
  case None
  then obtain ok s1 where g: "grow_registered s = Some (ok, s1)"
    and m: "(if ok then mark_registered m (s1\<lparr>registered_list := registered_list s1 @ [m]\<rparr>) else Some (False, s1)) = Some (True, s')"
    using assms by (auto simp: module_register_def bind_eq_Some_conv)
  then have "registered_list s' = registered_list s1 @ [m]"
    by (cases ok) (auto dest: mark_registered_list)
  then show ?thesis using None grow_registered_list [OF g] by simp
next
  case (Some i)
  then have "mark_registered m (s\<lparr>registered_list := (registered_list s)[i := m]\<rparr>) = Some (True, s')"
    using assms by (simp add: module_register_def)
  from mark_registered_list [OF this] Some show ?thesis by simp
qed

lemma set_update_empty:
  assumes "i < length xs" "xs ! i = y" "m \<noteq> y"
  shows "set (xs[i := m]) - {y} = insert m (set xs - {y})"
proof -
  have "xs = take i xs @ y # drop (Suc i) xs" using id_take_nth_drop [OF assms(1)] assms(2) by simp
  then have "set xs = set (take i xs) \<union> insert y (set (drop (Suc i) xs))" by (metis set_append list.set(2))
  moreover have "xs[i := m] = take i xs @ m # drop (Suc i) xs" using assms(1) by (rule upd_conv_take_nth_drop)
  ultimately show ?thesis using assms(3) by auto
qed

lemma module_register_set:
  assumes "m \<noteq> NULL" "module_register m s = Some (True, s')"
  shows "registered_set s' = insert m (registered_set s)"
proof (cases "first_empty 0 (registered_list s)")
  case None
  then show ?thesis using module_register_list [OF assms(2)] assms(1) by (auto simp: registered_set_def)
next
  case (Some i)
  then have "i < length (registered_list s)" "registered_list s ! i = NULL"
    using first_empty_Some [OF Some] by simp_all
  from set_update_empty [OF this assms(1)] show ?thesis
    using module_register_list [OF assms(2)] Some by (simp add: registered_set_def)
qed

interpretation modules_registry: registry module_register module_unregister module_already_initialized registered_set "\<lambda>m. m \<noteq> NULL"
proof unfold_locales
  show "registered_set s' = insert x (registered_set s)"
    if "x \<noteq> NULL" "module_register x s = Some (True, s')" for x and s s' :: "('a, 'b) module_state_scheme"
    using that by (rule module_register_set)
  show "registered_set (snd (module_unregister x s)) = registered_set s - {x}"
    if "x \<noteq> NULL" for x and s :: "('a, 'b) module_state_scheme"
    by (auto simp: module_unregister_def registered_set_def)
  show "module_already_initialized x s \<longleftrightarrow> x \<in> registered_set s"
    if "x \<noteq> NULL" for x and s :: "('a, 'b) module_state_scheme"
    using that by (simp add: module_already_initialized_def registered_set_def)
qed

text \<open>C33: after any registrations that succeed and removals, in any order and with places used again, \<open>module_already_initialized\<close> tells exactly the modules that the same changes of a set leave in it.\<close>

theorem module_registry_is_set:
  assumes "run_changes module_register module_unregister cs s = Some s'" "\<forall>c \<in> set cs. changed c \<noteq> NULL" "m \<noteq> NULL"
  shows "module_already_initialized m s' \<longleftrightarrow> m \<in> apply_set cs (registered_set s)"
  by (rule modules_registry.has_after_run [OF assms])

subsection \<open>Instances\<close>

definition sample_module_env :: "unit module_env" where
  "sample_module_env = \<lparr>sizeof_module = 0x200, fresh_module = xhci_module, zero_block_device = (), built_in = (\<lambda>_. True)\<rparr>"

text \<open>A SATA controller at 0x1000, an NVMe controller at 0x2000, and another module at 0x3000.\<close>

definition sample_modules :: "pstate \<Rightarrow> u64 list \<Rightarrow> unit module_state" where
  "sample_modules h ms = \<lparr>m_heap = h, m_said = [],
     module_at = [0x1000 \<mapsto> sata_module sample_module_env 0, 0x2000 \<mapsto> nvme_module sample_module_env 1, 0x3000 \<mapsto> xhci_module 3],
     modules = 0x8000, module_count = 4, module_cap = 16, registered_modules = 0x9000, registered_list = ms,
     registered_module_cap = 16\<rparr>"

definition storage_query :: query where
  "storage_query = \<lparr>q_class = PCI_CLASS_MASS_STORAGE, q_subclass = 0, q_use_subclass = 0, q_progif = 0, q_use_progif = 0,
     q_revision = 0, q_use_revision = 0, q_vendor = 0, q_use_vendor = 0\<rparr>"

lemmas sample_module_defs = sample_module_env_def sata_module_def nvme_module_def xhci_module_def driver_hdr_def
  applicable_def storage_query_def PCI_CLASS_MASS_STORAGE_def PCI_CLASS_SERIAL_BUS_CONTROLLER_def

lemma module_get_applicable_registered_driver_eq_witness:
  "\<forall>h. module_get_applicable_registered_driver 1 storage_query (sample_modules h [0x3000, 0x1000, 0x2000]) = Some 0x2000 \<and>
    module_get_applicable_registered_driver 1 storage_query (sample_modules h [0x3000, 0x1000, 0, 0x2000]) = None"
proof
  fix h
  have q: "applicable storage_query (sata_module sample_module_env 0)" "applicable storage_query (nvme_module sample_module_env 1)"
    "\<not> applicable storage_query (xhci_module 3 :: unit aos_module)"
    by (simp_all add: sample_module_defs)
  then show "module_get_applicable_registered_driver 1 storage_query (sample_modules h [0x3000, 0x1000, 0x2000]) = Some 0x2000 \<and>
      module_get_applicable_registered_driver 1 storage_query (sample_modules h [0x3000, 0x1000, 0, 0x2000]) = None"
    using module_get_applicable_registered_driver_eq [of "sample_modules h [0x3000, 0x1000, 0x2000]" 1 storage_query]
      module_get_applicable_registered_driver_eq [of "sample_modules h [0x3000, 0x1000, 0, 0x2000]" 1 storage_query]
    by (simp add: sample_modules_def Let_def)
qed

text \<open>The third module takes the place of the first.\<close>

lemma module_registry_is_set_witness:
  "\<forall>h. \<exists>s'. run_changes module_register module_unregister [Put 0x1000, Put 0x2000, Del 0x1000, Put 0x3000] (sample_modules h []) = Some s' \<and>
    registered_list s' = [0x3000, 0x2000] \<and> \<not> module_already_initialized 0x1000 s'"
proof
  fix h
  let ?cs = "[Put 0x1000, Put 0x2000, Del 0x1000, Put 0x3000] :: u64 change list"
  obtain s' where s': "run_changes module_register module_unregister ?cs (sample_modules h []) = Some s'"
      "registered_list s' = [0x3000, 0x2000]"
    by (simp add: sample_modules_def module_register_def grow_registered_def mark_registered_def upd_module_def module_unregister_def word_le_nat_alt)
  moreover have "\<not> module_already_initialized 0x1000 s'"
    using module_registry_is_set [OF s'(1), of "0x1000"] by (simp add: registered_set_def sample_modules_def)
  ultimately show "\<exists>s'. run_changes module_register module_unregister ?cs (sample_modules h []) = Some s' \<and>
      registered_list s' = [0x3000, 0x2000] \<and> \<not> module_already_initialized 0x1000 s'" by blast
qed

end
