(* ===== verification/Pcie.thy ===== *)
theory Pcie
  imports ModuleSpec
begin

text \<open>
  \<^verbatim>\<open>Kernel/drivers/core/pcie.c\<close>: reading and writing the configuration space, through the memory that
  the MCFG table names or through the ports, finding functions, and registering a module for each.

  The state is that of the modules with the table and the trace of accesses. What \<open>init_module\<close> of a
  driver does is an argument.
\<close>

subsection \<open>State\<close>

record mcfg_entry =
  base_addr :: u64
  pcie_segment :: u16
  start_bus :: u8
  end_bus :: u8

record mcfg =
  mcfg_length :: u32
  mcfg_entries :: "mcfg_entry list"

record 'b pcie = "'b module_state" +
  mcfg_table :: "mcfg option"
  mcfg_num_segs :: u64
  pci_trace :: trace

record 'b pcie_env =
  p_dev :: device
  p_modules :: "'b module_env"
  call_init :: "string \<Rightarrow> u64 \<Rightarrow> 'b pcie \<Rightarrow> (bool \<times> 'b pcie) option"

definition PCI_MAX_BUS :: nat where "PCI_MAX_BUS = 256"
definition PCI_MAX_SLOT :: nat where "PCI_MAX_SLOT = 32"
definition PCI_MAX_FUNC :: nat where "PCI_MAX_FUNC = 8"
definition PCI_BAR0 :: u8 where "PCI_BAR0 = 0x10"

definition sizeof_acpi_mcfg :: u64 where "sizeof_acpi_mcfg = 44"
definition sizeof_acpi_mcfg_entry :: u64 where "sizeof_acpi_mcfg_entry = 16"

subsection \<open>The configuration space\<close>

fun segment_loop :: "u8 \<Rightarrow> nat list \<Rightarrow> mcfg_entry list \<Rightarrow> int option" where
  "segment_loop bus_no [] es = Some (- 1)"
| "segment_loop bus_no (i # is) es =
     (if i \<ge> length es then None
      else if bus_no \<ge> start_bus (es ! i) \<and> bus_no \<le> end_bus (es ! i) then Some (int i)
      else segment_loop bus_no is es)"

text \<open>The entry with the bus, or -1; \<open>None\<close>: the loop has left the table.\<close>

definition get_segment :: "u8 \<Rightarrow> 'b pcie \<Rightarrow> int option" where
  "get_segment bus_no s = (case mcfg_table s of None \<Rightarrow> Some (- 1)
     | Some t \<Rightarrow> segment_loop bus_no [0..<unat (mcfg_num_segs s)] (mcfg_entries t))"

text \<open>The entry that an access goes through, if any.\<close>

definition entry_of :: "u8 \<Rightarrow> 'b pcie \<Rightarrow> mcfg_entry option option" where
  "entry_of bus_no s = (case mcfg_table s of None \<Rightarrow> Some None
     | Some t \<Rightarrow> do {
         i \<leftarrow> get_segment bus_no s;
         Some (if 0 \<le> i \<and> i < int (unat (mcfg_num_segs s)) then Some (mcfg_entries t ! nat i) else None)
       })"

definition function_offset :: "u8 \<Rightarrow> u8 \<Rightarrow> u8 \<Rightarrow> mcfg_entry \<Rightarrow> u64" where
  "function_offset bus_no slot_no func_no en =
     push_bit 20 (ucast bus_no - ucast (start_bus en)) + push_bit 15 (ucast slot_no) + push_bit 12 (ucast func_no)"

definition port_address :: "u8 \<Rightarrow> u8 \<Rightarrow> u8 \<Rightarrow> u8 \<Rightarrow> u32" where
  "port_address bus_no slot_no func_no offset =
     push_bit 31 1 OR push_bit 16 (ucast bus_no) OR push_bit 11 (ucast slot_no) OR push_bit 8 (ucast func_no) OR
     (ucast offset AND 0xFC)"

definition pcie_read :: "'b pcie_env \<Rightarrow> u8 \<Rightarrow> u8 \<Rightarrow> u8 \<Rightarrow> u8 \<Rightarrow> 'b pcie \<Rightarrow> (u32 \<times> 'b pcie) option" where
  "pcie_read e bus_no slot_no func_no offset s = do {
     let offset = offset AND NOT 3;
     en \<leftarrow> entry_of bus_no s;
     case en of
       Some en \<Rightarrow>
         let (v, t) = load32 (p_dev e) (AOS_DIRECT_MAP_BASE + base_addr en + function_offset bus_no slot_no func_no en + ucast offset) (pci_trace s)
         in Some (v, s\<lparr>pci_trace := t\<rparr>)
     | None \<Rightarrow>
         let t = asm_outl 0xCF8 (port_address bus_no slot_no func_no offset) (pci_trace s);
             (v, t) = asm_inl (p_dev e) 0xCFC t
         in Some (v, s\<lparr>pci_trace := t\<rparr>)
   }"

text \<open>The address of a write has the number of the segment added in.\<close>

definition pcie_write :: "u8 \<Rightarrow> u8 \<Rightarrow> u8 \<Rightarrow> u8 \<Rightarrow> u32 \<Rightarrow> 'b pcie \<Rightarrow> (bool \<times> 'b pcie) option" where
  "pcie_write bus_no slot_no func_no offset v s = do {
     let offset = offset AND NOT 3;
     en \<leftarrow> entry_of bus_no s;
     case en of
       Some en \<Rightarrow>
         Some (True, s\<lparr>pci_trace := store32 (AOS_DIRECT_MAP_BASE + base_addr en + push_bit 28 (ucast (pcie_segment en)) +
           function_offset bus_no slot_no func_no en + ucast offset) v (pci_trace s)\<rparr>)
     | None \<Rightarrow>
         let t = asm_outl 0xCF8 (port_address bus_no slot_no func_no offset) (pci_trace s)
         in Some (True, s\<lparr>pci_trace := asm_outl 0xCFC v t\<rparr>)
   }"

definition pcie_read_bar :: "'b pcie_env \<Rightarrow> u8 \<Rightarrow> u8 \<Rightarrow> u8 \<Rightarrow> u8 \<Rightarrow> 'b pcie \<Rightarrow> (u32 \<times> 'b pcie) option" where
  "pcie_read_bar e bus_no slot_no func_no bar s = pcie_read e bus_no slot_no func_no (PCI_BAR0 + bar * 4) s"

definition pcie_write_bar :: "u8 \<Rightarrow> u8 \<Rightarrow> u8 \<Rightarrow> u8 \<Rightarrow> u32 \<Rightarrow> 'b pcie \<Rightarrow> (bool \<times> 'b pcie) option" where
  "pcie_write_bar bus_no slot_no func_no bar v s = pcie_write bus_no slot_no func_no (PCI_BAR0 + bar * 4) v s"

definition pcie_config_read16 :: "'b pcie_env \<Rightarrow> u8 \<Rightarrow> u8 \<Rightarrow> u8 \<Rightarrow> u8 \<Rightarrow> 'b pcie \<Rightarrow> (u16 \<times> 'b pcie) option" where
  "pcie_config_read16 e bus_no slot_no func_no offset s = do {
     let offset = offset AND NOT 3;
     (v, s) \<leftarrow> pcie_read e bus_no slot_no func_no (offset AND 0xFC) s;
     Some (if offset AND 2 \<noteq> 0 then ucast (drop_bit 16 v) else ucast (v AND 0xFFFF), s)
   }"

text \<open>One bit of the command register.\<close>

definition toggle_command :: "nat \<Rightarrow> 'b pcie_env \<Rightarrow> u8 \<Rightarrow> u8 \<Rightarrow> u8 \<Rightarrow> bool \<Rightarrow> 'b pcie \<Rightarrow> (bool \<times> 'b pcie) option" where
  "toggle_command n e bus_no slot_no func_no toggle s = do {
     (v, s) \<leftarrow> pcie_read e bus_no slot_no func_no 0x04 s;
     pcie_write bus_no slot_no func_no 0x04 (if toggle then v OR push_bit n 1 else v AND NOT (push_bit n 1)) s
   }"

definition get_command :: "nat \<Rightarrow> 'b pcie_env \<Rightarrow> u8 \<Rightarrow> u8 \<Rightarrow> u8 \<Rightarrow> 'b pcie \<Rightarrow> (bool \<times> 'b pcie) option" where
  "get_command n e bus_no slot_no func_no s = do {
     (v, s) \<leftarrow> pcie_read e bus_no slot_no func_no 0x04 s;
     Some (v AND push_bit n 1 \<noteq> 0, s)
   }"

definition pcie_toggle_busmaster :: "'b pcie_env \<Rightarrow> u8 \<Rightarrow> u8 \<Rightarrow> u8 \<Rightarrow> bool \<Rightarrow> 'b pcie \<Rightarrow> (bool \<times> 'b pcie) option" where
  "pcie_toggle_busmaster = toggle_command 2"

definition pcie_toggle_memory_space :: "'b pcie_env \<Rightarrow> u8 \<Rightarrow> u8 \<Rightarrow> u8 \<Rightarrow> bool \<Rightarrow> 'b pcie \<Rightarrow> (bool \<times> 'b pcie) option" where
  "pcie_toggle_memory_space = toggle_command 1"

definition pcie_get_busmaster_toggled :: "'b pcie_env \<Rightarrow> u8 \<Rightarrow> u8 \<Rightarrow> u8 \<Rightarrow> 'b pcie \<Rightarrow> (bool \<times> 'b pcie) option" where
  "pcie_get_busmaster_toggled = get_command 2"

definition pcie_get_memory_space_toggled :: "'b pcie_env \<Rightarrow> u8 \<Rightarrow> u8 \<Rightarrow> u8 \<Rightarrow> 'b pcie \<Rightarrow> (bool \<times> 'b pcie) option" where
  "pcie_get_memory_space_toggled = get_command 1"

subsection \<open>Enumeration\<close>

text \<open>
  The loops over segments, buses, slots and functions. \<open>act\<close> gives a result to return with, or none
  to go on. Slots have eight functions when bit 7 of the header type of their first function is set.
\<close>

fun for_functions ::
  "(u8 \<Rightarrow> u8 \<Rightarrow> u8 \<Rightarrow> 'b pcie \<Rightarrow> ('r option \<times> 'b pcie) option) \<Rightarrow> u8 \<Rightarrow> u8 \<Rightarrow> nat list \<Rightarrow> 'b pcie \<Rightarrow> ('r option \<times> 'b pcie) option" where
  "for_functions act b sl [] s = Some (None, s)"
| "for_functions act b sl (f # fs) s = do {
     (r, s) \<leftarrow> act b sl (of_nat f) s;
     case r of None \<Rightarrow> for_functions act b sl fs s | Some x \<Rightarrow> Some (Some x, s)
   }"

fun for_slots ::
  "'b pcie_env \<Rightarrow> (u8 \<Rightarrow> u8 \<Rightarrow> u8 \<Rightarrow> 'b pcie \<Rightarrow> ('r option \<times> 'b pcie) option) \<Rightarrow> u8 \<Rightarrow> nat list \<Rightarrow> 'b pcie \<Rightarrow> ('r option \<times> 'b pcie) option" where
  "for_slots e act b [] s = Some (None, s)"
| "for_slots e act b (sl # sls) s = do {
     (v, s) \<leftarrow> pcie_read e b (of_nat sl) 0 0x0C s;
     (r, s) \<leftarrow> for_functions act b (of_nat sl)
       [0..<if (drop_bit 16 v AND 0xFF) AND 0x80 \<noteq> 0 then PCI_MAX_FUNC else 1] s;
     case r of None \<Rightarrow> for_slots e act b sls s | Some x \<Rightarrow> Some (Some x, s)
   }"

fun for_buses ::
  "'b pcie_env \<Rightarrow> (u8 \<Rightarrow> u8 \<Rightarrow> u8 \<Rightarrow> 'b pcie \<Rightarrow> ('r option \<times> 'b pcie) option) \<Rightarrow> nat list \<Rightarrow> 'b pcie \<Rightarrow> ('r option \<times> 'b pcie) option" where
  "for_buses e act [] s = Some (None, s)"
| "for_buses e act (b # bs) s = do {
     (r, s) \<leftarrow> for_slots e act (of_nat b) [0..<PCI_MAX_SLOT] s;
     case r of None \<Rightarrow> for_buses e act bs s | Some x \<Rightarrow> Some (Some x, s)
   }"

text \<open>The first and the last bus of a segment.\<close>

definition bus_range :: "nat \<Rightarrow> 'b pcie \<Rightarrow> (u8 \<times> u8) option" where
  "bus_range seg s = (case mcfg_table s of None \<Rightarrow> Some (0, of_nat (PCI_MAX_BUS - 1))
     | Some t \<Rightarrow> if seg < length (mcfg_entries t) then Some (start_bus (mcfg_entries t ! seg), end_bus (mcfg_entries t ! seg)) else None)"

fun for_segments ::
  "'b pcie_env \<Rightarrow> (nat \<Rightarrow> 'b pcie \<Rightarrow> 'b pcie) \<Rightarrow> (u8 \<Rightarrow> u8 \<Rightarrow> u8 \<Rightarrow> 'b pcie \<Rightarrow> ('r option \<times> 'b pcie) option) \<Rightarrow> nat list \<Rightarrow> 'b pcie \<Rightarrow> ('r option \<times> 'b pcie) option" where
  "for_segments e announce act [] s = Some (None, s)"
| "for_segments e announce act (seg # segs) s = do {
     (first, final) \<leftarrow> bus_range seg s;
     (r, s) \<leftarrow> for_buses e act [unat first..<Suc (unat final)] (announce seg s);
     case r of None \<Rightarrow> for_segments e announce act segs s | Some x \<Rightarrow> Some (Some x, s)
   }"

definition segment_count :: "'b pcie \<Rightarrow> nat" where
  "segment_count s = (case mcfg_table s of None \<Rightarrow> 1 | Some _ \<Rightarrow> unat (mcfg_num_segs s))"

subsection \<open>Finding a function\<close>

text \<open>The bytes of the word at 0x08.\<close>

definition class_of :: "u32 \<Rightarrow> u8" where "class_of v = ucast (drop_bit 24 v AND 0xFF)"
definition subclass_of :: "u32 \<Rightarrow> u8" where "subclass_of v = ucast (drop_bit 16 v AND 0xFF)"
definition progif_of :: "u32 \<Rightarrow> u8" where "progif_of v = ucast (drop_bit 8 v AND 0xFF)"
definition revision_of :: "u32 \<Rightarrow> u8" where "revision_of v = ucast (v AND 0xFF)"

definition find_body ::
  "'b pcie_env \<Rightarrow> (u32 \<Rightarrow> bool) \<Rightarrow> u16 \<Rightarrow> bool \<Rightarrow> u8 \<Rightarrow> u8 \<Rightarrow> u8 \<Rightarrow> 'b pcie \<Rightarrow> ((u8 \<times> u8 \<times> u8 \<times> u32) option \<times> 'b pcie) option" where
  "find_body e wanted target use_vendor b sl f s = do {
     (v, s) \<leftarrow> pcie_read e b sl f 0 s;
     let vendor = ucast (v AND 0xFFFF);
     if vendor = 0xFFFF then Some (None, s)
     else if use_vendor \<and> vendor \<noteq> target then Some (None, s)
     else do {
       (c, s) \<leftarrow> pcie_read e b sl f 0x08 s;
       if wanted c then do {
         (bar0, s) \<leftarrow> pcie_read e b sl f 0x10 s;
         Some (Some (b, sl, f, bar0), s)
       }
       else Some (None, s)
     }
   }"

text \<open>The result is what the four pointers are set to; \<open>None\<close> inside the result: nothing was found.\<close>

definition find_function ::
  "'b pcie_env \<Rightarrow> (u32 \<Rightarrow> bool) \<Rightarrow> u16 \<Rightarrow> bool \<Rightarrow> 'b pcie \<Rightarrow> ((u8 \<times> u8 \<times> u8 \<times> u32) option \<times> 'b pcie) option" where
  "find_function e wanted target use_vendor s =
     for_segments e (\<lambda>_ s. s) (find_body e wanted target use_vendor) [0..<segment_count s] s"

definition pcie_find ::
  "'b pcie_env \<Rightarrow> u8 \<Rightarrow> u16 \<Rightarrow> bool \<Rightarrow> 'b pcie \<Rightarrow> ((u8 \<times> u8 \<times> u8 \<times> u32) option \<times> 'b pcie) option" where
  "pcie_find e c = find_function e (\<lambda>v. class_of v = c)"

definition pcie_find_ex ::
  "'b pcie_env \<Rightarrow> u8 \<Rightarrow> u8 \<Rightarrow> u8 \<Rightarrow> u16 \<Rightarrow> bool \<Rightarrow> 'b pcie \<Rightarrow> ((u8 \<times> u8 \<times> u8 \<times> u32) option \<times> 'b pcie) option" where
  "pcie_find_ex e c sub progif = find_function e (\<lambda>v. class_of v = c \<and> subclass_of v = sub \<and> progif_of v = progif)"

definition pcie_find_rex ::
  "'b pcie_env \<Rightarrow> u8 \<Rightarrow> u8 \<Rightarrow> u8 \<Rightarrow> u8 \<Rightarrow> u16 \<Rightarrow> bool \<Rightarrow> 'b pcie \<Rightarrow> ((u8 \<times> u8 \<times> u8 \<times> u32) option \<times> 'b pcie) option" where
  "pcie_find_rex e c sub progif revision = find_function e
     (\<lambda>v. class_of v = c \<and> subclass_of v = sub \<and> progif_of v = progif \<and> revision_of v = revision)"

subsection \<open>Registering the modules\<close>

definition num :: "'a::len word \<Rightarrow> msg_arg" where "num x = Num (ucast x)"

text \<open>The address of the record of the device inside a module.\<close>

definition pcie_device_in :: "u64 \<Rightarrow> u64" where "pcie_device_in m = m + 64"

definition link_connector :: "u64 \<Rightarrow> 'b module_driver \<Rightarrow> 'b module_driver" where
  "link_connector m d =
     (case (d_type d, connector d) of
        (MODULE_DRIVER_TYPE_SATA, Drive_connector c) \<Rightarrow> d\<lparr>connector := Drive_connector (c\<lparr>dr_pcie_device := pcie_device_in m\<rparr>)\<rparr>
      | (MODULE_DRIVER_TYPE_GPU, Gpu_connector c) \<Rightarrow> d\<lparr>connector := Gpu_connector (c\<lparr>g_pcie_device := pcie_device_in m\<rparr>)\<rparr>
      | _ \<Rightarrow> d)"

text \<open>One function of a device that is there. The result is always to go on.\<close>

definition register_body :: "'b pcie_env \<Rightarrow> u8 \<Rightarrow> u8 \<Rightarrow> u8 \<Rightarrow> 'b pcie \<Rightarrow> (unit option \<times> 'b pcie) option" where
  "register_body e b sl f s = do {
     (data, s) \<leftarrow> pcie_read e b sl f 0 s;
     let vendor = ucast (data AND 0xFFFF);
     if vendor = 0xFFFF then Some (None, s)
     else do {
       (v, s) \<leftarrow> pcie_read e b sl f 0x08 s;
       let s = msay ''[PCIe] %02x:%02x.%x Vendor=%04x Class=%02x Sub=%02x IF=%02x DATA=%08x''
         [num b, num sl, num f, num vendor, num (class_of v), num (subclass_of v), num (progif_of v), num data] s;
       (m, s) \<leftarrow> module_get_applicable_driver_alloced (p_modules e) 0
         \<lparr>q_class = class_of v, q_subclass = subclass_of v, q_use_subclass = 1, q_progif = progif_of v, q_use_progif = 1,
          q_revision = revision_of v, q_use_revision = 1, q_vendor = vendor, q_use_vendor = 1\<rparr> s;
       if m = NULL then Some (None, s)
       else do {
         md \<leftarrow> module_at s m;
         if m_type (m_hdr md) \<noteq> MODULE_TYPE_DRIVER then Some (None, s)
         else if module_already_initialized m s then Some (None, s)
         else do {
           let s = msay ''[PCIe] Registering Module %s, Got for Class:%d SClass:%d Progif:%d''
             [Str (m_name (m_hdr md)), num (class_of v), num (subclass_of v), num (progif_of v)] s;
           (bar0, s) \<leftarrow> pcie_read e b sl f 0x10 s;
           s \<leftarrow> upd_module m (\<lambda>md. md\<lparr>driver_module := link_connector m ((driver_module md)\<lparr>d_pcie_device :=
             \<lparr>pd_vendor_id = vendor, pd_device_id = ucast (drop_bit 16 data AND 0xFFFF), pd_class_code = class_of v,
              pd_subclass = subclass_of v, pd_prog_if = progif_of v, pd_bus = b, pd_slot = sl, pd_func = f,
              pd_bar0 = ucast bar0\<rparr>\<rparr>)\<rparr>) s;
           (ok, s) \<leftarrow> (if initialize_on_register md then call_init e (init_module md) m s else Some (True, s));
           if \<not> ok then do {
             md \<leftarrow> module_at s m;
             s \<leftarrow> free_module m (msay ''[PCIe] Module %s failed to initialize!'' [Str (m_name (m_hdr md))] s);
             Some (None, s)
           }
           else do { (_, s) \<leftarrow> module_register m s; Some (None, s) }
         }
       }
     }
   }"

definition announce_segment :: "nat \<Rightarrow> 'b pcie \<Rightarrow> 'b pcie" where
  "announce_segment seg s = (case bus_range seg s of None \<Rightarrow> s
     | Some (first, final) \<Rightarrow> msay ''[PCIe] Enumerating Segment %llu (Start Bus - %u , End Bus - %u)''
         [Num (of_nat seg), num first, num final] s)"

definition pcie_init :: "'b pcie_env \<Rightarrow> mcfg option \<Rightarrow> 'b pcie \<Rightarrow> (bool \<times> 'b pcie) option" where
  "pcie_init e tbl s = do {
     let s = s\<lparr>mcfg_table := tbl\<rparr>;
     let s = (case tbl of
         None \<Rightarrow> msay ''[PCIe] Did not get MCFG Table! Using PCI'' [] s
       | Some t \<Rightarrow>
           let n = (ucast (mcfg_length t) - sizeof_acpi_mcfg) div sizeof_acpi_mcfg_entry
           in msay ''[PCIe] MCFG Segment Count : %u'' [Num n] (s\<lparr>mcfg_num_segs := n\<rparr>));
     let s = msay ''[PCIe] Registering Modules...'' [] s;
     (_, s) \<leftarrow> for_segments e announce_segment (register_body e) [0..<segment_count s] s;
     Some (True, msay ''[PCIe] Modules Registered'' [] s)
   }"

end
