(* ===== verification/PcieSpec.thy ===== *)
theory PcieSpec
  imports Pcie
begin

text \<open>
  What \<open>Pcie\<close> does: the searches are the search through the list of all functions, and every module
  that is registered carries the identity of a function that is there.
\<close>

subsection \<open>A configuration space\<close>

text \<open>Whatever was accessed before, a read gives what \<open>cfg\<close> says.\<close>

definition serves :: "'b pcie_env \<Rightarrow> (u8 \<Rightarrow> u8 \<Rightarrow> u8 \<Rightarrow> u8 \<Rightarrow> u32) \<Rightarrow> 'b pcie \<Rightarrow> bool" where
  "serves e cfg s \<longleftrightarrow> (\<forall>b sl f off t. \<exists>t'. pcie_read e b sl f off (s\<lparr>pci_trace := t\<rparr>) =
     Some (cfg b sl f off, s\<lparr>pci_trace := t'\<rparr>))"

definition same_but_trace :: "'b pcie \<Rightarrow> 'b pcie \<Rightarrow> bool" where
  "same_but_trace s s' \<longleftrightarrow> (\<exists>t. s' = s\<lparr>pci_trace := t\<rparr>)"

lemma same_refl [simp]: "same_but_trace s s"
  unfolding same_but_trace_def by (rule exI [of _ "pci_trace s"]) simp

lemma serves_read:
  assumes "serves e cfg s" "same_but_trace s s'"
  shows "\<exists>s''. pcie_read e b sl f off s' = Some (cfg b sl f off, s'') \<and> same_but_trace s s''"
  using assms by (fastforce simp: serves_def same_but_trace_def)

text \<open>The functions of a slot, of a bus, and of all segments, in the order of the loops.\<close>

definition functions_of :: "(u8 \<Rightarrow> u8 \<Rightarrow> u8 \<Rightarrow> u8 \<Rightarrow> u32) \<Rightarrow> u8 \<Rightarrow> u8 \<Rightarrow> (u8 \<times> u8 \<times> u8) list" where
  "functions_of cfg b sl = map (\<lambda>f. (b, sl, of_nat f)) [0..<if bit (cfg b sl 0 0x0C) 23 then 8 else 1]"

definition bus_functions :: "(u8 \<Rightarrow> u8 \<Rightarrow> u8 \<Rightarrow> u8 \<Rightarrow> u32) \<Rightarrow> u8 \<Rightarrow> (u8 \<times> u8 \<times> u8) list" where
  "bus_functions cfg b = concat (map (\<lambda>sl. functions_of cfg b (of_nat sl)) [0..<32])"

definition buses_of :: "'b pcie \<Rightarrow> u8 list" where
  "buses_of s = concat (map (\<lambda>seg. case bus_range seg s of None \<Rightarrow> []
     | Some (first, final) \<Rightarrow> map of_nat [unat first..<Suc (unat final)]) [0..<segment_count s])"

definition all_functions :: "(u8 \<Rightarrow> u8 \<Rightarrow> u8 \<Rightarrow> u8 \<Rightarrow> u32) \<Rightarrow> 'b pcie \<Rightarrow> (u8 \<times> u8 \<times> u8) list" where
  "all_functions cfg s = concat (map (bus_functions cfg) (buses_of s))"

definition table_complete :: "'b pcie \<Rightarrow> bool" where
  "table_complete s \<longleftrightarrow> (\<forall>seg < segment_count s. bus_range seg s \<noteq> None)"

subsection \<open>The loops as a search\<close>

fun first_some :: "('a \<Rightarrow> 'r option) \<Rightarrow> 'a list \<Rightarrow> 'r option" where
  "first_some g [] = None"
| "first_some g (x # xs) = (case g x of None \<Rightarrow> first_some g xs | Some y \<Rightarrow> Some y)"

lemma first_some_append:
  "first_some g (xs @ ys) = (case first_some g xs of None \<Rightarrow> first_some g ys | Some y \<Rightarrow> Some y)"
  by (induction xs) (auto split: option.splits)

lemma first_some_find: "first_some (\<lambda>x. if P x then Some (h x) else None) xs = map_option h (List.find P xs)"
  by (induction xs) auto

text \<open>A computation whose result is \<open>r\<close> and that changes only the trace.\<close>

definition gives :: "'b pcie \<Rightarrow> 'r \<Rightarrow> ('r \<times> 'b pcie) option \<Rightarrow> bool" where
  "gives s0 r c \<longleftrightarrow> (\<exists>s'. c = Some (r, s') \<and> same_but_trace s0 s')"

lemma gives_bind:
  assumes "gives s0 r c" "\<And>s'. same_but_trace s0 s' \<Longrightarrow> gives s0 q (k (r, s'))"
  shows "gives s0 q (do { rs \<leftarrow> c; k rs })"
  using assms by (auto simp: gives_def)

lemma gives_Some [simp]: "gives s0 r (Some (q, s')) \<longleftrightarrow> q = r \<and> same_but_trace s0 s'"
  by (auto simp: gives_def)

lemma gives_read: "serves e cfg s0 \<Longrightarrow> same_but_trace s0 s \<Longrightarrow> gives s0 (cfg b sl f off) (pcie_read e b sl f off s)"
  using serves_read [of e cfg s0 s] by (auto simp: gives_def)

text \<open>An action that gives \<open>g\<close> at every function.\<close>

definition acts :: "'b pcie \<Rightarrow> (u8 \<times> u8 \<times> u8 \<Rightarrow> 'r option) \<Rightarrow> (u8 \<Rightarrow> u8 \<Rightarrow> u8 \<Rightarrow> 'b pcie \<Rightarrow> ('r option \<times> 'b pcie) option) \<Rightarrow> bool" where
  "acts s0 g act \<longleftrightarrow> (\<forall>b sl f s. same_but_trace s0 s \<longrightarrow> gives s0 (g (b, sl, f)) (act b sl f s))"

lemma for_functions_gives:
  "acts s0 g act \<Longrightarrow> same_but_trace s0 s \<Longrightarrow>
   gives s0 (first_some g (map (\<lambda>f. (b, sl, of_nat f)) fs)) (for_functions act b sl fs s)"
proof (induction fs arbitrary: s)
  case (Cons f fs)
  have "gives s0 (g (b, sl, of_nat f)) (act b sl (of_nat f) s)" using Cons.prems by (simp add: acts_def)
  from this Cons show ?case
    by (auto intro!: gives_bind split: option.split)
qed simp

lemma multifunction_bit: "(drop_bit 16 (v :: u32) AND 0xFF) AND 0x80 \<noteq> 0 \<longleftrightarrow> bit v 23"
proof -
  have "bit (push_bit 7 1 :: u32) n \<longleftrightarrow> n = 7" for n unfolding bit_simps by auto
  then have b7: "bit (0x80 :: u32) n \<longleftrightarrow> n = 7" for n by simp
  have "bit (mask 8 :: u32) n \<longleftrightarrow> n < 8" for n unfolding bit_simps by auto
  then have b8: "bit (0xFF :: u32) n \<longleftrightarrow> n < 8" for n by (simp add: mask_eq_exp_minus_1)
  have "(drop_bit 16 v AND 0xFF) AND 0x80 = (if bit v 23 then 0x80 else 0)"
    by (rule bit_word_eqI) (cases "bit v 23"; simp only: bit_and_iff b7 b8 if_True if_False bit_0_eq; auto simp: bit_simps)
  then show ?thesis by simp
qed

lemma slot_gives:
  assumes "acts s0 g act" "same_but_trace s0 s"
  shows "gives s0 (first_some g (functions_of cfg b sl)) (for_functions act b sl
    [0..<if (drop_bit 16 (cfg b sl 0 0x0C) AND 0xFF) AND 0x80 \<noteq> 0 then PCI_MAX_FUNC else 1] s)"
  unfolding functions_of_def multifunction_bit PCI_MAX_FUNC_def using assms by (rule for_functions_gives)

lemma for_slots_gives:
  assumes "serves e cfg s0" "acts s0 g act"
  shows "same_but_trace s0 s \<Longrightarrow>
    gives s0 (first_some g (concat (map (\<lambda>sl. functions_of cfg b (of_nat sl)) sls))) (for_slots e act b sls s)"
proof (induction sls arbitrary: s)
  case (Cons sl sls)
  show ?case unfolding for_slots.simps
  proof (rule gives_bind [OF gives_read [OF assms(1) Cons.prems]], unfold prod.case, rule gives_bind [OF slot_gives [OF assms(2)]])
    fix s1 s2 assume s: "same_but_trace s0 s1" "same_but_trace s0 s2"
    then show "gives s0 (first_some g (concat (map (\<lambda>sl. functions_of cfg b (of_nat sl)) (sl # sls))))
        (case (first_some g (functions_of cfg b (of_nat sl)), s2) of (r, s) \<Rightarrow>
          case r of None \<Rightarrow> for_slots e act b sls s | Some x \<Rightarrow> Some (Some x, s))"
      by (auto simp: first_some_append Cons.IH split: option.split)
  qed
qed simp

lemma for_buses_gives:
  assumes "serves e cfg s0" "acts s0 g act"
  shows "same_but_trace s0 s \<Longrightarrow>
    gives s0 (first_some g (concat (map (\<lambda>b. bus_functions cfg (of_nat b)) bs))) (for_buses e act bs s)"
proof (induction bs arbitrary: s)
  case (Cons b bs)
  have "gives s0 (first_some g (bus_functions cfg (of_nat b))) (for_slots e act (of_nat b) [0..<PCI_MAX_SLOT] s)"
    unfolding bus_functions_def PCI_MAX_SLOT_def by (rule for_slots_gives [OF assms Cons.prems])
  then show ?case unfolding for_buses.simps
    by (rule gives_bind) (auto simp: first_some_append Cons.IH split: option.split)
qed simp

lemma bus_range_same: "same_but_trace s0 s \<Longrightarrow> bus_range seg s = bus_range seg s0"
  by (auto simp: same_but_trace_def bus_range_def)

lemma for_segments_gives:
  assumes "serves e cfg s0" "acts s0 g act"
  shows "same_but_trace s0 s \<Longrightarrow> \<forall>seg \<in> set segs. bus_range seg s0 \<noteq> None \<Longrightarrow>
    gives s0 (first_some g (concat (map (bus_functions cfg) (concat (map (\<lambda>seg. case bus_range seg s0 of None \<Rightarrow> []
       | Some (first, final) \<Rightarrow> map of_nat [unat first..<Suc (unat final)]) segs)))))
      (for_segments e (\<lambda>_ s. s) act segs s)"
proof (induction segs arbitrary: s)
  case (Cons seg segs)
  then obtain first final where r: "bus_range seg s0 = Some (first, final)" by fastforce
  show ?case
    using Cons.prems
    by (auto simp: first_some_append r bus_range_same [OF Cons.prems(1)] Cons.IH comp_def simp del: upt_Suc
      intro!: gives_bind [OF for_buses_gives [OF assms Cons.prems(1)]] split: option.split)
qed simp

subsection \<open>The searches\<close>

definition vendor_at :: "(u8 \<Rightarrow> u8 \<Rightarrow> u8 \<Rightarrow> u8 \<Rightarrow> u32) \<Rightarrow> u8 \<times> u8 \<times> u8 \<Rightarrow> u16" where
  "vendor_at cfg = (\<lambda>(b, sl, f). ucast (cfg b sl f 0))"

definition class_at :: "(u8 \<Rightarrow> u8 \<Rightarrow> u8 \<Rightarrow> u8 \<Rightarrow> u32) \<Rightarrow> u8 \<times> u8 \<times> u8 \<Rightarrow> u32" where
  "class_at cfg = (\<lambda>(b, sl, f). cfg b sl f 8)"

text \<open>The first function that is there, has the vendor if one is asked for, and has a class that is wanted.\<close>

definition search :: "(u8 \<Rightarrow> u8 \<Rightarrow> u8 \<Rightarrow> u8 \<Rightarrow> u32) \<Rightarrow> (u32 \<Rightarrow> bool) \<Rightarrow> u16 \<Rightarrow> bool \<Rightarrow> 'b pcie \<Rightarrow> (u8 \<times> u8 \<times> u8 \<times> u32) option" where
  "search cfg wanted target use_vendor s =
     map_option (\<lambda>(b, sl, f). (b, sl, f, cfg b sl f 0x10))
       (List.find (\<lambda>x. vendor_at cfg x \<noteq> 0xFFFF \<and> (use_vendor \<longrightarrow> vendor_at cfg x = target) \<and> wanted (class_at cfg x))
         (all_functions cfg s))"

lemma low16: "ucast ((v :: u32) AND 0xFFFF) = (ucast v :: u16)"
proof -
  have "bit (mask 16 :: u32) n \<longleftrightarrow> n < 16" for n unfolding bit_simps by auto
  then have "bit (0xFFFF :: u32) n \<longleftrightarrow> n < 16" for n by (simp add: mask_eq_exp_minus_1)
  then show ?thesis by (intro bit_word_eqI) (auto simp: bit_simps)
qed

lemma find_function_gives:
  assumes "serves e cfg s" "table_complete s"
  shows "gives s (search cfg wanted target use_vendor s) (find_function e wanted target use_vendor s)"
proof -
  let ?P = "\<lambda>x. vendor_at cfg x \<noteq> 0xFFFF \<and> (use_vendor \<longrightarrow> vendor_at cfg x = target) \<and> wanted (class_at cfg x)"
  let ?g = "\<lambda>x. if ?P x then Some ((\<lambda>(b, sl, f). (b, sl, f, cfg b sl f 0x10)) x) else None"
  have "acts s ?g (find_body e wanted target use_vendor)"
    unfolding acts_def find_body_def
  proof (intro allI impI, rule gives_bind [OF gives_read [OF assms(1)]])
    fix b sl f s1 s2 assume s: "same_but_trace s s1" "same_but_trace s s2"
    then have r: "same_but_trace s s' \<Longrightarrow> gives s (cfg b sl f off) (pcie_read e b sl f off s')" for off s'
      using gives_read [OF assms(1)] by blast
    show "gives s (?g (b, sl, f)) (case (cfg b sl f 0, s2) of (v, s) \<Rightarrow> do {
        let vendor = ucast (v AND 0xFFFF);
        if vendor = 0xFFFF then Some (None, s)
        else if use_vendor \<and> vendor \<noteq> target then Some (None, s)
        else do {
          (c, s) \<leftarrow> pcie_read e b sl f 0x08 s;
          if wanted c then do { (bar0, s) \<leftarrow> pcie_read e b sl f 0x10 s; Some (Some (b, sl, f, bar0), s) }
          else Some (None, s)
        } })"
      using s(2) by (auto simp: Let_def low16 vendor_at_def class_at_def intro!: gives_bind [OF r])
  qed
  from for_segments_gives [OF assms(1) this, of s "[0..<segment_count s]"] assms(2)
  show ?thesis
    by (simp add: find_function_def search_def all_functions_def buses_of_def table_complete_def first_some_find)
qed

text \<open>C32: over a configuration space that always reads the same, each of the three searches returns what a search through the list of all functions finds, in the order of segments, buses, slots and functions, with the functions of a slot counted as its header says; it finds a function exactly if there is one that matches.\<close>

theorem pcie_find_is_search:
  assumes "serves e cfg s" "table_complete s"
  shows "\<exists>s1 s2 s3.
    pcie_find e c target use_vendor s = Some (search cfg (\<lambda>v. class_of v = c) target use_vendor s, s1) \<and>
    pcie_find_ex e c sub progif target use_vendor s =
      Some (search cfg (\<lambda>v. class_of v = c \<and> subclass_of v = sub \<and> progif_of v = progif) target use_vendor s, s2) \<and>
    pcie_find_rex e c sub progif revision target use_vendor s =
      Some (search cfg (\<lambda>v. class_of v = c \<and> subclass_of v = sub \<and> progif_of v = progif \<and> revision_of v = revision)
        target use_vendor s, s3)"
proof -
  have "\<exists>s'. find_function e wanted target use_vendor s = Some (search cfg wanted target use_vendor s, s')" for wanted
    using find_function_gives [OF assms, of wanted target use_vendor] by (auto simp: gives_def)
  then show ?thesis unfolding pcie_find_def pcie_find_ex_def pcie_find_rex_def by blast
qed

text \<open>A 16-bit read at an odd word gives the lower half all the same: the offset was rounded down before it is tested.\<close>

lemma pcie_config_read16_lower:
  "pcie_config_read16 e b sl f off s = map_option (\<lambda>(v, s). (ucast v, s)) (pcie_read e b sl f off s)"
proof -
  have "(off AND NOT 3) AND 2 = 0"
    by (rule bit_word_eqI) (auto simp: bit_simps)
  moreover have fc: "(0xFC :: u8) = NOT 3" by simp
  have "((off AND NOT 3) AND 0xFC) AND NOT 3 = off AND NOT 3"
    unfolding fc by (rule bit_word_eqI) (auto simp: bit_simps)
  ultimately have "pcie_read e b sl f ((off AND NOT 3) AND 0xFC) s = pcie_read e b sl f off s"
    by (simp add: pcie_read_def)
  then show ?thesis
    using \<open>(off AND NOT 3) AND 2 = 0\<close>
    by (cases "pcie_read e b sl f off s") (auto simp: pcie_config_read16_def low16)
qed

subsection \<open>An instance\<close>

text \<open>One segment with one bus, on which an AHCI controller is the only function of slot 0.\<close>

definition ahci_at :: "u64 \<Rightarrow> u32" where
  "ahci_at a = (if a = AOS_DIRECT_MAP_BASE + 0xB0000000 then 0x29228086
     else if a = AOS_DIRECT_MAP_BASE + 0xB0000008 then 0x01060102
     else if a = AOS_DIRECT_MAP_BASE + 0xB0000010 then 0xFEBF0000 else 0)"

definition sample_pcie_env :: "unit pcie_env" where
  "sample_pcie_env = \<lparr>p_dev = \<lparr>in8 = (\<lambda>_ _. 0), in16 = (\<lambda>_ _. 0), in32 = (\<lambda>_ _. 0xFFFFFFFF), tsc = (\<lambda>_. 0),
       mmio32 = (\<lambda>_. ahci_at), timer = \<lparr>rdtscp_supported = False, tsc_ticks_per_ms = 1, bootup_timestamp = 0\<rparr>\<rparr>,
     p_modules = sample_module_env, call_init = (\<lambda>_ _ s. Some (True, s))\<rparr>"

definition sample_entry :: mcfg_entry where
  "sample_entry = \<lparr>base_addr = 0xB0000000, pcie_segment = 0, start_bus = 0, end_bus = 0\<rparr>"

definition sample_pcie :: "pstate \<Rightarrow> unit pcie" where
  "sample_pcie h = module_state.extend (sample_modules h []) \<lparr>mcfg_table = Some \<lparr>mcfg_length = 60, mcfg_entries = [sample_entry]\<rparr>,
     mcfg_num_segs = 1, pci_trace = []\<rparr>"

definition sample_config :: "u8 \<Rightarrow> u8 \<Rightarrow> u8 \<Rightarrow> u8 \<Rightarrow> u32" where
  "sample_config b sl f off = (if b = 0
     then ahci_at (AOS_DIRECT_MAP_BASE + 0xB0000000 + function_offset b sl f sample_entry + ucast (off AND NOT 3))
     else 0xFFFFFFFF)"

lemma sample_serves: "serves sample_pcie_env sample_config (sample_pcie h)"
proof -
  have "entry_of b (sample_pcie h\<lparr>pci_trace := t\<rparr>) = Some (if b = 0 then Some sample_entry else None)" for b t
    by (auto simp: entry_of_def get_segment_def sample_pcie_def module_state.defs sample_entry_def word_le_nat_alt unat_eq_0)
  then show ?thesis
    by (auto simp: serves_def pcie_read_def sample_config_def load32_def asm_outl_def asm_inl_def sample_pcie_env_def
      sample_entry_def Let_def)
qed

lemma pcie_find_is_search_witness:
  "\<forall>h. \<exists>s'. pcie_find_ex sample_pcie_env 1 6 1 0 False (sample_pcie h) = Some (Some (0, 0, 0, 0xFEBF0000), s')"
proof
  fix h
  have r: "bus_range 0 (sample_pcie h) = Some (0, 0)" "segment_count (sample_pcie h) = 1"
    by (simp_all add: bus_range_def segment_count_def sample_pcie_def module_state.defs sample_entry_def)
  then have "table_complete (sample_pcie h)" by (simp add: table_complete_def)
  moreover have "\<exists>xs. all_functions sample_config (sample_pcie h) = (0, 0, 0) # xs"
    using r by (simp add: all_functions_def buses_of_def bus_functions_def functions_of_def upt_conv_Cons
      sample_config_def ahci_at_def function_offset_def sample_entry_def)
  then have "search sample_config (\<lambda>v. class_of v = 1 \<and> subclass_of v = 6 \<and> progif_of v = 1) 0 False (sample_pcie h) =
      Some (0, 0, 0, 0xFEBF0000)"
    by (auto simp: search_def vendor_at_def class_at_def sample_config_def ahci_at_def function_offset_def sample_entry_def
      class_of_def subclass_of_def progif_of_def)
  ultimately show "\<exists>s'. pcie_find_ex sample_pcie_env 1 6 1 0 False (sample_pcie h) = Some (Some (0, 0, 0, 0xFEBF0000), s')"
    using pcie_find_is_search [OF sample_serves, of h 1 0 False 6 1 1] by auto
qed

end
