(* ===== verification/Drive.thy ===== *)
theory Drive
  imports PcieSpec Ata
begin

text \<open>
  \<^verbatim>\<open>Kernel/drivers/io/drive.c\<close> and \<^verbatim>\<open>Kernel/drivers/gpu/gpu.c\<close>: which drive and which screen the kernel
  uses.

  The state is that of the modules with memory and the trace of accesses. The functions of the SATA
  driver, and reading and writing the fields of \<open>struct block_device\<close>, which comes with PBFS, are
  arguments. A drive that a pointer leads to is a value that is passed in and returned.
\<close>

subsection \<open>State\<close>

record 'b drives = "'b module_state" +
  dv_mem :: mem
  dv_trace :: trace
  boot_drive_raw :: "u8 option"

record 'b drive_env =
  dv_dev :: device
  set_block_device :: "u64 \<Rightarrow> u32 \<Rightarrow> string \<Rightarrow> 'b \<Rightarrow> 'b"
  block_device_name :: "'b \<Rightarrow> string option"
  sata_init :: "u64 \<Rightarrow> 'b drives \<Rightarrow> (u8 \<times> 'b drives) option"
  sata_get_available_ports :: "u64 \<Rightarrow> 'b drives \<Rightarrow> ((nat \<Rightarrow> u8) \<times> 'b drives) option"
  sata_get_pcie :: "u64 \<Rightarrow> u64 \<Rightarrow> 'b drives \<Rightarrow> 'b drives option"
  sata_get_block_device :: "u64 \<Rightarrow> u64 \<Rightarrow> 'b \<Rightarrow> 'b drives \<Rightarrow> (bool \<times> 'b \<times> 'b drives) option"

subsection \<open>The old controller\<close>

text \<open>The count has 16 bits in the record that the driver gets.\<close>

definition legacy_ata_read :: "'b drive_env \<Rightarrow> u64 \<Rightarrow> u64 \<Rightarrow> u64 \<Rightarrow> u32 \<Rightarrow> u64 \<Rightarrow> 'b drives \<Rightarrow> (bool \<times> 'b drives) option" where
  "legacy_ata_read e cidx port_no lba_no n buffer s = do {
     (r, m, t) \<leftarrow> ata_read_sectors (dv_dev e) \<lparr>lba = lba_no, count = ucast n\<rparr> buffer (ucast port_no) (dv_mem s) (dv_trace s);
     Some (r = 0, s\<lparr>dv_mem := m, dv_trace := t\<rparr>)
   }"

definition legacy_ata_write :: "'b drive_env \<Rightarrow> u64 \<Rightarrow> u64 \<Rightarrow> u64 \<Rightarrow> u32 \<Rightarrow> u64 \<Rightarrow> 'b drives \<Rightarrow> (bool \<times> 'b drives) option" where
  "legacy_ata_write e cidx port_no lba_no n buffer s = do {
     (r, t) \<leftarrow> ata_write_sectors (dv_dev e) \<lparr>lba = lba_no, count = ucast n\<rparr> buffer (ucast port_no) (dv_mem s) (dv_trace s);
     Some (r = 0, s\<lparr>dv_trace := t\<rparr>)
   }"

definition no_identity :: ata_identity where
  "no_identity = \<lparr>block_count = 0, block_size = 0, model = [], serial = [], supports_lba48 = False\<rparr>"

text \<open>The characters of a model name up to its end.\<close>

definition model_text :: "ata_identity \<Rightarrow> string" where
  "model_text i = map (\<lambda>b. char_of (unat b)) (takeWhile (\<lambda>b. b \<noteq> 0) (model i))"

text \<open>What the drive says of itself; the result of the identification is not looked at.\<close>

definition legacy_ata_get_block_device ::
  "'b drive_env \<Rightarrow> u64 \<Rightarrow> u64 \<Rightarrow> 'b \<Rightarrow> 'b drives \<Rightarrow> (bool \<times> 'b \<times> 'b drives) option" where
  "legacy_ata_get_block_device e cidx port_no out s =
     (case boot_drive_raw s of None \<Rightarrow> Some (False, out, s)
      | Some drive \<Rightarrow> do {
          (_, iden, t) \<leftarrow> ata_identify_device (dv_dev e) drive no_identity (dv_trace s);
          let s = s\<lparr>dv_trace := t\<rparr>;
          let nm = model_text iden;
          if length nm > 0 then do {
            (p, s) \<leftarrow> mo_alloc (of_nat (length nm) + 1) s;
            if p = NULL then Some (False, out, s)
            else Some (True, set_block_device e (block_count iden) (block_size iden) nm out, s)
          }
          else Some (True, set_block_device e (block_count iden) (block_size iden) ''Unamed Drive'' out, s)
        })"

definition set_legacy_ata :: "'b drive_env \<Rightarrow> 'b drive_device \<Rightarrow> 'b drives \<Rightarrow> (bool \<times> 'b drive_device \<times> 'b drives) option" where
  "set_legacy_ata e out s =
     (case boot_drive_raw s of None \<Rightarrow> Some (False, out, s)
      | Some drive \<Rightarrow> do {
          (r, _, t) \<leftarrow> ata_identify_device (dv_dev e) drive no_identity (dv_trace s);
          let s = s\<lparr>dv_trace := t\<rparr>;
          if r \<noteq> 1 then Some (False, out, s)
          else do {
            (ok, bd, s) \<leftarrow> legacy_ata_get_block_device e 0 (ucast drive) (block_dev out) s;
            let out = out\<lparr>block_dev := bd\<rparr>;
            if \<not> ok then Some (False, out, s)
            else Some (True, out\<lparr>dr_name := block_device_name e bd, dr_pcie_device := NULL, dr_flush := None,
              get_block_device := Some ''legacy_ata_get_block_device'', dr_init := None,
              read_blk := Some ''legacy_ata_read'', write_blk := Some ''legacy_ata_write'',
              cur_port := ucast drive, dr_active := True\<rparr>, s)
          }
        })"

subsection \<open>The drive of a module\<close>

text \<open>The connector of a module read as a drive.\<close>

definition drive_of :: "u64 \<Rightarrow> 'b drives \<Rightarrow> 'b drive_device option" where
  "drive_of m s = do {
     md \<leftarrow> module_at s m;
     case connector (driver_module md) of Drive_connector d \<Rightarrow> Some d | _ \<Rightarrow> None
   }"

definition set_drive :: "u64 \<Rightarrow> 'b drive_device \<Rightarrow> 'b drives \<Rightarrow> 'b drives option" where
  "set_drive m d s = upd_module m (\<lambda>md. md\<lparr>driver_module := (driver_module md)\<lparr>connector := Drive_connector d\<rparr>\<rparr>) s"

text \<open>The first port that is there.\<close>

definition first_port :: "(nat \<Rightarrow> u8) \<Rightarrow> nat option" where
  "first_port avail_ports = List.find (\<lambda>i. avail_ports i = 1) [0..<32]"

definition set_sata :: "'b drive_env \<Rightarrow> u64 \<Rightarrow> u64 \<Rightarrow> 'b drives \<Rightarrow> (bool \<times> 'b drives) option" where
  "set_sata e cidx m s = do {
     (avail_ports, s) \<leftarrow> sata_get_available_ports e cidx s;
     case first_port avail_ports of None \<Rightarrow> Some (False, s)
     | Some port_no \<Rightarrow> do {
         d \<leftarrow> drive_of m s;
         s \<leftarrow> set_drive m (d\<lparr>cur_port := of_nat port_no\<rparr>) s;
         s \<leftarrow> sata_get_pcie e cidx (dr_pcie_device d) s;
         d \<leftarrow> drive_of m s;
         (ok, bd, s) \<leftarrow> sata_get_block_device e cidx (of_nat port_no) (block_dev d) s;
         d \<leftarrow> drive_of m s;
         let d = d\<lparr>block_dev := bd\<rparr>;
         s \<leftarrow> set_drive m d s;
         if \<not> ok then Some (False, s)
         else do {
           s \<leftarrow> set_drive m (d\<lparr>dr_name := block_device_name e bd, dr_active := True\<rparr>) s;
           Some (True, s)
         }
       }
   }"

definition str_or_null :: "string option \<Rightarrow> msg_arg" where
  "str_or_null x = (case x of None \<Rightarrow> Num 0 | Some t \<Rightarrow> Str t)"

definition any_storage :: query where
  "any_storage = \<lparr>q_class = PCI_CLASS_MASS_STORAGE, q_subclass = 0, q_use_subclass = 0, q_progif = 0, q_use_progif = 0,
     q_revision = 0, q_use_revision = 0, q_vendor = 0, q_use_vendor = 0\<rparr>"

definition has_ata :: "'b drive_env \<Rightarrow> 'b drives \<Rightarrow> bool \<times> 'b drives" where
  "has_ata e s = (let (b, t) = ata_exists (dv_dev e) (dv_trace s) in (b, s\<lparr>dv_trace := t\<rparr>))"

text \<open>A SATA controller is made ready, unless that was done when it was registered, and its drive chosen.\<close>

definition start_sata :: "'b drive_env \<Rightarrow> u64 \<Rightarrow> 'b drives \<Rightarrow> (bool \<times> 'b drives) option" where
  "start_sata e m s = do {
     md \<leftarrow> module_at s m;
     if initialize_on_register md then Some (True, s)
     else do {
       (r, s) \<leftarrow> sata_init e m s;
       Some (if r \<noteq> 1 then (False, msay ''[Drive Controller] SATA Initialization failed!'' [] s) else (True, s))
     }
   }"

definition choose_sata :: "'b drive_env \<Rightarrow> u64 \<Rightarrow> 'b drives \<Rightarrow> (bool \<times> 'b drives) option" where
  "choose_sata e m s = do {
     d \<leftarrow> drive_of m s;
     (ok, s) \<leftarrow> set_sata e (dr_controller_idx d) m s;
     Some (if ok then (True, s) else (False, msay ''[Drive Controller] No registered drives!'' [] s))
   }"

definition get_available_drives :: "'b drive_env \<Rightarrow> 'b drive_device \<Rightarrow> 'b drives \<Rightarrow> (bool \<times> 'b drive_device \<times> 'b drives) option" where
  "get_available_drives e out s = do {
     let s = msay ''[Drive Controller] Trying to find registered drives...'' [] s;
     reg_driver \<leftarrow> module_get_applicable_registered_driver 0 any_storage s;
     if reg_driver = NULL then
       let (ata, s) = has_ata e s in
       if ata then do {
         (ok, out, s) \<leftarrow> set_legacy_ata e out s;
         if \<not> ok then Some (False, out, msay ''[Drive Controller] No registered drives!'' [] s)
         else do {
           d \<leftarrow> drive_of reg_driver s;
           Some (True, out, msay ''[Drive Controller] Using 'Legacy-ATA' driver for '%s' disk'' [str_or_null (dr_name d)] s)
         }
       }
       else Some (False, out, msay ''[Drive Controller] No registered drives!'' [] s)
     else do {
       md \<leftarrow> module_at s reg_driver;
       if m_type (m_hdr md) \<noteq> MODULE_TYPE_DRIVER then
         let (ata, s) = has_ata e s in
         if ata then do {
           d \<leftarrow> drive_of reg_driver s;
           (ok, d, s) \<leftarrow> set_legacy_ata e d s;
           s \<leftarrow> set_drive reg_driver d s;
           if ok then Some (False, out, msay ''[Drive Controller] No registered drives!'' [] s)
           else Some (True, d, msay ''[Drive Controller] Using 'Legacy-ATA' driver for '%s' disk'' [str_or_null (dr_name d)] s)
         }
         else Some (False, out, msay ''[Drive Controller] No registered drivers for drives!'' [] s)
       else if d_type (driver_module md) \<noteq> MODULE_DRIVER_TYPE_SATA then
         Some (False, out, msay ''[Drive Controller] No supported drives found!'' [] s)
       else do {
         (ok, s) \<leftarrow> start_sata e reg_driver s;
         if \<not> ok then Some (False, out, s)
         else do {
           (ok, s) \<leftarrow> choose_sata e reg_driver s;
           if \<not> ok then Some (False, out, s)
           else do {
             d \<leftarrow> drive_of reg_driver s;
             md \<leftarrow> module_at s reg_driver;
             Some (True, d, msay ''[Drive Controller] Using '%s' driver'' [Str (m_name (m_hdr md))] s)
           }
         }
       }
     }
   }"

text \<open>The registered drives, of which the one at the given place is used.\<close>

fun drives_pcie_loop :: "'b drive_env \<Rightarrow> u16 \<times> u16 \<times> u16 \<Rightarrow> 'b drive_device \<Rightarrow> nat list \<Rightarrow> 'b drives \<Rightarrow> (bool \<times> 'b drive_device \<times> 'b drives) option" where
  "drives_pcie_loop e place out [] s = Some (False, out, msay ''[Drive Controller] No supported drives found!'' [] s)"
| "drives_pcie_loop e place out (i # is) s = do {
     reg_driver \<leftarrow> module_get_applicable_registered_driver (of_nat i) any_storage s;
     if reg_driver = NULL then drives_pcie_loop e place out is s
     else do {
       md \<leftarrow> module_at s reg_driver;
       let pd = d_pcie_device (driver_module md);
       if m_type (m_hdr md) \<noteq> MODULE_TYPE_DRIVER \<or> (ucast (pd_bus pd), ucast (pd_slot pd), ucast (pd_func pd)) \<noteq> place \<or>
          d_type (driver_module md) \<noteq> MODULE_DRIVER_TYPE_SATA
       then drives_pcie_loop e place out is s
       else do {
         (ok, s) \<leftarrow> start_sata e reg_driver s;
         if \<not> ok then drives_pcie_loop e place out is s
         else do {
           (ok, s) \<leftarrow> choose_sata e reg_driver s;
           if \<not> ok then Some (False, out, s)
           else do {
             d \<leftarrow> drive_of reg_driver s;
             md \<leftarrow> module_at s reg_driver;
             Some (True, d, msay ''[Drive Controller] Using '%s' driver'' [Str (m_name (m_hdr md))] s)
           }
         }
       }
     }
   }"

definition get_available_drives_pcie :: "'b drive_env \<Rightarrow> 'b drive_device \<Rightarrow> u16 \<times> u16 \<times> u16 \<Rightarrow> 'b drives \<Rightarrow> (bool \<times> 'b drive_device \<times> 'b drives) option" where
  "get_available_drives_pcie e out place s =
     (let (b, sl, f) = place;
          s = msay ''[Drive Controller] Trying to find registered drives that match %02x:%02x.%x ...'' [num b, num sl, num f] s
      in drives_pcie_loop e place out [0..<length (registered_list s)] s)"

subsection \<open>The screen\<close>

record pcie_fb =
  fb_phys :: u64
  fb_virt :: u64
  fb_mmio_base :: u64
  fb_w :: u32
  fb_h :: u32
  fb_pitch :: u32
  fb_bpp :: u8
  fb_size :: u32

definition svga_write :: "u64 \<Rightarrow> u32 \<Rightarrow> u32 \<Rightarrow> u32 \<Rightarrow> u32 \<Rightarrow> trace \<Rightarrow> trace" where
  "svga_write io_at idx v index_port value_port t =
     store32 (io_at + ucast (value_port * 4)) v (store32 (io_at + ucast (index_port * 4)) idx t)"

definition svga_read :: "device \<Rightarrow> u64 \<Rightarrow> u32 \<Rightarrow> u32 \<Rightarrow> u32 \<Rightarrow> trace \<Rightarrow> u32 \<times> trace" where
  "svga_read d io_at idx index_port value_port t =
     load32 d (io_at + ucast (value_port * 4)) (store32 (io_at + ucast (index_port * 4)) idx t)"

text \<open>The addresses in the first two registers, without the low bits; the connector of the module points to \<open>fb\<close>.\<close>

definition get_framebuffer_info_virtio :: "'b pcie_env \<Rightarrow> u64 \<Rightarrow> pcie_fb \<Rightarrow> u64 \<Rightarrow> 'b pcie \<Rightarrow> (pcie_fb \<times> 'b pcie) option" where
  "get_framebuffer_info_virtio e fb_at fb m s = do {
     md \<leftarrow> module_at s m;
     let d = d_pcie_device (driver_module md);
     if pd_vendor_id d \<noteq> VirtIo_VENDORID then Some (fb, s)
     else do {
       (bar0, s) \<leftarrow> pcie_read_bar e (pd_bus d) (pd_slot d) (pd_func d) 0 s;
       (bar1, s) \<leftarrow> pcie_read_bar e (pd_bus d) (pd_slot d) (pd_func d) 1 s;
       g \<leftarrow> (case connector (driver_module md) of Gpu_connector g \<Rightarrow> Some g | _ \<Rightarrow> None);
       s \<leftarrow> upd_module m (\<lambda>md. md\<lparr>driver_module := (driver_module md)\<lparr>connector :=
         Gpu_connector (g\<lparr>g_pcie_device := pcie_device_in m, g_framebuffer := fb_at\<rparr>)\<rparr>\<rparr>) s;
       Some (fb\<lparr>fb_phys := ucast (bar1 AND NOT 0xF), fb_mmio_base := ucast (bar0 AND NOT 0xF)\<rparr>, s)
     }
   }"

definition gpu_find_gpu :: "'b pcie_env \<Rightarrow> u64 \<Rightarrow> pcie_fb \<Rightarrow> u64 \<Rightarrow> 'b pcie \<Rightarrow> (bool \<times> pcie_fb \<times> u64 \<times> 'b pcie) option" where
  "gpu_find_gpu e fb_at fb out s = do {
     m \<leftarrow> module_get_applicable_registered_driver 0
       \<lparr>q_class = PCI_VGA_DISPLAY, q_subclass = PCI_SUBCLASS_VGA, q_use_subclass = 1, q_progif = 0, q_use_progif = 0,
        q_revision = 0, q_use_revision = 0, q_vendor = 0, q_use_vendor = 0\<rparr> s;
     if m = NULL then Some (False, fb, out, msay ''[GPU Controller] Did not find any registered GPUs!'' [] s)
     else do {
       md \<leftarrow> module_at s m;
       if m_type (m_hdr md) \<noteq> MODULE_TYPE_DRIVER \<or> d_type (driver_module md) \<noteq> MODULE_DRIVER_TYPE_GPU then
         Some (False, fb, out, msay ''[GPU Controller] Did not find any registered GPU drivers!'' [] s)
       else if pd_vendor_id (d_pcie_device (driver_module md)) \<noteq> VirtIo_VENDORID then
         Some (False, fb, out, msay ''[GPU Controller] Error: Unknown VendorID (%d) Based Driver!''
           [num (pd_vendor_id (d_pcie_device (driver_module md)))] s)
       else do {
         (fb, s) \<leftarrow> get_framebuffer_info_virtio e fb_at fb m s;
         md \<leftarrow> module_at s m;
         Some (True, fb, m, msay ''[GPU Controller] Using '%s' driver'' [Str (m_name (m_hdr md))] s)
       }
     }
   }"

subsection \<open>What is proved\<close>

text \<open>A count that is a multiple of 65536 reads nothing, and the read is reported as done.\<close>

lemma legacy_ata_read_large:
  assumes "n = 0x10000 * k" "legacy_ata_read e cidx port_no lba_no n buffer s = Some (ok, s')"
  shows "ok \<and> dv_mem s' = dv_mem s"
proof -
  have "n = push_bit 16 k" using assms(1) by (simp add: push_bit_eq_mult)
  then have "(ucast n :: u16) = 0"
    by (intro bit_word_eqI) (auto simp: bit_simps)
  then show ?thesis
    using assms(2) by (auto simp: legacy_ata_read_def ata_read_sectors_def bind_eq_Some_conv Let_def)
qed

text \<open>When no drive is registered and there is a drive on the old controller that can be identified, \<open>get_available_drives\<close> sets it up and then faults: its last message reads the name of the drive through the null pointer that the lookup gave.\<close>

lemma get_available_drives_legacy_faults:
  assumes "module_get_applicable_registered_driver 0 any_storage s = Some NULL" "module_at s NULL = None"
    and "has_ata e (msay ''[Drive Controller] Trying to find registered drives...'' [] s) = (True, s1)"
    and "set_legacy_ata e out s1 = Some (True, d, s2)" "module_at s2 NULL = None"
  shows "get_available_drives e out s = None"
proof -
  let ?s = "msay ''[Drive Controller] Trying to find registered drives...'' [] s"
  have "lookup_loop i q k ps (msay x a s) = lookup_loop i q k ps s" for i q k ps x a
    by (induction i q k ps s rule: lookup_loop.induct) (auto simp: msay_def split: Option.bind_splits)
  then have "module_get_applicable_registered_driver 0 any_storage ?s = Some NULL"
    using assms(1) by (simp add: module_get_applicable_registered_driver_def msay_def)
  then show ?thesis
    using assms by (simp add: get_available_drives_def drive_of_def)
qed

end
