(* ===== verification/Fs.thy ===== *)
theory Fs
  imports Serial KMem
begin

text \<open>
  \<^verbatim>\<open>Kernel/drivers/core/fs.c\<close> with the records of \<^verbatim>\<open>fs.h\<close>: the open files of the kernel. A file has a
  cursor and a handle, and the handle holds one chunk of the file's bytes in memory, which reads and
  writes go to and which a flush gives back to the block file system PBFS.

  PBFS is a submodule: its records are the types \<open>'e\<close> (an entry), \<open>'d\<close> (metadata) and \<open>'q\<close>
  (permissions), the mounted file system with its drive is the type \<open>'p\<close>, and its functions and
  constants are arguments. Files and handles are stores of records by address, and the memory they
  take is mapped when it is allocated.
\<close>

subsection \<open>State\<close>

definition AOS_FS_SIGN :: u32 where "AOS_FS_SIGN = 0xA1519F19"
definition AOS_FS_CHUNK_SIZE :: u64 where "AOS_FS_CHUNK_SIZE = 0x1000"

definition AOS_FS_SYSFILE_TYPE_NULL :: u64 where "AOS_FS_SYSFILE_TYPE_NULL = 1"
definition AOS_FS_SYSFILE_TYPE_ZERO :: u64 where "AOS_FS_SYSFILE_TYPE_ZERO = 2"
definition AOS_FS_SYSFILE_TYPE_CPU :: u64 where "AOS_FS_SYSFILE_TYPE_CPU = 3"

text \<open>\<open>Seek_other\<close> is any number that is none of the three of the enumeration.\<close>

datatype seek_mode = FS_SEEK_MODE_CUR | FS_SEEK_MODE_SET | FS_SEEK_MODE_END | Seek_other

text \<open>A lock is \<open>True\<close> while it is held.\<close>

record ('e, 'd, 'q) aos_dmm_handler =
  h_sign :: u32
  h_valid :: bool
  h_path :: "u8 list"
  h_entry :: 'e
  h_metadata :: 'd
  h_permission_table :: 'q
  file_data :: u64
  file_data_size :: u64
  file_data_refresh_req :: bool
  file_data_flush_required :: bool
  handle_lock :: bool

text \<open>A function pointer is the name of the function, \<open>None\<close> the null pointer.\<close>

record aos_file =
  f_handle :: u64
  cur_seek :: u64
  f_tell :: "string option"
  f_seek :: "string option"
  f_read :: "string option"
  f_write :: "string option"
  f_flush :: "string option"
  file_lock :: bool
  closed :: bool

definition sizeof_aos_file :: u64 where "sizeof_aos_file = 64"

record ('e, 'd, 'q, 'p) fs =
  fs_heap :: pstate
  fs_mem :: mem
  fs_said :: "message list"
  files :: "u64 \<rightharpoonup> aos_file"
  handlers :: "u64 \<rightharpoonup> ('e, 'd, 'q) aos_dmm_handler"
  gmnt :: u64
  pbfs :: 'p

text \<open>
  What the functions are given. Reading a file gives the result, the bytes stored from the start of
  the buffer, and the size and the entry stored through the pointers; updating one is given the bytes
  and gives the result and the entry.
\<close>

record ('e, 'd, 'q, 'p) fs_env =
  PBFS_MAX_PATH_LEN :: u64
  PBFS_RES_SUCCESS :: int
  PBFS_PERM_READ :: u64
  zero_entry :: 'e
  zero_metadata :: 'd
  zero_permissions :: 'q
  sizeof_handler :: u64
  fresh_byte :: "u64 \<Rightarrow> u8"
  mount_active :: "u64 \<Rightarrow> 'p \<Rightarrow> bool"
  md_flags :: "'d \<Rightarrow> u64"
  pbfs_get_err_str :: "int \<Rightarrow> string"
  pbfs_find_entry :: "u64 \<Rightarrow> u8 list \<Rightarrow> 'p \<Rightarrow> (int \<times> 'e \<times> 'd \<times> 'q \<times> 'p) option"
  pbfs_read_file_dmm :: "u64 \<Rightarrow> 'e \<Rightarrow> u64 \<Rightarrow> 'p \<Rightarrow> (int \<times> u8 list \<times> u64 \<times> 'e \<times> 'p) option"
  pbfs_update_file_dmm :: "u64 \<Rightarrow> 'e \<Rightarrow> u8 list \<Rightarrow> 'p \<Rightarrow> (int \<times> 'e \<times> 'p) option"

definition fs_say :: "string \<Rightarrow> msg_arg list \<Rightarrow> ('e, 'd, 'q, 'p) fs \<Rightarrow> ('e, 'd, 'q, 'p) fs" where
  "fs_say fmt args s = s\<lparr>fs_said := (fmt, args) # fs_said s\<rparr>"

definition set_file :: "u64 \<Rightarrow> aos_file \<Rightarrow> ('e, 'd, 'q, 'p) fs \<Rightarrow> ('e, 'd, 'q, 'p) fs" where
  "set_file fp f s = s\<lparr>files := (files s)(fp \<mapsto> f)\<rparr>"

definition set_handler :: "u64 \<Rightarrow> ('e, 'd, 'q) aos_dmm_handler \<Rightarrow> ('e, 'd, 'q, 'p) fs \<Rightarrow> ('e, 'd, 'q, 'p) fs" where
  "set_handler hp h s = s\<lparr>handlers := (handlers s)(hp \<mapsto> h)\<rparr>"

text \<open>Memory, in whole pages: what is new is mapped, what is freed is not.\<close>

definition fs_alloc :: "('e, 'd, 'q, 'p) fs_env \<Rightarrow> u64 \<Rightarrow> ('e, 'd, 'q, 'p) fs \<Rightarrow> (u64 \<times> ('e, 'd, 'q, 'p) fs) option" where
  "fs_alloc e n s = do {
     (v, _, h) \<leftarrow> avmf_alloc pager_map n MALLOC_TYPE_KERNEL AVMF_FLAG_RW (fs_heap s);
     if v = NULL then Some (v, s\<lparr>fs_heap := h\<rparr>)
     else Some (v, s\<lparr>fs_heap := h, fs_mem := (\<lambda>a. if a - v < align4k n then Some (fresh_byte e a) else fs_mem s a)\<rparr>)
   }"

definition fs_free :: "u64 \<Rightarrow> u64 \<Rightarrow> ('e, 'd, 'q, 'p) fs \<Rightarrow> ('e, 'd, 'q, 'p) fs option" where
  "fs_free v n s = do {
     h \<leftarrow> avmf_free pager_map pager_unmap v (fs_heap s);
     Some (s\<lparr>fs_heap := h, fs_mem := (\<lambda>a. if a - v < align4k n then None else fs_mem s a)\<rparr>)
   }"

subsection \<open>The locks\<close>

text \<open>\<open>spin_lock_irqsave\<close> and \<open>spin_unlock_irqrestore\<close> (\<^verbatim>\<open>kfuncs.c\<close>): taking a lock that is held never returns.\<close>

definition lock_file :: "u64 \<Rightarrow> ('e, 'd, 'q, 'p) fs \<Rightarrow> ('e, 'd, 'q, 'p) fs option" where
  "lock_file fp s = do {
     f \<leftarrow> files s fp;
     if file_lock f then None else Some (set_file fp (f\<lparr>file_lock := True\<rparr>) s)
   }"

definition unlock_file :: "u64 \<Rightarrow> ('e, 'd, 'q, 'p) fs \<Rightarrow> ('e, 'd, 'q, 'p) fs option" where
  "unlock_file fp s = do { f \<leftarrow> files s fp; Some (set_file fp (f\<lparr>file_lock := False\<rparr>) s) }"

definition lock_handle :: "u64 \<Rightarrow> ('e, 'd, 'q, 'p) fs \<Rightarrow> ('e, 'd, 'q, 'p) fs option" where
  "lock_handle hp s = do {
     h \<leftarrow> handlers s hp;
     if handle_lock h then None else Some (set_handler hp (h\<lparr>handle_lock := True\<rparr>) s)
   }"

definition unlock_handle :: "u64 \<Rightarrow> ('e, 'd, 'q, 'p) fs \<Rightarrow> ('e, 'd, 'q, 'p) fs option" where
  "unlock_handle hp s = do { h \<leftarrow> handlers s hp; Some (set_handler hp (h\<lparr>handle_lock := False\<rparr>) s) }"

text \<open>The exits of the functions: with the lock of the file held, and with both.\<close>

definition leave_file :: "u64 \<Rightarrow> 'r \<Rightarrow> ('e, 'd, 'q, 'p) fs \<Rightarrow> ('r \<times> ('e, 'd, 'q, 'p) fs) option" where
  "leave_file fp r s = do { s \<leftarrow> unlock_file fp s; Some (r, s) }"

definition leave_both :: "u64 \<Rightarrow> u64 \<Rightarrow> 'r \<Rightarrow> ('e, 'd, 'q, 'p) fs \<Rightarrow> ('r \<times> ('e, 'd, 'q, 'p) fs) option" where
  "leave_both fp hp r s = do { s \<leftarrow> unlock_handle hp s; leave_file fp r s }"

subsection \<open>The chunk\<close>

text \<open>
  The chunk is read from PBFS when there is none or it has to be read again: the same lines in
  \<open>read_file\<close>, \<open>write_file\<close> and \<open>seek_file\<close>, with their own size and message.
\<close>

definition load_chunk ::
  "('e, 'd, 'q, 'p) fs_env \<Rightarrow> string \<Rightarrow> u64 \<Rightarrow> u64 \<Rightarrow> ('e, 'd, 'q, 'p) fs \<Rightarrow> (bool \<times> ('e, 'd, 'q, 'p) fs) option" where
  "load_chunk e err n hp s = do {
     h \<leftarrow> handlers s hp;
     if file_data h \<noteq> NULL \<and> \<not> file_data_refresh_req h then Some (True, s)
     else do {
       (p, s) \<leftarrow> (if file_data h = NULL then fs_alloc e AOS_FS_CHUNK_SIZE s else Some (file_data h, s));
       let h = h\<lparr>file_data := p\<rparr>;
       if p = NULL then Some (False, fs_say ''[FS:Read] Failed to allocate chunk!'' [] (set_handler hp h s))
       else do {
         (out, bs, sz, en, fs') \<leftarrow> pbfs_read_file_dmm e (gmnt s) (h_entry h) n (pbfs s);
         m \<leftarrow> write_bytes p bs (fs_mem s);
         let h = h\<lparr>file_data_size := sz, h_entry := en\<rparr>;
         let s = s\<lparr>fs_mem := m, pbfs := fs'\<rparr>;
         if out \<noteq> PBFS_RES_SUCCESS e then
           Some (False, fs_say err [Str (pbfs_get_err_str e out)] (set_handler hp h s))
         else Some (True, set_handler hp (h\<lparr>file_data_refresh_req := False\<rparr>) s)
       }
     }
   }"

subsection \<open>The operations of a file\<close>

text \<open>
  What the operations begin with: the lock of the file, the tests on the file and on its handle, and
  the lock of the handle. \<open>run\<close> is what an operation does with both locks held.
\<close>

definition with_handle ::
  "u64 \<Rightarrow> bool \<Rightarrow> (u64 \<Rightarrow> ('e, 'd, 'q, 'p) fs \<Rightarrow> (bool \<times> ('e, 'd, 'q, 'p) fs) option) \<Rightarrow> ('e, 'd, 'q, 'p) fs \<Rightarrow>
   (bool \<times> ('e, 'd, 'q, 'p) fs) option" where
  "with_handle fp check_closed run s = do {
     s \<leftarrow> lock_file fp s;
     f \<leftarrow> files s fp;
     if check_closed \<and> closed f then leave_file fp False s
     else if f_handle f = NULL then leave_file fp False s
     else do {
       h \<leftarrow> handlers s (f_handle f);
       if h_sign h \<noteq> AOS_FS_SIGN then leave_file fp False s
       else do {
         s \<leftarrow> lock_handle (f_handle f) s;
         (r, s) \<leftarrow> run (f_handle f) s;
         leave_both fp (f_handle f) r s
       }
     }
   }"

definition read_run :: "('e, 'd, 'q, 'p) fs_env \<Rightarrow> u64 \<Rightarrow> u64 \<Rightarrow> u64 \<Rightarrow> u64 \<Rightarrow> ('e, 'd, 'q, 'p) fs \<Rightarrow> (bool \<times> ('e, 'd, 'q, 'p) fs) option" where
  "read_run e fp n buf hp s = do {
     (ok, s) \<leftarrow> load_chunk e ''[FS:Read] PBFS Error: %s'' n hp s;
     if \<not> ok then Some (False, s)
     else do {
       f \<leftarrow> files s fp;
       h \<leftarrow> handlers s hp;
       if cur_seek f > file_data_size h \<or> n > file_data_size h - cur_seek f then Some (False, s)
       else do {
         (_, m) \<leftarrow> memcpy buf (file_data h + cur_seek f) n (fs_mem s);
         Some (True, set_file fp (f\<lparr>cur_seek := cur_seek f + n\<rparr>) (s\<lparr>fs_mem := m\<rparr>))
       }
     }
   }"

definition read_file :: "('e, 'd, 'q, 'p) fs_env \<Rightarrow> u64 \<Rightarrow> u64 \<Rightarrow> u64 \<Rightarrow> ('e, 'd, 'q, 'p) fs \<Rightarrow> (bool \<times> ('e, 'd, 'q, 'p) fs) option" where
  "read_file e fp n buf s =
     (if gmnt s = NULL \<or> fp = NULL \<or> buf = NULL then Some (False, s)
      else if n = 0 then Some (True, s)
      else with_handle fp True (read_run e fp n buf) s)"

definition write_run :: "('e, 'd, 'q, 'p) fs_env \<Rightarrow> u64 \<Rightarrow> u64 \<Rightarrow> u64 \<Rightarrow> u64 \<Rightarrow> ('e, 'd, 'q, 'p) fs \<Rightarrow> (bool \<times> ('e, 'd, 'q, 'p) fs) option" where
  "write_run e fp n buf hp s = do {
     (ok, s) \<leftarrow> load_chunk e ''[FS:Write] PBFS Error: %s'' AOS_FS_CHUNK_SIZE hp s;
     if \<not> ok then Some (False, s)
     else do {
       f \<leftarrow> files s fp;
       h \<leftarrow> handlers s hp;
       if cur_seek f > file_data_size h \<or> n > file_data_size h - cur_seek f then Some (False, s)
       else do {
         (_, m) \<leftarrow> memcpy (file_data h + cur_seek f) buf n (fs_mem s);
         let s = set_handler hp (h\<lparr>file_data_flush_required := True\<rparr>) (s\<lparr>fs_mem := m\<rparr>);
         Some (True, set_file fp (f\<lparr>cur_seek := cur_seek f + n\<rparr>) s)
       }
     }
   }"

definition write_file :: "('e, 'd, 'q, 'p) fs_env \<Rightarrow> u64 \<Rightarrow> u64 \<Rightarrow> u64 \<Rightarrow> ('e, 'd, 'q, 'p) fs \<Rightarrow> (bool \<times> ('e, 'd, 'q, 'p) fs) option" where
  "write_file e fp n buf s =
     (if gmnt s = NULL \<or> fp = NULL \<or> buf = NULL then Some (False, s)
      else if n = 0 then Some (True, s)
      else with_handle fp True (write_run e fp n buf) s)"

text \<open>An empty file is written as one byte 0. Whether the file is closed is not looked at.\<close>

definition flush_run :: "('e, 'd, 'q, 'p) fs_env \<Rightarrow> u64 \<Rightarrow> ('e, 'd, 'q, 'p) fs \<Rightarrow> (bool \<times> ('e, 'd, 'q, 'p) fs) option" where
  "flush_run e hp s = do {
     h \<leftarrow> handlers s hp;
     if \<not> file_data_flush_required h then Some (True, s)
     else if file_data h = NULL \<and> file_data_size h > 0 then Some (False, s)
     else do {
       bs \<leftarrow> (if file_data_size h = 0 then Some [0]
              else read_bytes (fs_mem s) (file_data h) (unat (file_data_size h)));
       (out, en, p) \<leftarrow> pbfs_update_file_dmm e (gmnt s) (h_entry h) bs (pbfs s);
       let h = h\<lparr>h_entry := en\<rparr>;
       let s = set_handler hp h (s\<lparr>pbfs := p\<rparr>);
       if out \<noteq> PBFS_RES_SUCCESS e then
         Some (False, fs_say ''[FS:Flush] PBFS Error: %s'' [Str (pbfs_get_err_str e out)] s)
       else do {
         s \<leftarrow> (if file_data h \<noteq> NULL then fs_free (file_data h) AOS_FS_CHUNK_SIZE s else Some s);
         Some (True, set_handler hp (h\<lparr>file_data := NULL, file_data_size := 0,
           file_data_flush_required := False, file_data_refresh_req := True\<rparr>) s)
       }
     }
   }"

definition flush_file :: "('e, 'd, 'q, 'p) fs_env \<Rightarrow> u64 \<Rightarrow> ('e, 'd, 'q, 'p) fs \<Rightarrow> (bool \<times> ('e, 'd, 'q, 'p) fs) option" where
  "flush_file e fp s =
     (if gmnt s = NULL \<or> fp = NULL then Some (False, s) else with_handle fp False (flush_run e) s)"

definition tell_file :: "u64 \<Rightarrow> ('e, 'd, 'q, 'p) fs \<Rightarrow> (u64 \<times> ('e, 'd, 'q, 'p) fs) option" where
  "tell_file fp s =
     (if gmnt s = NULL \<or> fp = NULL then Some (0, s)
      else do {
        s \<leftarrow> lock_file fp s;
        f \<leftarrow> files s fp;
        if closed f then leave_file fp 0 s else leave_file fp (cur_seek f) s
      })"

text \<open>Where a seek goes, \<open>None\<close> for a seek that is refused.\<close>

definition seek_target :: "seek_mode \<Rightarrow> u64 \<Rightarrow> u64 \<Rightarrow> u64 \<Rightarrow> u64 option" where
  "seek_target md seek_to cur sz =
     (if seek_to > sz then None
      else do {
        sto \<leftarrow> (case md of
            FS_SEEK_MODE_CUR \<Rightarrow> if seek_to > sz - cur then None else Some (seek_to + cur)
          | FS_SEEK_MODE_END \<Rightarrow> Some (sz - seek_to)
          | FS_SEEK_MODE_SET \<Rightarrow> Some seek_to
          | Seek_other \<Rightarrow> None);
        if sto > sz then None else Some sto
      })"

definition seek_run :: "('e, 'd, 'q, 'p) fs_env \<Rightarrow> u64 \<Rightarrow> u64 \<Rightarrow> seek_mode \<Rightarrow> u64 \<Rightarrow> ('e, 'd, 'q, 'p) fs \<Rightarrow> (bool \<times> ('e, 'd, 'q, 'p) fs) option" where
  "seek_run e fp seek_to md hp s = do {
     (ok, s) \<leftarrow> load_chunk e ''[FS:Seek] PBFS Error: %s'' AOS_FS_CHUNK_SIZE hp s;
     if \<not> ok then Some (False, s)
     else do {
       f \<leftarrow> files s fp;
       h \<leftarrow> handlers s hp;
       case seek_target md seek_to (cur_seek f) (file_data_size h) of
         None \<Rightarrow> Some (False, s)
       | Some sto \<Rightarrow> Some (True, set_file fp (f\<lparr>cur_seek := sto\<rparr>) s)
     }
   }"

definition seek_file :: "('e, 'd, 'q, 'p) fs_env \<Rightarrow> u64 \<Rightarrow> u64 \<Rightarrow> seek_mode \<Rightarrow> ('e, 'd, 'q, 'p) fs \<Rightarrow> (bool \<times> ('e, 'd, 'q, 'p) fs) option" where
  "seek_file e fp seek_to md s =
     (if gmnt s = NULL \<or> fp = NULL then Some (False, s) else with_handle fp True (seek_run e fp seek_to md) s)"

subsection \<open>Opening and closing\<close>

definition aos_fs_init :: "('e, 'd, 'q, 'p) fs_env \<Rightarrow> u64 \<Rightarrow> ('e, 'd, 'q, 'p) fs \<Rightarrow> ('e, 'd, 'q, 'p) fs" where
  "aos_fs_init e mnt s =
     (if mnt = NULL then s else if \<not> mount_active e mnt (pbfs s) then s else s\<lparr>gmnt := mnt\<rparr>)"

definition new_file :: "u64 \<Rightarrow> aos_file" where
  "new_file hp = \<lparr>f_handle = hp, cur_seek = 0, f_tell = Some ''tell_file'', f_seek = Some ''seek_file'',
     f_read = Some ''read_file'', f_write = Some ''write_file'', f_flush = Some ''flush_file'',
     file_lock = False, closed = False\<rparr>"

definition new_handler :: "'e \<Rightarrow> 'd \<Rightarrow> 'q \<Rightarrow> u8 list \<Rightarrow> u64 \<Rightarrow> ('e, 'd, 'q) aos_dmm_handler" where
  "new_handler en md pt path data = \<lparr>h_sign = AOS_FS_SIGN, h_valid = False, h_path = path, h_entry = en,
     h_metadata = md, h_permission_table = pt, file_data = data, file_data_size = 0,
     file_data_refresh_req = True, file_data_flush_required = False, handle_lock = False\<rparr>"

text \<open>
  The first chunk is read at once, with the copy \<open>e\<close> of the entry, not the one of the handle; a file
  that cannot be read is open all the same.
\<close>

definition fill_file ::
  "('e, 'd, 'q, 'p) fs_env \<Rightarrow> u64 \<Rightarrow> u64 \<Rightarrow> 'e \<Rightarrow> 'd \<Rightarrow> 'q \<Rightarrow> u8 list \<Rightarrow> ('e, 'd, 'q, 'p) fs \<Rightarrow> ('e, 'd, 'q, 'p) fs option" where
  "fill_file e fp hp en md pt name s = do {
     (data, s) \<leftarrow> fs_alloc e AOS_FS_CHUNK_SIZE s;
     let h = new_handler en md pt name data;
     let s = set_file fp (new_file hp) s;
     if data = NULL then Some (set_handler hp (h\<lparr>h_valid := True\<rparr>) s)
     else do {
       (out, bs, sz, _, p) \<leftarrow> pbfs_read_file_dmm e (gmnt s) en AOS_FS_CHUNK_SIZE (pbfs s);
       m \<leftarrow> write_bytes data bs (fs_mem s);
       let s = s\<lparr>fs_mem := m, pbfs := p\<rparr>;
       let h = h\<lparr>file_data_size := sz, h_valid := True\<rparr>;
       if out = PBFS_RES_SUCCESS e then Some (set_handler hp (h\<lparr>file_data_refresh_req := False\<rparr>) s)
       else Some (fs_say ''[FS:Open] PBFS Error: %s'' [Str (pbfs_get_err_str e out)] (set_handler hp h s))
     }
   }"

definition fs_open :: "('e, 'd, 'q, 'p) fs_env \<Rightarrow> u64 \<Rightarrow> ('e, 'd, 'q, 'p) fs \<Rightarrow> (u64 \<times> ('e, 'd, 'q, 'p) fs) option" where
  "fs_open e path s =
     (if gmnt s = NULL \<or> path = NULL then Some (NULL, s)
      else do {
        path_len \<leftarrow> strlen path (fs_mem s);
        if path_len \<ge> PBFS_MAX_PATH_LEN e then Some (NULL, s)
        else do {
          name \<leftarrow> read_bytes (fs_mem s) path (unat path_len);
          (out, en, md, pt, p) \<leftarrow> pbfs_find_entry e (gmnt s) name (pbfs s);
          let s = s\<lparr>pbfs := p\<rparr>;
          if out \<noteq> PBFS_RES_SUCCESS e then Some (NULL, s)
          else do {
            (fp, s) \<leftarrow> fs_alloc e sizeof_aos_file s;
            if fp = NULL then Some (NULL, s)
            else do {
              (hp, s) \<leftarrow> fs_alloc e (sizeof_handler e) s;
              if hp = NULL then do { s \<leftarrow> fs_free fp sizeof_aos_file s; Some (NULL, s) }
              else do {
                s \<leftarrow> fill_file e fp hp en md pt name s;
                Some (fp, s)
              }
            }
          }
        }
      })"

text \<open>The records of a file that is closed, and of its handle, are gone with their memory.\<close>

definition drop_handler :: "('e, 'd, 'q, 'p) fs_env \<Rightarrow> u64 \<Rightarrow> ('e, 'd, 'q, 'p) fs \<Rightarrow> ('e, 'd, 'q, 'p) fs option" where
  "drop_handler e hp s = do { s \<leftarrow> fs_free hp (sizeof_handler e) s; Some (s\<lparr>handlers := (handlers s)(hp := None)\<rparr>) }"

definition drop_file :: "u64 \<Rightarrow> ('e, 'd, 'q, 'p) fs \<Rightarrow> ('e, 'd, 'q, 'p) fs option" where
  "drop_file fp s = do { s \<leftarrow> fs_free fp sizeof_aos_file s; Some (s\<lparr>files := (files s)(fp := None)\<rparr>) }"

text \<open>The handle is emptied if it has the signature of one.\<close>

definition clear_handle :: "u64 \<Rightarrow> ('e, 'd, 'q, 'p) fs \<Rightarrow> ('e, 'd, 'q, 'p) fs option" where
  "clear_handle hp s = do {
     h \<leftarrow> handlers s hp;
     if h_sign h \<noteq> AOS_FS_SIGN then Some s
     else do {
       s \<leftarrow> lock_handle hp s;
       s \<leftarrow> (if file_data h \<noteq> NULL then fs_free (file_data h) AOS_FS_CHUNK_SIZE s else Some s);
       h \<leftarrow> handlers s hp;
       unlock_handle hp (set_handler hp (h\<lparr>file_data_refresh_req := True, file_data := NULL,
         file_data_size := 0, file_data_flush_required := False, h_valid := False\<rparr>) s)
     }
   }"

definition fs_close :: "('e, 'd, 'q, 'p) fs_env \<Rightarrow> u64 \<Rightarrow> ('e, 'd, 'q, 'p) fs \<Rightarrow> ('e, 'd, 'q, 'p) fs option" where
  "fs_close e fp s =
     (if fp = NULL then Some s
      else do {
        s \<leftarrow> lock_file fp s;
        f \<leftarrow> files s fp;
        if closed f then unlock_file fp s
        else do {
          s \<leftarrow> unlock_file fp (set_file fp (f\<lparr>closed := True\<rparr>) s);
          (_, s) \<leftarrow> (if f_flush f = Some ''flush_file'' then flush_file e fp s else None);
          s \<leftarrow> lock_file fp s;
          f \<leftarrow> files s fp;
          let hp = f_handle f;
          s \<leftarrow> (if hp = NULL then Some s
                else do { s \<leftarrow> clear_handle hp s; drop_handler e hp s });
          s \<leftarrow> unlock_file fp s;
          drop_file fp s
        }
      })"

subsection \<open>The files of the system\<close>

text \<open>
  \<open>fs_pbfs_sysfile_accessed\<close>, which PBFS calls back: the bytes it is given, or the number of an error
  by the variable that holds it. \<open>None\<close> for \<open>md\<close> and \<open>out_data_size\<close> is the null pointer; the second
  result is what is stored through \<open>out_data_size\<close>.
\<close>

datatype sysfile_result = At u64 | Cpu_model | Res_success | Err_wrong_permissions | Err_allocation_failed

definition fs_pbfs_sysfile_accessed ::
  "('e, 'd, 'q, 'p) fs_env \<Rightarrow> u64 option \<Rightarrow> 'd option \<Rightarrow> u64 \<Rightarrow> u64 \<Rightarrow> bool \<Rightarrow> ('e, 'd, 'q, 'p) fs \<Rightarrow>
   (sysfile_result \<times> u64 option \<times> ('e, 'd, 'q, 'p) fs) option" where
  "fs_pbfs_sysfile_accessed e out_data_size md requested_size usage sysinfo s =
     (case (md, out_data_size) of
        (Some d, Some _) \<Rightarrow>
          if usage = PBFS_PERM_READ e then
            (if md_flags e d = AOS_FS_SYSFILE_TYPE_ZERO \<or> md_flags e d = AOS_FS_SYSFILE_TYPE_NULL then do {
               (out, s) \<leftarrow> fs_alloc e requested_size s;
               if out = NULL then Some (Err_allocation_failed, Some 0, s)
               else do {
                 (_, m) \<leftarrow> memset out 0 requested_size (fs_mem s);
                 Some (At out, Some requested_size, s\<lparr>fs_mem := m\<rparr>)
               }
             }
             else if md_flags e d = AOS_FS_SYSFILE_TYPE_CPU then
               (if sysinfo then Some (Cpu_model, Some 32, s) else Some (Res_success, Some 0, s))
             else Some (Err_wrong_permissions, Some 0, s))
          else Some (Err_wrong_permissions, Some 0, s)
      | _ \<Rightarrow> Some (Err_wrong_permissions, out_data_size, s))"

end
