(* ===== verification/FsSpec.thy ===== *)
theory FsSpec
  imports Fs
begin

text \<open>
  What the files of \<open>Fs\<close> do: a file whose chunk is in memory is an array of bytes with a cursor, no
  operation leaves a lock behind, and what a flush costs the next read.
\<close>

subsection \<open>Bytes in memory\<close>

lemma unat_uminus_u64:
  fixes x :: u64
  assumes "x \<noteq> 0"
  shows "unat (- x) = 18446744073709551616 - unat x"
  using unat_sub_if_size [of 0 x] assms by (simp add: word_size unat_eq_zero)

lemma far_plus:
  fixes p q :: u64
  assumes "n \<le> unat (p - q)" "n \<le> unat (q - p)" "i < n"
  shows "unat (p + of_nat i - q) = unat (p - q) + i"
proof -
  have "p \<noteq> q" using assms by auto
  then have "unat (q - p) = 18446744073709551616 - unat (p - q)"
    using unat_uminus_u64 [of "p - q"] by simp
  then have "unat (p - q) + i < 18446744073709551616" using assms u64_lt [of "p - q"] by linarith
  moreover from this have "unat (of_nat i :: u64) = i" by (intro unat_of_nat_u64) simp
  moreover have "p + of_nat i - q = (p - q) + of_nat i" by simp
  ultimately show ?thesis by (simp only: unat_plus_u64)
qed

lemma far_minus:
  fixes p q :: u64
  assumes "n \<le> unat (p - q)" "i \<le> n"
  shows "unat (p - (q + of_nat i)) = unat (p - q) - i"
proof -
  have "unat (of_nat i :: u64) = i" using assms u64_lt [of "p - q"] by (intro unat_of_nat_u64) linarith
  then have "of_nat i \<le> p - q" "unat (p - q - of_nat i) = unat (p - q) - i"
    using assms by (simp_all add: word_le_nat_alt unat_minus_u64)
  moreover have "p - (q + of_nat i) = p - q - of_nat i" by simp
  ultimately show ?thesis by (simp only:)
qed

lemma read_bytes_copied:
  assumes "read_bytes m s n = Some bs" "n < 2 ^ 64"
  shows "read_bytes (copied m d s n) d n = Some bs"
proof -
  have "copied m d s n (d + of_nat i) = m (s + of_nat i)" if "i < n" for i
    using that assms(2) by (simp add: copied_def unat_of_nat_u64)
  then show ?thesis using assms(1) by (simp add: read_bytes_iff)
qed

lemma read_bytes_copied_within:
  assumes r: "read_bytes m p n = Some bs" and w: "read_bytes m s j = Some xs" and le: "k + j \<le> n" and n: "n < 2 ^ 64"
  shows "read_bytes (copied m (p + of_nat k) s j) p n = Some (take k bs @ xs @ drop (k + j) bs)"
proof -
  have len: "length bs = n" "length xs = j" using r w by (simp_all add: read_bytes_iff)
  have "copied m (p + of_nat k) s j (p + of_nat i) = Some ((take k bs @ xs @ drop (k + j) bs) ! i)" if i: "i < n" for i
  proof (cases "k \<le> i")
    case True
    have e: "p + of_nat i - (p + of_nat k) = (of_nat (i - k) :: u64)" using True by (simp add: of_nat_diff)
    have u: "unat (of_nat (i - k) :: u64) = i - k" using i n by (intro unat_of_nat_u64) simp
    show ?thesis unfolding copied_def e u
      using True i r w len le by (auto simp: read_bytes_iff nth_append)
  next
    case False
    have e: "p + of_nat i - (p + of_nat k) = (- of_nat (k - i) :: u64)" using False by (simp add: of_nat_diff)
    have o: "unat (of_nat (k - i) :: u64) = k - i" using le n by (intro unat_of_nat_u64) simp
    then have "(of_nat (k - i) :: u64) \<noteq> 0" using False by (metis unat_0 diff_is_0_eq not_le order.refl)
    then have "unat (- of_nat (k - i) :: u64) = 18446744073709551616 - (k - i)"
      by (simp add: unat_uminus_u64 o)
    then have "\<not> unat (- of_nat (k - i) :: u64) < j" using le n by simp
    then show ?thesis unfolding copied_def e
      using False i r len le by (simp add: read_bytes_iff nth_append)
  qed
  then show ?thesis using len le by (simp add: read_bytes_iff)
qed

lemma mapped_copied:
  assumes "mapped m p k" "mapped m s n"
  shows "mapped (copied m d s n) p k"
proof -
  have "m (s + (a - d)) \<noteq> None" if "unat (a - d) < n" for a
    using that assms(2) by (simp add: mapped_def)
  then show ?thesis using assms(1) by (auto simp: mapped_def copied_def)
qed

subsection \<open>The locks around an operation\<close>

definition ready :: "u64 \<Rightarrow> aos_file \<Rightarrow> ('e, 'd, 'q) aos_dmm_handler \<Rightarrow> ('e, 'd, 'q, 'p) fs \<Rightarrow> bool" where
  "ready fp f h s \<longleftrightarrow> gmnt s \<noteq> NULL \<and> fp \<noteq> NULL \<and> files s fp = Some f \<and> \<not> file_lock f \<and> \<not> closed f \<and>
     f_handle f \<noteq> NULL \<and> handlers s (f_handle f) = Some h \<and> h_sign h = AOS_FS_SIGN \<and> \<not> handle_lock h"

definition both_locked :: "u64 \<Rightarrow> aos_file \<Rightarrow> ('e, 'd, 'q) aos_dmm_handler \<Rightarrow> ('e, 'd, 'q, 'p) fs \<Rightarrow> ('e, 'd, 'q, 'p) fs" where
  "both_locked fp f h s = s\<lparr>files := (files s)(fp \<mapsto> f\<lparr>file_lock := True\<rparr>),
     handlers := (handlers s)(f_handle f \<mapsto> h\<lparr>handle_lock := True\<rparr>)\<rparr>"

lemma with_handle_ready:
  assumes "ready fp f h s" "run (f_handle f) (both_locked fp f h s) = Some (r, s1)"
    "files s1 fp = Some f1" "handlers s1 (f_handle f) = Some h1"
  shows "with_handle fp cc run s = Some (r, s1\<lparr>files := (files s1)(fp \<mapsto> f1\<lparr>file_lock := False\<rparr>),
    handlers := (handlers s1)(f_handle f \<mapsto> h1\<lparr>handle_lock := False\<rparr>)\<rparr>)"
  using assms
  by (simp add: with_handle_def ready_def both_locked_def lock_file_def lock_handle_def set_file_def set_handler_def
      leave_both_def leave_file_def unlock_file_def unlock_handle_def)

lemma with_handle_same:
  assumes "ready fp f h s" "run (f_handle f) (both_locked fp f h s) = Some (r, both_locked fp f h s)"
  shows "with_handle fp cc run s = Some (r, s)"
proof -
  have "(files s)(fp \<mapsto> f) = files s" "(handlers s)(f_handle f \<mapsto> h) = handlers s"
    using assms(1) by (auto simp: ready_def)
  moreover have "f\<lparr>file_lock := False\<rparr> = f" "h\<lparr>handle_lock := False\<rparr> = h" using assms(1) by (auto simp: ready_def)
  ultimately show ?thesis
    using with_handle_ready [where run = run, OF assms(1) assms(2)] by (simp add: both_locked_def)
qed

lemma load_chunk_loaded:
  "handlers s hp = Some h \<Longrightarrow> file_data h \<noteq> NULL \<Longrightarrow> \<not> file_data_refresh_req h \<Longrightarrow>
   load_chunk e err n hp s = Some (True, s)"
  by (simp add: load_chunk_def)

subsection \<open>A file as bytes with a cursor\<close>

text \<open>
  \<open>holds fp ub s (bs, pos)\<close>: the open file \<open>fp\<close> has the bytes \<open>bs\<close> in its chunk and its cursor at
  \<open>pos\<close>, nobody holds its locks, and there are 4096 bytes for its user at \<open>ub\<close>, away from the chunk.
\<close>

definition holds :: "u64 \<Rightarrow> u64 \<Rightarrow> ('e, 'd, 'q, 'p) fs \<Rightarrow> u8 list \<times> nat \<Rightarrow> bool" where
  "holds fp ub s = (\<lambda>(bs, pos). \<exists>f h. ready fp f h s \<and> file_data h \<noteq> NULL \<and> \<not> file_data_refresh_req h \<and>
     read_bytes (fs_mem s) (file_data h) (unat (file_data_size h)) = Some bs \<and> length bs \<le> 4096 \<and>
     unat (cur_seek f) = pos \<and> pos \<le> length bs \<and> ub \<noteq> NULL \<and> mapped (fs_mem s) ub 4096 \<and>
     4096 \<le> unat (ub - file_data h) \<and> 4096 \<le> unat (file_data h - ub) \<and>
     unat (file_data h) + 4096 < 2 ^ 64)"

lemma holdsE:
  assumes "holds fp ub s (bs, pos)"
  obtains f h where "ready fp f h s" "file_data h \<noteq> NULL" "\<not> file_data_refresh_req h"
    "read_bytes (fs_mem s) (file_data h) (length bs) = Some bs" "unat (file_data_size h) = length bs"
    "length bs \<le> 4096" "unat (cur_seek f) = pos" "pos \<le> length bs" "ub \<noteq> NULL" "mapped (fs_mem s) ub 4096"
    "4096 \<le> unat (ub - file_data h)" "4096 \<le> unat (file_data h - ub)" "unat (file_data h) + 4096 < 2 ^ 64"
proof -
  obtain f h where h: "ready fp f h s" "file_data h \<noteq> NULL" "\<not> file_data_refresh_req h"
    "read_bytes (fs_mem s) (file_data h) (unat (file_data_size h)) = Some bs"
    "length bs \<le> 4096" "unat (cur_seek f) = pos" "pos \<le> length bs" "ub \<noteq> NULL" "mapped (fs_mem s) ub 4096"
    "4096 \<le> unat (ub - file_data h)" "4096 \<le> unat (file_data h - ub)" "unat (file_data h) + 4096 < 2 ^ 64"
    using assms unfolding holds_def by blast
  moreover from h(4) have l: "unat (file_data_size h) = length bs" by (simp add: read_bytes_iff)
  ultimately show thesis using that by metis
qed

lemma seek_room:
  fixes sz cur n :: u64
  assumes "unat sz = len" "unat cur = pos" "pos \<le> len"
  shows "(cur > sz \<or> n > sz - cur) \<longleftrightarrow> \<not> pos + unat n \<le> len"
proof -
  have "cur \<le> sz" using assms by (simp add: word_le_nat_alt)
  then have "unat (sz - cur) = len - pos" using assms by (simp add: unat_minus_u64)
  then show ?thesis using assms \<open>cur \<le> sz\<close> by (auto simp: word_less_nat_alt word_le_nat_alt)
qed

lemma cursor_address:
  fixes p cur :: u64
  assumes "unat p + 4096 < 2 ^ 64" "p \<noteq> NULL" "unat cur \<le> 4096"
  shows "p + cur \<noteq> NULL"
proof -
  have "unat (p + cur) = unat p + unat cur" using assms by (intro unat_plus_u64) simp
  then show ?thesis using assms(2) by (metis add_is_0 unat_0 unat_eq_zero)
qed

lemma read_file_holds:
  assumes H: "holds fp ub s (bs, pos)" and n: "n \<noteq> 0" "unat n \<le> 4096"
  shows "if pos + unat n \<le> length bs
    then \<exists>s'. read_file e fp n ub s = Some (True, s') \<and> holds fp ub s' (bs, pos + unat n) \<and>
      read_bytes (fs_mem s') ub (unat n) = Some (take (unat n) (drop pos bs))
    else \<exists>s'. read_file e fp n ub s = Some (False, s') \<and> holds fp ub s' (bs, pos)"
proof -
  from H obtain f h where h: "ready fp f h s" "file_data h \<noteq> NULL" "\<not> file_data_refresh_req h"
    "read_bytes (fs_mem s) (file_data h) (length bs) = Some bs" "unat (file_data_size h) = length bs"
    "length bs \<le> 4096" "unat (cur_seek f) = pos" "pos \<le> length bs" "ub \<noteq> NULL" "mapped (fs_mem s) ub 4096"
    "4096 \<le> unat (ub - file_data h)" "4096 \<le> unat (file_data h - ub)" "unat (file_data h) + 4096 < 2 ^ 64"
    by (rule holdsE)
  let ?s0 = "both_locked fp f h s"
  have ld: "load_chunk e err k (f_handle f) ?s0 = Some (True, ?s0)" for err k
    using h(2,3) by (intro load_chunk_loaded [where h = "h\<lparr>handle_lock := True\<rparr>"]) (simp_all add: both_locked_def)
  have fh: "files ?s0 fp = Some (f\<lparr>file_lock := True\<rparr>)" "handlers ?s0 (f_handle f) = Some (h\<lparr>handle_lock := True\<rparr>)"
    "fs_mem ?s0 = fs_mem s"
    by (simp_all add: both_locked_def)
  note room = seek_room [OF h(5,7,8), of n]
  have rf: "read_file e fp n ub s = with_handle fp True (read_run e fp n ub) s"
    using h(1,9) n(1) by (simp add: read_file_def ready_def)
  show ?thesis
  proof (cases "pos + unat n \<le> length bs")
    case True
    let ?src = "file_data h + cur_seek f" and ?m = "copied (fs_mem s) ub (file_data h + cur_seek f) (unat n)"
    have cur: "cur_seek f = of_nat pos" by (simp flip: h(7))
    have src: "read_bytes (fs_mem s) ?src (unat n) = Some (take (unat n) (drop pos bs))"
      using read_bytes_drop [OF h(4) True] by (simp add: cur)
    have "unat n \<le> unat (ub - ?src)"
      using far_minus [OF h(11), of pos] True h(6,11) by (simp add: cur)
    moreover have "?src \<noteq> NULL" using h(6-8) by (intro cursor_address [OF h(13,2)]) simp
    ultimately have "memcpy ub ?src n (fs_mem s) = Some (if ub = ?src then ub else ub + n, ?m)"
      using h(9,10) n(2) src by (intro memcpy_copies) (auto intro: mapped_mono read_bytes_mapped)
    then have run: "read_run e fp n ub (f_handle f) ?s0 =
        Some (True, set_file fp (f\<lparr>file_lock := True, cur_seek := cur_seek f + n\<rparr>) (?s0\<lparr>fs_mem := ?m\<rparr>))"
      using room True by (simp add: read_run_def ld fh)
    have kept: "read_bytes ?m (file_data h) (length bs) = Some bs"
    proof (subst read_bytes_frame [of _ _ _ "fs_mem s"])
      fix i assume "i < length bs"
      then have "\<not> unat (file_data h + of_nat i - ub) < unat n"
        using far_plus [OF h(12,11), of i] h(6,12) n(2) by simp
      then show "?m (file_data h + of_nat i) = fs_mem s (file_data h + of_nat i)" by (simp add: copied_def)
    qed (rule h(4))
    have cur': "unat (cur_seek f + n) = pos + unat n"
      using True h(6,7) by (subst unat_plus_u64) simp_all
    have mp: "mapped ?m ub 4096"
      using h(10) read_bytes_mapped [OF src] n(2) by (simp add: mapped_copied)
    let ?s' = "?s0\<lparr>fs_mem := ?m, files := (files s)(fp \<mapsto> f\<lparr>cur_seek := cur_seek f + n, file_lock := False\<rparr>),
       handlers := (handlers s)(f_handle f \<mapsto> h\<lparr>handle_lock := False\<rparr>)\<rparr>"
    have "read_file e fp n ub s = Some (True, ?s')"
      unfolding rf by (subst with_handle_ready [where run = "read_run e fp n ub" and ?f1.0 = "f\<lparr>file_lock := True, cur_seek := cur_seek f + n\<rparr>"
          and ?h1.0 = "h\<lparr>handle_lock := True\<rparr>", OF h(1) run]) (simp_all add: set_file_def both_locked_def)
    moreover have "holds fp ub ?s' (bs, pos + unat n)"
      unfolding holds_def using h kept cur' True mp
      by (auto simp: ready_def both_locked_def)
    ultimately show ?thesis using True read_bytes_copied [OF src, of ub] n(2) by simp
  next
    case False
    then have "read_run e fp n ub (f_handle f) ?s0 = Some (False, ?s0)"
      using room by (simp add: read_run_def ld fh)
    then have "read_file e fp n ub s = Some (False, s)" unfolding rf by (rule with_handle_same [OF h(1)])
    then show ?thesis using False H by simp
  qed
qed


lemma write_file_holds:
  assumes H: "holds fp ub s (bs, pos)" and n: "n \<noteq> 0" "unat n \<le> 4096"
    and xs: "read_bytes (fs_mem s) ub (unat n) = Some xs"
  shows "if pos + unat n \<le> length bs
    then \<exists>s'. write_file e fp n ub s = Some (True, s') \<and>
      holds fp ub s' (take pos bs @ xs @ drop (pos + unat n) bs, pos + unat n)
    else write_file e fp n ub s = Some (False, s)"
proof -
  from H obtain f h where h: "ready fp f h s" "file_data h \<noteq> NULL" "\<not> file_data_refresh_req h"
    "read_bytes (fs_mem s) (file_data h) (length bs) = Some bs" "unat (file_data_size h) = length bs"
    "length bs \<le> 4096" "unat (cur_seek f) = pos" "pos \<le> length bs" "ub \<noteq> NULL" "mapped (fs_mem s) ub 4096"
    "4096 \<le> unat (ub - file_data h)" "4096 \<le> unat (file_data h - ub)" "unat (file_data h) + 4096 < 2 ^ 64"
    by (rule holdsE)
  let ?s0 = "both_locked fp f h s"
  have ld: "load_chunk e err k (f_handle f) ?s0 = Some (True, ?s0)" for err k
    using h(2,3) by (intro load_chunk_loaded [where h = "h\<lparr>handle_lock := True\<rparr>"]) (simp_all add: both_locked_def)
  have fh: "files ?s0 fp = Some (f\<lparr>file_lock := True\<rparr>)" "handlers ?s0 (f_handle f) = Some (h\<lparr>handle_lock := True\<rparr>)"
    "fs_mem ?s0 = fs_mem s"
    by (simp_all add: both_locked_def)
  note room = seek_room [OF h(5,7,8), of n]
  have wf: "write_file e fp n ub s = with_handle fp True (write_run e fp n ub) s"
    using h(1,9) n(1) by (simp add: write_file_def ready_def)
  show ?thesis
  proof (cases "pos + unat n \<le> length bs")
    case True
    let ?dst = "file_data h + cur_seek f" and ?m = "copied (fs_mem s) (file_data h + cur_seek f) ub (unat n)"
    have cur: "cur_seek f = of_nat pos" by (simp flip: h(7))
    have pos: "pos < 4096" using True n(1) h(6) by (metis add_leD1 le_neq_implies_less add_cancel_right_right order.trans unat_eq_zero antisym le_add1)
    have "read_bytes (fs_mem s) ?dst (unat n) = Some (take (unat n) (drop pos bs))"
      using read_bytes_drop [OF h(4) True] by (simp add: cur)
    then have dst: "mapped (fs_mem s) ?dst (unat n)" using n(2) by (simp add: read_bytes_mapped)
    have "unat n \<le> unat (?dst - ub)"
      using far_plus [OF h(12,11), of pos] pos h(12) n(2) by (simp add: cur)
    moreover have "?dst \<noteq> NULL" using h(6-8) by (intro cursor_address [OF h(13,2)]) simp
    ultimately have "memcpy ?dst ub n (fs_mem s) = Some (if ?dst = ub then ?dst else ?dst + n, ?m)"
      using h(9,10) n(2) dst by (intro memcpy_copies) (auto intro: mapped_mono)
    then have run: "write_run e fp n ub (f_handle f) ?s0 =
        Some (True, set_file fp (f\<lparr>file_lock := True, cur_seek := cur_seek f + n\<rparr>)
          (set_handler (f_handle f) (h\<lparr>handle_lock := True, file_data_flush_required := True\<rparr>) (?s0\<lparr>fs_mem := ?m\<rparr>)))"
      using room True by (simp add: write_run_def ld fh)
    have new: "read_bytes ?m (file_data h) (length bs) = Some (take pos bs @ xs @ drop (pos + unat n) bs)"
      unfolding cur using h(6) by (intro read_bytes_copied_within [OF h(4) xs True]) simp
    have len: "length (take pos bs @ xs @ drop (pos + unat n) bs) = length bs"
      using new by (simp add: read_bytes_iff)
    have cur': "unat (cur_seek f + n) = pos + unat n"
      using True h(6,7) by (subst unat_plus_u64) simp_all
    have mp: "mapped ?m ub 4096"
      using h(10) mapped_mono [OF h(10) n(2)] by (rule mapped_copied)
    let ?s' = "?s0\<lparr>fs_mem := ?m, files := (files s)(fp \<mapsto> f\<lparr>file_lock := True, cur_seek := cur_seek f + n, file_lock := False\<rparr>),
       handlers := (handlers s)(f_handle f \<mapsto> h\<lparr>handle_lock := True, file_data_flush_required := True, handle_lock := False\<rparr>)\<rparr>"
    have "write_file e fp n ub s = Some (True, ?s')"
      unfolding wf by (subst with_handle_ready [where run = "write_run e fp n ub" and ?f1.0 = "f\<lparr>file_lock := True, cur_seek := cur_seek f + n\<rparr>"
          and ?h1.0 = "h\<lparr>handle_lock := True, file_data_flush_required := True\<rparr>", OF h(1) run]) (simp_all add: set_file_def set_handler_def both_locked_def)
    moreover have "holds fp ub ?s' (take pos bs @ xs @ drop (pos + unat n) bs, pos + unat n)"
      unfolding holds_def prod.case len
      using h cur' True mp
      by (intro exI [of _ "f\<lparr>file_lock := True, cur_seek := cur_seek f + n, file_lock := False\<rparr>"]
          exI [of _ "h\<lparr>handle_lock := True, file_data_flush_required := True, handle_lock := False\<rparr>"])
        (simp add: ready_def both_locked_def new)
    ultimately show ?thesis using True by simp
  next
    case False
    then have "write_run e fp n ub (f_handle f) ?s0 = Some (False, ?s0)"
      using room by (simp add: write_run_def ld fh)
    then have "write_file e fp n ub s = Some (False, s)" unfolding wf by (rule with_handle_same [OF h(1)])
    then show ?thesis using False by simp
  qed
qed

text \<open>Where a seek goes, on lengths; \<open>None\<close> for one that is refused.\<close>

fun bytes_target :: "seek_mode \<Rightarrow> nat \<Rightarrow> nat \<Rightarrow> nat \<Rightarrow> nat option" where
  "bytes_target FS_SEEK_MODE_CUR k pos len = (if pos + k \<le> len then Some (pos + k) else None)"
| "bytes_target FS_SEEK_MODE_SET k pos len = (if k \<le> len then Some k else None)"
| "bytes_target FS_SEEK_MODE_END k pos len = (if k \<le> len then Some (len - k) else None)"
| "bytes_target Seek_other k pos len = None"

lemma seek_target_bytes:
  assumes "unat sz = len" "unat cur = pos" "pos \<le> len"
  shows "map_option unat (seek_target md k cur sz) = bytes_target md (unat k) pos len"
proof (cases md)
  case FS_SEEK_MODE_CUR
  have "cur \<le> sz" using assms by (simp add: word_le_nat_alt)
  then have d: "unat (sz - cur) = len - pos" using assms by (simp add: unat_minus_u64)
  show ?thesis
  proof (cases "pos + unat k \<le> len")
    case True
    then have "unat (k + cur) = unat k + pos" using assms u64_lt [of sz] by (subst unat_plus_u64) simp_all
    then show ?thesis using True FS_SEEK_MODE_CUR assms d
      by (simp add: seek_target_def word_less_nat_alt)
  next
    case False
    then show ?thesis using FS_SEEK_MODE_CUR assms d by (auto simp: seek_target_def word_less_nat_alt)
  qed
next
  case FS_SEEK_MODE_END
  then show ?thesis using assms
    by (auto simp: seek_target_def word_less_nat_alt unat_minus_u64 word_le_nat_alt)
qed (use assms in \<open>auto simp: seek_target_def word_less_nat_alt\<close>)

lemma seek_file_holds:
  assumes H: "holds fp ub s (bs, pos)"
  shows "case bytes_target md (unat k) pos (length bs) of
      None \<Rightarrow> seek_file e fp k md s = Some (False, s)
    | Some pos' \<Rightarrow> \<exists>s'. seek_file e fp k md s = Some (True, s') \<and> holds fp ub s' (bs, pos')"
proof -
  from H obtain f h where h: "ready fp f h s" "file_data h \<noteq> NULL" "\<not> file_data_refresh_req h"
    "read_bytes (fs_mem s) (file_data h) (length bs) = Some bs" "unat (file_data_size h) = length bs"
    "length bs \<le> 4096" "unat (cur_seek f) = pos" "pos \<le> length bs" "ub \<noteq> NULL" "mapped (fs_mem s) ub 4096"
    "4096 \<le> unat (ub - file_data h)" "4096 \<le> unat (file_data h - ub)" "unat (file_data h) + 4096 < 2 ^ 64"
    by (rule holdsE)
  let ?s0 = "both_locked fp f h s"
  have ld: "load_chunk e err n (f_handle f) ?s0 = Some (True, ?s0)" for err n
    using h(2,3) by (intro load_chunk_loaded [where h = "h\<lparr>handle_lock := True\<rparr>"]) (simp_all add: both_locked_def)
  have fh: "files ?s0 fp = Some (f\<lparr>file_lock := True\<rparr>)" "handlers ?s0 (f_handle f) = Some (h\<lparr>handle_lock := True\<rparr>)"
    "fs_mem ?s0 = fs_mem s"
    by (simp_all add: both_locked_def)
  have sf: "seek_file e fp k md s = with_handle fp True (seek_run e fp k md) s"
    using h(1) by (simp add: seek_file_def ready_def)
  note t = seek_target_bytes [OF h(5,7,8), of md k]
  show ?thesis
  proof (cases "seek_target md k (cur_seek f) (file_data_size h)")
    case None
    then have "seek_run e fp k md (f_handle f) ?s0 = Some (False, ?s0)"
      by (simp add: seek_run_def ld fh)
    then have "seek_file e fp k md s = Some (False, s)" unfolding sf by (rule with_handle_same [OF h(1)])
    then show ?thesis using t None by simp
  next
    case (Some sto)
    then have run: "seek_run e fp k md (f_handle f) ?s0 =
        Some (True, set_file fp (f\<lparr>file_lock := True, cur_seek := sto\<rparr>) ?s0)"
      by (simp add: seek_run_def ld fh)
    have le: "unat sto \<le> length bs"
      using Some h(5) by (auto simp: seek_target_def word_le_nat_alt word_less_nat_alt bind_eq_Some_conv split: if_splits)
    let ?s' = "?s0\<lparr>files := (files s)(fp \<mapsto> f\<lparr>cur_seek := sto, file_lock := False\<rparr>),
       handlers := (handlers s)(f_handle f \<mapsto> h\<lparr>handle_lock := False\<rparr>)\<rparr>"
    have "seek_file e fp k md s = Some (True, ?s')"
      unfolding sf by (subst with_handle_ready [where run = "seek_run e fp k md" and ?f1.0 = "f\<lparr>file_lock := True, cur_seek := sto\<rparr>"
          and ?h1.0 = "h\<lparr>handle_lock := True\<rparr>", OF h(1) run]) (simp_all add: set_file_def both_locked_def)
    moreover have "holds fp ub ?s' (bs, unat sto)"
      unfolding holds_def using h le by (auto simp: ready_def both_locked_def)
    ultimately show ?thesis using t [symmetric] Some by simp
  qed
qed


text \<open>
  A user of the file with the bytes at \<open>ub\<close>: it puts bytes there and writes them, reads into them, or
  seeks. \<open>Refused\<close> is the result false.
\<close>

datatype file_call = Put "u8 list" | Get u64 | Seek u64 seek_mode
datatype reply = Refused | Done | Got "u8 list"

fun file_call_at :: "('e, 'd, 'q, 'p) fs_env \<Rightarrow> u64 \<Rightarrow> u64 \<Rightarrow> file_call \<Rightarrow> ('e, 'd, 'q, 'p) fs \<Rightarrow> (reply \<times> ('e, 'd, 'q, 'p) fs) option" where
  "file_call_at e fp ub (Put xs) s = do {
     m \<leftarrow> write_bytes ub xs (fs_mem s);
     (r, s) \<leftarrow> write_file e fp (of_nat (length xs)) ub (s\<lparr>fs_mem := m\<rparr>);
     Some (if r then Done else Refused, s)
   }"
| "file_call_at e fp ub (Get n) s = do {
     (r, s) \<leftarrow> read_file e fp n ub s;
     if r then do { bs \<leftarrow> read_bytes (fs_mem s) ub (unat n); Some (Got bs, s) } else Some (Refused, s)
   }"
| "file_call_at e fp ub (Seek k md) s = do {
     (r, s) \<leftarrow> seek_file e fp k md s;
     Some (if r then Done else Refused, s)
   }"

fun file_calls_at :: "('e, 'd, 'q, 'p) fs_env \<Rightarrow> u64 \<Rightarrow> u64 \<Rightarrow> file_call list \<Rightarrow> ('e, 'd, 'q, 'p) fs \<Rightarrow> (reply list \<times> ('e, 'd, 'q, 'p) fs) option" where
  "file_calls_at e fp ub [] s = Some ([], s)"
| "file_calls_at e fp ub (c # cs) s = do {
     (r, s) \<leftarrow> file_call_at e fp ub c s;
     (rs, s) \<leftarrow> file_calls_at e fp ub cs s;
     Some (r # rs, s)
   }"

text \<open>The same calls on an array of bytes and a cursor.\<close>

fun bytes_call :: "file_call \<Rightarrow> u8 list \<times> nat \<Rightarrow> reply \<times> u8 list \<times> nat" where
  "bytes_call (Put xs) (bs, pos) =
     (if pos + length xs \<le> length bs
      then (Done, take pos bs @ xs @ drop (pos + length xs) bs, pos + length xs) else (Refused, bs, pos))"
| "bytes_call (Get n) (bs, pos) =
     (if pos + unat n \<le> length bs then (Got (take (unat n) (drop pos bs)), bs, pos + unat n) else (Refused, bs, pos))"
| "bytes_call (Seek k md) (bs, pos) =
     (case bytes_target md (unat k) pos (length bs) of None \<Rightarrow> (Refused, bs, pos) | Some pos' \<Rightarrow> (Done, bs, pos'))"

fun bytes_calls :: "file_call list \<Rightarrow> u8 list \<times> nat \<Rightarrow> reply list \<times> u8 list \<times> nat" where
  "bytes_calls [] v = ([], v)"
| "bytes_calls (c # cs) v = (let (r, v) = bytes_call c v; (rs, v) = bytes_calls cs v in (r # rs, v))"

fun call_fits :: "file_call \<Rightarrow> bool" where
  "call_fits (Put xs) = (length xs \<le> 4096)"
| "call_fits (Get n) = (unat n \<le> 4096)"
| "call_fits (Seek k md) = True"

lemma holds_put:
  assumes H: "holds fp ub s v" and xs: "length xs \<le> 4096"
  shows "holds fp ub (s\<lparr>fs_mem := stored (fs_mem s) ub xs\<rparr>) v"
proof -
  obtain bs pos where v: "v = (bs, pos)" by (cases v)
  with H obtain f h where h: "ready fp f h s" "file_data h \<noteq> NULL" "\<not> file_data_refresh_req h"
    "read_bytes (fs_mem s) (file_data h) (length bs) = Some bs" "unat (file_data_size h) = length bs"
    "length bs \<le> 4096" "unat (cur_seek f) = pos" "pos \<le> length bs" "ub \<noteq> NULL" "mapped (fs_mem s) ub 4096"
    "4096 \<le> unat (ub - file_data h)" "4096 \<le> unat (file_data h - ub)" "unat (file_data h) + 4096 < 2 ^ 64"
    using holdsE by metis
  have "read_bytes (stored (fs_mem s) ub xs) (file_data h) (length bs) = read_bytes (fs_mem s) (file_data h) (length bs)"
  proof (rule read_bytes_frame)
    fix i assume "i < length bs"
    then have "\<not> unat (file_data h + of_nat i - ub) < length xs"
      using far_plus [OF h(12,11), of i] h(6,12) xs by simp
    then show "stored (fs_mem s) ub xs (file_data h + of_nat i) = fs_mem s (file_data h + of_nat i)"
      using xs by (simp add: stored_apply)
  qed
  then show ?thesis unfolding v holds_def prod.case
    using h by (intro exI [of _ f] exI [of _ h]) (simp add: ready_def mapped_stored)
qed

lemma read_bytes_stored:
  assumes "length xs \<le> 4096" shows "read_bytes (stored m p xs) p (length xs) = Some xs"
proof -
  have "unat (of_nat i :: u64) = i" if "i < length xs" for i
    using that assms by (intro unat_of_nat_u64) simp
  then show ?thesis using assms by (simp add: read_bytes_iff stored_apply)
qed

lemma read_file_nothing: "holds fp ub s v \<Longrightarrow> read_file e fp 0 ub s = Some (True, s)"
  "holds fp ub s v \<Longrightarrow> write_file e fp 0 ub s = Some (True, s)"
  by (auto simp: holds_def ready_def read_file_def write_file_def split: prod.splits)

lemma file_call_refines:
  assumes H: "holds fp ub s v" and c: "call_fits c"
  shows "\<exists>s'. file_call_at e fp ub c s = Some (fst (bytes_call c v), s') \<and> holds fp ub s' (snd (bytes_call c v))"
proof -
  obtain bs pos where v: "v = (bs, pos)" by (cases v)
  note H = H [unfolded v]
  have pos: "pos \<le> length bs" and mp: "mapped (fs_mem s) ub 4096" using H by (auto simp: holds_def)
  show ?thesis
  proof (cases c)
    case (Put xs)
    then have xs: "length xs \<le> 4096" using c by simp
    let ?s = "s\<lparr>fs_mem := stored (fs_mem s) ub xs\<rparr>"
    have w: "write_bytes ub xs (fs_mem s) = Some (stored (fs_mem s) ub xs)"
      using mapped_mono [OF mp xs] by (rule write_bytes_stored)
    have H': "holds fp ub ?s (bs, pos)" using H xs by (rule holds_put)
    have len: "unat (of_nat (length xs) :: u64) = length xs" using xs by (intro unat_of_nat_u64) simp
    show ?thesis
    proof (cases "xs = []")
      case True
      then show ?thesis using Put v H pos read_file_nothing(2) [OF H'] by (auto simp: w)
    next
      case False
      then have n: "(of_nat (length xs) :: u64) \<noteq> 0" using len by (metis length_0_conv unat_0)
      have rb: "read_bytes (fs_mem ?s) ub (unat (of_nat (length xs) :: u64)) = Some xs"
        using xs by (simp add: len read_bytes_stored)
      from write_file_holds [OF H' n _ rb, of e] show ?thesis
        using Put v H' xs by (auto simp: w len split: if_splits)
    qed
  next
    case (Get n)
    show ?thesis
    proof (cases "n = 0")
      case True
      then show ?thesis using Get v H pos read_file_nothing(1) [OF H] by auto
    next
      case False
      from read_file_holds [OF H False, of e] show ?thesis
        using Get v c by (auto split: if_splits)
    qed
  next
    case (Seek k md)
    from seek_file_holds [OF H, where md = md and k = k and e = e] show ?thesis
      using Seek v H by (auto split: option.splits)
  qed
qed

text \<open>C35: A file whose chunk is in memory behaves as an array of bytes with a cursor: whatever writes, reads
  and seeks its user makes, the replies and what the file holds in the end are those of the same calls on
  the array, refusals included; a call that would pass the end changes nothing.\<close>

theorem fs_runs_like_bytes:
  assumes "holds fp ub s v" "list_all call_fits cs"
  shows "\<exists>s'. file_calls_at e fp ub cs s = Some (fst (bytes_calls cs v), s') \<and> holds fp ub s' (snd (bytes_calls cs v))"
  using assms
proof (induction cs arbitrary: s v)
  case (Cons c cs)
  then obtain s1 where s1: "file_call_at e fp ub c s = Some (fst (bytes_call c v), s1)" "holds fp ub s1 (snd (bytes_call c v))"
    using file_call_refines [of fp ub s v c e] by auto
  then show ?case using Cons.IH [OF s1(2)] Cons.prems(2) by (auto simp: split_beta Let_def)
qed simp

subsection \<open>Reading after a flush\<close>

lemma fs_alloc_frame:
  "fs_alloc e n s = Some (v, s') \<Longrightarrow> files s' = files s \<and> handlers s' = handlers s \<and> gmnt s' = gmnt s"
  by (auto simp: fs_alloc_def bind_eq_Some_conv split: if_splits)

lemma fs_free_frame:
  "fs_free v n s = Some s' \<Longrightarrow> files s' = files s \<and> handlers s' = handlers s \<and> gmnt s' = gmnt s"
  by (auto simp: fs_free_def bind_eq_Some_conv)

lemma load_chunk_frame:
  assumes "load_chunk e err n hp s = Some (r, s')" "handlers s hp = Some h"
  shows "files s' = files s \<and> gmnt s' = gmnt s \<and> (\<exists>h'. handlers s' = (handlers s)(hp \<mapsto> h') \<and> h_sign h' = h_sign h \<and>
    handle_lock h' = handle_lock h)"
proof (cases "file_data h \<noteq> NULL \<and> \<not> file_data_refresh_req h")
  case True
  then have "s' = s" "(handlers s)(hp \<mapsto> h) = handlers s" using assms by (auto simp: load_chunk_def)
  then show ?thesis by metis
next
  case False
  then show ?thesis using assms
    by (auto simp: load_chunk_def set_handler_def fs_say_def Let_def bind_eq_Some_conv
        split: if_splits prod.splits dest!: fs_alloc_frame)
qed

text \<open>What PBFS says it has read is no more than it was asked for.\<close>

definition reads_at_most :: "('e, 'd, 'q, 'p) fs_env \<Rightarrow> bool" where
  "reads_at_most e \<longleftrightarrow> (\<forall>mnt en n p out bs sz en' p'.
     pbfs_read_file_dmm e mnt en n p = Some (out, bs, sz, en', p') \<longrightarrow> sz \<le> n)"

lemma load_chunk_refresh:
  assumes "load_chunk e err n hp s = Some (True, s')" "handlers s hp = Some h" "file_data_refresh_req h" "reads_at_most e"
  shows "\<exists>h'. handlers s' hp = Some h' \<and> file_data h' \<noteq> NULL \<and> \<not> file_data_refresh_req h' \<and> file_data_size h' \<le> n"
proof -
  have le: "pbfs_read_file_dmm e mnt en k p = Some (out, bs, sz, en', p') \<Longrightarrow> sz \<le> k" for mnt en k p out bs sz en' p'
    using assms(4) unfolding reads_at_most_def by blast
  show ?thesis using assms(1-3)
    by (auto simp: load_chunk_def set_handler_def fs_say_def Let_def bind_eq_Some_conv
        split: if_splits prod.splits dest: le)
qed

lemma leave_bothE:
  assumes "leave_both fp hp r s = Some (r', s')"
  obtains f h where "files s fp = Some f" "handlers s hp = Some h" "r' = r"
    "s' = s\<lparr>files := (files s)(fp \<mapsto> f\<lparr>file_lock := False\<rparr>), handlers := (handlers s)(hp \<mapsto> h\<lparr>handle_lock := False\<rparr>)\<rparr>"
  using assms
  by (auto simp: leave_both_def leave_file_def unlock_file_def unlock_handle_def set_file_def set_handler_def bind_eq_Some_conv)

lemma leave_both_result: "leave_both fp hp r s = Some (r', s') \<Longrightarrow> r' = r"
  by (erule leave_bothE)

lemma with_handleE:
  assumes "with_handle fp cc run s = Some (True, s')"
  obtains f h s1 where "files s fp = Some f" "\<not> file_lock f" "cc \<Longrightarrow> \<not> closed f" "f_handle f \<noteq> NULL"
    "handlers s (f_handle f) = Some h" "h_sign h = AOS_FS_SIGN" "\<not> handle_lock h"
    "run (f_handle f) (both_locked fp f h s) = Some (True, s1)" "leave_both fp (f_handle f) True s1 = Some (True, s')"
  using assms
  by (auto simp: with_handle_def lock_file_def lock_handle_def set_file_def set_handler_def both_locked_def
      leave_file_def bind_eq_Some_conv split: if_splits dest: leave_both_result)

lemma read_all_at_start:
  fixes c n sz :: u64
  assumes "\<not> (c > sz \<or> n > sz - c)" "sz \<le> n"
  shows "sz = c + n"
proof -
  have "c \<le> sz" "n \<le> sz - c" using assms(1) by auto
  then have "unat c + unat n \<le> unat sz" by (simp add: word_le_nat_alt unat_minus_u64)
  moreover have "unat sz \<le> unat n" using assms(2) by (simp add: word_le_nat_alt)
  ultimately have "unat c = 0" "unat sz = unat n" by linarith+
  then show ?thesis using u64_eqI [of sz n] by (simp add: unat_eq_zero)
qed

lemma read_after_refresh:
  assumes "read_file e fp n buf s = Some (True, s')" "n \<noteq> 0" "files s fp = Some f" "handlers s (f_handle f) = Some h"
    "file_data_refresh_req h" "reads_at_most e"
  shows "\<exists>f' h'. files s' fp = Some f' \<and> handlers s' (f_handle f') = Some h' \<and> \<not> file_data_refresh_req h' \<and>
    file_data h' \<noteq> NULL \<and> file_data_size h' = cur_seek f'"
proof -
  have "with_handle fp True (read_run e fp n buf) s = Some (True, s')"
    using assms(1,2) by (auto simp: read_file_def split: if_splits)
  then obtain s1 where s1: "read_run e fp n buf (f_handle f) (both_locked fp f h s) = Some (True, s1)"
    "leave_both fp (f_handle f) True s1 = Some (True, s')"
    by (rule with_handleE) (use assms(3,4) in auto)
  let ?s0 = "both_locked fp f h s"
  have h0: "files ?s0 fp = Some (f\<lparr>file_lock := True\<rparr>)" "handlers ?s0 (f_handle f) = Some (h\<lparr>handle_lock := True\<rparr>)"
    by (simp_all add: both_locked_def)
  from s1(1) obtain s2 where s2: "load_chunk e ''[FS:Read] PBFS Error: %s'' n (f_handle f) ?s0 = Some (True, s2)"
    by (auto simp: read_run_def bind_eq_Some_conv split: if_splits)
  note fr = load_chunk_frame [OF s2 h0(2)]
  from load_chunk_refresh [OF s2 h0(2) _ assms(6)] assms(5) obtain h2 where
    h2: "handlers s2 (f_handle f) = Some h2" "file_data h2 \<noteq> NULL" "\<not> file_data_refresh_req h2" "file_data_size h2 \<le> n"
    by auto
  have f2: "files s2 fp = Some (f\<lparr>file_lock := True\<rparr>)" using fr h0(1) by simp
  from s1(1) s2 f2 h2(1) obtain m where ok: "\<not> (cur_seek f > file_data_size h2 \<or> n > file_data_size h2 - cur_seek f)"
    and s1e: "s1 = set_file fp (f\<lparr>file_lock := True, cur_seek := cur_seek f + n\<rparr>) (s2\<lparr>fs_mem := m\<rparr>)"
    by (auto simp: read_run_def bind_eq_Some_conv split: if_splits)
  have "file_data_size h2 = cur_seek f + n" using ok h2(4) by (rule read_all_at_start)
  then show ?thesis using s1(2) h2 unfolding s1e by (auto elim!: leave_bothE simp: set_file_def)
qed

lemma read_at_end:
  assumes "files s fp = Some f" "handlers s (f_handle f) = Some h" "\<not> file_data_refresh_req h" "file_data h \<noteq> NULL"
    "file_data_size h = cur_seek f" "n \<noteq> 0"
  shows "read_file e fp n buf s \<noteq> Some (True, s')"
proof
  assume "read_file e fp n buf s = Some (True, s')"
  then have "with_handle fp True (read_run e fp n buf) s = Some (True, s')"
    using assms(6) by (auto simp: read_file_def split: if_splits)
  then obtain s1 where "read_run e fp n buf (f_handle f) (both_locked fp f h s) = Some (True, s1)"
    by (rule with_handleE) (use assms(1,2) in auto)
  then show False using assms
    by (auto simp: read_run_def load_chunk_def both_locked_def bind_eq_Some_conv word_neq_0_conv split: if_splits)
qed

lemma flush_run_refresh:
  assumes "flush_run e hp s = Some (True, s')" "handlers s hp = Some h" "file_data_flush_required h"
  shows "files s' = files s \<and> (\<exists>h'. handlers s' hp = Some h' \<and> file_data_refresh_req h')"
  using assms
  by (auto simp: flush_run_def set_handler_def fs_say_def Let_def bind_eq_Some_conv
      split: if_splits dest!: fs_free_frame)

lemma flush_refresh:
  assumes "flush_file e fp s = Some (True, s')" "files s fp = Some f" "handlers s (f_handle f) = Some h"
    "file_data_flush_required h"
  shows "\<exists>f' h'. files s' fp = Some f' \<and> handlers s' (f_handle f') = Some h' \<and> file_data_refresh_req h'"
proof -
  have "with_handle fp False (flush_run e) s = Some (True, s')"
    using assms(1) by (auto simp: flush_file_def split: if_splits)
  then obtain s1 where s1: "flush_run e (f_handle f) (both_locked fp f h s) = Some (True, s1)"
    "leave_both fp (f_handle f) True s1 = Some (True, s')"
    by (rule with_handleE) (use assms(2,3) in auto)
  from flush_run_refresh [OF s1(1), of "h\<lparr>handle_lock := True\<rparr>"] s1(2) assms(4) show ?thesis
    by (auto elim!: leave_bothE simp: both_locked_def)
qed

text \<open>C36: After a flush that had something to write back the next read asks PBFS for no more bytes than it returns, so that whatever it gets the
  read after it fails: no two reads of at least one byte in a row succeed, however long the file is. A flush with nothing to write
  back leaves the chunk as it is.\<close>

theorem fs_no_two_reads_after_flush:
  assumes "files s fp = Some f" "handlers s (f_handle f) = Some h" "file_data_flush_required h"
    and "flush_file e fp s = Some (True, s1)" "reads_at_most e" "n \<noteq> 0" "k \<noteq> 0"
  shows "\<not> (\<exists>s2 s3. read_file e fp n b1 s1 = Some (True, s2) \<and> read_file e fp k b2 s2 = Some (True, s3))"
proof clarify
  fix s2 s3 assume r: "read_file e fp n b1 s1 = Some (True, s2)" "read_file e fp k b2 s2 = Some (True, s3)"
  from flush_refresh [OF assms(4,1,2,3)] obtain f' h' where "files s1 fp = Some f'"
    "handlers s1 (f_handle f') = Some h'" "file_data_refresh_req h'" by blast
  from read_after_refresh [OF r(1) assms(6) this assms(5)] r(2) show False
    using read_at_end assms(7) by blast
qed

subsection \<open>No lock is left behind\<close>

definition locks_free :: "('e, 'd, 'q, 'p) fs \<Rightarrow> bool" where
  "locks_free s \<longleftrightarrow> (\<forall>a f. files s a = Some f \<longrightarrow> \<not> file_lock f) \<and> (\<forall>a h. handlers s a = Some h \<longrightarrow> \<not> handle_lock h)"

definition same_locks :: "('e, 'd, 'q, 'p) fs \<Rightarrow> ('e, 'd, 'q, 'p) fs \<Rightarrow> bool" where
  "same_locks s s' \<longleftrightarrow> (\<forall>a. map_option file_lock (files s' a) = map_option file_lock (files s a)) \<and>
     (\<forall>a. map_option handle_lock (handlers s' a) = map_option handle_lock (handlers s a))"

lemma same_locks_refl [simp]: "same_locks s s"
  by (simp add: same_locks_def)

lemma same_locks_trans: "same_locks s t \<Longrightarrow> same_locks t u \<Longrightarrow> same_locks s u"
  by (simp add: same_locks_def)

lemma same_locks_files [intro]: "files s fp = Some f \<Longrightarrow> file_lock f' = file_lock f \<Longrightarrow> same_locks s (set_file fp f' s)"
  by (simp add: same_locks_def set_file_def)

lemma same_locks_handlers [intro]: "handlers s hp = Some h \<Longrightarrow> handle_lock h' = handle_lock h \<Longrightarrow> same_locks s (set_handler hp h' s)"
  by (simp add: same_locks_def set_handler_def)

lemma same_locks_stores: "files s' = files s \<Longrightarrow> handlers s' = handlers s \<Longrightarrow> same_locks s s'"
  by (simp add: same_locks_def)

lemma same_locks_load_chunk: "load_chunk e err n hp s = Some (r, s') \<Longrightarrow> same_locks s s'"
proof -
  assume l: "load_chunk e err n hp s = Some (r, s')"
  then obtain h where h: "handlers s hp = Some h" by (auto simp: load_chunk_def bind_eq_Some_conv)
  from load_chunk_frame [OF l h] h show ?thesis by (auto simp: same_locks_def)
qed

lemma read_run_locks: "read_run e fp n buf hp s = Some (r, s') \<Longrightarrow> same_locks s s'"
  by (auto simp: read_run_def bind_eq_Some_conv same_locks_def set_file_def split: if_splits dest!: same_locks_load_chunk)
    (metis map_option_eq_Some option.map_disc_iff)+

lemma write_run_locks: "write_run e fp n buf hp s = Some (r, s') \<Longrightarrow> same_locks s s'"
  by (auto simp: write_run_def bind_eq_Some_conv same_locks_def set_file_def set_handler_def Let_def
      split: if_splits dest!: same_locks_load_chunk)
    (metis map_option_eq_Some option.map_disc_iff)+

lemma seek_run_locks: "seek_run e fp k md hp s = Some (r, s') \<Longrightarrow> same_locks s s'"
  by (auto simp: seek_run_def bind_eq_Some_conv same_locks_def set_file_def
      split: if_splits option.splits dest!: same_locks_load_chunk)
    (metis map_option_eq_Some option.map_disc_iff)+

lemma flush_run_locks: "flush_run e hp s = Some (r, s') \<Longrightarrow> same_locks s s'"
  by (auto simp: flush_run_def bind_eq_Some_conv same_locks_def set_handler_def fs_say_def Let_def
      split: if_splits dest!: fs_free_frame)

lemma same_locksD:
  assumes "same_locks s s'"
  shows "files s' a = Some f \<Longrightarrow> \<exists>f0. files s a = Some f0 \<and> file_lock f0 = file_lock f"
    and "handlers s' a = Some h \<Longrightarrow> \<exists>h0. handlers s a = Some h0 \<and> handle_lock h0 = handle_lock h"
proof -
  have "map_option file_lock (files s' a) = map_option file_lock (files s a)"
    "map_option handle_lock (handlers s' a) = map_option handle_lock (handlers s a)"
    using assms by (simp_all add: same_locks_def)
  then show "files s' a = Some f \<Longrightarrow> \<exists>f0. files s a = Some f0 \<and> file_lock f0 = file_lock f"
    "handlers s' a = Some h \<Longrightarrow> \<exists>h0. handlers s a = Some h0 \<and> handle_lock h0 = handle_lock h"
    by (auto simp: map_option_case split: option.splits)
qed

lemma locks_free_same: "locks_free s \<Longrightarrow> same_locks s s' \<Longrightarrow> locks_free s'"
  unfolding locks_free_def by (auto dest: same_locksD)

lemma locks_free_file: "locks_free s \<Longrightarrow> \<not> file_lock f \<Longrightarrow> locks_free (set_file fp f s)"
  by (simp add: locks_free_def set_file_def)

lemma locks_free_handler: "locks_free s \<Longrightarrow> \<not> handle_lock h \<Longrightarrow> locks_free (set_handler hp h s)"
  by (simp add: locks_free_def set_handler_def)

lemma locks_free_stores: "locks_free s \<Longrightarrow> files s' = files s \<Longrightarrow> handlers s' = handlers s \<Longrightarrow> locks_free s'"
  by (simp add: locks_free_def)

text \<open>A file that is locked and unlocked again around what keeps the locks.\<close>

lemma locks_free_unlock_file:
  assumes s: "locks_free s" and l: "lock_file fp s = Some s1" and k: "same_locks s1 s2" and u: "unlock_file fp s2 = Some s3"
  shows "locks_free s3"
proof -
  from l have s1: "\<And>a f. files s1 a = Some f \<Longrightarrow> a \<noteq> fp \<Longrightarrow> files s a = Some f" "handlers s1 = handlers s"
    by (auto simp: lock_file_def set_file_def bind_eq_Some_conv split: if_splits)
  from u have s3: "\<And>a f. files s3 a = Some f \<Longrightarrow> (if a = fp then \<not> file_lock f else files s2 a = Some f)" "handlers s3 = handlers s2"
    by (auto simp: unlock_file_def set_file_def bind_eq_Some_conv)
  have "\<not> file_lock f" if "files s3 a = Some f" for a f
    using s3(1) [OF that] same_locksD(1) [OF k, of a f] s1(1) [of a] s by (fastforce simp: locks_free_def split: if_splits)
  moreover have "\<not> handle_lock h" if "handlers s3 a = Some h" for a h
    using that same_locksD(2) [OF k, of a h] s unfolding s3(2) s1(2) by (auto simp: locks_free_def)
  ultimately show ?thesis by (simp add: locks_free_def)
qed

lemma with_handle_locks:
  assumes s: "locks_free s" and w: "with_handle fp cc run s = Some (r, s')"
    and run: "\<And>hp s r s'. run hp s = Some (r, s') \<Longrightarrow> same_locks s s'"
  shows "locks_free s'"
proof -
  from w obtain s1 f where s1: "lock_file fp s = Some s1" and f: "files s1 fp = Some f"
    by (auto simp: with_handle_def bind_eq_Some_conv)
  have early: "leave_file fp False s1 = Some (r, s') \<Longrightarrow> locks_free s'"
    using locks_free_unlock_file [OF s s1 same_locks_refl] by (auto simp: leave_file_def bind_eq_Some_conv)
  show ?thesis
  proof (cases "(cc \<and> closed f) \<or> f_handle f = NULL \<or> (\<exists>h. handlers s1 (f_handle f) = Some h \<and> h_sign h \<noteq> AOS_FS_SIGN)")
    case True
    then show ?thesis using w s1 f early by (auto simp: with_handle_def bind_eq_Some_conv split: if_splits)
  next
    case False
    with w s1 f obtain s2 s3 q where s2: "lock_handle (f_handle f) s1 = Some s2"
      and q: "run (f_handle f) s2 = Some (q, s3)" and l: "leave_both fp (f_handle f) q s3 = Some (r, s')"
      by (auto simp: with_handle_def bind_eq_Some_conv split: if_splits)
    from l obtain s4 where s4: "unlock_handle (f_handle f) s3 = Some s4" "unlock_file fp s4 = Some s'"
      by (auto simp: leave_both_def leave_file_def bind_eq_Some_conv)
    have "same_locks s1 s4"
      using s2 run [OF q] s4(1)
      by (auto simp: lock_handle_def unlock_handle_def same_locks_def set_handler_def bind_eq_Some_conv split: if_splits)
    from locks_free_unlock_file [OF s s1 this s4(2)] show ?thesis .
  qed
qed

lemma read_file_locks: "locks_free s \<Longrightarrow> read_file e fp n buf s = Some (r, s') \<Longrightarrow> locks_free s'"
  using with_handle_locks [OF _ _ read_run_locks] by (auto simp: read_file_def split: if_splits)

lemma write_file_locks: "locks_free s \<Longrightarrow> write_file e fp n buf s = Some (r, s') \<Longrightarrow> locks_free s'"
  using with_handle_locks [OF _ _ write_run_locks] by (auto simp: write_file_def split: if_splits)

lemma seek_file_locks: "locks_free s \<Longrightarrow> seek_file e fp k md s = Some (r, s') \<Longrightarrow> locks_free s'"
  using with_handle_locks [OF _ _ seek_run_locks] by (auto simp: seek_file_def split: if_splits)

lemma flush_file_locks: "locks_free s \<Longrightarrow> flush_file e fp s = Some (r, s') \<Longrightarrow> locks_free s'"
  using with_handle_locks [OF _ _ flush_run_locks] by (auto simp: flush_file_def split: if_splits)

lemma tell_file_locks: "locks_free s \<Longrightarrow> tell_file fp s = Some (r, s') \<Longrightarrow> locks_free s'"
  using locks_free_unlock_file [OF _ _ same_locks_refl]
  by (fastforce simp: tell_file_def leave_file_def bind_eq_Some_conv split: if_splits)

text \<open>Opening and closing.\<close>

lemma fill_file_locks: "locks_free s \<Longrightarrow> fill_file e fp hp en md pt name s = Some s' \<Longrightarrow> locks_free s'"
  by (auto simp: fill_file_def bind_eq_Some_conv Let_def fs_say_def locks_free_def set_file_def set_handler_def
      new_file_def new_handler_def split: if_splits dest!: fs_alloc_frame)

text \<open>Opening a file makes nothing, or ends with the new records.\<close>

lemma fs_open_cases:
  assumes o: "fs_open e path s = Some (r, s')"
  shows "(files s' = files s \<and> handlers s' = handlers s) \<or>
    (\<exists>s1 hp en md pt name. files s1 = files s \<and> handlers s1 = handlers s \<and> fill_file e r hp en md pt name s1 = Some s')"
proof (cases "r = NULL \<and> s' = s")
  case False
  then obtain len where len: "gmnt s \<noteq> NULL" "path \<noteq> NULL" "strlen path (fs_mem s) = Some len" "\<not> len \<ge> PBFS_MAX_PATH_LEN e"
    using o by (auto simp: fs_open_def bind_eq_Some_conv split: if_splits)
  with o obtain name out en md pt p where
    f: "read_bytes (fs_mem s) path (unat len) = Some name" "pbfs_find_entry e (gmnt s) name (pbfs s) = Some (out, en, md, pt, p)"
    by (auto simp: fs_open_def bind_eq_Some_conv)
  let ?s = "s\<lparr>pbfs := p\<rparr>"
  show ?thesis
  proof (cases "out = PBFS_RES_SUCCESS e")
    case True
    with o len f obtain fp s1 where a: "fs_alloc e sizeof_aos_file ?s = Some (fp, s1)"
      by (auto simp: fs_open_def bind_eq_Some_conv)
    note fr = fs_alloc_frame [OF a]
    show ?thesis
    proof (cases "fp = NULL")
      case False
      with True o len f a obtain hp s2 where b: "fs_alloc e (sizeof_handler e) s1 = Some (hp, s2)"
        by (auto simp: fs_open_def bind_eq_Some_conv)
      note fr = fr fs_alloc_frame [OF b]
      show ?thesis
      proof (cases "hp = NULL")
        case True
        with \<open>out = _\<close> False o len f a b show ?thesis
          using fr by (auto simp: fs_open_def bind_eq_Some_conv dest!: fs_free_frame)
      next
        case hp: False
        with \<open>out = _\<close> False o len f a b have "r = fp" "fill_file e fp hp en md pt name s2 = Some s'"
          by (auto simp: fs_open_def bind_eq_Some_conv)
        then show ?thesis using fr by auto
      qed
    qed (use True o len f a fr in \<open>auto simp: fs_open_def\<close>)
  qed (use o len f in \<open>auto simp: fs_open_def\<close>)
qed simp

lemma fs_open_locks: "locks_free s \<Longrightarrow> fs_open e path s = Some (r, s') \<Longrightarrow> locks_free s'"
  using fs_open_cases [of e path s r s'] locks_free_stores [of s] fill_file_locks by metis

lemma clear_handle_locks:
  "clear_handle hp s = Some s' \<Longrightarrow> files s' = files s \<and>
    (\<forall>a h'. handlers s' a = Some h' \<longrightarrow> a = hp \<or> handlers s a = Some h')"
  by (auto simp: clear_handle_def lock_handle_def unlock_handle_def set_handler_def bind_eq_Some_conv
      split: if_splits dest!: fs_free_frame)

lemma fs_close_locks:
  assumes s: "locks_free s" and c: "fs_close e fp s = Some s'"
  shows "locks_free s'"
proof (cases "fp = NULL")
  case True
  then show ?thesis using s c by (simp add: fs_close_def)
next
  case False
  with c obtain s1 f where s1: "lock_file fp s = Some s1" and f: "files s1 fp = Some f"
    by (auto simp: fs_close_def bind_eq_Some_conv)
  show ?thesis
  proof (cases "closed f")
    case True
    then show ?thesis
      using c False s1 f locks_free_unlock_file [OF s s1 same_locks_refl] by (auto simp: fs_close_def)
  next
    case open_file: False
    with c False s1 f obtain s2 r s3 s4 g where
      s2: "unlock_file fp (set_file fp (f\<lparr>closed := True\<rparr>) s1) = Some s2"
      and s3: "flush_file e fp s2 = Some (r, s3)" and s4: "lock_file fp s3 = Some s4" and g: "files s4 fp = Some g"
      by (auto simp: fs_close_def bind_eq_Some_conv Let_def split: if_splits)
    have l3: "locks_free s3"
      using flush_file_locks [OF locks_free_unlock_file [OF s s1 same_locks_files [OF f] s2] s3] by simp
    then have h4: "files s4 = (files s3)(fp \<mapsto> g)" "handlers s4 = handlers s3"
      using s4 g by (auto simp: lock_file_def set_file_def bind_eq_Some_conv split: if_splits)
    from c False s1 f open_file s2 s3 s4 g obtain s5 s6 where
      s5: "(if f_handle g = NULL then Some s4
            else do { s \<leftarrow> clear_handle (f_handle g) s4; drop_handler e (f_handle g) s }) = Some s5"
      and s6: "unlock_file fp s5 = Some s6" "drop_file fp s6 = Some s'"
      by (auto simp: fs_close_def bind_eq_Some_conv Let_def split: if_splits)
    have h5: "files s5 = files s4" "\<And>a h. handlers s5 a = Some h \<Longrightarrow> handlers s4 a = Some h"
      using s5 by (auto simp: drop_handler_def bind_eq_Some_conv split: if_splits dest!: clear_handle_locks fs_free_frame) blast
    have "files s' = (files s3)(fp := None)" "handlers s' = handlers s5"
      using s6 h4 h5(1) by (auto simp: unlock_file_def drop_file_def set_file_def bind_eq_Some_conv dest!: fs_free_frame)
    moreover have "handlers s5 a = Some h \<Longrightarrow> handlers s3 a = Some h" for a h using h5(2) h4(2) by simp
    ultimately show ?thesis using l3 unfolding locks_free_def by (metis fun_upd_apply option.distinct(1))
  qed
qed

text \<open>The steps of the kernel on its files, each a call that returns.\<close>

inductive fs_step :: "('e, 'd, 'q, 'p) fs_env \<Rightarrow> ('e, 'd, 'q, 'p) fs \<Rightarrow> ('e, 'd, 'q, 'p) fs \<Rightarrow> bool" for e where
  fs_init: "fs_step e s (aos_fs_init e mnt s)"
| fs_open: "fs_open e path s = Some (fp, s') \<Longrightarrow> fs_step e s s'"
| fs_read: "read_file e fp n buf s = Some (r, s') \<Longrightarrow> fs_step e s s'"
| fs_write: "write_file e fp n buf s = Some (r, s') \<Longrightarrow> fs_step e s s'"
| fs_seek: "seek_file e fp k md s = Some (r, s') \<Longrightarrow> fs_step e s s'"
| fs_tell: "tell_file fp s = Some (k, s') \<Longrightarrow> fs_step e s s'"
| fs_flush: "flush_file e fp s = Some (r, s') \<Longrightarrow> fs_step e s s'"
| fs_close: "fs_close e fp s = Some s' \<Longrightarrow> fs_step e s s'"
| fs_sysfile: "fs_pbfs_sysfile_accessed e out md n usage si s = Some (r, sz, s') \<Longrightarrow> fs_step e s s'"

lemma sysfile_frame:
  "fs_pbfs_sysfile_accessed e out md n usage si s = Some (r, sz, s') \<Longrightarrow> files s' = files s \<and> handlers s' = handlers s"
  by (auto simp: fs_pbfs_sysfile_accessed_def bind_eq_Some_conv split: if_splits option.splits dest!: fs_alloc_frame)

lemma fs_step_locks: "fs_step e s s' \<Longrightarrow> locks_free s \<Longrightarrow> locks_free s'"
proof (induction rule: fs_step.induct)
  case (fs_init s mnt)
  then show ?case by (simp add: aos_fs_init_def locks_free_def)
next
  case (fs_sysfile out md n usage si s r sz s')
  then show ?case using sysfile_frame [OF fs_sysfile.hyps] by (simp add: locks_free_def)
qed (auto intro: fs_open_locks read_file_locks write_file_locks seek_file_locks tell_file_locks flush_file_locks fs_close_locks)

text \<open>C37: No call on the files leaves a lock held, on any of its exits: from a state where no lock of a file or
  of a handle is held, every sequence of calls leads to such a state.\<close>

theorem fs_calls_leave_no_lock:
  assumes "(fs_step e)\<^sup>*\<^sup>* s s'" "locks_free s"
  shows "locks_free s'"
  using assms by (induction rule: rtranclp_induct) (auto dest: fs_step_locks)

subsection \<open>Concrete cases\<close>

definition sample_fs_env :: "(unit, unit, unit, unit) fs_env" where
  "sample_fs_env = \<lparr>PBFS_MAX_PATH_LEN = 256, PBFS_RES_SUCCESS = 0, PBFS_PERM_READ = 1, zero_entry = (), zero_metadata = (),
     zero_permissions = (), sizeof_handler = 512, fresh_byte = (\<lambda>a. 0), mount_active = (\<lambda>a p. True), md_flags = (\<lambda>d. 1),
     pbfs_get_err_str = (\<lambda>r. ''error''), pbfs_find_entry = (\<lambda>m n p. Some (0, (), (), (), ())),
     pbfs_read_file_dmm = (\<lambda>m en n p. Some (0, [], 0, (), ())), pbfs_update_file_dmm = (\<lambda>m en bs p. Some (0, (), ()))\<rparr>"

text \<open>One open file whose chunk at \<open>data\<close> holds the bytes 97 to 100 if it is there.\<close>

definition sample_fs :: "pstate \<Rightarrow> u64 \<Rightarrow> u64 \<Rightarrow> (unit, unit, unit, unit) fs" where
  "sample_fs hs data n = \<lparr>fs_heap = hs, fs_mem = (\<lambda>a. Some (if a - 0x5000 < 4 then 97 + ucast (a - 0x5000) else 0)), fs_said = [],
     files = [0x100 \<mapsto> new_file 0x200],
     handlers = [0x200 \<mapsto> (new_handler () () () [] data)\<lparr>file_data_size := n, file_data_refresh_req := False, file_data_flush_required := True\<rparr>],
     gmnt = 1, pbfs = ()\<rparr>"

lemma fs_runs_like_bytes_witness:
  "\<forall>hs. \<exists>s'. file_calls_at sample_fs_env 0x100 0x9000 [Get 2, Put [1, 2], Get 1, Seek 0 FS_SEEK_MODE_SET, Get 4] (sample_fs hs 0x5000 4) =
     Some ([Got [97, 98], Done, Refused, Done, Got [97, 98, 1, 2]], s') \<and> holds 0x100 0x9000 s' ([97, 98, 1, 2], 4)"
proof
  fix hs
  have "holds 0x100 0x9000 (sample_fs hs 0x5000 4) ([97, 98, 99, 100], 0)"
    by (simp add: holds_def ready_def sample_fs_def new_file_def new_handler_def mapped_def)
  from fs_runs_like_bytes [OF this, of "[Get 2, Put [1, 2], Get 1, Seek 0 FS_SEEK_MODE_SET, Get 4]" sample_fs_env]
  show "\<exists>s'. file_calls_at sample_fs_env 0x100 0x9000 [Get 2, Put [1, 2], Get 1, Seek 0 FS_SEEK_MODE_SET, Get 4] (sample_fs hs 0x5000 4) =
     Some ([Got [97, 98], Done, Refused, Done, Got [97, 98, 1, 2]], s') \<and> holds 0x100 0x9000 s' ([97, 98, 1, 2], 4)"
    by simp
qed

lemma fs_no_two_reads_after_flush_witness:
  "\<forall>hs. \<exists>s1. flush_file sample_fs_env 0x100 (sample_fs hs 0 0) = Some (True, s1) \<and>
     \<not> (\<exists>s2 s3. read_file sample_fs_env 0x100 2 0x9000 s1 = Some (True, s2) \<and> read_file sample_fs_env 0x100 1 0x9000 s2 = Some (True, s3))"
proof
  fix hs
  have "\<exists>s1. flush_file sample_fs_env 0x100 (sample_fs hs 0 0) = Some (True, s1)"
    by (simp add: flush_file_def with_handle_def flush_run_def sample_fs_def new_file_def new_handler_def lock_file_def
        lock_handle_def set_file_def set_handler_def leave_both_def leave_file_def unlock_file_def unlock_handle_def sample_fs_env_def)
  then obtain s1 where s1: "flush_file sample_fs_env 0x100 (sample_fs hs 0 0) = Some (True, s1)" ..
  have "reads_at_most sample_fs_env" by (simp add: reads_at_most_def sample_fs_env_def)
  with fs_no_two_reads_after_flush [OF _ _ _ s1, of "new_file 0x200", where n = 2 and k = 1 and ?b1.0 = "0x9000" and ?b2.0 = "0x9000"] s1
  show "\<exists>s1. flush_file sample_fs_env 0x100 (sample_fs hs 0 0) = Some (True, s1) \<and>
     \<not> (\<exists>s2 s3. read_file sample_fs_env 0x100 2 0x9000 s1 = Some (True, s2) \<and> read_file sample_fs_env 0x100 1 0x9000 s2 = Some (True, s3))"
    by (auto simp: sample_fs_def new_file_def)
qed

lemma fs_calls_leave_no_lock_witness:
  "\<forall>hs. \<exists>s'. tell_file 0x100 (sample_fs hs 0x5000 4) = Some (0, s') \<and> locks_free s'"
proof
  fix hs
  have "\<exists>s'. tell_file 0x100 (sample_fs hs 0x5000 4) = Some (0, s')"
    by (simp add: tell_file_def sample_fs_def new_file_def lock_file_def set_file_def leave_file_def unlock_file_def)
  then obtain s' where s': "tell_file 0x100 (sample_fs hs 0x5000 4) = Some (0, s')" ..
  have "locks_free (sample_fs hs 0x5000 4)" by (simp add: locks_free_def sample_fs_def new_file_def new_handler_def)
  with fs_calls_leave_no_lock [OF r_into_rtranclp, OF fs_tell, OF s'] s'
  show "\<exists>s'. tell_file 0x100 (sample_fs hs 0x5000 4) = Some (0, s') \<and> locks_free s'" by blast
qed

end
