(* ===== verification/Acpi.thy ===== *)
theory Acpi
  imports Pager KBoot Descriptors
begin

text \<open>
  \<^verbatim>\<open>Kernel/drivers/core/acpi.c\<close> with the tables of \<^verbatim>\<open>acpi.h\<close>: finding the root pointer, reading the tables
  that list the processors, the configuration spaces and the timer, the delay by that timer, and the
  ways to reboot and to shut down.

  The tables are bytes in memory, read at the offsets of the packed records. The memory map of the boot
  information, and what is done before a shutdown (\<open>aos_pre_halt_system\<close> and \<open>smp_shutdown\<close>), are
  arguments. A panic, which halts, has no result.
\<close>

subsection \<open>State\<close>

definition EBDA_SEG_PTR :: u64 where "EBDA_SEG_PTR = 0x40E"
definition MADT_TYPE_LAPIC :: u8 where "MADT_TYPE_LAPIC = 0"

definition sizeof_rsdp_v2 :: u32 where "sizeof_rsdp_v2 = 36"
definition sizeof_sdt_header :: u64 where "sizeof_sdt_header = 36"
definition sizeof_madt :: u64 where "sizeof_madt = 44"
definition sizeof_mcfg :: u64 where "sizeof_mcfg = 44"
definition sizeof_mcfg_entry :: u64 where "sizeof_mcfg_entry = 16"

record acpi =
  ac_heap :: pstate
  ac_mem :: mem
  ac_said :: "message list"
  ac_trace :: trace
  mcfg_ptr :: u64
  madt_ptr :: u64
  fadt_ptr :: u64
  apic_ids :: "u8 list"
  apic_id_count :: u64
  pm_timer_port :: u32
  pm_timer_24bit :: bool
  acpi_lock :: bool

record acpi_env =
  ac_dev :: device
  ac_sysmap :: "uniboot_smmap option"
  pre_shutdown :: "acpi \<Rightarrow> acpi option"

definition ac_say :: "string \<Rightarrow> msg_arg list \<Rightarrow> acpi \<Rightarrow> acpi" where
  "ac_say fmt args s = s\<lparr>ac_said := (fmt, args) # ac_said s\<rparr>"

text \<open>A little-endian field of \<open>n\<close> bytes.\<close>

definition field :: "nat \<Rightarrow> u64 \<Rightarrow> mem \<Rightarrow> u64 option" where
  "field n a m = do { bs \<leftarrow> read_bytes m a n; Some (le bs) }"

definition ac_lock :: "acpi \<Rightarrow> acpi option" where
  "ac_lock s = (if acpi_lock s then None else Some (s\<lparr>acpi_lock := True\<rparr>))"

definition ac_unlock :: "acpi \<Rightarrow> acpi" where
  "ac_unlock s = s\<lparr>acpi_lock := False\<rparr>"

subsection \<open>What others ask for\<close>

definition acpi_get_mcfg :: "acpi \<Rightarrow> (u64 \<times> acpi) option" where
  "acpi_get_mcfg s = do { s \<leftarrow> ac_lock s; Some (mcfg_ptr s, ac_unlock s) }"

definition acpi_get_madt :: "acpi \<Rightarrow> (u64 \<times> acpi) option" where
  "acpi_get_madt s = do { s \<leftarrow> ac_lock s; Some (madt_ptr s, ac_unlock s) }"

text \<open>There is no test for a table that was not found.\<close>

definition acpi_get_lapic_base :: "acpi \<Rightarrow> (u64 \<times> acpi) option" where
  "acpi_get_lapic_base s = do {
     s \<leftarrow> ac_lock s;
     a \<leftarrow> field 4 (madt_ptr s + 36) (ac_mem s);
     Some (a, ac_unlock s)
   }"

fun copy_ids :: "nat list \<Rightarrow> u8 list \<Rightarrow> u64 \<Rightarrow> mem \<Rightarrow> mem option" where
  "copy_ids [] ids out m = Some m"
| "copy_ids (i # is) ids out m =
     (if i \<ge> length ids then None
      else do { m \<leftarrow> write_byte (out + of_nat i) (ids ! i) m; copy_ids is ids out m })"

definition acpi_get_apic_info :: "u64 \<Rightarrow> u64 \<Rightarrow> acpi \<Rightarrow> acpi option" where
  "acpi_get_apic_info ids_out count_out s = do {
     s \<leftarrow> ac_lock s;
     m \<leftarrow> copy_ids [0..<unat (apic_id_count s)] (apic_ids s) ids_out (ac_mem s);
     m \<leftarrow> write_bytes count_out (qword_bytes (apic_id_count s)) m;
     Some (ac_unlock (s\<lparr>ac_mem := m\<rparr>))
   }"

subsection \<open>The timer\<close>

definition acpi_timer_read :: "acpi_env \<Rightarrow> acpi \<Rightarrow> u32 \<times> acpi" where
  "acpi_timer_read e s =
     (if pm_timer_port s = 0 then (0, s)
      else let (v, t) = asm_inl (ac_dev e) (ucast (pm_timer_port s)) (ac_trace s) in (v, s\<lparr>ac_trace := t\<rparr>))"

definition acpi_read_timer :: "acpi_env \<Rightarrow> acpi \<Rightarrow> (u32 \<times> acpi) option" where
  "acpi_read_timer e s = do {
     s \<leftarrow> ac_lock s;
     let (v, s) = acpi_timer_read e s;
     Some (v, ac_unlock s)
   }"

text \<open>
  The ticks between two readings. The sum for a timer of 24 bits has 32 bits, the one for a timer of 32
  bits has 64.
\<close>

definition ticks_between :: "bool \<Rightarrow> u32 \<Rightarrow> u32 \<Rightarrow> u64" where
  "ticks_between is24 last_tick current =
     (if current < last_tick then
        if is24 then ucast (current + 0x1000000 - last_tick)
        else ucast current + 0x100000000 - ucast last_tick
      else ucast (current - last_tick))"

partial_function (option) mdelay_loop :: "acpi_env \<Rightarrow> u64 \<Rightarrow> u64 \<Rightarrow> u32 \<Rightarrow> acpi \<Rightarrow> acpi option" where
  "mdelay_loop e ticks_needed elapsed last_tick s =
     (if elapsed < ticks_needed then
        (let (current, s) = acpi_timer_read e s
         in mdelay_loop e ticks_needed (elapsed + ticks_between (pm_timer_24bit s) last_tick current) current s)
      else Some s)"

definition acpi_mdelay :: "acpi_env \<Rightarrow> u64 \<Rightarrow> acpi \<Rightarrow> acpi option" where
  "acpi_mdelay e ms s = do {
     s \<leftarrow> ac_lock s;
     let (start, s) = acpi_timer_read e s;
     s \<leftarrow> mdelay_loop e (ms * 3580) 0 start s;
     Some (ac_unlock s)
   }"

subsection \<open>The root pointer\<close>

fun checksum_bytes :: "nat \<Rightarrow> u64 \<Rightarrow> u8 \<Rightarrow> mem \<Rightarrow> u8 option" where
  "checksum_bytes 0 p acc m = Some acc"
| "checksum_bytes (Suc n) p acc m = do { b \<leftarrow> m p; checksum_bytes n (p + 1) (acc + b) m }"

definition acpi_checksum :: "u64 \<Rightarrow> u32 \<Rightarrow> mem \<Rightarrow> u8 option" where
  "acpi_checksum p len m = checksum_bytes (unat len) p 0 m"

text \<open>\<open>memcmp\<close> with a constant text, which stops at the first difference, is 0.\<close>

fun same_bytes :: "u64 \<Rightarrow> u8 list \<Rightarrow> mem \<Rightarrow> bool option" where
  "same_bytes p [] m = Some True"
| "same_bytes p (c # cs) m = do { b \<leftarrow> m p; if b = c then same_bytes (p + 1) cs m else Some False }"

definition has_text :: "u64 \<Rightarrow> u8 list \<Rightarrow> mem \<Rightarrow> bool option" where
  "has_text p cs m = (if p = NULL then Some False else same_bytes p cs m)"

definition RSD_PTR :: "u8 list" where "RSD_PTR = [0x52, 0x53, 0x44, 0x20, 0x50, 0x54, 0x52, 0x20]"
definition MCFG :: "u8 list" where "MCFG = [0x4D, 0x43, 0x46, 0x47]"
definition APIC :: "u8 list" where "APIC = [0x41, 0x50, 0x49, 0x43]"
definition FACP :: "u8 list" where "FACP = [0x46, 0x41, 0x43, 0x50]"

text \<open>The test that all three searches make at an address.\<close>

definition rsdp_at :: "u64 \<Rightarrow> mem \<Rightarrow> bool option" where
  "rsdp_at a m = do {
     sig \<leftarrow> has_text a RSD_PTR m;
     if \<not> sig then Some False
     else do {
       c \<leftarrow> acpi_checksum a 20 m;
       if c \<noteq> 0 then Some False
       else do {
         revision \<leftarrow> m (a + 15);
         if revision \<ge> 2 then do { c \<leftarrow> acpi_checksum a sizeof_rsdp_v2 m; Some (c = 0) }
         else Some True
       }
     }
   }"

text \<open>The first such address from \<open>addr\<close> on, every 16 bytes below the limit, or the null pointer.\<close>

partial_function (option) rsdp_scan :: "u64 \<Rightarrow> u64 \<Rightarrow> mem \<Rightarrow> u64 option" where
  "rsdp_scan addr lim m =
     (if addr < lim then do {
        ok \<leftarrow> rsdp_at addr m;
        if ok then Some addr else rsdp_scan (addr + 16) lim m
      } else Some NULL)"

definition may_hold_rsdp :: "uniboot_smmap_type \<Rightarrow> bool" where
  "may_hold_rsdp ty \<longleftrightarrow> ty = UNIBOOT_SMMAP_TYPE_RESERVED \<or> ty = UNIBOOT_SMMAP_TYPE_ACPI_RECLAIM \<or>
     ty = UNIBOOT_SMMAP_TYPE_ACPI_NVS"

fun rsdp_in_map :: "nat list \<Rightarrow> uniboot_smmap_entry list \<Rightarrow> acpi \<Rightarrow> (u64 \<times> acpi) option" where
  "rsdp_in_map [] es s = Some (NULL, s)"
| "rsdp_in_map (i # is) es s =
     (if i \<ge> length es then None
      else if \<not> may_hold_rsdp (e_type (es ! i)) then rsdp_in_map is es s
      else do {
        let start = AOS_DIRECT_MAP_BASE + phys_start (es ! i);
        let fin = AOS_DIRECT_MAP_BASE + phys_start (es ! i) + e_size (es ! i);
        let s = ac_say ''[KFUNCS] Checking Entry: %llx-%llx'' [Num start, Num fin] s;
        r \<leftarrow> rsdp_scan start fin (ac_mem s);
        if r \<noteq> NULL then Some (r, s) else rsdp_in_map is es s
      })"

text \<open>
  The bound of the second search is not moved to the direct map as its start is. The sum of the
  segment's address and 1024 has 32 bits.
\<close>

definition rsdp_in_ebda :: "mem \<Rightarrow> u64 option" where
  "rsdp_in_ebda m = do {
     seg \<leftarrow> field 2 (AOS_DIRECT_MAP_BASE + EBDA_SEG_PTR) m;
     let ebda = push_bit 4 (ucast seg :: u32);
     rsdp_scan (AOS_DIRECT_MAP_BASE + ucast ebda) (ucast (ebda + 1024)) m
   }"

definition rsdp_in_bios :: "mem \<Rightarrow> u64 option" where
  "rsdp_in_bios m = rsdp_scan (AOS_DIRECT_MAP_BASE + 0xE0000) (AOS_DIRECT_MAP_BASE + 0x100000) m"

definition acpi_find_rsdp :: "acpi_env \<Rightarrow> acpi \<Rightarrow> (u64 \<times> acpi) option" where
  "acpi_find_rsdp e s = do {
     let s = ac_say ''[ACPI] Searching for RSDP using UniBoot System Memory Map...'' [] s;
     (r, s) \<leftarrow> (case ac_sysmap e of None \<Rightarrow> Some (NULL, s)
       | Some mp \<Rightarrow> if m_count mp = 0 then Some (NULL, s)
           else (case m_entries mp of None \<Rightarrow> None | Some es \<Rightarrow> rsdp_in_map [0..<unat (m_count mp)] es s));
     if r \<noteq> NULL then Some (r, s)
     else do {
       let s = ac_say ''[ACPI] Failed to find RSDP within E820 Map, Trying manual!'' [] s;
       let s = ac_say ''[ACPI] Searching for RSDP using EBDA Segment...'' [] s;
       r \<leftarrow> rsdp_in_ebda (ac_mem s);
       if r \<noteq> NULL then Some (r, s)
       else do {
         let s = ac_say ''[ACPI] Searching for RSDP in BIOS area...'' [] s;
         r \<leftarrow> rsdp_in_bios (ac_mem s);
         Some (r, s)
       }
     }
   }"

subsection \<open>The processors\<close>

text \<open>The store into the array of 256 identities has no test; one past its end is no normal result.\<close>

definition add_apic_id :: "u8 \<Rightarrow> acpi \<Rightarrow> acpi option" where
  "add_apic_id i s =
     (if unat (apic_id_count s) < length (apic_ids s)
      then Some (s\<lparr>apic_ids := (apic_ids s)[unat (apic_id_count s) := i], apic_id_count := apic_id_count s + 1\<rparr>)
      else None)"

text \<open>An entry of length 0 is read again and again.\<close>

partial_function (option) madt_loop :: "u64 \<Rightarrow> u64 \<Rightarrow> acpi \<Rightarrow> acpi option" where
  "madt_loop ptr fin s =
     (if ptr < fin then do {
        ty \<leftarrow> ac_mem s ptr;
        len \<leftarrow> ac_mem s (ptr + 1);
        s \<leftarrow> (if ty = MADT_TYPE_LAPIC then do {
               flags \<leftarrow> field 4 (ptr + 4) (ac_mem s);
               if flags AND 1 \<noteq> 0 then do {
                 i \<leftarrow> ac_mem s (ptr + 3);
                 add_apic_id i (ac_say ''[ACPI : SMP] Core Found: APIC ID %d'' [Num (ucast i)] s)
               } else Some s
             } else Some s);
        madt_loop (ptr + ucast len) fin s
      } else Some s)"

definition PAGE_PWT :: u64 where "PAGE_PWT = 8"

definition device_flags :: u64 where
  "device_flags = PAGE_PRESENT OR PAGE_RW OR PAGE_PCD OR PAGE_PWT"

definition acpi_parse_madt :: "u64 \<Rightarrow> acpi \<Rightarrow> acpi option" where
  "acpi_parse_madt madt s = do {
     lapic_addr \<leftarrow> field 4 (madt + 36) (ac_mem s);
     (_, h) \<leftarrow> pager_map (AOS_DIRECT_MAP_BASE + lapic_addr) lapic_addr device_flags (ac_heap s);
     let s = s\<lparr>ac_heap := h\<rparr>;
     len \<leftarrow> field 4 (madt + 4) (ac_mem s);
     s \<leftarrow> madt_loop (madt + sizeof_madt) (madt + len) s;
     Some (ac_say ''[ACPI : SMP] Total APIC IDs: %d'' [Num (apic_id_count s)] s)
   }"

subsection \<open>The timer's and the configuration spaces' tables\<close>

definition acpi_timer_init :: "u64 \<Rightarrow> acpi \<Rightarrow> acpi option" where
  "acpi_timer_init fadt s = do {
     port \<leftarrow> field 4 (fadt + 76) (ac_mem s);
     flags \<leftarrow> field 4 (fadt + 112) (ac_mem s);
     let s = s\<lparr>pm_timer_port := ucast port\<rparr>;
     let s = (if flags AND push_bit 8 1 \<noteq> 0 then s\<lparr>pm_timer_24bit := False\<rparr> else s);
     Some (ac_say ''[ACPI] PM Timer initialized on port 0x%x'' [Num port] s)
   }"

definition acpi_parse_fadt :: "u64 \<Rightarrow> acpi \<Rightarrow> acpi option" where
  "acpi_parse_fadt fadt s = acpi_timer_init fadt s"

text \<open>The size of a space is computed in \<open>int\<close>, and negative when the buses are out of order.\<close>

definition space_size :: "u8 \<Rightarrow> u8 \<Rightarrow> u64" where
  "space_size start_bus end_bus = word_of_int ((uint end_bus - uint start_bus + 1) * 1024 * 1024)"

fun mcfg_loop :: "nat \<Rightarrow> u64 \<Rightarrow> u64 \<Rightarrow> acpi \<Rightarrow> acpi option" where
  "mcfg_loop 0 i mcfg s = Some s"
| "mcfg_loop (Suc n) i mcfg s = do {
     let entry = mcfg + sizeof_mcfg + i * sizeof_mcfg_entry;
     base_addr \<leftarrow> field 8 entry (ac_mem s);
     seg \<leftarrow> field 2 (entry + 8) (ac_mem s);
     start_bus \<leftarrow> ac_mem s (entry + 10);
     end_bus \<leftarrow> ac_mem s (entry + 11);
     let s = ac_say ''[MCFG] ECAM %d: Base %p Seg %u Buses %u-%u''
       [Num i, Num base_addr, Num seg, Num (ucast start_bus), Num (ucast end_bus)] s;
     h \<leftarrow> pager_map_range pager_map (AOS_DIRECT_MAP_BASE + base_addr) base_addr (space_size start_bus end_bus)
       device_flags (ac_heap s);
     mcfg_loop n (i + 1) mcfg (s\<lparr>ac_heap := h\<rparr>)
   }"

definition acpi_parse_mcfg :: "u64 \<Rightarrow> acpi \<Rightarrow> acpi option" where
  "acpi_parse_mcfg mcfg s = do {
     len \<leftarrow> field 4 (mcfg + 4) (ac_mem s);
     mcfg_loop (unat ((len - sizeof_mcfg) div sizeof_mcfg_entry)) 0 mcfg s
   }"

subsection \<open>The table of tables\<close>

text \<open>What both loops do with a table.\<close>

definition acpi_table :: "u64 \<Rightarrow> u64 \<Rightarrow> acpi \<Rightarrow> acpi option" where
  "acpi_table i hdr s = do {
     sig \<leftarrow> read_bytes (ac_mem s) hdr 4;
     let s = ac_say ''[ACPI] Table %d has signature %c%c%c%c'' (Num i # map (\<lambda>b. Num (ucast b)) sig) s;
     is_mcfg \<leftarrow> has_text hdr MCFG (ac_mem s);
     if is_mcfg then acpi_parse_mcfg hdr (ac_say ''[ACPI] Found MCFG at %p'' [Num hdr] (s\<lparr>mcfg_ptr := hdr\<rparr>))
     else do {
       is_apic \<leftarrow> has_text hdr APIC (ac_mem s);
       if is_apic then acpi_parse_madt hdr (ac_say ''[ACPI] Found MADT at %p Parsing...'' [Num hdr] (s\<lparr>madt_ptr := hdr\<rparr>))
       else do {
         is_facp \<leftarrow> has_text hdr FACP (ac_mem s);
         if is_facp then acpi_parse_fadt hdr (ac_say ''[ACPI] Found FADT at %p Parsing...'' [Num hdr] (s\<lparr>fadt_ptr := hdr\<rparr>))
         else Some s
       }
     }
   }"

text \<open>The entries are addresses of \<open>width\<close> bytes, 4 or 8.\<close>

fun tables_loop :: "nat \<Rightarrow> nat \<Rightarrow> u64 \<Rightarrow> u64 \<Rightarrow> acpi \<Rightarrow> acpi option" where
  "tables_loop width 0 i sdt s = Some s"
| "tables_loop width (Suc n) i sdt s = do {
     a \<leftarrow> field width (sdt + sizeof_sdt_header + i * of_nat width) (ac_mem s);
     s \<leftarrow> acpi_table i (a + AOS_DIRECT_MAP_BASE) s;
     tables_loop width n (i + 1) sdt s
   }"

text \<open>The number of entries is an \<open>int\<close>: the low 32 bits of the quotient, with sign.\<close>

definition entry_count :: "u64 \<Rightarrow> nat \<Rightarrow> int" where
  "entry_count len width = sint (ucast ((len - sizeof_sdt_header) div of_nat width) :: u32)"

definition acpi_parse_sdt :: "nat \<Rightarrow> string \<Rightarrow> string \<Rightarrow> u64 \<Rightarrow> acpi \<Rightarrow> acpi option" where
  "acpi_parse_sdt width bad found sdt s = do {
     len \<leftarrow> field 4 (sdt + 4) (ac_mem s);
     c \<leftarrow> acpi_checksum sdt (ucast len) (ac_mem s);
     if c \<noteq> 0 then Some (ac_say bad [] s)
     else do {
       let entries = entry_count len width;
       let s = ac_say found [Num (word_of_int entries)] s;
       tables_loop width (nat entries) 0 sdt s
     }
   }"

definition acpi_parse_rsdt :: "u64 \<Rightarrow> acpi \<Rightarrow> acpi option" where
  "acpi_parse_rsdt rsdp s = do {
     revision \<leftarrow> ac_mem s (rsdp + 15);
     let s = ac_say ''[ACPI] RSDP Revision - %d'' [Num (ucast revision)] s;
     if revision \<ge> 2 then do {
       a \<leftarrow> field 8 (rsdp + 24) (ac_mem s);
       acpi_parse_sdt 8 ''[ACPI] Invalid XSDT checksum!'' ''[ACPI] Found %d XSDT tables'' (a + AOS_DIRECT_MAP_BASE) s
     } else do {
       a \<leftarrow> field 4 (rsdp + 16) (ac_mem s);
       acpi_parse_sdt 4 ''[ACPI] Invalid RSDT checksum!'' ''[ACPI] Found %d RSDT tables'' (a + AOS_DIRECT_MAP_BASE) s
     }
   }"

definition acpi_init :: "acpi_env \<Rightarrow> acpi \<Rightarrow> acpi option" where
  "acpi_init e s = do {
     s \<leftarrow> ac_lock s;
     (rsdp, s) \<leftarrow> acpi_find_rsdp e (ac_say ''[ACPI] Initializing...'' [] s);
     if rsdp = NULL then None
     else do {
       s \<leftarrow> acpi_parse_rsdt rsdp (ac_say ''[ACPI] RSDP Descriptor found at %p'' [Num rsdp] s);
       Some (ac_unlock s)
     }
   }"

subsection \<open>Reboot and shutdown\<close>

text \<open>
  These functions do not return. Their result here is the state in which the machine is when the
  triple fault resets it, or when it halts.
\<close>

fun wait_8042 :: "nat \<Rightarrow> acpi_env \<Rightarrow> acpi \<Rightarrow> acpi" where
  "wait_8042 0 e s = s"
| "wait_8042 (Suc n) e s =
     (let (v, t) = asm_inb (ac_dev e) 0x64 (ac_trace s); s = s\<lparr>ac_trace := t\<rparr>
      in if v AND 0x02 = 0 then s else wait_8042 n e s)"

definition ac_outb :: "u16 \<Rightarrow> u8 \<Rightarrow> acpi \<Rightarrow> acpi" where
  "ac_outb port v s = s\<lparr>ac_trace := asm_outb port v (ac_trace s)\<rparr>"

definition acpi_8042_reboot :: "acpi_env \<Rightarrow> acpi \<Rightarrow> acpi" where
  "acpi_8042_reboot e s = ac_outb 0x64 0xFE (wait_8042 100000 e s)"

definition acpi_io_reboot :: "acpi \<Rightarrow> acpi option" where
  "acpi_io_reboot s =
     (if fadt_ptr s = NULL then Some s
      else do {
        a \<leftarrow> field 8 (fadt_ptr s + 120) (ac_mem s);
        v \<leftarrow> ac_mem s (fadt_ptr s + 128);
        Some (ac_outb (ucast a) v s)
      })"

definition acpi_pci_reboot :: "acpi_env \<Rightarrow> acpi \<Rightarrow> acpi option" where
  "acpi_pci_reboot e s = do {
     let s = ac_outb 0xCF9 0x02 s;
     n \<leftarrow> kdelay 1 (\<lambda>k. tsc (ac_dev e) (replicate k Rdtsc @ ac_trace s)) (timer (ac_dev e));
     Some (ac_outb 0xCF9 0x06 (s\<lparr>ac_trace := replicate n Rdtsc @ ac_trace s\<rparr>))
   }"

definition acpi_reboot :: "acpi_env \<Rightarrow> acpi \<Rightarrow> acpi option" where
  "acpi_reboot e s = do {
     s \<leftarrow> pre_shutdown e s;
     if fadt_ptr s = NULL then acpi_pci_reboot e (acpi_8042_reboot e s)
     else do {
       (virt, h) \<leftarrow> avmf_alloc_virt pager_map 1 MALLOC_TYPE_KERNEL (ac_heap s);
       let s = s\<lparr>ac_heap := h\<rparr>;
       if virt = 0 then acpi_pci_reboot e (acpi_8042_reboot e s)
       else do {
         space \<leftarrow> ac_mem s (fadt_ptr s + 116);
         s \<leftarrow> (if space = 0 then do {
                 a \<leftarrow> field 8 (fadt_ptr s + 120) (ac_mem s);
                 v \<leftarrow> ac_mem s (fadt_ptr s + 128);
                 m \<leftarrow> write_byte (AOS_DIRECT_MAP_BASE + a) v (ac_mem s);
                 Some (s\<lparr>ac_mem := m\<rparr>)
               } else acpi_io_reboot s);
         acpi_pci_reboot e (acpi_8042_reboot e s)
       }
     }
   }"

definition acpi_shutdown :: "acpi_env \<Rightarrow> acpi \<Rightarrow> acpi option" where
  "acpi_shutdown e s = do {
     s \<leftarrow> pre_shutdown e s;
     Some (ac_outb 0xA1 0xFF (ac_outb 0x21 0xFF s))
   }"

end
