(* ===== verification/AcpiSpec.thy ===== *)
theory AcpiSpec
  imports Acpi
begin

text \<open>
  What \<open>Acpi\<close> does: the delay by a timer that counts, the processors that a well-formed table lists, and
  what the searches for the root pointer look at.
\<close>

subsection \<open>The delay\<close>

lemma mod_step:
  fixes a b w :: nat
  assumes "a \<le> b" "b < a + w" "0 < w"
  shows "b - a = (if b mod w < a mod w then b mod w + w - a mod w else b mod w - a mod w)"
proof -
  have "b mod w = (a mod w + (b - a)) mod w" using assms(1) by (subst mod_add_left_eq) simp
  moreover have "a mod w < w" using assms(3) by simp
  ultimately have "b mod w = (if a mod w + (b - a) < w then a mod w + (b - a) else a mod w + (b - a) - w)"
    using assms(2) by (cases "a mod w + (b - a) < w") (simp_all add: le_mod_geq)
  then show ?thesis using assms \<open>a mod w < w\<close> by (auto split: if_splits)
qed

lemma u32_of_nat: "n < 2 ^ 32 \<Longrightarrow> unat (of_nat n :: u32) = n"
  by (simp add: unat_of_nat take_bit_nat_eq_self)

lemma unat_round:
  fixes x y z :: "'a::len word"
  assumes "unat x = nx" "unat y = ny" "unat z = w" "nx \<le> ny + w" "ny + w < 2 ^ LENGTH('a)"
  shows "unat (y + z - x) = ny + w - nx"
proof -
  have "unat (y + z) = ny + w" using assms by (simp add: unat_word_ariths)
  then show ?thesis using assms by (simp add: unat_sub word_le_nat_alt)
qed

definition timer_range :: "bool \<Rightarrow> nat" where
  "timer_range is24 = (if is24 then 2 ^ 24 else 2 ^ 32)"

lemma ticks_between_counts:
  assumes "a \<le> b" "b < a + timer_range is24"
  shows "unat (ticks_between is24 (of_nat (a mod timer_range is24)) (of_nat (b mod timer_range is24))) = b - a"
proof -
  let ?w = "timer_range is24" and ?x = "a mod timer_range is24" and ?y = "b mod timer_range is24"
  have w: "0 < ?w" "?w \<le> 2 ^ 32" by (simp_all add: timer_range_def)
  then have xy: "?x < ?w" "?y < ?w" by simp_all
  then have u: "unat (of_nat ?x :: u32) = ?x" "unat (of_nat ?y :: u32) = ?y"
    using order.strict_trans2 [OF xy(1) w(2)] order.strict_trans2 [OF xy(2) w(2)] by (simp_all only: u32_of_nat)
  show ?thesis
  proof (cases "?y < ?x")
    case True
    then have d: "b - a = ?y + ?w - ?x" using mod_step [OF assms w(1)] by simp
    have lt: "(of_nat ?y :: u32) < of_nat ?x" using True u by (simp add: word_less_nat_alt)
    show ?thesis
    proof (cases is24)
      case True
      have "unat (of_nat ?y + 0x1000000 - of_nat ?x :: u32) = ?y + ?w - ?x"
        using u xy True by (intro unat_round) (simp_all add: timer_range_def)
      then show ?thesis using d lt True by (simp add: ticks_between_def unat_ucast_u32)
    next
      case False
      have "unat (ucast (of_nat ?y :: u32) + 0x100000000 - ucast (of_nat ?x :: u32) :: u64) = ?y + ?w - ?x"
        using u xy False by (intro unat_round) (simp_all add: timer_range_def unat_ucast_u32)
      then show ?thesis using d lt False by (simp add: ticks_between_def)
    qed
  next
    case False
    then have d: "b - a = ?y - ?x" using mod_step [OF assms w(1)] by simp
    have le: "(of_nat ?x :: u32) \<le> of_nat ?y" using False u by (simp add: word_le_nat_alt)
    then have "unat (of_nat ?y - of_nat ?x :: u32) = ?y - ?x" using u by (simp add: unat_sub)
    moreover have "\<not> (of_nat ?y :: u32) < of_nat ?x" using le by simp
    ultimately show ?thesis using d by (simp only: ticks_between_def if_False unat_ucast_u32)
  qed
qed

text \<open>
  A timer that counts: the \<open>k\<close>-th reading from \<open>t\<close> on is the count \<open>T k\<close>, less its upper bits, and no
  two readings are a whole round apart.
\<close>

definition counts :: "device \<Rightarrow> u16 \<Rightarrow> bool \<Rightarrow> trace \<Rightarrow> (nat \<Rightarrow> nat) \<Rightarrow> bool" where
  "counts d port is24 t T \<longleftrightarrow> (\<forall>k. in32 d (replicate k (Inl port) @ t) port = of_nat (T k mod timer_range is24) \<and>
     T k \<le> T (Suc k) \<and> T (Suc k) < T k + timer_range is24)"

lemma countsD:
  assumes "counts d port is24 t T"
  shows "in32 d (replicate k (Inl port) @ t) port = of_nat (T k mod timer_range is24)"
    and "T k \<le> T (Suc k)" "T (Suc k) < T k + timer_range is24" and "T 0 \<le> T k"
proof -
  show c: "in32 d (replicate k (Inl port) @ t) port = of_nat (T k mod timer_range is24)"
    "T k \<le> T (Suc k)" "T (Suc k) < T k + timer_range is24" for k
    using assms by (simp_all add: counts_def)
  show "T 0 \<le> T k" by (induction k) (use c(2) order_trans in blast)+
qed

lemma mdelay_loop_waits:
  assumes c: "counts (ac_dev e) port is24 t T" and p: "ucast p = port" "p \<noteq> 0"
    and s: "pm_timer_port s = p" "pm_timer_24bit s = is24"
    and big: "unat needed + 2 ^ 32 \<le> 2 ^ 64"
    and n: "T 0 + unat needed \<le> T n" "\<And>k. k < n \<Longrightarrow> T k < T 0 + unat needed"
  shows "k \<le> n \<Longrightarrow> unat el = T k - T 0 \<Longrightarrow>
    mdelay_loop e needed el (of_nat (T k mod timer_range is24)) (s\<lparr>ac_trace := replicate (Suc k) (Inl port) @ t\<rparr>) =
      Some (s\<lparr>ac_trace := replicate (Suc n) (Inl port) @ t\<rparr>)"
proof (induction "n - k" arbitrary: k el)
  case 0
  then have "k = n" by simp
  moreover from this have "\<not> el < needed" using 0 n(1) by (simp add: word_less_nat_alt)
  ultimately show ?case by (subst mdelay_loop.simps) simp
next
  case (Suc j)
  note d = countsD [OF c]
  have k: "k < n" using Suc.hyps(2) by simp
  then have el: "el < needed" using Suc.prems n(2) [of k] d(4) [of k] by (simp add: word_less_nat_alt)
  let ?cur = "of_nat (T (Suc k) mod timer_range is24) :: u32"
  let ?tb = "ticks_between is24 (of_nat (T k mod timer_range is24)) ?cur"
  have tb: "unat ?tb = T (Suc k) - T k" using d(2,3) [of k] by (rule ticks_between_counts)
  have "timer_range is24 \<le> 4294967296" by (simp add: timer_range_def)
  then have "unat el + unat ?tb < 18446744073709551616"
    using el big tb d(2,3) [of k] by (simp add: word_less_nat_alt)
  then have el': "unat (el + ?tb) = T (Suc k) - T 0"
    using tb Suc.prems(2) d(2) [of k] d(4) [of k] by (simp add: unat_plus_u64)
  have rd: "acpi_timer_read e (s\<lparr>ac_trace := replicate (Suc k) (Inl port) @ t\<rparr>) =
      (?cur, s\<lparr>ac_trace := replicate (Suc (Suc k)) (Inl port) @ t\<rparr>)"
    using p s d(1) [of "Suc k"] by (simp add: acpi_timer_read_def asm_inl_def)
  have "mdelay_loop e needed (el + ?tb) ?cur (s\<lparr>ac_trace := replicate (Suc (Suc k)) (Inl port) @ t\<rparr>) =
      Some (s\<lparr>ac_trace := replicate (Suc n) (Inl port) @ t\<rparr>)"
    using Suc.hyps(2) k el' by (intro Suc.hyps(1)) simp_all
  moreover have "pm_timer_24bit (s\<lparr>ac_trace := tr\<rparr>) = is24" for tr using s by simp
  ultimately show ?case using el by (subst mdelay_loop.simps) (simp only: rd prod.case if_True Let_def)
qed

text \<open>C38: With a timer that counts, of 24 or of 32 bits and through any number of its overflows, the delay
  returns, with the first reading that is 3580 ticks for each millisecond past the one it starts with,
  and it has done nothing but read the timer.\<close>

theorem acpi_mdelay_waits:
  assumes "counts (ac_dev e) (ucast (pm_timer_port s)) (pm_timer_24bit s) (ac_trace s) T" "pm_timer_port s \<noteq> 0"
    "\<not> acpi_lock s" "unat (ms * 3580) + 2 ^ 32 \<le> 2 ^ 64"
    and "T 0 + unat (ms * 3580) \<le> T n" "\<And>k. k < n \<Longrightarrow> T k < T 0 + unat (ms * 3580)"
  shows "acpi_mdelay e ms s = Some (s\<lparr>ac_trace := replicate (Suc n) (Inl (ucast (pm_timer_port s))) @ ac_trace s\<rparr>)"
proof -
  let ?port = "ucast (pm_timer_port s) :: u16" and ?s = "s\<lparr>acpi_lock := True\<rparr>"
  have rd: "acpi_timer_read e ?s = (of_nat (T 0 mod timer_range (pm_timer_24bit s)), ?s\<lparr>ac_trace := Inl ?port # ac_trace s\<rparr>)"
    using assms(2) countsD(1) [OF assms(1), of 0] by (simp add: acpi_timer_read_def asm_inl_def)
  have "mdelay_loop e (ms * 3580) 0 (of_nat (T 0 mod timer_range (pm_timer_24bit s))) (?s\<lparr>ac_trace := Inl ?port # ac_trace s\<rparr>) =
      Some (?s\<lparr>ac_trace := replicate (Suc n) (Inl ?port) @ ac_trace s\<rparr>)"
    using mdelay_loop_waits [OF assms(1) refl assms(2), where s = ?s and k = 0 and el = 0, OF _ _ assms(4-6)] by simp
  moreover have "s\<lparr>acpi_lock := False, ac_trace := tr\<rparr> = s\<lparr>ac_trace := tr\<rparr>" for tr using assms(3) by simp
  ultimately show ?thesis using assms(3) rd by (simp add: acpi_mdelay_def ac_lock_def ac_unlock_def)
qed

text \<open>Without a timer the loop goes round forever.\<close>

lemma mdelay_loop_no_timer:
  assumes "pm_timer_port s = 0" "el < needed" "last_tick = 0"
  shows "mdelay_loop e needed el last_tick s = None"
proof (rule ccontr)
  assume "mdelay_loop e needed el last_tick s \<noteq> None"
  then obtain s' where r: "mdelay_loop e needed el last_tick s = Some s'" by blast
  have "pm_timer_port s = 0 \<longrightarrow> last_tick = 0 \<longrightarrow> \<not> el < needed"
  proof (rule mdelay_loop.raw_induct [where P = "\<lambda>e n k l u r. pm_timer_port u = 0 \<longrightarrow> l = 0 \<longrightarrow> \<not> k < n", OF _ r])
    fix loop :: "acpi_env \<Rightarrow> u64 \<Rightarrow> u64 \<Rightarrow> u32 \<Rightarrow> acpi \<Rightarrow> acpi option" and e n k l u r
    assume IH: "\<And>e n k l u r. loop e n k l u = Some r \<Longrightarrow> pm_timer_port u = 0 \<longrightarrow> l = 0 \<longrightarrow> \<not> k < n"
      and b: "(if k < n then let (current, s) = acpi_timer_read e u
        in loop e n (k + ticks_between (pm_timer_24bit s) l current) current s else Some u) = Some r"
    show "pm_timer_port u = 0 \<longrightarrow> l = 0 \<longrightarrow> \<not> k < n"
    proof clarify
      assume u: "pm_timer_port u = 0" "l = 0" "k < n"
      then have "loop e n k 0 u = Some r" using b by (simp add: acpi_timer_read_def ticks_between_def)
      from IH [OF this] u show False by simp
    qed
  qed
  then show False using assms by blast
qed

subsection \<open>The list of processors\<close>

text \<open>The entries of the table as the firmware writes them.\<close>

datatype madt_entry = Lapic u8 u8 u32 | Other_entry u8 "u8 list"

fun entry_bytes :: "madt_entry \<Rightarrow> u8 list" where
  "entry_bytes (Lapic proc_id i flags) = [0, 8, proc_id, i] @ le32 flags"
| "entry_bytes (Other_entry ty bs) = [ty, of_nat (length bs + 2)] @ bs"

fun entry_fits :: "madt_entry \<Rightarrow> bool" where
  "entry_fits (Lapic proc_id i flags) = True"
| "entry_fits (Other_entry ty bs) = (ty \<noteq> MADT_TYPE_LAPIC \<and> length bs + 2 < 256)"

fun enabled_id :: "madt_entry \<Rightarrow> u8 list" where
  "enabled_id (Lapic proc_id i flags) = (if bit flags 0 then [i] else [])"
| "enabled_id (Other_entry ty bs) = []"

lemma le_le32: "le (le32 f) = ucast f"
proof (rule bit_word_eqI)
  fix n assume "n < LENGTH(64)"
  then show "bit (le (le32 f)) n = bit (ucast f :: u64) n"
    using bit_imp_le_length [of f n] by (cases "24 \<le> n"; cases "16 \<le> n"; cases "8 \<le> n") (auto simp: le32_def bit_simps)
qed

lemma field_read: "read_bytes m a n = Some bs \<Longrightarrow> field n a m = Some (le bs)"
  by (simp add: field_def)

lemma odd_field: "(ucast (f :: u32) AND 1 :: u64) \<noteq> 0 \<longleftrightarrow> bit f 0"
  by (simp add: and_one_eq mod_2_eq_odd bit_unsigned_iff flip: bit_0)

lemma madt_loop_step:
  assumes "p < fin" "ac_mem s p = Some ty" "ac_mem s (p + 1) = Some len"
  shows "ty \<noteq> MADT_TYPE_LAPIC \<Longrightarrow> madt_loop p fin s = madt_loop (p + ucast len) fin s"
    and "ty = MADT_TYPE_LAPIC \<Longrightarrow> field 4 (p + 4) (ac_mem s) = Some (ucast (fl :: u32)) \<Longrightarrow> \<not> bit fl 0 \<Longrightarrow>
      madt_loop p fin s = madt_loop (p + ucast len) fin s"
    and "ty = MADT_TYPE_LAPIC \<Longrightarrow> field 4 (p + 4) (ac_mem s) = Some (ucast (fl :: u32)) \<Longrightarrow> bit fl 0 \<Longrightarrow>
      ac_mem s (p + 3) = Some i \<Longrightarrow>
      add_apic_id i (ac_say ''[ACPI : SMP] Core Found: APIC ID %d'' [Num (ucast i)] s) = Some s' \<Longrightarrow>
      madt_loop p fin s = madt_loop (p + ucast len) fin s'"
  using assms odd_field [of fl] by (subst madt_loop.simps; simp)+

lemma unat_ucast_u8: "unat (ucast (w :: u8) :: u64) = unat w"
  using unsigned_less [of w, where ?'a = nat] by (simp add: unsigned_ucast_eq take_bit_nat_eq_self)

lemma madt_entry_step:
  assumes r: "read_bytes (ac_mem s) p (length (entry_bytes en)) = Some (entry_bytes en)" and f: "entry_fits en"
    and lt: "p < fin"
    and room: "length (apic_ids s) = 256" "apic_id_count s = of_nat c" "c + length (enabled_id en) \<le> 256"
  shows "\<exists>msgs. madt_loop p fin s = madt_loop (p + of_nat (length (entry_bytes en))) fin
    (s\<lparr>ac_said := msgs, apic_ids := take c (apic_ids s) @ enabled_id en @ drop (c + length (enabled_id en)) (apic_ids s),
       apic_id_count := of_nat (c + length (enabled_id en))\<rparr>)"
proof -
  have same: "enabled_id en = [] \<Longrightarrow> s\<lparr>ac_said := ac_said s,
      apic_ids := take c (apic_ids s) @ enabled_id en @ drop (c + length (enabled_id en)) (apic_ids s),
      apic_id_count := of_nat (c + length (enabled_id en))\<rparr> = s"
    using room(2) by simp
  show ?thesis
  proof (cases en)
    case (Lapic q i flags)
    have b: "ac_mem s p = Some MADT_TYPE_LAPIC" "ac_mem s (p + 1) = Some 8" "ac_mem s (p + 3) = Some i"
      using r by (simp_all add: Lapic le32_def numeral_eq_Suc bind_eq_Some_conv add.assoc MADT_TYPE_LAPIC_def)
    have "read_bytes (ac_mem s) (p + of_nat 4) 4 = Some (take 4 (drop 4 (entry_bytes en)))"
      using r by (intro read_bytes_drop [OF r]) (simp add: Lapic le32_def)
    then have fl: "field 4 (p + 4) (ac_mem s) = Some (ucast flags)"
      using field_read le_le32 by (simp add: Lapic le32_def)
    have len: "(ucast (8 :: u8) :: u64) = of_nat (length (entry_bytes en))" by (simp add: Lapic le32_def)
    show ?thesis
    proof (cases "bit flags 0")
      case True
      then have en: "enabled_id en = [i]" by (simp add: Lapic)
      then have c: "c < 256" using room(3) by simp
      then have u: "unat (of_nat c :: u64) = c" by (intro unat_of_nat_u64) simp
      let ?msgs = "(''[ACPI : SMP] Core Found: APIC ID %d'', [Num (ucast i)]) # ac_said s"
      have "(apic_ids s)[c := i] = take c (apic_ids s) @ [i] @ drop (c + 1) (apic_ids s)"
        using c room(1) by (simp add: upd_conv_take_nth_drop)
      then have "add_apic_id i (ac_say ''[ACPI : SMP] Core Found: APIC ID %d'' [Num (ucast i)] s) =
          Some (s\<lparr>ac_said := ?msgs, apic_ids := take c (apic_ids s) @ [i] @ drop (c + 1) (apic_ids s), apic_id_count := of_nat (c + 1)\<rparr>)"
        using room c u by (simp add: add_apic_id_def ac_say_def add.commute)
      from madt_loop_step(3) [OF lt b(1,2) refl fl True b(3) this] show ?thesis
        unfolding en len [symmetric] by (intro exI [of _ ?msgs]) simp
    next
      case False
      then have "enabled_id en = []" by (simp add: Lapic)
      note same = same [OF this] and step = madt_loop_step(2) [OF lt b(1,2) refl fl False]
      show ?thesis by (rule exI [of _ "ac_said s"]) (simp only: same step len)
    qed
  next
    case (Other_entry ty bs)
    have b: "ac_mem s p = Some ty" "ac_mem s (p + 1) = Some (of_nat (length bs + 2))"
      using r by (simp_all add: Other_entry numeral_eq_Suc bind_eq_Some_conv)
    have "unat (of_nat (length bs + 2) :: u8) = length bs + 2"
      using f Other_entry by (subst unat_of_nat) (simp add: take_bit_nat_eq_self)
    then have "unat (ucast (of_nat (length bs + 2) :: u8) :: u64) = length bs + 2"
      using f Other_entry by (simp only: unat_ucast_u8)
    also have "\<dots> = unat (of_nat (length bs + 2) :: u64)"
      using f Other_entry by (subst unat_of_nat_u64) simp_all
    finally have "(ucast (of_nat (length bs + 2) :: u8) :: u64) = of_nat (length (entry_bytes en))"
      using f Other_entry by (intro u64_eqI) (simp only: entry_bytes.simps length_append length_Cons list.size add.commute [of "length bs"] One_nat_def add_Suc add_0 numeral_2_eq_2)
    note len = this
    have "enabled_id en = []" "ty \<noteq> MADT_TYPE_LAPIC" using Other_entry f by simp_all
    note same = same [OF this(1)] and step = madt_loop_step(1) [OF lt b this(2)]
    show ?thesis by (rule exI [of _ "ac_said s"]) (simp only: same step len)
  qed
qed

definition table_bytes :: "madt_entry list \<Rightarrow> u8 list" where
  "table_bytes es = concat (map entry_bytes es)"

definition enabled_ids :: "madt_entry list \<Rightarrow> u8 list" where
  "enabled_ids es = concat (map enabled_id es)"

lemma entry_bytes_nonempty: "length (entry_bytes en) \<noteq> 0"
  by (cases en) simp_all

lemma madt_loop_lists:
  assumes "read_bytes (ac_mem s) p (length (table_bytes es)) = Some (table_bytes es)" "list_all entry_fits es"
    "unat p + length (table_bytes es) < 2 ^ 64"
    "length (apic_ids s) = 256" "apic_id_count s = of_nat c" "c + length (enabled_ids es) \<le> 256"
  shows "\<exists>msgs. madt_loop p (p + of_nat (length (table_bytes es))) s = Some (s\<lparr>ac_said := msgs,
    apic_ids := take c (apic_ids s) @ enabled_ids es @ drop (c + length (enabled_ids es)) (apic_ids s),
    apic_id_count := of_nat (c + length (enabled_ids es))\<rparr>)"
  using assms
proof (induction es arbitrary: p s c)
  case Nil
  then show ?case by (subst madt_loop.simps) (auto simp: table_bytes_def enabled_ids_def intro!: exI [of _ "ac_said s"])
next
  case (Cons en es)
  let ?n = "length (entry_bytes en)" and ?k = "length (table_bytes es)" and ?j = "length (enabled_id en)"
  have tb: "table_bytes (en # es) = entry_bytes en @ table_bytes es" "enabled_ids (en # es) = enabled_id en @ enabled_ids es"
    by (simp_all add: table_bytes_def enabled_ids_def)
  have r1: "read_bytes (ac_mem s) p ?n = Some (entry_bytes en)"
    using read_bytes_drop [OF Cons.prems(1), of 0 ?n] by (simp add: tb)
  have r2: "read_bytes (ac_mem s) (p + of_nat ?n) ?k = Some (table_bytes es)"
    using read_bytes_drop [OF Cons.prems(1), of ?n ?k] by (simp add: tb)
  let ?fin = "p + of_nat (length (table_bytes (en # es)))"
  have sum: "unat (p + of_nat (length (table_bytes (en # es)))) = unat p + length (table_bytes (en # es))"
    "unat (p + of_nat ?n) = unat p + ?n"
    using Cons.prems(3) by (simp_all add: unat_plus_u64 unat_of_nat_u64 tb)
  have lt: "p < ?fin" using sum(1) entry_bytes_nonempty [of en] by (simp only: word_less_nat_alt tb length_append)
  have "entry_fits en" "c + ?j \<le> 256" using Cons.prems(2,6) by (simp_all add: tb)
  from madt_entry_step [OF r1 this(1) lt Cons.prems(4,5) this(2)] obtain msgs where
    st: "madt_loop p ?fin s = madt_loop (p + of_nat ?n) ?fin
      (s\<lparr>ac_said := msgs, apic_ids := take c (apic_ids s) @ enabled_id en @ drop (c + ?j) (apic_ids s), apic_id_count := of_nat (c + ?j)\<rparr>)"
    (is "_ = madt_loop _ _ ?s") by blast
  have fin: "?fin = p + of_nat ?n + of_nat ?k" by (simp add: tb)
  have "\<exists>msgs. madt_loop (p + of_nat ?n) (p + of_nat ?n + of_nat ?k) ?s = Some (?s\<lparr>ac_said := msgs,
    apic_ids := take (c + ?j) (apic_ids ?s) @ enabled_ids es @ drop (c + ?j + length (enabled_ids es)) (apic_ids ?s),
    apic_id_count := of_nat (c + ?j + length (enabled_ids es))\<rparr>)"
    using r2 Cons.prems(2-6) sum(2) by (intro Cons.IH) (simp_all add: tb)
  then obtain msgs' where "madt_loop (p + of_nat ?n) ?fin ?s = Some (?s\<lparr>ac_said := msgs',
    apic_ids := take (c + ?j) (apic_ids ?s) @ enabled_ids es @ drop (c + ?j + length (enabled_ids es)) (apic_ids ?s),
    apic_id_count := of_nat (c + ?j + length (enabled_ids es))\<rparr>)"
    unfolding fin by blast
  moreover have "take (c + ?j) (apic_ids ?s) @ enabled_ids es @ drop (c + ?j + length (enabled_ids es)) (apic_ids ?s) =
      take c (apic_ids s) @ enabled_ids (en # es) @ drop (c + length (enabled_ids (en # es))) (apic_ids s)"
    using Cons.prems(4,6) by (simp add: tb add_ac)
  moreover have "c + ?j + length (enabled_ids es) = c + length (enabled_ids (en # es))" by (simp add: tb)
  ultimately show ?case unfolding st by (intro exI [of _ msgs']) (simp del: of_nat_add)
qed

text \<open>C39: What the firmware wrote into the table of processors is read back: from any list of well-formed entries
  of the two kinds the identities of exactly the enabled processors are stored, in the order of the table,
  after those that were there, and the count is right, as long as they fit into the array.\<close>

theorem acpi_parse_madt_lists_processors:
  assumes "field 4 (madt + 36) (ac_mem s) = Some lapic"
    "pager_map (AOS_DIRECT_MAP_BASE + lapic) lapic device_flags (ac_heap s) = Some (x, h)"
    "field 4 (madt + 4) (ac_mem s) = Some (of_nat (44 + length (table_bytes es)))"
    "read_bytes (ac_mem s) (madt + 44) (length (table_bytes es)) = Some (table_bytes es)" "list_all entry_fits es"
    "unat madt + 44 + length (table_bytes es) < 2 ^ 64"
    "length (apic_ids s) = 256" "apic_id_count s = of_nat c" "c + length (enabled_ids es) \<le> 256"
  shows "\<exists>msgs. acpi_parse_madt madt s = Some (s\<lparr>ac_heap := h, ac_said := msgs,
    apic_ids := take c (apic_ids s) @ enabled_ids es @ drop (c + length (enabled_ids es)) (apic_ids s),
    apic_id_count := of_nat (c + length (enabled_ids es))\<rparr>)"
proof -
  have u: "unat (madt + 44) = unat madt + 44" using assms(6) by (simp add: unat_plus_u64)
  have "\<exists>msgs. madt_loop (madt + 44) (madt + 44 + of_nat (length (table_bytes es))) (s\<lparr>ac_heap := h\<rparr>) =
    Some (s\<lparr>ac_heap := h, ac_said := msgs,
    apic_ids := take c (apic_ids s) @ enabled_ids es @ drop (c + length (enabled_ids es)) (apic_ids s),
    apic_id_count := of_nat (c + length (enabled_ids es))\<rparr>)"
    using madt_loop_lists [of "s\<lparr>ac_heap := h\<rparr>" "madt + 44" es c] assms(4-9) u by simp
  then obtain msgs where "madt_loop (madt + 44) (madt + 44 + of_nat (length (table_bytes es))) (s\<lparr>ac_heap := h\<rparr>) =
    Some (s\<lparr>ac_heap := h, ac_said := msgs,
    apic_ids := take c (apic_ids s) @ enabled_ids es @ drop (c + length (enabled_ids es)) (apic_ids s),
    apic_id_count := of_nat (c + length (enabled_ids es))\<rparr>)" ..
  then show ?thesis using assms(1-3)
    by (intro exI [of _ "(''[ACPI : SMP] Total APIC IDs: %d'', [Num (of_nat (c + length (enabled_ids es)))]) # msgs"])
      (simp add: acpi_parse_madt_def sizeof_madt_def ac_say_def add.assoc)
qed

subsection \<open>The searches\<close>

text \<open>The search of the extended data area ends before it starts.\<close>

lemma rsdp_in_ebda_finds_nothing:
  assumes "field 2 (AOS_DIRECT_MAP_BASE + EBDA_SEG_PTR) m = Some seg"
  shows "rsdp_in_ebda m = Some NULL"
proof -
  let ?ebda = "push_bit 4 (ucast seg :: u32)"
  have "unat (ucast ?ebda :: u64) < 4294967296" "unat (ucast (?ebda + 1024) :: u64) < 4294967296"
    by (simp_all only: unat_ucast_u32 u32_lt)
  moreover from this have "unat (AOS_DIRECT_MAP_BASE + ucast ?ebda) = 18446603336221196288 + unat (ucast ?ebda :: u64)"
    by (subst unat_plus_u64) simp_all
  ultimately have "\<not> AOS_DIRECT_MAP_BASE + ucast ?ebda < ucast (?ebda + 1024)"
    by (simp only: word_less_nat_alt)
  then show ?thesis using assms by (simp add: rsdp_in_ebda_def Let_def) (subst rsdp_scan.simps, simp)
qed

subsection \<open>Concrete cases\<close>

text \<open>A timer of 24 bits that makes 1000 ticks from one reading to the next.\<close>

definition sample_timer :: device where
  "sample_timer = \<lparr>in8 = (\<lambda>t p. 0), in16 = (\<lambda>t p. 0), in32 = (\<lambda>t p. of_nat (1000 * length t mod 2 ^ 24)), tsc = (\<lambda>t. 0),
     mmio32 = (\<lambda>t a. 0), timer = \<lparr>rdtscp_supported = False, tsc_ticks_per_ms = 0, bootup_timestamp = 0\<rparr>\<rparr>"

definition sample_acpi_env :: acpi_env where
  "sample_acpi_env = \<lparr>ac_dev = sample_timer, ac_sysmap = None, pre_shutdown = Some\<rparr>"

definition sample_acpi :: "pstate \<Rightarrow> u8 list \<Rightarrow> acpi" where
  "sample_acpi h bs = \<lparr>ac_heap = h, ac_mem = (\<lambda>a. if unat (a - 0x1000) < length bs then Some (bs ! unat (a - 0x1000)) else None),
     ac_said = [], ac_trace = [], mcfg_ptr = 0, madt_ptr = 0, fadt_ptr = 0, apic_ids = replicate 256 0, apic_id_count = 0,
     pm_timer_port = 0x608, pm_timer_24bit = True, acpi_lock = False\<rparr>"

lemma sample_read:
  assumes "k + n \<le> length bs" "length bs < 2 ^ 64"
  shows "read_bytes (ac_mem (sample_acpi h bs)) (0x1000 + of_nat k) n = Some (take n (drop k bs))"
proof -
  have "unat (0x1000 + of_nat k + of_nat i - 0x1000 :: u64) = k + i" if "i < n" for i
  proof -
    have "0x1000 + of_nat k + of_nat i - 0x1000 = (of_nat (k + i) :: u64)" by simp
    moreover have "unat (of_nat (k + i) :: u64) = k + i" using that assms by (intro unat_of_nat_u64) simp
    ultimately show ?thesis by (simp only:)
  qed
  then show ?thesis using assms by (simp add: read_bytes_iff sample_acpi_def)
qed

lemma acpi_mdelay_waits_witness:
  "\<forall>h. acpi_mdelay sample_acpi_env 1 (sample_acpi h []) =
     Some (sample_acpi h [] \<lparr>ac_trace := replicate 5 (Inl 0x608)\<rparr>)"
proof
  fix h
  have "counts (ac_dev sample_acpi_env) (ucast (pm_timer_port (sample_acpi h []))) (pm_timer_24bit (sample_acpi h []))
      (ac_trace (sample_acpi h [])) (\<lambda>k. 1000 * k)"
    by (simp add: counts_def sample_acpi_env_def sample_timer_def sample_acpi_def timer_range_def)
  from acpi_mdelay_waits [OF this, of 1 4]
  show "acpi_mdelay sample_acpi_env 1 (sample_acpi h []) =
     Some (sample_acpi h [] \<lparr>ac_trace := replicate 5 (Inl 0x608)\<rparr>)"
    by (simp add: sample_acpi_def)
qed

definition sample_entries :: "madt_entry list" where
  "sample_entries = [Lapic 0 0 1, Other_entry 1 [7, 7], Lapic 1 2 0, Lapic 2 5 1]"

definition sample_madt :: "u8 list" where
  "sample_madt = [0x41, 0x50, 0x49, 0x43] @ le32 (of_nat (44 + length (table_bytes sample_entries))) @ replicate 28 0 @
     le32 0xFEE00000 @ le32 1 @ table_bytes sample_entries"

lemma sample_table:
  "table_bytes sample_entries = [0, 8, 0, 0, 1, 0, 0, 0, 1, 4, 7, 7, 0, 8, 1, 2, 0, 0, 0, 0, 0, 8, 2, 5, 1, 0, 0, 0]"
  "enabled_ids sample_entries = [0, 5]"
  by (simp_all add: table_bytes_def enabled_ids_def sample_entries_def le32_def)

lemma sample_madt_parts:
  "length sample_madt = 72" "take 4 (drop 4 sample_madt) = [72, 0, 0, 0]"
  "take 4 (drop 36 sample_madt) = [0, 0, 0xE0, 0xFE]" "take 28 (drop 44 sample_madt) = table_bytes sample_entries"
  unfolding sample_madt_def sample_table by (simp_all add: le32_def)

lemma sample_madt_reads:
  "field 4 (0x1000 + 4) (ac_mem (sample_acpi h sample_madt)) = Some 72"
  "field 4 (0x1000 + 36) (ac_mem (sample_acpi h sample_madt)) = Some 0xFEE00000"
  "read_bytes (ac_mem (sample_acpi h sample_madt)) (0x1000 + 44) 28 = Some (table_bytes sample_entries)"
  using field_read [OF sample_read [of 4 4 sample_madt h]] field_read [OF sample_read [of 36 4 sample_madt h]]
    sample_read [of 44 28 sample_madt h]
  by (simp_all add: sample_madt_parts del: read_bytes_numeral)

lemma acpi_parse_madt_lists_processors_witness:
  "\<forall>h :: pstate. \<exists>s'. acpi_parse_madt 0x1000 (sample_acpi (h\<lparr>cpu_phys_bits := 36, kernel_pml4 := (kernel_pml4 h)\<lparr>table := NULL\<rparr>\<rparr>) sample_madt) = Some s' \<and>
     take 2 (apic_ids s') = [0, 5] \<and> apic_id_count s' = 2"
proof
  fix h :: pstate
  let ?h = "h\<lparr>cpu_phys_bits := 36, kernel_pml4 := (kernel_pml4 h)\<lparr>table := NULL\<rparr>\<rparr>"
  let ?s = "sample_acpi ?h sample_madt"
  have p: "pager_map (AOS_DIRECT_MAP_BASE + 0xFEE00000) 0xFEE00000 device_flags (ac_heap ?s) = Some (NULL, ?h)"
    by (simp add: pager_map_def pager_map_with_def phys_too_big_def sample_acpi_def)
  have n: "length (table_bytes sample_entries) = 28" by (simp add: sample_table)
  have len: "field 4 (0x1000 + 4) (ac_mem ?s) = Some (of_nat (44 + length (table_bytes sample_entries)))"
    unfolding n sample_madt_reads(1) by simp
  have rd: "read_bytes (ac_mem ?s) (0x1000 + 44) (length (table_bytes sample_entries)) = Some (table_bytes sample_entries)"
    unfolding n by (rule sample_madt_reads(3))
  have "list_all entry_fits sample_entries" by (simp add: sample_entries_def MADT_TYPE_LAPIC_def)
  note parse = acpi_parse_madt_lists_processors [OF sample_madt_reads(2) p len rd this, of 0]
  have "unat (0x1000 :: u64) + 44 + length (table_bytes sample_entries) < 2 ^ 64" "length (apic_ids ?s) = 256"
    "apic_id_count ?s = of_nat 0" "0 + length (enabled_ids sample_entries) \<le> 256"
    by (simp_all add: n sample_table(2) sample_acpi_def)
  from parse [OF this] obtain msgs where "acpi_parse_madt 0x1000 ?s = Some (?s\<lparr>ac_heap := ?h, ac_said := msgs,
      apic_ids := take 0 (apic_ids ?s) @ enabled_ids sample_entries @ drop (0 + length (enabled_ids sample_entries)) (apic_ids ?s),
      apic_id_count := of_nat (0 + length (enabled_ids sample_entries))\<rparr>)" ..
  then show "\<exists>s'. acpi_parse_madt 0x1000 ?s = Some s' \<and> take 2 (apic_ids s') = [0, 5] \<and> apic_id_count s' = 2"
    by (simp add: sample_table(2))
qed

end
