(* ===== verification/KAlloc.thy ===== *)
theory KAlloc
  imports Serial Descriptors
begin

text \<open>
  The allocator of linked blocks in \<^verbatim>\<open>Kernel/src/kfuncs.c\<close>: \<open>kmalloc\<close>, \<open>klink\<close>, \<open>kfree\<close>, \<open>kcalloc\<close> and
  \<open>krealloc\<close>. A block is what \<open>avmf_alloc\<close> gives, with a header of 40 bytes in front: a signature, the
  size, and the next and the previous block of its chain. Headers are bytes in memory. The pages of
  a block that is freed are unmapped: a header in them cannot be read any more.
\<close>

subsection \<open>State\<close>

record kalloc =
  ka_heap :: pstate
  ka_mem :: mem

definition ALLOC_HDR_SIG :: "u8 list" where
  "ALLOC_HDR_SIG = [0x41, 0x4F, 0x53, 0x5F, 0x41, 0x4C, 0x4C, 0x4F, 0x43, 0]"

definition ALLOC_HDR_SIG_LEN :: nat where "ALLOC_HDR_SIG_LEN = 10"

text \<open>The offsets of the fields, and the size, of \<open>struct alloc_hdr\<close>, which is not packed.\<close>

definition HDR_SIZE :: u64 where "HDR_SIZE = 16"
definition HDR_NXT :: u64 where "HDR_NXT = 24"
definition HDR_PREV :: u64 where "HDR_PREV = 32"
definition sizeof_alloc_hdr :: u64 where "sizeof_alloc_hdr = 40"

definition word_at :: "u64 \<Rightarrow> kalloc \<Rightarrow> u64 option" where
  "word_at a s = do { bs \<leftarrow> read_bytes (ka_mem s) a 8; Some (le bs) }"

definition put_bytes :: "u64 \<Rightarrow> u8 list \<Rightarrow> kalloc \<Rightarrow> kalloc option" where
  "put_bytes a bs s = do { m \<leftarrow> write_bytes a bs (ka_mem s); Some (s\<lparr>ka_mem := m\<rparr>) }"

definition put_word :: "u64 \<Rightarrow> u64 \<Rightarrow> kalloc \<Rightarrow> kalloc option" where
  "put_word a w s = put_bytes a (qword_bytes w) s"

text \<open>
  The comparison of the signature, which stops at the first difference; \<open>memcmp\<close> of the null
  pointer is \<open>- 1\<close> and reads nothing.
\<close>

fun same_text :: "u64 \<Rightarrow> u8 list \<Rightarrow> mem \<Rightarrow> bool option" where
  "same_text p [] m = Some True"
| "same_text p (c # cs) m = do { b \<leftarrow> m p; if b = c then same_text (p + 1) cs m else Some False }"

definition has_sig :: "u64 \<Rightarrow> kalloc \<Rightarrow> bool option" where
  "has_sig hdr s = (if hdr = NULL then Some False else same_text hdr ALLOC_HDR_SIG (ka_mem s))"

subsection \<open>Operations\<close>

text \<open>The argument \<open>junk\<close> is what fresh memory holds. The sum of the size and the header can wrap.\<close>

definition kmalloc :: "(u64 \<Rightarrow> u8) \<Rightarrow> u64 \<Rightarrow> kalloc \<Rightarrow> (u64 \<times> kalloc) option" where
  "kmalloc junk size_of s = do {
     (out, _, h) \<leftarrow> avmf_alloc pager_map (size_of + sizeof_alloc_hdr) MALLOC_TYPE_USER
       (AVMF_FLAG_RW OR AVMF_FLAG_USERMODE) (ka_heap s);
     let s = s\<lparr>ka_heap := h\<rparr>;
     if out = NULL then Some (NULL, s)
     else do {
       let s = s\<lparr>ka_mem := map_fresh junk out (unat (align4k (size_of + sizeof_alloc_hdr))) (ka_mem s)\<rparr>;
       s \<leftarrow> put_bytes out ALLOC_HDR_SIG s;
       s \<leftarrow> put_word (out + HDR_SIZE) size_of s;
       s \<leftarrow> put_word (out + HDR_NXT) NULL s;
       s \<leftarrow> put_word (out + HDR_PREV) NULL s;
       Some (out + sizeof_alloc_hdr, s)
     }
   }"

text \<open>Neither the pointers nor the signatures are looked at, and links that are there are lost.\<close>

definition klink :: "u64 \<Rightarrow> u64 \<Rightarrow> kalloc \<Rightarrow> kalloc option" where
  "klink ptr1 ptr2 s = do {
     let hdr1 = ptr1 - sizeof_alloc_hdr;
     let hdr2 = ptr2 - sizeof_alloc_hdr;
     s \<leftarrow> put_word (hdr1 + HDR_NXT) hdr2 s;
     put_word (hdr2 + HDR_PREV) hdr1 s
   }"

text \<open>\<open>avmf_free\<close> of a block, which unmaps its pages.\<close>

definition free_block :: "u64 \<Rightarrow> kalloc \<Rightarrow> kalloc option" where
  "free_block a s = do {
     h \<leftarrow> avmf_free pager_map pager_unmap a (ka_heap s);
     Some (s\<lparr>ka_heap := h, ka_mem := unmap_block (freed_block a (ka_heap s)) (ka_mem s)\<rparr>)
   }"

partial_function (option) kfree_loop :: "u64 \<Rightarrow> kalloc \<Rightarrow> kalloc option" where
  "kfree_loop hdr s =
     (if hdr = NULL then Some s
      else do {
        ok \<leftarrow> has_sig hdr s;
        if \<not> ok then Some s
        else do {
          nxt \<leftarrow> word_at (hdr + HDR_NXT) s;
          s \<leftarrow> free_block hdr s;
          kfree_loop nxt s
        }
      })"

definition kfree :: "u64 \<Rightarrow> kalloc \<Rightarrow> kalloc option" where
  "kfree ptr s = kfree_loop (ptr - sizeof_alloc_hdr) s"

definition kcalloc :: "(u64 \<Rightarrow> u8) \<Rightarrow> u64 \<Rightarrow> u64 \<Rightarrow> kalloc \<Rightarrow> (u64 \<times> kalloc) option" where
  "kcalloc junk nmemb size_of s = do {
     (out, s) \<leftarrow> kmalloc junk (nmemb * size_of) s;
     if out = NULL then Some (NULL, s)
     else do {
       (_, m) \<leftarrow> memset out 0 (size_of * nmemb) (ka_mem s);
       Some (out, s\<lparr>ka_mem := m\<rparr>)
     }
   }"

text \<open>What is copied has the old size, whichever of the two is larger.\<close>

definition krealloc :: "(u64 \<Rightarrow> u8) \<Rightarrow> u64 \<Rightarrow> u64 \<Rightarrow> kalloc \<Rightarrow> (u64 \<times> kalloc) option" where
  "krealloc junk ptr new_size s =
     (if ptr = NULL then kmalloc junk new_size s
      else do {
        let hdr = ptr - sizeof_alloc_hdr;
        ok \<leftarrow> has_sig hdr s;
        if \<not> ok then Some (NULL, s)
        else do {
          (out, s) \<leftarrow> kmalloc junk new_size s;
          if out = NULL then Some (NULL, s)
          else do {
            old \<leftarrow> word_at (hdr + HDR_SIZE) s;
            (_, m) \<leftarrow> memcpy out ptr old (ka_mem s);
            s \<leftarrow> kfree ptr (s\<lparr>ka_mem := m\<rparr>);
            Some (out, s)
          }
        }
      })"

subsection \<open>Chains\<close>

text \<open>\<open>chain s p hs e\<close>: from the header \<open>p\<close> on, the signed headers \<open>hs\<close> follow each other, and the last one leads to \<open>e\<close>.\<close>

fun chain :: "kalloc \<Rightarrow> u64 \<Rightarrow> u64 list \<Rightarrow> u64 \<Rightarrow> bool" where
  "chain s p [] e = (p = e)"
| "chain s p (h # hs) e = (h = p \<and> p \<noteq> NULL \<and> has_sig p s = Some True \<and>
     (\<exists>nxt. word_at (p + HDR_NXT) s = Some nxt \<and> chain s nxt hs e))"

lemma chain_append: "chain s p (hs @ ks) e \<longleftrightarrow> (\<exists>m. chain s p hs m \<and> chain s m ks e)"
  by (induction hs arbitrary: p) auto

fun free_blocks :: "u64 list \<Rightarrow> kalloc \<Rightarrow> kalloc option" where
  "free_blocks [] s = Some s"
| "free_blocks (p # ps) s = do { s \<leftarrow> free_block p s; free_blocks ps s }"

text \<open>
  The bytes of the header \<open>p\<close> are those they were in \<open>s0\<close>; and each header of a chain is so when the
  blocks before it have been freed. Blocks with pages of their own have this.
\<close>

definition header_kept :: "kalloc \<Rightarrow> kalloc \<Rightarrow> u64 \<Rightarrow> bool" where
  "header_kept s0 s p \<longleftrightarrow> (\<forall>k < 40. ka_mem s (p + of_nat k) = ka_mem s0 (p + of_nat k))"

definition headers_kept :: "kalloc \<Rightarrow> kalloc \<Rightarrow> u64 list \<Rightarrow> bool" where
  "headers_kept s0 s hs \<longleftrightarrow> (\<forall>ps p qs s1. hs = ps @ p # qs \<and> free_blocks ps s = Some s1 \<longrightarrow> header_kept s0 s1 p)"

lemma same_text_cong:
  "\<forall>k < length cs. m1 (p + of_nat k) = m2 (p + of_nat k) \<Longrightarrow> same_text p cs m1 = same_text p cs m2"
proof (induction cs arbitrary: p)
  case (Cons c cs)
  have "m1 p = m2 p" using Cons.prems by (auto dest: spec [of _ 0])
  moreover have "m1 (p + 1 + of_nat k) = m2 (p + 1 + of_nat k)" if "k < length cs" for k
    using Cons.prems that by (auto dest!: spec [of _ "Suc k"] simp: add.assoc)
  then have "same_text (p + 1) cs m1 = same_text (p + 1) cs m2" by (intro Cons.IH) simp
  ultimately show ?case by (cases "m2 p") simp_all
qed simp

lemma header_kept_reads:
  assumes "header_kept s0 s p"
  shows "has_sig p s = has_sig p s0" "word_at (p + HDR_NXT) s = word_at (p + HDR_NXT) s0"
proof -
  have k: "ka_mem s (p + of_nat k) = ka_mem s0 (p + of_nat k)" if "k < 40" for k
    using assms that by (simp add: header_kept_def)
  show "has_sig p s = has_sig p s0"
    using same_text_cong [of ALLOC_HDR_SIG "ka_mem s" p "ka_mem s0"] k
    by (simp add: has_sig_def ALLOC_HDR_SIG_def)
  have "ka_mem s (p + HDR_NXT + of_nat j) = ka_mem s0 (p + HDR_NXT + of_nat j)" if "j < 8" for j
    using k [of "24 + j"] that by (simp add: HDR_NXT_def add.assoc)
  then show "word_at (p + HDR_NXT) s = word_at (p + HDR_NXT) s0"
    using read_bytes_frame [of 8 "ka_mem s" "p + HDR_NXT" "ka_mem s0"] by (simp add: word_at_def del: read_bytes_numeral)
qed

lemma kfree_loop_chain:
  "\<lbrakk>chain s0 p hs e; headers_kept s0 s hs\<rbrakk> \<Longrightarrow> kfree_loop p s = free_blocks hs s \<bind> kfree_loop e"
proof (induction hs arbitrary: p s)
  case (Cons q hs)
  from Cons.prems(1) obtain nxt where n: "q = p" "p \<noteq> NULL" "has_sig p s0 = Some True"
    "word_at (p + HDR_NXT) s0 = Some nxt" "chain s0 nxt hs e" by auto
  have "header_kept s0 s p"
    using Cons.prems(2) n(1) unfolding headers_kept_def by (metis append_Nil free_blocks.simps(1))
  note reads = header_kept_reads [OF this]
  have loop: "kfree_loop p s = free_block p s \<bind> kfree_loop nxt"
    using n reads by (subst kfree_loop.simps) simp
  show ?case
  proof (cases "free_block p s")
    case None
    then show ?thesis using loop n(1) by simp
  next
    case (Some s')
    have "headers_kept s0 s' hs"
      unfolding headers_kept_def
    proof (intro allI impI)
      fix ps r qs s1
      assume *: "hs = ps @ r # qs \<and> free_blocks ps s' = Some s1"
      then have "q # hs = (q # ps) @ r # qs" "free_blocks (q # ps) s = Some s1" using Some n(1) by simp_all
      then show "header_kept s0 s1 r" using Cons.prems(2) unfolding headers_kept_def by blast
    qed
    then show ?thesis using loop Some n(1) Cons.IH [OF n(5)] by simp
  qed
qed simp

lemma kfree_loop_end:
  "p = NULL \<or> has_sig p s = Some False \<Longrightarrow> kfree_loop p s = Some s"
  "has_sig p s = None \<Longrightarrow> kfree_loop p s = None"
  by (subst kfree_loop.simps, auto, subst kfree_loop.simps, auto simp: has_sig_def)

lemma has_sig_unmapped: "p \<noteq> NULL \<Longrightarrow> ka_mem s p = None \<Longrightarrow> has_sig p s = None"
  by (simp add: has_sig_def ALLOC_HDR_SIG_def)

lemma headers_kept_single: "headers_kept s s [p]"
  by (auto simp: headers_kept_def header_kept_def Cons_eq_append_conv)

text \<open>C40: Freeing a block frees exactly the blocks of the chain that starts with it, each once, in the order of the links,
  with the addresses of their headers, and unmaps their pages. Each header is read before its block is
  freed: what is needed is only that the blocks before it in the chain do not take its bytes along. The chain ends at the null
  pointer or at something without the signature. A chain that leads to memory that is no longer mapped when it gets there, such as a
  block that has been freed already, has no result: the access faults.\<close>

theorem kfree_frees_chain:
  assumes "chain s (ptr - sizeof_alloc_hdr) hs e"
  shows "((e = NULL \<and> headers_kept s s hs) \<or> (has_sig e s = Some False \<and> headers_kept s s (hs @ [e])) \<longrightarrow>
      kfree ptr s = free_blocks hs s) \<and>
    (\<forall>ps p qs. hs @ [e] = ps @ p # qs \<and> p \<noteq> NULL \<and> headers_kept s s ps \<and>
      (\<forall>s1. free_blocks ps s = Some s1 \<longrightarrow> ka_mem s1 p = None) \<longrightarrow> kfree ptr s = None)"
proof (intro conjI impI allI)
  assume e: "(e = NULL \<and> headers_kept s s hs) \<or> (has_sig e s = Some False \<and> headers_kept s s (hs @ [e]))"
  have kept: "headers_kept s s hs" and last: "free_blocks hs s = Some s1 \<Longrightarrow> e = NULL \<or> has_sig e s1 = Some False" for s1
    using e header_kept_reads(1) unfolding headers_kept_def by (fastforce, metis)
  then show "kfree ptr s = free_blocks hs s"
    using kfree_loop_chain [OF assms kept] last
    by (cases "free_blocks hs s") (simp_all add: kfree_def kfree_loop_end(1))
next
  fix ps p qs
  assume p: "hs @ [e] = ps @ p # qs \<and> p \<noteq> NULL \<and> headers_kept s s ps \<and>
      (\<forall>s1. free_blocks ps s = Some s1 \<longrightarrow> ka_mem s1 p = None)"
  have "chain s (ptr - sizeof_alloc_hdr) ps p"
    using assms p by (cases qs rule: rev_cases) (auto simp: chain_append)
  then show "kfree ptr s = None"
    using kfree_loop_chain p by (cases "free_blocks ps s") (auto simp: kfree_def kfree_loop_end(2) has_sig_unmapped)
qed

text \<open>Two blocks that are linked, freed from the first; and the first alone, when the second has been freed before.\<close>

definition block_heap :: pstate where
  "block_heap = log_heap\<lparr> headers := [0x400000 \<mapsto> (new_alloc_header 0x10000 0x10000 0x1000)\<lparr> h_next := 0x400048 \<rparr>,
       0x400048 \<mapsto> new_alloc_header 0x20000 0x20000 0x1000],
     regions := [empty_region\<lparr> signature := AVMF_SIGNATURE, version := AVMF_VERSION,
       base := AOS_USER_SPACE_BASE, limit := AOS_USER_SPACE_BASE_END, allocated_bytes := 0x2000,
       alloc_list := 0x400000, alloc_count := 2, alloc_list_end := 0x400000 \<rparr>] \<rparr>"

definition sample_blocks :: kalloc where
  "sample_blocks = \<lparr>ka_heap = block_heap, ka_mem = (\<lambda>a. Some 0)(
     0x10000 \<mapsto> 0x41, 0x10001 \<mapsto> 0x4f, 0x10002 \<mapsto> 0x53, 0x10003 \<mapsto> 0x5f, 0x10004 \<mapsto> 0x41, 0x10005 \<mapsto> 0x4c, 0x10006 \<mapsto> 0x4c, 0x10007 \<mapsto> 0x4f, 0x10008 \<mapsto> 0x43,
     0x1001a \<mapsto> 0x02, 0x20000 \<mapsto> 0x41, 0x20001 \<mapsto> 0x4f, 0x20002 \<mapsto> 0x53, 0x20003 \<mapsto> 0x5f, 0x20004 \<mapsto> 0x41, 0x20005 \<mapsto> 0x4c, 0x20006 \<mapsto> 0x4c, 0x20007 \<mapsto> 0x4f, 0x20008 \<mapsto> 0x43)\<rparr>"

definition dangling_blocks :: kalloc where
  "dangling_blocks = sample_blocks\<lparr>ka_mem := unmap_block (Some (0x20000, 0x1000)) (ka_mem sample_blocks)\<rparr>"

lemma block_heap_freed: "freed_block 0x10000 block_heap = Some (0x10000, 0x1000)"
  by (simp add: block_heap_def log_heap_def freed_block_def avmf_find_region_def region_ok_def region_score_def
    find_alloc.simps header_bad_def new_alloc_header_def empty_region_def)

lemma sample_blocks_chain: "chain sample_blocks 0x10000 [0x10000, 0x20000] NULL"
proof -
  have "has_sig 0x10000 sample_blocks = Some True" "has_sig 0x20000 sample_blocks = Some True"
    by (simp_all add: sample_blocks_def has_sig_def ALLOC_HDR_SIG_def)
  moreover have "word_at (0x10000 + HDR_NXT) sample_blocks = Some 0x20000" "word_at (0x20000 + HDR_NXT) sample_blocks = Some 0"
    by (simp_all add: sample_blocks_def word_at_def HDR_NXT_def)
  ultimately show ?thesis by simp
qed

lemma sample_blocks_kept: "headers_kept sample_blocks sample_blocks [0x10000, 0x20000]"
  unfolding headers_kept_def
proof (intro allI impI, elim conjE)
  fix ps p qs s1
  assume split: "[0x10000, 0x20000] = ps @ p # qs" and s1: "free_blocks ps sample_blocks = Some s1"
  from split consider "ps = []" | "ps = [0x10000]" "p = 0x20000" by (cases ps) (auto simp: Cons_eq_append_conv)
  then show "header_kept sample_blocks s1 p"
  proof cases
    case 1
    then show ?thesis using s1 by (simp add: header_kept_def)
  next
    case 2
    have "ka_mem s1 = unmap_block (Some (0x10000, 0x1000)) (ka_mem sample_blocks)"
      using s1 2(1) block_heap_freed by (auto simp: free_block_def sample_blocks_def bind_eq_Some_conv)
    moreover have "\<not> unat (0x20000 + of_nat k - 0x10000 :: u64) < 0x1000" if "k < 40" for k
    proof -
      have "(0x20000 + of_nat k - 0x10000 :: u64) = of_nat (0x10000 + k)" by simp
      then show ?thesis using that by (simp only: unat_of_nat_u64)
    qed
    ultimately show ?thesis using 2(2) by (simp add: header_kept_def unmap_block_def)
  qed
qed

lemma dangling_blocks_unmapped: "ka_mem dangling_blocks 0x20000 = None"
  by (simp add: dangling_blocks_def unmap_block_def)

lemma dangling_blocks_chain: "chain dangling_blocks 0x10000 [0x10000] 0x20000"
proof -
  have "has_sig 0x10000 dangling_blocks = Some True" "word_at (0x10000 + HDR_NXT) dangling_blocks = Some 0x20000"
    by (simp_all add: dangling_blocks_def sample_blocks_def has_sig_def ALLOC_HDR_SIG_def word_at_def HDR_NXT_def unmap_block_def)
  then show ?thesis by simp
qed

lemma kfree_frees_chain_witness:
  "kfree 0x10028 sample_blocks = free_blocks [0x10000, 0x20000] sample_blocks \<and> kfree 0x10028 dangling_blocks = None"
proof
  have p: "(0x10028 :: u64) - sizeof_alloc_hdr = 0x10000" by (simp add: sizeof_alloc_hdr_def)
  have c: "chain sample_blocks (0x10028 - sizeof_alloc_hdr) [0x10000, 0x20000] NULL"
    "chain dangling_blocks (0x10028 - sizeof_alloc_hdr) [0x10000] 0x20000"
    unfolding p by (rule sample_blocks_chain, rule dangling_blocks_chain)
  show "kfree 0x10028 sample_blocks = free_blocks [0x10000, 0x20000] sample_blocks"
    by (rule mp [OF conjunct1 [OF kfree_frees_chain [OF c(1)]]]) (simp add: sample_blocks_kept)
  have "ka_mem s1 0x20000 = None" if "free_blocks [0x10000] dangling_blocks = Some s1" for s1
    using that by (auto simp: free_block_def bind_eq_Some_conv unmap_block_def dangling_blocks_unmapped)
  then have "[0x10000] @ [0x20000] = [0x10000] @ 0x20000 # [] \<and> (0x20000 :: u64) \<noteq> NULL \<and>
      headers_kept dangling_blocks dangling_blocks [0x10000] \<and>
      (\<forall>s1. free_blocks [0x10000] dangling_blocks = Some s1 \<longrightarrow> ka_mem s1 0x20000 = None)"
    using headers_kept_single by simp
  with conjunct2 [OF kfree_frees_chain [OF c(2)]] show "kfree 0x10028 dangling_blocks = None"
    by (elim allE mp)
qed

end
