(* ===== verification/Spec2Isabelle.thy ===== *)
theory Spec2Isabelle
  imports KMem KConv KTime KBoot AvmfSpec PagerSpec Ata Console Descriptors SmpSpec AmlSpec Drive FsSpec AcpiSpec KAlloc
begin

text \<open>
  A model of the AOS kernel (\<^verbatim>\<open>Kernel/\<close> and \<^verbatim>\<open>Headers/\<close>), a single-address-space kernel for x64
  written in C, and theorems about it.

  \<^bold>\<open>The program.\<close> A boot loader leaves a list of UniBoot nodes in memory. The kernel checks them
  (\<^verbatim>\<open>kfuncs.c\<close>, \<open>kinit_bootinfo\<close>), starts the memory manager (\<^verbatim>\<open>mm/avmf.c\<close>) and the page tables
  (\<^verbatim>\<open>mm/pager.c\<close>), which call each other: the manager maps what it allocates through the pager, the
  pager takes its tables from the manager. Everything printed goes through \<^verbatim>\<open>drivers/io/io.c\<close>: to
  the serial port, to the kernel log, and to the screen, which is VGA text or the framebuffer of
  \<^verbatim>\<open>drivers/core/framebuffer.c\<close>. The same file drives the ATA disks and the PS/2 controller, on
  which \<^verbatim>\<open>drivers/keyboard/keyboard.c\<close> and the line editor rest.

  \<^bold>\<open>Conventions.\<close> Machine integers are words of their width. Memory is a map from 64-bit addresses to
  bytes; an access outside its domain, like anything else that faults, is undefined in C or does not
  return, is \<open>None\<close>. Where bytes are allocated and freed (\<open>Serial\<close>, \<open>Smp\<close>, \<open>KAlloc\<close>), the pages of a block
  that \<open>avmf_free\<close> releases leave that domain. Objects the C code reaches by pointer and field by field (headers, ranges,
  page tables, boot nodes) are in stores of records, one per C type. State that C keeps in file
  variables is a record that every operation takes and returns. Loops that need not end are
  \<open>partial_function\<close>s, so that not ending is \<open>None\<close> as well; a theorem that such code returns says
  \<open>\<exists>r. f x = Some r\<close>. No fuel is used anywhere. The machine is one processor; a lock is a flag, and
  taking one that is held does not return (the locks of the pager, of files and of ACPI are modelled,
  the others are taken and released within one function and change nothing else).

  \<^bold>\<open>Theories.\<close>
  \<^item> \<open>Prelude\<close>: widths, alignment, lemmas on words and on polling loops.
  \<^item> \<open>KMem\<close>: \<open>memset\<close>, \<open>memcpy\<close>, \<open>memmove\<close>, \<open>memcmp\<close> and the string functions, over the x86 string
    instructions they are written with. The theorems give their contracts for every overlap.
  \<^item> \<open>KConv\<close>: classes of characters, parsing and printing of integers in any base; round trip,
    saturation, bounds.
  \<^item> \<open>KTime\<close>: the calendar, the calibration of the time-stamp counter, delays.
  \<^item> \<open>KBoot\<close>: the boot nodes; which lists are accepted, and that AVX is never enabled.
  \<^item> \<open>AvmfTypes\<close>, \<open>AvmfPhys\<close>, \<open>AvmfRange\<close>, \<open>AvmfHeader\<close>, \<open>Avmf\<close>: the memory manager by its
    parts, the bitmap of physical pages, the free ranges of a region, the lists of headers, and
    the operations on top of them. \<open>AvmfSpec\<close> proves what the regions are after \<open>avmf_init\<close>, what an
    allocation does, and where a free is lost.
  \<^item> \<open>Pager\<close>: four-level page tables. \<open>PagerSpec\<close> defines the walk that the processor does and
    proves \<open>pager_map\<close> and \<open>pager_unmap\<close> against it, and composes the pager with the manager.
  \<^item> \<open>IoPorts\<close>: port instructions as events of a trace. What a device answers is an arbitrary
    function of the trace so far, the clock included.
  \<^item> \<open>Ata\<close>: identification, reading and writing of sectors; what commands the drive sees.
  \<^item> \<open>Keyboard\<close>: the controller, the key state, the characters.
  \<^item> \<open>Framebuffer\<close>: pixels, rectangles, characters, scrolling; every write stays inside.
  \<^item> \<open>Printf\<close>: the formatter that \<open>serial_printf\<close> and \<open>vmem_printf\<close> share, over an abstract printer,
    with a locale \<open>text_printer\<close> in which it is proved to print what a format denotes. \<open>Serial\<close>
    interprets the locale for the serial port, and has the kernel log, which stays in its memory also when it
    moves to more of it.
  \<^item> \<open>Vmem\<close>: the screen. \<open>Console\<close>: the line editor, over keyboard and screen.
  \<^item> \<open>Descriptors\<close>: segments, task states and interrupt gates (\<^verbatim>\<open>tss_gdt.c\<close>, \<^verbatim>\<open>idt.c\<close>), with what the
    processor reads in their bytes; the theorems say what each selector and each vector then means.
  \<^item> \<open>Smp\<close>: \<^verbatim>\<open>smp.c\<close> and the assembly that switches threads: processors, threads, their queues, commands.
    \<open>SmpSpec\<close> proves how a thread starts, that a queue is first in first out, and what reserving a
    processor does, over the loop that the processor runs.
  \<^item> \<open>Aml\<close>: \<^verbatim>\<open>aml_parser.c\<close>, the parser of ACPI machine language with its pools. \<open>AmlSpec\<close> proves on which
    input it returns, what it makes of encoded objects, and the round trip of package lengths.
  \<^item> \<open>Module\<close>: \<^verbatim>\<open>module.c\<close>, the modules and their lookup. \<open>ModuleSpec\<close> has the locale \<open>registry\<close>, interpreted on
    them, and the lookup as a search. \<open>Pcie\<close>: \<^verbatim>\<open>pcie.c\<close>, the configuration space; \<open>PcieSpec\<close> proves the three
    nested loops equal to a search of the list of functions. \<open>Drive\<close>: \<^verbatim>\<open>drive.c\<close> and \<^verbatim>\<open>gpu.c\<close>, which drive and
    which screen is used.
  \<^item> \<open>KAlloc\<close>: the linked blocks of \<^verbatim>\<open>kfuncs.c\<close>, and that freeing one frees its chain, reads no header
    after its block is freed, and faults on a link into freed memory.
  \<^item> \<open>Fs\<close>: \<^verbatim>\<open>fs.c\<close>, open files. \<open>FsSpec\<close> proves that a loaded file refines an array of bytes with a cursor,
    that no lock stays held, and what a flush costs the next reads.
  \<^item> \<open>Acpi\<close>: \<^verbatim>\<open>acpi.c\<close>, the tables of the firmware, the timer, reboot and shutdown. \<open>AcpiSpec\<close> proves the delay
    over a timer that overflows and the reading of the list of processors.

  \<^bold>\<open>Not modelled.\<close> Floating point (\<open>kstr_to_double\<close>, \<open>kdouble_to_str\<close>; the text of a double is an
  argument of the formatter). Interrupts that come between two instructions, and several processors at
  once: the steps of different processors are interleaved only as whole calls. PBFS, the file system, is
  a submodule: its records are type variables and its functions arguments. The drivers of NVMe, SATA and
  USB and the accelerated screen work on memory that the device writes as well, which the model of a
  device here does not cover; what the kernel takes from them is an argument. The reports of exceptions, the start of the kernel with its shell, the fonts, the
  vendored constants of \<^verbatim>\<open>elf.h\<close> and the boot loaders, which are programs of their own, are not modelled.
\<close>

end
